(* ===== verification/Prelude.thy ===== *)
theory Prelude
  imports Main "HOL-Library.Word" "HOL-Library.Monad_Syntax"
begin

text \<open>
  Shared ground of the development: the machine types, the value that stands for a C run
  that aborts (a failed \<open>assert\<close>) or is undefined (an access outside an object), array
  stores, and the lemma collections the component theories use.

  A C function that can abort or be undefined is modelled with result type \<open>'a option\<close>:
  \<open>None\<close> is the abort, \<open>Some\<close> the normal return. Errors that the code reports as values
  (a status, a state, \<open>NULL\<close>) stay values under \<open>Some\<close>.
\<close>

section \<open>Machine types\<close>

type_synonym byte = "8 word"
type_synonym u16 = "16 word"
type_synonym u64 = "64 word"

section \<open>Collections\<close>

named_theorems buf_laws \<open>contents, room and invariant after a buffer operation\<close>
named_theorems frame_laws \<open>what an operation leaves unchanged\<close>

section \<open>Aborting runs\<close>

definition c_assert :: "bool \<Rightarrow> unit option" where
  "c_assert P = (if P then Some () else None)"

lemma c_assert_True [simp]: "c_assert True = Some ()"
  by (simp add: c_assert_def)

lemma c_assert_False [simp]: "c_assert False = None"
  by (simp add: c_assert_def)

lemma c_assert_bind: "(c_assert P \<bind> f) = (if P then f () else None)"
  by (simp add: c_assert_def)

lemma bind_SomeE:
  assumes "(m \<bind> f) = Some y"
  obtains x where "m = Some x" "f x = Some y"
  using assms by (cases m) auto

section \<open>Arrays\<close>

text \<open>\<open>memcpy (d + i, bs, length bs)\<close> on the array \<open>d\<close>.\<close>

definition store_at :: "nat \<Rightarrow> 'a list \<Rightarrow> 'a list \<Rightarrow> 'a list" where
  "store_at i bs d = take i d @ bs @ drop (i + length bs) d"

lemma length_store_at [simp]:
  "i + length bs \<le> length d \<Longrightarrow> length (store_at i bs d) = length d"
  by (simp add: store_at_def)

lemma take_store_at [simp]: "i \<le> length d \<Longrightarrow> take i (store_at i bs d) = take i d"
  by (simp add: store_at_def)

lemma store_at_window:
  assumes "r \<le> w" "w \<le> length d"
  shows "take (w + length bs - r) (drop r (store_at w bs d)) = take (w - r) (drop r d) @ bs"
proof -
  have "drop r (store_at w bs d) = drop r (take w d) @ bs @ drop (w + length bs) d"
    using assms by (simp add: store_at_def)
  moreover have "length (drop r (take w d)) = w - r"
    using assms by simp
  moreover have "drop r (take w d) = take (w - r) (drop r d)"
    by (simp add: drop_take)
  ultimately show ?thesis
    using assms by simp
qed

lemma store_at_nil [simp]: "store_at i [] d = d"
  by (simp add: store_at_def)

lemma store_at_single: "i < length d \<Longrightarrow> store_at i [x] d = d[i := x]"
  by (simp add: store_at_def upd_conv_take_nth_drop)

text \<open>An array read that is undefined out of range.\<close>

definition nth_opt :: "'a list \<Rightarrow> nat \<Rightarrow> 'a option" where
  "nth_opt xs i = (if i < length xs then Some (xs ! i) else None)"

lemma nth_opt_Some [simp]: "i < length xs \<Longrightarrow> nth_opt xs i = Some (xs ! i)"
  by (simp add: nth_opt_def)

lemma nth_opt_eq_Some: "nth_opt xs i = Some x \<longleftrightarrow> i < length xs \<and> xs ! i = x"
  by (auto simp: nth_opt_def)

end
