(* ===== verification/ByteBuffer.thy ===== *)
theory ByteBuffer
  imports Prelude
begin

text \<open>
  The I/O buffer of \<open>src/shared/buffer.c\<close>: one array with a read and a write pointer.
  Pointers into the array are offsets from \<open>data\<close>. A failed \<open>assert\<close> and an access
  outside the array are \<open>None\<close>.

  The theory gives the operations, the invariant \<open>R \<le> W \<le> limit\<close> of the header comment,
  and the abstraction to a bounded FIFO of bytes; the contract is the locale \<open>byte_fifo\<close>,
  in which the loops that the protocol handlers run over a buffer are verified once.
\<close>

section \<open>State and operations\<close>

record buffer =
  b_data :: "byte list"
  b_limit :: nat
  b_read :: nat
  b_write :: nat

definition buffer_reset :: "buffer \<Rightarrow> buffer" where
  "buffer_reset b = b\<lparr>b_read := 0, b_write := 0\<rparr>"

definition buffer_init :: "nat \<Rightarrow> byte list \<Rightarrow> buffer" where
  "buffer_init n d = \<lparr>b_data = d, b_limit = n, b_read = 0, b_write = 0\<rparr>"

definition buffer_can_write :: "buffer \<Rightarrow> bool" where
  "buffer_can_write b \<longleftrightarrow> int (b_limit b) - int (b_write b) > 0"

definition buffer_can_read :: "buffer \<Rightarrow> bool" where
  "buffer_can_read b \<longleftrightarrow> int (b_write b) - int (b_read b) > 0"

text \<open>Both pointer functions return the offset and the number of bytes (\<open>*nbyte\<close>).\<close>

definition buffer_write_ptr :: "buffer \<Rightarrow> (nat \<times> nat) option" where
  "buffer_write_ptr b = do {
     c_assert (b_write b \<le> b_limit b);
     Some (b_write b, b_limit b - b_write b)
   }"

definition buffer_read_ptr :: "buffer \<Rightarrow> (nat \<times> nat) option" where
  "buffer_read_ptr b = do {
     c_assert (b_read b \<le> b_write b);
     Some (b_read b, b_write b - b_read b)
   }"

definition buffer_compact :: "buffer \<Rightarrow> buffer option" where
  "buffer_compact b =
     (if b_read b = 0 then Some b
      else if b_read b = b_write b then Some (b\<lparr>b_read := 0, b_write := 0\<rparr>)
      else do {
        c_assert (b_read b \<le> b_write b \<and> b_write b \<le> length (b_data b));
        let n = b_write b - b_read b;
        Some (b\<lparr>b_data := store_at 0 (take n (drop (b_read b) (b_data b))) (b_data b),
                b_read := 0, b_write := n\<rparr>)
      })"

definition buffer_write_adv :: "buffer \<Rightarrow> int \<Rightarrow> buffer option" where
  "buffer_write_adv b bytes =
     (if bytes > -1 then do {
        let b' = b\<lparr>b_write := b_write b + nat bytes\<rparr>;
        c_assert (b_write b' \<le> b_limit b');
        Some b'
      } else Some b)"

definition buffer_read_adv :: "buffer \<Rightarrow> int \<Rightarrow> buffer option" where
  "buffer_read_adv b bytes =
     (if bytes > -1 then do {
        let b' = b\<lparr>b_read := b_read b + nat bytes\<rparr>;
        c_assert (b_read b' \<le> b_write b');
        (if b_read b' = b_write b' then buffer_compact b' else Some b')
      } else Some b)"

definition buffer_read :: "buffer \<Rightarrow> (byte \<times> buffer) option" where
  "buffer_read b =
     (if buffer_can_read b then do {
        c_assert (b_read b < length (b_data b));
        b' \<leftarrow> buffer_read_adv b 1;
        Some (b_data b ! b_read b, b')
      } else Some (0, b))"

definition buffer_write :: "buffer \<Rightarrow> byte \<Rightarrow> buffer option" where
  "buffer_write b c =
     (if buffer_can_write b then do {
        c_assert (b_write b < length (b_data b));
        buffer_write_adv (b\<lparr>b_data := (b_data b)[b_write b := c]\<rparr>) 1
      } else Some b)"

text \<open>
  What the kernel does to the array when \<open>recv\<close> is given \<open>buffer_write_ptr\<close>: the bytes
  \<open>bs\<close> land at the write offset; the caller then advances the pointer.
\<close>

definition buffer_land :: "buffer \<Rightarrow> byte list \<Rightarrow> buffer" where
  "buffer_land b bs = b\<lparr>b_data := store_at (b_write b) bs (b_data b)\<rparr>"

text \<open>The bytes that \<open>send\<close> sees when it is given \<open>buffer_read_ptr\<close>.\<close>

definition buffer_window :: "buffer \<Rightarrow> byte list" where
  "buffer_window b = take (b_write b - b_read b) (drop (b_read b) (b_data b))"

section \<open>Invariant and abstraction\<close>

text \<open>
  The header's \<open>R \<le> W \<le> limit\<close>, the array large enough for its limit, and the effect of
  the automatic compaction: an empty buffer has both pointers at the start.
\<close>

definition buffer_inv :: "buffer \<Rightarrow> bool" where
  "buffer_inv b \<longleftrightarrow> b_read b \<le> b_write b \<and> b_write b \<le> b_limit b \<and> b_limit b \<le> length (b_data b)
     \<and> (b_read b = b_write b \<longrightarrow> b_read b = 0)"

definition buffer_room :: "buffer \<Rightarrow> nat" where
  "buffer_room b = b_limit b - b_write b"

lemma buffer_inv_init [simp]: "n \<le> length d \<Longrightarrow> buffer_inv (buffer_init n d)"
  by (simp add: buffer_inv_def buffer_init_def)

lemma buffer_window_init [simp]: "buffer_window (buffer_init n d) = []"
  by (simp add: buffer_window_def buffer_init_def)

lemma buffer_limit_init [simp]: "b_limit (buffer_init n d) = n"
  by (simp add: buffer_init_def)

lemma buffer_inv_reset [buf_laws]: "buffer_inv b \<Longrightarrow> buffer_inv (buffer_reset b)"
  by (simp add: buffer_inv_def buffer_reset_def)

lemma buffer_window_reset [simp]: "buffer_window (buffer_reset b) = []"
  by (simp add: buffer_window_def buffer_reset_def)

lemma buffer_limit_reset [simp]: "b_limit (buffer_reset b) = b_limit b"
  by (simp add: buffer_reset_def)

lemma length_window: "buffer_inv b \<Longrightarrow> length (buffer_window b) = b_write b - b_read b"
  by (auto simp: buffer_inv_def buffer_window_def)

lemma room_of_empty: "buffer_inv b \<Longrightarrow> buffer_window b = [] \<Longrightarrow> buffer_room b = b_limit b"
  using length_window[of b] by (auto simp: buffer_inv_def buffer_room_def)

lemma can_read_iff: "buffer_inv b \<Longrightarrow> buffer_can_read b \<longleftrightarrow> buffer_window b \<noteq> []"
  using length_window[of b] by (auto simp: buffer_can_read_def buffer_inv_def)

lemma can_write_iff: "buffer_inv b \<Longrightarrow> buffer_can_write b \<longleftrightarrow> 0 < buffer_room b"
  by (auto simp: buffer_can_write_def buffer_inv_def buffer_room_def)

lemma write_ptr_eq [buf_laws]:
  "buffer_inv b \<Longrightarrow> buffer_write_ptr b = Some (b_write b, buffer_room b)"
  by (simp add: buffer_write_ptr_def buffer_inv_def buffer_room_def c_assert_bind)

lemma read_ptr_eq [buf_laws]:
  "buffer_inv b \<Longrightarrow> buffer_read_ptr b = Some (b_read b, length (buffer_window b))"
  by (simp add: buffer_read_ptr_def length_window) (simp add: buffer_inv_def)

text \<open>Advancing the read pointer drops bytes from the front.\<close>

lemma read_adv_spec:
  assumes "buffer_inv b" "n \<le> length (buffer_window b)"
  shows "\<exists>b'. buffer_read_adv b (int n) = Some b' \<and> buffer_inv b'
    \<and> buffer_window b' = drop n (buffer_window b) \<and> b_limit b' = b_limit b
    \<and> buffer_room b \<le> buffer_room b'"
proof (cases "b_read b + n = b_write b")
  case True
  with assms(1) show ?thesis
    by (auto simp: buffer_read_adv_def buffer_compact_def buffer_inv_def buffer_window_def
        buffer_room_def Let_def)
next
  case False
  with assms have lt: "b_read b + n < b_write b"
    by (auto simp: length_window buffer_inv_def)
  with assms(1) show ?thesis
    by (auto simp: buffer_read_adv_def buffer_inv_def buffer_window_def buffer_room_def
        Let_def drop_take add.commute)
qed

text \<open>Landing bytes and advancing the write pointer appends them.\<close>

lemma land_adv_spec:
  assumes "buffer_inv b" "length bs \<le> buffer_room b"
  shows "\<exists>b'. buffer_write_adv (buffer_land b bs) (int (length bs)) = Some b' \<and> buffer_inv b'
    \<and> buffer_window b' = buffer_window b @ bs \<and> b_limit b' = b_limit b
    \<and> buffer_room b' = buffer_room b - length bs"
proof -
  let ?b = "(buffer_land b bs)\<lparr>b_write := b_write b + length bs\<rparr>"
  have le: "b_read b \<le> b_write b" "b_write b + length bs \<le> b_limit b" "b_limit b \<le> length (b_data b)"
    using assms by (auto simp: buffer_inv_def buffer_room_def)
  have "buffer_write_adv (buffer_land b bs) (int (length bs)) = Some ?b"
    using le by (simp add: buffer_write_adv_def buffer_land_def Let_def)
  moreover have "buffer_window ?b = buffer_window b @ bs"
    using le by (simp add: buffer_window_def buffer_land_def store_at_window)
  moreover have "buffer_inv ?b"
    using le assms(1) by (auto simp: buffer_inv_def buffer_land_def)
  ultimately show ?thesis
    by (simp add: buffer_land_def buffer_room_def)
qed

lemma write_adv_neg [simp]: "buffer_write_adv b (- 1) = Some b"
  by (simp add: buffer_write_adv_def)

lemma read_adv_neg [simp]: "buffer_read_adv b (- 1) = Some b"
  by (simp add: buffer_read_adv_def)

lemma buffer_read_spec:
  assumes "buffer_inv b"
  shows "\<exists>b'. buffer_read b = Some (case buffer_window b of [] \<Rightarrow> 0 | c # _ \<Rightarrow> c, b')
    \<and> buffer_inv b' \<and> buffer_window b' = drop 1 (buffer_window b) \<and> b_limit b' = b_limit b
    \<and> buffer_room b \<le> buffer_room b'"
proof (cases "buffer_window b")
  case Nil
  with assms have "buffer_read b = Some (0, b)"
    by (simp add: buffer_read_def can_read_iff)
  with Nil assms show ?thesis by simp
next
  case (Cons c cs)
  have len: "b_write b - b_read b = Suc (length cs)"
    using length_window[OF assms] Cons by simp
  then have "b_read b < length (b_data b)"
    using assms unfolding buffer_inv_def by linarith
  moreover have "buffer_can_read b" using assms Cons by (simp add: can_read_iff)
  moreover have "b_data b ! b_read b = c"
    using Cons hd_drop_conv_nth[OF calculation(1)] len
    by (cases "drop (b_read b) (b_data b)") (auto simp: buffer_window_def)
  ultimately have "buffer_read b = map_option (Pair c) (buffer_read_adv b (int 1))"
    by (cases "buffer_read_adv b 1") (simp_all add: buffer_read_def)
  with read_adv_spec[OF assms, of 1] Cons show ?thesis by auto
qed

lemma buffer_write_spec:
  assumes "buffer_inv b"
  shows "\<exists>b'. buffer_write b c = Some b' \<and> buffer_inv b' \<and> b_limit b' = b_limit b
    \<and> (if 0 < buffer_room b then buffer_window b' = buffer_window b @ [c] \<and> buffer_room b' = buffer_room b - 1
       else b' = b)"
proof (cases "0 < buffer_room b")
  case True
  then have "b_write b < length (b_data b)"
    using assms by (auto simp: buffer_inv_def buffer_room_def)
  then have "buffer_write b c = buffer_write_adv (buffer_land b [c]) (int (length [c]))"
    using assms True by (simp add: buffer_write_def can_write_iff buffer_land_def store_at_single)
  with land_adv_spec[OF assms, of "[c]"] True show ?thesis by auto
next
  case False
  with assms show ?thesis by (simp add: buffer_write_def can_write_iff)
qed

lemma buffer_compact_spec:
  assumes "buffer_inv b"
  shows "\<exists>b'. buffer_compact b = Some b' \<and> buffer_inv b' \<and> buffer_window b' = buffer_window b
    \<and> b_limit b' = b_limit b \<and> buffer_room b' = b_limit b - length (buffer_window b)"
  using assms length_window[OF assms]
  by (auto simp: buffer_compact_def buffer_inv_def buffer_window_def buffer_room_def store_at_def Let_def)

section \<open>The contract: a bounded byte FIFO\<close>

text \<open>
  Loops of the handlers: \<open>for (i < n) dst[i] = buffer_read (b)\<close> and a run of
  \<open>buffer_write (b, c)\<close>, over any implementation of the two operations.
\<close>

fun get_n :: "('b \<Rightarrow> (byte \<times> 'b) option) \<Rightarrow> nat \<Rightarrow> 'b \<Rightarrow> (byte list \<times> 'b) option" where
  "get_n get 0 b = Some ([], b)"
| "get_n get (Suc n) b = do { (c, b1) \<leftarrow> get b; (cs, b2) \<leftarrow> get_n get n b1; Some (c # cs, b2) }"

fun put_all :: "('b \<Rightarrow> byte \<Rightarrow> 'b option) \<Rightarrow> byte list \<Rightarrow> 'b \<Rightarrow> 'b option" where
  "put_all put [] b = Some b"
| "put_all put (c # cs) b = do { b1 \<leftarrow> put b c; put_all put cs b1 }"

abbreviation buffer_read_n :: "nat \<Rightarrow> buffer \<Rightarrow> (byte list \<times> buffer) option" where
  "buffer_read_n \<equiv> get_n buffer_read"

abbreviation buffer_write_all :: "byte list \<Rightarrow> buffer \<Rightarrow> buffer option" where
  "buffer_write_all \<equiv> put_all buffer_write"

locale byte_fifo =
  fixes inv :: "'b \<Rightarrow> bool"
    and contents :: "'b \<Rightarrow> byte list"
    and room :: "'b \<Rightarrow> nat"
    and cap :: "'b \<Rightarrow> nat"
    and get :: "'b \<Rightarrow> (byte \<times> 'b) option"
    and put :: "'b \<Rightarrow> byte \<Rightarrow> 'b option"
  assumes get_law: "inv b \<Longrightarrow> \<exists>b'. get b = Some (case contents b of [] \<Rightarrow> 0 | c # _ \<Rightarrow> c, b') \<and> inv b'
      \<and> contents b' = drop 1 (contents b) \<and> cap b' = cap b \<and> room b \<le> room b'"
    and put_law: "inv b \<Longrightarrow> \<exists>b'. put b c = Some b' \<and> inv b' \<and> cap b' = cap b
      \<and> (if 0 < room b then contents b' = contents b @ [c] \<and> room b' = room b - 1 else b' = b)"
    and room_empty: "inv b \<Longrightarrow> contents b = [] \<Longrightarrow> room b = cap b"
begin

lemma get_n_spec:
  "inv b \<Longrightarrow> \<exists>b'. get_n get n b = Some (take n (contents b @ replicate n 0), b') \<and> inv b'
     \<and> contents b' = drop n (contents b) \<and> cap b' = cap b \<and> room b \<le> room b'"
proof (induction n arbitrary: b)
  case 0
  then show ?case by auto
next
  case (Suc n)
  obtain b1 where b1: "get b = Some (case contents b of [] \<Rightarrow> 0 | c # _ \<Rightarrow> c, b1)" "inv b1"
      "contents b1 = drop 1 (contents b)" "cap b1 = cap b" "room b \<le> room b1"
    using get_law[OF Suc.prems] by blast
  obtain b2 where b2: "get_n get n b1 = Some (take n (contents b1 @ replicate n 0), b2)" "inv b2"
      "contents b2 = drop n (contents b1)" "cap b2 = cap b1" "room b1 \<le> room b2"
    using Suc.IH[OF b1(2)] by blast
  have "take n (replicate n (0::byte)) = replicate n 0" by simp
  with b1 b2 show ?case
    by (cases "contents b") (auto simp: replicate_append_same[symmetric] take_Cons')
qed

lemma get_n_avail:
  assumes "inv b" "n \<le> length (contents b)"
  obtains b' where "get_n get n b = Some (take n (contents b), b')" "inv b'"
    "contents b' = drop n (contents b)" "cap b' = cap b" "room b \<le> room b'"
  using get_n_spec[OF assms(1), of n] assms(2) by auto

lemma put_all_spec:
  "inv b \<Longrightarrow> length cs \<le> room b \<Longrightarrow> \<exists>b'. put_all put cs b = Some b' \<and> inv b'
     \<and> contents b' = contents b @ cs \<and> room b' = room b - length cs \<and> cap b' = cap b"
proof (induction cs arbitrary: b)
  case Nil
  then show ?case by simp
next
  case (Cons c cs)
  obtain b1 where "put b c = Some b1" "inv b1" "contents b1 = contents b @ [c]"
      "room b1 = room b - 1" "cap b1 = cap b"
    using put_law[OF Cons.prems(1), of c] Cons.prems(2) by auto
  with Cons.IH[of b1] Cons.prems(2) show ?case by auto
qed

text \<open>A drained FIFO takes any message up to its capacity: what every reply relies on.\<close>

lemma put_all_drained:
  assumes "inv b" "contents b = []" "length cs \<le> cap b"
  obtains b' where "put_all put cs b = Some b'" "inv b'" "contents b' = cs" "cap b' = cap b"
    "room b' = cap b - length cs"
  using put_all_spec[OF assms(1), of cs] room_empty[OF assms(1,2)] assms(2,3) by auto

end

interpretation bb: byte_fifo buffer_inv buffer_window buffer_room b_limit buffer_read buffer_write
  by unfold_locales (rule buffer_read_spec buffer_write_spec room_of_empty; assumption)+

end
