(* ===== verification/Selector.thy ===== *)
theory Selector
  imports Prelude
begin

unbundle bit_operations_syntax

text \<open>
  The descriptor multiplexer of \<open>src/shared/selector.c\<close>: the table of registered descriptors,
  the descriptor sets handed to \<open>pselect\<close>, the dispatch of ready descriptors and of finished
  blocking jobs. The record is extensible, so that the state a callback can reach is an
  extension of the selector itself; handlers are referred to by a tag \<open>'h\<close> (the address of
  the static handler structure), and a function \<open>H\<close> from tags to handlers is an argument of
  the operations that call back.

  An array access outside \<open>fds\<close> and an \<open>FD_*\<close> macro outside \<open>0..FD_SETSIZE-1\<close> are \<open>None\<close>.
  The contract of the table is the locale \<open>fd_registry\<close>.
\<close>

section \<open>State\<close>

type_synonym fd_interest = "32 word"

abbreviation (input) OP_NOOP :: fd_interest where "OP_NOOP \<equiv> 0"
abbreviation (input) OP_READ :: fd_interest where "OP_READ \<equiv> 1"
abbreviation (input) OP_WRITE :: fd_interest where "OP_WRITE \<equiv> 4"

datatype selector_status =
  SELECTOR_SUCCESS | SELECTOR_ENOMEM | SELECTOR_MAXFD | SELECTOR_IARGS | SELECTOR_FDINUSE | SELECTOR_IO

record 'd selector_key =
  k_fd :: int
  k_data :: "'d option"

record ('d, 's) fd_handler =
  handle_read :: "('d selector_key \<Rightarrow> 's \<Rightarrow> ('d selector_key \<times> 's) option) option"
  handle_write :: "('d selector_key \<Rightarrow> 's \<Rightarrow> ('d selector_key \<times> 's) option) option"
  handle_block :: "('d selector_key \<Rightarrow> 's \<Rightarrow> ('d selector_key \<times> 's) option) option"
  handle_close :: "('d selector_key \<Rightarrow> 's \<Rightarrow> ('d selector_key \<times> 's) option) option"

record ('h, 'd) item =
  it_fd :: int
  it_interest :: fd_interest
  it_handler :: "'h option"
  it_data :: "'d option"

text \<open>\<open>fds == NULL\<close> is the empty list; \<open>fd_size\<close> is the length of the list.\<close>

record ('h, 'd) fdselector =
  fds :: "('h, 'd) item list"
  max_fd :: int
  master_r :: "int set"
  master_w :: "int set"
  slave_r :: "int set"
  slave_w :: "int set"
  resolution_jobs :: "int list"

abbreviation fd_size :: "('h, 'd, 'm) fdselector_scheme \<Rightarrow> nat" where
  "fd_size s \<equiv> length (fds s)"

abbreviation (input) FD_UNUSED :: int where "FD_UNUSED \<equiv> - 1"
abbreviation (input) FD_SETSIZE :: nat where "FD_SETSIZE \<equiv> 1024"
abbreviation (input) ITEMS_MAX_SIZE :: nat where "ITEMS_MAX_SIZE \<equiv> FD_SETSIZE"

definition ITEM_USED :: "('h, 'd) item \<Rightarrow> bool" where
  "ITEM_USED i \<longleftrightarrow> FD_UNUSED \<noteq> it_fd i"

definition INVALID_FD :: "int \<Rightarrow> bool" where
  "INVALID_FD fd \<longleftrightarrow> fd < 0 \<or> fd \<ge> int ITEMS_MAX_SIZE"

text \<open>An item of fresh memory after \<open>item_init\<close>, and one after \<open>memset\<close> and \<open>item_init\<close>.\<close>

definition item_init :: "('h, 'd) item \<Rightarrow> ('h, 'd) item" where
  "item_init i = i\<lparr>it_fd := FD_UNUSED\<rparr>"

definition zero_item :: "('h, 'd) item" where
  "zero_item = \<lparr>it_fd = 0, it_interest = OP_NOOP, it_handler = None, it_data = None\<rparr>"

section \<open>Capacity\<close>

function bits_of :: "nat \<Rightarrow> nat" where
  "bits_of tmp = (if tmp = 0 then 0 else bits_of (tmp div 2) + 1)"
  by pat_completeness auto
termination by (relation "measure id") auto

declare bits_of.simps [simp del]

definition next_capacity :: "nat \<Rightarrow> nat option" where
  "next_capacity n = do {
     let bits = bits_of n;
     c_assert (bits < 64);
     let tmp = 2 ^ bits;
     c_assert (tmp \<ge> n);
     let tmp = (if tmp > ITEMS_MAX_SIZE then ITEMS_MAX_SIZE else tmp);
     Some (tmp + 1)
   }"

text \<open>
  \<open>m\<close>: does the allocation succeed. Growing keeps the old items and initialises the new ones;
  the first allocation is the case of no old items. (\<open>newSize\<close> is at most 1025, far below
  \<open>SIZE_MAX / elementSize\<close>.)
\<close>

definition ensure_capacity ::
  "bool \<Rightarrow> nat \<Rightarrow> ('h, 'd, 'm) fdselector_scheme \<Rightarrow> (selector_status \<times> ('h, 'd, 'm) fdselector_scheme) option" where
  "ensure_capacity m n s =
     (if n < fd_size s then Some (SELECTOR_SUCCESS, s)
      else if n > ITEMS_MAX_SIZE then Some (SELECTOR_MAXFD, s)
      else do {
        newSize \<leftarrow> next_capacity n;
        (if \<not> m then Some (SELECTOR_ENOMEM, s)
         else do {
           c_assert (fd_size s \<le> newSize);
           Some (SELECTOR_SUCCESS,
             s\<lparr>fds := fds s @ replicate (newSize - fd_size s) (item_init zero_item)\<rparr>)
         })
      })"

definition empty_selector :: "('h, 'd) fdselector" where
  "empty_selector = \<lparr>fds = [], max_fd = 0, master_r = {}, master_w = {}, slave_r = {}, slave_w = {},
     resolution_jobs = []\<rparr>"

text \<open>\<open>m1\<close>, \<open>m2\<close>: do the two allocations succeed. A failed one gives \<open>NULL\<close>.\<close>

definition selector_new :: "bool \<Rightarrow> bool \<Rightarrow> nat \<Rightarrow> ('h, 'd) fdselector option option" where
  "selector_new m1 m2 initial_elements =
     (if \<not> m1 then Some None
      else do {
        (ret, s) \<leftarrow> ensure_capacity m2 initial_elements empty_selector;
        Some (if ret \<noteq> SELECTOR_SUCCESS then None else Some s)
      })"

section \<open>The descriptor sets\<close>

definition FD_CLR :: "int \<Rightarrow> int set \<Rightarrow> int set option" where
  "FD_CLR fd S = do { c_assert (0 \<le> fd \<and> fd < int FD_SETSIZE); Some (S - {fd}) }"

definition FD_SET :: "int \<Rightarrow> int set \<Rightarrow> int set option" where
  "FD_SET fd S = do { c_assert (0 \<le> fd \<and> fd < int FD_SETSIZE); Some (insert fd S) }"

definition FD_ISSET :: "int \<Rightarrow> int set \<Rightarrow> bool option" where
  "FD_ISSET fd S = do { c_assert (0 \<le> fd \<and> fd < int FD_SETSIZE); Some (fd \<in> S) }"

definition items_update_fdset_for_fd ::
  "('h, 'd) item \<Rightarrow> ('h, 'd, 'm) fdselector_scheme \<Rightarrow> ('h, 'd, 'm) fdselector_scheme option" where
  "items_update_fdset_for_fd item s = do {
     r \<leftarrow> FD_CLR (it_fd item) (master_r s);
     w \<leftarrow> FD_CLR (it_fd item) (master_w s);
     (if ITEM_USED item then do {
        r' \<leftarrow> (if it_interest item AND OP_READ \<noteq> 0 then FD_SET (it_fd item) r else Some r);
        w' \<leftarrow> (if it_interest item AND OP_WRITE \<noteq> 0 then FD_SET (it_fd item) w else Some w);
        Some (s\<lparr>master_r := r', master_w := w'\<rparr>)
      } else Some (s\<lparr>master_r := r, master_w := w\<rparr>))
   }"

definition items_max_fd :: "('h, 'd, 'm) fdselector_scheme \<Rightarrow> int option" where
  "items_max_fd s = do {
     c_assert (max_fd s < int (fd_size s));
     Some (fold (\<lambda>item m. if ITEM_USED item \<and> it_fd item > m then it_fd item else m)
       (take (nat (max_fd s + 1)) (fds s)) 0)
   }"

section \<open>Registration\<close>

definition set_item :: "nat \<Rightarrow> ('h, 'd) item \<Rightarrow> ('h, 'd, 'm) fdselector_scheme \<Rightarrow> ('h, 'd, 'm) fdselector_scheme" where
  "set_item i item s = s\<lparr>fds := (fds s)[i := item]\<rparr>"

definition selector_register ::
  "bool \<Rightarrow> int \<Rightarrow> 'h option \<Rightarrow> fd_interest \<Rightarrow> 'd option \<Rightarrow> ('h, 'd, 'm) fdselector_scheme
   \<Rightarrow> (selector_status \<times> ('h, 'd, 'm) fdselector_scheme) option" where
  "selector_register m fd handler interest data s =
     (if INVALID_FD fd \<or> handler = None then Some (SELECTOR_IARGS, s)
      else do {
        let ufd = nat fd;
        (ret, s) \<leftarrow> (if ufd > fd_size s then ensure_capacity m ufd s else Some (SELECTOR_SUCCESS, s));
        (if ret \<noteq> SELECTOR_SUCCESS then Some (ret, s)
         else do {
           item \<leftarrow> nth_opt (fds s) ufd;
           (if ITEM_USED item then Some (SELECTOR_FDINUSE, s)
            else do {
              let item = \<lparr>it_fd = fd, it_interest = interest, it_handler = handler, it_data = data\<rparr>;
              let s = set_item ufd item s;
              let s = (if fd > max_fd s then s\<lparr>max_fd := fd\<rparr> else s);
              s \<leftarrow> items_update_fdset_for_fd item s;
              Some (SELECTOR_SUCCESS, s)
            })
         })
      })"

text \<open>The part that \<open>selector_unregister_fd\<close> and \<open>..._without_closing\<close> share.\<close>

definition drop_item ::
  "int \<Rightarrow> ('h, 'd, 'm) fdselector_scheme \<Rightarrow> (selector_status \<times> ('h, 'd, 'm) fdselector_scheme) option" where
  "drop_item fd s = do {
     item \<leftarrow> nth_opt (fds s) (nat fd);
     let item = item\<lparr>it_interest := OP_NOOP\<rparr>;
     s \<leftarrow> items_update_fdset_for_fd item (set_item (nat fd) item s);
     let s = set_item (nat fd) (item_init zero_item) s;
     mx \<leftarrow> items_max_fd s;
     Some (SELECTOR_SUCCESS, s\<lparr>max_fd := mx\<rparr>)
   }"

definition selector_unregister_fd ::
  "('h \<Rightarrow> ('d, ('h, 'd, 'm) fdselector_scheme) fd_handler) \<Rightarrow> int \<Rightarrow> ('h, 'd, 'm) fdselector_scheme
   \<Rightarrow> (selector_status \<times> ('h, 'd, 'm) fdselector_scheme) option" where
  "selector_unregister_fd H fd s =
     (if INVALID_FD fd then Some (SELECTOR_IARGS, s)
      else do {
        item \<leftarrow> nth_opt (fds s) (nat fd);
        (if \<not> ITEM_USED item then Some (SELECTOR_IARGS, s)
         else do {
           h \<leftarrow> it_handler item;
           s \<leftarrow> (case handle_close (H h) of
                  None \<Rightarrow> Some s
                | Some f \<Rightarrow> do { (k, s) \<leftarrow> f \<lparr>k_fd = it_fd item, k_data = it_data item\<rparr> s; Some s });
           drop_item fd s
         })
      })"

definition selector_unregister_fd_without_closing ::
  "int \<Rightarrow> ('h, 'd, 'm) fdselector_scheme \<Rightarrow> (selector_status \<times> ('h, 'd, 'm) fdselector_scheme) option" where
  "selector_unregister_fd_without_closing fd s =
     (if INVALID_FD fd then Some (SELECTOR_IARGS, s)
      else do {
        item \<leftarrow> nth_opt (fds s) (nat fd);
        (if \<not> ITEM_USED item then Some (SELECTOR_IARGS, s) else drop_item fd s)
      })"

definition selector_set_interest ::
  "int \<Rightarrow> fd_interest \<Rightarrow> ('h, 'd, 'm) fdselector_scheme \<Rightarrow> (selector_status \<times> ('h, 'd, 'm) fdselector_scheme) option" where
  "selector_set_interest fd i s =
     (if INVALID_FD fd then Some (SELECTOR_IARGS, s)
      else do {
        item \<leftarrow> nth_opt (fds s) (nat fd);
        (if \<not> ITEM_USED item then Some (SELECTOR_IARGS, s)
         else do {
           let item = item\<lparr>it_interest := i\<rparr>;
           s \<leftarrow> items_update_fdset_for_fd item (set_item (nat fd) item s);
           Some (SELECTOR_SUCCESS, s)
         })
      })"

definition selector_set_interest_key ::
  "'d selector_key \<Rightarrow> fd_interest \<Rightarrow> ('h, 'd, 'm) fdselector_scheme
   \<Rightarrow> (selector_status \<times> ('h, 'd, 'm) fdselector_scheme) option" where
  "selector_set_interest_key key i s =
     (if INVALID_FD (k_fd key) then Some (SELECTOR_IARGS, s) else selector_set_interest (k_fd key) i s)"

section \<open>Dispatch\<close>

text \<open>
  One ready test and call of the loop body; \<open>sel\<close> is the handler, \<open>op\<close> its interest bit. The code keeps
  the pointer to the item over the call of \<open>handle_read\<close>; here the item of the same index is read again,
  which is the same as long as no handler makes the table grow (it has its greatest size from the start).
\<close>

definition dispatch ::
  "(('d, ('h, 'd, 'm) fdselector_scheme) fd_handler
      \<Rightarrow> ('d selector_key \<Rightarrow> ('h, 'd, 'm) fdselector_scheme \<Rightarrow> ('d selector_key \<times> ('h, 'd, 'm) fdselector_scheme) option) option)
   \<Rightarrow> fd_interest \<Rightarrow> ('h \<Rightarrow> ('d, ('h, 'd, 'm) fdselector_scheme) fd_handler) \<Rightarrow> nat \<Rightarrow> bool
   \<Rightarrow> 'd selector_key \<Rightarrow> ('h, 'd, 'm) fdselector_scheme \<Rightarrow> ('d selector_key \<times> ('h, 'd, 'm) fdselector_scheme) option" where
  "dispatch sel op H i ready key s = do {
     item \<leftarrow> nth_opt (fds s) i;
     (if ready \<and> op AND it_interest item \<noteq> 0 then do {
        h \<leftarrow> it_handler item;
        f \<leftarrow> sel (H h);
        f key s
      } else Some (key, s))
   }"

definition iteration_body ::
  "('h \<Rightarrow> ('d, ('h, 'd, 'm) fdselector_scheme) fd_handler) \<Rightarrow> nat \<Rightarrow> ('h, 'd, 'm) fdselector_scheme
   \<Rightarrow> ('h, 'd, 'm) fdselector_scheme option" where
  "iteration_body H i s = do {
     item \<leftarrow> nth_opt (fds s) i;
     (if ITEM_USED item then do {
        let key = \<lparr>k_fd = it_fd item, k_data = it_data item\<rparr>;
        r \<leftarrow> FD_ISSET (it_fd item) (slave_r s);
        (key, s) \<leftarrow> dispatch handle_read OP_READ H i r key s;
        w \<leftarrow> FD_ISSET (int i) (slave_w s);
        (key, s) \<leftarrow> dispatch handle_write OP_WRITE H i w key s;
        Some s
      } else Some s)
   }"

fun iterate ::
  "('h \<Rightarrow> ('d, ('h, 'd, 'm) fdselector_scheme) fd_handler) \<Rightarrow> nat list \<Rightarrow> ('h, 'd, 'm) fdselector_scheme
   \<Rightarrow> ('h, 'd, 'm) fdselector_scheme option" where
  "iterate H [] s = Some s"
| "iterate H (i # is) s = do { s \<leftarrow> iteration_body H i s; iterate H is s }"

definition handle_iteration ::
  "('h \<Rightarrow> ('d, ('h, 'd, 'm) fdselector_scheme) fd_handler) \<Rightarrow> ('h, 'd, 'm) fdselector_scheme
   \<Rightarrow> ('h, 'd, 'm) fdselector_scheme option" where
  "handle_iteration H s = iterate H [0..<nat (max_fd s + 1)] s"

fun run_jobs ::
  "('h \<Rightarrow> ('d, ('h, 'd, 'm) fdselector_scheme) fd_handler) \<Rightarrow> int list \<Rightarrow> ('h, 'd, 'm) fdselector_scheme
   \<Rightarrow> ('h, 'd, 'm) fdselector_scheme option" where
  "run_jobs H [] s = Some s"
| "run_jobs H (fd # js) s = do {
     c_assert (0 \<le> fd);
     item \<leftarrow> nth_opt (fds s) (nat fd);
     s \<leftarrow> (if ITEM_USED item then do {
            h \<leftarrow> it_handler item;
            f \<leftarrow> handle_block (H h);
            (key, s) \<leftarrow> f \<lparr>k_fd = it_fd item, k_data = it_data item\<rparr> s;
            Some s
          } else Some s);
     run_jobs H js s
   }"

definition handle_block_notifications ::
  "('h \<Rightarrow> ('d, ('h, 'd, 'm) fdselector_scheme) fd_handler) \<Rightarrow> ('h, 'd, 'm) fdselector_scheme
   \<Rightarrow> ('h, 'd, 'm) fdselector_scheme option" where
  "handle_block_notifications H s = do {
     s \<leftarrow> run_jobs H (resolution_jobs s) s;
     Some (s\<lparr>resolution_jobs := []\<rparr>)
   }"

definition selector_notify_block ::
  "bool \<Rightarrow> int \<Rightarrow> ('h, 'd, 'm) fdselector_scheme \<Rightarrow> selector_status \<times> ('h, 'd, 'm) fdselector_scheme" where
  "selector_notify_block m fd s =
     (if \<not> m then (SELECTOR_ENOMEM, s)
      else (SELECTOR_SUCCESS, s\<lparr>resolution_jobs := fd # resolution_jobs s\<rparr>))"

text \<open>What \<open>pselect\<close> answers: an \<open>errno\<close>, or the ready descriptors of the two sets.\<close>

datatype pselect_result = PS_EAGAIN | PS_EINTR | PS_EBADF | PS_OTHER | PS_READY "int set" "int set"

definition selector_select ::
  "('h \<Rightarrow> ('d, ('h, 'd, 'm) fdselector_scheme) fd_handler) \<Rightarrow> pselect_result \<Rightarrow> ('h, 'd, 'm) fdselector_scheme
   \<Rightarrow> (selector_status \<times> ('h, 'd, 'm) fdselector_scheme) option" where
  "selector_select H ps s = do {
     let s = s\<lparr>slave_r := master_r s, slave_w := master_w s\<rparr>;
     (case ps of
        PS_EBADF \<Rightarrow> Some (SELECTOR_IO, s)
      | PS_OTHER \<Rightarrow> Some (SELECTOR_IO, s)
      | PS_READY r w \<Rightarrow> do {
          s \<leftarrow> handle_iteration H (s\<lparr>slave_r := r, slave_w := w\<rparr>);
          s \<leftarrow> handle_block_notifications H s;
          Some (SELECTOR_SUCCESS, s)
        }
      | _ \<Rightarrow> do { s \<leftarrow> handle_block_notifications H s; Some (SELECTOR_SUCCESS, s) })
   }"

text \<open>The loop of \<open>selector_destroy\<close>; then the memory is released.\<close>

fun unregister_all ::
  "('h \<Rightarrow> ('d, ('h, 'd, 'm) fdselector_scheme) fd_handler) \<Rightarrow> nat list \<Rightarrow> ('h, 'd, 'm) fdselector_scheme
   \<Rightarrow> ('h, 'd, 'm) fdselector_scheme option" where
  "unregister_all H [] s = Some s"
| "unregister_all H (i # is) s = do {
     item \<leftarrow> nth_opt (fds s) i;
     s \<leftarrow> (if ITEM_USED item then do { (st, s) \<leftarrow> selector_unregister_fd H (int i) s; Some s } else Some s);
     unregister_all H is s
   }"

definition selector_destroy ::
  "('h \<Rightarrow> ('d, ('h, 'd, 'm) fdselector_scheme) fd_handler) \<Rightarrow> ('h, 'd, 'm) fdselector_scheme
   \<Rightarrow> ('h, 'd, 'm) fdselector_scheme option" where
  "selector_destroy H s = do {
     s \<leftarrow> unregister_all H [0..<fd_size s] s;
     Some (s\<lparr>resolution_jobs := [], fds := []\<rparr>)
   }"

end
