(* ===== verification/SelectorLaws.thy ===== *)
theory SelectorLaws
  imports Selector
begin

text \<open>
  Correctness of the descriptor table of \<open>Selector\<close>: the invariant that ties the items, the
  maximum descriptor and the two master sets together, its preservation by every operation of
  the table, and the table's contract as a partial map from descriptors to items (the locale
  \<open>fd_registry\<close>, interpreted on the code's operations at the end).
\<close>

section \<open>Abstraction and invariant\<close>

definition sel_entry :: "('h, 'd, 'm) fdselector_scheme \<Rightarrow> int \<Rightarrow> ('h, 'd) item option" where
  "sel_entry s fd =
     (if 0 \<le> fd \<and> nat fd < fd_size s \<and> ITEM_USED (fds s ! nat fd) then Some (fds s ! nat fd) else None)"

definition wants :: "fd_interest \<Rightarrow> ('h, 'd, 'm) fdselector_scheme \<Rightarrow> int set" where
  "wants op s = {fd. \<exists>it. sel_entry s fd = Some it \<and> it_interest it AND op \<noteq> 0}"

definition items_ok :: "('h, 'd, 'm) fdselector_scheme \<Rightarrow> bool" where
  "items_ok s \<longleftrightarrow> 0 < fd_size s \<and> fd_size s \<le> ITEMS_MAX_SIZE + 1
     \<and> (\<forall>fd it. sel_entry s fd = Some it \<longrightarrow> it_fd it = fd \<and> fd < int ITEMS_MAX_SIZE \<and> it_handler it \<noteq> None)"

definition max_ok :: "('h, 'd, 'm) fdselector_scheme \<Rightarrow> bool" where
  "max_ok s \<longleftrightarrow> 0 \<le> max_fd s \<and> max_fd s < int (fd_size s)
     \<and> (\<forall>fd it. sel_entry s fd = Some it \<longrightarrow> fd \<le> max_fd s)
     \<and> (max_fd s \<noteq> 0 \<longrightarrow> sel_entry s (max_fd s) \<noteq> None)"

definition sel_inv :: "('h, 'd, 'm) fdselector_scheme \<Rightarrow> bool" where
  "sel_inv s \<longleftrightarrow> items_ok s \<and> max_ok s \<and> master_r s = wants OP_READ s \<and> master_w s = wants OP_WRITE s"

text \<open>The capacity the server starts with: every valid descriptor has its item.\<close>

definition sel_full :: "('h, 'd, 'm) fdselector_scheme \<Rightarrow> bool" where
  "sel_full s \<longleftrightarrow> fd_size s = ITEMS_MAX_SIZE + 1"

lemma sel_entry_range: "sel_entry s fd = Some it \<Longrightarrow> 0 \<le> fd \<and> nat fd < fd_size s"
  by (auto simp: sel_entry_def split: if_splits)

lemma sel_entry_item: "sel_entry s fd = Some it \<Longrightarrow> fds s ! nat fd = it \<and> ITEM_USED it"
  by (auto simp: sel_entry_def split: if_splits)

lemma entry_valid:
  assumes "sel_inv s" "sel_entry s fd = Some it"
  shows "0 \<le> fd" "fd < int ITEMS_MAX_SIZE" "it_fd it = fd" "nat fd < fd_size s" "\<not> INVALID_FD fd"
    "it_handler it \<noteq> None"
proof -
  have "it_fd it = fd \<and> fd < int ITEMS_MAX_SIZE \<and> it_handler it \<noteq> None"
    using assms unfolding sel_inv_def items_ok_def by blast
  then show "0 \<le> fd" "fd < int ITEMS_MAX_SIZE" "it_fd it = fd" "nat fd < fd_size s" "\<not> INVALID_FD fd"
    "it_handler it \<noteq> None"
    using sel_entry_range[OF assms(2)] by (auto simp: INVALID_FD_def)
qed

lemma valid_in_full: "sel_full s \<Longrightarrow> \<not> INVALID_FD fd \<Longrightarrow> 0 \<le> fd \<and> nat fd < fd_size s"
  unfolding sel_full_def INVALID_FD_def by linarith

lemma entry_None: "sel_entry s fd = None \<Longrightarrow> 0 \<le> fd \<Longrightarrow> nat fd < fd_size s \<Longrightarrow> \<not> ITEM_USED (fds s ! nat fd)"
  by (auto simp: sel_entry_def split: if_splits)

section \<open>Interests\<close>

definition with_interest :: "int \<Rightarrow> fd_interest \<Rightarrow> ('h, 'd, 'm) fdselector_scheme \<Rightarrow> ('h, 'd, 'm) fdselector_scheme" where
  "with_interest fd i s =
     s\<lparr>fds := (fds s)[nat fd := (fds s ! nat fd)\<lparr>it_interest := i\<rparr>],
       master_r := (if i AND OP_READ \<noteq> 0 then insert fd (master_r s) else master_r s - {fd}),
       master_w := (if i AND OP_WRITE \<noteq> 0 then insert fd (master_w s) else master_w s - {fd})\<rparr>"

lemma entry_with_interest:
  assumes "sel_entry s fd = Some it"
  shows "sel_entry (with_interest fd i s) = (sel_entry s)(fd \<mapsto> it\<lparr>it_interest := i\<rparr>)"
proof
  fix fd'
  show "sel_entry (with_interest fd i s) fd' = ((sel_entry s)(fd \<mapsto> it\<lparr>it_interest := i\<rparr>)) fd'"
    using assms sel_entry_range[OF assms] sel_entry_item[OF assms]
    by (auto simp: sel_entry_def with_interest_def ITEM_USED_def nth_list_update eq_nat_nat_iff)
qed

lemma inv_with_interest:
  assumes "sel_inv s" "sel_entry s fd = Some it"
  shows "sel_inv (with_interest fd i s)"
proof -
  note e = entry_with_interest[OF assms(2), of i]
  have size: "fd_size (with_interest fd i s) = fd_size s" "max_fd (with_interest fd i s) = max_fd s"
    by (simp_all add: with_interest_def)
  have "items_ok (with_interest fd i s)"
    using assms unfolding sel_inv_def items_ok_def e size by (auto split: if_splits)
  moreover have "max_ok (with_interest fd i s)"
    using assms unfolding sel_inv_def max_ok_def e size by (auto split: if_splits)
  moreover have "master_r (with_interest fd i s) = wants OP_READ (with_interest fd i s)"
    "master_w (with_interest fd i s) = wants OP_WRITE (with_interest fd i s)"
    using assms unfolding sel_inv_def wants_def e by (auto simp: with_interest_def split: if_splits)
  ultimately show ?thesis by (simp add: sel_inv_def)
qed

lemma set_interest_used:
  assumes "sel_inv s" "sel_entry s fd = Some it"
  shows "selector_set_interest fd i s = Some (SELECTOR_SUCCESS, with_interest fd i s)"
  using entry_valid[OF assms] sel_entry_item[OF assms(2)]
  by (auto simp: selector_set_interest_def items_update_fdset_for_fd_def FD_CLR_def FD_SET_def
      set_item_def with_interest_def ITEM_USED_def c_assert_bind Let_def)

lemma set_interest_unused:
  assumes "sel_entry s fd = None" "nat fd < fd_size s"
  shows "selector_set_interest fd i s = Some (SELECTOR_IARGS, s)"
  using assms entry_None[OF assms(1) _ assms(2)] by (auto simp: selector_set_interest_def INVALID_FD_def)

lemma set_interest_full:
  assumes "sel_inv s" "sel_full s"
  shows "selector_set_interest fd i s =
    Some (if sel_entry s fd = None then (SELECTOR_IARGS, s) else (SELECTOR_SUCCESS, with_interest fd i s))"
proof (cases "sel_entry s fd")
  case None
  show ?thesis
  proof (cases "INVALID_FD fd")
    case True
    with None show ?thesis by (simp add: selector_set_interest_def)
  next
    case False
    then have "nat fd < fd_size s" using valid_in_full[OF assms(2)] by blast
    with None set_interest_unused show ?thesis by simp
  qed
next
  case (Some it)
  with set_interest_used[OF assms(1) Some] show ?thesis by simp
qed

lemma full_with_interest [simp]: "sel_full (with_interest fd i s) = sel_full s"
  by (simp add: sel_full_def with_interest_def)

section \<open>Registration\<close>

definition with_item :: "int \<Rightarrow> 'h option \<Rightarrow> fd_interest \<Rightarrow> 'd option \<Rightarrow> ('h, 'd, 'm) fdselector_scheme \<Rightarrow> ('h, 'd, 'm) fdselector_scheme" where
  "with_item fd h i d s =
     s\<lparr>fds := (fds s)[nat fd := \<lparr>it_fd = fd, it_interest = i, it_handler = h, it_data = d\<rparr>],
       max_fd := max (max_fd s) fd,
       master_r := (if i AND OP_READ \<noteq> 0 then insert fd (master_r s) else master_r s - {fd}),
       master_w := (if i AND OP_WRITE \<noteq> 0 then insert fd (master_w s) else master_w s - {fd})\<rparr>"

lemma entry_with_item:
  assumes "0 \<le> fd" "nat fd < fd_size s"
  shows "sel_entry (with_item fd h i d s) =
    (sel_entry s)(fd \<mapsto> \<lparr>it_fd = fd, it_interest = i, it_handler = h, it_data = d\<rparr>)"
proof
  fix fd'
  show "sel_entry (with_item fd h i d s) fd' =
    ((sel_entry s)(fd \<mapsto> \<lparr>it_fd = fd, it_interest = i, it_handler = h, it_data = d\<rparr>)) fd'"
    using assms by (auto simp: sel_entry_def with_item_def ITEM_USED_def nth_list_update eq_nat_nat_iff)
qed

lemma inv_with_item:
  assumes "sel_inv s" "0 \<le> fd" "fd < int ITEMS_MAX_SIZE" "nat fd < fd_size s" "h \<noteq> None"
  shows "sel_inv (with_item fd h i d s)"
proof -
  note e = entry_with_item[OF assms(2,4), of h i d]
  have size: "fd_size (with_item fd h i d s) = fd_size s"
    "max_fd (with_item fd h i d s) = max (max_fd s) fd"
    by (simp_all add: with_item_def)
  have "items_ok (with_item fd h i d s)"
    using assms unfolding sel_inv_def items_ok_def e size by (auto split: if_splits)
  moreover have "max_ok (with_item fd h i d s)"
    using assms unfolding sel_inv_def max_ok_def e size
    by (auto split: if_splits simp: max_def intro: order_trans)
  moreover have "master_r (with_item fd h i d s) = wants OP_READ (with_item fd h i d s)"
    "master_w (with_item fd h i d s) = wants OP_WRITE (with_item fd h i d s)"
    using assms unfolding sel_inv_def wants_def e by (auto simp: with_item_def split: if_splits)
  ultimately show ?thesis by (simp add: sel_inv_def)
qed

lemma register_free:
  assumes "sel_inv s" "\<not> INVALID_FD fd" "nat fd < fd_size s" "sel_entry s fd = None" "h \<noteq> None"
  shows "selector_register m fd h i d s = Some (SELECTOR_SUCCESS, with_item fd h i d s)"
proof -
  have v: "0 \<le> fd" "fd < 1024" using assms(2) by (auto simp: INVALID_FD_def)
  have "\<not> ITEM_USED (fds s ! nat fd)" using entry_None[OF assms(4) v(1) assms(3)] .
  moreover have "\<not> fd_size s < nat fd" using assms(3) by simp
  ultimately show ?thesis
    using assms(2,3,5) v
    by (simp add: selector_register_def items_update_fdset_for_fd_def
        FD_CLR_def FD_SET_def set_item_def with_item_def ITEM_USED_def Let_def max_def)
qed

lemma register_busy:
  assumes "\<not> INVALID_FD fd" "sel_entry s fd = Some it" "h \<noteq> None"
  shows "selector_register m fd h i d s = Some (SELECTOR_FDINUSE, s)"
  using assms sel_entry_range[OF assms(2)] sel_entry_item[OF assms(2)]
  by (auto simp: selector_register_def Let_def)

lemma full_with_item [simp]: "sel_full (with_item fd h i d s) = sel_full s"
  by (simp add: sel_full_def with_item_def)

text \<open>
  The capacity test compares with \<open>>\<close>: a descriptor equal to \<open>fd_size\<close> does not grow the table,
  and the access that follows is outside the array.
\<close>

lemma register_at_capacity:
  assumes "fd_size s < ITEMS_MAX_SIZE" "h \<noteq> None"
  shows "selector_register m (int (fd_size s)) h i d s = None"
  using assms by (simp add: selector_register_def INVALID_FD_def nth_opt_def Let_def)

section \<open>Unregistration\<close>

definition top_fd :: "('h, 'd, 'm) fdselector_scheme \<Rightarrow> int" where
  "top_fd s = fold (\<lambda>item m. if ITEM_USED item \<and> it_fd item > m then it_fd item else m)
     (take (nat (max_fd s + 1)) (fds s)) 0"

definition without_item :: "int \<Rightarrow> ('h, 'd, 'm) fdselector_scheme \<Rightarrow> ('h, 'd, 'm) fdselector_scheme" where
  "without_item fd s =
     (let s' = s\<lparr>fds := (fds s)[nat fd := item_init zero_item],
                 master_r := master_r s - {fd}, master_w := master_w s - {fd}\<rparr>
      in s'\<lparr>max_fd := top_fd s'\<rparr>)"

lemma entry_without_item:
  assumes "sel_entry s fd = Some it"
  shows "sel_entry (without_item fd s) = (sel_entry s)(fd := None)"
proof
  fix fd'
  show "sel_entry (without_item fd s) fd' = ((sel_entry s)(fd := None)) fd'"
    using sel_entry_range[OF assms]
    by (auto simp: sel_entry_def without_item_def ITEM_USED_def nth_list_update eq_nat_nat_iff
        item_init_def Let_def)
qed

text \<open>The maximum of the used items of a list, and where it comes from.\<close>

lemma fold_max:
  "fold (\<lambda>item m. if ITEM_USED item \<and> it_fd item > m then it_fd item else m) is (m::int) = m' \<Longrightarrow>
     m \<le> m' \<and> (\<forall>it\<in>set is. ITEM_USED it \<longrightarrow> it_fd it \<le> m')
     \<and> (m' = m \<or> (\<exists>it\<in>set is. ITEM_USED it \<and> it_fd it = m'))"
proof (induction "is" arbitrary: m)
  case Nil
  then show ?case by simp
next
  case (Cons a "is")
  define m1 where "m1 = (if ITEM_USED a \<and> m < it_fd a then it_fd a else m)"
  have A: "m1 \<le> m' \<and> (\<forall>it\<in>set is. ITEM_USED it \<longrightarrow> it_fd it \<le> m')
     \<and> (m' = m1 \<or> (\<exists>it\<in>set is. ITEM_USED it \<and> it_fd it = m'))"
    using Cons by (simp add: m1_def)
  have B: "m \<le> m1" "ITEM_USED a \<Longrightarrow> it_fd a \<le> m1" "m1 = m \<or> ITEM_USED a \<and> m1 = it_fd a"
    by (simp_all add: m1_def)
  have "m \<le> m'" using A B(1) by linarith
  moreover have "\<forall>it\<in>set (a # is). ITEM_USED it \<longrightarrow> it_fd it \<le> m'"
    using A B(2) by fastforce
  moreover have "m' = m \<or> (\<exists>it\<in>set (a # is). ITEM_USED it \<and> it_fd it = m')"
    using A B(3) by auto
  ultimately show ?case by blast
qed

lemma sel_entry_max: "sel_entry (s\<lparr>max_fd := m\<rparr>) = sel_entry s"
  by (simp add: sel_entry_def fun_eq_iff)

lemma inv_without_item:
  assumes "sel_inv s" "sel_entry s fd = Some it"
  shows "sel_inv (without_item fd s)"
proof -
  define s0 where "s0 = s\<lparr>fds := (fds s)[nat fd := item_init zero_item],
    master_r := master_r s - {fd}, master_w := master_w s - {fd}\<rparr>"
  have w: "without_item fd s = s0\<lparr>max_fd := top_fd s0\<rparr>"
    by (simp add: without_item_def s0_def Let_def)
  note e = entry_without_item[OF assms(2)]
  have e0: "sel_entry s0 = (sel_entry s)(fd := None)"
    using e by (simp add: w sel_entry_max)
  have size: "fd_size (without_item fd s) = fd_size s" "max_fd (without_item fd s) = top_fd s0"
    "fd_size s0 = fd_size s" "max_fd s0 = max_fd s"
    by (simp_all add: w) (simp_all add: s0_def)
  have mx: "0 \<le> max_fd s" "max_fd s < int (fd_size s)"
      "\<And>fd it. sel_entry s fd = Some it \<Longrightarrow> fd \<le> max_fd s"
      "\<And>fd it. sel_entry s fd = Some it \<Longrightarrow> it_fd it = fd"
    using assms(1) by (auto simp: sel_inv_def max_ok_def items_ok_def)
  have top: "0 \<le> top_fd s0 \<and> (\<forall>it\<in>set (take (nat (max_fd s + 1)) (fds s0)). ITEM_USED it \<longrightarrow> it_fd it \<le> top_fd s0)
     \<and> (top_fd s0 = 0 \<or> (\<exists>it\<in>set (take (nat (max_fd s + 1)) (fds s0)). ITEM_USED it \<and> it_fd it = top_fd s0))"
    by (rule fold_max) (simp add: top_fd_def size)
  have used: "it' \<in> set (take (nat (max_fd s + 1)) (fds s0)) \<and> ITEM_USED it' \<longleftrightarrow>
     (\<exists>i. sel_entry s0 i = Some it')" for it'
  proof
    assume "it' \<in> set (take (nat (max_fd s + 1)) (fds s0)) \<and> ITEM_USED it'"
    then obtain i where "i < fd_size s0" "fds s0 ! i = it'" "ITEM_USED it'"
      by (auto simp: in_set_conv_nth)
    then have "sel_entry s0 (int i) = Some it'" by (simp add: sel_entry_def)
    then show "\<exists>i. sel_entry s0 i = Some it'" by blast
  next
    assume "\<exists>i. sel_entry s0 i = Some it'"
    then obtain i where i: "sel_entry s0 i = Some it'" by blast
    then have "sel_entry s i = Some it'" by (simp add: e0 split: if_splits)
    then have "i \<le> max_fd s" by (rule mx(3))
    moreover have "0 \<le> i" "nat i < fd_size s0" "fds s0 ! nat i = it'" "ITEM_USED it'"
      using sel_entry_range[OF i] sel_entry_item[OF i] by auto
    ultimately have "nat i < length (take (nat (max_fd s + 1)) (fds s0))"
        "take (nat (max_fd s + 1)) (fds s0) ! nat i = it'"
      by auto
    then show "it' \<in> set (take (nat (max_fd s + 1)) (fds s0)) \<and> ITEM_USED it'"
      using \<open>ITEM_USED it'\<close> by (metis nth_mem)
  qed
  have ent: "sel_entry s0 i = Some it' \<Longrightarrow> sel_entry s i = Some it' \<and> it_fd it' = i" for i it'
    using mx(4) by (auto simp: e0 split: if_splits)
  have "items_ok (without_item fd s)"
    using assms unfolding sel_inv_def items_ok_def e size by (auto split: if_splits)
  moreover have "max_ok (without_item fd s)"
    unfolding max_ok_def size e e0[symmetric]
  proof (intro conjI allI impI)
    show "0 \<le> top_fd s0" using top by blast
    show "top_fd s0 < int (fd_size s)"
      using top used ent mx by (metis order_le_less_trans)
    show "i \<le> top_fd s0" if "sel_entry s0 i = Some it'" for i it'
      using top used ent that by metis
    show "sel_entry s0 (top_fd s0) \<noteq> None" if "top_fd s0 \<noteq> 0"
      using top used ent that by (metis option.distinct(1))
  qed
  moreover have "master_r (without_item fd s) = wants OP_READ (without_item fd s)"
    "master_w (without_item fd s) = wants OP_WRITE (without_item fd s)"
    using assms unfolding sel_inv_def wants_def e by (auto simp: w s0_def split: if_splits)
  ultimately show ?thesis by (simp add: sel_inv_def)
qed

lemma drop_item_used:
  assumes "sel_inv s" "sel_entry s fd = Some it"
  shows "drop_item fd s = Some (SELECTOR_SUCCESS, without_item fd s)"
  using entry_valid[OF assms] sel_entry_item[OF assms(2)] assms(1)
  by (auto simp: drop_item_def items_update_fdset_for_fd_def FD_CLR_def items_max_fd_def top_fd_def
      set_item_def without_item_def ITEM_USED_def c_assert_bind Let_def sel_inv_def max_ok_def)

lemma unregister_quiet_used:
  assumes "sel_inv s" "sel_entry s fd = Some it"
  shows "selector_unregister_fd_without_closing fd s = Some (SELECTOR_SUCCESS, without_item fd s)"
  using entry_valid[OF assms] sel_entry_item[OF assms(2)] drop_item_used[OF assms]
  by (auto simp: selector_unregister_fd_without_closing_def)

lemma unregister_quiet_unused:
  assumes "sel_entry s fd = None" "sel_full s"
  shows "selector_unregister_fd_without_closing fd s = Some (SELECTOR_IARGS, s)"
  using valid_in_full[OF assms(2), of fd] entry_None[OF assms(1)]
  by (auto simp: selector_unregister_fd_without_closing_def)

lemma full_without_item [simp]: "sel_full (without_item fd s) = sel_full s"
  by (simp add: sel_full_def without_item_def Let_def)

text \<open>Unregistering an item whose descriptor a close handler has already dropped clears bit \<open>-1\<close>.\<close>

lemma drop_item_twice:
  assumes "nat fd < fd_size s" "\<not> ITEM_USED (fds s ! nat fd)"
  shows "drop_item fd s = None"
  using assms by (simp add: drop_item_def items_update_fdset_for_fd_def FD_CLR_def ITEM_USED_def
      set_item_def c_assert_bind Let_def)

section \<open>The contract: a registry of descriptors\<close>

text \<open>
  What a client of the selector relies on: the table is a partial map from descriptors to
  items, each operation changes its own descriptor only, and the invariant is kept.
\<close>

locale fd_registry =
  fixes inv :: "'s \<Rightarrow> bool"
    and entry :: "'s \<Rightarrow> int \<Rightarrow> ('h, 'd) item option"
    and valid :: "int \<Rightarrow> bool"
    and register :: "int \<Rightarrow> 'h \<Rightarrow> fd_interest \<Rightarrow> 'd option \<Rightarrow> 's \<Rightarrow> (selector_status \<times> 's) option"
    and interest :: "int \<Rightarrow> fd_interest \<Rightarrow> 's \<Rightarrow> (selector_status \<times> 's) option"
    and drop :: "int \<Rightarrow> 's \<Rightarrow> (selector_status \<times> 's) option"
  assumes register_law: "inv s \<Longrightarrow> valid fd \<Longrightarrow> entry s fd = None \<Longrightarrow>
      \<exists>s'. register fd h i d s = Some (SELECTOR_SUCCESS, s') \<and> inv s'
        \<and> entry s' = (entry s)(fd \<mapsto> \<lparr>it_fd = fd, it_interest = i, it_handler = Some h, it_data = d\<rparr>)"
    and busy_law: "inv s \<Longrightarrow> valid fd \<Longrightarrow> entry s fd \<noteq> None \<Longrightarrow>
      register fd h i d s = Some (SELECTOR_FDINUSE, s)"
    and interest_law: "inv s \<Longrightarrow> entry s fd = Some it \<Longrightarrow>
      \<exists>s'. interest fd i s = Some (SELECTOR_SUCCESS, s') \<and> inv s'
        \<and> entry s' = (entry s)(fd \<mapsto> it\<lparr>it_interest := i\<rparr>)"
    and drop_law: "inv s \<Longrightarrow> entry s fd = Some it \<Longrightarrow>
      \<exists>s'. drop fd s = Some (SELECTOR_SUCCESS, s') \<and> inv s' \<and> entry s' = (entry s)(fd := None)"
begin

text \<open>A registration can be undone, whatever happened to its interest in between.\<close>

lemma register_drop:
  assumes "inv s" "valid fd" "entry s fd = None"
  shows "\<exists>s1 s2 s3. register fd h i d s = Some (SELECTOR_SUCCESS, s1)
    \<and> interest fd j s1 = Some (SELECTOR_SUCCESS, s2) \<and> drop fd s2 = Some (SELECTOR_SUCCESS, s3)
    \<and> inv s3 \<and> entry s3 = entry s"
proof -
  obtain s1 where s1: "register fd h i d s = Some (SELECTOR_SUCCESS, s1)" "inv s1"
      "entry s1 = (entry s)(fd \<mapsto> \<lparr>it_fd = fd, it_interest = i, it_handler = Some h, it_data = d\<rparr>)"
    using register_law[OF assms] by blast
  obtain s2 it where s2: "interest fd j s1 = Some (SELECTOR_SUCCESS, s2)" "inv s2"
      "entry s2 = (entry s1)(fd \<mapsto> it)"
    using interest_law[OF s1(2), of fd _ j] s1(3) by fastforce
  obtain s3 where s3: "drop fd s2 = Some (SELECTOR_SUCCESS, s3)" "inv s3"
      "entry s3 = (entry s2)(fd := None)"
    using drop_law[OF s2(2), of fd] s2(3) by fastforce
  have "entry s3 = entry s"
    using assms(3) by (auto simp: s3(3) s2(3) s1(3) fun_eq_iff)
  with s1 s2 s3 show ?thesis by blast
qed

text \<open>Two descriptors never disturb each other: setting both interests, in the code's order.\<close>

lemma interest_pair:
  assumes "inv s" "entry s a = Some x" "entry s b = Some y" "a \<noteq> b"
  shows "\<exists>s1 s2. interest a i s = Some (SELECTOR_SUCCESS, s1) \<and> interest b j s1 = Some (SELECTOR_SUCCESS, s2)
    \<and> inv s2 \<and> entry s2 = (entry s)(a \<mapsto> x\<lparr>it_interest := i\<rparr>, b \<mapsto> y\<lparr>it_interest := j\<rparr>)"
proof -
  obtain s1 where s1: "interest a i s = Some (SELECTOR_SUCCESS, s1)" "inv s1"
      "entry s1 = (entry s)(a \<mapsto> x\<lparr>it_interest := i\<rparr>)"
    using interest_law[OF assms(1,2)] by blast
  moreover have "entry s1 b = Some y" using assms(3,4) by (simp add: s1(3))
  ultimately show ?thesis
    using interest_law[OF s1(2), of b y j] by fastforce
qed

end

abbreviation registry_ok :: "('h, 'd, 'm) fdselector_scheme \<Rightarrow> bool" where
  "registry_ok s \<equiv> sel_inv s \<and> sel_full s"

interpretation reg: fd_registry registry_ok sel_entry "\<lambda>fd. \<not> INVALID_FD fd"
    "\<lambda>fd h. selector_register True fd (Some h)" selector_set_interest selector_unregister_fd_without_closing
proof (unfold_locales, goal_cases)
  case (1 s fd h i d)
  have r: "0 \<le> fd" "nat fd < fd_size s" using valid_in_full[of s fd] 1 by blast+
  moreover have "fd < int ITEMS_MAX_SIZE" using 1 by (simp add: INVALID_FD_def)
  ultimately show ?case
    using 1 register_free[of s fd "Some h"] inv_with_item[of s fd "Some h"] entry_with_item[OF r] by auto
next
  case (2 s fd h i d)
  then show ?case using register_busy by blast
next
  case (3 s fd it i)
  then show ?case
    using set_interest_used[of s fd it i] inv_with_interest[of s fd it i] entry_with_interest[of s fd it i]
    by auto
next
  case (4 s fd it)
  then show ?case
    using unregister_quiet_used[of s fd it] inv_without_item[of s fd it] entry_without_item[of s fd it]
    by auto
qed

section \<open>Unused items\<close>

text \<open>An item that is not used waits for nothing: the loop over the table does not look whether it is.\<close>

definition cleared :: "('h, 'd, 'm) fdselector_scheme \<Rightarrow> bool" where
  "cleared s \<longleftrightarrow> (\<forall>i < fd_size s. \<not> ITEM_USED (fds s ! i) \<longrightarrow> it_interest (fds s ! i) = OP_NOOP)"

lemma clearedD: "cleared s \<Longrightarrow> 0 \<le> fd \<Longrightarrow> nat fd < fd_size s \<Longrightarrow> sel_entry s fd = None \<Longrightarrow> it_interest (fds s ! nat fd) = OP_NOOP"
  using entry_None[of s fd] by (simp add: cleared_def)

lemma cleared_with_interest: "cleared s \<Longrightarrow> sel_entry s fd = Some it \<Longrightarrow> cleared (with_interest fd i s)"
  using sel_entry_range[of s fd it] sel_entry_item[of s fd it] by (auto simp: cleared_def with_interest_def nth_list_update ITEM_USED_def)

lemma cleared_with_item: "cleared s \<Longrightarrow> 0 \<le> fd \<Longrightarrow> cleared (with_item fd h i d s)"
  by (cases "nat fd < fd_size s") (auto simp: cleared_def with_item_def nth_list_update ITEM_USED_def list_update_beyond)

lemma cleared_without_item: "cleared s \<Longrightarrow> cleared (without_item fd s)"
  by (cases "nat fd < fd_size s")
    (auto simp: cleared_def without_item_def nth_list_update item_init_def zero_item_def ITEM_USED_def Let_def list_update_beyond)

section \<open>Capacity\<close>

lemma bits_of_pos: "0 < n \<Longrightarrow> bits_of n = bits_of (n div 2) + 1"
  by (subst bits_of.simps) simp

lemma bits_of_bounds: "0 < n \<Longrightarrow> 2 ^ (bits_of n - 1) \<le> n \<and> n < 2 ^ bits_of n"
proof (induction n rule: bits_of.induct)
  case (1 n)
  show ?case
  proof (cases "n div 2 = 0")
    case True
    then have "n = 1" using 1(2) by simp
    moreover have "bits_of 0 = 0" by (subst bits_of.simps) simp
    ultimately show ?thesis by (simp add: bits_of_pos)
  next
    case False
    then have "2 ^ (bits_of (n div 2) - 1) \<le> n div 2 \<and> n div 2 < 2 ^ bits_of (n div 2)"
      using 1 by auto
    moreover obtain b where b: "bits_of (n div 2) = Suc b"
      using False by (cases "bits_of (n div 2)") (auto simp: bits_of_pos)
    ultimately show ?thesis
      using 1(2) by (auto simp: bits_of_pos[OF 1(2)])
  qed
qed

text \<open>
  Up to the platform's limit the new capacity exceeds the request (so the descriptor has an
  item) and never goes past the limit plus one.
\<close>

lemma next_capacity_spec:
  assumes "n \<le> ITEMS_MAX_SIZE"
  shows "\<exists>c. next_capacity n = Some c \<and> n < c \<and> c \<le> ITEMS_MAX_SIZE + 1 \<and> c = min (2 ^ bits_of n) ITEMS_MAX_SIZE + 1"
proof (cases "n = 0")
  case True
  have "bits_of 0 = 0" by (subst bits_of.simps) simp
  with True show ?thesis by (simp add: next_capacity_def)
next
  case False
  then have b: "2 ^ (bits_of n - 1) \<le> n" "n < 2 ^ bits_of n" using bits_of_bounds by auto
  have "bits_of n - 1 < 64"
  proof (rule ccontr)
    assume "\<not> bits_of n - 1 < 64"
    then have "(2::nat) ^ 64 \<le> 2 ^ (bits_of n - 1)" by (intro power_increasing) auto
    with b(1) assms show False by simp
  qed
  moreover have "bits_of n \<noteq> 64"
  proof
    assume "bits_of n = 64"
    with b(1) assms show False by simp
  qed
  ultimately have "bits_of n < 64" by linarith
  with b(2) assms show ?thesis by (auto simp: next_capacity_def c_assert_bind Let_def)
qed

text \<open>The server's initial request gives a table in which every valid descriptor has an item.\<close>

lemma selector_new_spec:
  "\<exists>s :: ('h, 'd) fdselector. selector_new True True ITEMS_MAX_SIZE = Some (Some s) \<and> sel_inv s \<and> sel_full s
     \<and> (\<forall>fd. sel_entry s fd = None) \<and> resolution_jobs s = [] \<and> cleared s"
proof -
  obtain c where c: "next_capacity ITEMS_MAX_SIZE = Some c" "ITEMS_MAX_SIZE < c" "c \<le> ITEMS_MAX_SIZE + 1"
    using next_capacity_spec[OF order_refl] by blast
  then have cs: "c = 1025" by simp
  define s :: "('h, 'd) fdselector" where "s = empty_selector\<lparr>fds := replicate 1025 (item_init zero_item)\<rparr>"
  have new: "selector_new True True ITEMS_MAX_SIZE = Some (Some s)"
    using c(1) by (simp add: selector_new_def ensure_capacity_def empty_selector_def s_def cs)
  have e: "sel_entry s fd = None" for fd
    by (auto simp: sel_entry_def s_def item_init_def ITEM_USED_def)
  then have "sel_inv s"
    by (auto simp: sel_inv_def items_ok_def max_ok_def wants_def) (simp_all add: s_def empty_selector_def)
  moreover have "sel_full s" "resolution_jobs s = []" by (simp_all add: sel_full_def s_def empty_selector_def)
  moreover have "cleared s" by (simp add: cleared_def s_def item_init_def zero_item_def empty_selector_def)
  ultimately show ?thesis using new e by blast
qed

end
