(* ===== verification/StateMachine.thy ===== *)
theory StateMachine
  imports Prelude
begin

text \<open>
  The state-machine engine of \<open>src/shared/stm.c\<close>. A machine runs over a static table of state
  definitions, which is an argument of the operations; \<open>current\<close> is the pointer into the
  table as an index (\<open>NULL\<close> is \<open>None\<close>). Handlers act on a state \<open>'s\<close> that holds everything they
  can reach; a missing handler is the failed \<open>assert\<close> of the code.

  The contract between the engine and the handlers is the locale \<open>machine_contract\<close>: per-state
  preconditions and invariants that the handlers promise, from which the engine keeps the
  machine's invariant over every event.
\<close>

section \<open>Tables and machines\<close>

record ('k, 's) state_definition =
  sd_state :: nat
  on_arrival :: "(nat \<Rightarrow> 'k \<Rightarrow> 's \<Rightarrow> 's option) option"
  on_departure :: "(nat \<Rightarrow> 'k \<Rightarrow> 's \<Rightarrow> 's option) option"
  on_read_ready :: "('k \<Rightarrow> 's \<Rightarrow> (nat \<times> 's) option) option"
  on_write_ready :: "('k \<Rightarrow> 's \<Rightarrow> (nat \<times> 's) option) option"
  on_block_ready :: "('k \<Rightarrow> 's \<Rightarrow> (nat \<times> 's) option) option"

text \<open>A table entry with no handler: what C's designated initialisers leave out is \<open>NULL\<close>.\<close>

definition plain_state :: "nat \<Rightarrow> ('k, 's) state_definition" where
  "plain_state q = \<lparr>sd_state = q, on_arrival = None, on_departure = None,
     on_read_ready = None, on_write_ready = None, on_block_ready = None\<rparr>"

record state_machine =
  initial :: nat
  max_state :: nat
  current :: "nat option"

section \<open>Operations\<close>

fun check_states :: "('k, 's) state_definition list \<Rightarrow> nat list \<Rightarrow> unit option" where
  "check_states tbl [] = Some ()"
| "check_states tbl (i # is) = do { d \<leftarrow> nth_opt tbl i; c_assert (sd_state d = i); check_states tbl is }"

definition stm_init :: "('k, 's) state_definition list \<Rightarrow> state_machine \<Rightarrow> state_machine option" where
  "stm_init tbl m = do {
     check_states tbl [0..<max_state m + 1];
     c_assert (initial m < max_state m);
     Some (m\<lparr>current := None\<rparr>)
   }"

definition run_hook :: "(nat \<Rightarrow> 'k \<Rightarrow> 's \<Rightarrow> 's option) option \<Rightarrow> nat \<Rightarrow> 'k \<Rightarrow> 's \<Rightarrow> 's option" where
  "run_hook h q k s = (case h of None \<Rightarrow> Some s | Some f \<Rightarrow> f q k s)"

definition handle_first ::
  "('k, 's) state_definition list \<Rightarrow> 'k \<Rightarrow> state_machine \<Rightarrow> 's \<Rightarrow> (state_machine \<times> 's) option" where
  "handle_first tbl k m s =
     (case current m of
        Some _ \<Rightarrow> Some (m, s)
      | None \<Rightarrow> do {
          d \<leftarrow> nth_opt tbl (initial m);
          s' \<leftarrow> run_hook (on_arrival d) (sd_state d) k s;
          Some (m\<lparr>current := Some (initial m)\<rparr>, s')
        })"

definition jump ::
  "('k, 's) state_definition list \<Rightarrow> nat \<Rightarrow> 'k \<Rightarrow> state_machine \<Rightarrow> 's \<Rightarrow> (state_machine \<times> 's) option" where
  "jump tbl next k m s = do {
     c_assert (next \<le> max_state m);
     (if current m = Some next then Some (m, s)
      else do {
        s1 \<leftarrow> (case current m of None \<Rightarrow> Some s
               | Some q \<Rightarrow> do { d \<leftarrow> nth_opt tbl q; run_hook (on_departure d) (sd_state d) k s });
        d \<leftarrow> nth_opt tbl next;
        s2 \<leftarrow> run_hook (on_arrival d) (sd_state d) k s1;
        Some (m\<lparr>current := Some next\<rparr>, s2)
      })
   }"

text \<open>The body that \<open>stm_handler_read\<close>, \<open>_write\<close> and \<open>_block\<close> share, over the handler they select.\<close>

definition stm_handler ::
  "(('k, 's) state_definition \<Rightarrow> ('k \<Rightarrow> 's \<Rightarrow> (nat \<times> 's) option) option)
   \<Rightarrow> ('k, 's) state_definition list \<Rightarrow> 'k \<Rightarrow> state_machine \<Rightarrow> 's \<Rightarrow> (nat \<times> state_machine \<times> 's) option" where
  "stm_handler sel tbl k m s = do {
     (m1, s1) \<leftarrow> handle_first tbl k m s;
     q \<leftarrow> current m1;
     d \<leftarrow> nth_opt tbl q;
     h \<leftarrow> sel d;
     (ret, s2) \<leftarrow> h k s1;
     (m3, s3) \<leftarrow> jump tbl ret k m1 s2;
     Some (ret, m3, s3)
   }"

definition stm_handler_read ::
  "('k, 's) state_definition list \<Rightarrow> 'k \<Rightarrow> state_machine \<Rightarrow> 's \<Rightarrow> (nat \<times> state_machine \<times> 's) option" where
  "stm_handler_read = stm_handler on_read_ready"

definition stm_handler_write ::
  "('k, 's) state_definition list \<Rightarrow> 'k \<Rightarrow> state_machine \<Rightarrow> 's \<Rightarrow> (nat \<times> state_machine \<times> 's) option" where
  "stm_handler_write = stm_handler on_write_ready"

definition stm_handler_block ::
  "('k, 's) state_definition list \<Rightarrow> 'k \<Rightarrow> state_machine \<Rightarrow> 's \<Rightarrow> (nat \<times> state_machine \<times> 's) option" where
  "stm_handler_block = stm_handler on_block_ready"

definition stm_handler_close ::
  "('k, 's) state_definition list \<Rightarrow> 'k \<Rightarrow> state_machine \<Rightarrow> 's \<Rightarrow> 's option" where
  "stm_handler_close tbl k m s =
     (case current m of None \<Rightarrow> Some s
      | Some q \<Rightarrow> do { d \<leftarrow> nth_opt tbl q; run_hook (on_departure d) (sd_state d) k s })"

definition stm_state :: "('k, 's) state_definition list \<Rightarrow> state_machine \<Rightarrow> nat option" where
  "stm_state tbl m = (case current m of None \<Rightarrow> Some (initial m)
     | Some q \<Rightarrow> map_option sd_state (nth_opt tbl q))"

lemmas stm_handlers = stm_handler_read_def stm_handler_write_def stm_handler_block_def

section \<open>What the engine does, over any table\<close>

lemma check_states_Some: "check_states tbl is = Some () \<longleftrightarrow> (\<forall>i\<in>set is. i < length tbl \<and> sd_state (tbl ! i) = i)"
  by (induction "is") (auto simp: nth_opt_def c_assert_def)

lemma stm_init_spec:
  "stm_init tbl m = Some m' \<longleftrightarrow>
     (\<forall>i\<le>max_state m. i < length tbl \<and> sd_state (tbl ! i) = i) \<and> initial m < max_state m
     \<and> m' = m\<lparr>current := None\<rparr>"
proof -
  have "check_states tbl [0..<max_state m + 1] = Some ()
      \<longleftrightarrow> (\<forall>i\<le>max_state m. i < length tbl \<and> sd_state (tbl ! i) = i)"
    unfolding check_states_Some by (auto simp: less_Suc_eq_le)
  then show ?thesis
    by (cases "check_states tbl [0..<max_state m + 1]")
      (auto simp: stm_init_def c_assert_def simp del: upt_Suc)
qed

text \<open>The handler's answer becomes the current state, and nothing else of the machine changes.\<close>

lemma stm_handler_current:
  assumes "stm_handler sel tbl k m s = Some (ret, m', s')"
  shows "m' = m\<lparr>current := Some ret\<rparr> \<and> ret \<le> max_state m"
  using assms
  by (auto simp: stm_handler_def handle_first_def jump_def c_assert_def elim!: bind_SomeE
      split: option.splits if_splits prod.splits)

text \<open>One event: the handler stays in its state, leaves it for another, or is the first one to run.\<close>

lemma handler_stays:
  assumes "current m = Some q" "nth_opt tbl q = Some d" "q \<le> max_state m" "sel d = Some h" "h k s = Some (q, s')"
  shows "stm_handler sel tbl k m s = Some (q, m, s')"
  using assms by (simp add: stm_handler_def handle_first_def jump_def)

lemma handler_moves:
  assumes "current m = Some q" "nth_opt tbl q = Some d" "sel d = Some h" "h k s = Some (q', s1)" "q' \<noteq> q" "q' \<le> max_state m"
    and "run_hook (on_departure d) (sd_state d) k s1 = Some s2"
    and "nth_opt tbl q' = Some d'" "run_hook (on_arrival d') (sd_state d') k s2 = Some s3"
  shows "stm_handler sel tbl k m s = Some (q', m\<lparr>current := Some q'\<rparr>, s3)"
  using assms by (simp add: stm_handler_def handle_first_def jump_def)

lemma handler_first:
  assumes "current m = None" "initial m = q" "nth_opt tbl q = Some d" "run_hook (on_arrival d) (sd_state d) k s = Some s1"
    and "q \<le> max_state m" "sel d = Some h" "h k s1 = Some (q, s')"
  shows "stm_handler sel tbl k m s = Some (q, m\<lparr>current := Some q\<rparr>, s')"
  using assms by (simp add: stm_handler_def handle_first_def jump_def)

section \<open>The contract between the engine and the handlers\<close>

locale machine_contract =
  fixes tbl :: "('k, 's) state_definition list"
    and keyok :: "'k \<Rightarrow> bool"
    and pre :: "nat \<Rightarrow> 's \<Rightarrow> bool"
    and inv :: "nat \<Rightarrow> 's \<Rightarrow> bool"
  assumes numbered: "i < length tbl \<Longrightarrow> sd_state (tbl ! i) = i"
    and arrival: "q < length tbl \<Longrightarrow> keyok k \<Longrightarrow> pre q s
      \<Longrightarrow> run_hook (on_arrival (tbl ! q)) q k s = Some s' \<Longrightarrow> inv q s'"
    and departure: "q < length tbl \<Longrightarrow> keyok k \<Longrightarrow> pre q' s
      \<Longrightarrow> run_hook (on_departure (tbl ! q)) q k s = Some s' \<Longrightarrow> pre q' s'"
    and on_read: "q < length tbl \<Longrightarrow> keyok k \<Longrightarrow> inv q s \<Longrightarrow> on_read_ready (tbl ! q) = Some h
      \<Longrightarrow> h k s = Some (q', s') \<Longrightarrow> (if q' = q then inv q s' else pre q' s')"
    and on_write: "q < length tbl \<Longrightarrow> keyok k \<Longrightarrow> inv q s \<Longrightarrow> on_write_ready (tbl ! q) = Some h
      \<Longrightarrow> h k s = Some (q', s') \<Longrightarrow> (if q' = q then inv q s' else pre q' s')"
    and on_block: "q < length tbl \<Longrightarrow> keyok k \<Longrightarrow> inv q s \<Longrightarrow> on_block_ready (tbl ! q) = Some h
      \<Longrightarrow> h k s = Some (q', s') \<Longrightarrow> (if q' = q then inv q s' else pre q' s')"
begin

definition minv :: "state_machine \<Rightarrow> 's \<Rightarrow> bool" where
  "minv m s = (case current m of None \<Rightarrow> pre (initial m) s | Some q \<Rightarrow> q < length tbl \<and> inv q s)"

lemma first_inv:
  assumes "handle_first tbl k m s = Some (m', s')" "keyok k" "minv m s"
  shows "minv m' s' \<and> (\<exists>q. current m' = Some q)"
  using assms arrival[of "initial m" k s s'] numbered[of "initial m"]
  by (auto simp: handle_first_def minv_def nth_opt_def split: option.splits if_splits elim!: bind_SomeE)

lemma jump_inv:
  assumes "jump tbl ret k m s = Some (m', s')" "keyok k" "current m = Some q" "q < length tbl"
    and "if ret = q then inv q s else pre ret s"
  shows "minv m' s'"
proof (cases "ret = q")
  case True
  with assms show ?thesis by (auto simp: jump_def minv_def c_assert_bind split: if_splits)
next
  case False
  then obtain s1 where s1: "run_hook (on_departure (tbl ! q)) q k s = Some s1" "ret < length tbl"
      "run_hook (on_arrival (tbl ! ret)) ret k s1 = Some s'" "current m' = Some ret"
    using assms(1,3,4) numbered
    by (auto simp: jump_def c_assert_bind nth_opt_def split: if_splits elim!: bind_SomeE)
  then show ?thesis
    using departure[OF assms(4,2) _ s1(1), of ret] arrival[OF s1(2) assms(2) _ s1(3)] assms(5) False
    by (simp add: minv_def)
qed

lemma handler_inv:
  assumes run: "stm_handler sel tbl k m s = Some (ret, m', s')" and k: "keyok k" and i: "minv m s"
    and law: "\<And>q h s q' s'. q < length tbl \<Longrightarrow> inv q s \<Longrightarrow> sel (tbl ! q) = Some h
       \<Longrightarrow> h k s = Some (q', s') \<Longrightarrow> (if q' = q then inv q s' else pre q' s')"
  shows "minv m' s'"
proof -
  obtain m1 s1 q d h s2 where r: "handle_first tbl k m s = Some (m1, s1)" "current m1 = Some q"
      "nth_opt tbl q = Some d" "sel d = Some h" "h k s1 = Some (ret, s2)"
      "jump tbl ret k m1 s2 = Some (m', s')"
    using run by (auto simp: stm_handler_def elim!: bind_SomeE split: prod.splits)
  have q: "q < length tbl" "inv q s1" "d = tbl ! q"
    using first_inv[OF r(1) k i] r(2,3) by (auto simp: minv_def nth_opt_def split: if_splits)
  show ?thesis
    using jump_inv[OF r(6) k r(2) q(1)] law[OF q(1,2)] r(4,5) q(3) by auto
qed

lemma read_inv: "stm_handler_read tbl k m s = Some (ret, m', s') \<Longrightarrow> keyok k \<Longrightarrow> minv m s \<Longrightarrow> minv m' s'"
  unfolding stm_handler_read_def by (erule handler_inv) (auto dest: on_read)

lemma write_inv: "stm_handler_write tbl k m s = Some (ret, m', s') \<Longrightarrow> keyok k \<Longrightarrow> minv m s \<Longrightarrow> minv m' s'"
  unfolding stm_handler_write_def by (erule handler_inv) (auto dest: on_write)

lemma block_inv: "stm_handler_block tbl k m s = Some (ret, m', s') \<Longrightarrow> keyok k \<Longrightarrow> minv m s \<Longrightarrow> minv m' s'"
  unfolding stm_handler_block_def by (erule handler_inv) (auto dest: on_block)

end

end
