(* ===== verification/NodeHeap.thy ===== *)
theory NodeHeap
  imports Prelude
begin

text \<open>
  The store of the linked structures of \<open>src/shared/queue.c\<close> and \<open>src/shared/list.c\<close>.
  Both build singly linked lists of \<open>struct Node { next, data }\<close>; a node is a cell of an
  explicit heap, a pointer an address or \<open>NULL\<close> (\<open>None\<close>). A node and its separately
  allocated \<open>data\<close> block are created and freed together by both files, so they share one
  cell. Reading a freed or foreign address has no value: the run is undefined (\<open>None\<close>).

  The lemmas give linked chains: composition, framing, uniqueness, distinctness, relinking.
\<close>

record 'a node =
  n_next :: "nat option"
  n_data :: 'a

type_synonym 'a heap = "'a node option list"

definition deref :: "'a heap \<Rightarrow> nat \<Rightarrow> 'a node option" where
  "deref h a = (if a < length h then h ! a else None)"

definition h_alloc :: "'a node \<Rightarrow> 'a heap \<Rightarrow> nat \<times> 'a heap" where
  "h_alloc nd h = (length h, h @ [Some nd])"

definition h_free :: "nat \<Rightarrow> 'a heap \<Rightarrow> 'a heap" where
  "h_free a h = h[a := None]"

definition h_set_next :: "nat \<Rightarrow> nat option \<Rightarrow> 'a heap \<Rightarrow> 'a heap option" where
  "h_set_next a p h = do { nd \<leftarrow> deref h a; Some (h[a := Some (nd\<lparr>n_next := p\<rparr>)]) }"

definition h_set_data :: "nat \<Rightarrow> 'a \<Rightarrow> 'a heap \<Rightarrow> 'a heap option" where
  "h_set_data a x h = do { nd \<leftarrow> deref h a; Some (h[a := Some (nd\<lparr>n_data := x\<rparr>)]) }"

section \<open>Chains\<close>

text \<open>\<open>chain h p as q\<close>: following \<open>next\<close> from \<open>p\<close> visits exactly \<open>as\<close> and arrives at \<open>q\<close>.\<close>

fun chain :: "'a heap \<Rightarrow> nat option \<Rightarrow> nat list \<Rightarrow> nat option \<Rightarrow> bool" where
  "chain h p [] q \<longleftrightarrow> p = q"
| "chain h p (a # as) q \<longleftrightarrow> p = Some a
     \<and> (case deref h a of None \<Rightarrow> False | Some nd \<Rightarrow> chain h (n_next nd) as q)"

definition elem :: "'a heap \<Rightarrow> nat \<Rightarrow> 'a" where
  "elem h a = n_data (the (deref h a))"

abbreviation elems :: "'a heap \<Rightarrow> nat list \<Rightarrow> 'a list" where
  "elems h as \<equiv> map (elem h) as"

lemma deref_update:
  "deref (h[a := x]) b = (if a = b \<and> a < length h then x else deref h b)"
  by (auto simp: deref_def)

lemma deref_append [simp]: "a < length h \<Longrightarrow> deref (h @ [x]) a = deref h a"
  by (simp add: deref_def nth_append)

lemma deref_append_new [simp]: "deref (h @ [x]) (length h) = x"
  by (simp add: deref_def)

lemma deref_Some_less: "deref h a = Some nd \<Longrightarrow> a < length h"
  by (simp add: deref_def split: if_splits)

lemma deref_grow: "deref h a = Some nd \<Longrightarrow> deref (h @ [x]) a = Some nd"
  by (simp add: deref_Some_less)

lemma chain_append: "chain h p (as @ bs) q \<longleftrightarrow> (\<exists>m. chain h p as m \<and> chain h m bs q)"
  by (induction as arbitrary: p) (auto split: option.splits)

lemma chain_less: "chain h p as q \<Longrightarrow> a \<in> set as \<Longrightarrow> a < length h"
  by (induction as arbitrary: p) (auto split: option.splits dest: deref_Some_less)

lemma chain_deref: "chain h p as q \<Longrightarrow> a \<in> set as \<Longrightarrow> \<exists>nd. deref h a = Some nd"
  by (induction as arbitrary: p) (auto split: option.splits)

lemma chain_frame [simp]: "a \<notin> set as \<Longrightarrow> chain (h[a := x]) p as q \<longleftrightarrow> chain h p as q"
  by (induction as arbitrary: p) (auto simp: deref_update split: option.splits)

lemma chain_grow: "chain h p as q \<Longrightarrow> chain (h @ [x]) p as q"
  by (induction as arbitrary: p) (auto simp: deref_grow split: option.splits)

lemma elem_frame [simp]: "a \<noteq> b \<Longrightarrow> elem (h[a := x]) b = elem h b"
  by (simp add: elem_def deref_update)

lemma elem_grow [simp]: "a < length h \<Longrightarrow> elem (h @ [x]) a = elem h a"
  by (simp add: elem_def)

lemma elem_new [simp]: "elem (h @ [Some nd]) (length h) = n_data nd"
  by (simp add: elem_def)

lemma elems_grow: "chain h p as q \<Longrightarrow> elems (h @ [x]) as = elems h as"
  by (auto dest: chain_less)

lemma elems_frame: "a \<notin> set as \<Longrightarrow> elems (h[a := x]) as = elems h as"
  by (metis (mono_tags, lifting) elem_frame map_eq_conv)

lemma chain_unique: "chain h p as None \<Longrightarrow> chain h p bs None \<Longrightarrow> as = bs"
proof (induction as arbitrary: p bs)
  case Nil
  then show ?case by (cases bs) auto
next
  case (Cons a as)
  then show ?case by (cases bs) (auto split: option.splits)
qed

text \<open>A chain that ends never repeats a node.\<close>

lemma chain_distinct: "chain h p as None \<Longrightarrow> distinct as"
proof (rule ccontr)
  assume c: "chain h p as None" and "\<not> distinct as"
  then obtain xs ys zs a where as: "as = xs @ [a] @ ys @ [a] @ zs"
    using not_distinct_decomp by blast
  from c have "chain h (Some a) (a # ys @ a # zs) None" "chain h (Some a) (a # zs) None"
    unfolding as by (auto simp: chain_append split: option.splits)
  then have "a # ys @ a # zs = a # zs" by (rule chain_unique)
  then have "length (ys @ a # zs) = length zs" by simp
  then show False by simp
qed

text \<open>Redirecting the last node of a chain.\<close>

lemma chain_relink:
  assumes "chain h p (as @ [a]) q" "a \<notin> set as" "deref h a = Some nd"
  shows "chain (h[a := Some (nd\<lparr>n_next := r\<rparr>)]) p (as @ [a]) r"
  using assms by (auto simp: chain_append deref_update dest: deref_Some_less)

lemma elem_relink [simp]:
  "deref h a = Some nd \<Longrightarrow> elem (h[a := Some (nd\<lparr>n_next := r\<rparr>)]) b = elem h b"
  by (auto simp: elem_def deref_update)

text \<open>Overwriting the data of a node changes no link.\<close>

lemma chain_set_data:
  assumes "deref h a = Some nd"
  shows "chain (h[a := Some (nd\<lparr>n_data := x\<rparr>)]) p as q \<longleftrightarrow> chain h p as q"
proof (induction as arbitrary: p)
  case Nil
  show ?case by simp
next
  case (Cons b as)
  show ?case
  proof (cases "b = a")
    case True
    with Cons[of "n_next nd"] assms show ?thesis
      by (simp add: deref_update deref_Some_less[OF assms])
  next
    case False
    with Cons show ?thesis by (simp add: deref_update split: option.splits)
  qed
qed

lemma elem_set_data:
  "deref h a = Some nd \<Longrightarrow> elem (h[a := Some (nd\<lparr>n_data := x\<rparr>)]) b = (if b = a then x else elem h b)"
  by (auto simp: elem_def deref_update dest: deref_Some_less)

section \<open>Reading a chain back\<close>

text \<open>The elements reached from \<open>p\<close> in at most \<open>n\<close> steps.\<close>

fun walk :: "nat \<Rightarrow> 'a heap \<Rightarrow> nat option \<Rightarrow> 'a list" where
  "walk (Suc n) h (Some a) =
     (case deref h a of None \<Rightarrow> [] | Some nd \<Rightarrow> n_data nd # walk n h (n_next nd))"
| "walk _ h _ = []"

lemma walk_chain: "chain h p as None \<Longrightarrow> walk (length as) h p = elems h as"
  by (induction as arbitrary: p) (auto simp: elem_def split: option.splits)

section \<open>Freeing a chain\<close>

text \<open>
  The loop \<open>while (current) { temp = current; current = current->next; free (temp); }\<close>, which
  \<open>free_queue\<close> and \<open>list_free\<close> share. It terminates on every chain that ends, and frees
  exactly its nodes.
\<close>

partial_function (option) free_nodes :: "'a heap \<Rightarrow> nat option \<Rightarrow> 'a heap option" where
  "free_nodes h current = (case current of
     None \<Rightarrow> Some h
   | Some a \<Rightarrow> do { nd \<leftarrow> deref h a; free_nodes (h_free a h) (n_next nd) })"

lemma free_nodes_spec:
  "chain h p as None \<Longrightarrow> \<exists>h'. free_nodes h p = Some h'
     \<and> (\<forall>b. deref h' b = (if b \<in> set as then None else deref h b))"
proof (induction as arbitrary: h p)
  case Nil
  then show ?case by (simp add: free_nodes.simps)
next
  case (Cons a as)
  then obtain nd where nd: "p = Some a" "deref h a = Some nd" "chain h (n_next nd) as None"
    by (auto split: option.splits)
  have "a \<notin> set as" using chain_distinct[OF Cons.prems] by simp
  with nd have "chain (h_free a h) (n_next nd) as None" by (simp add: h_free_def)
  from Cons.IH[OF this] nd show ?case
    by (subst free_nodes.simps) (auto simp: h_free_def deref_update deref_Some_less)
qed

end
