(* ===== verification/SortedList.thy ===== *)
theory SortedList
  imports NodeHeap
begin

text \<open>
  The sorted list of \<open>src/shared/list.c\<close> over the heap of \<open>NodeHeap\<close>. The list handle
  may be \<open>NULL\<close> (\<open>None\<close>); \<open>m\<close>, \<open>m1\<close>, \<open>m2\<close> say whether an allocation succeeds. \<open>list_create\<close>
  leaves \<open>iter\<close> uninitialised: \<open>l_iter = None\<close> is an indeterminate pointer, and reading it is
  undefined. A comparison may itself be undefined. The loops are partial functions: a cyclic
  list would be a run without result.

  The comparison function is an interface: the locale \<open>comparator\<close> states what the list needs
  of it, and the list is proved, inside it, to be the sorted list without duplicate keys.
\<close>

record 'a slist =
  l_head :: "nat option"
  l_iter :: "nat option option"
  l_size :: nat
  l_cmp :: "'a \<Rightarrow> 'a \<Rightarrow> int option"
  l_heap :: "'a heap"

definition list_create :: "bool \<Rightarrow> ('a \<Rightarrow> 'a \<Rightarrow> int option) \<Rightarrow> 'a slist option" where
  "list_create m cmp =
     (if \<not> m then None
      else Some \<lparr>l_head = None, l_iter = None, l_size = 0, l_cmp = cmp, l_heap = []\<rparr>)"

text \<open>The search loop of \<open>list_add\<close>: the final \<open>prev\<close> (indeterminate at first) and \<open>cur\<close>.\<close>

partial_function (option) seek ::
  "('a \<Rightarrow> 'a \<Rightarrow> int option) \<Rightarrow> 'a heap \<Rightarrow> 'a \<Rightarrow> nat option \<Rightarrow> nat option \<Rightarrow> (nat option \<times> nat option) option" where
  "seek cmp h x prev cur = (case cur of
     None \<Rightarrow> Some (prev, None)
   | Some a \<Rightarrow> do {
       nd \<leftarrow> deref h a;
       c \<leftarrow> cmp (n_data nd) x;
       (if c < 0 then seek cmp h x (Some a) (n_next nd) else Some (prev, Some a))
     })"

definition list_link :: "'a slist \<Rightarrow> 'a \<Rightarrow> nat option \<Rightarrow> nat option \<Rightarrow> 'a slist option" where
  "list_link l x prev cur = do {
     let (aux, h) = h_alloc \<lparr>n_next = cur, n_data = x\<rparr> (l_heap l);
     l' \<leftarrow> (if cur = l_head l then Some (l\<lparr>l_head := Some aux, l_heap := h\<rparr>)
           else do { p \<leftarrow> prev; h' \<leftarrow> h_set_next p (Some aux) h; Some (l\<lparr>l_heap := h'\<rparr>) });
     Some (l'\<lparr>l_size := l_size l' + 1\<rparr>)
   }"

text \<open>The Boolean of the result: is the returned pointer the list (not \<open>NULL\<close>).\<close>

definition list_add :: "bool \<Rightarrow> bool \<Rightarrow> 'a slist option \<Rightarrow> 'a \<Rightarrow> (bool \<times> 'a slist option) option" where
  "list_add m1 m2 lp x = do {
     l \<leftarrow> lp;
     (prev, cur) \<leftarrow> seek (l_cmp l) (l_heap l) x None (l_head l);
     dup \<leftarrow> (case cur of None \<Rightarrow> Some False
            | Some a \<Rightarrow> do { nd \<leftarrow> deref (l_heap l) a; c \<leftarrow> l_cmp l (n_data nd) x; Some (c = 0) });
     (if dup then Some (True, Some l)
      else if \<not> m1 \<or> \<not> m2 then Some (False, Some l)
      else do { l' \<leftarrow> list_link l x prev cur; Some (True, Some l') })
   }"

text \<open>The search loop of \<open>list_remove\<close>: the node that compares equal, with its \<open>prev\<close>.\<close>

partial_function (option) find_node ::
  "('a \<Rightarrow> 'a \<Rightarrow> int option) \<Rightarrow> 'a heap \<Rightarrow> 'a \<Rightarrow> nat option \<Rightarrow> nat option \<Rightarrow> (nat option \<times> nat) option option" where
  "find_node cmp h x prev tmp = (case tmp of
     None \<Rightarrow> Some None
   | Some a \<Rightarrow> do {
       nd \<leftarrow> deref h a;
       c \<leftarrow> cmp (n_data nd) x;
       (if c = 0 then Some (Some (prev, a)) else find_node cmp h x (Some a) (n_next nd))
     })"

definition list_unlink :: "'a slist \<Rightarrow> nat option \<Rightarrow> nat \<Rightarrow> 'a slist option" where
  "list_unlink l prev tmp = do {
     nd \<leftarrow> deref (l_heap l) tmp;
     l' \<leftarrow> (case prev of
             None \<Rightarrow> Some (l\<lparr>l_head := n_next nd\<rparr>)
           | Some p \<Rightarrow> do { h \<leftarrow> h_set_next p (n_next nd) (l_heap l); Some (l\<lparr>l_heap := h\<rparr>) });
     Some (l'\<lparr>l_heap := h_free tmp (l_heap l'), l_size := l_size l' - 1\<rparr>)
   }"

definition list_remove :: "'a slist option \<Rightarrow> 'a \<Rightarrow> (bool \<times> 'a slist option) option" where
  "list_remove lp x = (case lp of
     None \<Rightarrow> Some (False, None)
   | Some l \<Rightarrow>
       (if l_head l = None then Some (False, Some l)
        else do {
          r \<leftarrow> find_node (l_cmp l) (l_heap l) x None (l_head l);
          (case r of
             None \<Rightarrow> Some (True, Some l)
           | Some (prev, tmp) \<Rightarrow> do { l' \<leftarrow> list_unlink l prev tmp; Some (True, Some l') })
        }))"

definition list_free :: "'a slist option \<Rightarrow> 'a heap option" where
  "list_free lp = (case lp of None \<Rightarrow> Some [] | Some l \<Rightarrow> free_nodes (l_heap l) (l_head l))"

definition list_begin_iter :: "'a slist option \<Rightarrow> 'a slist option" where
  "list_begin_iter lp = map_option (\<lambda>l. l\<lparr>l_iter := Some (l_head l)\<rparr>) lp"

definition list_has_next :: "'a slist option \<Rightarrow> bool option" where
  "list_has_next lp = (case lp of
     None \<Rightarrow> Some False
   | Some l \<Rightarrow> map_option (\<lambda>p. p \<noteq> None) (l_iter l))"

text \<open>The data pointer (the node's address), with the element copied to a non-\<open>NULL\<close> buffer.\<close>

definition list_get_next :: "'a slist option \<Rightarrow> ((nat \<times> 'a) option \<times> 'a slist option) option" where
  "list_get_next lp = do {
     l \<leftarrow> lp;
     it \<leftarrow> l_iter l;
     (case it of
        None \<Rightarrow> Some (None, Some l)
      | Some a \<Rightarrow> do {
          nd \<leftarrow> deref (l_heap l) a;
          Some (Some (a, n_data nd), Some (l\<lparr>l_iter := Some (n_next nd)\<rparr>))
        })
   }"

definition list_get_size :: "'a slist option \<Rightarrow> nat option" where
  "list_get_size lp = map_option l_size lp"

section \<open>Representation and reference operations\<close>

definition list_rep :: "'a slist \<Rightarrow> nat list \<Rightarrow> bool" where
  "list_rep l as \<longleftrightarrow> chain (l_heap l) (l_head l) as None \<and> l_size l = length as"

definition slist_elems :: "'a slist \<Rightarrow> 'a list" where
  "slist_elems l = walk (l_size l) (l_heap l) (l_head l)"

definition key_sorted :: "('a \<Rightarrow> 'k::linorder) \<Rightarrow> 'a list \<Rightarrow> bool" where
  "key_sorted key xs \<longleftrightarrow> sorted_wrt (\<lambda>x y. key x < key y) xs"

fun ins_by :: "('a \<Rightarrow> 'k::linorder) \<Rightarrow> 'a \<Rightarrow> 'a list \<Rightarrow> 'a list" where
  "ins_by key x [] = [x]"
| "ins_by key x (y # ys) =
     (if key y < key x then y # ins_by key x ys else if key y = key x then y # ys else x # y # ys)"

definition del_by :: "('a \<Rightarrow> 'k) \<Rightarrow> 'a \<Rightarrow> 'a list \<Rightarrow> 'a list" where
  "del_by key x ys = filter (\<lambda>y. key y \<noteq> key x) ys"

lemma list_rep_elems: "list_rep l as \<Longrightarrow> slist_elems l = elems (l_heap l) as"
  by (simp add: list_rep_def slist_elems_def walk_chain)

lemma set_ins_by: "set (ins_by key x ys) \<subseteq> insert x (set ys)"
  by (induction ys) auto

lemma key_set_ins_by: "key ` set (ins_by key x ys) = insert (key x) (key ` set ys)"
  by (induction ys) auto

lemma key_sorted_ins_by: "key_sorted key ys \<Longrightarrow> key_sorted key (ins_by key x ys)"
proof (induction ys)
  case Nil
  then show ?case by (simp add: key_sorted_def)
next
  case (Cons y ys)
  then show ?case
    using set_ins_by[of key x ys] by (force simp: key_sorted_def)
qed

lemma key_sorted_del_by: "key_sorted key ys \<Longrightarrow> key_sorted key (del_by key x ys)"
  by (simp add: key_sorted_def del_by_def sorted_wrt_filter)

lemma key_sorted_distinct: "key_sorted key ys \<Longrightarrow> distinct (map key ys)"
  using strict_sorted_iff[of "map key ys"] by (simp add: key_sorted_def sorted_wrt_map)

lemma key_sorted_inj: "key_sorted key ys \<Longrightarrow> x \<in> set ys \<Longrightarrow> y \<in> set ys \<Longrightarrow> key x = key y \<Longrightarrow> x = y"
  using key_sorted_distinct[of key ys] by (auto simp: distinct_map dest: inj_onD)

lemma ins_by_split:
  "ins_by key x ys =
     (let pre = takeWhile (\<lambda>y. key y < key x) ys; post = dropWhile (\<lambda>y. key y < key x) ys
      in if post \<noteq> [] \<and> key (hd post) = key x then ys else pre @ x # post)"
proof (induction ys)
  case Nil
  show ?case by simp
next
  case (Cons y ys)
  then show ?case by (cases "key y < key x") (simp_all add: Let_def)
qed

lemma del_by_split:
  assumes "key_sorted key ys"
  shows "del_by key x ys = takeWhile (\<lambda>y. key y \<noteq> key x) ys @ tl (dropWhile (\<lambda>y. key y \<noteq> key x) ys)"
  using assms
proof (induction ys)
  case Nil
  then show ?case by (simp add: del_by_def)
next
  case (Cons y ys)
  show ?case
  proof (cases "key y = key x")
    case True
    then have "\<forall>z \<in> set ys. key z \<noteq> key x" using Cons.prems by (auto simp: key_sorted_def)
    with True show ?thesis by (simp add: del_by_def filter_True)
  next
    case False
    with Cons show ?thesis by (simp add: del_by_def key_sorted_def)
  qed
qed

section \<open>The contract of the comparison\<close>

definition list_ok :: "('a \<Rightarrow> 'a \<Rightarrow> int option) \<Rightarrow> ('a \<Rightarrow> 'k::linorder) \<Rightarrow> ('a \<Rightarrow> bool) \<Rightarrow> 'a slist \<Rightarrow> bool" where
  "list_ok cmp key valid l \<longleftrightarrow> l_cmp l = cmp \<and> (\<exists>as. list_rep l as)
     \<and> key_sorted key (slist_elems l) \<and> (\<forall>x \<in> set (slist_elems l). valid x)"

locale comparator =
  fixes cmp :: "'a \<Rightarrow> 'a \<Rightarrow> int option"
    and key :: "'a \<Rightarrow> 'k::linorder"
    and valid :: "'a \<Rightarrow> bool"
  assumes cmp_law: "valid x \<Longrightarrow> valid y \<Longrightarrow>
    \<exists>c. cmp x y = Some c \<and> (c < 0 \<longleftrightarrow> key x < key y) \<and> (c = 0 \<longleftrightarrow> key x = key y)"
begin

lemma seek_spec:
  assumes "chain h p as None" "\<forall>a \<in> set as. valid (elem h a)" "valid x"
  shows "seek cmp h x prev p =
    (let pre = takeWhile (\<lambda>a. key (elem h a) < key x) as; post = dropWhile (\<lambda>a. key (elem h a) < key x) as
     in Some (if pre = [] then prev else Some (last pre), if post = [] then None else Some (hd post)))"
  using assms
proof (induction as arbitrary: p prev)
  case Nil
  then show ?case by (simp add: seek.simps)
next
  case (Cons a as)
  then obtain nd where nd: "p = Some a" "deref h a = Some nd" "chain h (n_next nd) as None"
    by (auto split: option.splits)
  then have el: "n_data nd = elem h a" by (simp add: elem_def)
  obtain c where c: "cmp (elem h a) x = Some c" "c < 0 \<longleftrightarrow> key (elem h a) < key x"
    using cmp_law[of "elem h a" x] Cons.prems by auto
  from Cons.IH[OF nd(3), of "Some a"] Cons.prems nd el c show ?case
    by (subst seek.simps) (simp add: Let_def)
qed

lemma find_node_spec:
  assumes "chain h p as None" "\<forall>a \<in> set as. valid (elem h a)" "valid x"
  shows "find_node cmp h x prev p =
    (let pre = takeWhile (\<lambda>a. key (elem h a) \<noteq> key x) as; post = dropWhile (\<lambda>a. key (elem h a) \<noteq> key x) as
     in Some (if post = [] then None else Some (if pre = [] then prev else Some (last pre), hd post)))"
  using assms
proof (induction as arbitrary: p prev)
  case Nil
  then show ?case by (simp add: find_node.simps)
next
  case (Cons a as)
  then obtain nd where nd: "p = Some a" "deref h a = Some nd" "chain h (n_next nd) as None"
    by (auto split: option.splits)
  then have el: "n_data nd = elem h a" by (simp add: elem_def)
  obtain c where c: "cmp (elem h a) x = Some c" "c = 0 \<longleftrightarrow> key (elem h a) = key x"
    using cmp_law[of "elem h a" x] Cons.prems by auto
  from Cons.IH[OF nd(3), of "Some a"] Cons.prems nd el c show ?case
    by (subst find_node.simps) (simp add: Let_def)
qed

end

lemma list_link_rep:
  assumes rep: "list_rep l (pre @ post)"
  shows "\<exists>l'. list_link l x (if pre = [] then None else Some (last pre)) (if post = [] then None else Some (hd post)) = Some l'
    \<and> list_rep l' (pre @ length (l_heap l) # post) \<and> l_cmp l' = l_cmp l
    \<and> elems (l_heap l') (pre @ length (l_heap l) # post) = elems (l_heap l) pre @ x # elems (l_heap l) post"
proof -
  let ?n = "length (l_heap l)" and ?cur = "if post = [] then None else Some (hd post)"
  let ?h = "l_heap l @ [Some \<lparr>n_next = ?cur, n_data = x\<rparr>]"
  from rep have ch: "chain (l_heap l) (l_head l) (pre @ post) None" and size: "l_size l = length (pre @ post)"
    by (auto simp: list_rep_def)
  have mid: "chain (l_heap l) (l_head l) pre ?cur" "chain (l_heap l) ?cur post None"
    using ch by (cases post; auto simp: chain_append)+
  have dist: "distinct (pre @ post)" using ch by (rule chain_distinct)
  have less: "\<forall>a \<in> set (pre @ post). a < ?n" using ch by (auto dest: chain_less)
  have post': "chain ?h (Some ?n) (?n # post) None"
    using chain_grow[OF mid(2)] by simp
  have els: "elems ?h pre = elems (l_heap l) pre" "elems ?h post = elems (l_heap l) post"
    using less by simp_all
  show ?thesis
  proof (cases "pre = []")
    case True
    with mid have "?cur = l_head l" by (simp split: if_splits)
    with True post' els size show ?thesis
      by (auto simp: list_link_def h_alloc_def list_rep_def Let_def)
  next
    case False
    then obtain bs b where pre: "pre = bs @ [b]" by (metis rev_exhaust)
    then have neq: "?cur \<noteq> l_head l"
      using mid dist by (cases bs; cases post) (auto split: option.splits)
    have b: "b < ?n" "b \<notin> set bs" "b \<notin> set post" using less dist pre by auto
    have chg: "chain ?h (l_head l) (bs @ [b]) ?cur" using chain_grow[OF mid(1)] pre by simp
    then obtain nd where nd: "deref ?h b = Some nd" using chain_deref by fastforce
    let ?h' = "?h[b := Some (nd\<lparr>n_next := Some ?n\<rparr>)]"
    have "chain ?h' (l_head l) (bs @ [b]) (Some ?n)"
      using chg b(2) nd by (rule chain_relink)
    moreover have "chain ?h' (Some ?n) (?n # post) None"
      using post' b by (subst chain_frame) auto
    ultimately have "chain ?h' (l_head l) (pre @ ?n # post) None"
      unfolding pre by (subst chain_append) blast
    moreover have "elems ?h' (pre @ ?n # post) = elems (l_heap l) pre @ x # elems (l_heap l) post"
      using nd els by simp
    ultimately show ?thesis
      using neq False nd size pre by (simp add: list_link_def h_alloc_def h_set_next_def list_rep_def)
  qed
qed

lemma list_unlink_rep:
  assumes rep: "list_rep l (pre @ b # post)"
  shows "\<exists>l'. list_unlink l (if pre = [] then None else Some (last pre)) b = Some l'
    \<and> list_rep l' (pre @ post) \<and> l_cmp l' = l_cmp l
    \<and> elems (l_heap l') (pre @ post) = elems (l_heap l) (pre @ post)"
proof -
  from rep have ch: "chain (l_heap l) (l_head l) (pre @ b # post) None"
    and size: "l_size l = Suc (length (pre @ post))"
    by (auto simp: list_rep_def)
  then obtain nd where nd: "deref (l_heap l) b = Some nd" and mid: "chain (l_heap l) (l_head l) pre (Some b)"
      "chain (l_heap l) (n_next nd) post None"
    by (auto simp: chain_append split: option.splits)
  have dist: "distinct (pre @ b # post)" using ch by (rule chain_distinct)
  show ?thesis
  proof (cases "pre = []")
    case True
    have "elems (h_free b (l_heap l)) post = elems (l_heap l) post"
      using dist by (simp only: h_free_def elems_frame distinct.simps distinct_append not_False_eq_True)
    with True nd mid dist size show ?thesis
      by (simp add: list_unlink_def list_rep_def h_free_def)
  next
    case False
    then obtain cs c where pre: "pre = cs @ [c]" by (metis rev_exhaust)
    have c: "c \<notin> set cs" "c \<notin> set post" "c \<noteq> b" "b \<notin> set cs" "b \<notin> set post"
      using dist pre by auto
    from mid pre obtain nc where nc: "deref (l_heap l) c = Some nc"
      using chain_deref[OF mid(1)] by auto
    let ?h = "(l_heap l)[c := Some (nc\<lparr>n_next := n_next nd\<rparr>)]"
    have "chain ?h (l_head l) (cs @ [c]) (n_next nd)"
      using mid(1) c(1) nc unfolding pre by (rule chain_relink)
    moreover have "chain ?h (n_next nd) post None" using mid(2) c by simp
    ultimately have "chain ?h (l_head l) (pre @ post) None"
      unfolding pre by (subst chain_append) blast
    then have "chain (h_free b ?h) (l_head l) (pre @ post) None"
      using c pre by (simp add: h_free_def)
    moreover have "elems (h_free b ?h) (pre @ post) = elems (l_heap l) (pre @ post)"
      using c pre nc by (simp add: h_free_def elems_frame)
    ultimately show ?thesis
      using False nd nc size c pre by (simp add: list_unlink_def h_set_next_def list_rep_def)
  qed
qed

context comparator
begin

lemma list_add_spec:
  assumes ok: "list_ok cmp key valid l" and x: "valid x"
  shows "\<exists>l'. list_add True True (Some l) x = Some (True, Some l') \<and> list_ok cmp key valid l'
    \<and> slist_elems l' = ins_by key x (slist_elems l)"
proof -
  from ok obtain as where rep: "list_rep l as" and cmp: "l_cmp l = cmp"
    by (auto simp: list_ok_def)
  let ?P = "\<lambda>a. key (elem (l_heap l) a) < key x"
  define pre where "pre = takeWhile ?P as"
  define post where "post = dropWhile ?P as"
  have as: "as = pre @ post" by (simp add: pre_def post_def)
  define pp where "pp = (if pre = [] then None else Some (last pre))"
  define cp where "cp = (if post = [] then None else Some (hd post))"
  have els: "slist_elems l = elems (l_heap l) as" using rep by (rule list_rep_elems)
  then have v: "\<forall>a \<in> set as. valid (elem (l_heap l) a)" using ok by (auto simp: list_ok_def)
  have ch: "chain (l_heap l) (l_head l) as None" using rep by (simp add: list_rep_def)
  have seek: "seek cmp (l_heap l) x None (l_head l) =
      Some (pp, cp)"
    using seek_spec[OF ch v x, of None] by (simp only: Let_def pre_def post_def pp_def cp_def)
  have ins: "ins_by key x (slist_elems l) =
      (if post \<noteq> [] \<and> key (elem (l_heap l) (hd post)) = key x then slist_elems l
       else elems (l_heap l) pre @ x # elems (l_heap l) post)"
    unfolding els ins_by_split pre_def post_def by (cases "dropWhile ?P as") (simp_all add: takeWhile_map dropWhile_map comp_def Let_def)
  let ?dup = "case cp of None \<Rightarrow> Some False
      | Some a \<Rightarrow> do { nd \<leftarrow> deref (l_heap l) a; c \<leftarrow> cmp (n_data nd) x; Some (c = 0) }"
  have dup: "?dup = Some (post \<noteq> [] \<and> key (elem (l_heap l) (hd post)) = key x)"
  proof (cases "post = []")
    case False
    then have mem: "hd post \<in> set as" unfolding as by simp
    then obtain nd where nd: "deref (l_heap l) (hd post) = Some nd" using ch chain_deref by blast
    obtain c where "cmp (elem (l_heap l) (hd post)) x = Some c"
        "c = 0 \<longleftrightarrow> key (elem (l_heap l) (hd post)) = key x"
      using cmp_law[of "elem (l_heap l) (hd post)" x] v mem x by auto
    moreover have "n_data nd = elem (l_heap l) (hd post)" using nd by (simp add: elem_def)
    ultimately show ?thesis using nd False by (simp add: cp_def)
  qed (simp add: cp_def)
  show ?thesis
  proof (cases "post \<noteq> [] \<and> key (elem (l_heap l) (hd post)) = key x")
    case True
    with seek dup cmp ok ins show ?thesis by (simp only: list_add_def Option.bind.simps prod.case if_True if_False cmp) (simp add: cmp)
  next
    case False
    have "list_rep l (pre @ post)" using rep as by simp
    from list_link_rep[OF this, of x] obtain l' bs where
      link: "list_link l x pp cp = Some l'" "list_rep l' bs" "l_cmp l' = cmp"
        "elems (l_heap l') bs = elems (l_heap l) pre @ x # elems (l_heap l) post"
      unfolding pp_def cp_def using cmp by blast
    have els': "slist_elems l' = ins_by key x (slist_elems l)"
      using list_rep_elems[OF link(2)] link(4) ins False by simp
    then have "list_ok cmp key valid l'"
      using link ok x set_ins_by[of key x "slist_elems l"]
      by (auto simp: list_ok_def key_sorted_ins_by)
    with seek dup cmp False link els' show ?thesis by (simp only: list_add_def Option.bind.simps prod.case if_True if_False cmp) (simp add: cmp)
  qed
qed

lemma list_remove_spec:
  assumes ok: "list_ok cmp key valid l" and x: "valid x"
  shows "\<exists>l'. list_remove (Some l) x = Some (slist_elems l \<noteq> [], Some l') \<and> list_ok cmp key valid l'
    \<and> slist_elems l' = del_by key x (slist_elems l)"
proof -
  from ok obtain as where rep: "list_rep l as" and cmp: "l_cmp l = cmp"
    and srt: "key_sorted key (slist_elems l)" and vs: "\<forall>x \<in> set (slist_elems l). valid x"
    by (auto simp: list_ok_def)
  let ?P = "\<lambda>a. key (elem (l_heap l) a) \<noteq> key x"
  define pre where "pre = takeWhile ?P as"
  define post where "post = dropWhile ?P as"
  have as: "as = pre @ post" by (simp add: pre_def post_def)
  define pp where "pp = (if pre = [] then None else Some (last pre))"
  have els: "slist_elems l = elems (l_heap l) as" using rep by (rule list_rep_elems)
  then have v: "\<forall>a \<in> set as. valid (elem (l_heap l) a)" using vs by auto
  have ch: "chain (l_heap l) (l_head l) as None" using rep by (simp add: list_rep_def)
  have empty: "l_head l = None \<longleftrightarrow> as = []" using ch by (cases as) auto
  have find: "find_node cmp (l_heap l) x None (l_head l) =
      Some (if post = [] then None else Some (pp, hd post))"
    using find_node_spec[OF ch v x, of None] by (simp only: Let_def pre_def post_def pp_def)
  have del: "del_by key x (slist_elems l) = elems (l_heap l) (pre @ tl post)"
    by (subst del_by_split[OF srt]) (simp add: els pre_def post_def takeWhile_map dropWhile_map comp_def map_tl)
  show ?thesis
  proof (cases "post = []")
    case True
    then have "elems (l_heap l) (pre @ tl post) = slist_elems l" using els as by simp
    then have "del_by key x (slist_elems l) = slist_elems l" using del by simp
    with True find empty ok cmp els show ?thesis
      by (cases "as = []") (simp_all add: list_remove_def)
  next
    case False
    then obtain b bs where post: "post = b # bs" by (cases post) auto
    then have "list_rep l (pre @ b # bs)" using rep as by simp
    from list_unlink_rep[OF this] obtain l' where
      unl: "list_unlink l pp b = Some l'"
        "list_rep l' (pre @ bs)" "l_cmp l' = l_cmp l"
        "elems (l_heap l') (pre @ bs) = elems (l_heap l) (pre @ bs)"
      unfolding pp_def by blast
    have els': "slist_elems l' = del_by key x (slist_elems l)"
      using list_rep_elems[OF unl(2)] unl(4) del post by simp
    have ne: "as \<noteq> []" using False as by auto
    have "list_ok cmp key valid l'"
      using unl cmp srt vs els' key_sorted_del_by[OF srt, of x]
      by (auto simp: list_ok_def del_by_def)
    with find post empty ne cmp unl els' els show ?thesis
      by (simp add: list_remove_def)
  qed
qed

lemma list_create_ok:
  "list_create True cmp = Some l \<Longrightarrow> list_ok cmp key valid l \<and> slist_elems l = []"
  by (auto simp: list_create_def list_ok_def list_rep_def slist_elems_def key_sorted_def intro!: exI[of _ "[]"])

end

end
