(* ===== verification/CStrings.thy ===== *)
theory CStrings
  imports Prelude "HOL-Library.List_Lexorder"
begin

text \<open>
  The part of the C library's \<open>string.h\<close> and number conversion that the program uses, over
  byte arrays. A C string lives in an array and ends at its first zero byte; a call that
  would run past the array is undefined (\<open>None\<close>). Byte lists are ordered lexicographically
  (\<open>HOL-Library.List_Lexorder\<close>), bytes as unsigned numbers, which is \<open>strcmp\<close>'s order.
\<close>

definition cstr :: "byte list \<Rightarrow> byte list" where
  "cstr a = takeWhile (\<lambda>c. c \<noteq> 0) a"

definition terminated :: "byte list \<Rightarrow> bool" where
  "terminated a \<longleftrightarrow> 0 \<in> set a"

definition c_strlen :: "byte list \<Rightarrow> nat option" where
  "c_strlen a = (if terminated a then Some (length (cstr a)) else None)"

text \<open>Only the sign of the result is specified; the model returns the sign.\<close>

fun c_strcmp :: "byte list \<Rightarrow> byte list \<Rightarrow> int option" where
  "c_strcmp (a # as) (b # bs) =
     (if a < b then Some (- 1) else if b < a then Some 1
      else if a = 0 then Some 0 else c_strcmp as bs)"
| "c_strcmp _ _ = None"

text \<open>\<open>strncpy (dst, src, n)\<close>: copies up to the terminator, then pads with zeros up to \<open>n\<close>.\<close>

definition c_strncpy :: "byte list \<Rightarrow> byte list \<Rightarrow> nat \<Rightarrow> byte list option" where
  "c_strncpy dst src n =
     (if n \<le> length dst \<and> (terminated src \<or> n \<le> length src)
      then Some (store_at 0 (take n (cstr src @ replicate n 0)) dst) else None)"

text \<open>\<open>memcpy (dst + i, src, n)\<close>, \<open>src\<close> given as an array from its first byte.\<close>

definition c_memcpy :: "byte list \<Rightarrow> nat \<Rightarrow> byte list \<Rightarrow> nat \<Rightarrow> byte list option" where
  "c_memcpy dst i src n =
     (if i + n \<le> length dst \<and> n \<le> length src then Some (store_at i (take n src) dst) else None)"

text \<open>\<open>a[i] = c\<close>\<close>

definition c_set :: "byte list \<Rightarrow> nat \<Rightarrow> byte \<Rightarrow> byte list option" where
  "c_set a i c = (if i < length a then Some (a[i := c]) else None)"

section \<open>Strings\<close>

lemma cstr_append_zero: "0 \<notin> set s \<Longrightarrow> cstr (s @ 0 # t) = s"
  unfolding cstr_def by (induction s) auto

lemma cstr_nonzero: "0 \<notin> set (cstr a)"
  by (auto simp: cstr_def dest: set_takeWhileD)

lemma cstr_idem [simp]: "cstr (cstr a) = cstr a"
  using cstr_nonzero[of a] by (simp add: cstr_def takeWhile_eq_all_conv)

lemma length_cstr_le: "length (cstr a) \<le> length a"
  by (simp add: cstr_def length_takeWhile_le)

lemma terminated_length: "terminated a \<Longrightarrow> length (cstr a) < length a"
  unfolding terminated_def cstr_def by (induction a) auto

lemma c_strlen_Some [simp]: "terminated a \<Longrightarrow> c_strlen a = Some (length (cstr a))"
  by (simp add: c_strlen_def)

lemma terminated_Cons [simp]: "terminated (a # as) \<longleftrightarrow> a = 0 \<or> terminated as"
  by (auto simp: terminated_def)

lemma not_terminated_Nil [simp]: "\<not> terminated []"
  by (simp add: terminated_def)

lemma cstr_Cons [simp]: "cstr (a # as) = (if a = 0 then [] else a # cstr as)"
  by (simp add: cstr_def)

lemma cstr_Nil [simp]: "cstr [] = []"
  by (simp add: cstr_def)

text \<open>\<open>strcmp\<close> is the lexicographic order of the strings.\<close>

lemma c_strcmp_spec:
  assumes "terminated a" "terminated b"
  shows "c_strcmp a b = Some (if cstr a < cstr b then - 1 else if cstr a = cstr b then 0 else 1)"
  using assms
proof (induction a b rule: c_strcmp.induct)
  case (1 a as b bs)
  show ?case
  proof (cases "a = b")
    case True
    with 1 show ?thesis by auto
  next
    case False
    then show ?thesis
      by (cases "a = 0"; cases "b = 0") (auto simp: word_gt_0 not_less antisym_conv3)
  qed
qed simp_all

lemma c_strcmp_zero_iff:
  "terminated a \<Longrightarrow> terminated b \<Longrightarrow> c_strcmp a b = Some 0 \<longleftrightarrow> cstr a = cstr b"
  by (simp add: c_strcmp_spec)

text \<open>Copying a string that fits gives the string back.\<close>

lemma c_strncpy_spec:
  assumes "terminated src" "length (cstr src) < n" "n \<le> length dst"
  obtains d where "c_strncpy dst src n = Some d" "length d = length dst" "cstr d = cstr src" "terminated d"
    "drop n d = drop n dst"
proof -
  let ?s = "cstr src"
  let ?d = "store_at 0 (take n (?s @ replicate n 0)) dst"
  have eq: "?d = ?s @ replicate (n - length ?s) 0 @ drop n dst"
    using assms by (simp add: store_at_def)
  have "replicate (n - length ?s) (0::byte) = 0 # replicate (n - length ?s - 1) 0"
    using assms(2) by (metis Suc_diff_1 replicate_Suc zero_less_diff)
  then have eq': "?d = ?s @ 0 # (replicate (n - length ?s - 1) 0 @ drop n dst)"
    using eq by simp
  show thesis
  proof (rule that)
    show "c_strncpy dst src n = Some ?d" using assms by (simp add: c_strncpy_def)
    show "length ?d = length dst" using assms by simp
    show "cstr ?d = ?s" unfolding eq' by (rule cstr_append_zero) (rule cstr_nonzero)
    show "terminated ?d" unfolding eq' by (simp add: terminated_def)
    show "drop n ?d = drop n dst" using assms unfolding eq by simp
  qed
qed

section \<open>Numbers\<close>

text \<open>\<open>snprintf ("%u")\<close> writes decimal digits; \<open>atoi\<close> reads them back.\<close>

fun dec_digits :: "nat \<Rightarrow> byte list" where
  "dec_digits n = (if n < 10 then [48 + word_of_nat n]
     else dec_digits (n div 10) @ [48 + word_of_nat (n mod 10)])"

declare dec_digits.simps [simp del]

definition is_digit :: "byte \<Rightarrow> bool" where
  "is_digit c \<longleftrightarrow> 48 \<le> unat c \<and> unat c \<le> 57"

definition is_space :: "byte \<Rightarrow> bool" where
  "is_space c \<longleftrightarrow> c = 32 \<or> (9 \<le> unat c \<and> unat c \<le> 13)"

fun digits_value :: "nat \<Rightarrow> byte list \<Rightarrow> nat" where
  "digits_value acc [] = acc"
| "digits_value acc (c # cs) = (if is_digit c then digits_value (10 * acc + (unat c - 48)) cs else acc)"

definition c_atoi :: "byte list \<Rightarrow> int" where
  "c_atoi a = (case dropWhile is_space a of
     [] \<Rightarrow> 0
   | c # cs \<Rightarrow> (if c = 45 then - int (digits_value 0 cs)
               else if c = 43 then int (digits_value 0 cs)
               else int (digits_value 0 (c # cs))))"

lemma unat_digit: "d < 10 \<Longrightarrow> unat (48 + word_of_nat d :: byte) = 48 + d"
  by (simp add: unat_word_ariths unat_of_nat)

lemma is_digit_dec: "d < 10 \<Longrightarrow> is_digit (48 + word_of_nat d)"
  using unat_digit[of d] by (simp add: is_digit_def)

lemma digits_value_append:
  "\<forall>c \<in> set ds. is_digit c \<Longrightarrow> digits_value acc (ds @ cs) = digits_value (digits_value acc ds) cs"
  by (induction ds arbitrary: acc) auto

lemma dec_digits_all: "\<forall>c \<in> set (dec_digits n). is_digit c"
proof (induction n rule: dec_digits.induct)
  case (1 n)
  then show ?case
    by (subst dec_digits.simps) (auto intro: is_digit_dec)
qed

lemma digits_value_dec: "digits_value 0 (dec_digits n @ 0 # junk) = n"
proof -
  have one: "digits_value acc ((48 + word_of_nat d) # cs) = digits_value (10 * acc + d) cs"
    if "d < 10" for acc d cs
    using is_digit_dec[OF that] unat_digit[OF that] by simp
  have "digits_value 0 (dec_digits n) = n"
  proof (induction n rule: dec_digits.induct)
    case (1 n)
    show ?case
    proof (cases "n < 10")
      case True
      then show ?thesis using one[of n 0 "[]"] by (subst dec_digits.simps) simp
    next
      case False
      have m: "n mod 10 < 10" by simp
      from False 1 show ?thesis
        using one[OF m, of "n div 10" "[]"]
        by (subst dec_digits.simps) (simp add: digits_value_append[OF dec_digits_all])
    qed
  qed
  moreover have "\<not> is_digit 0" by (simp add: is_digit_def)
  ultimately show ?thesis
    by (simp add: digits_value_append[OF dec_digits_all])
qed

lemma dec_digits_nonempty: "dec_digits n \<noteq> []"
  by (subst dec_digits.simps) simp

lemma is_digit_not_space: "is_digit c \<Longrightarrow> \<not> is_space c \<and> c \<noteq> 45 \<and> c \<noteq> 43 \<and> c \<noteq> 0"
  by (auto simp: is_digit_def is_space_def)

theorem c_atoi_dec_digits: "c_atoi (dec_digits n @ 0 # junk) = int n"
proof -
  obtain c cs where c: "dec_digits n = c # cs"
    using dec_digits_nonempty by (cases "dec_digits n") auto
  then have "is_digit c" using dec_digits_all[of n] by auto
  from is_digit_not_space[OF this] c digits_value_dec[of n junk] show ?thesis
    by (simp add: c_atoi_def)
qed

lemma dec_digits_length: "n < 10 ^ k \<Longrightarrow> 0 < k \<Longrightarrow> length (dec_digits n) \<le> k"
proof (induction k arbitrary: n)
  case 0
  then show ?case by simp
next
  case (Suc k)
  show ?case
  proof (cases "n < 10")
    case True
    then show ?thesis by (subst dec_digits.simps) simp
  next
    case False
    then have "0 < k" using Suc.prems by (cases k) auto
    moreover have "n div 10 < 10 ^ k" using Suc.prems by (simp add: less_mult_imp_div_less mult.commute)
    ultimately have "length (dec_digits (n div 10)) \<le> k" using Suc.IH by blast
    with False show ?thesis by (subst dec_digits.simps) simp
  qed
qed

end
