(* ===== verification/Users.thy ===== *)
theory Users
  imports SortedList CStrings "HOL-Library.Char_ord"
begin

text \<open>
  The user database of \<open>src/server/users.c\<close>: a sorted list of \<open>User\<close> records, keyed by the
  user name, and the counter \<open>totalAdmins\<close>. A \<open>User*\<close> is the address of a list node, so the
  in-place updates of \<open>user_change_password\<close> and \<open>user_change_role\<close> go through the heap.
  The two name buffers of a \<open>User\<close> are the 256-byte arrays of \<open>users.h\<close>.

  The abstraction \<open>users_map\<close> is what the rest of the program sees: a map from user names to
  passwords and privilege levels. Each operation is related to an update of that map.
\<close>

section \<open>State\<close>

abbreviation (input) USERS_MAX_USERNAME_LENGTH :: nat where "USERS_MAX_USERNAME_LENGTH \<equiv> 255"
abbreviation (input) USERS_MAX_PASSWORD_LENGTH :: nat where "USERS_MAX_PASSWORD_LENGTH \<equiv> 255"

text \<open>\<open>UserPrivilegeLevel\<close> is an enum that also receives raw bytes from the wire.\<close>

abbreviation (input) USER_PRIVILEGE_ADMIN :: nat where "USER_PRIVILEGE_ADMIN \<equiv> 0"
abbreviation (input) USER_PRIVILEGE_DEFAULT :: nat where "USER_PRIVILEGE_DEFAULT \<equiv> 1"

record user =
  u_username :: "byte list"
  u_password :: "byte list"
  u_privilege_level :: nat

datatype user_status =
  USER_OK | USER_ALREADYEXISTS | USER_WRONGPASSWORD | USER_CREDTOOLONG | USER_BADUSERNAME

record users_db =
  usersList :: "user slist option"
  totalAdmins :: int

definition users_static :: users_db where
  "users_static = \<lparr>usersList = None, totalAdmins = 1\<rparr>"

definition ascii :: "string \<Rightarrow> byte list" where
  "ascii s = map of_char s"

definition user_cmp :: "user \<Rightarrow> user \<Rightarrow> int option" where
  "user_cmp a b = c_strcmp (u_username a) (u_username b)"

section \<open>Operations\<close>

definition admin_user :: user where
  "admin_user = \<lparr>u_username = ascii ''admin'' @ replicate 251 0,
     u_password = ascii ''admin'' @ replicate 251 0, u_privilege_level = USER_PRIVILEGE_ADMIN\<rparr>"

definition users_init :: "bool \<Rightarrow> bool \<Rightarrow> bool \<Rightarrow> users_db \<Rightarrow> users_db option" where
  "users_init m m1 m2 db =
     (if usersList db = None then do {
        (_, l) \<leftarrow> list_add m1 m2 (list_create m user_cmp) admin_user;
        Some (db\<lparr>usersList := l\<rparr>)
      } else Some db)"

text \<open>The loop of \<open>user_get_if_exists\<close>: the node of the first user with that name.\<close>

partial_function (option) user_find ::
  "user slist option \<Rightarrow> byte list \<Rightarrow> (nat option \<times> user slist option) option" where
  "user_find lp username = do {
     more \<leftarrow> list_has_next lp;
     (if \<not> more then Some (None, lp)
      else do {
        (r, lp') \<leftarrow> list_get_next lp;
        (a, u) \<leftarrow> r;
        c \<leftarrow> c_strcmp (u_username u) username;
        (if c = 0 then Some (Some a, lp') else user_find lp' username)
      })
   }"

definition user_get_if_exists :: "users_db \<Rightarrow> byte list \<Rightarrow> (nat option \<times> users_db) option" where
  "user_get_if_exists db username = do {
     (r, lp) \<leftarrow> user_find (list_begin_iter (usersList db)) username;
     Some (r, db\<lparr>usersList := lp\<rparr>)
   }"

text \<open>Reading and writing through a \<open>User*\<close>.\<close>

definition user_load :: "users_db \<Rightarrow> nat \<Rightarrow> user option" where
  "user_load db a = do { l \<leftarrow> usersList db; nd \<leftarrow> deref (l_heap l) a; Some (n_data nd) }"

definition user_store :: "users_db \<Rightarrow> nat \<Rightarrow> user \<Rightarrow> users_db option" where
  "user_store db a u = do {
     l \<leftarrow> usersList db;
     h \<leftarrow> h_set_data a u (l_heap l);
     Some (db\<lparr>usersList := Some (l\<lparr>l_heap := h\<rparr>)\<rparr>)
   }"

definition user_is_admin :: "users_db \<Rightarrow> byte list \<Rightarrow> (bool \<times> users_db) option" where
  "user_is_admin db username = do {
     (user, db') \<leftarrow> user_get_if_exists db username;
     (case user of
        None \<Rightarrow> Some (False, db')
      | Some a \<Rightarrow> do { u \<leftarrow> user_load db' a; Some (u_privilege_level u = USER_PRIVILEGE_ADMIN, db') })
   }"

text \<open>
  \<open>junk\<close> is the indeterminate content of the stack variable \<open>user\<close> of \<open>user_create\<close>; the
  result of \<open>list_add\<close> is ignored.
\<close>

definition user_fill :: "user \<Rightarrow> byte list \<Rightarrow> byte list \<Rightarrow> nat \<Rightarrow> user option" where
  "user_fill junk username password pl = do {
     n \<leftarrow> c_strncpy (u_username junk) username (USERS_MAX_USERNAME_LENGTH - 1);
     n' \<leftarrow> c_set n (USERS_MAX_USERNAME_LENGTH - 1) 0;
     p \<leftarrow> c_strncpy (u_password junk) password (USERS_MAX_PASSWORD_LENGTH - 1);
     p' \<leftarrow> c_set p (USERS_MAX_PASSWORD_LENGTH - 1) 0;
     Some \<lparr>u_username = n', u_password = p', u_privilege_level = pl\<rparr>
   }"

definition user_create ::
  "bool \<Rightarrow> bool \<Rightarrow> user \<Rightarrow> users_db \<Rightarrow> byte list \<Rightarrow> byte list \<Rightarrow> nat \<Rightarrow> (user_status \<times> users_db) option" where
  "user_create m1 m2 junk db username password pl = do {
     ul \<leftarrow> c_strlen username;
     (if ul \<ge> USERS_MAX_USERNAME_LENGTH then Some (USER_CREDTOOLONG, db)
      else do {
        pwl \<leftarrow> c_strlen password;
        (if pwl \<ge> USERS_MAX_PASSWORD_LENGTH then Some (USER_CREDTOOLONG, db)
         else do {
           (user, db1) \<leftarrow> user_get_if_exists db username;
           (case user of
              Some _ \<Rightarrow> Some (USER_ALREADYEXISTS, db1)
            | None \<Rightarrow> do {
                u \<leftarrow> user_fill junk username password pl;
                let db2 = (if pl = USER_PRIVILEGE_ADMIN then db1\<lparr>totalAdmins := totalAdmins db1 + 1\<rparr> else db1);
                (_, l) \<leftarrow> list_add m1 m2 (usersList db2) u;
                Some (USER_OK, db2\<lparr>usersList := l\<rparr>)
              })
         })
      })
   }"

definition user_remove :: "users_db \<Rightarrow> byte list \<Rightarrow> (user_status \<times> users_db) option" where
  "user_remove db username = do {
     (user, db1) \<leftarrow> user_get_if_exists db username;
     (case user of
        None \<Rightarrow> Some (USER_BADUSERNAME, db1)
      | Some a \<Rightarrow> do {
          u \<leftarrow> user_load db1 a;
          (_, l) \<leftarrow> list_remove (usersList db1) u;
          Some (USER_OK, db1\<lparr>usersList := l\<rparr>)
        })
   }"

definition user_change_password :: "users_db \<Rightarrow> byte list \<Rightarrow> byte list \<Rightarrow> (user_status \<times> users_db) option" where
  "user_change_password db username new_password = do {
     (user, db1) \<leftarrow> user_get_if_exists db username;
     (case user of
        None \<Rightarrow> Some (USER_BADUSERNAME, db1)
      | Some a \<Rightarrow> do {
          u \<leftarrow> user_load db1 a;
          n \<leftarrow> c_strlen new_password;
          p \<leftarrow> c_memcpy (u_password u) 0 new_password n;
          db2 \<leftarrow> user_store db1 a (u\<lparr>u_password := p\<rparr>);
          Some (USER_OK, db2)
        })
   }"

definition user_change_role :: "users_db \<Rightarrow> byte list \<Rightarrow> nat \<Rightarrow> (user_status \<times> users_db) option" where
  "user_change_role db username new_role = do {
     (user, db1) \<leftarrow> user_get_if_exists db username;
     (case user of
        None \<Rightarrow> Some (USER_BADUSERNAME, db1)
      | Some a \<Rightarrow> do {
          u \<leftarrow> user_load db1 a;
          db2 \<leftarrow> user_store db1 a (u\<lparr>u_privilege_level := new_role\<rparr>);
          Some (USER_OK, db2)
        })
   }"

definition user_authenticate :: "users_db \<Rightarrow> byte list \<Rightarrow> byte list \<Rightarrow> (user_status \<times> users_db) option" where
  "user_authenticate db username password = do {
     (user, db1) \<leftarrow> user_get_if_exists db username;
     (case user of
        None \<Rightarrow> Some (USER_BADUSERNAME, db1)
      | Some a \<Rightarrow> do {
          u \<leftarrow> user_load db1 a;
          c \<leftarrow> c_strcmp (u_password u) password;
          Some (if c \<noteq> 0 then USER_WRONGPASSWORD else USER_OK, db1)
        })
   }"

definition user_total_admins :: "users_db \<Rightarrow> int" where
  "user_total_admins db = totalAdmins db"

text \<open>One line of the user listing, written at \<open>buffer + copied\<close>; then the loop.\<close>

definition user_line :: "byte list \<Rightarrow> nat \<Rightarrow> user \<Rightarrow> (byte list \<times> nat) option" where
  "user_line buf copied u = do {
     b1 \<leftarrow> c_set buf copied (if u_privilege_level u = USER_PRIVILEGE_ADMIN then 64 else 35);
     n \<leftarrow> c_strlen (u_username u);
     b2 \<leftarrow> c_memcpy b1 (copied + 1) (u_username u) n;
     b3 \<leftarrow> c_set b2 (copied + 1 + n) 10;
     Some (b3, copied + 1 + n + 1)
   }"

partial_function (option) user_lines ::
  "user slist option \<Rightarrow> byte list \<Rightarrow> nat \<Rightarrow> (byte list \<times> nat \<times> user slist option) option" where
  "user_lines lp buf copied = do {
     more \<leftarrow> list_has_next lp;
     (if \<not> more then Some (buf, copied, lp)
      else do {
        (r, lp') \<leftarrow> list_get_next lp;
        (_, u) \<leftarrow> r;
        (buf', copied') \<leftarrow> user_line buf copied u;
        user_lines lp' buf' copied'
      })
   }"

definition users_get_connected_users_list ::
  "users_db \<Rightarrow> byte list \<Rightarrow> nat \<Rightarrow> (nat \<times> byte list \<times> users_db) option" where
  "users_get_connected_users_list db buf start = do {
     (b, copied, lp) \<leftarrow> user_lines (list_begin_iter (usersList db)) buf start;
     b' \<leftarrow> c_set b copied 0;
     Some (copied, b', db\<lparr>usersList := lp\<rparr>)
   }"

definition users_free :: "users_db \<Rightarrow> user heap option" where
  "users_free db = list_free (usersList db)"

section \<open>Invariant\<close>

definition uname :: "user \<Rightarrow> byte list" where
  "uname u = cstr (u_username u)"

definition upass :: "user \<Rightarrow> byte list" where
  "upass u = cstr (u_password u)"

text \<open>The password field is zero from its terminator up to the last byte that code writes.\<close>

definition user_ok :: "user \<Rightarrow> bool" where
  "user_ok u \<longleftrightarrow> length (u_username u) = 256 \<and> terminated (u_username u)
     \<and> length (u_password u) = 256 \<and> length (upass u) \<le> 254
     \<and> (\<forall>i. length (upass u) \<le> i \<and> i < 255 \<longrightarrow> u_password u ! i = 0)"

interpretation user_list: comparator user_cmp uname user_ok
proof (unfold_locales, goal_cases)
  case (1 x y)
  then show ?case
    by (auto simp: user_cmp_def user_ok_def c_strcmp_spec uname_def)
qed

definition users_ok :: "users_db \<Rightarrow> bool" where
  "users_ok db \<longleftrightarrow> (case usersList db of None \<Rightarrow> False | Some l \<Rightarrow> list_ok user_cmp uname user_ok l)"

definition users_elems :: "users_db \<Rightarrow> user list" where
  "users_elems db = (case usersList db of None \<Rightarrow> [] | Some l \<Rightarrow> slist_elems l)"

definition user_value :: "user \<Rightarrow> byte list \<times> nat" where
  "user_value u = (upass u, u_privilege_level u)"

definition users_map :: "users_db \<Rightarrow> byte list \<Rightarrow> (byte list \<times> nat) option" where
  "users_map db name = map_option user_value (find (\<lambda>u. uname u = name) (users_elems db))"

section \<open>Lookup\<close>

lemma users_okD:
  assumes "users_ok db"
  obtains l as where "usersList db = Some l" "list_ok user_cmp uname user_ok l" "list_rep l as"
    "users_elems db = elems (l_heap l) as" "\<forall>a \<in> set as. user_ok (elem (l_heap l) a)"
proof -
  from assms obtain l where l: "usersList db = Some l" "list_ok user_cmp uname user_ok l"
    by (auto simp: users_ok_def split: option.splits)
  then obtain as where "list_rep l as" by (auto simp: list_ok_def)
  with l list_rep_elems[OF this] that[of l as] show thesis
    by (auto simp: users_elems_def list_ok_def)
qed

lemma users_sorted: "users_ok db \<Longrightarrow> key_sorted uname (users_elems db)"
  by (auto simp: users_ok_def users_elems_def list_ok_def split: option.splits)

lemma users_elems_ok: "users_ok db \<Longrightarrow> u \<in> set (users_elems db) \<Longrightarrow> user_ok u"
  by (auto simp: users_ok_def users_elems_def list_ok_def split: option.splits)

lemma user_okD: "user_ok u \<Longrightarrow> terminated (u_username u) \<and> terminated (u_password u)"
proof
  assume u: "user_ok u"
  then show "terminated (u_username u)" by (simp add: user_ok_def)
  from u have "u_password u ! length (upass u) = 0" "length (upass u) < length (u_password u)"
    by (auto simp: user_ok_def)
  then show "terminated (u_password u)" unfolding terminated_def by (metis nth_mem)
qed

lemma find_by_key:
  "distinct (map key es) \<Longrightarrow> map_option f (find (\<lambda>u. key u = n) es) = Some v
     \<longleftrightarrow> (\<exists>u \<in> set es. key u = n \<and> f u = v)"
  by (induction es) (auto simp: rev_image_eqI)

lemma users_map_iff:
  assumes "users_ok db"
  shows "users_map db n = Some v \<longleftrightarrow> (\<exists>u \<in> set (users_elems db). uname u = n \<and> user_value u = v)"
  unfolding users_map_def using key_sorted_distinct[OF users_sorted[OF assms]] by (rule find_by_key)

lemma users_map_None_iff: "users_map db n = None \<longleftrightarrow> (\<forall>u \<in> set (users_elems db). uname u \<noteq> n)"
  by (auto simp: users_map_def find_None_iff)

lemma users_map_cong: "users_elems db' = users_elems db \<Longrightarrow> users_map db' = users_map db"
  by (simp add: users_map_def fun_eq_iff)

lemma user_find_spec:
  assumes "chain (l_heap l) p as None" "\<forall>a \<in> set as. user_ok (elem (l_heap l) a)" "terminated name"
  shows "\<exists>it. user_find (Some (l\<lparr>l_iter := Some p\<rparr>)) name =
    Some (find (\<lambda>a. uname (elem (l_heap l) a) = cstr name) as, Some (l\<lparr>l_iter := it\<rparr>))"
  using assms
proof (induction as arbitrary: p)
  case Nil
  then show ?case by (subst user_find.simps) (auto simp: list_has_next_def)
next
  case (Cons a as)
  then obtain nd where nd: "p = Some a" "deref (l_heap l) a = Some nd" "chain (l_heap l) (n_next nd) as None"
    by (auto split: option.splits)
  then have el: "n_data nd = elem (l_heap l) a" by (simp add: elem_def)
  have ok: "user_ok (n_data nd)" using Cons.prems(2) el by simp
  then obtain c where c: "c_strcmp (u_username (n_data nd)) name = Some c"
      "c = 0 \<longleftrightarrow> uname (n_data nd) = cstr name"
    using user_okD Cons.prems(3) by (auto simp: c_strcmp_spec uname_def)
  show ?case
  proof (cases "c = 0")
    case True
    with nd c el show ?thesis
      by (subst user_find.simps) (auto simp: list_has_next_def list_get_next_def)
  next
    case False
    with Cons.IH[OF nd(3)] Cons.prems nd c el show ?thesis
      by (subst user_find.simps) (auto simp: list_has_next_def list_get_next_def)
  qed
qed

text \<open>Only \<open>l_iter\<close> moves: everything observable stays.\<close>

lemma iter_frame:
  "list_ok cmp key valid (l\<lparr>l_iter := it\<rparr>) = list_ok cmp key valid l"
  "slist_elems (l\<lparr>l_iter := it\<rparr>) = slist_elems l"
  "list_rep (l\<lparr>l_iter := it\<rparr>) as = list_rep l as"
  by (simp_all add: list_ok_def list_rep_def slist_elems_def)

lemma user_get_spec:
  assumes "users_ok db" "terminated name"
  obtains l as it where "usersList db = Some l" "list_rep l as" "list_ok user_cmp uname user_ok l"
    "users_elems db = elems (l_heap l) as"
    "user_get_if_exists db name = Some (find (\<lambda>a. uname (elem (l_heap l) a) = cstr name) as,
       db\<lparr>usersList := Some (l\<lparr>l_iter := it\<rparr>)\<rparr>)"
proof -
  from users_okD[OF assms(1)] obtain l as where l: "usersList db = Some l" "list_ok user_cmp uname user_ok l"
      "list_rep l as" "users_elems db = elems (l_heap l) as" "\<forall>a \<in> set as. user_ok (elem (l_heap l) a)"
    by blast
  have "chain (l_heap l) (l_head l) as None" using l(3) by (simp add: list_rep_def)
  from user_find_spec[OF this l(5) assms(2)] obtain it where
    "user_find (Some (l\<lparr>l_iter := Some (l_head l)\<rparr>)) name =
      Some (find (\<lambda>a. uname (elem (l_heap l) a) = cstr name) as, Some (l\<lparr>l_iter := it\<rparr>))"
    by blast
  with l that show thesis by (simp add: user_get_if_exists_def list_begin_iter_def)
qed

text \<open>
  The case rule for every operation: the user is absent, or it is the record \<open>u\<close> behind the
  returned pointer, and storing through that pointer changes this record only.
\<close>

definition same_users :: "users_db \<Rightarrow> users_db \<Rightarrow> bool" where
  "same_users db db1 \<longleftrightarrow> users_ok db1 \<and> users_elems db1 = users_elems db \<and> totalAdmins db1 = totalAdmins db"

lemma user_get_cases [consumes 2, case_names absent present]:
  assumes "users_ok db" "terminated name"
  obtains
    db1 where "user_get_if_exists db name = Some (None, db1)" "same_users db db1"
      "users_map db (cstr name) = None"
  | db1 a u where "user_get_if_exists db name = Some (Some a, db1)" "same_users db db1"
      "user_load db1 a = Some u" "u \<in> set (users_elems db)" "uname u = cstr name"
      "users_map db (cstr name) = Some (user_value u)"
      "\<And>v. user_ok v \<Longrightarrow> uname v = uname u \<Longrightarrow> \<exists>db2. user_store db1 a v = Some db2 \<and> users_ok db2
         \<and> users_elems db2 = map (\<lambda>w. if uname w = uname u then v else w) (users_elems db)
         \<and> totalAdmins db2 = totalAdmins db"
proof -
  from user_get_spec[OF assms] obtain l as it where l: "usersList db = Some l" "list_rep l as"
      "list_ok user_cmp uname user_ok l" "users_elems db = elems (l_heap l) as"
    and get: "user_get_if_exists db name = Some (find (\<lambda>a. uname (elem (l_heap l) a) = cstr name) as,
       db\<lparr>usersList := Some (l\<lparr>l_iter := it\<rparr>)\<rparr>)"
    by blast
  let ?l = "l\<lparr>l_iter := it\<rparr>" and ?db = "db\<lparr>usersList := Some (l\<lparr>l_iter := it\<rparr>)\<rparr>"
  have same: "same_users db ?db"
    using l assms(1) by (simp add: same_users_def users_ok_def users_elems_def iter_frame)
  show thesis
  proof (cases "find (\<lambda>a. uname (elem (l_heap l) a) = cstr name) as")
    case None
    then have "users_map db (cstr name) = None"
      using l(4) by (auto simp: users_map_None_iff find_None_iff)
    with None get same show thesis by (intro that(1)) simp_all
  next
    case (Some a)
    then have a: "a \<in> set as" "uname (elem (l_heap l) a) = cstr name"
      by (auto simp: find_Some_iff)
    have ch: "chain (l_heap l) (l_head l) as None" using l(2) by (simp add: list_rep_def)
    obtain nd where nd: "deref (l_heap l) a = Some nd" using chain_deref[OF ch a(1)] by blast
    let ?u = "elem (l_heap l) a"
    have load: "user_load ?db a = Some ?u" using nd by (simp add: user_load_def elem_def)
    have mem: "?u \<in> set (users_elems db)" using a l(4) by simp
    have map: "users_map db (cstr name) = Some (user_value ?u)"
      using mem a(2) users_map_iff[OF assms(1)] by blast
    have inj: "b = a" if "b \<in> set as" "uname (elem (l_heap l) b) = uname ?u" for b
    proof -
      have "distinct (map uname (elems (l_heap l) as))"
        using key_sorted_distinct[OF users_sorted[OF assms(1)]] l(4) by simp
      then have "inj_on (\<lambda>b. uname (elem (l_heap l) b)) (set as)"
        by (simp add: distinct_map comp_def)
      with that a(1) show ?thesis by (auto dest: inj_onD)
    qed
    have store: "\<exists>db2. user_store ?db a v = Some db2 \<and> users_ok db2
         \<and> users_elems db2 = map (\<lambda>w. if uname w = uname ?u then v else w) (users_elems db)
         \<and> totalAdmins db2 = totalAdmins db"
      if v: "user_ok v" "uname v = uname ?u" for v
    proof -
      let ?h = "(l_heap l)[a := Some (nd\<lparr>n_data := v\<rparr>)]"
      let ?l2 = "?l\<lparr>l_heap := ?h\<rparr>"
      have rep: "list_rep ?l2 as"
        using l(2) chain_set_data[OF nd] by (simp add: list_rep_def)
      have els: "slist_elems ?l2 = map (\<lambda>w. if uname w = uname ?u then v else w) (users_elems db)"
        using inj by (auto simp: list_rep_elems[OF rep] elem_set_data[OF nd] l(4))
      have srt: "key_sorted uname (slist_elems ?l2)"
      proof -
        have "map uname (slist_elems ?l2) = map uname (users_elems db)"
          unfolding els using v(2) by (auto simp: comp_def)
        with users_sorted[OF assms(1)] show ?thesis
          by (metis key_sorted_def sorted_wrt_map)
      qed
      have "\<forall>x \<in> set (slist_elems ?l2). user_ok x"
        unfolding els using v users_elems_ok[OF assms(1)] by auto
      with rep srt l(3) have "list_ok user_cmp uname user_ok ?l2"
        by (auto simp: list_ok_def)
      with els nd show ?thesis
        by (auto simp: user_store_def h_set_data_def users_ok_def users_elems_def)
    qed
    show thesis using that(2)[of a ?db ?u] get Some same load mem a(2) map store by simp
  qed
qed

lemma same_usersD:
  "same_users db db1 \<Longrightarrow> users_ok db1" "same_users db db1 \<Longrightarrow> users_map db1 = users_map db"
  "same_users db db1 \<Longrightarrow> totalAdmins db1 = totalAdmins db"
  "same_users db db1 \<Longrightarrow> users_elems db1 = users_elems db"
  by (auto simp: same_users_def intro: users_map_cong)

lemma users_map_replace:
  assumes "users_ok db" "users_ok db2" "uname v = k" "k \<in> uname ` set (users_elems db)"
    "users_elems db2 = map (\<lambda>w. if uname w = k then v else w) (users_elems db)"
  shows "users_map db2 = (users_map db)(k \<mapsto> user_value v)"
proof
  fix n
  show "users_map db2 n = ((users_map db)(k \<mapsto> user_value v)) n"
  proof (cases "n = k")
    case True
    with assms show ?thesis by (auto simp: users_map_iff)
  next
    case False
    have "users_map db2 n = Some y \<longleftrightarrow> users_map db n = Some y" for y
      using False assms by (auto simp: users_map_iff)
    with False show ?thesis by (metis fun_upd_apply option.exhaust)
  qed
qed

section \<open>What each operation does to the map\<close>

lemma terminated_upass: "user_ok u \<Longrightarrow> terminated (u_password u)"
  using user_okD by blast

lemma user_authenticate_spec:
  assumes "users_ok db" "terminated name" "terminated pw"
  shows "\<exists>db'. user_authenticate db name pw = Some
      (case users_map db (cstr name) of None \<Rightarrow> USER_BADUSERNAME
       | Some (p, _) \<Rightarrow> if p = cstr pw then USER_OK else USER_WRONGPASSWORD, db') \<and> same_users db db'"
  using assms(1,2)
proof (cases rule: user_get_cases)
  case (absent db1)
  then show ?thesis by (auto simp: user_authenticate_def)
next
  case (present db1 a u)
  have "terminated (u_password u)"
    using users_elems_ok[OF assms(1) present(4)] by (rule terminated_upass)
  from c_strcmp_spec[OF this assms(3)] present show ?thesis
    by (auto simp: user_authenticate_def user_value_def upass_def)
qed

lemma user_is_admin_spec:
  assumes "users_ok db" "terminated name"
  shows "\<exists>db'. user_is_admin db name = Some
      (case users_map db (cstr name) of None \<Rightarrow> False | Some (_, pl) \<Rightarrow> pl = USER_PRIVILEGE_ADMIN, db')
      \<and> same_users db db'"
  using assms
proof (cases rule: user_get_cases)
  case (absent db1)
  then show ?thesis by (auto simp: user_is_admin_def)
next
  case (present db1 a u)
  then show ?thesis by (auto simp: user_is_admin_def user_value_def)
qed

text \<open>The credentials a caller presents, as the strings its arrays hold.\<close>

definition credentials_ok :: "users_db \<Rightarrow> byte list \<Rightarrow> byte list \<Rightarrow> bool" where
  "credentials_ok db name pw \<longleftrightarrow>
     (case users_map db (cstr name) of None \<Rightarrow> False | Some (p, _) \<Rightarrow> p = cstr pw)"

lemma credentials_same: "same_users db db' \<Longrightarrow> credentials_ok db' = credentials_ok db"
  by (auto simp: credentials_ok_def same_usersD fun_eq_iff)

definition junk_ok :: "user \<Rightarrow> bool" where
  "junk_ok junk \<longleftrightarrow> length (u_username junk) = 256 \<and> length (u_password junk) = 256"

lemma cstr_set_after: "length (cstr a) < i \<Longrightarrow> terminated a \<Longrightarrow> cstr (a[i := c]) = cstr a"
  by (induction a arbitrary: i) (auto split: nat.splits)

lemma terminated_set_zero: "i < length a \<Longrightarrow> terminated (a[i := 0])"
  by (simp add: terminated_def set_update_memI)

text \<open>A zero-padded copy that is cut at \<open>254\<close>, as \<open>user_create\<close> makes it.\<close>

lemma fill_field:
  assumes "terminated src" "length (cstr src) \<le> 254" "length dst = 256"
  obtains d where "c_strncpy dst src 254 = Some d" "length d = 256" "cstr (d[254 := 0]) = cstr src"
    "\<forall>i. length (cstr src) \<le> i \<and> i < 255 \<longrightarrow> d[254 := 0] ! i = 0"
proof -
  let ?s = "cstr src"
  let ?d = "store_at 0 (take 254 (?s @ replicate 254 0)) dst"
  have eq: "?d = ?s @ replicate (254 - length ?s) 0 @ drop 254 dst"
    using assms by (simp add: store_at_def)
  have nth: "?d[254 := 0] ! i = 0" if "length ?s \<le> i" "i < 255" for i
    using that assms(2,3) unfolding eq by (auto simp: nth_list_update nth_append)
  have "?d[254 := 0] = ?s @ 0 # drop (Suc (length ?s)) (?d[254 := 0])"
  proof -
    have len: "length ?s < length (?d[254 := 0])" using assms(2,3) unfolding eq by simp
    have "take (length ?s) (?d[254 := 0]) = ?s" using assms(2) unfolding eq by simp
    with id_take_nth_drop[OF len] nth[of "length ?s"] assms(2) show ?thesis by simp
  qed
  then have "cstr (?d[254 := 0]) = ?s" by (metis cstr_append_zero cstr_nonzero)
  moreover have "c_strncpy dst src 254 = Some ?d"
    using assms by (simp add: c_strncpy_def)
  ultimately show thesis using that nth assms(2,3) by (simp add: eq)
qed

lemma user_fill_spec:
  assumes "terminated name" "terminated pw" "length (cstr name) \<le> 254" "length (cstr pw) \<le> 254" "junk_ok junk"
  obtains u where "user_fill junk name pw pl = Some u" "user_ok u" "uname u = cstr name"
    "user_value u = (cstr pw, pl)"
proof -
  from fill_field[OF assms(1,3), of "u_username junk"] assms(5) obtain n where n:
    "c_strncpy (u_username junk) name 254 = Some n" "length n = 256" "cstr (n[254 := 0]) = cstr name"
    by (auto simp: junk_ok_def)
  from fill_field[OF assms(2,4), of "u_password junk"] assms(5) obtain p where p:
    "c_strncpy (u_password junk) pw 254 = Some p" "length p = 256" "cstr (p[254 := 0]) = cstr pw"
    "\<forall>i. length (cstr pw) \<le> i \<and> i < 255 \<longrightarrow> p[254 := 0] ! i = 0"
    by (auto simp: junk_ok_def)
  let ?u = "\<lparr>u_username = n[254 := 0], u_password = p[254 := 0], u_privilege_level = pl\<rparr>"
  have "user_fill junk name pw pl = Some ?u"
    using n p by (simp add: user_fill_def c_set_def)
  moreover have "user_ok ?u"
    using n p assms(4) by (simp add: user_ok_def upass_def terminated_set_zero)
  ultimately show thesis
    using n p by (intro that[of ?u]) (simp_all add: uname_def upass_def user_value_def)
qed

lemma users_ok_add:
  assumes "users_ok db" "user_ok u"
  obtains l where "list_add True True (usersList db) u = Some (True, l)" "users_ok (db\<lparr>usersList := l\<rparr>)"
    "users_elems (db\<lparr>usersList := l\<rparr>) = ins_by uname u (users_elems db)"
proof -
  from assms(1) obtain l where l: "usersList db = Some l" "list_ok user_cmp uname user_ok l"
    by (auto simp: users_ok_def split: option.splits)
  from user_list.list_add_spec[OF l(2) assms(2)] obtain l' where
    "list_add True True (Some l) u = Some (True, Some l')" "list_ok user_cmp uname user_ok l'"
    "slist_elems l' = ins_by uname u (slist_elems l)" by blast
  with l show thesis by (intro that[of "Some l'"]) (simp_all add: users_ok_def users_elems_def)
qed

lemma set_ins_by_new: "key x \<notin> key ` set ys \<Longrightarrow> set (ins_by key x ys) = insert x (set ys)"
  by (induction ys) auto

text \<open>
  Creation: refused for long credentials and for a name in use (in that order), otherwise the
  map gains exactly this user and \<open>totalAdmins\<close> counts an administrator.
\<close>

definition create_status :: "users_db \<Rightarrow> byte list \<Rightarrow> byte list \<Rightarrow> user_status" where
  "create_status db name pw =
     (if length (cstr name) \<ge> 255 \<or> length (cstr pw) \<ge> 255 then USER_CREDTOOLONG
      else if users_map db (cstr name) = None then USER_OK else USER_ALREADYEXISTS)"

lemma user_create_spec:
  assumes "users_ok db" "terminated name" "terminated pw" "junk_ok junk"
  shows "\<exists>db'. user_create True True junk db name pw pl = Some (create_status db name pw, db') \<and> users_ok db'
    \<and> (if create_status db name pw = USER_OK
       then users_map db' = (users_map db)(cstr name \<mapsto> (cstr pw, pl))
         \<and> totalAdmins db' = totalAdmins db + (if pl = USER_PRIVILEGE_ADMIN then 1 else 0)
       else users_map db' = users_map db \<and> totalAdmins db' = totalAdmins db)"
proof (cases "length (cstr name) \<ge> 255 \<or> length (cstr pw) \<ge> 255")
  case True
  with assms show ?thesis by (auto simp: user_create_def create_status_def)
next
  case False
  from assms(1,2) show ?thesis
  proof (cases rule: user_get_cases)
    case (present db1 a u)
    have "user_create True True junk db name pw pl = Some (USER_ALREADYEXISTS, db1)"
      using False assms(2,3) present(1) by (simp add: user_create_def)
    moreover have "create_status db name pw = USER_ALREADYEXISTS"
      using False present(6) by (simp add: create_status_def)
    ultimately show ?thesis using same_usersD[OF present(2)] by simp
  next
    case (absent db1)
    from False have le: "length (cstr name) \<le> 254" "length (cstr pw) \<le> 254" by auto
    obtain u where u: "user_fill junk name pw pl = Some u" "user_ok u" "uname u = cstr name"
        "user_value u = (cstr pw, pl)"
      by (rule user_fill_spec[OF assms(2,3) le assms(4)])
    let ?db2 = "if pl = USER_PRIVILEGE_ADMIN then db1\<lparr>totalAdmins := totalAdmins db1 + 1\<rparr> else db1"
    have el: "users_elems ?db2 = users_elems db" and ok2: "users_ok ?db2"
      using absent(2) by (auto simp: same_users_def users_elems_def users_ok_def)
    from users_ok_add[OF ok2 u(2)] obtain l where l:
      "list_add True True (usersList ?db2) u = Some (True, l)" "users_ok (?db2\<lparr>usersList := l\<rparr>)"
      "users_elems (?db2\<lparr>usersList := l\<rparr>) = ins_by uname u (users_elems db)"
      using el by metis
    have new: "uname u \<notin> uname ` set (users_elems db)"
      using absent(3) u(3) by (auto simp: users_map_None_iff)
    have old: "\<forall>w \<in> set (users_elems db). uname w \<noteq> cstr name"
      using absent(3) by (simp add: users_map_None_iff)
    have iff: "users_map (?db2\<lparr>usersList := l\<rparr>) n = Some v \<longleftrightarrow>
        ((users_map db)(cstr name \<mapsto> (cstr pw, pl))) n = Some v" for n v
      using old u(3,4) unfolding users_map_iff[OF l(2)] l(3) set_ins_by_new[OF new]
      by (auto simp: users_map_iff[OF assms(1)])
    have "users_map (?db2\<lparr>usersList := l\<rparr>) = (users_map db)(cstr name \<mapsto> (cstr pw, pl))"
      by (rule ext) (metis iff option.exhaust)
    with False assms absent u l same_usersD(3)[OF absent(2)] show ?thesis
      by (auto simp: user_create_def create_status_def Let_def)
  qed
qed

lemma user_remove_spec:
  assumes "users_ok db" "terminated name"
  shows "\<exists>db'. user_remove db name = Some
      (if users_map db (cstr name) = None then USER_BADUSERNAME else USER_OK, db') \<and> users_ok db'
      \<and> users_map db' = (users_map db)(cstr name := None) \<and> totalAdmins db' = totalAdmins db"
  using assms
proof (cases rule: user_get_cases)
  case (absent db1)
  then show ?thesis by (auto simp: user_remove_def same_usersD fun_upd_idem)
next
  case (present db1 a u)
  from same_usersD(1)[OF present(2)] obtain l where l: "usersList db1 = Some l" "list_ok user_cmp uname user_ok l"
    by (auto simp: users_ok_def split: option.splits)
  from user_list.list_remove_spec[OF l(2) users_elems_ok[OF assms(1) present(4)]] obtain l' where
    l': "list_remove (Some l) u = Some (slist_elems l \<noteq> [], Some l')" "list_ok user_cmp uname user_ok l'"
      "slist_elems l' = del_by uname u (slist_elems l)" by blast
  let ?db' = "db1\<lparr>usersList := Some l'\<rparr>"
  have ok: "users_ok ?db'" using l' by (simp add: users_ok_def)
  have els: "users_elems ?db' = del_by uname u (users_elems db)"
    using l l' present(2) by (simp add: users_elems_def same_users_def)
  have iff: "users_map ?db' n = Some v \<longleftrightarrow> ((users_map db)(cstr name := None)) n = Some v" for n v
    using present(5) unfolding users_map_iff[OF ok] els
    by (auto simp: users_map_iff[OF assms(1)] del_by_def)
  have "users_map ?db' = (users_map db)(cstr name := None)"
    by (rule ext) (metis iff option.exhaust)
  with ok l l' present same_usersD(3)[OF present(2)] show ?thesis
    by (auto simp: user_remove_def)
qed

lemma user_change_role_spec:
  assumes "users_ok db" "terminated name"
  shows "\<exists>db'. user_change_role db name r = Some
      (if users_map db (cstr name) = None then USER_BADUSERNAME else USER_OK, db') \<and> users_ok db'
      \<and> users_map db' = (case users_map db (cstr name) of None \<Rightarrow> users_map db
          | Some (p, _) \<Rightarrow> (users_map db)(cstr name \<mapsto> (p, r))) \<and> totalAdmins db' = totalAdmins db"
  using assms
proof (cases rule: user_get_cases)
  case (absent db1)
  then show ?thesis by (auto simp: user_change_role_def same_usersD)
next
  case (present db1 a u)
  let ?v = "u\<lparr>u_privilege_level := r\<rparr>"
  have v: "user_ok ?v" "uname ?v = uname u"
    using users_elems_ok[OF assms(1) present(4)] by (simp_all add: user_ok_def uname_def upass_def)
  from present(7)[OF v] obtain db2 where db2: "user_store db1 a ?v = Some db2" "users_ok db2"
    "users_elems db2 = map (\<lambda>w. if uname w = uname u then ?v else w) (users_elems db)"
    "totalAdmins db2 = totalAdmins db" by blast
  have "users_map db2 = (users_map db)(uname u \<mapsto> user_value ?v)"
    using present(4) v(2) by (intro users_map_replace[OF assms(1) db2(2) _ _ db2(3)]) auto
  with db2 present show ?thesis
    by (auto simp: user_change_role_def user_value_def upass_def)
qed

text \<open>
  \<open>memcpy (user->password, new_password, strlen (new_password))\<close> copies no terminator: the tail
  of a longer old password survives.
\<close>

lemma overlay_password:
  assumes "user_ok u" "terminated new" "length (cstr new) \<le> 254"
  defines "p \<equiv> store_at 0 (take (length (cstr new)) new) (u_password u)"
  shows "c_memcpy (u_password u) 0 new (length (cstr new)) = Some p"
    and "user_ok (u\<lparr>u_password := p\<rparr>)"
    and "cstr p = cstr new @ drop (length (cstr new)) (upass u)"
proof -
  let ?s = "cstr new" and ?q = "u_password u"
  let ?n = "length ?s"
  have tk: "take ?n new = ?s" unfolding cstr_def by (metis takeWhile_eq_take)
  have p: "p = ?s @ drop ?n ?q" unfolding p_def tk by (simp add: store_at_def)
  have q: "length ?q = 256" "length (upass u) \<le> 254"
      "\<forall>i. length (upass u) \<le> i \<and> i < 255 \<longrightarrow> ?q ! i = 0"
    using assms(1) by (auto simp: user_ok_def)
  show "c_memcpy ?q 0 new ?n = Some p"
    using assms(3) q(1) length_cstr_le[of new] by (simp add: c_memcpy_def p_def)
  have zero: "p ! i = 0" if "max ?n (length (upass u)) \<le> i" "i < 255" for i
    using that q unfolding p by (simp add: nth_append)
  have "take (max ?n (length (upass u))) p = ?s @ drop ?n (upass u)"
  proof (cases "?n \<le> length (upass u)")
    case True
    have "take (length (upass u)) ?q = upass u" unfolding upass_def cstr_def by (metis takeWhile_eq_take)
    then have "take (length (upass u) - ?n) (drop ?n ?q) = drop ?n (upass u)"
      by (metis drop_take)
    with True show ?thesis unfolding p by simp
  qed (simp add: p)
  moreover have len: "max ?n (length (upass u)) < length p" using q assms(3) unfolding p by simp
  ultimately have "p = (?s @ drop ?n (upass u)) @ 0 # drop (Suc (max ?n (length (upass u)))) p"
    using id_take_nth_drop[OF len] zero[of "max ?n (length (upass u))"] q(2) assms(3) by simp
  moreover have "0 \<notin> set (?s @ drop ?n (upass u))"
    using cstr_nonzero[of new] cstr_nonzero[of ?q] by (auto simp: upass_def dest: in_set_dropD)
  ultimately show c: "cstr p = ?s @ drop ?n (upass u)" by (metis cstr_append_zero)
  have "length (cstr p) = max ?n (length (upass u))" unfolding c by simp
  with zero q assms(1,3) show "user_ok (u\<lparr>u_password := p\<rparr>)"
    unfolding user_ok_def by (simp add: upass_def p)
qed

lemma user_change_password_spec:
  assumes "users_ok db" "terminated name" "terminated new" "length (cstr new) \<le> 254"
  shows "\<exists>db'. user_change_password db name new = Some
      (if users_map db (cstr name) = None then USER_BADUSERNAME else USER_OK, db') \<and> users_ok db'
      \<and> users_map db' = (case users_map db (cstr name) of None \<Rightarrow> users_map db
          | Some (old, pl) \<Rightarrow> (users_map db)(cstr name \<mapsto> (cstr new @ drop (length (cstr new)) old, pl)))
      \<and> totalAdmins db' = totalAdmins db"
  using assms(1,2)
proof (cases rule: user_get_cases)
  case (absent db1)
  then show ?thesis by (auto simp: user_change_password_def same_usersD)
next
  case (present db1 a u)
  note ov = overlay_password[OF users_elems_ok[OF assms(1) present(4)] assms(3,4)]
  let ?p = "store_at 0 (take (length (cstr new)) new) (u_password u)"
  let ?v = "u\<lparr>u_password := ?p\<rparr>"
  have v: "uname ?v = uname u" by (simp add: uname_def)
  from present(7)[OF ov(2) v] obtain db2 where db2: "user_store db1 a ?v = Some db2" "users_ok db2"
    "users_elems db2 = map (\<lambda>w. if uname w = uname u then ?v else w) (users_elems db)"
    "totalAdmins db2 = totalAdmins db" by blast
  have "users_map db2 = (users_map db)(uname u \<mapsto> user_value ?v)"
    using present(4) v by (intro users_map_replace[OF assms(1) db2(2) _ _ db2(3)]) auto
  with db2 present ov assms(3) show ?thesis
    by (auto simp: user_change_password_def user_value_def upass_def)
qed

section \<open>The database the server starts with\<close>

lemma ascii_admin: "ascii ''admin'' = [97, 100, 109, 105, 110]"
  by code_simp

lemma admin_fields: "cstr (ascii ''admin'' @ replicate 251 0) = ascii ''admin''"
proof -
  have "replicate 251 0 = (0 :: byte) # replicate 250 0" by (simp add: numeral_eq_Suc)
  then show ?thesis by (simp add: ascii_admin)
qed

lemma admin_user_ok: "user_ok admin_user"
proof -
  have "length (ascii ''admin'') = 5" by (simp add: ascii_admin)
  then show ?thesis
    by (auto simp: user_ok_def upass_def admin_user_def admin_fields terminated_def nth_append)
qed

lemma users_init_spec:
  obtains db where "users_init True True True users_static = Some db" "users_ok db" "totalAdmins db = 1"
    "users_map db = [ascii ''admin'' \<mapsto> (ascii ''admin'', USER_PRIVILEGE_ADMIN)]"
proof -
  obtain l0 where c: "list_create True user_cmp = Some l0" by (simp add: list_create_def)
  then have l0: "list_create True user_cmp = Some l0" "list_ok user_cmp uname user_ok l0" "slist_elems l0 = []"
    using user_list.list_create_ok[OF c] by auto
  from user_list.list_add_spec[OF l0(2) admin_user_ok] obtain l where l:
    "list_add True True (Some l0) admin_user = Some (True, Some l)" "list_ok user_cmp uname user_ok l"
    "slist_elems l = [admin_user]" using l0(3) by auto
  let ?db = "users_static\<lparr>usersList := Some l\<rparr>"
  have "users_init True True True users_static = Some ?db"
    using l0(1) l(1) by (simp add: users_init_def users_static_def)
  moreover have "users_map ?db = [ascii ''admin'' \<mapsto> (ascii ''admin'', USER_PRIVILEGE_ADMIN)]"
    using l(3) by (auto simp: fun_eq_iff users_map_def users_elems_def uname_def user_value_def upass_def admin_user_def admin_fields)
  ultimately show thesis using that[of ?db] l(2) by (simp add: users_ok_def users_static_def)
qed

section \<open>Any name, any allocation\<close>

text \<open>
  Without assuming that the name is a terminated string: if the search has a result at all, it
  has only moved the iterator.
\<close>

lemma user_find_frame:
  assumes "user_find lp name = Some (r, lp')" "lp = Some l"
  shows "\<exists>it. lp' = Some (l\<lparr>l_iter := it\<rparr>)"
proof -
  have "\<forall>l. lp = Some l \<longrightarrow> (\<exists>it. snd (r, lp') = Some (l\<lparr>l_iter := it\<rparr>))"
    using assms(1)
  proof (rule user_find.raw_induct[rotated])
    fix uf :: "user slist option \<Rightarrow> byte list \<Rightarrow> (nat option \<times> user slist option) option"
      and lp :: "user slist option" and nm y
    assume IH: "\<And>lp nm y. uf lp nm = Some y \<Longrightarrow> \<forall>l. lp = Some l \<longrightarrow> (\<exists>it. snd y = Some (l\<lparr>l_iter := it\<rparr>))"
      and s: "(do { more \<leftarrow> list_has_next lp;
           if \<not> more then Some (None, lp)
           else do { (r, lp') \<leftarrow> list_get_next lp; (a, u) \<leftarrow> r; c \<leftarrow> c_strcmp (u_username u) nm;
             if c = 0 then Some (Some a, lp') else uf lp' nm } }) = Some y"
    show "\<forall>l. lp = Some l \<longrightarrow> (\<exists>it. snd y = Some (l\<lparr>l_iter := it\<rparr>))"
    proof (intro allI impI)
      fix l assume lp: "lp = Some l"
      from s lp show "\<exists>it. snd y = Some (l\<lparr>l_iter := it\<rparr>)"
        by (fastforce simp: list_has_next_def list_get_next_def elim!: bind_SomeE split: if_splits option.splits dest: IH
            intro: exI[of _ "l_iter l"])
    qed
  qed
  with assms(2) show ?thesis by simp
qed

lemma user_get_frame:
  assumes "users_ok db" "user_get_if_exists db name = Some (r, db')"
  shows "same_users db db'"
proof -
  from users_okD[OF assms(1)] obtain l where l: "usersList db = Some l" by blast
  obtain lp where lp: "user_find (list_begin_iter (usersList db)) name = Some (r, lp)" "db' = db\<lparr>usersList := lp\<rparr>"
    using assms(2) by (auto simp: user_get_if_exists_def elim!: bind_SomeE)
  obtain it where "lp = Some (l\<lparr>l_iter := it\<rparr>)"
    using user_find_frame[OF lp(1)] l by (auto simp: list_begin_iter_def)
  with assms(1) lp(2) l show ?thesis
    by (simp add: same_users_def users_ok_def users_elems_def iter_frame)
qed

lemma user_is_admin_frame:
  assumes "users_ok db" "user_is_admin db name = Some (r, db')"
  shows "same_users db db'"
  using assms(2) user_get_frame[OF assms(1)]
  by (auto simp: user_is_admin_def elim!: bind_SomeE split: option.splits)

lemma user_authenticate_frame:
  assumes "users_ok db" "user_authenticate db name pw = Some (r, db')"
  shows "same_users db db'"
  using assms(2) user_get_frame[OF assms(1)]
  by (auto simp: user_authenticate_def elim!: bind_SomeE split: option.splits)

lemma list_add_nomem:
  "list_add m1 m2 (Some l) x = Some (r, lp) \<Longrightarrow> \<not> (m1 \<and> m2) \<Longrightarrow> lp = Some l"
  by (auto simp: list_add_def elim!: bind_SomeE split: if_splits)

text \<open>\<open>user_create\<close> ignores the result of \<open>list_add\<close>: without memory it still reports success.\<close>

lemma user_create_nomem:
  assumes "users_ok db" "terminated name" "terminated pw" "junk_ok junk" "create_status db name pw = USER_OK"
    and "\<not> (m1 \<and> m2)"
  shows "\<exists>db'. user_create m1 m2 junk db name pw pl = Some (USER_OK, db') \<and> users_ok db' \<and> users_map db' = users_map db
    \<and> totalAdmins db' = totalAdmins db + (if pl = USER_PRIVILEGE_ADMIN then 1 else 0)"
proof -
  have le: "length (cstr name) \<le> 254" "length (cstr pw) \<le> 254" and free: "users_map db (cstr name) = None"
    using assms(5) by (auto simp: create_status_def split: if_splits)
  obtain u where u: "user_fill junk name pw pl = Some u" "user_ok u"
    by (rule user_fill_spec[OF assms(2,3) le assms(4)])
  from assms(1,2) show ?thesis
  proof (cases rule: user_get_cases)
    case (present db1 a v)
    with free show ?thesis by simp
  next
    case (absent db1)
    let ?db2 = "if pl = USER_PRIVILEGE_ADMIN then db1\<lparr>totalAdmins := totalAdmins db1 + 1\<rparr> else db1"
    have ok2: "users_ok ?db2" and el: "users_elems ?db2 = users_elems db"
      using absent(2) by (auto simp: same_users_def users_elems_def users_ok_def)
    obtain l where l: "usersList ?db2 = Some l" using users_okD[OF ok2] by blast
    from users_ok_add[OF ok2 u(2)] obtain l2 where "list_add True True (usersList ?db2) u = Some (True, l2)" by metis
    then obtain b where b: "list_add m1 m2 (usersList ?db2) u = Some (b, Some l)"
      using l assms(6) by (auto simp: list_add_def elim!: bind_SomeE split: if_splits)
    have "user_create m1 m2 junk db name pw pl = Some (USER_OK, ?db2\<lparr>usersList := Some l\<rparr>)"
      using le assms(2,3) absent(1) u(1) b by (simp add: user_create_def Let_def)
    moreover have "?db2\<lparr>usersList := Some l\<rparr> = ?db2" using l by simp
    ultimately show ?thesis
      using ok2 users_map_cong[OF el] same_usersD(3)[OF absent(2)] by auto
  qed
qed

lemma user_create_keeps:
  assumes "users_ok db" "junk_ok junk" "user_create m1 m2 junk db name pw pl = Some (st, db')"
  shows "users_ok db'"
proof (cases "terminated name \<and> terminated pw")
  case False
  then have "db' = db" using assms(3) by (auto simp: user_create_def c_strlen_def split: if_splits)
  with assms(1) show ?thesis by simp
next
  case True
  show ?thesis
  proof (cases "m1 \<and> m2 \<or> create_status db name pw \<noteq> USER_OK")
    case False
    then show ?thesis using user_create_nomem[of db name pw junk m1 m2 pl] assms True by auto
  next
    case mem: True
    have "user_create m1 m2 junk db name pw pl = user_create True True junk db name pw pl"
    proof (cases "m1 \<and> m2")
      case False
      then have st: "create_status db name pw \<noteq> USER_OK" using mem by blast
      from assms(1) True have "terminated name" by blast
      from assms(1) this show ?thesis
      proof (cases rule: user_get_cases)
        case (absent db1)
        then show ?thesis using st True by (auto simp: user_create_def create_status_def split: if_splits)
      next
        case (present db1 a u)
        then show ?thesis using True by (simp add: user_create_def)
      qed
    qed simp
    then show ?thesis using user_create_spec[of db name pw junk pl] assms True by auto
  qed
qed

end
