(* ===== verification/Metrics.thy ===== *)
theory Metrics
  imports Prelude
begin

text \<open>
  The connection and byte counters of \<open>src/server/metrics.c\<close>. Counters are \<open>size_t\<close>, 64-bit
  words that wrap; the \<open>int\<close> byte counts are converted to \<open>size_t\<close> before they are added.
\<close>

record metricSnapshot =
  currentConnections :: u64
  totalConnections :: u64
  totalBytesSent :: u64
  totalBytesReceived :: u64

definition metrics_init :: "metricSnapshot \<Rightarrow> metricSnapshot" where
  "metrics_init m = m\<lparr>currentConnections := 0, totalConnections := 0,
     totalBytesSent := 0, totalBytesReceived := 0\<rparr>"

definition register_new_connection :: "metricSnapshot \<Rightarrow> metricSnapshot" where
  "register_new_connection m = m\<lparr>currentConnections := currentConnections m + 1,
     totalConnections := totalConnections m + 1\<rparr>"

definition register_connection_closed :: "metricSnapshot \<Rightarrow> metricSnapshot" where
  "register_connection_closed m =
     (if currentConnections m > 0 then m\<lparr>currentConnections := currentConnections m - 1\<rparr> else m)"

definition register_bytes_transferred :: "int \<Rightarrow> int \<Rightarrow> metricSnapshot \<Rightarrow> metricSnapshot" where
  "register_bytes_transferred bytes_received bytes_sent m =
     m\<lparr>totalBytesReceived := totalBytesReceived m + word_of_int bytes_received,
       totalBytesSent := totalBytesSent m + word_of_int bytes_sent\<rparr>"

definition get_metrics_snapshot :: "metricSnapshot \<Rightarrow> metricSnapshot" where
  "get_metrics_snapshot m = m"

text \<open>Closing never underflows: the count goes down by one, or stays at zero.\<close>

lemma unat_closed: "unat (currentConnections (register_connection_closed m)) = unat (currentConnections m) - 1"
  by (simp add: register_connection_closed_def unat_minus_one word_gt_0)

lemma unat_new:
  "unat (currentConnections m) < 2 ^ 64 - 1 \<Longrightarrow>
     unat (currentConnections (register_new_connection m)) = unat (currentConnections m) + 1"
  by (simp add: register_new_connection_def unat_word_ariths)

end
