(* ===== verification/Net.thy ===== *)
theory Net
  imports Prelude
begin

unbundle bit_operations_syntax

text \<open>
  The operating system and the C library's network calls as the program sees them. A record
  of functions over an abstract world \<open>'w\<close> stands for the kernel; every call may change the
  world, and reports an \<open>errno\<close> or a result. The record is an argument of the handlers; what
  the proofs rely on is the documented contract \<open>os_ok\<close>: \<open>recv\<close> returns at most the bytes asked
  for and \<open>send\<close> takes at most the bytes offered. Addresses, byte order and the \<open>errno\<close> values
  are those of the platform the Makefile builds for (Linux, little endian).
\<close>

section \<open>Byte order and addresses\<close>

definition htons :: "u16 \<Rightarrow> u16" where
  "htons x = push_bit 8 x OR drop_bit 8 x"

definition ntohs :: "u16 \<Rightarrow> u16" where
  "ntohs x = push_bit 8 x OR drop_bit 8 x"

text \<open>The two bytes of an object of type \<open>uint16_t\<close> in memory.\<close>

definition mem16 :: "u16 \<Rightarrow> byte list" where
  "mem16 x = [ucast x, ucast (drop_bit 8 x)]"

definition from_mem16 :: "byte \<Rightarrow> byte \<Rightarrow> u16" where
  "from_mem16 a b = ucast a OR push_bit 8 (ucast b)"

lemma ntohs_htons [simp]: "ntohs (htons x) = x"
  unfolding ntohs_def htons_def
  by (rule bit_eqI) (auto simp: bit_simps)

lemma mem16_htons: "mem16 (htons x) = [ucast (drop_bit 8 x), ucast x]"
  unfolding mem16_def htons_def
  by (auto intro!: bit_eqI simp: bit_simps)

lemma ntohs_from_mem16: "ntohs (from_mem16 a b) = push_bit 8 (ucast a) OR ucast b"
  unfolding ntohs_def from_mem16_def
  by (rule bit_eqI) (auto simp: bit_simps dest: bit_imp_le_length)

abbreviation (input) AF_INET :: nat where "AF_INET \<equiv> 2"
abbreviation (input) AF_INET6 :: nat where "AF_INET6 \<equiv> 10"
abbreviation (input) SOCK_STREAM :: nat where "SOCK_STREAM \<equiv> 1"
abbreviation (input) IPPROTO_TCP :: nat where "IPPROTO_TCP \<equiv> 6"
abbreviation (input) O_NONBLOCK :: nat where "O_NONBLOCK \<equiv> 2048"

abbreviation (input) ENETUNREACH :: nat where "ENETUNREACH \<equiv> 101"
abbreviation (input) ETIMEDOUT :: nat where "ETIMEDOUT \<equiv> 110"
abbreviation (input) ECONNREFUSED :: nat where "ECONNREFUSED \<equiv> 111"
abbreviation (input) EHOSTUNREACH :: nat where "EHOSTUNREACH \<equiv> 113"
abbreviation (input) EINPROGRESS :: nat where "EINPROGRESS \<equiv> 115"

text \<open>Ports are the 16-bit field as stored (network order); addresses are the bytes in memory.\<close>

datatype sockaddr =
    Sin (sin_port: u16) (sin_addr: "byte list")
  | Sin6 (sin6_port: u16) (sin6_addr: "byte list")
  | Sother nat

fun ss_family :: "sockaddr \<Rightarrow> nat" where
  "ss_family (Sin _ _) = AF_INET"
| "ss_family (Sin6 _ _) = AF_INET6"
| "ss_family (Sother f) = f"

record addrinfo =
  ai_family :: nat
  ai_socktype :: nat
  ai_protocol :: nat
  ai_addr :: sockaddr

section \<open>System calls\<close>

datatype 'a sys = SysErr nat | SysOk 'a

datatype shut = SHUT_RD | SHUT_WR

text \<open>\<open>inet_pton\<close>: 1, 0 or \<open>-1\<close>.\<close>

datatype pton_result = PtonOk "byte list" | PtonBad | PtonErr

text \<open>
  \<open>os_malloc\<close> and \<open>os_thread\<close>: does the allocation, does the creation of a thread succeed.
  \<open>os_uninit n\<close>: the content of \<open>n\<close> bytes of memory that nothing has written.
\<close>

record 'w os =
  os_recv :: "int \<Rightarrow> nat \<Rightarrow> 'w \<Rightarrow> byte list sys \<times> 'w"
  os_send :: "int \<Rightarrow> byte list \<Rightarrow> 'w \<Rightarrow> nat sys \<times> 'w"
  os_shutdown :: "int \<Rightarrow> shut \<Rightarrow> 'w \<Rightarrow> 'w"
  os_close :: "int \<Rightarrow> 'w \<Rightarrow> 'w"
  os_socket :: "nat \<Rightarrow> nat \<Rightarrow> nat \<Rightarrow> 'w \<Rightarrow> int sys \<times> 'w"
  os_connect :: "int \<Rightarrow> sockaddr \<Rightarrow> 'w \<Rightarrow> unit sys \<times> 'w"
  os_so_error :: "int \<Rightarrow> 'w \<Rightarrow> nat sys \<times> 'w"
  os_getsockname :: "int \<Rightarrow> 'w \<Rightarrow> sockaddr sys \<times> 'w"
  os_accept :: "int \<Rightarrow> 'w \<Rightarrow> (int \<times> sockaddr) sys \<times> 'w"
  os_getfd :: "int \<Rightarrow> 'w \<Rightarrow> nat sys \<times> 'w"
  os_setfl :: "int \<Rightarrow> nat \<Rightarrow> 'w \<Rightarrow> unit sys \<times> 'w"
  os_malloc :: "'w \<Rightarrow> bool \<times> 'w"
  os_thread :: "'w \<Rightarrow> bool \<times> 'w"
  os_uninit :: "nat \<Rightarrow> 'w \<Rightarrow> byte list"
  os_ntop :: "nat \<Rightarrow> byte list \<Rightarrow> nat \<Rightarrow> byte list option"
  os_pton :: "nat \<Rightarrow> byte list \<Rightarrow> pton_result"
  os_getaddrinfo :: "byte list \<Rightarrow> byte list \<Rightarrow> 'w \<Rightarrow> addrinfo list option \<times> 'w"

definition os_ok :: "'w os \<Rightarrow> bool" where
  "os_ok os \<longleftrightarrow>
     (\<forall>fd n w bs w'. os_recv os fd n w = (SysOk bs, w') \<longrightarrow> length bs \<le> n)
   \<and> (\<forall>fd bs w n w'. os_send os fd bs w = (SysOk n, w') \<longrightarrow> n \<le> length bs)
   \<and> (\<forall>n w. length (os_uninit os n w) = n)"

lemma os_recvD: "os_ok os \<Longrightarrow> os_recv os fd n w = (SysOk bs, w') \<Longrightarrow> length bs \<le> n"
  unfolding os_ok_def by blast

lemma os_sendD: "os_ok os \<Longrightarrow> os_send os fd bs w = (SysOk n, w') \<Longrightarrow> n \<le> length bs"
  unfolding os_ok_def by blast

lemma os_uninitD: "os_ok os \<Longrightarrow> length (os_uninit os n w) = n"
  unfolding os_ok_def by blast

text \<open>\<open>selector_fd_set_nio\<close> of \<open>src/shared/selector.c\<close>: 0 or \<open>-1\<close>.\<close>

definition selector_fd_set_nio :: "'w os \<Rightarrow> int \<Rightarrow> 'w \<Rightarrow> int \<times> 'w" where
  "selector_fd_set_nio os fd w =
     (case os_getfd os fd w of
        (SysErr _, w) \<Rightarrow> (- 1, w)
      | (SysOk flags, w) \<Rightarrow>
          (case os_setfl os fd (flags OR O_NONBLOCK) w of
             (SysErr _, w) \<Rightarrow> (- 1, w)
           | (SysOk _, w) \<Rightarrow> (0, w)))"

end
