(* ===== verification/Connection.thy ===== *)
theory Connection
  imports ByteBuffer SelectorLaws StateMachine Users Metrics Net
begin

text \<open>
  The state of a proxy connection (\<open>struct socks5\<close> of \<open>src/server/include/socks5nio.h\<close>) and the
  environment its handlers run in: the selector extended with the users, the metrics, the
  running resolver threads and the world of the system calls.

  A state handler of the protocol is a function of the operating system, the key and the pair
  of the connection (\<open>ATTACHMENT (key)\<close>) and the environment; it returns the next state of the
  machine.

  Five calls of the logger are recorded, with the arguments of their format, in the field \<open>e_calls\<close>:
  a connection is accepted, connected (the access log) or closed, a connection is accepted by the
  management server, and a login there. The other calls in the handlers, which report an error, the
  progress of a handler or what a method of the management server did, are left out. What a call does
  to the queue of the log is in \<open>Logger\<close>.
\<close>

section \<open>Lines of the log\<close>

text \<open>The line of the access log, as the arguments of its format.\<close>

record access_line =
  al_client_ip :: "byte list"
  al_client_port :: u16
  al_host :: "byte list option"
  al_version :: nat
  al_origin_ip :: "byte list"
  al_origin_port :: u16

datatype log_call =
    Log_access access_line
  | Log_accepted "byte list" u16
  | Log_closing "byte list" u16 "byte list"
  | Log_pam_accepted "byte list" u16
  | Log_pam_login user_status "byte list"

text \<open>\<open>inet_ntop\<close> into a zeroed array of \<open>INET6_ADDRSTRLEN\<close> bytes, for the families that are known.\<close>

fun addr_text :: "'w os \<Rightarrow> sockaddr \<Rightarrow> byte list" where
  "addr_text os (Sin p a) = (case os_ntop os AF_INET a 46 of None \<Rightarrow> [] | Some t \<Rightarrow> t)"
| "addr_text os (Sin6 p a) = (case os_ntop os AF_INET6 a 46 of None \<Rightarrow> [] | Some t \<Rightarrow> t)"
| "addr_text os (Sother f) = []"

section \<open>The environment\<close>

datatype handler_ref =
  SOCKSV5_PASSIVE | SOCKS5_HANDLER | PAM_PASSIVE | PAM_HANDLER | LOGGER_HANDLER

text \<open>\<open>key->data\<close> points to an attachment; attachments are numbered.\<close>

type_synonym attachment = nat
type_synonym key = "attachment selector_key"

record 'w env = "(handler_ref, attachment) fdselector" +
  e_users :: users_db
  e_metrics :: metricSnapshot
  e_threads :: "key list"
  e_calls :: "log_call list"
  e_world :: 'w

section \<open>The connection\<close>

abbreviation (input) BUFFER_SIZE :: nat where "BUFFER_SIZE \<equiv> 1024"
abbreviation (input) HOST_MAX_LENGHT :: nat where "HOST_MAX_LENGHT \<equiv> 256"
abbreviation (input) PORT_MAX_LENGHT :: nat where "PORT_MAX_LENGHT \<equiv> 6"

abbreviation (input) SOCKS5_VERSION :: byte where "SOCKS5_VERSION \<equiv> 5"
abbreviation (input) RSV :: byte where "RSV \<equiv> 0"
abbreviation (input) IPv4_ADDR :: byte where "IPv4_ADDR \<equiv> 1"
abbreviation (input) FQDN :: byte where "FQDN \<equiv> 3"
abbreviation (input) IPv6_ADDR :: byte where "IPv6_ADDR \<equiv> 4"
abbreviation (input) IPv4_ADDR_LEN :: nat where "IPv4_ADDR_LEN \<equiv> 4"
abbreviation (input) IPv6_ADDR_LEN :: nat where "IPv6_ADDR_LEN \<equiv> 16"

text \<open>\<open>enum socks_v5state\<close>\<close>

abbreviation (input) GREETING :: nat where "GREETING \<equiv> 0"
abbreviation (input) AUTH :: nat where "AUTH \<equiv> 1"
abbreviation (input) REQUEST :: nat where "REQUEST \<equiv> 2"
abbreviation (input) CONNECT :: nat where "CONNECT \<equiv> 3"
abbreviation (input) REPLY :: nat where "REPLY \<equiv> 4"
abbreviation (input) COPY :: nat where "COPY \<equiv> 5"
abbreviation (input) DONE :: nat where "DONE \<equiv> 6"
abbreviation (input) ERROR :: nat where "ERROR \<equiv> 7"

datatype greeting_state = VER_N_NMETHODS | METHODS

record greeting_st =
  g_state :: greeting_state
  g_n_methods :: byte
  g_method :: byte

datatype auth_state = AUTH_VER | AUTH_ULEN | AUTH_UNAME | AUTH_PLEN | AUTH_PASSWD

record auth_st =
  a_state :: auth_state
  a_ulen :: byte
  a_plen :: byte
  a_username :: "byte list"
  a_password :: "byte list"
  a_authenticated :: bool

datatype request_state = VER_CMD_ATYP | DST_LEN | DST_RES

record request_st =
  r_state :: request_state
  r_cmd :: byte
  r_atyp :: byte

text \<open>\<open>found_bnd_info\<close> is undetermined until \<open>reply_arrival\<close> writes it.\<close>

record reply_st =
  rep :: byte
  found_bnd_info :: "bool option"

text \<open>The pointers of \<open>copy_st\<close> point to the two buffers and the two copies of the connection.\<close>

datatype buf_ref = CLIENT_BUFFER | ORIGIN_BUFFER
datatype copy_ref = CLIENT_COPY | ORIGIN_COPY

record copy_st =
  cp_buffer :: buf_ref
  cp_fd :: int
  cp_interests :: fd_interest
  cp_other :: copy_ref

text \<open>
  The union \<open>client\<close>: the member written last. Reading another member is \<open>None\<close> in the
  accessors below; the one place where the code writes a member of another state
  (\<open>client.reply.rep\<close> while the request is active) makes that member the active one.
\<close>

datatype client_union =
    U_uninit
  | U_greeting greeting_st
  | U_auth auth_st
  | U_request request_st
  | U_reply reply_st
  | U_copy copy_st

text \<open>
  \<open>origin_resolution\<close> is the linked list of results, \<open>NULL\<close> the empty list. \<open>origin_copy\<close> (the
  union \<open>origin\<close>) is unwritten until the connection copies.
\<close>

record socks5 =
  client_fd :: int
  client_buffer :: buffer
  client_addr :: sockaddr
  client :: client_union
  origin_fd :: int
  origin_host :: "byte list"
  origin_port :: "byte list"
  origin_resolution :: "addrinfo list"
  origin_buffer :: buffer
  origin_copy :: "copy_st option"
  c_atyp :: byte
  stm :: state_machine
  closed :: bool

section \<open>Accessors of the union\<close>

definition the_greeting :: "socks5 \<Rightarrow> greeting_st option" where
  "the_greeting c = (case client c of U_greeting g \<Rightarrow> Some g | _ \<Rightarrow> None)"

definition the_auth :: "socks5 \<Rightarrow> auth_st option" where
  "the_auth c = (case client c of U_auth a \<Rightarrow> Some a | _ \<Rightarrow> None)"

definition the_request :: "socks5 \<Rightarrow> request_st option" where
  "the_request c = (case client c of U_request r \<Rightarrow> Some r | _ \<Rightarrow> None)"

definition the_reply :: "socks5 \<Rightarrow> reply_st option" where
  "the_reply c = (case client c of U_reply r \<Rightarrow> Some r | _ \<Rightarrow> None)"

definition set_rep :: "byte \<Rightarrow> socks5 \<Rightarrow> socks5" where
  "set_rep r c = c\<lparr>client := U_reply
     (case client c of U_reply rp \<Rightarrow> rp\<lparr>rep := r\<rparr> | _ \<Rightarrow> \<lparr>rep = r, found_bnd_info = None\<rparr>)\<rparr>"

lemmas unions = the_greeting_def the_auth_def the_request_def the_reply_def set_rep_def

section \<open>Reading into and writing from a buffer\<close>

text \<open>
  \<open>p = buffer_write_ptr (b, &count); readn = recv (fd, p, count, 0)\<close>, before the pointer is
  advanced; \<open>readn\<close> is \<open>-1\<close> on an error.
\<close>

definition recv_into :: "'w os \<Rightarrow> int \<Rightarrow> buffer \<Rightarrow> 'w \<Rightarrow> (int \<times> buffer \<times> 'w) option" where
  "recv_into os fd b w = do {
     (p, count) \<leftarrow> buffer_write_ptr b;
     (case os_recv os fd count w of
        (SysErr _, w) \<Rightarrow> Some (- 1, b, w)
      | (SysOk bs, w) \<Rightarrow> Some (int (length bs), buffer_land b bs, w))
   }"

text \<open>\<open>p = buffer_read_ptr (b, &n); written = send (fd, p, n, 0)\<close>\<close>

definition send_from :: "'w os \<Rightarrow> int \<Rightarrow> buffer \<Rightarrow> 'w \<Rightarrow> (int \<times> 'w) option" where
  "send_from os fd b w = do {
     (p, n) \<leftarrow> buffer_read_ptr b;
     (case os_send os fd (buffer_window b) w of
        (SysErr _, w) \<Rightarrow> Some (- 1, w)
      | (SysOk k, w) \<Rightarrow> Some (int k, w))
   }"

text \<open>\<open>for (i = 0; i < n; i++) arr[i] = buffer_read (b)\<close>\<close>

definition read_into :: "nat \<Rightarrow> byte list \<Rightarrow> buffer \<Rightarrow> (byte list \<times> buffer) option" where
  "read_into n arr b = do {
     (cs, b) \<leftarrow> buffer_read_n n b;
     c_assert (n \<le> length arr);
     Some (store_at 0 cs arr, b)
   }"

lemma recv_cases [consumes 2, case_names err got]:
  assumes "os_ok os" "buffer_inv b"
  obtains (err) e w' where "os_recv os fd (buffer_room b) w = (SysErr e, w')"
      "recv_into os fd b w = Some (- 1, b, w')"
    | (got) bs w' b1 b2 where "os_recv os fd (buffer_room b) w = (SysOk bs, w')"
      "recv_into os fd b w = Some (int (length bs), b1, w')"
      "buffer_write_adv b1 (int (length bs)) = Some b2" "buffer_inv b2"
      "buffer_window b2 = buffer_window b @ bs" "b_limit b2 = b_limit b"
      "length bs \<le> buffer_room b" "buffer_room b2 = buffer_room b - length bs"
proof (cases "os_recv os fd (buffer_room b) w")
  case (Pair r w')
  show ?thesis
  proof (cases r)
    case (SysErr e)
    with Pair err assms show ?thesis by (simp add: recv_into_def write_ptr_eq)
  next
    case (SysOk bs)
    have len: "length bs \<le> buffer_room b"
      using os_recvD[OF assms(1)] Pair SysOk by blast
    with land_adv_spec[OF assms(2) len] got[of bs w' "buffer_land b bs"] Pair SysOk assms show ?thesis
      by (fastforce simp: recv_into_def write_ptr_eq)
  qed
qed

lemma send_cases [consumes 2, case_names err sent]:
  assumes "os_ok os" "buffer_inv b"
  obtains (err) e w' where "os_send os fd (buffer_window b) w = (SysErr e, w')"
      "send_from os fd b w = Some (- 1, w')"
    | (sent) k w' b' where "os_send os fd (buffer_window b) w = (SysOk k, w')"
      "send_from os fd b w = Some (int k, w')" "k \<le> length (buffer_window b)"
      "buffer_read_adv b (int k) = Some b'" "buffer_inv b'"
      "buffer_window b' = drop k (buffer_window b)" "b_limit b' = b_limit b"
proof (cases "os_send os fd (buffer_window b) w")
  case (Pair r w')
  show ?thesis
  proof (cases r)
    case (SysErr e)
    with Pair err assms show ?thesis by (simp add: send_from_def read_ptr_eq)
  next
    case (SysOk k)
    have len: "k \<le> length (buffer_window b)"
      using os_sendD[OF assms(1)] Pair SysOk by blast
    with read_adv_spec[OF assms(2) len] sent[of k w'] Pair SysOk assms show ?thesis
      by (fastforce simp: send_from_def read_ptr_eq)
  qed
qed

lemma read_into_avail:
  assumes "buffer_inv b" "n \<le> length (buffer_window b)" "n \<le> length arr"
  obtains b' where "read_into n arr b = Some (store_at 0 (take n (buffer_window b)) arr, b')" "buffer_inv b'"
    "buffer_window b' = drop n (buffer_window b)" "b_limit b' = b_limit b" "buffer_room b \<le> buffer_room b'"
proof -
  obtain b' where "buffer_read_n n b = Some (take n (buffer_window b), b')" "buffer_inv b'"
      "buffer_window b' = drop n (buffer_window b)" "b_limit b' = b_limit b" "buffer_room b \<le> buffer_room b'"
    using bb.get_n_avail[OF assms(1,2)] by metis
  with that assms(3) show ?thesis by (simp add: read_into_def)
qed

text \<open>The two-byte answers of the handlers.\<close>

lemma write_two:
  assumes "buffer_inv b" "buffer_window b = []" "2 \<le> b_limit b"
  obtains b1 b2 where "buffer_write b x = Some b1" "buffer_write b1 y = Some b2" "buffer_inv b2"
    "buffer_window b2 = [x, y]" "b_limit b2 = b_limit b"
proof -
  have "length [x, y] \<le> b_limit b" using assms(3) by simp
  from bb.put_all_drained[OF assms(1,2) this] obtain b2 where b2: "buffer_write_all [x, y] b = Some b2"
      "buffer_inv b2" "buffer_window b2 = [x, y]" "b_limit b2 = b_limit b" .
  obtain b1 where "buffer_write b x = Some b1" "buffer_write b1 y = Some b2"
    using b2(1) by (auto elim!: bind_SomeE)
  with b2(2-4) show ?thesis by (rule that[rotated 2])
qed

section \<open>Interests from a handler\<close>

text \<open>What a call of \<open>selector_set_interest\<close> whose status is ignored leaves.\<close>

definition poke :: "int \<Rightarrow> fd_interest \<Rightarrow> ('w, 'm) env_scheme \<Rightarrow> ('w, 'm) env_scheme" where
  "poke fd i e = (if sel_entry e fd = None then e else with_interest fd i e)"

lemma set_interest_poke:
  assumes "registry_ok e"
  obtains st where "selector_set_interest fd i e = Some (st, poke fd i e)"
proof (cases "sel_entry e fd")
  case None
  with set_interest_full[of e fd i] assms that show ?thesis by (simp add: poke_def)
next
  case (Some it)
  with set_interest_full[of e fd i] assms that show ?thesis by (simp add: poke_def)
qed

lemma set_interest_key_poke:
  assumes "registry_ok e"
  obtains st where "selector_set_interest_key k i e = Some (st, poke (k_fd k) i e)"
proof (cases "INVALID_FD (k_fd k)")
  case True
  then have "sel_entry e (k_fd k) = None"
    using assms entry_valid(5)[of e "k_fd k"] by (cases "sel_entry e (k_fd k)") auto
  with True that show ?thesis by (simp add: selector_set_interest_key_def poke_def)
next
  case False
  with set_interest_poke[OF assms, of "k_fd k" i] that show ?thesis
    by (auto simp: selector_set_interest_key_def)
qed

lemma poke_simps [simp]:
  "e_users (poke fd i e) = e_users e" "e_metrics (poke fd i e) = e_metrics e"
  "e_threads (poke fd i e) = e_threads e" "e_calls (poke fd i e) = e_calls e" "e_world (poke fd i e) = e_world e"
  "env.more (poke fd i e) = env.more e" "resolution_jobs (poke fd i e) = resolution_jobs e"
  by (simp_all add: poke_def with_interest_def)

lemma registry_poke [simp]: "registry_ok e \<Longrightarrow> registry_ok (poke fd i e)"
  using inv_with_interest[of e fd _ i] by (auto simp: poke_def)

lemma entry_poke:
  "sel_entry (poke fd i e) = (case sel_entry e fd of None \<Rightarrow> sel_entry e
     | Some it \<Rightarrow> (sel_entry e)(fd \<mapsto> it\<lparr>it_interest := i\<rparr>))"
  using entry_with_interest[of e fd _ i] by (auto simp: poke_def split: option.splits)

text \<open>The interest of a registered descriptor.\<close>

definition interest_of :: "('h, 'd, 'm) fdselector_scheme \<Rightarrow> int \<Rightarrow> fd_interest option" where
  "interest_of s fd = map_option it_interest (sel_entry s fd)"

lemma interest_poke:
  "interest_of (poke fd i e) fd' =
     (if fd' = fd then map_option (\<lambda>_. i) (interest_of e fd) else interest_of e fd')"
  by (auto simp: interest_of_def entry_poke split: option.splits)

lemma set_interest_status:
  assumes "registry_ok e"
  shows "selector_set_interest fd i e =
    Some (if sel_entry e fd = None then SELECTOR_IARGS else SELECTOR_SUCCESS, poke fd i e)"
  using set_interest_full[of e fd i] assms by (cases "sel_entry e fd") (auto simp: poke_def)

lemma entry_poke_None: "sel_entry (poke fd i e) fd' = None \<longleftrightarrow> sel_entry e fd' = None"
  by (auto simp: entry_poke split: option.splits)

text \<open>Fields outside the selector do not matter to the registry.\<close>

lemma sel_inv_ext [simp]:
  "sel_inv (e\<lparr>e_users := u\<rparr>) = sel_inv e" "sel_inv (e\<lparr>e_metrics := m\<rparr>) = sel_inv e"
  "sel_inv (e\<lparr>e_threads := t\<rparr>) = sel_inv e" "sel_inv (e\<lparr>e_calls := l\<rparr>) = sel_inv e" "sel_inv (e\<lparr>e_world := w\<rparr>) = sel_inv e"
  "sel_full (e\<lparr>e_users := u\<rparr>) = sel_full e" "sel_full (e\<lparr>e_metrics := m\<rparr>) = sel_full e"
  "sel_full (e\<lparr>e_threads := t\<rparr>) = sel_full e" "sel_full (e\<lparr>e_calls := l\<rparr>) = sel_full e" "sel_full (e\<lparr>e_world := w\<rparr>) = sel_full e"
  by (simp_all add: sel_inv_def sel_full_def items_ok_def max_ok_def wants_def sel_entry_def)

lemma sel_entry_ext [simp]:
  "sel_entry (e\<lparr>e_users := u\<rparr>) fd = sel_entry e fd" "sel_entry (e\<lparr>e_metrics := m\<rparr>) fd = sel_entry e fd"
  "sel_entry (e\<lparr>e_threads := t\<rparr>) fd = sel_entry e fd" "sel_entry (e\<lparr>e_calls := l\<rparr>) fd = sel_entry e fd"
  "sel_entry (e\<lparr>e_world := w\<rparr>) fd = sel_entry e fd"
  by (simp_all add: sel_entry_def)

lemma poke_world: "poke fd i (e\<lparr>e_world := w\<rparr>) = (poke fd i e)\<lparr>e_world := w\<rparr>"
  by (simp add: poke_def with_interest_def)

lemma poke_metrics: "poke fd i (e\<lparr>e_metrics := m\<rparr>) = (poke fd i e)\<lparr>e_metrics := m\<rparr>"
  by (simp add: poke_def with_interest_def)

lemma interest_of_ext [simp]:
  "interest_of (e\<lparr>e_users := u\<rparr>) fd = interest_of e fd" "interest_of (e\<lparr>e_metrics := m\<rparr>) fd = interest_of e fd"
  "interest_of (e\<lparr>e_threads := t\<rparr>) fd = interest_of e fd" "interest_of (e\<lparr>e_calls := l\<rparr>) fd = interest_of e fd"
  "interest_of (e\<lparr>e_world := w\<rparr>) fd = interest_of e fd"
  by (simp_all add: interest_of_def)

section \<open>Invariant of a connection\<close>

definition bufs_ok :: "socks5 \<Rightarrow> bool" where
  "bufs_ok c \<longleftrightarrow> buffer_inv (client_buffer c) \<and> b_limit (client_buffer c) = BUFFER_SIZE
     \<and> buffer_inv (origin_buffer c) \<and> b_limit (origin_buffer c) = BUFFER_SIZE"

definition env_ok :: "('w, 'm) env_scheme \<Rightarrow> bool" where
  "env_ok e \<longleftrightarrow> sel_inv e \<and> sel_full e \<and> users_ok (e_users e)"

lemma env_ok_registry: "env_ok e \<Longrightarrow> registry_ok e"
  by (simp add: env_ok_def)

lemma env_ok_ext [simp]:
  "env_ok (e\<lparr>e_metrics := m\<rparr>) = env_ok e" "env_ok (e\<lparr>e_threads := t\<rparr>) = env_ok e" "env_ok (e\<lparr>e_calls := l\<rparr>) = env_ok e"
  "env_ok (e\<lparr>e_world := w\<rparr>) = env_ok e"
  "env_ok (e\<lparr>e_users := u\<rparr>) = (registry_ok e \<and> users_ok u)"
  by (auto simp: env_ok_def)

lemma env_ok_poke [simp]: "env_ok e \<Longrightarrow> env_ok (poke fd i e)"
  using registry_poke[of e fd i] by (simp add: env_ok_def)

end
