(* ===== verification/Greeting.thy ===== *)
theory Greeting
  imports Connection
begin

text \<open>
  The \<open>GREETING\<close> state (\<open>src/server/states/greeting.c\<close>): the client's version and method list is
  read, in as many pieces as it arrives, and answered.
\<close>

section \<open>The handlers\<close>

abbreviation (input) NO_AUTH_METHOD :: byte where "NO_AUTH_METHOD \<equiv> 0"
abbreviation (input) AUTH_METHOD :: byte where "AUTH_METHOD \<equiv> 2"
abbreviation (input) AUTH_METHOD_INVALID :: byte where "AUTH_METHOD_INVALID \<equiv> 255"

type_synonym ('w, 'm) hstate = "socks5 \<times> ('w, 'm) env_scheme"
type_synonym ('w, 'm) handler = "key \<Rightarrow> ('w, 'm) hstate \<Rightarrow> (nat \<times> ('w, 'm) hstate) option"

definition greeting_arrival :: "'w os \<Rightarrow> nat \<Rightarrow> key \<Rightarrow> ('w, 'm) hstate \<Rightarrow> ('w, 'm) hstate option" where
  "greeting_arrival os st key = (\<lambda>(c, e).
     Some (c\<lparr>client := U_greeting \<lparr>g_state = VER_N_NMETHODS, g_n_methods = hd (os_uninit os 1 (e_world e)),
             g_method = NO_AUTH_METHOD\<rparr>\<rparr>, e))"

text \<open>The loop over the offered methods: the method chosen, and whether 0x02 was found.\<close>

fun scan_methods :: "nat \<Rightarrow> byte \<Rightarrow> buffer \<Rightarrow> (byte \<times> bool \<times> buffer) option" where
  "scan_methods 0 chosen b = Some (chosen, False, b)"
| "scan_methods (Suc n) chosen b =
     (if \<not> buffer_can_read b then Some (chosen, False, b)
      else do {
        (method, b) \<leftarrow> buffer_read b;
        (if method = AUTH_METHOD then Some (AUTH_METHOD, True, b)
         else scan_methods n
           (if method = NO_AUTH_METHOD \<and> chosen \<noteq> AUTH_METHOD then NO_AUTH_METHOD else chosen) b)
      })"

text \<open>The second half of \<open>greeting_read\<close>, in state \<open>METHODS\<close>.\<close>

definition greeting_methods :: "('w, 'm) handler" where
  "greeting_methods key = (\<lambda>(c, e). do {
     g \<leftarrow> the_greeting c;
     (p, toRead) \<leftarrow> buffer_read_ptr (client_buffer c);
     (if toRead < unat (g_n_methods g) then Some (GREETING, c, e)
      else do {
        (chosen, found, cb) \<leftarrow> scan_methods (unat (g_n_methods g)) (g_method g) (client_buffer c);
        let chosen = (if chosen = NO_AUTH_METHOD \<and> \<not> found then AUTH_METHOD_INVALID else chosen);
        ob \<leftarrow> buffer_write (origin_buffer c) SOCKS5_VERSION;
        ob \<leftarrow> buffer_write ob chosen;
        (st, e) \<leftarrow> selector_set_interest_key key OP_WRITE e;
        Some (GREETING, c\<lparr>client := U_greeting (g\<lparr>g_method := chosen\<rparr>), client_buffer := cb,
                          origin_buffer := ob\<rparr>, e)
      })
   })"

definition greeting_read :: "'w os \<Rightarrow> ('w, 'm) handler" where
  "greeting_read os key = (\<lambda>(c, e). do {
     (readn, cb, w) \<leftarrow> recv_into os (k_fd key) (client_buffer c) (e_world e);
     let e = e\<lparr>e_world := w\<rparr>;
     (if readn < 0 then Some (ERROR, c\<lparr>client_buffer := cb\<rparr>, e)
      else do {
        cb \<leftarrow> buffer_write_adv cb readn;
        let c = c\<lparr>client_buffer := cb\<rparr>;
        (p, toRead) \<leftarrow> buffer_read_ptr cb;
        (if toRead = 0 then Some (DONE, c, e)
         else do {
           g \<leftarrow> the_greeting c;
           (if g_state g = VER_N_NMETHODS then
              (if toRead < 2 then Some (GREETING, c, e)
               else do {
                 (ver, cb) \<leftarrow> buffer_read cb;
                 (if ver \<noteq> SOCKS5_VERSION then Some (ERROR, c\<lparr>client_buffer := cb\<rparr>, e)
                  else do {
                    (n, cb) \<leftarrow> buffer_read cb;
                    let c = c\<lparr>client_buffer := cb, client := U_greeting (g\<lparr>g_n_methods := n\<rparr>)\<rparr>;
                    (if n = 0 then Some (ERROR, c, e)
                     else greeting_methods key
                       (c\<lparr>client := U_greeting (g\<lparr>g_n_methods := n, g_state := METHODS\<rparr>)\<rparr>, e))
                  })
               })
            else greeting_methods key (c, e))
         })
      })
   })"

definition greeting_write :: "'w os \<Rightarrow> ('w, 'm) handler" where
  "greeting_write os key = (\<lambda>(c, e). do {
     (written, w) \<leftarrow> send_from os (client_fd c) (origin_buffer c) (e_world e);
     let e = e\<lparr>e_world := w\<rparr>;
     (if written < 0 then Some (ERROR, c, e)
      else do {
        ob \<leftarrow> buffer_read_adv (origin_buffer c) written;
        let c = c\<lparr>origin_buffer := ob\<rparr>;
        (p, n) \<leftarrow> buffer_write_ptr ob;
        (if buffer_can_read ob then Some (GREETING, c, e)
         else do {
           g \<leftarrow> the_greeting c;
           (st, e) \<leftarrow> selector_set_interest_key key OP_READ e;
           Some (if g_method g = AUTH_METHOD then AUTH else REQUEST, c, e)
         })
      })
   })"

section \<open>The method scan\<close>

text \<open>The bytes left after the scan: the loop stops at the first 0x02.\<close>

definition after_methods :: "nat \<Rightarrow> byte list \<Rightarrow> byte list" where
  "after_methods n bs =
     (if AUTH_METHOD \<in> set (take n bs) then drop (Suc (length (takeWhile (\<lambda>m. m \<noteq> AUTH_METHOD) bs))) bs
      else drop n bs)"

lemma scan_methods_spec:
  assumes "buffer_inv b" "n \<le> length (buffer_window b)" "chosen = NO_AUTH_METHOD"
  shows "\<exists>b'. scan_methods n chosen b =
      Some (if AUTH_METHOD \<in> set (take n (buffer_window b)) then AUTH_METHOD else NO_AUTH_METHOD,
            AUTH_METHOD \<in> set (take n (buffer_window b)), b')
    \<and> buffer_inv b' \<and> buffer_window b' = after_methods n (buffer_window b) \<and> b_limit b' = b_limit b"
  using assms
proof (induction n arbitrary: b)
  case 0
  then show ?case by (simp add: after_methods_def)
next
  case (Suc n)
  obtain x xs where w: "buffer_window b = x # xs"
    using Suc.prems(2) by (cases "buffer_window b") auto
  obtain b1 where b1: "buffer_read b = Some (x, b1)" "buffer_inv b1" "buffer_window b1 = xs" "b_limit b1 = b_limit b"
    using buffer_read_spec[OF Suc.prems(1)] w by auto
  have can: "buffer_can_read b" using can_read_iff[OF Suc.prems(1)] w by simp
  show ?case
  proof (cases "x = AUTH_METHOD")
    case True
    with can b1 w show ?thesis by (simp add: after_methods_def)
  next
    case False
    then have "after_methods (Suc n) (x # xs) = after_methods n xs"
      by (auto simp: after_methods_def)
    with False can b1 w Suc.IH[of b1] Suc.prems show ?thesis by auto
  qed
qed

section \<open>What the state does\<close>

text \<open>A reading of the bytes collected so far: what the greeting decides on them.\<close>

datatype greet_result =
    Greet_wait "byte list"
  | Greet_wait_methods byte "byte list"
  | Greet_refuse
  | Greet_answer byte "byte list"

definition greet_methods :: "byte \<Rightarrow> byte list \<Rightarrow> greet_result" where
  "greet_methods n bs =
     (if length bs < unat n then Greet_wait_methods n bs
      else Greet_answer (if AUTH_METHOD \<in> set (take (unat n) bs) then AUTH_METHOD else AUTH_METHOD_INVALID)
             (after_methods (unat n) bs))"

fun greet :: "byte list \<Rightarrow> greet_result" where
  "greet (v # n # bs) = (if v \<noteq> SOCKS5_VERSION \<or> n = 0 then Greet_refuse else greet_methods n bs)"
| "greet bs = Greet_wait bs"

definition greet_from :: "greeting_st \<Rightarrow> byte list \<Rightarrow> greet_result" where
  "greet_from g bs = (if g_state g = VER_N_NMETHODS then greet bs else greet_methods (g_n_methods g) bs)"

text \<open>How a result shows in the connection and the environment.\<close>

definition greeted :: "greet_result \<Rightarrow> key \<Rightarrow> socks5 \<Rightarrow> ('w, 'm) env_scheme \<Rightarrow> nat \<Rightarrow> socks5 \<Rightarrow> ('w, 'm) env_scheme \<Rightarrow> bool" where
  "greeted r key c e q c' e' \<longleftrightarrow>
     (case r of
        Greet_wait bs \<Rightarrow> q = GREETING \<and> client c' = client c \<and> buffer_window (client_buffer c') = bs
          \<and> origin_buffer c' = origin_buffer c \<and> e' = e
      | Greet_wait_methods n bs \<Rightarrow> q = GREETING \<and> buffer_window (client_buffer c') = bs
          \<and> (\<exists>g. client c' = U_greeting g \<and> g_state g = METHODS \<and> g_n_methods g = n \<and> g_method g = NO_AUTH_METHOD)
          \<and> origin_buffer c' = origin_buffer c \<and> e' = e
      | Greet_refuse \<Rightarrow> q = ERROR \<and> origin_buffer c' = origin_buffer c \<and> e' = e
      | Greet_answer m bs \<Rightarrow> q = GREETING \<and> buffer_window (client_buffer c') = bs
          \<and> (\<exists>g. client c' = U_greeting g \<and> g_method g = m)
          \<and> buffer_window (origin_buffer c') = [SOCKS5_VERSION, m] \<and> e' = poke (k_fd key) OP_WRITE e)"

lemma greeting_methods_spec:
  assumes "bufs_ok c" "registry_ok e" "client c = U_greeting g" "g_method g = NO_AUTH_METHOD" "g_state g = METHODS"
    and "buffer_window (origin_buffer c) = []"
  shows "\<exists>q c' e'. greeting_methods key (c, e) = Some (q, c', e') \<and> bufs_ok c'
    \<and> greeted (greet_methods (g_n_methods g) (buffer_window (client_buffer c))) key c e q c' e'"
proof (cases "length (buffer_window (client_buffer c)) < unat (g_n_methods g)")
  case True
  with assms show ?thesis
    by (auto simp: greeting_methods_def the_greeting_def greeted_def greet_methods_def bufs_ok_def read_ptr_eq)
next
  case False
  let ?w = "buffer_window (client_buffer c)" and ?n = "unat (g_n_methods g)"
  define m where "m = (if AUTH_METHOD \<in> set (take ?n ?w) then AUTH_METHOD else AUTH_METHOD_INVALID)"
  obtain cb where cb: "scan_methods ?n (g_method g) (client_buffer c) =
      Some (if AUTH_METHOD \<in> set (take ?n ?w) then AUTH_METHOD else NO_AUTH_METHOD,
            AUTH_METHOD \<in> set (take ?n ?w), cb)"
      "buffer_inv cb" "buffer_window cb = after_methods ?n ?w" "b_limit cb = b_limit (client_buffer c)"
    using scan_methods_spec[of "client_buffer c" ?n "g_method g"] assms False by (auto simp: bufs_ok_def)
  obtain o1 ob where ob: "buffer_write (origin_buffer c) SOCKS5_VERSION = Some o1" "buffer_write o1 m = Some ob"
      "buffer_inv ob" "buffer_window ob = [SOCKS5_VERSION, m]" "b_limit ob = b_limit (origin_buffer c)"
    using write_two[of "origin_buffer c" SOCKS5_VERSION m] assms(1,6) unfolding bufs_ok_def by auto
  obtain st where st: "selector_set_interest_key key OP_WRITE e = Some (st, poke (k_fd key) OP_WRITE e)"
    using set_interest_key_poke[OF assms(2)] .
  have "greeting_methods key (c, e) = Some (GREETING, c\<lparr>client := U_greeting (g\<lparr>g_method := m\<rparr>),
      client_buffer := cb, origin_buffer := ob\<rparr>, poke (k_fd key) OP_WRITE e)"
    using False cb(1) ob(1,2) st assms(1,3)
    by (cases "AUTH_METHOD \<in> set (take ?n ?w)")
      (simp_all add: greeting_methods_def the_greeting_def bufs_ok_def read_ptr_eq m_def)
  with cb ob assms(1) False show ?thesis
    by (auto simp: greeted_def greet_methods_def bufs_ok_def m_def)
qed

text \<open>A greeting in progress: no answer yet.\<close>

definition greeting_ready :: "socks5 \<Rightarrow> greeting_st \<Rightarrow> bool" where
  "greeting_ready c g \<longleftrightarrow> bufs_ok c \<and> client c = U_greeting g \<and> g_method g = NO_AUTH_METHOD
     \<and> buffer_window (origin_buffer c) = []"

lemma greeting_body_spec:
  assumes c: "greeting_ready c g" and e: "registry_ok e" and w: "buffer_window (client_buffer c) = v # n # bs"
    and st: "g_state g = VER_N_NMETHODS" and v: "v = SOCKS5_VERSION" "n \<noteq> 0"
    and cb: "buffer_read (client_buffer c) = Some (v, cb1)" "buffer_read cb1 = Some (n, cb)"
      "buffer_inv cb" "buffer_window cb = bs" "b_limit cb = BUFFER_SIZE"
  shows "\<exists>q c' e'. greeting_methods key
      (c\<lparr>client_buffer := cb, client := U_greeting (g\<lparr>g_n_methods := n, g_state := METHODS\<rparr>)\<rparr>, e)
      = Some (q, c', e') \<and> bufs_ok c' \<and> greeted (greet (v # n # bs)) key c e q c' e'"
proof -
  let ?g = "g\<lparr>g_n_methods := n, g_state := METHODS\<rparr>"
  let ?c = "c\<lparr>client_buffer := cb, client := U_greeting ?g\<rparr>"
  have "bufs_ok ?c" "client ?c = U_greeting ?g" "buffer_window (origin_buffer ?c) = []"
    using c cb(3,5) by (auto simp: greeting_ready_def bufs_ok_def)
  then obtain q c' e' where "greeting_methods key (?c, e) = Some (q, c', e')" "bufs_ok c'"
      "greeted (greet_methods n bs) key ?c e q c' e'"
    using greeting_methods_spec[of ?c e ?g key] e c cb(4) by (auto simp: greeting_ready_def)
  moreover have "greeted (greet_methods n bs) key ?c e q c' e' \<longleftrightarrow> greeted (greet_methods n bs) key c e q c' e'"
    by (simp add: greeted_def greet_methods_def)
  ultimately show ?thesis using v by auto
qed

lemma greeting_read_spec:
  assumes os: "os_ok os" and c: "greeting_ready c g" and e: "registry_ok e"
  shows "\<exists>q c' e'. greeting_read os key (c, e) = Some (q, c', e') \<and> bufs_ok c'
    \<and> (case os_recv os (k_fd key) (buffer_room (client_buffer c)) (e_world e) of
         (SysErr _, w) \<Rightarrow> q = ERROR \<and> c' = c \<and> e' = e\<lparr>e_world := w\<rparr>
       | (SysOk bs, w) \<Rightarrow>
           if buffer_window (client_buffer c) @ bs = [] then q = DONE \<and> e' = e\<lparr>e_world := w\<rparr>
           else greeted (greet_from g (buffer_window (client_buffer c) @ bs)) key c (e\<lparr>e_world := w\<rparr>) q c' e')"
proof -
  have b: "buffer_inv (client_buffer c)" "b_limit (client_buffer c) = BUFFER_SIZE" "bufs_ok c"
    and g: "client c = U_greeting g"
    using c by (auto simp: greeting_ready_def bufs_ok_def)
  from os b(1) show ?thesis
  proof (cases rule: recv_cases[where fd = "k_fd key" and w = "e_world e"])
    case (err x w)
    with c b show ?thesis by (auto simp: greeting_read_def bufs_ok_def)
  next
    case (got bs w b1 b2)
    let ?e = "e\<lparr>e_world := w\<rparr>" and ?c = "c\<lparr>client_buffer := b2\<rparr>"
    define all where "all = buffer_window (client_buffer c) @ bs"
    have b2: "buffer_window b2 = all" using got by (simp add: all_def)
    have ready: "greeting_ready ?c g" using c got b by (auto simp: greeting_ready_def bufs_ok_def)
    then have bufs: "bufs_ok ?c" by (simp add: greeting_ready_def)
    have ge: "greeted r key ?c ?e q c' e' = greeted r key c ?e q c' e'" for r q c' e'
      by (cases r) (simp_all add: greeted_def)
    have rg: "registry_ok ?e" using e by simp
    have start: "greeting_read os key (c, e) =
       (if all = [] then Some (DONE, ?c, ?e)
        else if g_state g = VER_N_NMETHODS then
              (if length all < 2 then Some (GREETING, ?c, ?e)
               else do {
                 (ver, cb) \<leftarrow> buffer_read b2;
                 (if ver \<noteq> SOCKS5_VERSION then Some (ERROR, ?c\<lparr>client_buffer := cb\<rparr>, ?e)
                  else do {
                    (n, cb) \<leftarrow> buffer_read cb;
                    (if n = 0 then Some (ERROR, ?c\<lparr>client_buffer := cb, client := U_greeting (g\<lparr>g_n_methods := n\<rparr>)\<rparr>, ?e)
                     else greeting_methods key
                       (?c\<lparr>client_buffer := cb, client := U_greeting (g\<lparr>g_n_methods := n, g_state := METHODS\<rparr>)\<rparr>, ?e))
                  })
               })
            else greeting_methods key (?c, ?e))"
      using got(2,3) read_ptr_eq[OF got(4)] b2 g
      by (simp add: greeting_read_def the_greeting_def Let_def cong: prod.case_cong if_cong)
    have goal: "\<exists>q c' e'. greeting_read os key (c, e) = Some (q, c', e') \<and> bufs_ok c'
      \<and> (if all = [] then q = DONE \<and> e' = ?e else greeted (greet_from g all) key ?c ?e q c' e')"
    proof (cases "all = []")
      case True
      with start bufs show ?thesis by simp
    next
      case ne: False
      show ?thesis
      proof (cases "g_state g")
        case METHODS
        then show ?thesis
          using start ne greeting_methods_spec[of ?c ?e g key] ready rg b2
          by (simp add: greeting_ready_def greet_from_def)
      next
        case ver: VER_N_NMETHODS
        show ?thesis
        proof (cases "length all < 2")
          case True
          then obtain x where "all = [x]"
            using ne by (cases all) (auto simp: Suc_less_eq numeral_2_eq_2)
          with True ver bufs b2 show ?thesis
            unfolding start by (simp add: greet_from_def greeted_def)
        next
          case False
          then obtain v n rest where w: "all = v # n # rest"
            by (cases all; cases "tl all") auto
          obtain cb1 where cb1: "buffer_read b2 = Some (v, cb1)" "buffer_inv cb1"
              "buffer_window cb1 = n # rest" "b_limit cb1 = b_limit b2"
            using buffer_read_spec[OF got(4)] b2 w by auto
          obtain cb where cb: "buffer_read cb1 = Some (n, cb)" "buffer_inv cb"
              "buffer_window cb = rest" "b_limit cb = b_limit cb1"
            using buffer_read_spec[OF cb1(2)] cb1(3) by auto
          have bufs2: "bufs_ok (?c\<lparr>client_buffer := cb1\<rparr>)" "bufs_ok (?c\<lparr>client_buffer := cb, client := U_greeting y\<rparr>)" for y
            using cb1 cb bufs by (auto simp: bufs_ok_def)
          have body: "v = SOCKS5_VERSION \<Longrightarrow> n \<noteq> 0 \<Longrightarrow> \<exists>q c' e'. greeting_methods key
              (?c\<lparr>client_buffer := cb, client := U_greeting (g\<lparr>g_n_methods := n, g_state := METHODS\<rparr>)\<rparr>, ?e)
              = Some (q, c', e') \<and> bufs_ok c' \<and> greeted (greet (v # n # rest)) key ?c ?e q c' e'"
            using greeting_body_spec[OF ready rg _ ver, of v n rest cb1 cb key] w b2 got(6) cb cb1 b(2) by simp
          show ?thesis
          proof (cases "v = SOCKS5_VERSION \<and> n \<noteq> 0")
            case True
            with body ver w cb1(1) cb(1) show ?thesis
              unfolding start by (simp add: greet_from_def)
          next
            case False
            then show ?thesis
              using ver w cb1(1) cb(1) bufs2
              unfolding start by (auto simp: greet_from_def greeted_def)
          qed
        qed
      qed
    qed
    then show ?thesis unfolding got(1) all_def ge by simp
  qed
qed

text \<open>
  Writing the answer. Once it is sent, only the method 0x02 leads to the authentication; every
  other answer, the refusal 0xFF included, leads to the request.
\<close>

lemma greeting_write_spec:
  assumes os: "os_ok os" and c: "bufs_ok c" "client c = U_greeting g" and e: "registry_ok e"
  shows "\<exists>q c' e'. greeting_write os key (c, e) = Some (q, c', e') \<and> bufs_ok c' \<and> client c' = client c
    \<and> client_buffer c' = client_buffer c
    \<and> (case os_send os (client_fd c) (buffer_window (origin_buffer c)) (e_world e) of
         (SysErr _, w) \<Rightarrow> q = ERROR \<and> e' = e\<lparr>e_world := w\<rparr>
       | (SysOk k, w) \<Rightarrow> buffer_window (origin_buffer c') = drop k (buffer_window (origin_buffer c))
           \<and> (if k < length (buffer_window (origin_buffer c)) then q = GREETING \<and> e' = e\<lparr>e_world := w\<rparr>
              else q = (if g_method g = AUTH_METHOD then AUTH else REQUEST)
                \<and> e' = poke (k_fd key) OP_READ (e\<lparr>e_world := w\<rparr>)))"
proof -
  have b: "buffer_inv (origin_buffer c)" using c by (simp add: bufs_ok_def)
  from os b show ?thesis
  proof (cases rule: send_cases[where fd = "client_fd c" and w = "e_world e"])
    case (err x w)
    with c show ?thesis by (simp add: greeting_write_def)
  next
    case (sent k w ob)
    have bufs: "bufs_ok (c\<lparr>origin_buffer := ob\<rparr>)" using c sent by (auto simp: bufs_ok_def)
    obtain st where st: "selector_set_interest_key key OP_READ (e\<lparr>e_world := w\<rparr>) =
        Some (st, poke (k_fd key) OP_READ (e\<lparr>e_world := w\<rparr>))"
      using set_interest_key_poke[of "e\<lparr>e_world := w\<rparr>" key OP_READ] e by auto
    have can: "buffer_can_read ob \<longleftrightarrow> k < length (buffer_window (origin_buffer c))"
      using can_read_iff[OF sent(5)] sent(6) by (simp add: not_le)
    show ?thesis
      using sent c(2) bufs st write_ptr_eq[OF sent(5)]
      by (cases "buffer_can_read ob") (simp_all add: greeting_write_def the_greeting_def Let_def can)
  qed
qed

end
