(* ===== verification/Auth.thy ===== *)
theory Auth
  imports Greeting
begin

text \<open>
  The \<open>AUTH\<close> state (\<open>src/server/states/auth.c\<close>): username/password sub-negotiation (RFC 1929).
  \<open>auth_read\<close> is one function in the source, a chain of tests on the inner state that fall
  through to the next; here it is one definition per test, each calling the next.

  The reference is \<open>auth_parse\<close>, a parser of the whole message: the state keeps the message
  read so far (\<open>auth_seen\<close>), and decides exactly as the reference does on it, however the bytes
  were split over the reads.
\<close>

section \<open>The handlers\<close>

abbreviation (input) AUTH_VERSION :: byte where "AUTH_VERSION \<equiv> 1"
abbreviation (input) AUTH_SUCCESS :: byte where "AUTH_SUCCESS \<equiv> 0"
abbreviation (input) AUTH_FAILURE :: byte where "AUTH_FAILURE \<equiv> 1"

definition auth_arrival :: "'w os \<Rightarrow> nat \<Rightarrow> key \<Rightarrow> ('w, 'm) hstate \<Rightarrow> ('w, 'm) hstate option" where
  "auth_arrival os st key = (\<lambda>(c, e).
     let junk = os_uninit os 512 (e_world e) in
     Some (c\<lparr>client := U_auth \<lparr>a_state = AUTH_VER, a_ulen = 0, a_plen = 0,
             a_username = take 256 junk, a_password = drop 256 junk, a_authenticated = False\<rparr>\<rparr>, e))"

definition auth_passwd :: "nat \<Rightarrow> ('w, 'm) handler" where
  "auth_passwd toRead key = (\<lambda>(c, e). do {
     a \<leftarrow> the_auth c;
     (if a_state a = AUTH_PASSWD then
        (if toRead < unat (a_plen a) then Some (AUTH, c, e)
         else do {
           (pw, cb) \<leftarrow> read_into (unat (a_plen a)) (a_password a) (client_buffer c);
           pw \<leftarrow> c_set pw (unat (a_plen a)) 0;
           (status, db) \<leftarrow> user_authenticate (e_users e) (a_username a) pw;
           let ok = (case status of USER_BADUSERNAME \<Rightarrow> a_authenticated a
                     | USER_WRONGPASSWORD \<Rightarrow> a_authenticated a | _ \<Rightarrow> True);
           let a = a\<lparr>a_password := pw, a_authenticated := ok\<rparr>;
           ob \<leftarrow> buffer_write (origin_buffer c) AUTH_VERSION;
           ob \<leftarrow> buffer_write ob (if a_authenticated a then AUTH_SUCCESS else AUTH_FAILURE);
           (st, e) \<leftarrow> selector_set_interest_key key OP_WRITE (e\<lparr>e_users := db\<rparr>);
           Some (AUTH, c\<lparr>client := U_auth a, client_buffer := cb, origin_buffer := ob\<rparr>, e)
         })
      else Some (AUTH, c, e))
   })"

definition auth_plen :: "nat \<Rightarrow> ('w, 'm) handler" where
  "auth_plen toRead key = (\<lambda>(c, e). do {
     a \<leftarrow> the_auth c;
     (if a_state a = AUTH_PLEN then
        (if toRead < 1 then Some (AUTH, c, e)
         else do {
           (n, cb) \<leftarrow> buffer_read (client_buffer c);
           let c = c\<lparr>client_buffer := cb, client := U_auth (a\<lparr>a_plen := n\<rparr>)\<rparr>;
           (if n = 0 \<or> unat n > 255 then Some (ERROR, c, e)
            else auth_passwd (toRead - 1) key
              (c\<lparr>client := U_auth (a\<lparr>a_plen := n, a_state := AUTH_PASSWD\<rparr>)\<rparr>, e))
         })
      else auth_passwd toRead key (c, e))
   })"

definition auth_uname :: "nat \<Rightarrow> ('w, 'm) handler" where
  "auth_uname toRead key = (\<lambda>(c, e). do {
     a \<leftarrow> the_auth c;
     (if a_state a = AUTH_UNAME then
        (if toRead < unat (a_ulen a) then Some (AUTH, c, e)
         else do {
           (un, cb) \<leftarrow> read_into (unat (a_ulen a)) (a_username a) (client_buffer c);
           un \<leftarrow> c_set un (unat (a_ulen a)) 0;
           auth_plen (toRead - unat (a_ulen a)) key
             (c\<lparr>client_buffer := cb, client := U_auth (a\<lparr>a_username := un, a_state := AUTH_PLEN\<rparr>)\<rparr>, e)
         })
      else auth_plen toRead key (c, e))
   })"

definition auth_ulen :: "nat \<Rightarrow> ('w, 'm) handler" where
  "auth_ulen toRead key = (\<lambda>(c, e). do {
     a \<leftarrow> the_auth c;
     (if a_state a = AUTH_ULEN then
        (if toRead < 1 then Some (AUTH, c, e)
         else do {
           (n, cb) \<leftarrow> buffer_read (client_buffer c);
           let c = c\<lparr>client_buffer := cb, client := U_auth (a\<lparr>a_ulen := n\<rparr>)\<rparr>;
           (if n = 0 \<or> unat n > 255 then Some (ERROR, c, e)
            else auth_uname (toRead - 1) key
              (c\<lparr>client := U_auth (a\<lparr>a_ulen := n, a_state := AUTH_UNAME\<rparr>)\<rparr>, e))
         })
      else auth_uname toRead key (c, e))
   })"

definition auth_ver :: "nat \<Rightarrow> ('w, 'm) handler" where
  "auth_ver toRead key = (\<lambda>(c, e). do {
     a \<leftarrow> the_auth c;
     (if a_state a = AUTH_VER then
        (if toRead < 1 then Some (AUTH, c, e)
         else do {
           (ver, cb) \<leftarrow> buffer_read (client_buffer c);
           let c = c\<lparr>client_buffer := cb\<rparr>;
           (if ver \<noteq> AUTH_VERSION then Some (ERROR, c, e)
            else auth_ulen (toRead - 1) key (c\<lparr>client := U_auth (a\<lparr>a_state := AUTH_ULEN\<rparr>)\<rparr>, e))
         })
      else auth_ulen toRead key (c, e))
   })"

definition auth_read :: "'w os \<Rightarrow> ('w, 'm) handler" where
  "auth_read os key = (\<lambda>(c, e). do {
     (readn, cb, w) \<leftarrow> recv_into os (k_fd key) (client_buffer c) (e_world e);
     let e = e\<lparr>e_world := w\<rparr>;
     (if readn < 0 then Some (ERROR, c\<lparr>client_buffer := cb\<rparr>, e)
      else do {
        cb \<leftarrow> buffer_write_adv cb readn;
        let c = c\<lparr>client_buffer := cb\<rparr>;
        (p, toRead) \<leftarrow> buffer_read_ptr cb;
        (if toRead = 0 then Some (DONE, c, e) else auth_ver toRead key (c, e))
      })
   })"

definition auth_write :: "'w os \<Rightarrow> ('w, 'm) handler" where
  "auth_write os key = (\<lambda>(c, e). do {
     (written, w) \<leftarrow> send_from os (client_fd c) (origin_buffer c) (e_world e);
     let e = e\<lparr>e_world := w\<rparr>;
     ob \<leftarrow> buffer_read_adv (origin_buffer c) written;
     let c = c\<lparr>origin_buffer := ob\<rparr>;
     (if written < 0 then Some (ERROR, c, e)
      else if buffer_can_read ob then Some (AUTH, c, e)
      else do {
        a \<leftarrow> the_auth c;
        (if \<not> a_authenticated a then Some (ERROR, c, e)
         else do {
           (st, e) \<leftarrow> selector_set_interest_key key OP_READ e;
           Some (REQUEST, c, e)
         })
      })
   })"

section \<open>The reference parser\<close>

datatype auth_result = Auth_wait | Auth_refuse | Auth_done "byte list" "byte list" "byte list"

definition parse_passwd :: "byte list \<Rightarrow> byte \<Rightarrow> byte list \<Rightarrow> auth_result" where
  "parse_passwd u m bs =
     (if length bs < unat m then Auth_wait else Auth_done u (take (unat m) bs) (drop (unat m) bs))"

fun parse_plen :: "byte list \<Rightarrow> byte list \<Rightarrow> auth_result" where
  "parse_plen u [] = Auth_wait"
| "parse_plen u (m # bs) = (if m = 0 then Auth_refuse else parse_passwd u m bs)"

definition parse_uname :: "byte \<Rightarrow> byte list \<Rightarrow> auth_result" where
  "parse_uname n bs =
     (if length bs < unat n then Auth_wait else parse_plen (take (unat n) bs) (drop (unat n) bs))"

fun parse_ulen :: "byte list \<Rightarrow> auth_result" where
  "parse_ulen [] = Auth_wait"
| "parse_ulen (n # bs) = (if n = 0 then Auth_refuse else parse_uname n bs)"

fun auth_parse :: "byte list \<Rightarrow> auth_result" where
  "auth_parse [] = Auth_wait"
| "auth_parse (v # bs) = (if v \<noteq> AUTH_VERSION then Auth_refuse else parse_ulen bs)"

text \<open>A whole message, as a client writes it.\<close>

definition auth_message :: "byte list \<Rightarrow> byte list \<Rightarrow> byte list" where
  "auth_message u p = AUTH_VERSION # of_nat (length u) # u @ of_nat (length p) # p"

lemma unat_of_nat_byte: "n \<le> 255 \<Longrightarrow> unat (of_nat n :: byte) = n"
  by (simp add: unat_of_nat)

lemma auth_parse_message:
  assumes "0 < length u" "length u \<le> 255" "0 < length p" "length p \<le> 255"
  shows "auth_parse (auth_message u p @ rest) = Auth_done u p rest"
proof -
  have "(of_nat (length u) :: byte) \<noteq> 0" "(of_nat (length p) :: byte) \<noteq> 0"
    using assms unat_of_nat_byte by (metis not_less_zero unat_0)+
  with assms show ?thesis
    by (simp add: auth_message_def parse_uname_def parse_passwd_def unat_of_nat_byte)
qed

text \<open>Cut anywhere before its end, the message is not decided.\<close>

lemma auth_parse_prefix:
  assumes "0 < length u" "length u \<le> 255" "0 < length p" "length p \<le> 255"
    and "n < length (auth_message u p)"
  shows "auth_parse (take n (auth_message u p)) = Auth_wait"
proof -
  have nz: "(of_nat (length u) :: byte) \<noteq> 0" "(of_nat (length p) :: byte) \<noteq> 0"
    using assms unat_of_nat_byte by (metis not_less_zero unat_0)+
  consider "n = 0" | "n = 1" | k where "n = Suc (Suc k)" "k \<le> length u" | k where "n = Suc (Suc (length u + Suc k))"
  proof (cases "n \<le> Suc (Suc (length u))")
    case True
    then show ?thesis using that by (cases n; cases "n - 1") auto
  next
    case False
    then have "n = Suc (Suc (length u + Suc (n - length u - 3)))" by simp
    then show ?thesis by (rule that(4))
  qed
  then show ?thesis
  proof cases
    case 3
    with nz assms show ?thesis
      by (cases "k = length u") (auto simp: auth_message_def parse_uname_def unat_of_nat_byte)
  next
    case 4
    then have "k < length p" using assms(5) by (simp add: auth_message_def)
    with 4 nz assms show ?thesis
      by (auto simp: auth_message_def parse_uname_def parse_passwd_def unat_of_nat_byte)
  qed (simp_all add: auth_message_def)
qed

section \<open>The state as a message prefix\<close>

definition auth_consumed :: "auth_st \<Rightarrow> byte list" where
  "auth_consumed a =
     (let u = take (unat (a_ulen a)) (a_username a) in
      case a_state a of
        AUTH_VER \<Rightarrow> []
      | AUTH_ULEN \<Rightarrow> [AUTH_VERSION]
      | AUTH_UNAME \<Rightarrow> [AUTH_VERSION, a_ulen a]
      | AUTH_PLEN \<Rightarrow> AUTH_VERSION # a_ulen a # u
      | AUTH_PASSWD \<Rightarrow> AUTH_VERSION # a_ulen a # u @ [a_plen a])"

definition auth_pending :: "auth_st \<Rightarrow> bool" where
  "auth_pending a \<longleftrightarrow> length (a_username a) = 256 \<and> length (a_password a) = 256
     \<and> \<not> a_authenticated a
     \<and> (a_state a \<in> {AUTH_UNAME, AUTH_PLEN, AUTH_PASSWD} \<longrightarrow> a_ulen a \<noteq> 0)
     \<and> (a_state a \<in> {AUTH_PLEN, AUTH_PASSWD} \<longrightarrow> a_username a ! unat (a_ulen a) = 0)
     \<and> (a_state a = AUTH_PASSWD \<longrightarrow> a_plen a \<noteq> 0)"

definition auth_seen :: "socks5 \<Rightarrow> auth_st \<Rightarrow> byte list" where
  "auth_seen c a = auth_consumed a @ buffer_window (client_buffer c)"

definition auth_from :: "auth_st \<Rightarrow> byte list \<Rightarrow> auth_result" where
  "auth_from a bs =
     (let u = take (unat (a_ulen a)) (a_username a) in
      case a_state a of
        AUTH_VER \<Rightarrow> auth_parse bs
      | AUTH_ULEN \<Rightarrow> parse_ulen bs
      | AUTH_UNAME \<Rightarrow> parse_uname (a_ulen a) bs
      | AUTH_PLEN \<Rightarrow> parse_plen u bs
      | AUTH_PASSWD \<Rightarrow> parse_passwd u (a_plen a) bs)"

lemma byte_le_255: "unat (x::byte) \<le> 255"
  using unsigned_less[of x, where ?'a = nat] by simp

lemma auth_from_seen:
  assumes "auth_pending a"
  shows "auth_parse (auth_consumed a @ bs) = auth_from a bs"
proof -
  have "length (take (unat (a_ulen a)) (a_username a)) = unat (a_ulen a)"
    using assms byte_le_255[of "a_ulen a"] by (simp add: auth_pending_def)
  with assms show ?thesis
    by (cases "a_state a") (auto simp: auth_consumed_def auth_from_def auth_pending_def parse_uname_def Let_def)
qed

text \<open>What a decision does to the connection and the environment.\<close>

definition auth_rest :: "socks5 \<Rightarrow> socks5 \<Rightarrow> bool" where
  "auth_rest c c' \<longleftrightarrow> client_fd c' = client_fd c \<and> client_addr c' = client_addr c \<and> origin_fd c' = origin_fd c
     \<and> origin_host c' = origin_host c \<and> origin_port c' = origin_port c
     \<and> origin_resolution c' = origin_resolution c \<and> origin_copy c' = origin_copy c
     \<and> c_atyp c' = c_atyp c \<and> stm c' = stm c \<and> closed c' = closed c"

definition authed :: "auth_result \<Rightarrow> byte list \<Rightarrow> key \<Rightarrow> socks5 \<Rightarrow> ('w, 'm) env_scheme \<Rightarrow> nat \<Rightarrow> socks5 \<Rightarrow> ('w, 'm) env_scheme \<Rightarrow> bool" where
  "authed r tot key c e q c' e' \<longleftrightarrow> bufs_ok c' \<and>
     (case r of
        Auth_wait \<Rightarrow> q = AUTH \<and> (\<exists>a. client c' = U_auth a \<and> auth_pending a \<and> auth_seen c' a = tot)
          \<and> origin_buffer c' = origin_buffer c \<and> e' = e
      | Auth_refuse \<Rightarrow> q = ERROR \<and> origin_buffer c' = origin_buffer c \<and> e' = e
      | Auth_done u p rest \<Rightarrow> q = AUTH \<and> buffer_window (client_buffer c') = rest
          \<and> (\<exists>a. client c' = U_auth a \<and> a_authenticated a = credentials_ok (e_users e) u p)
          \<and> buffer_window (origin_buffer c') =
              [AUTH_VERSION, if credentials_ok (e_users e) u p then AUTH_SUCCESS else AUTH_FAILURE]
          \<and> (\<exists>db. same_users (e_users e) db \<and> e' = poke (k_fd key) OP_WRITE (e\<lparr>e_users := db\<rparr>)))"

section \<open>The stages implement the reference\<close>

definition stage_rest :: "socks5 \<Rightarrow> socks5 \<Rightarrow> bool" where
  "stage_rest c c' \<longleftrightarrow> auth_rest c c' \<and> buffer_room (client_buffer c) \<le> buffer_room (client_buffer c')"

lemma byte_fits: "length arr = 256 \<Longrightarrow> unat (x :: byte) < length arr"
  using byte_le_255[of x] by simp

lemma field_avail:
  assumes "buffer_inv b" "n \<le> length (buffer_window b)" "n < length arr"
  obtains x b' where "read_into n arr b = Some (x, b')"
    "c_set x n 0 = Some (take n (buffer_window b) @ 0 # drop (Suc n) arr)"
    "buffer_inv b'" "buffer_window b' = drop n (buffer_window b)" "b_limit b' = b_limit b"
    "buffer_room b \<le> buffer_room b'"
proof -
  obtain b' where b': "read_into n arr b = Some (store_at 0 (take n (buffer_window b)) arr, b')" "buffer_inv b'"
      "buffer_window b' = drop n (buffer_window b)" "b_limit b' = b_limit b" "buffer_room b \<le> buffer_room b'"
    using read_into_avail[OF assms(1,2), of arr] assms(3) by auto
  have len: "length (take n (buffer_window b)) = n" using assms(2) by simp
  have split: "drop n arr = arr ! n # drop (Suc n) arr"
    using assms(3) by (simp add: Cons_nth_drop_Suc)
  have "c_set (store_at 0 (take n (buffer_window b)) arr) n 0 =
      Some (take n (buffer_window b) @ 0 # drop (Suc n) arr)"
    using len assms(3) unfolding c_set_def store_at_def
    by (simp add: split list_update_append)
  with that b' show ?thesis by blast
qed

lemma cstr_field: "cstr (u @ 0 # t) = cstr u"
  by (induction u) auto

lemma terminated_field: "terminated (u @ 0 # t)"
  by (simp add: terminated_def)

lemma credentials_field: "credentials_ok db (u @ 0 # s) (p @ 0 # t) = credentials_ok db u p"
  by (simp add: credentials_ok_def cstr_field cong: option.case_cong)

lemma auth_passwd_spec:
  assumes c: "bufs_ok c" "client c = U_auth a" "auth_pending a" "a_state a = AUTH_PASSWD"
    and e: "env_ok e" and ob: "buffer_window (origin_buffer c) = []"
  shows "\<exists>q c' e'. auth_passwd (length (buffer_window (client_buffer c))) key (c, e) = Some (q, c', e')
    \<and> authed (auth_from a (buffer_window (client_buffer c))) (auth_seen c a) key c e q c' e'
    \<and> stage_rest c c'"
proof (cases "length (buffer_window (client_buffer c)) < unat (a_plen a)")
  case True
  with c show ?thesis
    by (auto simp: auth_passwd_def the_auth_def authed_def auth_from_def parse_passwd_def stage_rest_def auth_rest_def Let_def)
next
  case False
  let ?w = "buffer_window (client_buffer c)" and ?m = "unat (a_plen a)"
  let ?u = "take (unat (a_ulen a)) (a_username a)"
  have b: "buffer_inv (client_buffer c)" using c by (simp add: bufs_ok_def)
  have arr: "length (a_username a) = 256" "length (a_password a) = 256"
    "a_username a ! unat (a_ulen a) = 0" "\<not> a_authenticated a"
    using c by (auto simp: auth_pending_def)
  have m: "?m \<le> length ?w" using False by simp
  obtain x cb where x: "read_into ?m (a_password a) (client_buffer c) = Some (x, cb)"
      "c_set x ?m 0 = Some (take ?m ?w @ 0 # drop (Suc ?m) (a_password a))" "buffer_inv cb"
      "buffer_window cb = drop ?m ?w" "b_limit cb = b_limit (client_buffer c)"
        "buffer_room (client_buffer c) \<le> buffer_room cb"
    using field_avail[OF b m byte_fits[OF arr(2)]] .
  let ?pw = "take ?m ?w @ 0 # drop (Suc ?m) (a_password a)"
  have un: "a_username a = ?u @ 0 # drop (Suc (unat (a_ulen a))) (a_username a)"
    using id_take_nth_drop[of "unat (a_ulen a)" "a_username a"] arr byte_le_255[of "a_ulen a"] by simp
  define ok where "ok = credentials_ok (e_users e) ?u (take ?m ?w)"
  have ok': "ok = credentials_ok (e_users e) (a_username a) ?pw"
    unfolding ok_def by (subst un) (simp add: credentials_field)
  have "terminated (a_username a)" by (subst un) (rule terminated_field)
  then obtain st db where db: "user_authenticate (e_users e) (a_username a) ?pw = Some (st, db)"
      "same_users (e_users e) db" "(case st of USER_BADUSERNAME \<Rightarrow> a_authenticated a
         | USER_WRONGPASSWORD \<Rightarrow> a_authenticated a | _ \<Rightarrow> True) = ok"
    using user_authenticate_spec[of "e_users e" "a_username a" ?pw] e terminated_field arr(4)
    by (fastforce simp: env_ok_def ok' credentials_ok_def split: option.splits)
  obtain o1 ob where o: "buffer_write (origin_buffer c) AUTH_VERSION = Some o1"
      "buffer_write o1 (if ok then AUTH_SUCCESS else AUTH_FAILURE) = Some ob" "buffer_inv ob"
      "buffer_window ob = [AUTH_VERSION, if ok then AUTH_SUCCESS else AUTH_FAILURE]"
      "b_limit ob = b_limit (origin_buffer c)"
    using write_two[of "origin_buffer c" AUTH_VERSION "if ok then AUTH_SUCCESS else AUTH_FAILURE"] ob c(1)
    unfolding bufs_ok_def by auto
  have "registry_ok (e\<lparr>e_users := db\<rparr>)" using e by (simp add: env_ok_def)
  then obtain s2 where s2: "selector_set_interest_key key OP_WRITE (e\<lparr>e_users := db\<rparr>) =
      Some (s2, poke (k_fd key) OP_WRITE (e\<lparr>e_users := db\<rparr>))"
    by (rule set_interest_key_poke)
  have run: "auth_passwd (length ?w) key (c, e) = Some (AUTH,
      c\<lparr>client := U_auth (a\<lparr>a_password := ?pw, a_authenticated := ok\<rparr>), client_buffer := cb, origin_buffer := ob\<rparr>,
      poke (k_fd key) OP_WRITE (e\<lparr>e_users := db\<rparr>))"
    using False c x(1,2) db(1,3) o(1,2) s2 by (simp add: auth_passwd_def the_auth_def Let_def)
  have "bufs_ok (c\<lparr>client := U_auth (a\<lparr>a_password := ?pw, a_authenticated := ok\<rparr>), client_buffer := cb, origin_buffer := ob\<rparr>)"
    using c(1) x o by (auto simp: bufs_ok_def)
  with run x(4,6) o(4) db(2) c(4) False show ?thesis
    by (auto simp: authed_def auth_from_def parse_passwd_def stage_rest_def auth_rest_def ok_def Let_def)
qed

text \<open>The other stages: each hands over to the next with the message seen unchanged.\<close>

lemma authed_chain:
  assumes "authed r tot key c1 e q c' e'" "stage_rest c1 c'" "stage_rest c c1" "origin_buffer c1 = origin_buffer c"
  shows "authed r tot key c e q c' e' \<and> stage_rest c c'"
  using assms by (cases r) (simp_all add: authed_def stage_rest_def auth_rest_def)

lemma auth_plen_spec:
  assumes c: "bufs_ok c" "client c = U_auth a" "auth_pending a" "a_state a \<in> {AUTH_PLEN, AUTH_PASSWD}"
    and e: "env_ok e" and ob: "buffer_window (origin_buffer c) = []"
  shows "\<exists>q c' e'. auth_plen (length (buffer_window (client_buffer c))) key (c, e) = Some (q, c', e')
    \<and> authed (auth_from a (buffer_window (client_buffer c))) (auth_seen c a) key c e q c' e'
    \<and> stage_rest c c'"
proof (cases "a_state a = AUTH_PLEN")
  case False
  with c have "a_state a = AUTH_PASSWD" by simp
  with auth_passwd_spec[OF c(1-3) this e ob, of key] c(2) show ?thesis
    by (simp add: auth_plen_def the_auth_def)
next
  case st: True
  show ?thesis
  proof (cases "buffer_window (client_buffer c)")
    case Nil
    with c st show ?thesis
      by (auto simp: auth_plen_def the_auth_def authed_def auth_from_def stage_rest_def auth_rest_def Let_def)
  next
    case (Cons n w)
    have b: "buffer_inv (client_buffer c)" using c by (simp add: bufs_ok_def)
    obtain cb where cb: "buffer_read (client_buffer c) = Some (n, cb)" "buffer_inv cb" "buffer_window cb = w"
        "b_limit cb = b_limit (client_buffer c)"
        "buffer_room (client_buffer c) \<le> buffer_room cb"
      using buffer_read_spec[OF b] Cons by auto
    show ?thesis
    proof (cases "n = 0")
      case True
      with c cb st Cons show ?thesis
        by (auto simp: auth_plen_def the_auth_def authed_def auth_from_def stage_rest_def auth_rest_def bufs_ok_def Let_def)
    next
      case False
      let ?a = "a\<lparr>a_plen := n, a_state := AUTH_PASSWD\<rparr>"
      let ?c = "c\<lparr>client_buffer := cb, client := U_auth ?a\<rparr>"
      have c1: "bufs_ok ?c" "auth_pending ?a" "stage_rest c ?c"
        using c cb False st by (auto simp: bufs_ok_def auth_pending_def stage_rest_def auth_rest_def)
      obtain q c' e' where r: "auth_passwd (length w) key (?c, e) = Some (q, c', e')"
        "authed (auth_from ?a w) (auth_seen ?c ?a) key ?c e q c' e'" "stage_rest ?c c'"
        using auth_passwd_spec[of ?c ?a e key] c1 e ob cb by auto
      have eq: "auth_seen ?c ?a = auth_seen c a" "auth_from ?a w = auth_from a (n # w)"
        using st cb Cons False by (simp_all add: auth_seen_def auth_consumed_def auth_from_def Let_def)
      have "auth_plen (length (n # w)) key (c, e) = Some (q, c', e')"
        using st c(2) cb(1) False byte_le_255[of n] r(1) by (simp add: auth_plen_def the_auth_def Let_def)
      with authed_chain[OF r(2)[unfolded eq] r(3) c1(3)] Cons show ?thesis by auto
    qed
  qed
qed

lemma auth_uname_spec:
  assumes c: "bufs_ok c" "client c = U_auth a" "auth_pending a" "a_state a \<in> {AUTH_UNAME, AUTH_PLEN, AUTH_PASSWD}"
    and e: "env_ok e" and ob: "buffer_window (origin_buffer c) = []"
  shows "\<exists>q c' e'. auth_uname (length (buffer_window (client_buffer c))) key (c, e) = Some (q, c', e')
    \<and> authed (auth_from a (buffer_window (client_buffer c))) (auth_seen c a) key c e q c' e'
    \<and> stage_rest c c'"
proof (cases "a_state a = AUTH_UNAME")
  case False
  with c have "a_state a \<in> {AUTH_PLEN, AUTH_PASSWD}" by simp
  with auth_plen_spec[OF c(1-3) this e ob, of key] c(2) False show ?thesis
    by (simp add: auth_uname_def the_auth_def)
next
  case st: True
  let ?w = "buffer_window (client_buffer c)" and ?n = "unat (a_ulen a)"
  show ?thesis
  proof (cases "length ?w < ?n")
    case True
    with c st show ?thesis
      by (auto simp: auth_uname_def the_auth_def authed_def auth_from_def parse_uname_def stage_rest_def auth_rest_def Let_def)
  next
    case False
    then have n: "?n \<le> length ?w" by simp
    have b: "buffer_inv (client_buffer c)" "length (a_username a) = 256"
      using c by (auto simp: bufs_ok_def auth_pending_def)
    obtain x cb where x: "read_into ?n (a_username a) (client_buffer c) = Some (x, cb)"
        "c_set x ?n 0 = Some (take ?n ?w @ 0 # drop (Suc ?n) (a_username a))" "buffer_inv cb"
        "buffer_window cb = drop ?n ?w" "b_limit cb = b_limit (client_buffer c)"
        "buffer_room (client_buffer c) \<le> buffer_room cb"
      using field_avail[OF b(1) n byte_fits[OF b(2)]] .
    let ?a = "a\<lparr>a_username := take ?n ?w @ 0 # drop (Suc ?n) (a_username a), a_state := AUTH_PLEN\<rparr>"
    let ?c = "c\<lparr>client_buffer := cb, client := U_auth ?a\<rparr>"
    have len: "length (take ?n ?w) = ?n" "length (take ?n ?w @ 0 # drop (Suc ?n) (a_username a)) = 256"
      using n b(2) byte_le_255[of "a_ulen a"] by (simp_all add: min_def)
    have c1: "bufs_ok ?c" "auth_pending ?a" "stage_rest c ?c"
      using c x st len by (auto simp: bufs_ok_def auth_pending_def stage_rest_def auth_rest_def nth_append)
    obtain q c' e' where r: "auth_plen (length (drop ?n ?w)) key (?c, e) = Some (q, c', e')"
      "authed (auth_from ?a (drop ?n ?w)) (auth_seen ?c ?a) key ?c e q c' e'" "stage_rest ?c c'"
      using auth_plen_spec[of ?c ?a e key] c1 e ob x(4) by auto
    have eq: "auth_seen ?c ?a = auth_seen c a" "auth_from ?a (drop ?n ?w) = auth_from a ?w"
      using st x len False by (simp_all add: auth_seen_def auth_consumed_def auth_from_def parse_uname_def Let_def)
    have "auth_uname (length ?w) key (c, e) = Some (q, c', e')"
      using st c(2) x(1,2) False r(1) by (simp add: auth_uname_def the_auth_def Let_def)
    with authed_chain[OF r(2)[unfolded eq] r(3) c1(3)] show ?thesis by auto
  qed
qed

lemma auth_ulen_spec:
  assumes c: "bufs_ok c" "client c = U_auth a" "auth_pending a" "a_state a \<noteq> AUTH_VER"
    and e: "env_ok e" and ob: "buffer_window (origin_buffer c) = []"
  shows "\<exists>q c' e'. auth_ulen (length (buffer_window (client_buffer c))) key (c, e) = Some (q, c', e')
    \<and> authed (auth_from a (buffer_window (client_buffer c))) (auth_seen c a) key c e q c' e'
    \<and> stage_rest c c'"
proof (cases "a_state a = AUTH_ULEN")
  case False
  with c have "a_state a \<in> {AUTH_UNAME, AUTH_PLEN, AUTH_PASSWD}" by (cases "a_state a") auto
  with auth_uname_spec[OF c(1-3) this e ob, of key] c(2) False show ?thesis
    by (simp add: auth_ulen_def the_auth_def)
next
  case st: True
  show ?thesis
  proof (cases "buffer_window (client_buffer c)")
    case Nil
    with c st show ?thesis
      by (auto simp: auth_ulen_def the_auth_def authed_def auth_from_def stage_rest_def auth_rest_def Let_def)
  next
    case (Cons n w)
    have b: "buffer_inv (client_buffer c)" using c by (simp add: bufs_ok_def)
    obtain cb where cb: "buffer_read (client_buffer c) = Some (n, cb)" "buffer_inv cb" "buffer_window cb = w"
        "b_limit cb = b_limit (client_buffer c)"
        "buffer_room (client_buffer c) \<le> buffer_room cb"
      using buffer_read_spec[OF b] Cons by auto
    show ?thesis
    proof (cases "n = 0")
      case True
      with c cb st Cons show ?thesis
        by (auto simp: auth_ulen_def the_auth_def authed_def auth_from_def stage_rest_def auth_rest_def bufs_ok_def Let_def)
    next
      case False
      let ?a = "a\<lparr>a_ulen := n, a_state := AUTH_UNAME\<rparr>"
      let ?c = "c\<lparr>client_buffer := cb, client := U_auth ?a\<rparr>"
      have c1: "bufs_ok ?c" "auth_pending ?a" "stage_rest c ?c"
        using c cb False st by (auto simp: bufs_ok_def auth_pending_def stage_rest_def auth_rest_def)
      obtain q c' e' where r: "auth_uname (length w) key (?c, e) = Some (q, c', e')"
        "authed (auth_from ?a w) (auth_seen ?c ?a) key ?c e q c' e'" "stage_rest ?c c'"
        using auth_uname_spec[of ?c ?a e key] c1 e ob cb by auto
      have eq: "auth_seen ?c ?a = auth_seen c a" "auth_from ?a w = auth_from a (n # w)"
        using st cb Cons False by (simp_all add: auth_seen_def auth_consumed_def auth_from_def Let_def)
      have "auth_ulen (length (n # w)) key (c, e) = Some (q, c', e')"
        using st c(2) cb(1) False byte_le_255[of n] r(1) by (simp add: auth_ulen_def the_auth_def Let_def)
      with authed_chain[OF r(2)[unfolded eq] r(3) c1(3)] Cons show ?thesis by auto
    qed
  qed
qed

lemma auth_ver_spec:
  assumes c: "bufs_ok c" "client c = U_auth a" "auth_pending a"
    and e: "env_ok e" and ob: "buffer_window (origin_buffer c) = []"
  shows "\<exists>q c' e'. auth_ver (length (buffer_window (client_buffer c))) key (c, e) = Some (q, c', e')
    \<and> authed (auth_parse (auth_seen c a)) (auth_seen c a) key c e q c' e' \<and> stage_rest c c'"
proof -
  have "\<exists>q c' e'. auth_ver (length (buffer_window (client_buffer c))) key (c, e) = Some (q, c', e')
    \<and> authed (auth_from a (buffer_window (client_buffer c))) (auth_seen c a) key c e q c' e' \<and> stage_rest c c'"
  proof (cases "a_state a = AUTH_VER")
    case False
    with auth_ulen_spec[OF c this e ob, of key] c(2) show ?thesis
      by (simp add: auth_ver_def the_auth_def)
  next
    case st: True
    show ?thesis
    proof (cases "buffer_window (client_buffer c)")
      case Nil
      with c st show ?thesis
        by (auto simp: auth_ver_def the_auth_def authed_def auth_from_def stage_rest_def auth_rest_def Let_def)
    next
      case (Cons v w)
      have b: "buffer_inv (client_buffer c)" using c by (simp add: bufs_ok_def)
      obtain cb where cb: "buffer_read (client_buffer c) = Some (v, cb)" "buffer_inv cb" "buffer_window cb = w"
          "b_limit cb = b_limit (client_buffer c)"
        "buffer_room (client_buffer c) \<le> buffer_room cb"
        using buffer_read_spec[OF b] Cons by auto
      show ?thesis
      proof (cases "v = AUTH_VERSION")
        case False
        with c cb st Cons show ?thesis
          by (auto simp: auth_ver_def the_auth_def authed_def auth_from_def stage_rest_def auth_rest_def bufs_ok_def Let_def)
      next
        case True
        let ?a = "a\<lparr>a_state := AUTH_ULEN\<rparr>"
        let ?c = "c\<lparr>client_buffer := cb, client := U_auth ?a\<rparr>"
        have c1: "bufs_ok ?c" "auth_pending ?a" "stage_rest c ?c"
          using c cb st by (auto simp: bufs_ok_def auth_pending_def stage_rest_def auth_rest_def)
        obtain q c' e' where r: "auth_ulen (length w) key (?c, e) = Some (q, c', e')"
          "authed (auth_from ?a w) (auth_seen ?c ?a) key ?c e q c' e'" "stage_rest ?c c'"
          using auth_ulen_spec[of ?c ?a e key] c1 e ob cb by auto
        have eq: "auth_seen ?c ?a = auth_seen c a" "auth_from ?a w = auth_from a (v # w)"
          using st cb Cons True by (simp_all add: auth_seen_def auth_consumed_def auth_from_def Let_def)
        have "auth_ver (length (v # w)) key (c, e) = Some (q, c', e')"
          using st c(2) cb(1) True r(1) by (simp add: auth_ver_def the_auth_def Let_def)
        with authed_chain[OF r(2)[unfolded eq] r(3) c1(3)] Cons show ?thesis by auto
      qed
    qed
  qed
  then show ?thesis using auth_from_seen[OF c(3)] by (simp add: auth_seen_def)
qed

section \<open>A read and a write event\<close>

definition auth_ready :: "socks5 \<Rightarrow> auth_st \<Rightarrow> bool" where
  "auth_ready c a \<longleftrightarrow> bufs_ok c \<and> client c = U_auth a \<and> auth_pending a \<and> buffer_window (origin_buffer c) = []"

lemma auth_read_spec:
  assumes os: "os_ok os" and c: "auth_ready c a" and e: "env_ok e"
  shows "\<exists>q c' e'. auth_read os key (c, e) = Some (q, c', e') \<and> auth_rest c c'
    \<and> (case os_recv os (k_fd key) (buffer_room (client_buffer c)) (e_world e) of
         (SysErr _, w) \<Rightarrow> q = ERROR \<and> c' = c \<and> e' = e\<lparr>e_world := w\<rparr>
       | (SysOk bs, w) \<Rightarrow>
           if buffer_window (client_buffer c) @ bs = [] then q = DONE \<and> bufs_ok c' \<and> e' = e\<lparr>e_world := w\<rparr>
           else authed (auth_parse (auth_seen c a @ bs)) (auth_seen c a @ bs) key c (e\<lparr>e_world := w\<rparr>) q c' e'
             \<and> buffer_room (client_buffer c) - length bs \<le> buffer_room (client_buffer c'))"
proof -
  have b: "buffer_inv (client_buffer c)" "bufs_ok c" "client c = U_auth a" "auth_pending a"
      "buffer_window (origin_buffer c) = []"
    using c by (auto simp: auth_ready_def bufs_ok_def)
  from os b(1) show ?thesis
  proof (cases rule: recv_cases[where fd = "k_fd key" and w = "e_world e"])
    case (err x w)
    then show ?thesis by (simp add: auth_read_def auth_rest_def)
  next
    case (got bs w b1 b2)
    let ?e = "e\<lparr>e_world := w\<rparr>" and ?c = "c\<lparr>client_buffer := b2\<rparr>"
    define all where "all = buffer_window (client_buffer c) @ bs"
    have b2: "buffer_window b2 = all" using got by (simp add: all_def)
    have bufs: "bufs_ok ?c" "auth_rest c ?c" using b got by (auto simp: bufs_ok_def auth_rest_def)
    have seen: "auth_seen ?c a = auth_seen c a @ bs" using b2 by (simp add: auth_seen_def all_def)
    have start: "auth_read os key (c, e) =
        (if all = [] then Some (DONE, ?c, ?e) else auth_ver (length all) key (?c, ?e))"
      using got(2,3) read_ptr_eq[OF got(4)] b2 by (simp add: auth_read_def Let_def)
    show ?thesis
    proof (cases "all = []")
      case True
      then show ?thesis using start bufs got(1) by (simp add: all_def)
    next
      case False
      obtain q c' e' where r: "auth_ver (length (buffer_window (client_buffer ?c))) key (?c, ?e) = Some (q, c', e')"
          "authed (auth_parse (auth_seen ?c a)) (auth_seen ?c a) key ?c ?e q c' e'" "stage_rest ?c c'"
        using auth_ver_spec[of ?c a ?e key] b bufs e by auto
      have "auth_read os key (c, e) = Some (q, c', e')"
        using start False r(1) b2 by simp
      moreover have "authed (auth_parse (auth_seen c a @ bs)) (auth_seen c a @ bs) key c ?e q c' e'"
        using r(2) unfolding seen by (cases "auth_parse (auth_seen c a @ bs)") (simp_all add: authed_def)
      moreover have "auth_rest c c'" "buffer_room (client_buffer c) - length bs \<le> buffer_room (client_buffer c')"
        using r(3) got(8) by (simp_all add: stage_rest_def auth_rest_def)
      ultimately show ?thesis using False got(1) by (auto simp: all_def)
    qed
  qed
qed

lemma auth_write_spec:
  assumes os: "os_ok os" and c: "bufs_ok c" "client c = U_auth a" and e: "registry_ok e"
  shows "\<exists>q c' e'. auth_write os key (c, e) = Some (q, c', e') \<and> bufs_ok c' \<and> client c' = client c
    \<and> client_buffer c' = client_buffer c \<and> auth_rest c c'
    \<and> (case os_send os (client_fd c) (buffer_window (origin_buffer c)) (e_world e) of
         (SysErr _, w) \<Rightarrow> q = ERROR \<and> e' = e\<lparr>e_world := w\<rparr>
       | (SysOk k, w) \<Rightarrow> buffer_window (origin_buffer c') = drop k (buffer_window (origin_buffer c))
           \<and> (if k < length (buffer_window (origin_buffer c)) then q = AUTH \<and> e' = e\<lparr>e_world := w\<rparr>
              else if a_authenticated a then q = REQUEST \<and> e' = poke (k_fd key) OP_READ (e\<lparr>e_world := w\<rparr>)
              else q = ERROR \<and> e' = e\<lparr>e_world := w\<rparr>))"
proof -
  have b: "buffer_inv (origin_buffer c)" using c by (simp add: bufs_ok_def)
  from os b show ?thesis
  proof (cases rule: send_cases[where fd = "client_fd c" and w = "e_world e"])
    case (err x w)
    with c show ?thesis by (simp add: auth_write_def auth_rest_def)
  next
    case (sent k w ob)
    have bufs: "bufs_ok (c\<lparr>origin_buffer := ob\<rparr>)" using c sent by (auto simp: bufs_ok_def)
    obtain st where st: "selector_set_interest_key key OP_READ (e\<lparr>e_world := w\<rparr>) =
        Some (st, poke (k_fd key) OP_READ (e\<lparr>e_world := w\<rparr>))"
      using set_interest_key_poke[of "e\<lparr>e_world := w\<rparr>" key OP_READ] e by auto
    have can: "buffer_can_read ob \<longleftrightarrow> k < length (buffer_window (origin_buffer c))"
      using can_read_iff[OF sent(5)] sent(6) by (simp add: not_le)
    show ?thesis
      using sent c(2) bufs st
      by (cases "buffer_can_read ob"; cases "a_authenticated a")
        (simp_all add: auth_write_def the_auth_def auth_rest_def Let_def can)
  qed
qed

section \<open>However the message is cut\<close>

fun auth_reads :: "'w os \<Rightarrow> key \<Rightarrow> nat \<Rightarrow> ('w, 'm) hstate \<Rightarrow> (nat \<times> ('w, 'm) hstate) option" where
  "auth_reads os key 0 s = Some (AUTH, s)"
| "auth_reads os key (Suc n) s = do {
     (q, s) \<leftarrow> auth_read os key s;
     (if q = AUTH then auth_reads os key n s else Some (q, s))
   }"

text \<open>The system delivers these pieces, one per \<open>recv\<close> that has room for it.\<close>

fun serves :: "'w os \<Rightarrow> int \<Rightarrow> byte list list \<Rightarrow> 'w \<Rightarrow> bool" where
  "serves os fd [] w = True"
| "serves os fd (bs # pieces) w =
     (\<exists>w'. (\<forall>n\<ge>length bs. os_recv os fd n w = (SysOk bs, w')) \<and> serves os fd pieces w')"

lemma auth_reads_pieces:
  assumes os: "os_ok os" and msg: "0 < length u" "length u \<le> 255" "0 < length p" "length p \<le> 255"
  shows "auth_ready c a \<Longrightarrow> env_ok e \<Longrightarrow> serves os (k_fd key) pieces (e_world e) \<Longrightarrow> [] \<notin> set pieces
    \<Longrightarrow> pieces \<noteq> [] \<Longrightarrow> auth_seen c a @ concat pieces = auth_message u p
    \<Longrightarrow> BUFFER_SIZE \<le> buffer_room (client_buffer c) + length (auth_seen c a)
    \<Longrightarrow> \<exists>c' e' a'. auth_reads os key (length pieces) (c, e) = Some (AUTH, c', e')
      \<and> client c' = U_auth a' \<and> a_authenticated a' = credentials_ok (e_users e) u p
      \<and> buffer_window (client_buffer c') = []
      \<and> buffer_window (origin_buffer c') =
          [AUTH_VERSION, if credentials_ok (e_users e) u p then AUTH_SUCCESS else AUTH_FAILURE]"
proof (induction pieces arbitrary: c a e)
  case Nil
  then show ?case by simp
next
  case (Cons bs rest)
  have len: "length (auth_message u p) \<le> 513" using msg by (simp add: auth_message_def)
  have tot: "length (auth_seen c a) + length bs + length (concat rest) = length (auth_message u p)"
    using arg_cong[OF Cons.prems(6), of length] by simp
  obtain w where w: "\<And>n. length bs \<le> n \<Longrightarrow> os_recv os (k_fd key) n (e_world e) = (SysOk bs, w)"
      "serves os (k_fd key) rest w"
    using Cons.prems(3) by auto
  have room: "length bs \<le> buffer_room (client_buffer c)"
    using Cons.prems(7) tot len by linarith
  have ne: "bs \<noteq> []" using Cons.prems(4) by auto
  let ?seen = "auth_seen c a @ bs" and ?e = "e\<lparr>e_world := w\<rparr>"
  obtain q c1 e1 where r: "auth_read os key (c, e) = Some (q, c1, e1)" "auth_rest c c1"
      "authed (auth_parse ?seen) ?seen key c ?e q c1 e1"
      "buffer_room (client_buffer c) - length bs \<le> buffer_room (client_buffer c1)"
    using auth_read_spec[OF os Cons.prems(1,2), of key] w(1)[OF room] ne by auto
  show ?case
  proof (cases "rest = []")
    case True
    then have "auth_parse ?seen = Auth_done u p []"
      using auth_parse_message[OF msg, of "[]"] Cons.prems(6) by simp
    with r(1,3) True show ?thesis by (auto simp: authed_def)
  next
    case False
    then have "0 < length (concat rest)"
      using Cons.prems(4) by (cases rest) auto
    then have less: "length ?seen < length (auth_message u p)"
      using tot unfolding length_append by linarith
    have "?seen @ concat rest = auth_message u p" using Cons.prems(6) by simp
    then have "?seen = take (length ?seen) (auth_message u p)"
      by (rule append_eq_conv_conj[THEN iffD1, THEN conjunct1])
    with auth_parse_prefix[OF msg less] have "auth_parse ?seen = Auth_wait" by metis
    with r(3) obtain a1 where a1: "q = AUTH" "client c1 = U_auth a1" "auth_pending a1" "auth_seen c1 a1 = ?seen"
        "origin_buffer c1 = origin_buffer c" "e1 = ?e" "bufs_ok c1"
      by (auto simp: authed_def)
    have "auth_ready c1 a1" using a1 Cons.prems(1) by (simp add: auth_ready_def)
    moreover have "BUFFER_SIZE \<le> buffer_room (client_buffer c1) + length (auth_seen c1 a1)"
      using r(4) Cons.prems(7) a1(4) room by simp
    ultimately show ?thesis
      using Cons.IH[of c1 a1 e1] Cons.prems w(2) False r(1) a1 by simp
  qed
qed

end
