(* ===== verification/Reply.thy ===== *)
theory Reply
  imports Auth
begin

unbundle bit_operations_syntax

text \<open>
  The \<open>REPLY\<close> state (\<open>src/server/states/reply.c\<close>): the answer to a request, with the bound
  address that \<open>getsockname\<close> reports for the origin's socket, and its transmission.
\<close>

section \<open>The handlers\<close>

abbreviation (input) SUCCEDED :: byte where "SUCCEDED \<equiv> 0"
abbreviation (input) SERVER_FAILURE :: byte where "SERVER_FAILURE \<equiv> 1"
abbreviation (input) CONNECTION_NOT_ALLOWED :: byte where "CONNECTION_NOT_ALLOWED \<equiv> 2"
abbreviation (input) NETWORK_UNREACHABLE :: byte where "NETWORK_UNREACHABLE \<equiv> 3"
abbreviation (input) HOST_UNREACHABLE :: byte where "HOST_UNREACHABLE \<equiv> 4"
abbreviation (input) CONNECTION_REFUSED :: byte where "CONNECTION_REFUSED \<equiv> 5"
abbreviation (input) TTL_EXPIRED :: byte where "TTL_EXPIRED \<equiv> 6"
abbreviation (input) COMMAND_NOT_SUPPORTED :: byte where "COMMAND_NOT_SUPPORTED \<equiv> 7"
abbreviation (input) ADDRESS_TYPE_NOT_SUPPORTED :: byte where "ADDRESS_TYPE_NOT_SUPPORTED \<equiv> 8"
abbreviation (input) INVALID_SOCKS5_VERSION :: byte where "INVALID_SOCKS5_VERSION \<equiv> 9"
abbreviation (input) INVALID_RSV :: byte where "INVALID_RSV \<equiv> 16"
abbreviation (input) INVALID_FQDN_LENGHT :: byte where "INVALID_FQDN_LENGHT \<equiv> 17"

text \<open>The bytes of the address of \<open>getsockname\<close>, and the port in host order.\<close>

fun bnd_address :: "sockaddr \<Rightarrow> byte list" where
  "bnd_address (Sin p a) = IPv4_ADDR # take IPv4_ADDR_LEN a"
| "bnd_address (Sin6 p a) = IPv6_ADDR # take IPv6_ADDR_LEN a"
| "bnd_address (Sother f) = []"

fun bnd_port :: "sockaddr \<Rightarrow> u16" where
  "bnd_port (Sin p a) = ntohs p"
| "bnd_port (Sin6 p a) = ntohs p"
| "bnd_port (Sother f) = 0"

definition reply_arrival :: "'w os \<Rightarrow> nat \<Rightarrow> key \<Rightarrow> ('w, 'm) hstate \<Rightarrow> ('w, 'm) hstate option" where
  "reply_arrival os st key = (\<lambda>(c, e). do {
     r \<leftarrow> the_reply c;
     ob \<leftarrow> buffer_write (origin_buffer c) SOCKS5_VERSION;
     ob \<leftarrow> buffer_write ob (rep r);
     ob \<leftarrow> buffer_write ob RSV;
     (case os_getsockname os (origin_fd c) (e_world e) of
        (SysErr _, w) \<Rightarrow>
          Some (c\<lparr>origin_buffer := ob, client := U_reply (r\<lparr>found_bnd_info := Some False\<rparr>)\<rparr>, e\<lparr>e_world := w\<rparr>)
      | (SysOk localAddr, w) \<Rightarrow> do {
          ob \<leftarrow> buffer_write_all (bnd_address localAddr) ob;
          let bndPort = bnd_port localAddr;
          ob \<leftarrow> buffer_write ob (ucast (drop_bit 8 bndPort AND 0xFF));
          ob \<leftarrow> buffer_write ob (ucast (bndPort AND 0xFF));
          Some (c\<lparr>origin_buffer := ob, client := U_reply (r\<lparr>found_bnd_info := Some True\<rparr>)\<rparr>, e\<lparr>e_world := w\<rparr>)
        })
   })"

text \<open>
  \<open>written\<close> is a \<open>size_t\<close>: after a failed \<open>send\<close> it is \<open>SIZE_MAX\<close>, never negative, and passed to
  \<open>buffer_read_adv\<close> it is \<open>-1\<close> again.
\<close>

definition reply_write :: "'w os \<Rightarrow> ('w, 'm) handler" where
  "reply_write os key = (\<lambda>(c, e). do {
     r \<leftarrow> the_reply c;
     found \<leftarrow> found_bnd_info r;
     (if \<not> found then Some (ERROR, c, e)
      else do {
        (written, w) \<leftarrow> send_from os (client_fd c) (origin_buffer c) (e_world e);
        let e = e\<lparr>e_world := w\<rparr>;
        ob \<leftarrow> buffer_read_adv (origin_buffer c) written;
        let c = c\<lparr>origin_buffer := ob\<rparr>;
        (if uint (word_of_int written :: u64) < 0 then Some (ERROR, c, e)
         else if buffer_can_read ob then Some (REPLY, c, e)
         else if rep r = SUCCEDED then Some (COPY, c, e)
         else do {
           (st, e) \<leftarrow> selector_set_interest (client_fd c) OP_READ e;
           Some (REQUEST, c, e)
         })
      })
   })"

section \<open>What the state does\<close>

text \<open>An address as the kernel fills it in: 4 bytes, or 16.\<close>

fun sockaddr_ok :: "sockaddr \<Rightarrow> bool" where
  "sockaddr_ok (Sin p a) = (length a = IPv4_ADDR_LEN)"
| "sockaddr_ok (Sin6 p a) = (length a = IPv6_ADDR_LEN)"
| "sockaddr_ok (Sother f) = True"

definition names_ok :: "'w os \<Rightarrow> bool" where
  "names_ok os \<longleftrightarrow> (\<forall>fd w a w'. os_getsockname os fd w = (SysOk a, w') \<longrightarrow> sockaddr_ok a)"

text \<open>The reply of RFC 1928 for a bound address: the port as it is on the wire.\<close>

fun bound :: "sockaddr \<Rightarrow> byte list" where
  "bound (Sin p a) = IPv4_ADDR # a @ mem16 p"
| "bound (Sin6 p a) = IPv6_ADDR # a @ mem16 p"
| "bound (Sother f) = [0, 0]"

definition reply_message :: "byte \<Rightarrow> sockaddr \<Rightarrow> byte list" where
  "reply_message r sa = SOCKS5_VERSION # r # RSV # bound sa"

lemma ucast_mask_byte: "ucast (x AND 0xFF :: u16) = (ucast x :: byte)"
proof -
  have "(0xFF :: u16) = mask 8" by (simp add: mask_eq_exp_minus_1)
  moreover have "ucast (take_bit 8 x :: u16) = (ucast x :: byte)"
    by (rule bit_eqI) (auto simp: bit_simps)
  ultimately show ?thesis by (simp only: take_bit_eq_mask)
qed

lemma mem16_ntohs: "[ucast (drop_bit 8 (ntohs p) AND 0xFF), ucast (ntohs p AND 0xFF)] = mem16 p"
proof -
  have "ucast (drop_bit 8 (ntohs p)) = (ucast p :: byte)" "ucast (ntohs p) = (ucast (drop_bit 8 p) :: byte)"
    using mem16_htons[of p] by (simp_all add: mem16_def ntohs_def htons_def)
  then show ?thesis by (simp add: mem16_def ucast_mask_byte)
qed

lemma put_all_append: "put_all put (xs @ ys) b = put_all put xs b \<bind> put_all put ys"
  by (induction xs arbitrary: b) (auto split: bind_split)

lemma put_all_fun:
  "put_all put [] = Some" "put_all put (x # xs) = (\<lambda>b. put b x \<bind> put_all put xs)"
  "put_all put (xs @ ys) = (\<lambda>b. put_all put xs b \<bind> put_all put ys)"
  by (simp_all add: fun_eq_iff put_all_append)

lemma reply_bytes:
  assumes "sockaddr_ok sa"
  shows "bnd_address sa @ [ucast (drop_bit 8 (bnd_port sa) AND 0xFF), ucast (bnd_port sa AND 0xFF)] = bound sa"
  using assms mem16_ntohs by (cases sa) (simp_all add: ucast_mask_byte)

lemma bound_length: "sockaddr_ok sa \<Longrightarrow> length (bound sa) \<le> 19"
  by (cases sa) (simp_all add: mem16_def)

lemma reply_arrival_spec:
  assumes c: "bufs_ok c" "client c = U_reply r" "buffer_window (origin_buffer c) = []"
    and sa: "names_ok os"
  shows "\<exists>c' e'. reply_arrival os st key (c, e) = Some (c', e') \<and> bufs_ok c' \<and> auth_rest c c'
    \<and> client_buffer c' = client_buffer c
    \<and> (case os_getsockname os (origin_fd c) (e_world e) of
         (SysErr _, w) \<Rightarrow> client c' = U_reply (r\<lparr>found_bnd_info := Some False\<rparr>) \<and> e' = e\<lparr>e_world := w\<rparr>
       | (SysOk a, w) \<Rightarrow> client c' = U_reply (r\<lparr>found_bnd_info := Some True\<rparr>) \<and> e' = e\<lparr>e_world := w\<rparr>
           \<and> buffer_window (origin_buffer c') = reply_message (rep r) a)"
proof -
  have b: "buffer_inv (origin_buffer c)" "b_limit (origin_buffer c) = BUFFER_SIZE" using c by (auto simp: bufs_ok_def)
  obtain x w where x: "os_getsockname os (origin_fd c) (e_world e) = (x, w)" by fastforce
  show ?thesis
  proof (cases x)
    case (SysErr n)
    have "length [SOCKS5_VERSION, rep r, RSV] \<le> b_limit (origin_buffer c)" using b by simp
    from bb.put_all_drained[OF b(1) c(3) this] obtain ob where
      "buffer_write_all [SOCKS5_VERSION, rep r, RSV] (origin_buffer c) = Some ob" "buffer_inv ob"
      "b_limit ob = b_limit (origin_buffer c)" .
    then show ?thesis
      using c b x SysErr by (auto simp: reply_arrival_def the_reply_def bufs_ok_def auth_rest_def elim!: bind_SomeE)
  next
    case (SysOk a)
    have ok: "sockaddr_ok a" using sa x SysOk unfolding names_ok_def by blast
    have len: "length (reply_message (rep r) a) \<le> b_limit (origin_buffer c)"
      using bound_length[OF ok] b(2) by (simp add: reply_message_def)
    from bb.put_all_drained[OF b(1) c(3) len] obtain ob where
      ob: "buffer_write_all (reply_message (rep r) a) (origin_buffer c) = Some ob" "buffer_inv ob"
      "buffer_window ob = reply_message (rep r) a" "b_limit ob = b_limit (origin_buffer c)" .
    have "(do { ob \<leftarrow> buffer_write (origin_buffer c) SOCKS5_VERSION;
        ob \<leftarrow> buffer_write ob (rep r);
        ob \<leftarrow> buffer_write ob RSV;
        ob \<leftarrow> buffer_write_all (bnd_address a) ob;
        ob \<leftarrow> buffer_write ob (ucast (drop_bit 8 (bnd_port a) AND 0xFF));
        buffer_write ob (ucast (bnd_port a AND 0xFF)) }) = Some ob"
      using ob(1) unfolding reply_message_def reply_bytes[OF ok, symmetric] by (simp add: put_all_fun)
    then have "reply_arrival os st key (c, e) =
        Some (c\<lparr>origin_buffer := ob, client := U_reply (r\<lparr>found_bnd_info := Some True\<rparr>)\<rparr>, e\<lparr>e_world := w\<rparr>)"
      using c(2) x SysOk by (auto simp: reply_arrival_def the_reply_def Let_def elim!: bind_SomeE)
    with ob x SysOk c(1) show ?thesis by (simp add: bufs_ok_def auth_rest_def)
  qed
qed

lemma u64_nonneg: "\<not> uint (word_of_int k :: u64) < 0"
  by simp

lemma reply_write_spec:
  assumes os: "os_ok os" and c: "bufs_ok c" "client c = U_reply r" "found_bnd_info r = Some found"
    and e: "registry_ok e"
  shows "\<exists>q c' e'. reply_write os key (c, e) = Some (q, c', e') \<and> bufs_ok c' \<and> client c' = client c
    \<and> client_buffer c' = client_buffer c \<and> auth_rest c c'
    \<and> (if \<not> found then q = ERROR \<and> c' = c \<and> e' = e
       else case os_send os (client_fd c) (buffer_window (origin_buffer c)) (e_world e) of
         (SysErr _, w) \<Rightarrow> e_world e' = w \<and> origin_buffer c' = origin_buffer c
           \<and> (buffer_window (origin_buffer c) \<noteq> [] \<longrightarrow> q = REPLY \<and> e' = e\<lparr>e_world := w\<rparr>)
       | (SysOk k, w) \<Rightarrow> buffer_window (origin_buffer c') = drop k (buffer_window (origin_buffer c))
           \<and> (if k < length (buffer_window (origin_buffer c)) then q = REPLY \<and> e' = e\<lparr>e_world := w\<rparr>
              else if rep r = SUCCEDED then q = COPY \<and> e' = e\<lparr>e_world := w\<rparr>
              else q = REQUEST \<and> e' = poke (client_fd c) OP_READ (e\<lparr>e_world := w\<rparr>)))"
proof (cases found)
  case False
  with c show ?thesis by (simp add: reply_write_def the_reply_def auth_rest_def)
next
  case True
  have b: "buffer_inv (origin_buffer c)" using c by (simp add: bufs_ok_def)
  obtain st where st: "selector_set_interest (client_fd c) OP_READ (e\<lparr>e_world := w\<rparr>) =
      Some (st, poke (client_fd c) OP_READ (e\<lparr>e_world := w\<rparr>))" for w
  proof -
    have "registry_ok (e\<lparr>e_world := w\<rparr>)" for w using e by simp
    then have "\<forall>w. selector_set_interest (client_fd c) OP_READ (e\<lparr>e_world := w\<rparr>) =
      Some (if sel_entry e (client_fd c) = None then SELECTOR_IARGS else SELECTOR_SUCCESS,
        poke (client_fd c) OP_READ (e\<lparr>e_world := w\<rparr>))"
      by (simp add: set_interest_status)
    then show thesis using that by blast
  qed
  from os b show ?thesis
  proof (cases rule: send_cases[where fd = "client_fd c" and w = "e_world e"])
    case (err x w)
    then show ?thesis
      using c True st can_read_iff[OF b]
      by (cases "buffer_can_read (origin_buffer c)"; cases "rep r = SUCCEDED")
        (simp_all add: reply_write_def the_reply_def auth_rest_def u64_nonneg Let_def)
  next
    case (sent k w ob)
    have bufs: "bufs_ok (c\<lparr>origin_buffer := ob\<rparr>)" using c sent by (auto simp: bufs_ok_def)
    have can: "buffer_can_read ob \<longleftrightarrow> k < length (buffer_window (origin_buffer c))"
      using can_read_iff[OF sent(5)] sent(6) by (simp add: not_le)
    show ?thesis
      using sent c True bufs st
      by (cases "buffer_can_read ob"; cases "rep r = SUCCEDED")
        (simp_all add: reply_write_def the_reply_def auth_rest_def u64_nonneg Let_def can)
  qed
qed

end
