(* ===== verification/Dial.thy ===== *)
theory Dial
  imports Reply
begin

text \<open>
  Dialling the origin: \<open>src/server/states/connection_utils.c\<close> (one attempt per resolved address,
  in order) and the \<open>CONNECT\<close> state of \<open>src/server/states/connect.c\<close>, which waits for a
  non-blocking \<open>connect\<close> to finish.
\<close>

section \<open>One attempt after the other\<close>

abbreviation (input) GENERAL_FAILURE :: nat where "GENERAL_FAILURE \<equiv> 0"
abbreviation (input) SELECTOR_REGISTER_FAILED :: nat where "SELECTOR_REGISTER_FAILED \<equiv> 1"
abbreviation (input) CONNECTION_IN_PROGRESS :: nat where "CONNECTION_IN_PROGRESS \<equiv> 2"
abbreviation (input) CONNECTION_DONE :: nat where "CONNECTION_DONE \<equiv> 3"

text \<open>The list of results is \<open>NULL\<close> when it is empty: reading its head is undefined.\<close>

definition get_next_resolution :: "socks5 \<Rightarrow> socks5 option" where
  "get_next_resolution c = (case origin_resolution c of
     [] \<Rightarrow> None | r # rest \<Rightarrow> Some (c\<lparr>origin_resolution := rest\<rparr>))"

definition errno_reply :: "nat \<Rightarrow> nat" where
  "errno_reply errno =
     (if errno = ENETUNREACH then unat NETWORK_UNREACHABLE
      else if errno = EHOSTUNREACH then unat HOST_UNREACHABLE
      else if errno = ECONNREFUSED then unat CONNECTION_REFUSED
      else if errno = ETIMEDOUT then unat TTL_EXPIRED
      else GENERAL_FAILURE)"

text \<open>\<open>try_connection\<close>, by recursion on the results still to be tried (\<open>origin_resolution\<close>).\<close>

fun try_results :: "'w os \<Rightarrow> key \<Rightarrow> addrinfo list \<Rightarrow> ('w, 'm) hstate \<Rightarrow> (nat \<times> ('w, 'm) hstate) option" where
  "try_results os key [] s = None"
| "try_results os key (r # rest) (c, e) =
     (case os_socket os (ai_family r) (ai_socktype r) (ai_protocol r) (e_world e) of
        (SysErr _, w) \<Rightarrow> do {
          c \<leftarrow> get_next_resolution (c\<lparr>origin_fd := - 1\<rparr>);
          try_results os key rest (c, e\<lparr>e_world := w\<rparr>)
        }
      | (SysOk fd, w) \<Rightarrow>
          (let c = c\<lparr>origin_fd := fd\<rparr> in
           case selector_fd_set_nio os fd w of (nio, w) \<Rightarrow>
           (if nio = - 1 then do {
              c \<leftarrow> get_next_resolution (c\<lparr>origin_fd := - 1\<rparr>);
              try_results os key rest (c, e\<lparr>e_world := os_close os fd w\<rparr>)
            } else
              case os_connect os fd (ai_addr r) w of
                (SysOk _, w) \<Rightarrow> Some (CONNECTION_DONE, c, e\<lparr>e_world := w\<rparr>)
              | (SysErr errno, w) \<Rightarrow>
                  (if errno = EINPROGRESS then do {
                     (st, e) \<leftarrow> selector_register (fst (os_malloc os w)) fd (Some SOCKS5_HANDLER) OP_WRITE
                        (k_data key) (e\<lparr>e_world := w\<rparr>);
                     Some (if st \<noteq> SELECTOR_SUCCESS then SELECTOR_REGISTER_FAILED else CONNECTION_IN_PROGRESS, c, e)
                   }
                   else if rest \<noteq> [] then do {
                     (st, e) \<leftarrow> selector_unregister_fd_without_closing fd (e\<lparr>e_world := w\<rparr>);
                     c \<leftarrow> get_next_resolution (c\<lparr>origin_fd := - 1\<rparr>);
                     try_results os key rest (c, e\<lparr>e_world := os_close os fd (e_world e)\<rparr>)
                   }
                   else Some (errno_reply errno, c, e\<lparr>e_world := w\<rparr>)))))"

definition try_connection :: "'w os \<Rightarrow> key \<Rightarrow> ('w, 'm) hstate \<Rightarrow> (nat \<times> ('w, 'm) hstate) option" where
  "try_connection os key = (\<lambda>(c, e). try_results os key (origin_resolution c) (c, e))"

section \<open>The access log\<close>

definition print_connection_access_log :: "'w os \<Rightarrow> socks5 \<Rightarrow> access_line option" where
  "print_connection_access_log os c = (case origin_resolution c of
     [] \<Rightarrow> None
   | r # _ \<Rightarrow> Some \<lparr>
       al_client_ip = addr_text os (client_addr c),
       al_client_port = bnd_port (client_addr c),
       al_host = (if c_atyp c = FQDN then Some (cstr (origin_host c)) else None),
       al_version = (if ss_family (ai_addr r) = AF_INET then 4 else 6),
       al_origin_ip = addr_text os (ai_addr r),
       al_origin_port = ntohs (word_of_int (c_atoi (origin_port c)))\<rparr>)"

section \<open>The \<open>CONNECT\<close> state\<close>

text \<open>
  The \<open>switch\<close> over the answer of \<open>try_connection\<close> that \<open>connect_to_dest\<close> and \<open>connect_write\<close>
  share: the reply code to set, or that the attempt goes on. Only a code outside the listed ones
  reaches \<open>default\<close>, the success branch.
\<close>

datatype dial_result = Dial_reply byte | Dial_wait | Dial_success

definition dial_switch :: "nat \<Rightarrow> dial_result" where
  "dial_switch ret =
     (if ret = GENERAL_FAILURE then Dial_reply SERVER_FAILURE
      else if ret = SELECTOR_REGISTER_FAILED then Dial_reply SERVER_FAILURE
      else if ret = unat NETWORK_UNREACHABLE \<or> ret = unat HOST_UNREACHABLE
        \<or> ret = unat CONNECTION_REFUSED \<or> ret = unat TTL_EXPIRED then Dial_reply (of_nat ret)
      else if ret = CONNECTION_IN_PROGRESS then Dial_wait
      else Dial_success)"

definition connect_write :: "'w os \<Rightarrow> ('w, 'm) handler" where
  "connect_write os key = (\<lambda>(c, e).
     case os_so_error os (origin_fd c) (e_world e) of
       (SysErr _, w) \<Rightarrow> do {
         (st, e) \<leftarrow> selector_set_interest (client_fd c) OP_WRITE (e\<lparr>e_world := w\<rparr>);
         Some (REPLY, set_rep SERVER_FAILURE c, e)
       }
     | (SysOk optVal, w) \<Rightarrow>
         (if optVal \<noteq> 0 then do {
            (st, e) \<leftarrow> selector_unregister_fd_without_closing (origin_fd c) (e\<lparr>e_world := w\<rparr>);
            let e = e\<lparr>e_world := os_close os (origin_fd c) (e_world e)\<rparr>;
            let c = c\<lparr>origin_fd := - 1\<rparr>;
            c_assert (origin_resolution c \<noteq> []);
            (if tl (origin_resolution c) = [] then do {
               let ret = 0;
               let c = (if optVal = unat NETWORK_UNREACHABLE \<or> optVal = unat HOST_UNREACHABLE
                           \<or> optVal = unat CONNECTION_REFUSED \<or> optVal = unat TTL_EXPIRED
                        then set_rep ret c else set_rep SERVER_FAILURE c);
               (st, e) \<leftarrow> selector_set_interest (client_fd c) OP_WRITE e;
               Some (REPLY, c, e)
             } else do {
               c \<leftarrow> get_next_resolution c;
               (ret, c, e) \<leftarrow> try_connection os key (c, e);
               (case dial_switch ret of
                  Dial_wait \<Rightarrow> Some (CONNECT, c, e)
                | Dial_reply r \<Rightarrow> do {
                    (st, e) \<leftarrow> selector_set_interest (client_fd c) OP_WRITE e;
                    Some (REPLY, set_rep r c, e)
                  }
                | Dial_success \<Rightarrow> do {
                    line \<leftarrow> print_connection_access_log os c;
                    (st, e) \<leftarrow> selector_set_interest (origin_fd c) OP_NOOP (e\<lparr>e_calls := e_calls e @ [Log_access line]\<rparr>);
                    (st, e) \<leftarrow> selector_set_interest (client_fd c) OP_WRITE e;
                    Some (REPLY, set_rep SUCCEDED c, e)
                  })
             })
          } else do {
            line \<leftarrow> print_connection_access_log os c;
            (st, e) \<leftarrow> selector_set_interest (origin_fd c) OP_NOOP (e\<lparr>e_world := w, e_calls := e_calls e @ [Log_access line]\<rparr>);
            (st, e) \<leftarrow> selector_set_interest (client_fd c) OP_WRITE e;
            Some (REPLY, set_rep SUCCEDED c, e)
          }))"

section \<open>What an attempt answers\<close>

lemma errno_reply_codes: "errno_reply n \<in> {0, 3, 4, 5, 6}"
  by (simp add: errno_reply_def)

text \<open>Whatever the system answers, the result is one of seven codes.\<close>

lemma try_results_codes:
  "try_results os key rs (c, e) = Some (ret, c', e') \<Longrightarrow> ret \<le> 6"
proof (induction rs arbitrary: c e)
  case Nil
  then show ?case by simp
next
  case (Cons r rest)
  have en: "errno_reply n \<le> 6" for n by (simp add: errno_reply_def)
  show ?case
    using Cons.prems en
    by (auto simp: Let_def elim!: bind_SomeE dest: Cons.IH split: sys.splits prod.splits if_splits)
qed

text \<open>
  \<open>CONNECTION_DONE\<close> and \<open>NETWORK_UNREACHABLE\<close> are the same number, and the \<open>switch\<close> tests the
  latter: a connection that \<open>connect\<close> completes at once is reported as unreachable.
\<close>

lemma dial_switch_done: "dial_switch CONNECTION_DONE = Dial_reply NETWORK_UNREACHABLE"
  by (simp add: dial_switch_def)

lemma dial_switch_never_success: "ret \<le> 6 \<Longrightarrow> dial_switch ret \<noteq> Dial_success"
proof -
  assume "ret \<le> 6"
  then have "ret \<in> {0, 1, 2, 3, 4, 5, 6}" by auto
  then show ?thesis by (auto simp: dial_switch_def)
qed

text \<open>Every result the resolver gave is refused a socket: the list runs out and is read anyway.\<close>

lemma try_results_exhausted:
  assumes "\<And>w a b c. \<exists>n w'. os_socket os a b c w = (SysErr n, w')"
  shows "origin_resolution c = rs \<Longrightarrow> try_results os key rs (c, e) = None"
proof (induction rs arbitrary: c e)
  case Nil
  then show ?case by simp
next
  case (Cons r rest)
  obtain n w' where "os_socket os (ai_family r) (ai_socktype r) (ai_protocol r) (e_world e) = (SysErr n, w')"
    using assms by blast
  with Cons show ?case by (simp add: get_next_resolution_def)
qed

section \<open>What dialling keeps\<close>

text \<open>Only the origin's side of the connection changes, and the registry stays consistent.\<close>

definition dial_frame :: "socks5 \<Rightarrow> socks5 \<Rightarrow> bool" where
  "dial_frame c c' \<longleftrightarrow> client_fd c' = client_fd c \<and> client_buffer c' = client_buffer c
     \<and> client_addr c' = client_addr c \<and> client c' = client c \<and> origin_host c' = origin_host c
     \<and> origin_port c' = origin_port c \<and> origin_buffer c' = origin_buffer c \<and> c_atyp c' = c_atyp c
     \<and> stm c' = stm c \<and> closed c' = closed c \<and> origin_copy c' = origin_copy c"

lemma dial_frame_refl [simp]: "dial_frame c c"
  by (simp add: dial_frame_def)

lemma dial_frame_trans: "dial_frame a b \<Longrightarrow> dial_frame b c \<Longrightarrow> dial_frame a c"
  by (simp add: dial_frame_def)

lemma dial_frame_upd [simp]:
  "dial_frame c (c\<lparr>origin_fd := fd\<rparr>)" "dial_frame c (c\<lparr>origin_resolution := rs\<rparr>)"
  "dial_frame c (c\<lparr>origin_fd := fd, origin_resolution := rs\<rparr>)"
  by (simp_all add: dial_frame_def)

lemma registry_world [simp]: "registry_ok (e\<lparr>e_world := w\<rparr>) = registry_ok e"
  by simp

lemma env_frame_world [simp]: "env_ok (e\<lparr>e_world := w\<rparr>) = env_ok e"
  by simp

text \<open>Registering and dropping a descriptor on a full table, as one total function each.\<close>

lemma register_total:
  assumes "registry_ok e"
  obtains st e' where "selector_register m fd (Some h) i d e = Some (st, e')" "registry_ok e'"
    "e_users e' = e_users e" "e_world e' = e_world e"
    "st = SELECTOR_SUCCESS \<Longrightarrow> interest_of e' fd = Some i"
    "\<And>fd'. fd' \<noteq> fd \<Longrightarrow> sel_entry e' fd' = sel_entry e fd'"
proof (cases "INVALID_FD fd")
  case True
  then have "selector_register m fd (Some h) i d e = Some (SELECTOR_IARGS, e)"
    by (simp add: selector_register_def)
  with assms show thesis by (intro that) auto
next
  case False
  then have r: "0 \<le> fd" "nat fd < fd_size e" "fd < int ITEMS_MAX_SIZE"
    using valid_in_full[of e fd] assms by (auto simp: INVALID_FD_def)
  show thesis
  proof (cases "sel_entry e fd")
    case None
    have run: "selector_register m fd (Some h) i d e = Some (SELECTOR_SUCCESS, with_item fd (Some h) i d e)"
      using register_free[OF _ False r(2) None, of "Some h"] assms by blast
    have "registry_ok (with_item fd (Some h) i d e)"
      using inv_with_item[OF _ r(1,3,2), of "Some h"] assms by simp
    moreover have "interest_of (with_item fd (Some h) i d e) fd = Some i"
      "fd' \<noteq> fd \<Longrightarrow> sel_entry (with_item fd (Some h) i d e) fd' = sel_entry e fd'" for fd'
      using entry_with_item[OF r(1,2), of "Some h" i d] by (simp_all add: interest_of_def)
    moreover have "e_users (with_item fd (Some h) i d e) = e_users e" "e_world (with_item fd (Some h) i d e) = e_world e"
      by (simp_all add: with_item_def)
    ultimately show thesis using that[OF run] by simp
  next
    case (Some it)
    with False have "selector_register m fd (Some h) i d e = Some (SELECTOR_FDINUSE, e)"
      by (intro register_busy) auto
    with assms show thesis by (intro that) auto
  qed
qed

lemma unregister_quiet_total:
  assumes "registry_ok e"
  obtains st e' where "selector_unregister_fd_without_closing fd e = Some (st, e')" "registry_ok e'"
    "e_users e' = e_users e" "e_world e' = e_world e"
    "\<And>fd'. fd' \<noteq> fd \<Longrightarrow> sel_entry e' fd' = sel_entry e fd'" "sel_entry e' fd = None"
proof (cases "sel_entry e fd")
  case None
  with assms that show thesis using unregister_quiet_unused[of e fd] by blast
next
  case (Some it)
  have "e_users (without_item fd e) = e_users e" "e_world (without_item fd e) = e_world e"
    by (simp_all add: without_item_def Let_def)
  with Some assms that[of SELECTOR_SUCCESS "without_item fd e"] show thesis
    using unregister_quiet_used[of e fd it] inv_without_item[of e fd it] entry_without_item[of e fd it]
    by auto
qed

text \<open>\<open>socket\<close> never returns a descriptor that is open: here, the client's.\<close>

definition fresh_fds :: "'w os \<Rightarrow> int \<Rightarrow> bool" where
  "fresh_fds os fd0 \<longleftrightarrow> (\<forall>a b p w fd w'. os_socket os a b p w = (SysOk fd, w') \<longrightarrow> fd \<noteq> fd0 \<and> 0 \<le> fd)"

definition dialled :: "socks5 \<Rightarrow> ('w, 'm) env_scheme \<Rightarrow> nat \<Rightarrow> socks5 \<Rightarrow> ('w, 'm) env_scheme \<Rightarrow> bool" where
  "dialled c e ret c' e' \<longleftrightarrow> dial_frame c c' \<and> registry_ok e' \<and> e_users e' = e_users e
     \<and> origin_resolution c' \<noteq> [] \<and> origin_fd c' \<noteq> client_fd c \<and> 0 \<le> origin_fd c'
     \<and> (ret = CONNECTION_IN_PROGRESS \<longrightarrow> interest_of e' (origin_fd c') = Some OP_WRITE)
     \<and> sel_entry e' (client_fd c) = sel_entry e (client_fd c)"

lemma dialled_step:
  assumes "dialled c1 e1 ret c' e'" "dial_frame c c1" "e_users e1 = e_users e"
    "sel_entry e1 (client_fd c) = sel_entry e (client_fd c)"
  shows "dialled c e ret c' e'"
  using assms by (simp add: dialled_def dial_frame_def)

lemma try_results_frame:
  shows "registry_ok e \<Longrightarrow> origin_resolution c = rs \<Longrightarrow> try_results os key rs (c, e) = Some (ret, c', e')
    \<Longrightarrow> fresh_fds os (client_fd c) \<Longrightarrow> dialled c e ret c' e'"
proof (induction rs arbitrary: c e)
  case Nil
  then show ?case by simp
next
  case (Cons r rest)
  have get: "get_next_resolution (c\<lparr>origin_fd := x\<rparr>) = Some (c\<lparr>origin_fd := x, origin_resolution := rest\<rparr>)" for x
    using Cons.prems(2) by (simp add: get_next_resolution_def)
  have IH: "dialled c e ret c' e'"
    if "try_results os key rest (c\<lparr>origin_fd := x, origin_resolution := rest\<rparr>, e1) = Some (ret, c', e')"
      "registry_ok e1" "e_users e1 = e_users e" "sel_entry e1 (client_fd c) = sel_entry e (client_fd c)" for x e1
    using Cons.IH[OF that(2) _ that(1)] Cons.prems(4) dialled_step[OF _ _ that(3,4)] by simp
  obtain x w where sock: "os_socket os (ai_family r) (ai_socktype r) (ai_protocol r) (e_world e) = (x, w)" by fastforce
  show ?case
  proof (cases x)
    case (SysErr n)
    with Cons.prems(1,3) sock get show ?thesis by (intro IH[of "- 1" "e\<lparr>e_world := w\<rparr>"]) simp_all
  next
    case (SysOk fd)
    have fd: "fd \<noteq> client_fd c" "0 \<le> fd" using Cons.prems(4) sock SysOk unfolding fresh_fds_def by blast+
    obtain nio w1 where nio: "selector_fd_set_nio os fd w = (nio, w1)" by fastforce
    show ?thesis
    proof (cases "nio = - 1")
      case True
      with Cons.prems(1,3) sock SysOk nio get show ?thesis
        by (intro IH[of "- 1" "e\<lparr>e_world := os_close os fd w1\<rparr>"]) (simp_all add: Let_def)
    next
      case False
      obtain y w2 where con: "os_connect os fd (ai_addr r) w1 = (y, w2)" by fastforce
      have base: "dialled c e k (c\<lparr>origin_fd := fd\<rparr>) (e\<lparr>e_world := w2\<rparr>)" if "k \<noteq> CONNECTION_IN_PROGRESS" for k
        using that fd Cons.prems(1,2) by (simp add: dialled_def)
      show ?thesis
      proof (cases y)
        case (SysOk u)
        with Cons.prems(3) sock \<open>x = SysOk fd\<close> nio False con base[of CONNECTION_DONE] show ?thesis
          by (simp add: Let_def)
      next
        case (SysErr errno)
        have e2: "registry_ok (e\<lparr>e_world := w2\<rparr>)" using Cons.prems(1) by simp
        show ?thesis
        proof (cases "errno = EINPROGRESS")
          case True
          obtain st e3 where reg: "selector_register (fst (os_malloc os w2)) fd (Some SOCKS5_HANDLER) OP_WRITE
              (k_data key) (e\<lparr>e_world := w2\<rparr>) = Some (st, e3)" "registry_ok e3" "e_users e3 = e_users (e\<lparr>e_world := w2\<rparr>)"
              "st = SELECTOR_SUCCESS \<Longrightarrow> interest_of e3 fd = Some OP_WRITE"
              "\<And>fd'. fd' \<noteq> fd \<Longrightarrow> sel_entry e3 fd' = sel_entry (e\<lparr>e_world := w2\<rparr>) fd'"
            using register_total[OF e2] by metis
          show ?thesis
            using Cons.prems(2,3) sock \<open>x = SysOk fd\<close> nio False con SysErr True reg fd
            by (auto simp: Let_def dialled_def split: if_splits)
        next
          case inprog: False
          show ?thesis
          proof (cases "rest = []")
            case True
            have "errno_reply errno \<noteq> CONNECTION_IN_PROGRESS" using errno_reply_codes[of errno] by auto
            with Cons.prems(3) sock \<open>x = SysOk fd\<close> nio False con SysErr inprog True base show ?thesis
              by (simp add: Let_def)
          next
            case more: False
            obtain st e3 where un: "selector_unregister_fd_without_closing fd (e\<lparr>e_world := w2\<rparr>) = Some (st, e3)"
              "registry_ok e3" "e_users e3 = e_users (e\<lparr>e_world := w2\<rparr>)"
              "\<And>fd'. fd' \<noteq> fd \<Longrightarrow> sel_entry e3 fd' = sel_entry (e\<lparr>e_world := w2\<rparr>) fd'"
              using unregister_quiet_total[OF e2] by metis
            have "try_results os key rest (c\<lparr>origin_fd := - 1, origin_resolution := rest\<rparr>,
                e3\<lparr>e_world := os_close os fd (e_world e3)\<rparr>) = Some (ret, c', e')"
              using Cons.prems(3) sock \<open>x = SysOk fd\<close> nio False con SysErr inprog more un(1) get
              by (simp add: Let_def)
            then show ?thesis by (rule IH) (use un fd in simp_all)
          qed
        qed
      qed
    qed
  qed
qed

lemma try_connection_frame:
  assumes "fresh_fds os (client_fd c)" "registry_ok e" "try_connection os key (c, e) = Some (ret, c', e')"
  shows "dialled c e ret c' e' \<and> ret \<le> 6"
  using try_results_frame[OF assms(2) refl _ assms(1)] try_results_codes assms(3)
  by (auto simp: try_connection_def)

section \<open>What a finished connection attempt answers\<close>

text \<open>
  The last address failed with \<open>SO_ERROR = v\<close>. The code compares the \<open>errno\<close> value with the
  reply codes of SOCKS: every error that a socket reports is a general failure, and the four
  numbers that do match (3 to 6) give the reply code 0, the return value of \<open>getsockopt\<close>.
\<close>

definition so_error_reply :: "nat \<Rightarrow> byte" where
  "so_error_reply v = (if v \<in> {3, 4, 5, 6} then SUCCEDED else SERVER_FAILURE)"

lemma connect_write_failed:
  assumes e: "registry_ok e" and last: "origin_resolution c = [r]"
    and so: "os_so_error os (origin_fd c) (e_world e) = (SysOk v, w)" "v \<noteq> 0"
    and cl: "client c = U_request x"
  shows "\<exists>e' e1. connect_write os key (c, e) = Some (REPLY, c\<lparr>origin_fd := - 1,
        client := U_reply \<lparr>rep = so_error_reply v, found_bnd_info = None\<rparr>\<rparr>, e')
      \<and> e' = poke (client_fd c) OP_WRITE e1 \<and> registry_ok e1 \<and> sel_entry e1 (origin_fd c) = None
      \<and> e_world e' = os_close os (origin_fd c) w"
proof -
  have "registry_ok (e\<lparr>e_world := w\<rparr>)" using e by simp
  then obtain st e1 where u: "selector_unregister_fd_without_closing (origin_fd c) (e\<lparr>e_world := w\<rparr>) = Some (st, e1)"
    "registry_ok e1" "e_world e1 = w" "sel_entry e1 (origin_fd c) = None"
    by (rule unregister_quiet_total) simp
  let ?e1 = "e1\<lparr>e_world := os_close os (origin_fd c) w\<rparr>"
  have e1: "registry_ok ?e1" using u(2) by simp
  have "connect_write os key (c, e) = Some (REPLY, c\<lparr>origin_fd := - 1,
        client := U_reply \<lparr>rep = so_error_reply v, found_bnd_info = None\<rparr>\<rparr>, poke (client_fd c) OP_WRITE ?e1)"
    using so last u cl set_interest_status[OF e1, of "client_fd c" OP_WRITE]
    by (simp add: connect_write_def set_rep_def so_error_reply_def Let_def)
  with e1 u(4) show ?thesis
    by (intro exI[of _ "poke (client_fd c) OP_WRITE ?e1"] exI[of _ ?e1]) simp
qed

text \<open>\<open>SO_ERROR = 0\<close>: success is answered, whichever descriptor's event led here.\<close>

lemma connect_write_done:
  assumes e: "registry_ok e" and so: "os_so_error os (origin_fd c) (e_world e) = (SysOk 0, w)"
    and cl: "client c = U_request x" and l: "print_connection_access_log os c = Some line"
  shows "connect_write os key (c, e) = Some (REPLY,
      c\<lparr>client := U_reply \<lparr>rep = SUCCEDED, found_bnd_info = None\<rparr>\<rparr>,
      poke (client_fd c) OP_WRITE (poke (origin_fd c) OP_NOOP (e\<lparr>e_world := w, e_calls := e_calls e @ [Log_access line]\<rparr>)))"
proof -
  let ?e = "e\<lparr>e_world := w, e_calls := e_calls e @ [Log_access line]\<rparr>"
  have e1: "registry_ok ?e" using e by simp
  have e2: "registry_ok (poke (origin_fd c) OP_NOOP ?e)" using registry_poke[OF e1] .
  show ?thesis
    using so cl l set_interest_status[OF e1, of "origin_fd c" OP_NOOP] set_interest_status[OF e2, of "client_fd c" OP_WRITE]
    by (simp add: connect_write_def set_rep_def)
qed

end
