(* ===== verification/Request.thy ===== *)
theory Request
  imports Dial
begin

unbundle bit_operations_syntax

text \<open>
  The \<open>REQUEST\<close> state (\<open>src/server/states/request.c\<close>): the header of the request, the
  destination address in its three forms, its resolution (at once for IP addresses, in a
  detached thread for names) and the start of the connection.
\<close>

section \<open>Ports and addresses\<close>

definition to_reply_state :: "('w, 'm) hstate \<Rightarrow> (nat \<times> ('w, 'm) hstate) option" where
  "to_reply_state = (\<lambda>(c, e). do {
     (st, e) \<leftarrow> selector_set_interest (client_fd c) OP_WRITE e;
     Some (REPLY, c, e)
   })"

text \<open>\<open>snprintf (origin_port, 6, "%u", port)\<close>: at most five digits and a terminator.\<close>

definition port_text :: "u16 \<Rightarrow> byte list" where
  "port_text port = take 5 (dec_digits (unat port)) @ [0]"

definition get_port :: "socks5 \<Rightarrow> socks5 option" where
  "get_port c = do {
     (p1, b) \<leftarrow> buffer_read (client_buffer c);
     (p2, b) \<leftarrow> buffer_read b;
     let port = (push_bit 8 (ucast p1) OR ucast p2 :: u16);
     c_assert (length (origin_port c) = PORT_MAX_LENGHT);
     Some (c\<lparr>client_buffer := b,
             origin_port := (store_at 0 (port_text port) (origin_port c))[PORT_MAX_LENGHT - 1 := 0]\<rparr>)
   }"

text \<open>
  \<open>get_ipv4_address\<close> and \<open>get_ipv6_address\<close>: the bytes of the address, and their text in
  \<open>origin_host\<close>; the flag is false for \<open>FAILURE\<close>.
\<close>

definition get_ip_address :: "'w os \<Rightarrow> nat \<Rightarrow> nat \<Rightarrow> socks5 \<Rightarrow> (bool \<times> socks5) option" where
  "get_ip_address os family len c = do {
     (addr, b) \<leftarrow> buffer_read_n len (client_buffer c);
     let c = c\<lparr>client_buffer := b\<rparr>;
     (case os_ntop os family addr HOST_MAX_LENGHT of
        None \<Rightarrow> Some (False, c)
      | Some t \<Rightarrow> do {
          c_assert (length t + 1 \<le> length (origin_host c));
          Some (True, c\<lparr>origin_host := store_at 0 (t @ [0]) (origin_host c)\<rparr>)
        })
   }"

definition get_ipv4_address :: "'w os \<Rightarrow> socks5 \<Rightarrow> (bool \<times> socks5) option" where
  "get_ipv4_address os = get_ip_address os AF_INET IPv4_ADDR_LEN"

definition get_ipv6_address :: "'w os \<Rightarrow> socks5 \<Rightarrow> (bool \<times> socks5) option" where
  "get_ipv6_address os = get_ip_address os AF_INET6 IPv6_ADDR_LEN"

text \<open>
  \<open>resolve_ipv4\<close> and \<open>resolve_ipv6\<close>: the one result that stands for the address. An address
  that \<open>inet_pton\<close> does not accept (it answers 0) leaves the zeros of \<open>calloc\<close>.
\<close>

definition resolve_ip :: "'w os \<Rightarrow> nat \<Rightarrow> nat \<Rightarrow> (u16 \<Rightarrow> byte list \<Rightarrow> sockaddr) \<Rightarrow> ('w, 'm) hstate \<Rightarrow> bool \<times> ('w, 'm) hstate" where
  "resolve_ip os family len mk = (\<lambda>(c, e).
     case os_malloc os (e_world e) of (m1, w) \<Rightarrow>
     (if \<not> m1 then (False, c, e\<lparr>e_world := w\<rparr>)
      else
        let port = htons (word_of_int (c_atoi (origin_port c))) in
        case os_pton os family (cstr (origin_host c)) of
          PtonErr \<Rightarrow> (False, c, e\<lparr>e_world := w\<rparr>)
        | p \<Rightarrow>
            (let addr = (case p of PtonOk a \<Rightarrow> a | _ \<Rightarrow> replicate len 0) in
             case os_malloc os w of (m2, w) \<Rightarrow>
             (if \<not> m2 then (False, c, e\<lparr>e_world := w\<rparr>)
              else (True, c\<lparr>origin_resolution := [\<lparr>ai_family = family, ai_socktype = SOCK_STREAM,
                      ai_protocol = IPPROTO_TCP, ai_addr = mk port addr\<rparr>]\<rparr>, e\<lparr>e_world := w\<rparr>)))))"

definition resolve_ipv4 :: "'w os \<Rightarrow> ('w, 'm) hstate \<Rightarrow> bool \<times> ('w, 'm) hstate" where
  "resolve_ipv4 os = resolve_ip os AF_INET IPv4_ADDR_LEN Sin"

definition resolve_ipv6 :: "'w os \<Rightarrow> ('w, 'm) hstate \<Rightarrow> bool \<times> ('w, 'm) hstate" where
  "resolve_ipv6 os = resolve_ip os AF_INET6 IPv6_ADDR_LEN Sin6"

section \<open>Names\<close>

definition get_fqdn :: "nat \<Rightarrow> socks5 \<Rightarrow> socks5 option" where
  "get_fqdn len c = do {
     (h, b) \<leftarrow> read_into len (origin_host c) (client_buffer c);
     h \<leftarrow> c_set h len 0;
     Some (c\<lparr>client_buffer := b, origin_host := h\<rparr>)
   }"

text \<open>A detached thread resolves the name; the running threads are part of the environment.\<close>

definition resolve_fqdn :: "'w os \<Rightarrow> key \<Rightarrow> ('w, 'm) env_scheme \<Rightarrow> bool \<times> ('w, 'm) env_scheme" where
  "resolve_fqdn os key e =
     (case os_malloc os (e_world e) of (m, w) \<Rightarrow>
      (if \<not> m then (False, e\<lparr>e_world := w\<rparr>)
       else case os_thread os w of (t, w) \<Rightarrow>
         (if \<not> t then (False, e\<lparr>e_world := w\<rparr>)
          else (True, e\<lparr>e_world := w, e_threads := key # e_threads e\<rparr>))))"

text \<open>The thread's body, on the connection of its key; \<open>m\<close> is the allocation of the job.\<close>

definition resolve_fqdn_blocking :: "'w os \<Rightarrow> key \<Rightarrow> ('w, 'm) hstate \<Rightarrow> ('w, 'm) hstate" where
  "resolve_fqdn_blocking os key = (\<lambda>(c, e).
     let (r, w) = os_getaddrinfo os (cstr (origin_host c)) (cstr (origin_port c)) (e_world e);
         c = c\<lparr>origin_resolution := (case r of None \<Rightarrow> [] | Some rs \<Rightarrow> rs)\<rparr>;
         (m, w) = os_malloc os w;
         (st, e) = selector_notify_block m (k_fd key) (e\<lparr>e_world := w\<rparr>)
     in (c, e\<lparr>e_threads := remove1 key (e_threads e)\<rparr>))"

section \<open>The connection to the destination\<close>

definition connect_to_dest :: "'w os \<Rightarrow> ('w, 'm) handler" where
  "connect_to_dest os key = (\<lambda>(c, e).
     (if origin_resolution c = [] then to_reply_state (set_rep SERVER_FAILURE c, e)
      else do {
        (ret, c, e) \<leftarrow> try_connection os key (c, e);
        (case dial_switch ret of
           Dial_wait \<Rightarrow> do {
             (st, e) \<leftarrow> selector_set_interest (client_fd c) OP_WRITE e;
             Some (CONNECT, c, e)
           }
         | Dial_reply r \<Rightarrow> to_reply_state (set_rep r c, e)
         | Dial_success \<Rightarrow> do {
             (st, e) \<leftarrow> selector_set_interest (origin_fd c) OP_NOOP e;
             to_reply_state (set_rep SUCCEDED c, e)
           })
      }))"

text \<open>The \<open>switch\<close> of \<open>resolve_dst_address\<close>; \<open>addrBytes\<close> is undetermined when \<open>DST_LEN\<close> was skipped.\<close>

definition resolve_address :: "'w os \<Rightarrow> byte \<Rightarrow> nat option \<Rightarrow> ('w, 'm) handler" where
  "resolve_address os atyp addrBytes key = (\<lambda>(c, e).
     (if atyp = IPv4_ADDR then do {
        (ok, c) \<leftarrow> get_ipv4_address os c;
        (if \<not> ok then to_reply_state (set_rep SERVER_FAILURE c, e)
         else do {
           c \<leftarrow> get_port c;
           (let (ok, c, e) = resolve_ipv4 os (c, e) in
            if \<not> ok then to_reply_state (set_rep SERVER_FAILURE c, e) else connect_to_dest os key (c, e))
         })
      }
      else if atyp = FQDN then do {
        len \<leftarrow> addrBytes;
        c \<leftarrow> get_fqdn len c;
        c \<leftarrow> get_port c;
        (let (ok, e) = resolve_fqdn os key e in
         if \<not> ok then to_reply_state (set_rep SERVER_FAILURE c, e) else Some (REQUEST, c, e))
      }
      else do {
        (ok, c) \<leftarrow> get_ipv6_address os c;
        (if \<not> ok then to_reply_state (set_rep SERVER_FAILURE c, e)
         else do {
           c \<leftarrow> get_port c;
           (let (ok, c, e) = resolve_ipv6 os (c, e) in
            if \<not> ok then to_reply_state (set_rep SERVER_FAILURE c, e) else connect_to_dest os key (c, e))
         })
      }))"

definition resolve_dst_address :: "'w os \<Rightarrow> ('w, 'm) handler" where
  "resolve_dst_address os key = (\<lambda>(c, e). do {
     (readn, cb, w) \<leftarrow> recv_into os (client_fd c) (client_buffer c) (e_world e);
     let e = e\<lparr>e_world := w\<rparr>;
     cb \<leftarrow> buffer_write_adv cb readn;
     let c = c\<lparr>client_buffer := cb\<rparr>;
     (p, toRead) \<leftarrow> buffer_read_ptr cb;
     r \<leftarrow> the_request c;
     (if r_state r = DST_LEN then
        (if toRead = 0 then Some (DONE, c, e)
         else if r_atyp r = FQDN then do {
           (len, cb) \<leftarrow> buffer_read cb;
           let c = c\<lparr>client_buffer := cb\<rparr>;
           (if len = 0 then to_reply_state (set_rep INVALID_FQDN_LENGHT c, e)
            else if toRead - 1 < unat len + 1 then Some (REQUEST, c, e)
            else resolve_address os (r_atyp r) (Some (unat len)) key
              (c\<lparr>client := U_request (r\<lparr>r_state := DST_RES\<rparr>)\<rparr>, e))
         }
         else let len = (if r_atyp r = IPv4_ADDR then IPv4_ADDR_LEN else IPv6_ADDR_LEN) in
           (if toRead < len + 1 then Some (REQUEST, c, e)
            else resolve_address os (r_atyp r) (Some len) key
              (c\<lparr>client := U_request (r\<lparr>r_state := DST_RES\<rparr>)\<rparr>, e)))
      else resolve_address os (r_atyp r) None key (c, e))
   })"

section \<open>The handlers\<close>

definition request_arrival :: "'w os \<Rightarrow> nat \<Rightarrow> key \<Rightarrow> ('w, 'm) hstate \<Rightarrow> ('w, 'm) hstate option" where
  "request_arrival os st key = (\<lambda>(c, e).
     let junk = os_uninit os 2 (e_world e) in
     Some (c\<lparr>client := U_request \<lparr>r_state = VER_CMD_ATYP, r_cmd = junk ! 0, r_atyp = junk ! 1\<rparr>\<rparr>, e))"

definition request_read :: "'w os \<Rightarrow> ('w, 'm) handler" where
  "request_read os key = (\<lambda>(c, e). do {
     r \<leftarrow> the_request c;
     (if r_state r = VER_CMD_ATYP then do {
        (readn, cb, w) \<leftarrow> recv_into os (k_fd key) (client_buffer c) (e_world e);
        let e = e\<lparr>e_world := w\<rparr>;
        cb \<leftarrow> buffer_write_adv cb readn;
        let c = c\<lparr>client_buffer := cb\<rparr>;
        (p, toRead) \<leftarrow> buffer_read_ptr cb;
        (if toRead = 0 then Some (DONE, c, e)
         else if toRead < 4 then Some (REQUEST, c, e)
         else do {
           (ver, cb) \<leftarrow> buffer_read cb;
           (if ver \<noteq> SOCKS5_VERSION then to_reply_state (set_rep INVALID_SOCKS5_VERSION (c\<lparr>client_buffer := cb\<rparr>), e)
            else do {
              (cmd, cb) \<leftarrow> buffer_read cb;
              (if cmd \<noteq> 1 then to_reply_state (set_rep COMMAND_NOT_SUPPORTED (c\<lparr>client_buffer := cb\<rparr>), e)
               else do {
                 (rsv, cb) \<leftarrow> buffer_read cb;
                 (if rsv \<noteq> RSV then to_reply_state (set_rep INVALID_RSV (c\<lparr>client_buffer := cb\<rparr>), e)
                  else do {
                    (atyp, cb) \<leftarrow> buffer_read cb;
                    (if \<not> (atyp = IPv4_ADDR \<or> atyp = FQDN \<or> atyp = IPv6_ADDR)
                     then to_reply_state (set_rep ADDRESS_TYPE_NOT_SUPPORTED (c\<lparr>client_buffer := cb\<rparr>), e)
                     else resolve_dst_address os key
                       (c\<lparr>client_buffer := cb, c_atyp := atyp,
                          client := U_request \<lparr>r_state = DST_LEN, r_cmd = cmd, r_atyp = atyp\<rparr>\<rparr>, e))
                  })
               })
            })
         })
      } else resolve_dst_address os key (c, e))
   })"

definition request_block :: "'w os \<Rightarrow> ('w, 'm) handler" where
  "request_block os key = connect_to_dest os key"

section \<open>Ports survive the trip through text\<close>

lemma port_digits: "length (dec_digits (unat (p :: u16))) \<le> 5"
proof -
  have "unat p < 10 ^ 5" using unsigned_less[of p, where ?'a = nat] by simp
  then show ?thesis by (rule dec_digits_length) simp
qed

lemma port_text_eq: "port_text p = dec_digits (unat p) @ [0]"
  using port_digits[of p] by (simp add: port_text_def)

lemma port_bytes:
  "[ucast (drop_bit 8 (push_bit 8 (ucast p1) OR ucast p2 :: u16)), ucast (push_bit 8 (ucast p1) OR ucast p2 :: u16)]
     = [p1 :: byte, p2 :: byte]"
proof -
  have out: "\<not> bit b (8 + n)" for b :: byte and n by (auto dest: bit_imp_le_length)
  show ?thesis by (auto intro!: bit_eqI simp: bit_simps out)
qed

text \<open>
  What \<open>get_port\<close> stores is read back by \<open>atoi\<close> as the two bytes of the wire; a byte that has
  not arrived is read as 0.
\<close>

definition wire_port :: "byte list \<Rightarrow> byte list" where
  "wire_port bs = take 2 (bs @ [0, 0])"

lemma wire_port_full: "wire_port (p1 # p2 # rest) = [p1, p2]"
  by (simp add: wire_port_def numeral_2_eq_2)

lemma wire_port_short: "wire_port [p1] = [p1, 0]"
  by (simp add: wire_port_def numeral_2_eq_2)

lemma get_port_spec:
  assumes b: "buffer_inv (client_buffer c)"
    and len: "length (origin_port c) = PORT_MAX_LENGHT"
  shows "\<exists>b' t. get_port c = Some (c\<lparr>client_buffer := b', origin_port := t\<rparr>) \<and> buffer_inv b'
    \<and> buffer_window b' = drop 2 (buffer_window (client_buffer c)) \<and> b_limit b' = b_limit (client_buffer c)
    \<and> length t = PORT_MAX_LENGHT
    \<and> mem16 (htons (word_of_int (c_atoi t))) = wire_port (buffer_window (client_buffer c))"
proof -
  let ?w = "buffer_window (client_buffer c)"
  obtain p1 b1 where b1: "buffer_read (client_buffer c) = Some (p1, b1)" "buffer_inv b1" "buffer_window b1 = drop 1 ?w"
      "b_limit b1 = b_limit (client_buffer c)" "p1 = (case ?w of [] \<Rightarrow> 0 | x # _ \<Rightarrow> x)"
    using buffer_read_spec[OF b(1)] by auto
  obtain p2 b2 where b2: "buffer_read b1 = Some (p2, b2)" "buffer_inv b2" "buffer_window b2 = drop 1 (buffer_window b1)"
      "b_limit b2 = b_limit b1" "p2 = (case buffer_window b1 of [] \<Rightarrow> 0 | x # _ \<Rightarrow> x)"
    using buffer_read_spec[OF b1(2)] by auto
  have wire: "wire_port ?w = [p1, p2]"
    using b1(3,5) b2(5) by (auto simp: wire_port_def numeral_2_eq_2 split: list.splits)
  define port :: u16 where "port = push_bit 8 (ucast p1) OR ucast p2"
  define d where "d = dec_digits (unat port)"
  have d5: "length d \<le> 5" unfolding d_def by (rule port_digits)
  let ?t = "(store_at 0 (port_text port) (origin_port c))[PORT_MAX_LENGHT - 1 := 0]"
  have "\<exists>junk. ?t = d @ 0 # junk"
  proof (cases "length d = 5")
    case True
    then show ?thesis using len
      by (simp add: port_text_eq d_def[symmetric] store_at_def list_update_append)
  next
    case False
    then show ?thesis using len d5
      by (simp add: port_text_eq d_def[symmetric] store_at_def list_update_append split: nat.splits)
  qed
  then obtain junk where t: "?t = d @ 0 # junk" by blast
  have "c_atoi ?t = int (unat port)" unfolding t d_def by (rule c_atoi_dec_digits)
  then have "word_of_int (c_atoi ?t) = port" by simp
  moreover have "mem16 (htons port) = wire_port ?w"
    unfolding wire mem16_htons port_def by (rule port_bytes)
  moreover have "get_port c = Some (c\<lparr>client_buffer := b2, origin_port := ?t\<rparr>)"
    using b1(1) b2(1) len by (simp add: get_port_def port_def Let_def)
  moreover have "length ?t = PORT_MAX_LENGHT"
    using len d5 by (simp add: port_text_eq d_def[symmetric])
  moreover have "buffer_window b2 = drop 2 ?w" using b1(3) b2(3) by (simp add: numeral_2_eq_2)
  ultimately show ?thesis using b1 b2 by metis
qed

section \<open>An address request dials the address it names\<close>

definition arrays_ok :: "socks5 \<Rightarrow> bool" where
  "arrays_ok c \<longleftrightarrow> length (origin_host c) = HOST_MAX_LENGHT \<and> length (origin_port c) = PORT_MAX_LENGHT"

text \<open>\<open>inet_ntop\<close> writes a text that fits and that \<open>inet_pton\<close> reads back; allocations succeed.\<close>

definition ip_text_ok :: "'w os \<Rightarrow> bool" where
  "ip_text_ok os \<longleftrightarrow>
     (\<forall>a. length a = IPv4_ADDR_LEN \<longrightarrow> (\<exists>t. os_ntop os AF_INET a HOST_MAX_LENGHT = Some t
        \<and> length t < HOST_MAX_LENGHT \<and> 0 \<notin> set t \<and> os_pton os AF_INET t = PtonOk a))
   \<and> (\<forall>a. length a = IPv6_ADDR_LEN \<longrightarrow> (\<exists>t. os_ntop os AF_INET6 a HOST_MAX_LENGHT = Some t
        \<and> length t < HOST_MAX_LENGHT \<and> 0 \<notin> set t \<and> os_pton os AF_INET6 t = PtonOk a))"

definition mem_ok :: "'w os \<Rightarrow> bool" where
  "mem_ok os \<longleftrightarrow> (\<forall>w. fst (os_malloc os w))"

text \<open>The two families, with their parameters.\<close>

definition family_of :: "bool \<Rightarrow> nat" where
  "family_of v6 = (if v6 then AF_INET6 else AF_INET)"

definition addr_len :: "bool \<Rightarrow> nat" where
  "addr_len v6 = (if v6 then IPv6_ADDR_LEN else IPv4_ADDR_LEN)"

definition mk_addr :: "bool \<Rightarrow> u16 \<Rightarrow> byte list \<Rightarrow> sockaddr" where
  "mk_addr v6 p a = (if v6 then Sin6 p a else Sin p a)"

lemmas families = family_of_def addr_len_def mk_addr_def

definition ip_result :: "bool \<Rightarrow> u16 \<Rightarrow> byte list \<Rightarrow> addrinfo" where
  "ip_result v6 port a = \<lparr>ai_family = family_of v6, ai_socktype = SOCK_STREAM, ai_protocol = IPPROTO_TCP,
     ai_addr = mk_addr v6 port a\<rparr>"

lemma ip_text_okD:
  assumes "ip_text_ok os" "length a = addr_len v6"
  obtains t where "os_ntop os (family_of v6) a HOST_MAX_LENGHT = Some t" "length t < HOST_MAX_LENGHT"
    "0 \<notin> set t" "os_pton os (family_of v6) t = PtonOk a"
proof (cases v6)
  case True
  then have "length a = IPv6_ADDR_LEN" using assms(2) by (simp add: families)
  then show thesis using assms(1) True that unfolding ip_text_ok_def by (auto simp: families)
next
  case False
  then have "length a = IPv4_ADDR_LEN" using assms(2) by (simp add: families)
  then show thesis using assms(1) False that unfolding ip_text_ok_def by (auto simp: families)
qed

lemma get_ip_address_spec:
  assumes tx: "ip_text_ok os" and b: "buffer_inv (client_buffer c)" "buffer_window (client_buffer c) = a @ rest"
    and a: "length a = addr_len v6" and arr: "arrays_ok c"
  obtains b' h where "get_ip_address os (family_of v6) (addr_len v6) c
      = Some (True, c\<lparr>client_buffer := b', origin_host := h\<rparr>)"
    "buffer_inv b'" "buffer_window b' = rest" "b_limit b' = b_limit (client_buffer c)"
    "length h = HOST_MAX_LENGHT" "os_pton os (family_of v6) (cstr h) = PtonOk a"
proof -
  obtain b' where b': "buffer_read_n (addr_len v6) (client_buffer c) = Some (a, b')" "buffer_inv b'"
      "buffer_window b' = rest" "b_limit b' = b_limit (client_buffer c)"
    using bb.get_n_avail[OF b(1), of "addr_len v6"] b(2) a by (metis append_eq_conv_conj le_add1 length_append)
  obtain t where t: "os_ntop os (family_of v6) a HOST_MAX_LENGHT = Some t" "length t < HOST_MAX_LENGHT"
      "0 \<notin> set t" "os_pton os (family_of v6) t = PtonOk a"
    using ip_text_okD[OF tx a] .
  let ?h = "store_at 0 (t @ [0]) (origin_host c)"
  have h: "cstr ?h = t" "length ?h = HOST_MAX_LENGHT"
    using t(2,3) arr by (simp_all add: store_at_def cstr_append_zero arrays_ok_def)
  have run: "get_ip_address os (family_of v6) (addr_len v6) c = Some (True, c\<lparr>client_buffer := b', origin_host := ?h\<rparr>)"
    using b'(1) t(1,2) arr by (simp add: get_ip_address_def arrays_ok_def Let_def)
  show ?thesis using that[OF run] b' h t(4) by simp
qed

definition two_allocs :: "'w os \<Rightarrow> 'w \<Rightarrow> 'w" where
  "two_allocs os w = snd (os_malloc os (snd (os_malloc os w)))"

lemma resolve_ip_spec:
  assumes "mem_ok os" "os_pton os (family_of v6) (cstr (origin_host c)) = PtonOk a"
  shows "resolve_ip os (family_of v6) (addr_len v6) (mk_addr v6) (c, e) =
    (True, c\<lparr>origin_resolution := [ip_result v6 (htons (word_of_int (c_atoi (origin_port c)))) a]\<rparr>,
     e\<lparr>e_world := two_allocs os (e_world e)\<rparr>)"
proof -
  obtain w1 where w1: "os_malloc os (e_world e) = (True, w1)" using assms(1) unfolding mem_ok_def
    by (metis prod.collapse)
  obtain w2 where w2: "os_malloc os w1 = (True, w2)" using assms(1) unfolding mem_ok_def
    by (metis prod.collapse)
  show ?thesis
    using assms(2) w1 w2
    by (simp add: resolve_ip_def ip_result_def two_allocs_def Let_def)
qed

lemma resolve_address_ip:
  assumes tx: "ip_text_ok os" "mem_ok os"
    and b: "buffer_inv (client_buffer c)" "buffer_window (client_buffer c) = a @ pb"
    and a: "length a = addr_len v6" and arr: "arrays_ok c"
  shows "\<exists>b' h t port. resolve_address os (if v6 then IPv6_ADDR else IPv4_ADDR) n key (c, e) =
      connect_to_dest os key (c\<lparr>origin_host := h, client_buffer := b', origin_port := t,
        origin_resolution := [ip_result v6 port a]\<rparr>, e\<lparr>e_world := two_allocs os (e_world e)\<rparr>)
    \<and> mem16 port = wire_port pb \<and> buffer_inv b' \<and> buffer_window b' = drop 2 pb \<and> b_limit b' = b_limit (client_buffer c)
    \<and> length h = HOST_MAX_LENGHT \<and> length t = PORT_MAX_LENGHT \<and> port = htons (word_of_int (c_atoi t))"
proof -
  obtain b1 h where h: "get_ip_address os (family_of v6) (addr_len v6) c
      = Some (True, c\<lparr>client_buffer := b1, origin_host := h\<rparr>)"
    "buffer_inv b1" "buffer_window b1 = pb" "b_limit b1 = b_limit (client_buffer c)"
    "length h = HOST_MAX_LENGHT" "os_pton os (family_of v6) (cstr h) = PtonOk a"
    by (rule get_ip_address_spec[OF tx(1) b(1) _ a arr, of pb]) (use b(2) in simp)
  let ?c1 = "c\<lparr>client_buffer := b1, origin_host := h\<rparr>"
  obtain b2 t where t: "get_port ?c1 = Some (?c1\<lparr>client_buffer := b2, origin_port := t\<rparr>)" "buffer_inv b2"
      "buffer_window b2 = drop 2 pb" "b_limit b2 = b_limit b1" "length t = PORT_MAX_LENGHT"
      "mem16 (htons (word_of_int (c_atoi t))) = wire_port pb"
    using get_port_spec[of ?c1] h(2,3) arr by (auto simp: arrays_ok_def)
  let ?c2 = "?c1\<lparr>client_buffer := b2, origin_port := t\<rparr>"
  let ?w = "two_allocs os (e_world e)"
  have w: "resolve_ip os (family_of v6) (addr_len v6) (mk_addr v6) (?c2, e) =
    (True, ?c2\<lparr>origin_resolution := [ip_result v6 (htons (word_of_int (c_atoi (origin_port ?c2)))) a]\<rparr>, e\<lparr>e_world := ?w\<rparr>)"
    using resolve_ip_spec[OF tx(2), of v6 ?c2 a e] h(6) by auto
  have mk: "mk_addr True = Sin6" "mk_addr False = Sin" by (simp_all add: fun_eq_iff families)
  have "resolve_address os (if v6 then IPv6_ADDR else IPv4_ADDR) n key (c, e) =
      connect_to_dest os key (c\<lparr>origin_host := h, client_buffer := b2, origin_port := t,
        origin_resolution := [ip_result v6 (htons (word_of_int (c_atoi t))) a]\<rparr>, e\<lparr>e_world := ?w\<rparr>)"
    using h(1) t(1) w
    by (cases v6) (simp_all add: resolve_address_def get_ipv4_address_def get_ipv6_address_def
        resolve_ipv4_def resolve_ipv6_def mk family_of_def addr_len_def)
  with h t show ?thesis by metis
qed

text \<open>
  The request in one segment; nothing more has arrived at the second \<open>recv\<close>. The test for a
  complete message counts one byte of the port (\<open>addrBytes + 1\<close>), so the port bytes \<open>pb\<close> that
  are there may be one short.
\<close>

definition ip_request :: "bool \<Rightarrow> byte list \<Rightarrow> byte list \<Rightarrow> byte list" where
  "ip_request v6 a pb = [SOCKS5_VERSION, 1, RSV, if v6 then IPv6_ADDR else IPv4_ADDR] @ a @ pb"

lemma read_four:
  assumes "buffer_inv b" "buffer_window b = w1 # w2 # w3 # w4 # rest"
  obtains b1 b2 b3 b4 where "buffer_read b = Some (w1, b1)" "buffer_read b1 = Some (w2, b2)"
    "buffer_read b2 = Some (w3, b3)" "buffer_read b3 = Some (w4, b4)" "buffer_inv b4"
    "buffer_window b4 = rest" "b_limit b4 = b_limit b"
proof -
  obtain b1 where b1: "buffer_read b = Some (w1, b1)" "buffer_inv b1" "buffer_window b1 = w2 # w3 # w4 # rest"
      "b_limit b1 = b_limit b" using buffer_read_spec[OF assms(1)] assms(2) by auto
  obtain b2 where b2: "buffer_read b1 = Some (w2, b2)" "buffer_inv b2" "buffer_window b2 = w3 # w4 # rest"
      "b_limit b2 = b_limit b1" using buffer_read_spec[OF b1(2)] b1(3) by auto
  obtain b3 where b3: "buffer_read b2 = Some (w3, b3)" "buffer_inv b3" "buffer_window b3 = w4 # rest"
      "b_limit b3 = b_limit b2" using buffer_read_spec[OF b2(2)] b2(3) by auto
  obtain b4 where b4: "buffer_read b3 = Some (w4, b4)" "buffer_inv b4" "buffer_window b4 = rest"
      "b_limit b4 = b_limit b3" using buffer_read_spec[OF b3(2)] b3(3) by auto
  from b1 b2 b3 b4 that show thesis by simp
qed

lemma buffer_read_keeps:
  assumes "buffer_read b = Some (x, b')" "buffer_inv b"
  shows "buffer_inv b' \<and> b_limit b' = b_limit b"
  using buffer_read_spec[OF assms(2)] assms(1) by auto

lemma buffer_read_n_keeps:
  assumes "buffer_read_n n b = Some (x, b')" "buffer_inv b"
  shows "buffer_inv b' \<and> b_limit b' = b_limit b \<and> length x = n"
  using bb.get_n_spec[OF assms(2), of n] assms(1) by auto

lemma recv_keeps:
  assumes "os_ok os" "recv_into os fd b w = Some (n, b1, w')" "buffer_write_adv b1 n = Some b2" "buffer_inv b"
  shows "buffer_inv b2 \<and> b_limit b2 = b_limit b"
  using assms(1,4)
proof (cases rule: recv_cases[where fd = fd and w = w])
  case (err e w'')
  have "n = - 1" "b1 = b" using err(2) assms(2) by auto
  with assms(3,4) show ?thesis by simp
next
  case (got bs w'' c1 c2)
  have "n = int (length bs)" "b1 = c1" using got(2) assms(2) by auto
  with assms(3) got show ?thesis by simp
qed

text \<open>The header: the reply code for the first byte that is not acceptable, in wire order.\<close>

definition header_verdict :: "byte \<Rightarrow> byte \<Rightarrow> byte \<Rightarrow> byte \<Rightarrow> byte option" where
  "header_verdict ver cmd rsv atyp =
     (if ver \<noteq> SOCKS5_VERSION then Some INVALID_SOCKS5_VERSION
      else if cmd \<noteq> 1 then Some COMMAND_NOT_SUPPORTED
      else if rsv \<noteq> RSV then Some INVALID_RSV
      else if atyp \<notin> {IPv4_ADDR, FQDN, IPv6_ADDR} then Some ADDRESS_TYPE_NOT_SUPPORTED
      else None)"

lemma request_header:
  assumes c: "client c = U_request r" "r_state r = VER_CMD_ATYP"
    and rv: "recv_into os (k_fd key) (client_buffer c) (e_world e) = Some (n, b1, w)" "buffer_write_adv b1 n = Some b2"
    and b2: "buffer_inv b2" "buffer_window b2 = x1 # x2 # x3 # x4 # rest"
  obtains (bad) code b where "header_verdict x1 x2 x3 x4 = Some code"
      "request_read os key (c, e) = to_reply_state (set_rep code (c\<lparr>client_buffer := b\<rparr>), e\<lparr>e_world := w\<rparr>)"
      "buffer_inv b" "b_limit b = b_limit b2"
    | (good) b where "header_verdict x1 x2 x3 x4 = None"
      "request_read os key (c, e) = resolve_dst_address os key (c\<lparr>client_buffer := b, c_atyp := x4,
          client := U_request \<lparr>r_state = DST_LEN, r_cmd = x2, r_atyp = x4\<rparr>\<rparr>, e\<lparr>e_world := w\<rparr>)"
      "buffer_inv b" "b_limit b = b_limit b2" "buffer_window b = rest"
proof -
  obtain b3 b4 b5 b6 where r: "buffer_read b2 = Some (x1, b3)" "buffer_read b3 = Some (x2, b4)"
    "buffer_read b4 = Some (x3, b5)" "buffer_read b5 = Some (x4, b6)" "buffer_inv b6" "buffer_window b6 = rest"
    "b_limit b6 = b_limit b2" by (rule read_four[OF b2])
  have k3: "buffer_inv b3" "b_limit b3 = b_limit b2" using buffer_read_keeps[OF r(1) b2(1)] by auto
  have k4: "buffer_inv b4" "b_limit b4 = b_limit b2" using buffer_read_keeps[OF r(2) k3(1)] k3(2) by auto
  have k5: "buffer_inv b5" "b_limit b5 = b_limit b2" using buffer_read_keeps[OF r(3) k4(1)] k4(2) by auto
  show thesis
  proof (cases "header_verdict x1 x2 x3 x4")
    case None
    then have "request_read os key (c, e) = resolve_dst_address os key
        (c\<lparr>client_buffer := b6, c_atyp := x4, client := U_request \<lparr>r_state = DST_LEN, r_cmd = x2, r_atyp = x4\<rparr>\<rparr>, e\<lparr>e_world := w\<rparr>)"
      using c rv r(1-4) b2(2)
      by (auto simp: request_read_def the_request_def read_ptr_eq[OF b2(1)] header_verdict_def Let_def split: if_splits)
    with None r(5-7) good show thesis by blast
  next
    case (Some code)
    have "\<exists>b'\<in>{b3, b4, b5, b6}. request_read os key (c, e) =
        to_reply_state (set_rep code (c\<lparr>client_buffer := b'\<rparr>), e\<lparr>e_world := w\<rparr>)"
      using c rv r(1-4) b2(2) Some
      by (auto simp: request_read_def the_request_def read_ptr_eq[OF b2(1)] header_verdict_def Let_def split: if_splits)
    with Some k3 k4 k5 r(5,7) bad show thesis by blast
  qed
qed

text \<open>What follows a good header, in any of the three address types.\<close>

lemma request_header_ok:
  assumes os: "os_ok os" and c: "bufs_ok c" "client c = U_request r" "r_state r = VER_CMD_ATYP"
    and rd: "os_recv os (k_fd key) (buffer_room (client_buffer c)) (e_world e) = (SysOk bs, w)"
    and msg: "buffer_window (client_buffer c) @ bs = [SOCKS5_VERSION, 1, RSV, atyp] @ rest"
    and atyp: "atyp = IPv4_ADDR \<or> atyp = FQDN \<or> atyp = IPv6_ADDR"
  obtains cb where "request_read os key (c, e) = resolve_dst_address os key
      (c\<lparr>client_buffer := cb, c_atyp := atyp,
         client := U_request \<lparr>r_state = DST_LEN, r_cmd = 1, r_atyp = atyp\<rparr>\<rparr>, e\<lparr>e_world := w\<rparr>)"
    "buffer_inv cb" "buffer_window cb = rest" "b_limit cb = BUFFER_SIZE"
proof -
  have b: "buffer_inv (client_buffer c)" "b_limit (client_buffer c) = BUFFER_SIZE" using c by (auto simp: bufs_ok_def)
  from os b(1) show thesis
  proof (cases rule: recv_cases[where fd = "k_fd key" and w = "e_world e"])
    case (err x w')
    with rd show thesis by simp
  next
    case (got bs' w' b1 b2)
    have eq: "bs' = bs" "w' = w" using got(1) rd by auto
    have win: "buffer_window b2 = SOCKS5_VERSION # 1 # RSV # atyp # rest" using got(5) msg eq by simp
    have v: "header_verdict SOCKS5_VERSION 1 RSV atyp = None" using atyp by (auto simp: header_verdict_def)
    show thesis
      using c(2,3) got(2,3,4) win
    proof (cases rule: request_header)
      case (bad code b')
      with v show thesis by simp
    next
      case (good b')
      with that[of b'] got(6) b(2) eq show thesis by simp
    qed
  qed
qed

lemma request_read_ip:
  assumes os: "os_ok os" "ip_text_ok os" "mem_ok os" and c: "bufs_ok c" "arrays_ok c" "client c = U_request r"
      "r_state r = VER_CMD_ATYP"
    and rd: "os_recv os (k_fd key) (buffer_room (client_buffer c)) (e_world e) = (SysOk bs, w)"
    and again: "\<And>n. \<exists>x w2. os_recv os (client_fd c) n w = (SysErr x, w2)"
    and msg: "buffer_window (client_buffer c) @ bs = ip_request v6 a pb" "length a = addr_len v6" "pb \<noteq> []"
  shows "\<exists>c' e'. request_read os key (c, e) = connect_to_dest os key (c', e')
    \<and> (\<exists>port. origin_resolution c' = [ip_result v6 port a] \<and> mem16 port = wire_port pb
        \<and> port = htons (word_of_int (c_atoi (origin_port c'))))
    \<and> c_atyp c' = (if v6 then IPv6_ADDR else IPv4_ADDR)
    \<and> bufs_ok c' \<and> buffer_window (client_buffer c') = drop 2 pb \<and> arrays_ok c' \<and> client_fd c' = client_fd c
    \<and> origin_buffer c' = origin_buffer c \<and> stm c' = stm c \<and> closed c' = closed c \<and> (\<exists>r. client c' = U_request r)
    \<and> (\<exists>n. e' = e\<lparr>e_world := two_allocs os (snd (os_recv os (client_fd c) n w))\<rparr>)"
proof -
  let ?t = "if v6 then IPv6_ADDR else IPv4_ADDR"
  obtain cb where cb: "request_read os key (c, e) = resolve_dst_address os key
      (c\<lparr>client_buffer := cb, c_atyp := ?t,
         client := U_request \<lparr>r_state = DST_LEN, r_cmd = 1, r_atyp = ?t\<rparr>\<rparr>, e\<lparr>e_world := w\<rparr>)"
    "buffer_inv cb" "buffer_window cb = a @ pb" "b_limit cb = BUFFER_SIZE"
    by (rule request_header_ok[OF os(1) c(1,3,4) rd, of ?t "a @ pb"])
      (use msg(1) in \<open>simp_all add: ip_request_def\<close>)
  let ?c = "c\<lparr>client_buffer := cb, c_atyp := ?t, client := U_request \<lparr>r_state = DST_LEN, r_cmd = 1, r_atyp = ?t\<rparr>\<rparr>"
  obtain x w2 where w2: "os_recv os (client_fd c) (buffer_room cb) w = (SysErr x, w2)" using again by blast
  let ?c2 = "c\<lparr>c_atyp := ?t, client_buffer := cb, client := U_request \<lparr>r_state = DST_RES, r_cmd = 1, r_atyp = ?t\<rparr>\<rparr>"
  have step: "resolve_dst_address os key (?c, e\<lparr>e_world := w\<rparr>) =
      resolve_address os ?t (Some (addr_len v6)) key (?c2, e\<lparr>e_world := w2\<rparr>)"
    using w2 msg(2,3) cb(3) write_ptr_eq[OF cb(2)] read_ptr_eq[OF cb(2)]
    by (cases v6; cases pb) (simp_all add: resolve_dst_address_def recv_into_def the_request_def addr_len_def Let_def)
  have arr: "arrays_ok ?c2" using c(2) by (simp add: arrays_ok_def)
  let ?w3 = "two_allocs os w2"
  obtain b' h t port where r: "resolve_address os ?t (Some (addr_len v6)) key (?c2, e\<lparr>e_world := w2\<rparr>) =
      connect_to_dest os key (?c2\<lparr>origin_host := h, client_buffer := b', origin_port := t,
        origin_resolution := [ip_result v6 port a]\<rparr>, e\<lparr>e_world := w2, e_world := ?w3\<rparr>)"
      "mem16 port = wire_port pb" "buffer_inv b'" "buffer_window b' = drop 2 pb" "b_limit b' = b_limit cb"
      "length h = HOST_MAX_LENGHT" "length t = PORT_MAX_LENGHT" "port = htons (word_of_int (c_atoi t))"
    using resolve_address_ip[OF os(2,3) _ _ msg(2) arr, of pb "Some (addr_len v6)" key "e\<lparr>e_world := w2\<rparr>"] cb(2,3)
    by auto
  let ?c3 = "?c2\<lparr>origin_host := h, client_buffer := b', origin_port := t, origin_resolution := [ip_result v6 port a]\<rparr>"
  have "request_read os key (c, e) = connect_to_dest os key (?c3, e\<lparr>e_world := ?w3\<rparr>)"
    using cb(1) step r(1) by simp
  moreover have "bufs_ok ?c3" "arrays_ok ?c3" using c(1) r cb(4) by (simp_all add: bufs_ok_def arrays_ok_def)
  moreover have "?w3 = two_allocs os (snd (os_recv os (client_fd c) (buffer_room cb) w))" using w2 by simp
  ultimately show ?thesis using r(2,4,8)
    by (intro exI[of _ ?c3] exI[of _ "e\<lparr>e_world := ?w3\<rparr>"]) auto
qed

section \<open>What a request keeps\<close>

definition conn_ok :: "socks5 \<Rightarrow> bool" where
  "conn_ok c \<longleftrightarrow> bufs_ok c \<and> arrays_ok c \<and> origin_fd c \<noteq> client_fd c \<and> 0 \<le> client_fd c"

definition conn_same :: "socks5 \<Rightarrow> socks5 \<Rightarrow> bool" where
  "conn_same c c' \<longleftrightarrow> client_fd c' = client_fd c \<and> client_addr c' = client_addr c \<and> stm c' = stm c
     \<and> closed c' = closed c \<and> origin_buffer c' = origin_buffer c"

text \<open>A step inside the state: the union is not touched.\<close>

definition inner :: "socks5 \<Rightarrow> socks5 \<Rightarrow> bool" where
  "inner c c' \<longleftrightarrow> conn_ok c' \<and> conn_same c c' \<and> client c' = client c"

text \<open>The ways out: the active member of the union fits the next state.\<close>

definition left_request :: "socks5 \<Rightarrow> ('w, 'm) env_scheme \<Rightarrow> nat \<Rightarrow> socks5 \<Rightarrow> ('w, 'm) env_scheme \<Rightarrow> bool" where
  "left_request c e q c' e' \<longleftrightarrow> conn_ok c' \<and> conn_same c c' \<and> registry_ok e' \<and> e_users e' = e_users e
     \<and> (q = REQUEST \<and> (\<exists>r. client c' = U_request r) \<or> q = REPLY \<and> (\<exists>r. client c' = U_reply r)
       \<or> q = CONNECT \<and> origin_resolution c' \<noteq> [] \<or> q = DONE)"

lemma conn_same_trans: "conn_same a b \<Longrightarrow> conn_same b c \<Longrightarrow> conn_same a c"
  by (simp add: conn_same_def)

lemma inner_trans: "inner a b \<Longrightarrow> inner b c \<Longrightarrow> inner a c"
  by (auto simp: inner_def conn_same_def)

lemma left_after:
  assumes "left_request c1 e1 q c' e'" "conn_same c c1" "e_users e1 = e_users e"
  shows "left_request c e q c' e'"
  using assms conn_same_trans[of c c1 c'] by (simp add: left_request_def)

lemma conn_ok_client_buffer:
  "conn_ok c \<Longrightarrow> buffer_inv b \<Longrightarrow> b_limit b = b_limit (client_buffer c) \<Longrightarrow> inner c (c\<lparr>client_buffer := b\<rparr>)"
  by (auto simp: conn_ok_def inner_def conn_same_def bufs_ok_def arrays_ok_def)

lemma conn_ok_inv: "conn_ok c \<Longrightarrow> buffer_inv (client_buffer c) \<and> buffer_inv (origin_buffer c)"
  by (simp add: conn_ok_def bufs_ok_def)

lemma set_rep_keeps [simp]:
  "conn_ok (set_rep r c) = conn_ok c" "conn_same c (set_rep r c)" "\<exists>rp. client (set_rep r c) = U_reply rp"
  "client_fd (set_rep r c) = client_fd c"
  by (simp_all add: set_rep_def conn_ok_def bufs_ok_def arrays_ok_def conn_same_def)

lemma to_reply_left:
  assumes "to_reply_state (set_rep r c, e) = Some (q, c', e')" "conn_ok c" "registry_ok e"
  shows "left_request c e q c' e'"
  using assms set_interest_status[OF assms(3), of "client_fd c" OP_WRITE] registry_poke[OF assms(3), of "client_fd c" OP_WRITE]
  by (auto simp: to_reply_state_def left_request_def)

lemma get_port_inner:
  assumes "get_port c = Some c'" "conn_ok c"
  shows "inner c c'"
proof -
  obtain p1 b1 p2 b2 where r: "buffer_read (client_buffer c) = Some (p1, b1)" "buffer_read b1 = Some (p2, b2)"
    and c': "c' = c\<lparr>client_buffer := b2, origin_port := (store_at 0 (port_text (push_bit 8 (ucast p1) OR ucast p2))
      (origin_port c))[PORT_MAX_LENGHT - 1 := 0]\<rparr>"
    using assms(1) by (auto simp: get_port_def Let_def elim!: bind_SomeE)
  have "length (port_text x) \<le> PORT_MAX_LENGHT" for x
    using port_digits[of x] by (simp add: port_text_eq)
  then show ?thesis
    using buffer_read_keeps[OF r(1)] buffer_read_keeps[OF r(2)] assms(2)
    by (auto simp: c' inner_def conn_ok_def conn_same_def bufs_ok_def arrays_ok_def)
qed

lemma get_ip_inner:
  assumes "get_ip_address os fam len c = Some (ok, c')" "conn_ok c"
  shows "inner c c'"
proof -
  obtain a b where r: "buffer_read_n len (client_buffer c) = Some (a, b)"
    using assms(1) by (auto simp: get_ip_address_def Let_def elim!: bind_SomeE)
  note k = buffer_read_n_keeps[OF r]
  show ?thesis
  proof (cases "os_ntop os fam a HOST_MAX_LENGHT")
    case None
    then show ?thesis
      using assms r k conn_ok_client_buffer[of c b] conn_ok_inv[of c] by (auto simp: get_ip_address_def Let_def)
  next
    case (Some t)
    then have "c' = c\<lparr>client_buffer := b, origin_host := store_at 0 (t @ [0]) (origin_host c)\<rparr>"
      "length t + 1 \<le> length (origin_host c)"
      using assms(1) r by (auto simp: get_ip_address_def c_assert_bind Let_def split: if_splits)
    with assms(2) k show ?thesis
      by (auto simp: inner_def conn_ok_def conn_same_def bufs_ok_def arrays_ok_def)
  qed
qed

lemma get_fqdn_inner:
  assumes "get_fqdn len c = Some c'" "conn_ok c"
  shows "inner c c'"
proof -
  obtain h b h' where r: "read_into len (origin_host c) (client_buffer c) = Some (h, b)" "c_set h len 0 = Some h'"
    and c': "c' = c\<lparr>client_buffer := b, origin_host := h'\<rparr>"
    using assms(1) by (auto simp: get_fqdn_def elim!: bind_SomeE)
  obtain x where x: "buffer_read_n len (client_buffer c) = Some (x, b)" "len \<le> length (origin_host c)"
      "h = store_at 0 x (origin_host c)"
    using r(1) by (auto simp: read_into_def c_assert_bind split: if_splits elim!: bind_SomeE)
  have "length h' = length h" using r(2) by (auto simp: c_set_def split: if_splits)
  with x buffer_read_n_keeps[OF x(1)] assms(2) show ?thesis
    by (auto simp: c' inner_def conn_ok_def conn_same_def bufs_ok_def arrays_ok_def)
qed

lemma resolve_ip_inner:
  assumes "resolve_ip os fam len mk (c, e) = (ok, c', e')" "conn_ok c" "registry_ok e"
  shows "inner c c' \<and> registry_ok e' \<and> e_users e' = e_users e \<and> (ok \<longrightarrow> origin_resolution c' \<noteq> [])"
  using assms
  by (auto simp: resolve_ip_def inner_def conn_ok_def conn_same_def bufs_ok_def arrays_ok_def Let_def
      split: prod.splits if_splits pton_result.splits)

lemma connect_to_dest_left:
  assumes "connect_to_dest os key (c, e) = Some (q, c', e')" "conn_ok c" "registry_ok e" "fresh_fds os (client_fd c)"
  shows "left_request c e q c' e'"
proof (cases "origin_resolution c = []")
  case True
  then show ?thesis
    using assms to_reply_left[of SERVER_FAILURE c e q c' e'] by (simp add: connect_to_dest_def)
next
  case False
  then obtain ret c1 e1 where t: "try_connection os key (c, e) = Some (ret, c1, e1)"
    using assms(1) by (auto simp: connect_to_dest_def elim!: bind_SomeE)
  note d = try_connection_frame[OF assms(4,3) t]
  have c1: "conn_ok c1" "conn_same c c1" "registry_ok e1" "e_users e1 = e_users e" "origin_resolution c1 \<noteq> []"
    using d assms(2) by (auto simp: dialled_def dial_frame_def conn_ok_def conn_same_def bufs_ok_def arrays_ok_def)
  have ns: "dial_switch ret \<noteq> Dial_success" using dial_switch_never_success d by blast
  show ?thesis
  proof (cases "dial_switch ret")
    case (Dial_reply r)
    then have "to_reply_state (set_rep r c1, e1) = Some (q, c', e')"
      using assms(1) False t by (simp add: connect_to_dest_def)
    from to_reply_left[OF this c1(1,3)] show ?thesis by (rule left_after[OF _ c1(2,4)])
  next
    case Dial_wait
    then show ?thesis
      using assms(1) False t c1 set_interest_status[OF c1(3), of "client_fd c1" OP_WRITE]
        registry_poke[OF c1(3), of "client_fd c1" OP_WRITE]
      by (auto simp: connect_to_dest_def left_request_def)
  next
    case Dial_success
    with ns show ?thesis by simp
  qed
qed

lemma resolve_fqdn_keeps:
  "resolve_fqdn os key e = (ok, e') \<Longrightarrow> registry_ok e \<Longrightarrow> registry_ok e' \<and> e_users e' = e_users e"
  by (auto simp: resolve_fqdn_def split: prod.splits if_splits)

text \<open>The two IP branches of \<open>resolve_address\<close> share their shape.\<close>

lemma ip_branch_left:
  assumes run: "(do { (ok, c) \<leftarrow> get_ip_address os fam len c;
        (if \<not> ok then to_reply_state (set_rep SERVER_FAILURE c, e)
         else do {
           c \<leftarrow> get_port c;
           (let (ok, c, e) = resolve_ip os fam len mk (c, e) in
            if \<not> ok then to_reply_state (set_rep SERVER_FAILURE c, e) else connect_to_dest os key (c, e)) }) })
      = Some (q, c', e')"
    and c: "conn_ok c" "registry_ok e" "fresh_fds os (client_fd c)"
  shows "left_request c e q c' e'"
proof -
  obtain ok c1 where g: "get_ip_address os fam len c = Some (ok, c1)"
    using run by (auto elim!: bind_SomeE)
  have i1: "inner c c1" by (rule get_ip_inner[OF g c(1)])
  show ?thesis
  proof (cases ok)
    case False
    then have "to_reply_state (set_rep SERVER_FAILURE c1, e) = Some (q, c', e')" using run g by simp
    from to_reply_left[OF this _ c(2)] i1 show ?thesis by (auto simp: inner_def intro: left_after)
  next
    case True
    then obtain c2 where p: "get_port c1 = Some c2" using run g by (auto elim!: bind_SomeE)
    have i2: "inner c c2" using inner_trans[OF i1 get_port_inner[OF p]] i1 by (simp add: inner_def)
    obtain ok3 c3 e3 where r: "resolve_ip os fam len mk (c2, e) = (ok3, c3, e3)" by (metis prod_cases3)
    have i3: "inner c2 c3" "registry_ok e3" "e_users e3 = e_users e"
      using resolve_ip_inner[OF r _ c(2)] i2 by (auto simp: inner_def)
    have i: "inner c c3" by (rule inner_trans[OF i2 i3(1)])
    have "left_request c3 e3 q c' e'"
    proof (cases ok3)
      case False
      then have "to_reply_state (set_rep SERVER_FAILURE c3, e3) = Some (q, c', e')" using run g True p r by simp
      from to_reply_left[OF this _ i3(2)] i show ?thesis by (simp add: inner_def)
    next
      case ok: True
      then have "connect_to_dest os key (c3, e3) = Some (q, c', e')" using run g True p r by simp
      from connect_to_dest_left[OF this _ i3(2)] i c(3) show ?thesis by (simp add: inner_def conn_same_def)
    qed
    then show ?thesis using i i3(3) by (auto simp: inner_def intro: left_after)
  qed
qed

lemma resolve_address_left:
  assumes run: "resolve_address os atyp n key (c, e) = Some (q, c', e')"
    and c: "conn_ok c" "registry_ok e" "fresh_fds os (client_fd c)" "client c = U_request r"
  shows "left_request c e q c' e'"
proof -
  consider "atyp = IPv4_ADDR" | "atyp = FQDN" | "atyp \<noteq> IPv4_ADDR" "atyp \<noteq> FQDN" by blast
  then show ?thesis
  proof cases
    case 1
    then show ?thesis
      using ip_branch_left[OF _ c(1-3)] run
      unfolding resolve_address_def get_ipv4_address_def resolve_ipv4_def by simp
  next
    case 3
    then show ?thesis
      using ip_branch_left[OF _ c(1-3)] run
      unfolding resolve_address_def get_ipv6_address_def resolve_ipv6_def by simp
  next
    case 2
    obtain len c1 c2 where g: "n = Some len" "get_fqdn len c = Some c1" "get_port c1 = Some c2"
      using run 2 by (auto simp: resolve_address_def elim!: bind_SomeE)
    have i: "inner c c2"
      using inner_trans[OF get_fqdn_inner[OF g(2) c(1)] get_port_inner[OF g(3)]] get_fqdn_inner[OF g(2) c(1)]
      by (simp add: inner_def)
    obtain ok e1 where f: "resolve_fqdn os key e = (ok, e1)" by fastforce
    note k = resolve_fqdn_keeps[OF f c(2)]
    show ?thesis
    proof (cases ok)
      case False
      then have "to_reply_state (set_rep SERVER_FAILURE c2, e1) = Some (q, c', e')"
        using run 2 g f by (simp add: resolve_address_def)
      from to_reply_left[OF this] i k show ?thesis by (auto simp: inner_def intro: left_after)
    next
      case True
      then show ?thesis
        using run 2 g f i k c(4) by (auto simp: resolve_address_def inner_def left_request_def)
    qed
  qed
qed


text \<open>A connection whose client buffer moved on, and perhaps the union of the request.\<close>

definition moved_on :: "socks5 \<Rightarrow> socks5 \<Rightarrow> bool" where
  "moved_on c c' \<longleftrightarrow> conn_ok c' \<and> conn_same c c' \<and> (\<exists>r. client c' = U_request r)"

lemma moved_onI:
  assumes "conn_ok c" "buffer_inv b" "b_limit b = b_limit (client_buffer c)"
  shows "moved_on c (c\<lparr>client_buffer := b, client := U_request r\<rparr>)"
    "moved_on c (c\<lparr>client_buffer := b, c_atyp := y, client := U_request r\<rparr>)"
    "client c = U_request r' \<Longrightarrow> moved_on c (c\<lparr>client_buffer := b\<rparr>)"
  using assms by (auto simp: moved_on_def conn_ok_def conn_same_def bufs_ok_def arrays_ok_def)

lemma moved_on_trans: "moved_on a b \<Longrightarrow> moved_on b c \<Longrightarrow> moved_on a c"
  by (auto simp: moved_on_def intro: conn_same_trans)

lemma moved_on_ok: "moved_on c c' \<Longrightarrow> conn_ok c' \<and> client_fd c' = client_fd c"
  by (simp add: moved_on_def conn_same_def)

lemma moved_on_left:
  assumes "left_request c1 e1 q c' e'" "moved_on c c1" "e_users e1 = e_users e"
  shows "left_request c e q c' e'"
  using assms left_after by (auto simp: moved_on_def)

lemma stay_in_request:
  assumes "moved_on c c'" "registry_ok e'" "e_users e' = e_users e"
  shows "left_request c e REQUEST c' e'" "left_request c e DONE c' e'"
  using assms by (auto simp: left_request_def moved_on_def)

lemma refuse_left:
  assumes "to_reply_state (set_rep r c1, e1) = Some (q, c', e')" "moved_on c c1" "registry_ok e1" "e_users e1 = e_users e"
  shows "left_request c e q c' e'"
  using to_reply_left[OF assms(1) _ assms(3)] moved_on_left[OF _ assms(2,4)] moved_on_ok[OF assms(2)] by blast

lemma resolve_moved_left:
  assumes "resolve_address os atyp n key (c1, e1) = Some (q, c', e')" "moved_on c c1" "registry_ok e1"
    "e_users e1 = e_users e" "fresh_fds os (client_fd c)"
  shows "left_request c e q c' e'"
proof -
  obtain r where "client c1 = U_request r" "conn_ok c1" "client_fd c1 = client_fd c"
    using assms(2) by (auto simp: moved_on_def conn_same_def)
  with resolve_address_left[OF assms(1)] assms(3,5) moved_on_left[OF _ assms(2,4)] show ?thesis by simp
qed

lemma read_moves:
  assumes "buffer_read (client_buffer c) = Some (x, b)" "moved_on c0 c" "client c = U_request r"
  shows "moved_on c0 (c\<lparr>client_buffer := b\<rparr>)"
  using moved_on_trans[OF assms(2) moved_onI(3)[OF _ _ _ assms(3)]] buffer_read_keeps[OF assms(1)]
    conn_ok_inv[of c] moved_on_ok[OF assms(2)] by simp

lemma resolve_dst_address_left:
  assumes run: "resolve_dst_address os key (c, e) = Some (q, c', e')" and os: "os_ok os"
    and c: "conn_ok c" "registry_ok e" "fresh_fds os (client_fd c)" "client c = U_request r"
  shows "left_request c e q c' e'"
proof -
  obtain n b1 w b where rv: "recv_into os (client_fd c) (client_buffer c) (e_world e) = Some (n, b1, w)"
      "buffer_write_adv b1 n = Some b"
    using run by (auto simp: resolve_dst_address_def Let_def elim!: bind_SomeE)
  have b: "buffer_inv b" "b_limit b = b_limit (client_buffer c)"
    using recv_keeps[OF os rv] conn_ok_inv[OF c(1)] by auto
  let ?e = "e\<lparr>e_world := w\<rparr>" and ?c = "c\<lparr>client_buffer := b\<rparr>"
  have m: "moved_on c ?c" "registry_ok ?e" "e_users ?e = e_users e"
    using moved_onI(3)[OF c(1) b c(4)] c(2) by simp_all
  have mr: "moved_on c (?c\<lparr>client_buffer := b', client := U_request r'\<rparr>)"
    if "buffer_inv b'" "b_limit b' = b_limit b" for b' r'
    using moved_on_trans[OF m(1) moved_onI(1)[of ?c b' r']] moved_on_ok[OF m(1)] that by simp
  have res: "left_request c e q c' e'" if "resolve_address os y n key (c1, ?e) = Some (q, c', e')" "moved_on c c1" for y n c1
    using resolve_moved_left[OF that m(2,3) c(3)] .
  have ref: "left_request c e q c' e'" if "to_reply_state (set_rep x c1, ?e) = Some (q, c', e')" "moved_on c c1" for x c1
    using refuse_left[OF that m(2,3)] .
  note stay = stay_in_request[OF _ m(2,3)]
  let ?toRead = "length (buffer_window b)"
  show ?thesis
  proof (cases "r_state r = DST_LEN")
    case False
    then have "resolve_address os (r_atyp r) None key (?c, ?e) = Some (q, c', e')"
      using run rv c(4) by (simp add: resolve_dst_address_def the_request_def read_ptr_eq[OF b(1)] Let_def)
    then show ?thesis by (rule res[OF _ m(1)])
  next
    case dl: True
    show ?thesis
    proof (cases "?toRead = 0 \<or> r_atyp r \<noteq> FQDN")
      case True
      show ?thesis
        using run rv c(4) dl True m(1) mr[OF b(1) refl]
        by (auto simp: resolve_dst_address_def the_request_def read_ptr_eq[OF b(1)] Let_def split: if_splits
          intro: stay res)
    next
      case False
      obtain len b2 where l: "buffer_read b = Some (len, b2)"
        using run rv c(4) dl False
        by (auto simp: resolve_dst_address_def the_request_def read_ptr_eq[OF b(1)] Let_def elim!: bind_SomeE)
      have b2: "buffer_inv b2" "b_limit b2 = b_limit b" using buffer_read_keeps[OF l b(1)] by auto
      have m2: "moved_on c (?c\<lparr>client_buffer := b2\<rparr>)"
        using read_moves[of ?c len b2 c r] l m(1) c(4) by simp
      show ?thesis
        using run rv c(4) dl False l m2 mr[OF b2]
        by (auto simp: resolve_dst_address_def the_request_def read_ptr_eq[OF b(1)] Let_def split: if_splits
          intro: stay res ref)
    qed
  qed
qed

text \<open>One read event in state \<open>VER_CMD_ATYP\<close>, over the bytes collected.\<close>

lemma request_read_cases:
  assumes os: "os_ok os" and c: "conn_ok c" "client c = U_request r" "r_state r = VER_CMD_ATYP" and e: "registry_ok e"
  obtains (short) c1 e1 q where "request_read os key (c, e) = Some (q, c1, e1)" "q = REQUEST \<or> q = DONE"
      "moved_on c c1" "\<exists>w. e1 = e\<lparr>e_world := w\<rparr>"
    | (refused) code c1 w where "request_read os key (c, e) = to_reply_state (set_rep code c1, e\<lparr>e_world := w\<rparr>)"
      "moved_on c c1"
    | (header) c1 w where "request_read os key (c, e) = resolve_dst_address os key (c1, e\<lparr>e_world := w\<rparr>)"
      "moved_on c c1"
proof -
  have b: "buffer_inv (client_buffer c)" using conn_ok_inv[OF c(1)] by simp
  obtain n b1 w b2 where rv: "recv_into os (k_fd key) (client_buffer c) (e_world e) = Some (n, b1, w)"
      "buffer_write_adv b1 n = Some b2"
    using os b
  proof (cases rule: recv_cases[where fd = "k_fd key" and w = "e_world e"])
    case (err x w')
    then show ?thesis using that[of "- 1" "client_buffer c" w' "client_buffer c"] by simp
  next
    case (got bs w' c1 c2)
    then show ?thesis using that by blast
  qed
  have b2: "buffer_inv b2" "b_limit b2 = b_limit (client_buffer c)" using recv_keeps[OF os rv b] by auto
  let ?c2 = "c\<lparr>client_buffer := b2\<rparr>"
  have m2: "moved_on c ?c2" by (rule moved_onI(3)[OF c(1) b2 c(2)])
  show thesis
  proof (cases "length (buffer_window b2) < 4")
    case True
    then have "request_read os key (c, e) =
        Some (if buffer_window b2 = [] then DONE else REQUEST, ?c2, e\<lparr>e_world := w\<rparr>)"
      using c(2,3) rv by (simp add: request_read_def the_request_def read_ptr_eq[OF b2(1)] Let_def)
    then show thesis by (rule short) (use m2 in auto)
  next
    case False
    then obtain x1 x2 x3 x4 rest where win: "buffer_window b2 = x1 # x2 # x3 # x4 # rest"
      by (cases "buffer_window b2"; cases "tl (buffer_window b2)"; cases "tl (tl (buffer_window b2))";
          cases "tl (tl (tl (buffer_window b2)))") (auto simp: numeral_eq_Suc)
    show thesis
      using c(2,3) rv b2(1) win
    proof (cases rule: request_header)
      case (bad code b)
      moreover have "moved_on c (c\<lparr>client_buffer := b\<rparr>)"
        using moved_onI(3)[OF c(1) _ _ c(2), of b] bad(3,4) b2(2) by simp
      ultimately show thesis using refused by blast
    next
      case (good b)
      moreover have "moved_on c (c\<lparr>client_buffer := b, c_atyp := x4, client := U_request r'\<rparr>)" for r'
        by (rule moved_onI(2)[OF c(1)]) (use good(3,4) b2(2) in simp_all)
      ultimately show thesis using header by blast
    qed
  qed
qed

lemma request_read_left:
  assumes run: "request_read os key (c, e) = Some (q, c', e')" and os: "os_ok os"
    and c: "conn_ok c" "registry_ok e" "fresh_fds os (client_fd c)" "client c = U_request r"
  shows "left_request c e q c' e'"
proof (cases "r_state r = VER_CMD_ATYP")
  case False
  then have "resolve_dst_address os key (c, e) = Some (q, c', e')"
    using run c(4) by (simp add: request_read_def the_request_def)
  then show ?thesis by (rule resolve_dst_address_left[OF _ os c])
next
  case True
  show ?thesis
    using os c(1,4) True c(2)
  proof (cases rule: request_read_cases[where key = key])
    case (short c1 e1 q1)
    then show ?thesis using run stay_in_request[of c c1 e1 e] c(2) by auto
  next
    case (refused code c1 w)
    then show ?thesis using run refuse_left[of code c1 "e\<lparr>e_world := w\<rparr>" q c' e' c e] c(2) by simp
  next
    case (header c1 w)
    obtain r1 where r1: "client c1 = U_request r1" "conn_ok c1" "client_fd c1 = client_fd c"
      using header(2) by (auto simp: moved_on_def conn_same_def)
    have "left_request c1 (e\<lparr>e_world := w\<rparr>) q c' e'"
      using resolve_dst_address_left[OF _ os r1(2) _ _ r1(1), of key "e\<lparr>e_world := w\<rparr>" q c' e'] run header(1) c(2,3) r1(3) by simp
    then show ?thesis by (rule moved_on_left[OF _ header(2)]) simp
  qed
qed

section \<open>Headers that are refused, headers that arrive alone, names that arrive in pieces\<close>

lemma request_header_refused:
  assumes os: "os_ok os" and c: "bufs_ok c" "client c = U_request r" "r_state r = VER_CMD_ATYP" and e: "registry_ok e"
    and rd: "os_recv os (k_fd key) (buffer_room (client_buffer c)) (e_world e) = (SysOk bs, w)"
    and msg: "buffer_window (client_buffer c) @ bs = [ver, cmd, rsv, atyp] @ rest"
    and bad: "header_verdict ver cmd rsv atyp = Some code"
  shows "\<exists>c'. request_read os key (c, e) = Some (REPLY, c', poke (client_fd c) OP_WRITE (e\<lparr>e_world := w\<rparr>))
    \<and> client c' = U_reply \<lparr>rep = code, found_bnd_info = None\<rparr> \<and> origin_fd c' = origin_fd c"
proof -
  have b: "buffer_inv (client_buffer c)" using c(1) by (simp add: bufs_ok_def)
  from os b show ?thesis
  proof (cases rule: recv_cases[where fd = "k_fd key" and w = "e_world e"])
    case (err x w')
    with rd show ?thesis by simp
  next
    case (got bs' w' b1 b2)
    have eq: "bs' = bs" "w' = w" using got(1) rd by auto
    have win: "buffer_window b2 = ver # cmd # rsv # atyp # rest" using got(5) msg eq by simp
    show ?thesis
      using c(2,3) got(2,3,4) win
    proof (cases rule: request_header)
      case (bad code' b')
      moreover have "registry_ok (e\<lparr>e_world := w\<rparr>)" using e by simp
      ultimately show ?thesis
        using assms(8) eq c(2) set_interest_status[of "e\<lparr>e_world := w\<rparr>" "client_fd c" OP_WRITE]
        by (simp add: to_reply_state_def set_rep_def)
    next
      case (good b')
      with assms(8) show ?thesis by simp
    qed
  qed
qed

text \<open>
  A good header whose address has not arrived yet: the second \<open>recv\<close> fails with \<open>EAGAIN\<close>, no
  byte is left, and the code takes that for the end of the stream.
\<close>

lemma request_header_alone:
  assumes os: "os_ok os" and c: "bufs_ok c" "client c = U_request r" "r_state r = VER_CMD_ATYP"
    and rd: "os_recv os (k_fd key) (buffer_room (client_buffer c)) (e_world e) = (SysOk bs, w)"
    and again: "\<And>n. \<exists>x w2. os_recv os (client_fd c) n w = (SysErr x, w2)"
    and msg: "buffer_window (client_buffer c) @ bs = [SOCKS5_VERSION, 1, RSV, atyp]"
    and atyp: "atyp = IPv4_ADDR \<or> atyp = FQDN \<or> atyp = IPv6_ADDR"
  shows "\<exists>c' e'. request_read os key (c, e) = Some (DONE, c', e')"
proof -
  obtain cb where cb: "request_read os key (c, e) = resolve_dst_address os key
      (c\<lparr>client_buffer := cb, c_atyp := atyp,
         client := U_request \<lparr>r_state = DST_LEN, r_cmd = 1, r_atyp = atyp\<rparr>\<rparr>, e\<lparr>e_world := w\<rparr>)"
    "buffer_inv cb" "buffer_window cb = []" "b_limit cb = BUFFER_SIZE"
    by (rule request_header_ok[OF os c rd, of atyp "[]"]) (use msg atyp in simp_all)
  obtain x w2 where w2: "os_recv os (client_fd c) (buffer_room cb) w = (SysErr x, w2)" using again by blast
  show ?thesis
    unfolding cb(1) using w2 cb(3) write_ptr_eq[OF cb(2)] read_ptr_eq[OF cb(2)]
    by (simp add: resolve_dst_address_def recv_into_def the_request_def Let_def)
qed

text \<open>
  A name that has not arrived in full: the length byte is gone and the state is still \<open>DST_LEN\<close>,
  so that the first byte of the name is the length for the next read.
\<close>

lemma fqdn_length_lost:
  assumes os: "os_ok os" and c: "bufs_ok c" "client c = U_request r" "r_state r = DST_LEN" "r_atyp r = FQDN"
    and rd: "os_recv os (client_fd c) (buffer_room (client_buffer c)) (e_world e) = (SysOk bs, w)"
    and msg: "buffer_window (client_buffer c) @ bs = len # part" "len \<noteq> 0" "length part < unat len + 1"
  shows "\<exists>c'. request_read os key (c, e) = Some (REQUEST, c', e\<lparr>e_world := w\<rparr>)
    \<and> client c' = U_request r \<and> buffer_window (client_buffer c') = part"
proof -
  have b: "buffer_inv (client_buffer c)" using c(1) by (simp add: bufs_ok_def)
  from os b show ?thesis
  proof (cases rule: recv_cases[where fd = "client_fd c" and w = "e_world e"])
    case (err x w')
    with rd show ?thesis by simp
  next
    case (got bs' w' b1 b2)
    have eq: "bs' = bs" "w' = w" using got(1) rd by auto
    then have win: "buffer_window b2 = len # part" using got(5) msg by simp
    obtain b3 where "buffer_read b2 = Some (len, b3)" "buffer_window b3 = part"
      using buffer_read_spec[OF got(4)] win by auto
    then show ?thesis
      using c(2-4) got(2,3) win msg(2,3) eq read_ptr_eq[OF got(4)]
      by (simp add: request_read_def resolve_dst_address_def the_request_def Let_def)
  qed
qed

text \<open>While a name is being resolved the length is no longer known: a further read is undefined.\<close>

lemma request_reread_undefined:
  assumes os: "os_ok os" and c: "bufs_ok c" "client c = U_request r" "r_state r = DST_RES" "r_atyp r = FQDN"
  shows "request_read os key (c, e) = None"
proof -
  have b: "buffer_inv (client_buffer c)" using c(1) by (simp add: bufs_ok_def)
  from os b show ?thesis
  proof (cases rule: recv_cases[where fd = "client_fd c" and w = "e_world e"])
    case (err x w')
    then show ?thesis
      using c read_ptr_eq[OF b]
      by (simp add: request_read_def resolve_dst_address_def resolve_address_def the_request_def Let_def)
  next
    case (got bs' w' b1 b2)
    then show ?thesis
      using c read_ptr_eq[OF got(4)]
      by (simp add: request_read_def resolve_dst_address_def resolve_address_def the_request_def Let_def)
  qed
qed

end
