(* ===== verification/Copy.thy ===== *)
theory Copy
  imports Auth
begin

unbundle bit_operations_syntax

text \<open>
  The \<open>COPY\<close> state (\<open>src/server/states/copy.c\<close>): the relay between client and origin. What the
  client sends goes through \<open>client_buffer\<close> to the origin, what the origin sends through
  \<open>origin_buffer\<close> to the client; the pointers of the two \<open>copy_st\<close> records say which is which.

  The main result is that the relay is a pair of FIFO channels over any behaviour of the
  system calls and any order of the events: nothing is lost, repeated, reordered or moved to
  the other channel. It is stated over a wrapper of the system that logs what \<open>recv\<close> returned
  and \<open>send\<close> took.
\<close>

section \<open>The handlers\<close>

definition get_buf :: "buf_ref \<Rightarrow> socks5 \<Rightarrow> buffer" where
  "get_buf r c = (case r of CLIENT_BUFFER \<Rightarrow> client_buffer c | ORIGIN_BUFFER \<Rightarrow> origin_buffer c)"

definition set_buf :: "buf_ref \<Rightarrow> buffer \<Rightarrow> socks5 \<Rightarrow> socks5" where
  "set_buf r b c = (case r of CLIENT_BUFFER \<Rightarrow> c\<lparr>client_buffer := b\<rparr> | ORIGIN_BUFFER \<Rightarrow> c\<lparr>origin_buffer := b\<rparr>)"

definition get_copy :: "copy_ref \<Rightarrow> socks5 \<Rightarrow> copy_st option" where
  "get_copy r c = (case r of
     CLIENT_COPY \<Rightarrow> (case client c of U_copy x \<Rightarrow> Some x | _ \<Rightarrow> None)
   | ORIGIN_COPY \<Rightarrow> origin_copy c)"

definition set_copy :: "copy_ref \<Rightarrow> copy_st \<Rightarrow> socks5 \<Rightarrow> socks5" where
  "set_copy r x c = (case r of CLIENT_COPY \<Rightarrow> c\<lparr>client := U_copy x\<rparr> | ORIGIN_COPY \<Rightarrow> c\<lparr>origin_copy := Some x\<rparr>)"

text \<open>
  The interests of a descriptor: it can read if the buffer \<open>rd\<close> it fills has room, and write if
  the buffer \<open>wr\<close> it drains has data.
\<close>

definition interests_for :: "buffer \<Rightarrow> buffer \<Rightarrow> fd_interest" where
  "interests_for rd wr =
     (let ret = OP_NOOP;
          ret = (if buffer_can_write rd then ret OR OP_READ else ret);
          ret = (if buffer_can_read wr then ret OR OP_WRITE else ret)
      in ret)"

text \<open>\<open>-1\<close> on failure, else the interests of the target; \<open>t\<close> points to the target.\<close>

definition update_target_interests :: "copy_ref \<Rightarrow> ('w, 'm) hstate \<Rightarrow> (int \<times> ('w, 'm) hstate) option" where
  "update_target_interests t = (\<lambda>(c, e). do {
     target \<leftarrow> get_copy t c;
     other \<leftarrow> get_copy (cp_other target) c;
     let ret = interests_for (get_buf (cp_buffer other) c) (get_buf (cp_buffer target) c);
     let oet = interests_for (get_buf (cp_buffer target) c) (get_buf (cp_buffer other) c);
     (s1, e) \<leftarrow> selector_set_interest (cp_fd target) ret e;
     (if s1 \<noteq> SELECTOR_SUCCESS then Some (- 1, c, e)
      else do {
        (s2, e) \<leftarrow> selector_set_interest (cp_fd other) oet e;
        (if s2 \<noteq> SELECTOR_SUCCESS then Some (- 1, c, e)
         else do {
           let c = set_copy t (target\<lparr>cp_interests := ret\<rparr>) c;
           let c = set_copy (cp_other target) (other\<lparr>cp_interests := oet\<rparr>) c;
           Some (uint ret, c, e)
         })
      })
   })"

definition socksv5_copy_arrival :: "nat \<Rightarrow> key \<Rightarrow> ('w, 'm) hstate \<Rightarrow> ('w, 'm) hstate option" where
  "socksv5_copy_arrival st key = (\<lambda>(c, e). do {
     (p, toWriteToClient) \<leftarrow> buffer_read_ptr (origin_buffer c);
     (p, toWriteToOrigin) \<leftarrow> buffer_read_ptr (client_buffer c);
     let originCopy = \<lparr>cp_buffer = CLIENT_BUFFER, cp_fd = origin_fd c,
           cp_interests = (if toWriteToOrigin > 0 then OP_WRITE else OP_READ), cp_other = CLIENT_COPY\<rparr>;
     let clientCopy = \<lparr>cp_buffer = ORIGIN_BUFFER, cp_fd = client_fd c,
           cp_interests = OP_READ, cp_other = ORIGIN_COPY\<rparr>;
     (s1, e) \<leftarrow> selector_set_interest (cp_fd originCopy) (cp_interests originCopy) e;
     (s2, e) \<leftarrow> selector_set_interest (cp_fd clientCopy)
                 (if toWriteToOrigin > 0 then OP_NOOP else cp_interests clientCopy) e;
     Some (c\<lparr>client := U_copy clientCopy, origin_copy := Some originCopy\<rparr>, e)
   })"

text \<open>\<open>IS_CLIENT_DATA (connection, key) ? &connection->client.copy : &connection->origin.copy\<close>\<close>

definition from_copy :: "key \<Rightarrow> socks5 \<Rightarrow> copy_ref" where
  "from_copy key c = (if client_fd c = k_fd key then CLIENT_COPY else ORIGIN_COPY)"

text \<open>
  The common end of both handlers: one direction is shut down on both descriptors
  (\<open>x\<close> with \<open>hx\<close> and the bit \<open>bx\<close> first, then \<open>y\<close>), and the interests are lowered.
\<close>

definition shut_direction ::
  "'w os \<Rightarrow> copy_ref \<Rightarrow> shut \<Rightarrow> fd_interest \<Rightarrow> copy_ref \<Rightarrow> shut \<Rightarrow> fd_interest \<Rightarrow> ('w, 'm) hstate \<Rightarrow> ('w, 'm) hstate option" where
  "shut_direction os x hx bx y hy bb = (\<lambda>(c, e). do {
     cx \<leftarrow> get_copy x c;
     let e = e\<lparr>e_world := os_shutdown os (cp_fd cx) hx (e_world e)\<rparr>;
     let cx = cx\<lparr>cp_interests := cp_interests cx AND NOT bx\<rparr>;
     let c = set_copy x cx c;
     (s1, e) \<leftarrow> selector_set_interest (cp_fd cx) (cp_interests cx) e;
     cy \<leftarrow> get_copy y c;
     let e = e\<lparr>e_world := os_shutdown os (cp_fd cy) hy (e_world e)\<rparr>;
     let cy = cy\<lparr>cp_interests := cp_interests cy AND NOT bb\<rparr>;
     let c = set_copy y cy c;
     (s2, e) \<leftarrow> selector_set_interest (cp_fd cy) (cp_interests cy) e;
     Some (c, e)
   })"

definition copy_or_done :: "copy_ref \<Rightarrow> copy_ref \<Rightarrow> ('w, 'm) hstate \<Rightarrow> (nat \<times> ('w, 'm) hstate) option" where
  "copy_or_done x y = (\<lambda>(c, e). do {
     cx \<leftarrow> get_copy x c;
     cy \<leftarrow> get_copy y c;
     Some (if (cp_interests cx OR cp_interests cy) XOR OP_NOOP \<noteq> 0 then COPY else DONE, c, e)
   })"

definition socksv5_copy_read :: "'w os \<Rightarrow> ('w, 'm) handler" where
  "socksv5_copy_read os key = (\<lambda>(c, e). do {
     let f = from_copy key c;
     from \<leftarrow> get_copy f c;
     let t = cp_other from;
     to \<leftarrow> get_copy t c;
     (if \<not> buffer_can_write (get_buf (cp_buffer to) c) then Some (COPY, c, e)
      else do {
        (readBytes, b, w) \<leftarrow> recv_into os (cp_fd from) (get_buf (cp_buffer to) c) (e_world e);
        let e = e\<lparr>e_world := w\<rparr>;
        (if readBytes > 0 then do {
           b \<leftarrow> buffer_write_adv b readBytes;
           let c = set_buf (cp_buffer to) b c;
           let e = e\<lparr>e_metrics := register_bytes_transferred 0 readBytes (e_metrics e)\<rparr>;
           (r, c, e) \<leftarrow> update_target_interests f (c, e);
           (if r < 0 then Some (ERROR, c, e) else copy_or_done f t (c, e))
         } else do {
           (c, e) \<leftarrow> shut_direction os f SHUT_RD OP_READ t SHUT_WR OP_WRITE (set_buf (cp_buffer to) b c, e);
           copy_or_done f t (c, e)
         })
      })
   })"

definition socksv5_copy_write :: "'w os \<Rightarrow> ('w, 'm) handler" where
  "socksv5_copy_write os key = (\<lambda>(c, e). do {
     let f = from_copy key c;
     from \<leftarrow> get_copy f c;
     let toFd = cp_fd from;
     (if \<not> buffer_can_read (get_buf (cp_buffer from) c) then Some (COPY, c, e)
      else do {
        (writtenBytes, w) \<leftarrow> send_from os toFd (get_buf (cp_buffer from) c) (e_world e);
        let e = e\<lparr>e_world := w\<rparr>;
        (if writtenBytes > 0 then do {
           b \<leftarrow> buffer_read_adv (get_buf (cp_buffer from) c) writtenBytes;
           let c = set_buf (cp_buffer from) b c;
           let e = e\<lparr>e_metrics := register_bytes_transferred writtenBytes 0 (e_metrics e)\<rparr>;
           (r, c, e) \<leftarrow> update_target_interests f (c, e);
           (if r < 0 then Some (ERROR, c, e) else copy_or_done f (cp_other from) (c, e))
         } else do {
           (c, e) \<leftarrow> shut_direction os f SHUT_WR OP_WRITE (cp_other from) SHUT_RD OP_READ (c, e);
           copy_or_done f (cp_other from) (c, e)
         })
      })
   })"

text \<open>On departure the code only logs.\<close>

definition socksv5_copy_close :: "nat \<Rightarrow> key \<Rightarrow> ('w, 'm) hstate \<Rightarrow> ('w, 'm) hstate option" where
  "socksv5_copy_close st key s = Some s"

section \<open>Invariant and flow control\<close>

definition copies_ok :: "socks5 \<Rightarrow> bool" where
  "copies_ok c \<longleftrightarrow>
     (\<exists>i. client c = U_copy \<lparr>cp_buffer = ORIGIN_BUFFER, cp_fd = client_fd c, cp_interests = i, cp_other = ORIGIN_COPY\<rparr>)
   \<and> (\<exists>i. origin_copy c = Some \<lparr>cp_buffer = CLIENT_BUFFER, cp_fd = origin_fd c, cp_interests = i, cp_other = CLIENT_COPY\<rparr>)"

definition copy_ok :: "socks5 \<Rightarrow> bool" where
  "copy_ok c \<longleftrightarrow> bufs_ok c \<and> copies_ok c \<and> client_fd c \<noteq> origin_fd c"

text \<open>A descriptor reads while there is room for what it reads, and writes while data waits for it.\<close>

definition flow :: "buffer \<Rightarrow> buffer \<Rightarrow> fd_interest" where
  "flow rd wr = (if 0 < buffer_room rd then OP_READ else OP_NOOP) OR (if buffer_window wr \<noteq> [] then OP_WRITE else OP_NOOP)"

definition client_flow :: "socks5 \<Rightarrow> fd_interest" where
  "client_flow c = flow (client_buffer c) (origin_buffer c)"

definition origin_flow :: "socks5 \<Rightarrow> fd_interest" where
  "origin_flow c = flow (origin_buffer c) (client_buffer c)"

definition both_registered :: "socks5 \<Rightarrow> ('w, 'm) env_scheme \<Rightarrow> bool" where
  "both_registered c e \<longleftrightarrow> sel_entry e (client_fd c) \<noteq> None \<and> sel_entry e (origin_fd c) \<noteq> None"

text \<open>What identifies a channel: its two buffers' contents and the connection's descriptors.\<close>

definition same_channel :: "socks5 \<Rightarrow> socks5 \<Rightarrow> bool" where
  "same_channel c c' \<longleftrightarrow> client_fd c' = client_fd c \<and> origin_fd c' = origin_fd c
     \<and> client_buffer c' = client_buffer c \<and> origin_buffer c' = origin_buffer c"

text \<open>The descriptor of a copy, the buffer it fills and the buffer it drains.\<close>

definition fd_of :: "copy_ref \<Rightarrow> socks5 \<Rightarrow> int" where
  "fd_of f c = (case f of CLIENT_COPY \<Rightarrow> client_fd c | ORIGIN_COPY \<Rightarrow> origin_fd c)"

definition other_copy :: "copy_ref \<Rightarrow> copy_ref" where
  "other_copy f = (case f of CLIENT_COPY \<Rightarrow> ORIGIN_COPY | ORIGIN_COPY \<Rightarrow> CLIENT_COPY)"

definition fills :: "copy_ref \<Rightarrow> buf_ref" where
  "fills f = (case f of CLIENT_COPY \<Rightarrow> CLIENT_BUFFER | ORIGIN_COPY \<Rightarrow> ORIGIN_BUFFER)"

definition drains :: "copy_ref \<Rightarrow> buf_ref" where
  "drains f = (case f of CLIENT_COPY \<Rightarrow> ORIGIN_BUFFER | ORIGIN_COPY \<Rightarrow> CLIENT_BUFFER)"

definition flow_of :: "copy_ref \<Rightarrow> socks5 \<Rightarrow> fd_interest" where
  "flow_of f c = flow (get_buf (fills f) c) (get_buf (drains f) c)"

lemmas copy_refs = fd_of_def other_copy_def fills_def drains_def get_buf_def set_buf_def get_copy_def set_copy_def

lemma get_copies:
  assumes "copies_ok c"
  obtains i j where
    "get_copy f c = Some \<lparr>cp_buffer = drains f, cp_fd = fd_of f c, cp_interests = i, cp_other = other_copy f\<rparr>"
    "get_copy (other_copy f) c = Some \<lparr>cp_buffer = fills f, cp_fd = fd_of (other_copy f) c,
       cp_interests = j, cp_other = f\<rparr>"
proof -
  obtain i j where "client c = U_copy \<lparr>cp_buffer = ORIGIN_BUFFER, cp_fd = client_fd c, cp_interests = i, cp_other = ORIGIN_COPY\<rparr>"
    "origin_copy c = Some \<lparr>cp_buffer = CLIENT_BUFFER, cp_fd = origin_fd c, cp_interests = j, cp_other = CLIENT_COPY\<rparr>"
    using assms unfolding copies_ok_def by blast
  with that show ?thesis by (cases f) (simp_all add: copy_refs)
qed

lemma get_buf_ok: "copy_ok c \<Longrightarrow> buffer_inv (get_buf r c) \<and> b_limit (get_buf r c) = BUFFER_SIZE"
  by (cases r) (auto simp: copy_ok_def bufs_ok_def get_buf_def)

lemma copy_ok_set_buf:
  "copy_ok c \<Longrightarrow> buffer_inv b \<Longrightarrow> b_limit b = BUFFER_SIZE \<Longrightarrow> copy_ok (set_buf r b c)"
  by (cases r) (auto simp: copy_ok_def bufs_ok_def copies_ok_def set_buf_def)

lemma set_buf_simps [simp]:
  "client_fd (set_buf r b c) = client_fd c" "origin_fd (set_buf r b c) = origin_fd c"
  "fd_of f (set_buf r b c) = fd_of f c" "get_copy f (set_buf r b c) = get_copy f c"
  "get_buf r (set_buf r b c) = b" "r' \<noteq> r \<Longrightarrow> get_buf r' (set_buf r b c) = get_buf r' c"
  by (cases r; cases f; cases r'; simp add: copy_refs)+

lemma set_copy_simps [simp]:
  "client_fd (set_copy f x c) = client_fd c" "origin_fd (set_copy f x c) = origin_fd c"
  "fd_of g (set_copy f x c) = fd_of g c" "get_buf r (set_copy f x c) = get_buf r c"
  "get_copy f (set_copy f x c) = Some x" "get_copy (other_copy f) (set_copy f x c) = get_copy (other_copy f) c"
  "get_copy f (set_copy (other_copy f) x c) = get_copy f c"
  by (cases f; cases g; cases r; simp add: copy_refs)+

lemma copy_ref_simps [simp]:
  "other_copy (other_copy f) = f" "fills (other_copy f) = drains f" "drains (other_copy f) = fills f"
  "fills f \<noteq> drains f" "drains f \<noteq> fills f" "other_copy f \<noteq> f" "f \<noteq> other_copy f"
  by (cases f; simp add: other_copy_def fills_def drains_def)+

lemma copy_ok_set_copy:
  assumes "copy_ok c" "x = \<lparr>cp_buffer = drains f, cp_fd = fd_of f c, cp_interests = i, cp_other = other_copy f\<rparr>"
  shows "copy_ok (set_copy f x c)"
  using assms by (cases f) (auto simp: copy_ok_def bufs_ok_def copies_ok_def copy_refs)

section \<open>One step\<close>

definition env_frame :: "('w, 'm) env_scheme \<Rightarrow> ('w, 'm) env_scheme \<Rightarrow> bool" where
  "env_frame e e' \<longleftrightarrow> registry_ok e' \<and> e_users e' = e_users e \<and> e_threads e' = e_threads e
     \<and> env.more e' = env.more e \<and> (\<forall>fd. sel_entry e' fd = None \<longleftrightarrow> sel_entry e fd = None)"

lemma env_frame_poke: "env_frame e e1 \<Longrightarrow> env_frame e (poke fd i e1)"
  by (simp add: env_frame_def entry_poke_None)

lemma env_frame_refl: "registry_ok e \<Longrightarrow> env_frame e e"
  by (simp add: env_frame_def)

lemma env_frame_ext:
  "env_frame e e1 \<Longrightarrow> env_frame e (e1\<lparr>e_world := w\<rparr>)" "env_frame e e1 \<Longrightarrow> env_frame e (e1\<lparr>e_metrics := m\<rparr>)"
  by (simp_all add: env_frame_def)

lemma update_spec:
  assumes c: "copy_ok c" and e: "registry_ok e" and f: "fd_of f c \<noteq> fd_of (other_copy f) c"
  shows "\<exists>r c' e'. update_target_interests f (c, e) = Some (r, c', e') \<and> copy_ok c'
    \<and> client_fd c' = client_fd c \<and> origin_fd c' = origin_fd c \<and> (\<forall>b. get_buf b c' = get_buf b c)
    \<and> env_frame e e' \<and> e_world e' = e_world e \<and> e_metrics e' = e_metrics e
    \<and> (sel_entry e (fd_of f c) \<noteq> None \<and> sel_entry e (fd_of (other_copy f) c) \<noteq> None \<longrightarrow>
        0 \<le> r
        \<and> e' = poke (fd_of (other_copy f) c) (flow_of (other_copy f) c) (poke (fd_of f c) (flow_of f c) e)
        \<and> map_option cp_interests (get_copy f c') = Some (flow_of f c)
        \<and> map_option cp_interests (get_copy (other_copy f) c') = Some (flow_of (other_copy f) c))
    \<and> (sel_entry e (fd_of f c) = None \<or> sel_entry e (fd_of (other_copy f) c) = None \<longrightarrow> r = - 1)"
proof -
  obtain i j where g: "get_copy f c = Some \<lparr>cp_buffer = drains f, cp_fd = fd_of f c, cp_interests = i, cp_other = other_copy f\<rparr>"
    "get_copy (other_copy f) c = Some \<lparr>cp_buffer = fills f, cp_fd = fd_of (other_copy f) c,
       cp_interests = j, cp_other = f\<rparr>"
    using get_copies[of c f] c unfolding copy_ok_def by blast
  let ?ret = "flow_of f c" and ?oet = "flow_of (other_copy f) c"
  let ?e1 = "poke (fd_of f c) ?ret e"
  have ret: "interests_for (get_buf (fills f) c) (get_buf (drains f) c) = ?ret"
    and oet: "interests_for (get_buf (drains f) c) (get_buf (fills f) c) = ?oet"
    using get_buf_ok[OF c] by (simp_all add: interests_for_def flow_of_def flow_def can_write_iff can_read_iff Let_def)
  have r1: "registry_ok ?e1" using e by simp
  note s1 = set_interest_status[OF e, of "fd_of f c" ?ret]
  note s2 = set_interest_status[OF r1, of "fd_of (other_copy f) c" ?oet]
  let ?x = "\<lparr>cp_buffer = drains f, cp_fd = fd_of f c, cp_interests = ?ret, cp_other = other_copy f\<rparr>"
  let ?y = "\<lparr>cp_buffer = fills f, cp_fd = fd_of (other_copy f) c, cp_interests = ?oet, cp_other = f\<rparr>"
  let ?c1 = "set_copy f ?x c"
  have c1: "copy_ok ?c1" by (rule copy_ok_set_copy[OF c refl])
  have c2: "copy_ok (set_copy (other_copy f) ?y ?c1)"
    by (rule copy_ok_set_copy[OF c1]) simp
  have run: "update_target_interests f (c, e) =
     (if sel_entry e (fd_of f c) = None then Some (- 1, c, ?e1)
      else if sel_entry e (fd_of (other_copy f) c) = None then Some (- 1, c, poke (fd_of (other_copy f) c) ?oet ?e1)
      else Some (uint ?ret, set_copy (other_copy f) ?y ?c1, poke (fd_of (other_copy f) c) ?oet ?e1))"
    unfolding update_target_interests_def using g s1 s2
    by (simp add: Let_def entry_poke_None ret oet)
  have fr: "env_frame e ?e1" "env_frame e (poke (fd_of (other_copy f) c) ?oet ?e1)"
    using env_frame_poke env_frame_refl[OF e] by blast+
  show ?thesis
    unfolding run using c c2 fr by auto
qed

lemma shut_spec:
  assumes c: "copy_ok c" and e: "registry_ok e"
  shows "\<exists>c' e'. shut_direction os f hx bx (other_copy f) hy bb (c, e) = Some (c', e') \<and> copy_ok c'
    \<and> client_fd c' = client_fd c \<and> origin_fd c' = origin_fd c \<and> (\<forall>b. get_buf b c' = get_buf b c)
    \<and> env_frame e e' \<and> e_metrics e' = e_metrics e
    \<and> e_world e' = os_shutdown os (fd_of (other_copy f) c) hy (os_shutdown os (fd_of f c) hx (e_world e))
    \<and> (\<exists>i j i' j'. map_option cp_interests (get_copy f c) = Some i
        \<and> map_option cp_interests (get_copy (other_copy f) c) = Some j
        \<and> i' = i AND NOT bx \<and> j' = j AND NOT bb
        \<and> map_option cp_interests (get_copy f c') = Some i'
        \<and> map_option cp_interests (get_copy (other_copy f) c') = Some j'
        \<and> (\<forall>fd. interest_of e' fd = interest_of (poke (fd_of (other_copy f) c) j' (poke (fd_of f c) i' e)) fd))"
proof -
  obtain i j where g: "get_copy f c = Some \<lparr>cp_buffer = drains f, cp_fd = fd_of f c, cp_interests = i, cp_other = other_copy f\<rparr>"
    "get_copy (other_copy f) c = Some \<lparr>cp_buffer = fills f, cp_fd = fd_of (other_copy f) c,
       cp_interests = j, cp_other = f\<rparr>"
    using get_copies[of c f] c unfolding copy_ok_def by blast
  let ?i = "i AND NOT bx" and ?j = "j AND NOT bb"
  let ?x = "\<lparr>cp_buffer = drains f, cp_fd = fd_of f c, cp_interests = ?i, cp_other = other_copy f\<rparr>"
  let ?y = "\<lparr>cp_buffer = fills f, cp_fd = fd_of (other_copy f) c, cp_interests = ?j, cp_other = f\<rparr>"
  let ?c1 = "set_copy f ?x c"
  let ?c2 = "set_copy (other_copy f) ?y ?c1"
  let ?w1 = "os_shutdown os (fd_of f c) hx (e_world e)"
  let ?e1 = "poke (fd_of f c) ?i (e\<lparr>e_world := ?w1\<rparr>)"
  let ?w2 = "os_shutdown os (fd_of (other_copy f) c) hy ?w1"
  let ?e2 = "poke (fd_of (other_copy f) c) ?j (?e1\<lparr>e_world := ?w2\<rparr>)"
  have r0: "registry_ok (e\<lparr>e_world := ?w1\<rparr>)" using e by simp
  have r1: "registry_ok (?e1\<lparr>e_world := ?w2\<rparr>)" using registry_poke[OF r0] by simp
  have run: "shut_direction os f hx bx (other_copy f) hy bb (c, e) = Some (?c2, ?e2)"
    unfolding shut_direction_def
    using g set_interest_status[OF r0, of "fd_of f c" ?i] set_interest_status[OF r1, of "fd_of (other_copy f) c" ?j]
    by (simp add: Let_def)
  have "copy_ok ?c1" by (rule copy_ok_set_copy[OF c refl])
  then have c2: "copy_ok ?c2" by (rule copy_ok_set_copy) simp
  have fr: "env_frame e ?e2"
    by (intro env_frame_poke env_frame_ext env_frame_refl[OF e])
  have int: "interest_of ?e2 fd = interest_of (poke (fd_of (other_copy f) c) ?j (poke (fd_of f c) ?i e)) fd" for fd
    by (simp add: poke_world)
  show ?thesis unfolding run using c2 fr int g by simp
qed

lemma or_nonzero: "(a::fd_interest) OR b = 0 \<longleftrightarrow> a = 0 \<and> b = 0"
  by (auto simp: bit_eq_iff bit_simps)

lemma flow_bits:
  "flow rd wr = 0 \<longleftrightarrow> buffer_room rd = 0 \<and> buffer_window wr = []"
  by (simp add: flow_def or_nonzero)

text \<open>A buffer of positive capacity has data or room, so the two flows are never both zero.\<close>

lemma flows_nonzero:
  assumes "copy_ok c"
  shows "flow_of f c OR flow_of (other_copy f) c \<noteq> 0"
proof
  assume "flow_of f c OR flow_of (other_copy f) c = 0"
  then have "buffer_room (get_buf (fills f) c) = 0" "buffer_window (get_buf (fills f) c) = []"
    by (simp_all add: or_nonzero flow_of_def flow_bits)
  with get_buf_ok[OF assms, of "fills f"] room_of_empty[of "get_buf (fills f) c"] show False by simp
qed

lemma copy_or_done_flow:
  assumes "copy_ok c" "map_option cp_interests (get_copy f c) = Some (flow_of f d)"
    "map_option cp_interests (get_copy (other_copy f) c) = Some (flow_of (other_copy f) d)" "copy_ok d"
  shows "copy_or_done f (other_copy f) (c, e) = Some (COPY, c, e)"
  using assms flows_nonzero[OF assms(4), of f] by (auto simp: copy_or_done_def)

lemma copy_or_done_total:
  assumes "copy_ok c"
  obtains q where "copy_or_done f (other_copy f) (c, e) = Some (q, c, e)" "q = COPY \<or> q = DONE"
proof -
  obtain x y where "get_copy f c = Some x" "get_copy (other_copy f) c = Some y"
    using get_copies[of c f] assms unfolding copy_ok_def by metis
  with that show ?thesis
    by (cases "cp_interests x OR cp_interests y = 0") (simp_all add: copy_or_done_def)
qed

text \<open>
  What the two ways out of a handler leave. After progress the interests follow the buffers;
  after the end of a direction (\<open>f\<close> loses the bit \<open>bx\<close>, the other side \<open>bb\<close>) the buffers are as
  they were, whatever they still hold.
\<close>

definition progressed :: "copy_ref \<Rightarrow> socks5 \<Rightarrow> ('w, 'm) env_scheme \<Rightarrow> nat \<Rightarrow> socks5 \<Rightarrow> ('w, 'm) env_scheme \<Rightarrow> bool" where
  "progressed f c e q c' e' \<longleftrightarrow>
     (if sel_entry e (fd_of f c) \<noteq> None \<and> sel_entry e (fd_of (other_copy f) c) \<noteq> None
      then q = COPY \<and> interest_of e' (fd_of f c) = Some (flow_of f c')
        \<and> interest_of e' (fd_of (other_copy f) c) = Some (flow_of (other_copy f) c')
      else q = ERROR)"

definition direction_shut ::
  "'w os \<Rightarrow> copy_ref \<Rightarrow> shut \<Rightarrow> fd_interest \<Rightarrow> shut \<Rightarrow> fd_interest \<Rightarrow> 'w \<Rightarrow> socks5 \<Rightarrow> ('w, 'm) env_scheme
   \<Rightarrow> nat \<Rightarrow> socks5 \<Rightarrow> ('w, 'm) env_scheme \<Rightarrow> bool" where
  "direction_shut os f hx bx hy bb w c e q c' e' \<longleftrightarrow>
     (q = COPY \<or> q = DONE) \<and> (\<forall>b. get_buf b c' = get_buf b c) \<and> e_metrics e' = e_metrics e
     \<and> e_world e' = os_shutdown os (fd_of (other_copy f) c) hy (os_shutdown os (fd_of f c) hx w)
     \<and> (\<forall>i. interest_of e' (fd_of f c) = Some i \<longrightarrow> i AND bx = 0)
     \<and> (\<forall>i. interest_of e' (fd_of (other_copy f) c) = Some i \<longrightarrow> i AND bb = 0)"

lemma and_not_and [simp]: "((i::fd_interest) AND NOT b) AND b = 0"
  by (rule bit_eqI) (auto simp: bit_simps)

lemma interest_None: "interest_of e fd = None \<longleftrightarrow> sel_entry e fd = None"
  by (simp add: interest_of_def)

lemma shut_done:
  assumes c: "copy_ok c" and e: "registry_ok e" and f: "fd_of f c \<noteq> fd_of (other_copy f) c"
  shows "\<exists>q c' e'. (do { (c, e) \<leftarrow> shut_direction os f hx bx (other_copy f) hy bb (c, e);
        copy_or_done f (other_copy f) (c, e) }) = Some (q, c', e') \<and> copy_ok c'
    \<and> client_fd c' = client_fd c \<and> origin_fd c' = origin_fd c \<and> env_frame e e'
    \<and> direction_shut os f hx bx hy bb (e_world e) c e q c' e'"
proof -
  obtain c' e' i j where r: "shut_direction os f hx bx (other_copy f) hy bb (c, e) = Some (c', e')" "copy_ok c'"
    "client_fd c' = client_fd c" "origin_fd c' = origin_fd c" "\<forall>b. get_buf b c' = get_buf b c"
    "env_frame e e'" "e_metrics e' = e_metrics e"
    "e_world e' = os_shutdown os (fd_of (other_copy f) c) hy (os_shutdown os (fd_of f c) hx (e_world e))"
    "\<forall>fd. interest_of e' fd = interest_of (poke (fd_of (other_copy f) c) (j AND NOT bb)
       (poke (fd_of f c) (i AND NOT bx) e)) fd"
    using shut_spec[OF c e, of os f hx bx hy bb] by blast
  obtain q where q: "copy_or_done f (other_copy f) (c', e') = Some (q, c', e')" "q = COPY \<or> q = DONE"
    using copy_or_done_total[OF r(2)] .
  have "k AND bx = 0" if "interest_of e' (fd_of f c) = Some k" for k
    using that f r(9) by (auto simp: interest_poke)
  moreover have "k AND bb = 0" if "interest_of e' (fd_of (other_copy f) c) = Some k" for k
    using that f r(9) by (auto simp: interest_poke)
  ultimately show ?thesis using r q by (auto simp: direction_shut_def)
qed

lemma update_done:
  assumes c: "copy_ok c" and e: "registry_ok e" and f: "fd_of f c \<noteq> fd_of (other_copy f) c"
  shows "\<exists>q c' e'. (do { (r, c, e) \<leftarrow> update_target_interests f (c, e);
        (if r < 0 then Some (ERROR, c, e) else copy_or_done f (other_copy f) (c, e)) }) = Some (q, c', e')
    \<and> copy_ok c' \<and> client_fd c' = client_fd c \<and> origin_fd c' = origin_fd c
    \<and> (\<forall>b. get_buf b c' = get_buf b c)
    \<and> env_frame e e' \<and> e_world e' = e_world e \<and> e_metrics e' = e_metrics e \<and> progressed f c e q c' e'"
proof -
  obtain r c' e' where u: "update_target_interests f (c, e) = Some (r, c', e')" "copy_ok c'"
    "client_fd c' = client_fd c" "origin_fd c' = origin_fd c" "\<forall>b. get_buf b c' = get_buf b c"
    "env_frame e e'" "e_world e' = e_world e" "e_metrics e' = e_metrics e"
    "sel_entry e (fd_of f c) \<noteq> None \<and> sel_entry e (fd_of (other_copy f) c) \<noteq> None \<longrightarrow>
        0 \<le> r
        \<and> e' = poke (fd_of (other_copy f) c) (flow_of (other_copy f) c) (poke (fd_of f c) (flow_of f c) e)
        \<and> map_option cp_interests (get_copy f c') = Some (flow_of f c)
        \<and> map_option cp_interests (get_copy (other_copy f) c') = Some (flow_of (other_copy f) c)"
    "sel_entry e (fd_of f c) = None \<or> sel_entry e (fd_of (other_copy f) c) = None \<longrightarrow> r = - 1"
    using update_spec[OF c e f] by (elim exE conjE) (rule that)
  have fl: "flow_of g c' = flow_of g c" for g using u(5) by (simp add: flow_of_def)
  show ?thesis
  proof (cases "sel_entry e (fd_of f c) \<noteq> None \<and> sel_entry e (fd_of (other_copy f) c) \<noteq> None")
    case True
    then have some: "interest_of e (fd_of f c) \<noteq> None" "interest_of e (fd_of (other_copy f) c) \<noteq> None"
      by (simp_all add: interest_None)
    from True have "copy_or_done f (other_copy f) (c', e') = Some (COPY, c', e')"
      using copy_or_done_flow[OF u(2) _ _ c] u(9) by blast
    moreover have "interest_of e' (fd_of f c) = Some (flow_of f c)"
      "interest_of e' (fd_of (other_copy f) c) = Some (flow_of (other_copy f) c)"
      using True u(9) f some by (auto simp: interest_poke)
    ultimately show ?thesis using True u fl by (auto simp: progressed_def)
  next
    case False
    with u fl show ?thesis by (auto simp: progressed_def)
  qed
qed

lemma fd_distinct: "copy_ok c \<Longrightarrow> fd_of f c \<noteq> fd_of (other_copy f) c"
  by (cases f) (auto simp: copy_ok_def fd_of_def other_copy_def)

lemma from_copy_fd: "copy_ok c \<Longrightarrow> k_fd key = fd_of f c \<Longrightarrow> f = from_copy key c"
  by (cases f) (auto simp: copy_ok_def fd_of_def from_copy_def)

lemma copy_read_spec:
  assumes os: "os_ok os" and c: "copy_ok c" and e: "registry_ok e" and f: "f = from_copy key c"
  shows "\<exists>q c' e'. socksv5_copy_read os key (c, e) = Some (q, c', e') \<and> copy_ok c'
    \<and> client_fd c' = client_fd c \<and> origin_fd c' = origin_fd c \<and> env_frame e e'
    \<and> get_buf (drains f) c' = get_buf (drains f) c
    \<and> (if buffer_room (get_buf (fills f) c) = 0 then q = COPY \<and> c' = c \<and> e' = e
       else case os_recv os (fd_of f c) (buffer_room (get_buf (fills f) c)) (e_world e) of
         (SysErr _, w) \<Rightarrow> direction_shut os f SHUT_RD OP_READ SHUT_WR OP_WRITE w c e q c' e'
       | (SysOk bs, w) \<Rightarrow>
           if bs = [] then direction_shut os f SHUT_RD OP_READ SHUT_WR OP_WRITE w c e q c' e'
           else buffer_window (get_buf (fills f) c') = buffer_window (get_buf (fills f) c) @ bs
             \<and> e_world e' = w
             \<and> e_metrics e' = register_bytes_transferred 0 (int (length bs)) (e_metrics e)
             \<and> progressed f c e q c' e')"
proof -
  let ?b = "get_buf (fills f) c"
  obtain i j where g: "get_copy f c = Some \<lparr>cp_buffer = drains f, cp_fd = fd_of f c, cp_interests = i, cp_other = other_copy f\<rparr>"
    "get_copy (other_copy f) c = Some \<lparr>cp_buffer = fills f, cp_fd = fd_of (other_copy f) c, cp_interests = j, cp_other = f\<rparr>"
    using get_copies[of c f] c unfolding copy_ok_def by blast
  have b: "buffer_inv ?b" "b_limit ?b = BUFFER_SIZE" using get_buf_ok[OF c] by auto
  have start: "socksv5_copy_read os key (c, e) =
      (if buffer_room ?b = 0 then Some (COPY, c, e)
       else do {
        (readBytes, b, w) \<leftarrow> recv_into os (fd_of f c) ?b (e_world e);
        (if readBytes > 0 then do {
           b \<leftarrow> buffer_write_adv b readBytes;
           (r, c, e) \<leftarrow> update_target_interests f (set_buf (fills f) b c,
             e\<lparr>e_world := w, e_metrics := register_bytes_transferred 0 readBytes (e_metrics e)\<rparr>);
           (if r < 0 then Some (ERROR, c, e) else copy_or_done f (other_copy f) (c, e))
         } else do {
           (c, e) \<leftarrow> shut_direction os f SHUT_RD OP_READ (other_copy f) SHUT_WR OP_WRITE (set_buf (fills f) b c, e\<lparr>e_world := w\<rparr>);
           copy_or_done f (other_copy f) (c, e)
         })
      })"
    unfolding socksv5_copy_read_def using g f[symmetric] can_write_iff[OF b(1)]
    by (simp add: Let_def cong: prod.case_cong if_cong)
  have eof: "\<exists>q c' e'. (do { (c, e) \<leftarrow> shut_direction os f SHUT_RD OP_READ (other_copy f) SHUT_WR OP_WRITE
          (set_buf (fills f) ?b c, e\<lparr>e_world := w\<rparr>);
        copy_or_done f (other_copy f) (c, e) }) = Some (q, c', e') \<and> copy_ok c'
      \<and> client_fd c' = client_fd c \<and> origin_fd c' = origin_fd c \<and> env_frame e e'
      \<and> direction_shut os f SHUT_RD OP_READ SHUT_WR OP_WRITE w c e q c' e'" for w
  proof -
    have same: "set_buf (fills f) ?b c = c" by (cases f) (simp_all add: copy_refs)
    have "registry_ok (e\<lparr>e_world := w\<rparr>)" using e by simp
    from shut_done[OF c this fd_distinct[OF c], of os f SHUT_RD OP_READ SHUT_WR OP_WRITE] show ?thesis
      unfolding same by (simp add: env_frame_def direction_shut_def)
  qed
  show ?thesis
  proof (cases "buffer_room ?b = 0")
    case True
    then show ?thesis using start c e env_frame_refl by simp
  next
    case room: False
    from os b(1) show ?thesis
    proof (cases rule: recv_cases[where fd = "fd_of f c" and w = "e_world e"])
      case (err x w)
      obtain q c' e' where "(do { (c, e) \<leftarrow> shut_direction os f SHUT_RD OP_READ (other_copy f) SHUT_WR OP_WRITE
          (set_buf (fills f) ?b c, e\<lparr>e_world := w\<rparr>);
        copy_or_done f (other_copy f) (c, e) }) = Some (q, c', e')" "copy_ok c'"
        "client_fd c' = client_fd c" "origin_fd c' = origin_fd c" "env_frame e e'"
        "direction_shut os f SHUT_RD OP_READ SHUT_WR OP_WRITE w c e q c' e'"
        using eof by blast
      then show ?thesis using start room err by (simp add: direction_shut_def)
    next
      case (got bs w b1 b2)
      show ?thesis
      proof (cases "bs = []")
        case True
        have "b1 = ?b" using got(2) True write_ptr_eq[OF b(1)] got(1)
          by (simp add: recv_into_def buffer_land_def)
        moreover obtain q c' e' where "(do { (c, e) \<leftarrow> shut_direction os f SHUT_RD OP_READ (other_copy f) SHUT_WR OP_WRITE
            (set_buf (fills f) ?b c, e\<lparr>e_world := w\<rparr>);
          copy_or_done f (other_copy f) (c, e) }) = Some (q, c', e')" "copy_ok c'"
          "client_fd c' = client_fd c" "origin_fd c' = origin_fd c" "env_frame e e'"
          "direction_shut os f SHUT_RD OP_READ SHUT_WR OP_WRITE w c e q c' e'"
          using eof by blast
        ultimately show ?thesis using start room got(1,2) True by (simp add: direction_shut_def)
      next
        case False
        let ?c = "set_buf (fills f) b2 c"
        let ?e = "e\<lparr>e_world := w, e_metrics := register_bytes_transferred 0 (int (length bs)) (e_metrics e)\<rparr>"
        have c1: "copy_ok ?c" using copy_ok_set_buf[OF c got(4)] got(6) b(2) by simp
        have e1: "registry_ok ?e" using e by simp
        obtain q c' e' where "(do { (r, c, e) \<leftarrow> update_target_interests f (?c, ?e);
            (if r < 0 then Some (ERROR, c, e) else copy_or_done f (other_copy f) (c, e)) }) = Some (q, c', e')"
          "copy_ok c'" "client_fd c' = client_fd ?c" "origin_fd c' = origin_fd ?c" "\<forall>b. get_buf b c' = get_buf b ?c"
          "env_frame ?e e'" "e_world e' = w" "e_metrics e' = e_metrics ?e" "progressed f ?c ?e q c' e'"
          using update_done[OF c1 e1 fd_distinct[OF c1], of f] by auto
        moreover have "progressed f c e q c' e'" "env_frame e e'"
          using calculation by (simp_all add: progressed_def env_frame_def cong: if_cong)
        ultimately show ?thesis using start room got(1,2,3,5) False by simp
      qed
    qed
  qed
qed

lemma copy_write_spec:
  assumes os: "os_ok os" and c: "copy_ok c" and e: "registry_ok e" and f: "f = from_copy key c"
  shows "\<exists>q c' e'. socksv5_copy_write os key (c, e) = Some (q, c', e') \<and> copy_ok c'
    \<and> client_fd c' = client_fd c \<and> origin_fd c' = origin_fd c \<and> env_frame e e'
    \<and> get_buf (fills f) c' = get_buf (fills f) c
    \<and> (if buffer_window (get_buf (drains f) c) = [] then q = COPY \<and> c' = c \<and> e' = e
       else case os_send os (fd_of f c) (buffer_window (get_buf (drains f) c)) (e_world e) of
         (SysErr _, w) \<Rightarrow> direction_shut os f SHUT_WR OP_WRITE SHUT_RD OP_READ w c e q c' e'
       | (SysOk n, w) \<Rightarrow>
           if n = 0 then direction_shut os f SHUT_WR OP_WRITE SHUT_RD OP_READ w c e q c' e'
           else buffer_window (get_buf (drains f) c') = drop n (buffer_window (get_buf (drains f) c))
             \<and> e_world e' = w
             \<and> e_metrics e' = register_bytes_transferred (int n) 0 (e_metrics e)
             \<and> progressed f c e q c' e')"
proof -
  let ?b = "get_buf (drains f) c"
  obtain i j where g: "get_copy f c = Some \<lparr>cp_buffer = drains f, cp_fd = fd_of f c, cp_interests = i, cp_other = other_copy f\<rparr>"
    using get_copies[of c f] c unfolding copy_ok_def by blast
  have b: "buffer_inv ?b" "b_limit ?b = BUFFER_SIZE" using get_buf_ok[OF c] by auto
  have start: "socksv5_copy_write os key (c, e) =
      (if buffer_window ?b = [] then Some (COPY, c, e)
       else do {
        (n, w) \<leftarrow> send_from os (fd_of f c) ?b (e_world e);
        (if n > 0 then do {
           b \<leftarrow> buffer_read_adv ?b n;
           (r, c, e) \<leftarrow> update_target_interests f (set_buf (drains f) b c,
             e\<lparr>e_world := w, e_metrics := register_bytes_transferred n 0 (e_metrics e)\<rparr>);
           (if r < 0 then Some (ERROR, c, e) else copy_or_done f (other_copy f) (c, e))
         } else do {
           (c, e) \<leftarrow> shut_direction os f SHUT_WR OP_WRITE (other_copy f) SHUT_RD OP_READ (c, e\<lparr>e_world := w\<rparr>);
           copy_or_done f (other_copy f) (c, e)
         })
      })"
    unfolding socksv5_copy_write_def using g f[symmetric] can_read_iff[OF b(1)]
    by (simp add: Let_def cong: prod.case_cong if_cong)
  have eof: "\<exists>q c' e'. (do { (c, e) \<leftarrow> shut_direction os f SHUT_WR OP_WRITE (other_copy f) SHUT_RD OP_READ
          (c, e\<lparr>e_world := w\<rparr>);
        copy_or_done f (other_copy f) (c, e) }) = Some (q, c', e') \<and> copy_ok c'
      \<and> client_fd c' = client_fd c \<and> origin_fd c' = origin_fd c \<and> env_frame e e'
      \<and> direction_shut os f SHUT_WR OP_WRITE SHUT_RD OP_READ w c e q c' e'" for w
  proof -
    have "registry_ok (e\<lparr>e_world := w\<rparr>)" using e by simp
    from shut_done[OF c this fd_distinct[OF c], of os f SHUT_WR OP_WRITE SHUT_RD OP_READ] show ?thesis
      by (simp add: env_frame_def direction_shut_def)
  qed
  show ?thesis
  proof (cases "buffer_window ?b = []")
    case True
    then show ?thesis using start c e env_frame_refl by simp
  next
    case data: False
    from os b(1) show ?thesis
    proof (cases rule: send_cases[where fd = "fd_of f c" and w = "e_world e"])
      case (err x w)
      obtain q c' e' where "(do { (c, e) \<leftarrow> shut_direction os f SHUT_WR OP_WRITE (other_copy f) SHUT_RD OP_READ
          (c, e\<lparr>e_world := w\<rparr>);
        copy_or_done f (other_copy f) (c, e) }) = Some (q, c', e')" "copy_ok c'"
        "client_fd c' = client_fd c" "origin_fd c' = origin_fd c" "env_frame e e'"
        "direction_shut os f SHUT_WR OP_WRITE SHUT_RD OP_READ w c e q c' e'"
        using eof by blast
      then show ?thesis using start data err by (simp add: direction_shut_def)
    next
      case (sent n w b2)
      show ?thesis
      proof (cases "n = 0")
        case True
        obtain q c' e' where "(do { (c, e) \<leftarrow> shut_direction os f SHUT_WR OP_WRITE (other_copy f) SHUT_RD OP_READ
            (c, e\<lparr>e_world := w\<rparr>);
          copy_or_done f (other_copy f) (c, e) }) = Some (q, c', e')" "copy_ok c'"
          "client_fd c' = client_fd c" "origin_fd c' = origin_fd c" "env_frame e e'"
          "direction_shut os f SHUT_WR OP_WRITE SHUT_RD OP_READ w c e q c' e'"
          using eof by blast
        then show ?thesis using start data sent(1,2) True by (simp add: direction_shut_def)
      next
        case False
        let ?c = "set_buf (drains f) b2 c"
        let ?e = "e\<lparr>e_world := w, e_metrics := register_bytes_transferred (int n) 0 (e_metrics e)\<rparr>"
        have c1: "copy_ok ?c" using copy_ok_set_buf[OF c sent(5)] sent(7) b(2) by simp
        have e1: "registry_ok ?e" using e by simp
        obtain q c' e' where "(do { (r, c, e) \<leftarrow> update_target_interests f (?c, ?e);
            (if r < 0 then Some (ERROR, c, e) else copy_or_done f (other_copy f) (c, e)) }) = Some (q, c', e')"
          "copy_ok c'" "client_fd c' = client_fd ?c" "origin_fd c' = origin_fd ?c" "\<forall>b. get_buf b c' = get_buf b ?c"
          "env_frame ?e e'" "e_world e' = w" "e_metrics e' = e_metrics ?e" "progressed f ?c ?e q c' e'"
          using update_done[OF c1 e1 fd_distinct[OF c1], of f] by auto
        moreover have "progressed f c e q c' e'" "env_frame e e'"
          using calculation by (simp_all add: progressed_def env_frame_def cong: if_cong)
        ultimately show ?thesis using start data sent(1,2,4,6) False by simp
      qed
    qed
  qed
qed

section \<open>The relay\<close>

text \<open>A log of what \<open>recv\<close> returned and \<open>send\<close> took, kept beside the world of any system.\<close>

datatype io = Recv int "byte list" | Sent int "byte list"

definition keep_log :: "('w \<Rightarrow> 'r \<times> 'w) \<Rightarrow> 'w \<times> io list \<Rightarrow> 'r \<times> 'w \<times> io list" where
  "keep_log f = (\<lambda>(w, l). case f w of (r, w') \<Rightarrow> (r, w', l))"

definition traced :: "'w os \<Rightarrow> ('w \<times> io list) os" where
  "traced os = \<lparr>
     os_recv = (\<lambda>fd n (w, l). case os_recv os fd n w of
        (SysErr x, w') \<Rightarrow> (SysErr x, w', l) | (SysOk bs, w') \<Rightarrow> (SysOk bs, w', l @ [Recv fd bs])),
     os_send = (\<lambda>fd bs (w, l). case os_send os fd bs w of
        (SysErr x, w') \<Rightarrow> (SysErr x, w', l) | (SysOk n, w') \<Rightarrow> (SysOk n, w', l @ [Sent fd (take n bs)])),
     os_shutdown = (\<lambda>fd h (w, l). (os_shutdown os fd h w, l)),
     os_close = (\<lambda>fd (w, l). (os_close os fd w, l)),
     os_socket = (\<lambda>a b c. keep_log (os_socket os a b c)),
     os_connect = (\<lambda>fd a. keep_log (os_connect os fd a)),
     os_so_error = (\<lambda>fd. keep_log (os_so_error os fd)),
     os_getsockname = (\<lambda>fd. keep_log (os_getsockname os fd)),
     os_accept = (\<lambda>fd. keep_log (os_accept os fd)),
     os_getfd = (\<lambda>fd. keep_log (os_getfd os fd)),
     os_setfl = (\<lambda>fd f. keep_log (os_setfl os fd f)),
     os_malloc = keep_log (os_malloc os),
     os_thread = keep_log (os_thread os),
     os_uninit = (\<lambda>n (w, l). os_uninit os n w),
     os_ntop = os_ntop os,
     os_pton = os_pton os,
     os_getaddrinfo = (\<lambda>h p. keep_log (os_getaddrinfo os h p)) \<rparr>"

lemma os_ok_traced: "os_ok os \<Longrightarrow> os_ok (traced os)"
  unfolding os_ok_def [of "traced os"]
  by (auto simp: traced_def os_uninitD dest: os_recvD os_sendD split: sys.splits prod.splits)

fun recvd_on :: "int \<Rightarrow> io list \<Rightarrow> byte list" where
  "recvd_on fd [] = []"
| "recvd_on fd (Recv f bs # l) = (if f = fd then bs @ recvd_on fd l else recvd_on fd l)"
| "recvd_on fd (Sent f bs # l) = recvd_on fd l"

fun sent_on :: "int \<Rightarrow> io list \<Rightarrow> byte list" where
  "sent_on fd [] = []"
| "sent_on fd (Sent f bs # l) = (if f = fd then bs @ sent_on fd l else sent_on fd l)"
| "sent_on fd (Recv f bs # l) = sent_on fd l"

lemma log_append [simp]:
  "recvd_on fd (l @ l') = recvd_on fd l @ recvd_on fd l'"
  "sent_on fd (l @ l') = sent_on fd l @ sent_on fd l'"
  by (induction l rule: recvd_on.induct) auto

text \<open>Read and write events on either descriptor, while the machine stays in \<open>COPY\<close>.\<close>

datatype copy_event = Readable int | Writable int

definition copy_step :: "'w os \<Rightarrow> copy_event \<Rightarrow> attachment option \<Rightarrow> ('w, 'm) hstate \<Rightarrow> (nat \<times> ('w, 'm) hstate) option" where
  "copy_step os ev d s = (case ev of
     Readable fd \<Rightarrow> socksv5_copy_read os \<lparr>k_fd = fd, k_data = d\<rparr> s
   | Writable fd \<Rightarrow> socksv5_copy_write os \<lparr>k_fd = fd, k_data = d\<rparr> s)"

fun copy_run :: "'w os \<Rightarrow> copy_event list \<Rightarrow> attachment option \<Rightarrow> ('w, 'm) hstate \<Rightarrow> (nat \<times> ('w, 'm) hstate) option" where
  "copy_run os [] d s = Some (COPY, s)"
| "copy_run os (ev # evs) d s = do {
     (q, s) \<leftarrow> copy_step os ev d s;
     (if q = COPY then copy_run os evs d s else Some (q, s))
   }"

text \<open>Both channels, from a start \<open>c\<close> with an empty log.\<close>

definition relayed :: "socks5 \<Rightarrow> socks5 \<Rightarrow> io list \<Rightarrow> bool" where
  "relayed c c' l \<longleftrightarrow>
     sent_on (origin_fd c) l @ buffer_window (client_buffer c') = buffer_window (client_buffer c) @ recvd_on (client_fd c) l
   \<and> sent_on (client_fd c) l @ buffer_window (origin_buffer c') = buffer_window (origin_buffer c) @ recvd_on (origin_fd c) l"

lemma relayed_iff:
  "relayed c c' l \<longleftrightarrow> (\<forall>f. sent_on (fd_of (other_copy f) c) l @ buffer_window (get_buf (fills f) c')
     = buffer_window (get_buf (fills f) c) @ recvd_on (fd_of f c) l)"
proof -
  have all: "(\<forall>f. P f) \<longleftrightarrow> P CLIENT_COPY \<and> P ORIGIN_COPY" for P by (metis copy_ref.exhaust)
  show ?thesis unfolding all by (simp add: relayed_def copy_refs)
qed

lemma copy_ref_cases: "f' = f \<or> f' = other_copy f"
  by (cases f; cases f') (auto simp: other_copy_def)

lemma relayed_idle:
  assumes "\<forall>b. get_buf b c' = get_buf b c" "l = [] \<or> l = [Recv x []] \<or> l = [Sent y []]"
  shows "relayed c c' l"
  using assms by (auto simp: relayed_iff)

lemma relayed_in:
  assumes "buffer_window (get_buf (fills f) c') = buffer_window (get_buf (fills f) c) @ bs"
    "get_buf (drains f) c' = get_buf (drains f) c" "fd_of f c \<noteq> fd_of (other_copy f) c"
  shows "relayed c c' [Recv (fd_of f c) bs]"
  unfolding relayed_iff
proof
  fix g
  show "sent_on (fd_of (other_copy g) c) [Recv (fd_of f c) bs] @ buffer_window (get_buf (fills g) c')
     = buffer_window (get_buf (fills g) c) @ recvd_on (fd_of g c) [Recv (fd_of f c) bs]"
  proof (cases "g = f")
    case True
    with assms show ?thesis by simp
  next
    case False
    then have "g = other_copy f" using copy_ref_cases[of g f] by simp
    with assms show ?thesis by simp
  qed
qed

lemma relayed_out:
  assumes "buffer_window (get_buf (drains f) c') = drop n (buffer_window (get_buf (drains f) c))"
    "get_buf (fills f) c' = get_buf (fills f) c" "fd_of f c \<noteq> fd_of (other_copy f) c"
  shows "relayed c c' [Sent (fd_of f c) (take n (buffer_window (get_buf (drains f) c)))]"
  unfolding relayed_iff
proof
  fix g
  show "sent_on (fd_of (other_copy g) c) [Sent (fd_of f c) (take n (buffer_window (get_buf (drains f) c)))]
      @ buffer_window (get_buf (fills g) c')
     = buffer_window (get_buf (fills g) c)
      @ recvd_on (fd_of g c) [Sent (fd_of f c) (take n (buffer_window (get_buf (drains f) c)))]"
  proof (cases "g = f")
    case True
    with assms show ?thesis by simp
  next
    case False
    then have "g = other_copy f" using copy_ref_cases[of g f] by simp
    with assms show ?thesis by simp
  qed
qed

lemma traced_shutdown: "os_shutdown (traced os) fd h (w, l) = (os_shutdown os fd h w, l)"
  by (simp add: traced_def)

lemma relay_step:
  assumes os: "os_ok os" and c: "copy_ok c" and e: "registry_ok e" and l: "e_world e = (w, l)"
  shows "\<exists>q c' e' w' l'. copy_step (traced os) ev d (c, e) = Some (q, c', e') \<and> copy_ok c' \<and> env_frame e e'
    \<and> client_fd c' = client_fd c \<and> origin_fd c' = origin_fd c
    \<and> e_world e' = (w', l @ l') \<and> relayed c c' l'"
proof (cases ev)
  case (Readable fd)
  let ?key = "\<lparr>k_fd = fd, k_data = d\<rparr>"
  define f where "f = from_copy ?key c"
  let ?b = "get_buf (fills f) c"
  obtain q c' e' where r: "socksv5_copy_read (traced os) ?key (c, e) = Some (q, c', e')" "copy_ok c'"
    "client_fd c' = client_fd c" "origin_fd c' = origin_fd c" "env_frame e e'"
    "get_buf (drains f) c' = get_buf (drains f) c"
    and o: "if buffer_room ?b = 0 then q = COPY \<and> c' = c \<and> e' = e
       else case os_recv (traced os) (fd_of f c) (buffer_room ?b) (e_world e) of
         (SysErr _, w) \<Rightarrow> direction_shut (traced os) f SHUT_RD OP_READ SHUT_WR OP_WRITE w c e q c' e'
       | (SysOk bs, w) \<Rightarrow>
           if bs = [] then direction_shut (traced os) f SHUT_RD OP_READ SHUT_WR OP_WRITE w c e q c' e'
           else buffer_window (get_buf (fills f) c') = buffer_window ?b @ bs
             \<and> e_world e' = w
             \<and> e_metrics e' = register_bytes_transferred 0 (int (length bs)) (e_metrics e)
             \<and> progressed f c e q c' e'"
    using copy_read_spec[OF os_ok_traced[OF os] c e f_def] by blast
  have "\<exists>w' l'. e_world e' = (w', l @ l') \<and> relayed c c' l'"
  proof (cases "buffer_room ?b = 0")
    case True
    then have "relayed c c' []" using o by (auto intro!: relayed_idle)
    then show ?thesis using o True l by auto
  next
    case room: False
    obtain x w1 where x: "os_recv os (fd_of f c) (buffer_room ?b) w = (x, w1)" by fastforce
    show ?thesis
    proof (cases x)
      case (SysErr n)
      then have s: "direction_shut (traced os) f SHUT_RD OP_READ SHUT_WR OP_WRITE (w1, l) c e q c' e'"
        using o room x l by (simp add: traced_def)
      then have "relayed c c' []" by (intro relayed_idle) (auto simp: direction_shut_def)
      then show ?thesis using s by (auto simp: direction_shut_def traced_shutdown)
    next
      case (SysOk bs)
      show ?thesis
      proof (cases "bs = []")
        case True
        then have s: "direction_shut (traced os) f SHUT_RD OP_READ SHUT_WR OP_WRITE (w1, l @ [Recv (fd_of f c) []]) c e q c' e'"
          using o room x l SysOk by (simp add: traced_def)
        then have "relayed c c' [Recv (fd_of f c) []]" by (intro relayed_idle) (auto simp: direction_shut_def)
        then show ?thesis using s by (auto simp: direction_shut_def traced_shutdown)
      next
        case False
        then have "buffer_window (get_buf (fills f) c') = buffer_window ?b @ bs"
          "e_world e' = (w1, l @ [Recv (fd_of f c) bs])"
          using o room x l SysOk by (simp_all add: traced_def)
        then show ?thesis using relayed_in[OF _ r(6) fd_distinct[OF c]] by blast
      qed
    qed
  qed
  then show ?thesis using r Readable by (simp add: copy_step_def)
next
  case (Writable fd)
  let ?key = "\<lparr>k_fd = fd, k_data = d\<rparr>"
  define f where "f = from_copy ?key c"
  let ?b = "get_buf (drains f) c"
  obtain q c' e' where r: "socksv5_copy_write (traced os) ?key (c, e) = Some (q, c', e')" "copy_ok c'"
    "client_fd c' = client_fd c" "origin_fd c' = origin_fd c" "env_frame e e'"
    "get_buf (fills f) c' = get_buf (fills f) c"
    and o: "if buffer_window ?b = [] then q = COPY \<and> c' = c \<and> e' = e
       else case os_send (traced os) (fd_of f c) (buffer_window ?b) (e_world e) of
         (SysErr _, w) \<Rightarrow> direction_shut (traced os) f SHUT_WR OP_WRITE SHUT_RD OP_READ w c e q c' e'
       | (SysOk n, w) \<Rightarrow>
           if n = 0 then direction_shut (traced os) f SHUT_WR OP_WRITE SHUT_RD OP_READ w c e q c' e'
           else buffer_window (get_buf (drains f) c') = drop n (buffer_window ?b)
             \<and> e_world e' = w
             \<and> e_metrics e' = register_bytes_transferred (int n) 0 (e_metrics e)
             \<and> progressed f c e q c' e'"
    using copy_write_spec[OF os_ok_traced[OF os] c e f_def] by blast
  have "\<exists>w' l'. e_world e' = (w', l @ l') \<and> relayed c c' l'"
  proof (cases "buffer_window ?b = []")
    case True
    then have "relayed c c' []" using o by (auto intro!: relayed_idle)
    then show ?thesis using o True l by auto
  next
    case data: False
    obtain x w1 where x: "os_send os (fd_of f c) (buffer_window ?b) w = (x, w1)" by fastforce
    show ?thesis
    proof (cases x)
      case (SysErr n)
      then have s: "direction_shut (traced os) f SHUT_WR OP_WRITE SHUT_RD OP_READ (w1, l) c e q c' e'"
        using o data x l by (simp add: traced_def)
      then have "relayed c c' []" by (intro relayed_idle) (auto simp: direction_shut_def)
      then show ?thesis using s by (auto simp: direction_shut_def traced_shutdown)
    next
      case (SysOk n)
      show ?thesis
      proof (cases "n = 0")
        case True
        then have s: "direction_shut (traced os) f SHUT_WR OP_WRITE SHUT_RD OP_READ (w1, l @ [Sent (fd_of f c) []]) c e q c' e'"
          using o data x l SysOk by (simp add: traced_def)
        then have "relayed c c' [Sent (fd_of f c) []]" by (intro relayed_idle) (auto simp: direction_shut_def)
        then show ?thesis using s by (auto simp: direction_shut_def traced_shutdown)
      next
        case False
        then have "buffer_window (get_buf (drains f) c') = drop n (buffer_window ?b)"
          "e_world e' = (w1, l @ [Sent (fd_of f c) (take n (buffer_window ?b))])"
          using o data x l SysOk by (simp_all add: traced_def)
        then show ?thesis using relayed_out[OF _ r(6) fd_distinct[OF c]] by blast
      qed
    qed
  qed
  then show ?thesis using r Writable by (simp add: copy_step_def)
qed

lemma relayed_trans:
  assumes "relayed c c1 l1" "relayed c1 c2 l2" "client_fd c1 = client_fd c" "origin_fd c1 = origin_fd c"
  shows "relayed c c2 (l1 @ l2)"
  using assms by (auto simp: relayed_def simp flip: append_assoc) (simp_all add: append_assoc)

lemma relay_run:
  assumes os: "os_ok os"
  shows "copy_ok c \<Longrightarrow> registry_ok e \<Longrightarrow> e_world e = (w, l) \<Longrightarrow>
    \<exists>q c' e' w' l'. copy_run (traced os) evs d (c, e) = Some (q, c', e') \<and> copy_ok c' \<and> registry_ok e'
      \<and> e_world e' = (w', l @ l') \<and> relayed c c' l'"
proof (induction evs arbitrary: c e w l)
  case Nil
  then show ?case by (auto intro!: exI[of _ "[]"] relayed_idle)
next
  case (Cons ev evs)
  obtain q c1 e1 w1 l1 where s: "copy_step (traced os) ev d (c, e) = Some (q, c1, e1)" "copy_ok c1" "env_frame e e1"
      "client_fd c1 = client_fd c" "origin_fd c1 = origin_fd c" "e_world e1 = (w1, l @ l1)" "relayed c c1 l1"
    using relay_step[OF os Cons.prems] by blast
  have e1: "registry_ok e1" using s(3) by (simp add: env_frame_def)
  show ?case
  proof (cases "q = COPY")
    case False
    with s e1 show ?thesis by auto
  next
    case True
    obtain q' c2 e2 w2 l2 where t: "copy_run (traced os) evs d (c1, e1) = Some (q', c2, e2)" "copy_ok c2" "registry_ok e2"
        "e_world e2 = (w2, (l @ l1) @ l2)" "relayed c1 c2 l2"
      using Cons.IH[OF s(2) e1 s(6)] by blast
    with relayed_trans[OF s(7) t(5) s(4,5)] True s(1) show ?thesis by auto
  qed
qed

section \<open>Arrival\<close>

lemma copy_arrival_spec:
  assumes c: "bufs_ok c" "client_fd c \<noteq> origin_fd c" and e: "registry_ok e"
  shows "\<exists>c' e'. socksv5_copy_arrival st key (c, e) = Some (c', e') \<and> copy_ok c' \<and> env_frame e e'
    \<and> same_channel c c' \<and> e_world e' = e_world e
    \<and> e' = poke (client_fd c) (if buffer_window (client_buffer c) \<noteq> [] then OP_NOOP else OP_READ)
        (poke (origin_fd c) (if buffer_window (client_buffer c) \<noteq> [] then OP_WRITE else OP_READ) e)"
proof -
  have b: "buffer_inv (client_buffer c)" "buffer_inv (origin_buffer c)"
    using c by (auto simp: bufs_ok_def)
  let ?i = "if buffer_window (client_buffer c) \<noteq> [] then OP_WRITE else OP_READ"
  let ?j = "if buffer_window (client_buffer c) \<noteq> [] then OP_NOOP else OP_READ"
  let ?e = "poke (client_fd c) ?j (poke (origin_fd c) ?i e)"
  have e1: "registry_ok (poke (origin_fd c) ?i e)" using e by simp
  have "socksv5_copy_arrival st key (c, e) = Some (c\<lparr>client := U_copy \<lparr>cp_buffer = ORIGIN_BUFFER,
      cp_fd = client_fd c, cp_interests = OP_READ, cp_other = ORIGIN_COPY\<rparr>,
      origin_copy := Some \<lparr>cp_buffer = CLIENT_BUFFER, cp_fd = origin_fd c, cp_interests = ?i, cp_other = CLIENT_COPY\<rparr>\<rparr>, ?e)"
    using set_interest_status[OF e, of "origin_fd c" ?i] set_interest_status[OF e1, of "client_fd c" ?j]
    by (cases "buffer_window (client_buffer c) = []")
      (simp_all add: socksv5_copy_arrival_def read_ptr_eq[OF b(1)] read_ptr_eq[OF b(2)] Let_def)
  moreover have "env_frame e ?e"
    by (intro env_frame_poke env_frame_refl[OF e])
  ultimately show ?thesis
    using c by (auto simp: copy_ok_def bufs_ok_def copies_ok_def same_channel_def)
qed

end
