(* ===== verification/Protocol.thy ===== *)
theory Protocol
  imports Request Copy
begin

text \<open>
  The protocol as a state machine: the table \<open>socks5States\<close> of \<open>src/server/socks5nio.c\<close>, and the
  proof that its handlers meet the contract of the engine (\<open>machine_contract\<close>). The invariant of
  a state says which member of the union \<open>client\<close> is active, that the answer of one state is
  drained before the next one starts, and that buffers, registry and users stay consistent; so
  every handler finds the member of the union that it reads.
\<close>

section \<open>The table\<close>

definition socks5States :: "'w os \<Rightarrow> (key, ('w, 'm) hstate) state_definition list" where
  "socks5States os = [
     (plain_state GREETING)\<lparr>on_arrival := Some (greeting_arrival os), on_read_ready := Some (greeting_read os),
        on_write_ready := Some (greeting_write os)\<rparr>,
     (plain_state AUTH)\<lparr>on_arrival := Some (auth_arrival os), on_read_ready := Some (auth_read os),
        on_write_ready := Some (auth_write os)\<rparr>,
     (plain_state REQUEST)\<lparr>on_arrival := Some (request_arrival os), on_read_ready := Some (request_read os),
        on_block_ready := Some (request_block os)\<rparr>,
     (plain_state CONNECT)\<lparr>on_write_ready := Some (connect_write os)\<rparr>,
     (plain_state REPLY)\<lparr>on_arrival := Some (reply_arrival os), on_write_ready := Some (reply_write os)\<rparr>,
     (plain_state COPY)\<lparr>on_arrival := Some socksv5_copy_arrival, on_departure := Some socksv5_copy_close,
        on_read_ready := Some (socksv5_copy_read os), on_write_ready := Some (socksv5_copy_write os)\<rparr>,
     plain_state DONE,
     plain_state ERROR]"

lemma states_length [simp]: "length (socks5States os) = 8"
  by (simp add: socks5States_def)

text \<open>The handlers of each entry, by number.\<close>

lemma eight: "q < 8 \<longleftrightarrow> q \<in> {GREETING, AUTH, REQUEST, CONNECT, REPLY, COPY, DONE, ERROR}"
  by auto

lemma states_numbered: "q < 8 \<Longrightarrow> sd_state (socks5States os ! q) = q"
  unfolding eight by (auto simp: socks5States_def plain_state_def)

lemma states_arrival:
  "q < 8 \<Longrightarrow> on_arrival (socks5States os ! q) =
     (if q = GREETING then Some (greeting_arrival os) else if q = AUTH then Some (auth_arrival os)
      else if q = REQUEST then Some (request_arrival os) else if q = REPLY then Some (reply_arrival os)
      else if q = COPY then Some socksv5_copy_arrival else None)"
  unfolding eight by (auto simp: socks5States_def plain_state_def)

lemma states_departure:
  "q < 8 \<Longrightarrow> on_departure (socks5States os ! q) = (if q = COPY then Some socksv5_copy_close else None)"
  unfolding eight by (auto simp: socks5States_def plain_state_def)

lemma states_read:
  "q < 8 \<Longrightarrow> on_read_ready (socks5States os ! q) =
     (if q = GREETING then Some (greeting_read os) else if q = AUTH then Some (auth_read os)
      else if q = REQUEST then Some (request_read os) else if q = COPY then Some (socksv5_copy_read os) else None)"
  unfolding eight by (auto simp: socks5States_def plain_state_def)

lemma states_write:
  "q < 8 \<Longrightarrow> on_write_ready (socks5States os ! q) =
     (if q = GREETING then Some (greeting_write os) else if q = AUTH then Some (auth_write os)
      else if q = CONNECT then Some (connect_write os) else if q = REPLY then Some (reply_write os)
      else if q = COPY then Some (socksv5_copy_write os) else None)"
  unfolding eight by (auto simp: socks5States_def plain_state_def)

lemma states_block:
  "q < 8 \<Longrightarrow> on_block_ready (socks5States os ! q) = (if q = REQUEST then Some (request_block os) else None)"
  unfolding eight by (auto simp: socks5States_def plain_state_def)

section \<open>The invariant of the states\<close>

definition good :: "'w os \<Rightarrow> socks5 \<Rightarrow> ('w, 'm) env_scheme \<Rightarrow> bool" where
  "good os c e \<longleftrightarrow> conn_ok c \<and> env_ok e \<and> os_ok os \<and> fresh_fds os (client_fd c) \<and> names_ok os"

definition drained :: "socks5 \<Rightarrow> bool" where
  "drained c \<longleftrightarrow> buffer_window (origin_buffer c) = []"

definition auth_shape :: "auth_st \<Rightarrow> bool" where
  "auth_shape a \<longleftrightarrow> length (a_username a) = 256 \<and> length (a_password a) = 256
     \<and> (a_state a \<in> {AUTH_PLEN, AUTH_PASSWD} \<longrightarrow> a_username a ! unat (a_ulen a) = 0)"

text \<open>What must hold when a state is entered, and what holds while it lasts.\<close>

definition state_pre :: "'w os \<Rightarrow> nat \<Rightarrow> ('w, 'm) hstate \<Rightarrow> bool" where
  "state_pre os q = (\<lambda>(c, e). q = DONE \<or> q = ERROR \<or> good os c e
     \<and> (q \<noteq> COPY \<longrightarrow> drained c)
     \<and> (q = CONNECT \<longrightarrow> origin_resolution c \<noteq> [])
     \<and> (q = REPLY \<longrightarrow> (\<exists>r. client c = U_reply r)))"

definition state_inv :: "'w os \<Rightarrow> nat \<Rightarrow> ('w, 'm) hstate \<Rightarrow> bool" where
  "state_inv os q = (\<lambda>(c, e).
     if q = GREETING then good os c e \<and> (\<exists>g. client c = U_greeting g)
     else if q = AUTH then good os c e \<and> (\<exists>a. client c = U_auth a \<and> auth_shape a)
     else if q = REQUEST then good os c e \<and> drained c \<and> (\<exists>r. client c = U_request r)
     else if q = CONNECT then good os c e \<and> drained c \<and> origin_resolution c \<noteq> []
     else if q = REPLY then good os c e \<and> (\<exists>r found. client c = U_reply r \<and> found_bnd_info r = Some found)
     else if q = COPY then copy_ok c \<and> env_ok e \<and> os_ok os
     else True)"

lemma good_client [simp]: "good os (c\<lparr>client := u\<rparr>) e = good os c e"
  by (simp add: good_def conn_ok_def bufs_ok_def arrays_ok_def)

lemma drained_client [simp]: "drained (c\<lparr>client := u\<rparr>) = drained c"
  by (simp add: drained_def)

lemma goodD:
  assumes "good os c e"
  shows "conn_ok c" "bufs_ok c" "env_ok e" "registry_ok e" "os_ok os" "fresh_fds os (client_fd c)" "names_ok os"
  using assms env_ok_registry by (auto simp: good_def conn_ok_def)

lemma good_bufs:
  assumes "good os c e" "buffer_inv a" "b_limit a = BUFFER_SIZE" "buffer_inv b" "b_limit b = BUFFER_SIZE" "env_ok e'"
  shows "good os (c\<lparr>client_buffer := a, origin_buffer := b\<rparr>) e'"
  using assms by (auto simp: good_def conn_ok_def bufs_ok_def arrays_ok_def)

section \<open>The handlers meet the contract\<close>

definition keeps :: "'w os \<Rightarrow> nat \<Rightarrow> nat set \<Rightarrow> nat \<Rightarrow> ('w, 'm) hstate \<Rightarrow> bool" where
  "keeps os q0 S q s \<longleftrightarrow> q \<in> S \<and> (if q = q0 then state_inv os q s else state_pre os q s)"

lemma buffer_write_keeps:
  "buffer_write b x = Some b' \<Longrightarrow> buffer_inv b \<Longrightarrow> buffer_inv b' \<and> b_limit b' = b_limit b"
  using buffer_write_spec[of b x] by auto

lemma buffer_read_adv_keeps:
  assumes "os_ok os" "send_from os fd b w = Some (n, w')" "buffer_read_adv b n = Some b'" "buffer_inv b"
  shows "buffer_inv b' \<and> b_limit b' = b_limit b \<and> (n < 0 \<longrightarrow> b' = b)"
  using assms(1,4)
proof (cases rule: send_cases[where fd = fd and w = w])
  case (err e w'')
  have "n = - 1" using err(2) assms(2) by auto
  with assms(3,4) show ?thesis by simp
next
  case (sent k w'' b'')
  have "n = int k" using sent(2) assms(2) by auto
  with assms(3) sent show ?thesis by simp
qed

lemma poke_key_env:
  assumes "selector_set_interest_key key i e = Some (st, e')" "env_ok e"
  shows "e' = poke (k_fd key) i e" "env_ok e'"
  using set_interest_key_poke[OF env_ok_registry[OF assms(2)], of key i] assms env_ok_poke by auto

lemma poke_env:
  assumes "selector_set_interest fd i e = Some (st, e')" "env_ok e"
  shows "e' = poke fd i e" "env_ok e'"
  using set_interest_poke[OF env_ok_registry[OF assms(2)], of fd i] assms env_ok_poke by auto

lemma good_client_buffer:
  assumes "good os c e" "buffer_inv b" "b_limit b = b_limit (client_buffer c)" "env_ok e'"
  shows "good os (c\<lparr>client_buffer := b\<rparr>) e'"
  using assms by (auto simp: good_def conn_ok_def bufs_ok_def arrays_ok_def)

lemma good_origin_buffer:
  assumes "good os c e" "buffer_inv b" "b_limit b = b_limit (origin_buffer c)" "env_ok e'"
  shows "good os (c\<lparr>origin_buffer := b\<rparr>) e'"
  using assms by (auto simp: good_def conn_ok_def bufs_ok_def arrays_ok_def)

lemma good_env: "good os c e \<Longrightarrow> env_ok e' \<Longrightarrow> good os c e'"
  by (simp add: good_def)

lemma good_buffers: "good os c e \<Longrightarrow> buffer_inv (client_buffer c) \<and> buffer_inv (origin_buffer c)
    \<and> b_limit (client_buffer c) = BUFFER_SIZE \<and> b_limit (origin_buffer c) = BUFFER_SIZE"
  using goodD(2)[of os c e] by (simp add: bufs_ok_def)

subsection \<open>\<open>GREETING\<close>\<close>

lemma scan_methods_keeps:
  "scan_methods n m b = Some (x, f, b') \<Longrightarrow> buffer_inv b \<Longrightarrow> buffer_inv b' \<and> b_limit b' = b_limit b"
proof (induction n arbitrary: m b)
  case 0
  then show ?case by simp
next
  case (Suc n)
  show ?case
  proof (cases "buffer_can_read b")
    case False
    with Suc.prems show ?thesis by simp
  next
    case True
    then obtain y b1 where r: "buffer_read b = Some (y, b1)"
      using Suc.prems(1) by (auto elim!: bind_SomeE)
    have b1: "buffer_inv b1" "b_limit b1 = b_limit b" using buffer_read_keeps[OF r Suc.prems(2)] by auto
    show ?thesis
      using Suc.prems(1) True r b1 Suc.IH[OF _ b1(1)]
      by (cases "y = AUTH_METHOD") auto
  qed
qed

lemma greeting_methods_keeps:
  assumes run: "greeting_methods key (c, e) = Some (q, c', e')" and c: "good os c e"
  shows "q = GREETING \<and> good os c' e' \<and> (\<exists>g. client c' = U_greeting g)"
proof -
  note b = good_buffers[OF c]
  obtain g where g: "client c = U_greeting g"
    using run by (auto simp: greeting_methods_def the_greeting_def elim!: bind_SomeE split: client_union.splits)
  show ?thesis
  proof (cases "length (buffer_window (client_buffer c)) < unat (g_n_methods g)")
    case True
    then show ?thesis
      using run g b c by (auto simp: greeting_methods_def the_greeting_def read_ptr_eq)
  next
    case False
    then obtain m f cb x o1 ob st where r: "scan_methods (unat (g_n_methods g)) (g_method g) (client_buffer c) = Some (m, f, cb)"
      "buffer_write (origin_buffer c) SOCKS5_VERSION = Some o1" "buffer_write o1 x = Some ob"
      "selector_set_interest_key key OP_WRITE e = Some (st, e')" "q = GREETING"
      "c' = c\<lparr>client := U_greeting (g\<lparr>g_method := x\<rparr>), client_buffer := cb, origin_buffer := ob\<rparr>"
      using run g b by (auto simp: greeting_methods_def the_greeting_def read_ptr_eq Let_def elim!: bind_SomeE)
    have "good os (c\<lparr>client := U_greeting (g\<lparr>g_method := x\<rparr>)\<rparr>) e" using c by simp
    from good_bufs[OF this, of cb ob e'] have "good os c' e'"
      using scan_methods_keeps[OF r(1)] buffer_write_keeps[OF r(2)] buffer_write_keeps[OF r(3)] b
        poke_key_env[OF r(4) goodD(3)[OF c]] r(6) by simp
    then show ?thesis using r(5,6) by simp
  qed
qed

lemma greeting_read_keeps:
  assumes run: "greeting_read os key (c, e) = Some (q, c', e')" and c: "state_inv os GREETING (c, e)"
  shows "keeps os GREETING {GREETING, DONE, ERROR} q (c', e')"
proof -
  obtain g where g: "client c = U_greeting g" and c: "good os c e" using c by (auto simp: state_inv_def)
  note b = good_buffers[OF c] and os = goodD(5)[OF c]
  obtain n b1 w where rv: "recv_into os (k_fd key) (client_buffer c) (e_world e) = Some (n, b1, w)"
    using run by (auto simp: greeting_read_def elim!: bind_SomeE)
  show ?thesis
  proof (cases "n < 0")
    case True
    then show ?thesis using run rv by (simp add: greeting_read_def keeps_def state_pre_def)
  next
    case False
    then obtain b2 where wa: "buffer_write_adv b1 n = Some b2"
      using run rv by (auto simp: greeting_read_def Let_def elim!: bind_SomeE)
    have b2: "buffer_inv b2" "b_limit b2 = b_limit (client_buffer c)" using recv_keeps[OF os rv wa] b by auto
    let ?e = "e\<lparr>e_world := w\<rparr>"
    have e: "env_ok ?e" using goodD(3)[OF c] by simp
    have gb: "good os (c\<lparr>client_buffer := b'\<rparr>) ?e" if "buffer_inv b'" "b_limit b' = b_limit b2" for b'
      using good_client_buffer[OF c that(1) _ e] that(2) b2(2) by simp
    have gm: "keeps os GREETING {GREETING, DONE, ERROR} q (c', e')"
      if "greeting_methods key (c1, ?e) = Some (q, c', e')" "good os c1 ?e" for c1
      using greeting_methods_keeps[OF that] by (auto simp: keeps_def state_inv_def)
    have stay: "keeps os GREETING {GREETING, DONE, ERROR} GREETING (c\<lparr>client_buffer := b2\<rparr>, ?e)"
      using gb[OF b2(1) refl] g by (simp add: keeps_def state_inv_def)
    have out: "keeps os GREETING {GREETING, DONE, ERROR} p (c1, e1)" if "p = DONE \<or> p = ERROR" for p c1 and e1 :: "('a, 'b) env_scheme"
      using that by (auto simp: keeps_def state_pre_def)
    show ?thesis
    proof (cases "g_state g = VER_N_NMETHODS \<and> 2 \<le> length (buffer_window b2)")
      case True
      then obtain v b3 where r1: "buffer_read b2 = Some (v, b3)"
        using run rv wa g False by (auto simp: greeting_read_def the_greeting_def read_ptr_eq[OF b2(1)] Let_def split: if_splits elim!: bind_SomeE)
      note k3 = buffer_read_keeps[OF r1 b2(1)]
      show ?thesis
      proof (cases "v = SOCKS5_VERSION")
        case False
        then show ?thesis
          using run rv wa g \<open>\<not> n < 0\<close> True r1
          by (auto simp: greeting_read_def the_greeting_def read_ptr_eq[OF b2(1)] Let_def split: if_splits intro: out)
      next
        case v: True
        then obtain m b4 where r2: "buffer_read b3 = Some (m, b4)"
          using run rv wa g \<open>\<not> n < 0\<close> True r1
          by (auto simp: greeting_read_def the_greeting_def read_ptr_eq[OF b2(1)] Let_def split: if_splits elim!: bind_SomeE)
        have "good os (c\<lparr>client_buffer := b4\<rparr>) ?e" using gb buffer_read_keeps[OF r2] k3 by simp
        then have "good os (c\<lparr>client_buffer := b4, client := u\<rparr>) ?e" for u by simp
        then show ?thesis
          using run rv wa g \<open>\<not> n < 0\<close> True r1 r2 v
          by (auto simp: greeting_read_def the_greeting_def read_ptr_eq[OF b2(1)] Let_def split: if_splits intro: out gm)
      qed
    next
      case other: False
      then show ?thesis
        using run rv wa g False gb[OF b2(1) refl] stay
        by (auto simp: greeting_read_def the_greeting_def read_ptr_eq[OF b2(1)] Let_def not_le split: if_splits intro: out gm)
    qed
  qed
qed

lemma greeting_write_keeps:
  assumes run: "greeting_write os key (c, e) = Some (q, c', e')" and c: "state_inv os GREETING (c, e)"
  shows "keeps os GREETING {GREETING, AUTH, REQUEST, ERROR} q (c', e')"
proof -
  obtain g where g: "client c = U_greeting g" and c: "good os c e" using c by (auto simp: state_inv_def)
  note b = good_buffers[OF c] and os = goodD(5)[OF c]
  obtain n w where sd: "send_from os (client_fd c) (origin_buffer c) (e_world e) = Some (n, w)"
    using run by (auto simp: greeting_write_def elim!: bind_SomeE)
  let ?e = "e\<lparr>e_world := w\<rparr>"
  have e: "env_ok ?e" using goodD(3)[OF c] by simp
  show ?thesis
  proof (cases "n < 0")
    case True
    then show ?thesis using run sd by (simp add: greeting_write_def keeps_def state_pre_def)
  next
    case False
    then obtain ob where ra: "buffer_read_adv (origin_buffer c) n = Some ob"
      using run sd by (auto simp: greeting_write_def Let_def elim!: bind_SomeE)
    have ob: "buffer_inv ob" "b_limit ob = b_limit (origin_buffer c)"
      using buffer_read_adv_keeps[OF os sd ra] b by auto
    show ?thesis
    proof (cases "buffer_can_read ob")
      case True
      then show ?thesis
        using run sd False ra write_ptr_eq[OF ob(1)] good_origin_buffer[OF c ob e] g
        by (auto simp: greeting_write_def keeps_def state_inv_def Let_def)
    next
      case empty: False
      then obtain st where st: "selector_set_interest_key key OP_READ ?e = Some (st, e')"
        "q = (if g_method g = AUTH_METHOD then AUTH else REQUEST)" "c' = c\<lparr>origin_buffer := ob\<rparr>"
        using run sd False ra write_ptr_eq[OF ob(1)] g
        by (auto simp: greeting_write_def the_greeting_def Let_def elim!: bind_SomeE)
      have "drained c'" using empty can_read_iff[OF ob(1)] st(3) by (simp add: drained_def)
      moreover have "good os c' e'" unfolding st(3) by (rule good_origin_buffer[OF c ob poke_key_env(2)[OF st(1) e]])
      ultimately show ?thesis using st(2) by (simp add: keeps_def state_pre_def)
    qed
  qed
qed

subsection \<open>\<open>AUTH\<close>\<close>

definition auth_good :: "'w os \<Rightarrow> socks5 \<Rightarrow> auth_st \<Rightarrow> ('w, 'm) env_scheme \<Rightarrow> bool" where
  "auth_good os c a e \<longleftrightarrow> good os c e \<and> client c = U_auth a \<and> auth_shape a"

definition auth_kept :: "'w os \<Rightarrow> nat \<Rightarrow> socks5 \<Rightarrow> ('w, 'm) env_scheme \<Rightarrow> bool" where
  "auth_kept os q c e \<longleftrightarrow> q = ERROR \<or> q = DONE \<or> q = AUTH \<and> (\<exists>a. auth_good os c a e)"

lemma auth_kept_out: "auth_kept os ERROR c e" "auth_kept os DONE c e"
  by (simp_all add: auth_kept_def)

lemma auth_kept_stay: "auth_good os c a e \<Longrightarrow> auth_kept os AUTH c e"
  by (auto simp: auth_kept_def)

text \<open>A byte or a field is taken from the client's buffer and the state moves.\<close>

lemma auth_good_next:
  assumes "auth_good os c a e" "buffer_inv b" "b_limit b = b_limit (client_buffer c)" "auth_shape a'"
  shows "auth_good os (c\<lparr>client_buffer := b, client := U_auth a'\<rparr>) a' e"
  using good_client_buffer[of os c e b e] goodD(3)[of os c e] assms by (simp add: auth_good_def)

lemma auth_good_buffer: "auth_good os c a e \<Longrightarrow> buffer_inv (client_buffer c) \<and> buffer_inv (origin_buffer c)"
  using good_buffers[of os c e] by (simp add: auth_good_def)

lemma field_keeps:
  assumes "read_into n arr b = Some (x, b')" "c_set x n 0 = Some y" "buffer_inv b" "n < length arr"
  shows "buffer_inv b' \<and> b_limit b' = b_limit b \<and> length y = length arr \<and> terminated y \<and> y ! n = 0"
proof -
  obtain cs where r: "buffer_read_n n b = Some (cs, b')" "x = store_at 0 cs arr"
    using assms(1) by (auto simp: read_into_def c_assert_bind split: if_splits elim!: bind_SomeE)
  have k: "buffer_inv b' \<and> b_limit b' = b_limit b \<and> length cs = n" by (rule buffer_read_n_keeps[OF r(1) assms(3)])
  have len: "length x = length arr" using r(2) k assms(4) by (simp add: store_at_def)
  have y: "y = x[n := 0]" using assms(2) by (auto simp: c_set_def split: if_splits)
  then have "0 \<in> set y" using len assms(4) by (simp add: set_update_memI)
  with k len y assms(4) show ?thesis by (simp add: terminated_def)
qed

lemma auth_passwd_keeps:
  assumes run: "auth_passwd n key (c, e) = Some (q, c', e')" and c: "auth_good os c a e"
  shows "auth_kept os q c' e'"
proof (cases "a_state a = AUTH_PASSWD \<and> unat (a_plen a) \<le> n")
  case False
  then show ?thesis
    using run c auth_kept_stay[OF c] by (auto simp: auth_passwd_def auth_good_def the_auth_def split: if_splits)
next
  case True
  have a: "client c = U_auth a" "good os c e" "length (a_username a) = 256" "length (a_password a) = 256"
      "a_username a ! unat (a_ulen a) = 0"
    using c True by (auto simp: auth_good_def auth_shape_def)
  obtain x cb pw st db o1 ok ob s2 where r: "read_into (unat (a_plen a)) (a_password a) (client_buffer c) = Some (x, cb)"
    "c_set x (unat (a_plen a)) 0 = Some pw" "user_authenticate (e_users e) (a_username a) pw = Some (st, db)"
    "buffer_write (origin_buffer c) AUTH_VERSION = Some o1"
    "buffer_write o1 (if ok then AUTH_SUCCESS else AUTH_FAILURE) = Some ob"
    "selector_set_interest_key key OP_WRITE (e\<lparr>e_users := db\<rparr>) = Some (s2, e')" "q = AUTH"
    "c' = c\<lparr>client := U_auth (a\<lparr>a_password := pw, a_authenticated := ok\<rparr>), client_buffer := cb, origin_buffer := ob\<rparr>"
    using run True a(1) unfolding auth_passwd_def
    by (auto simp: the_auth_def Let_def elim!: bind_SomeE)
  have f: "buffer_inv cb" "b_limit cb = b_limit (client_buffer c)" "length pw = 256" "terminated pw"
    using field_keeps[OF r(1,2)] auth_good_buffer[OF c] a(4) byte_le_255[of "a_plen a"] by auto
  have "unat (a_ulen a) < length (a_username a)" using a(3) byte_le_255[of "a_ulen a"] by simp
  from nth_mem[OF this] have "0 \<in> set (a_username a)" using a(5) by simp
  then have "terminated (a_username a)" by (simp add: terminated_def)
  then have db: "users_ok db"
    using user_authenticate_spec[of "e_users e" "a_username a" pw] f(4) r(3) goodD(3)[OF a(2)]
    by (auto simp: env_ok_def same_users_def)
  have "env_ok (e\<lparr>e_users := db\<rparr>)" using db goodD(4)[OF a(2)] by simp
  then have e': "env_ok e'" by (rule poke_key_env(2)[OF r(6)])
  let ?a = "a\<lparr>a_password := pw, a_authenticated := ok\<rparr>"
  have sh: "auth_shape ?a" using c f(3) by (auto simp: auth_good_def auth_shape_def)
  have "good os (c\<lparr>client := U_auth ?a\<rparr>) e" using a(2) by simp
  from good_bufs[OF this, of cb ob e'] have "good os c' e'"
    using f(1,2) buffer_write_keeps[OF r(4)] buffer_write_keeps[OF r(5)] good_buffers[OF a(2)] e' r(8) by simp
  then have "auth_good os c' ?a e'" using sh r(8) by (simp add: auth_good_def)
  then show ?thesis using r(7) by (auto simp: auth_kept_def)
qed

lemma auth_plen_keeps:
  assumes run: "auth_plen n key (c, e) = Some (q, c', e')" and c: "auth_good os c a e"
  shows "auth_kept os q c' e'"
proof (cases "a_state a = AUTH_PLEN \<and> 1 \<le> n")
  case False
  then show ?thesis
    using run c auth_kept_stay[OF c] auth_passwd_keeps[OF _ c]
    by (auto simp: auth_plen_def auth_good_def the_auth_def split: if_splits)
next
  case True
  have a: "client c = U_auth a" "auth_shape a" using c by (auto simp: auth_good_def)
  obtain m b where r: "buffer_read (client_buffer c) = Some (m, b)"
    using run True a by (auto simp: auth_plen_def the_auth_def Let_def elim!: bind_SomeE)
  note k = buffer_read_keeps[OF r]
  let ?a = "a\<lparr>a_plen := m, a_state := AUTH_PASSWD\<rparr>"
  have "auth_shape ?a" using a(2) True by (simp add: auth_shape_def)
  then have g: "auth_good os (c\<lparr>client_buffer := b, client := U_auth ?a\<rparr>) ?a e"
    using auth_good_next[OF c] k auth_good_buffer[OF c] by blast
  show ?thesis
    using run True a(1) r auth_passwd_keeps[OF _ g]
    by (auto simp: auth_plen_def the_auth_def Let_def split: if_splits intro: auth_kept_out)
qed

lemma auth_uname_keeps:
  assumes run: "auth_uname n key (c, e) = Some (q, c', e')" and c: "auth_good os c a e"
  shows "auth_kept os q c' e'"
proof (cases "a_state a = AUTH_UNAME \<and> unat (a_ulen a) \<le> n")
  case False
  then show ?thesis
    using run c auth_kept_stay[OF c] auth_plen_keeps[OF _ c]
    by (auto simp: auth_uname_def auth_good_def the_auth_def split: if_splits)
next
  case True
  have a: "client c = U_auth a" "auth_shape a" "length (a_username a) = 256"
    using c by (auto simp: auth_good_def auth_shape_def)
  obtain x b un where r: "read_into (unat (a_ulen a)) (a_username a) (client_buffer c) = Some (x, b)"
      "c_set x (unat (a_ulen a)) 0 = Some un"
      "auth_plen (n - unat (a_ulen a)) key
        (c\<lparr>client_buffer := b, client := U_auth (a\<lparr>a_username := un, a_state := AUTH_PLEN\<rparr>)\<rparr>, e) = Some (q, c', e')"
    using run True a(1) by (auto simp: auth_uname_def the_auth_def elim!: bind_SomeE)
  have f: "buffer_inv b" "b_limit b = b_limit (client_buffer c)" "length un = 256" "un ! unat (a_ulen a) = 0"
    using field_keeps[OF r(1,2)] auth_good_buffer[OF c] a(3) byte_le_255[of "a_ulen a"] by auto
  let ?a = "a\<lparr>a_username := un, a_state := AUTH_PLEN\<rparr>"
  have "auth_shape ?a" using a(2) f(3,4) by (simp add: auth_shape_def)
  then show ?thesis by (rule auth_plen_keeps[OF r(3) auth_good_next[OF c f(1,2)]])
qed

lemma auth_ulen_keeps:
  assumes run: "auth_ulen n key (c, e) = Some (q, c', e')" and c: "auth_good os c a e"
  shows "auth_kept os q c' e'"
proof (cases "a_state a = AUTH_ULEN \<and> 1 \<le> n")
  case False
  then show ?thesis
    using run c auth_kept_stay[OF c] auth_uname_keeps[OF _ c]
    by (auto simp: auth_ulen_def auth_good_def the_auth_def split: if_splits)
next
  case True
  have a: "client c = U_auth a" "auth_shape a" using c by (auto simp: auth_good_def)
  obtain m b where r: "buffer_read (client_buffer c) = Some (m, b)"
    using run True a by (auto simp: auth_ulen_def the_auth_def Let_def elim!: bind_SomeE)
  note k = buffer_read_keeps[OF r]
  let ?a = "a\<lparr>a_ulen := m, a_state := AUTH_UNAME\<rparr>"
  have "auth_shape ?a" using a(2) by (simp add: auth_shape_def)
  then have g: "auth_good os (c\<lparr>client_buffer := b, client := U_auth ?a\<rparr>) ?a e"
    using auth_good_next[OF c] k auth_good_buffer[OF c] by blast
  show ?thesis
    using run True a(1) r auth_uname_keeps[OF _ g]
    by (auto simp: auth_ulen_def the_auth_def Let_def split: if_splits intro: auth_kept_out)
qed

lemma auth_ver_keeps:
  assumes run: "auth_ver n key (c, e) = Some (q, c', e')" and c: "auth_good os c a e"
  shows "auth_kept os q c' e'"
proof (cases "a_state a = AUTH_VER \<and> 1 \<le> n")
  case False
  then show ?thesis
    using run c auth_kept_stay[OF c] auth_ulen_keeps[OF _ c]
    by (auto simp: auth_ver_def auth_good_def the_auth_def split: if_splits)
next
  case True
  have a: "client c = U_auth a" "auth_shape a" using c by (auto simp: auth_good_def)
  obtain m b where r: "buffer_read (client_buffer c) = Some (m, b)"
    using run True a by (auto simp: auth_ver_def the_auth_def Let_def elim!: bind_SomeE)
  note k = buffer_read_keeps[OF r]
  let ?a = "a\<lparr>a_state := AUTH_ULEN\<rparr>"
  have "auth_shape ?a" using a(2) by (simp add: auth_shape_def)
  then have g: "auth_good os (c\<lparr>client_buffer := b, client := U_auth ?a\<rparr>) ?a e"
    using auth_good_next[OF c] k auth_good_buffer[OF c] by blast
  show ?thesis
    using run True a(1) r auth_ulen_keeps[OF _ g]
    by (auto simp: auth_ver_def the_auth_def Let_def split: if_splits intro: auth_kept_out)
qed

lemma auth_read_keeps:
  assumes run: "auth_read os key (c, e) = Some (q, c', e')" and c: "state_inv os AUTH (c, e)"
  shows "keeps os AUTH {AUTH, DONE, ERROR} q (c', e')"
proof -
  obtain a where c: "auth_good os c a e" using c by (auto simp: state_inv_def auth_good_def)
  have g: "good os c e" "client c = U_auth a" "auth_shape a" using c by (auto simp: auth_good_def)
  obtain n b1 w where rv: "recv_into os (k_fd key) (client_buffer c) (e_world e) = Some (n, b1, w)"
    using run by (auto simp: auth_read_def elim!: bind_SomeE)
  have "auth_kept os q c' e'"
  proof (cases "n < 0")
    case True
    then show ?thesis using run rv by (simp add: auth_read_def auth_kept_def)
  next
    case False
    then obtain b where wa: "buffer_write_adv b1 n = Some b"
      using run rv by (auto simp: auth_read_def Let_def elim!: bind_SomeE)
    have b: "buffer_inv b" "b_limit b = b_limit (client_buffer c)"
      using recv_keeps[OF goodD(5)[OF g(1)] rv wa] auth_good_buffer[OF c] by auto
    have e: "env_ok (e\<lparr>e_world := w\<rparr>)" using goodD(3)[OF g(1)] by simp
    have ag: "auth_good os (c\<lparr>client_buffer := b\<rparr>) a (e\<lparr>e_world := w\<rparr>)"
      using good_client_buffer[OF g(1) b e] g(2,3) by (simp add: auth_good_def)
    show ?thesis
      using run rv wa False auth_ver_keeps[OF _ ag]
      by (auto simp: auth_read_def Let_def read_ptr_eq[OF b(1)] split: if_splits intro: auth_kept_out)
  qed
  then show ?thesis by (auto simp: auth_kept_def keeps_def state_inv_def state_pre_def auth_good_def)
qed

text \<open>\<open>REQUEST\<close> is entered from here only with \<open>a_authenticated\<close> set.\<close>

lemma auth_write_keeps:
  assumes run: "auth_write os key (c, e) = Some (q, c', e')" and c: "state_inv os AUTH (c, e)"
  shows "keeps os AUTH {AUTH, REQUEST, ERROR} q (c', e')"
    "q = REQUEST \<Longrightarrow> \<exists>a. client c = U_auth a \<and> a_authenticated a"
proof -
  obtain a where a: "client c = U_auth a" "auth_shape a" and c: "good os c e" using c by (auto simp: state_inv_def)
  note b = good_buffers[OF c] and os = goodD(5)[OF c]
  obtain n w ob where sd: "send_from os (client_fd c) (origin_buffer c) (e_world e) = Some (n, w)"
      "buffer_read_adv (origin_buffer c) n = Some ob"
    using run by (auto simp: auth_write_def Let_def elim!: bind_SomeE)
  let ?e = "e\<lparr>e_world := w\<rparr>"
  have e: "env_ok ?e" using goodD(3)[OF c] by simp
  have ob: "buffer_inv ob" "b_limit ob = b_limit (origin_buffer c)"
    using buffer_read_adv_keeps[OF os sd] b by auto
  have "keeps os AUTH {AUTH, REQUEST, ERROR} q (c', e') \<and> (q = REQUEST \<longrightarrow> a_authenticated a)"
  proof (cases "\<not> n < 0 \<and> \<not> buffer_can_read ob \<and> a_authenticated a")
    case False
    then show ?thesis
      using run sd a good_origin_buffer[OF c ob e]
      by (auto simp: auth_write_def the_auth_def keeps_def state_inv_def state_pre_def Let_def split: if_splits)
  next
    case True
    then obtain st where st: "selector_set_interest_key key OP_READ ?e = Some (st, e')" "q = REQUEST"
        "c' = c\<lparr>origin_buffer := ob\<rparr>"
      using run sd a by (auto simp: auth_write_def the_auth_def Let_def elim!: bind_SomeE)
    have "drained c'" using True can_read_iff[OF ob(1)] st(3) by (simp add: drained_def)
    moreover have "good os c' e'" unfolding st(3) by (rule good_origin_buffer[OF c ob poke_key_env(2)[OF st(1) e]])
    ultimately show ?thesis using st(2) True by (simp add: keeps_def state_pre_def)
  qed
  then show "keeps os AUTH {AUTH, REQUEST, ERROR} q (c', e')"
    "q = REQUEST \<Longrightarrow> \<exists>a. client c = U_auth a \<and> a_authenticated a"
    using a(1) by auto
qed

subsection \<open>\<open>REQUEST\<close> and \<open>CONNECT\<close>\<close>

lemma left_keeps:
  assumes l: "left_request c e q c' e'" and c: "good os c e" "drained c" and q: "q \<in> S" "q \<noteq> DONE \<Longrightarrow> q \<in> {REQUEST, REPLY, CONNECT}"
  shows "keeps os REQUEST S q (c', e')"
proof (cases "q = DONE")
  case True
  then show ?thesis using q by (simp add: keeps_def state_pre_def)
next
  case False
  have k: "conn_ok c'" "conn_same c c'" "registry_ok e'" "e_users e' = e_users e" using l by (auto simp: left_request_def)
  have "good os c' e'" using k c(1) by (auto simp: good_def env_ok_def conn_same_def)
  moreover have "drained c'" using k(2) c(2) by (simp add: conn_same_def drained_def)
  ultimately show ?thesis
    using l False q by (auto simp: keeps_def state_inv_def state_pre_def left_request_def)
qed

lemma left_request_states: "left_request c e q c' e' \<Longrightarrow> q \<in> {REQUEST, REPLY, CONNECT, DONE}"
  by (auto simp: left_request_def)

lemma request_read_keeps:
  assumes run: "request_read os key (c, e) = Some (q, c', e')" and c: "state_inv os REQUEST (c, e)"
  shows "keeps os REQUEST {REQUEST, REPLY, CONNECT, DONE} q (c', e')"
proof -
  obtain r where g: "good os c e" "drained c" "client c = U_request r" using c by (auto simp: state_inv_def)
  have l: "left_request c e q c' e'"
    using request_read_left[OF run goodD(5)[OF g(1)] goodD(1)[OF g(1)] _ goodD(6)[OF g(1)] g(3)] goodD(4)[OF g(1)] by simp
  show ?thesis by (rule left_keeps[OF l g(1,2)]) (use left_request_states[OF l] in auto)
qed

lemma request_block_keeps:
  assumes run: "request_block os key (c, e) = Some (q, c', e')" and c: "state_inv os REQUEST (c, e)"
  shows "keeps os REQUEST {REPLY, CONNECT} q (c', e')"
proof -
  have g: "good os c e" "drained c" using c by (auto simp: state_inv_def)
  have l: "left_request c e q c' e'"
    using connect_to_dest_left[of os key c e q c' e'] run goodD(1,4,6)[OF g(1)] by (simp add: request_block_def)
  have "q \<in> {REPLY, CONNECT}"
    using run by (auto simp: request_block_def connect_to_dest_def to_reply_state_def elim!: bind_SomeE
        split: if_splits dial_result.splits)
  then show ?thesis by (intro left_keeps[OF l g]) auto
qed

lemma good_dial:
  assumes "good os c e" "client_fd c' = client_fd c" "client_buffer c' = client_buffer c" "origin_buffer c' = origin_buffer c"
    "origin_host c' = origin_host c" "origin_port c' = origin_port c" "origin_fd c' \<noteq> client_fd c" "env_ok e'"
  shows "good os c' e'"
  using assms by (simp add: good_def conn_ok_def bufs_ok_def arrays_ok_def)

lemma set_rep_fields [simp]:
  "client_buffer (set_rep r c) = client_buffer c" "origin_buffer (set_rep r c) = origin_buffer c"
  "origin_host (set_rep r c) = origin_host c" "origin_port (set_rep r c) = origin_port c"
  "origin_fd (set_rep r c) = origin_fd c" "drained (set_rep r c) = drained c"
  by (simp_all add: set_rep_def drained_def)

lemma good_set_rep [simp]: "good os (set_rep r c) e = good os c e"
  by (simp add: good_def)

lemma to_reply_keeps:
  assumes "selector_set_interest fd i e = Some (st, e')" "good os c e" "drained c"
  shows "state_pre os REPLY (set_rep r c, e')"
  using good_env[OF assms(2) poke_env(2)[OF assms(1) goodD(3)[OF assms(2)]]] assms(3) set_rep_keeps(3)[of r c]
  by (simp add: state_pre_def)

lemma connect_write_keeps:
  assumes run: "connect_write os key (c, e) = Some (q, c', e')" and c: "state_inv os CONNECT (c, e)"
  shows "keeps os CONNECT {CONNECT, REPLY} q (c', e')"
proof -
  have g: "good os c e" "drained c" "origin_resolution c \<noteq> []" using c by (auto simp: state_inv_def)
  obtain x w where so: "os_so_error os (origin_fd c) (e_world e) = (x, w)" by fastforce
  let ?e = "e\<lparr>e_world := w\<rparr>"
  have ew: "env_ok ?e" using goodD(3)[OF g(1)] by simp
  have gw: "good os c ?e" by (rule good_env[OF g(1) ew])
  have reply: "keeps os CONNECT {CONNECT, REPLY} q (c', e')"
    if "selector_set_interest (client_fd c) OP_WRITE e1 = Some (st, e')" "good os c1 e1" "drained c1"
      "q = REPLY" "c' = set_rep r c1" for st e1 c1 r
    using to_reply_keeps[OF that(1-3)] that(4,5) by (simp add: keeps_def)
  show ?thesis
  proof (cases "x = SysOk 0 \<or> (\<exists>n. x = SysErr n)")
    case True
    show ?thesis
    proof (cases x)
      case (SysErr n)
      then obtain st where "selector_set_interest (client_fd c) OP_WRITE ?e = Some (st, e')" "q = REPLY"
          "c' = set_rep SERVER_FAILURE c"
        using run so by (auto simp: connect_write_def elim!: bind_SomeE)
      from reply[OF this(1) gw g(2) this(2,3)] show ?thesis .
    next
      case (SysOk v)
      with True have "v = 0" by simp
      with SysOk obtain l s1 e1 st where r: "selector_set_interest (origin_fd c) OP_NOOP (?e\<lparr>e_calls := l\<rparr>) = Some (s1, e1)"
          "selector_set_interest (client_fd c) OP_WRITE e1 = Some (st, e')" "q = REPLY" "c' = set_rep SUCCEDED c"
        using run so by (auto simp: connect_write_def elim!: bind_SomeE)
      have "env_ok (?e\<lparr>e_calls := l\<rparr>)" using ew by simp
      from reply[OF r(2) good_env[OF g(1) poke_env(2)[OF r(1) this]] g(2) r(3,4)] show ?thesis .
    qed
  next
    case False
    then obtain v where v: "x = SysOk v" "v \<noteq> 0" by (cases x) auto
    obtain st e1 where un: "selector_unregister_fd_without_closing (origin_fd c) ?e = Some (st, e1)"
        "registry_ok e1" "e_users e1 = e_users ?e"
      using unregister_quiet_total[of ?e "origin_fd c"] env_ok_registry[OF ew] by metis
    let ?e1 = "e1\<lparr>e_world := os_close os (origin_fd c) (e_world e1)\<rparr>" and ?c1 = "c\<lparr>origin_fd := - 1\<rparr>"
    have ok1: "env_ok ?e1" using un(2,3) ew by (simp add: env_ok_def)
    have "0 \<le> client_fd c" using goodD(1)[OF g(1)] by (simp add: conn_ok_def)
    then have g1: "good os ?c1 ?e1" using good_dial[OF g(1), of ?c1 ?e1] ok1 by simp
    have d1: "drained ?c1" using g(2) by (simp add: drained_def)
    obtain r1 rs where res: "origin_resolution c = r1 # rs" using g(3) by (cases "origin_resolution c") auto
    show ?thesis
    proof (cases "rs = []")
      case True
      obtain code st2 where "selector_set_interest (client_fd c) OP_WRITE ?e1 = Some (st2, e')"
          "q = REPLY" "c' = set_rep code ?c1"
        using run so v un(1) res True by (auto simp: connect_write_def Let_def elim!: bind_SomeE split: if_splits)
      then show ?thesis using g1 d1 by (intro reply)
    next
      case more: False
      let ?c2 = "?c1\<lparr>origin_resolution := rs\<rparr>"
      have g2: "good os ?c2 ?e1" "drained ?c2"
        using good_dial[OF g1, of ?c2 ?e1] ok1 \<open>0 \<le> client_fd c\<close> d1 by (simp_all add: drained_def)
      obtain ret c3 e3 where t: "try_connection os key (?c2, ?e1) = Some (ret, c3, e3)"
        and k: "(case dial_switch ret of
                  Dial_wait \<Rightarrow> Some (CONNECT, c3, e3)
                | Dial_reply r \<Rightarrow> do {
                    (st, e) \<leftarrow> selector_set_interest (client_fd c3) OP_WRITE e3;
                    Some (REPLY, set_rep r c3, e)
                  }
                | Dial_success \<Rightarrow> do {
                    line \<leftarrow> print_connection_access_log os c3;
                    (st, e) \<leftarrow> selector_set_interest (origin_fd c3) OP_NOOP (e3\<lparr>e_calls := e_calls e3 @ [Log_access line]\<rparr>);
                    (st, e) \<leftarrow> selector_set_interest (client_fd c3) OP_WRITE e;
                    Some (REPLY, set_rep SUCCEDED c3, e)
                  }) = Some (q, c', e')"
        using run so v un(1) res more
        by (auto simp: connect_write_def get_next_resolution_def Let_def elim!: bind_SomeE)
      have f: "fresh_fds os (client_fd ?c2)" "registry_ok ?e1" using goodD(4,6)[OF g2(1)] by simp_all
      have d: "dialled ?c2 ?e1 ret c3 e3" "ret \<le> 6" using try_connection_frame[OF f t] by auto
      have ok3: "env_ok e3" using d(1) ok1 by (simp add: dialled_def env_ok_def)
      have g3: "good os c3 e3" "drained c3" "client_fd c3 = client_fd c" "origin_resolution c3 \<noteq> []"
        using d(1) good_dial[OF g2(1), of c3 e3] ok3 g2(2) by (auto simp: dialled_def dial_frame_def drained_def)
      show ?thesis
      proof (cases "dial_switch ret")
        case (Dial_reply r)
        with k obtain st where r: "selector_set_interest (client_fd c) OP_WRITE e3 = Some (st, e')"
            "q = REPLY" "c' = set_rep r c3" using g3(3) by (auto elim!: bind_SomeE)
        from reply[OF r(1) g3(1,2) r(2,3)] show ?thesis .
      next
        case Dial_wait
        with k g3 show ?thesis by (auto simp: keeps_def state_inv_def)
      next
        case Dial_success
        with dial_switch_never_success[OF d(2)] show ?thesis by simp
      qed
    qed
  qed
qed

subsection \<open>\<open>REPLY\<close> and \<open>COPY\<close>\<close>

lemma good_rest:
  assumes "good os c e" "auth_rest c c'" "bufs_ok c'" "env_ok e'"
  shows "good os c' e'"
  using assms by (simp add: good_def conn_ok_def arrays_ok_def auth_rest_def)

lemma reply_arrival_keeps:
  assumes run: "reply_arrival os st key (c, e) = Some (c', e')" and c: "state_pre os REPLY (c, e)"
  shows "state_inv os REPLY (c', e')"
proof -
  obtain r where g: "good os c e" "buffer_window (origin_buffer c) = []" "client c = U_reply r"
    using c by (auto simp: state_pre_def drained_def)
  obtain x w where x: "os_getsockname os (origin_fd c) (e_world e) = (x, w)" by fastforce
  have s: "bufs_ok c'" "auth_rest c c'" "\<exists>f. client c' = U_reply (r\<lparr>found_bnd_info := Some f\<rparr>)" "e' = e\<lparr>e_world := w\<rparr>"
    using reply_arrival_spec[OF goodD(2)[OF g(1)] g(3,2) goodD(7)[OF g(1)],
      where st = st and key = key and e = e] run x by (auto split: sys.splits)
  have "env_ok e'" using s(4) goodD(3)[OF g(1)] by simp
  then show ?thesis using good_rest[OF g(1) s(2,1)] s(3) by (auto simp: state_inv_def)
qed

text \<open>\<open>COPY\<close> is entered only after a reply that announced success.\<close>

lemma reply_write_keeps:
  assumes run: "reply_write os key (c, e) = Some (q, c', e')" and c: "state_inv os REPLY (c, e)"
  shows "keeps os REPLY {REPLY, COPY, REQUEST, ERROR} q (c', e')"
    "q = COPY \<Longrightarrow> \<exists>r. client c = U_reply r \<and> rep r = SUCCEDED"
proof -
  obtain r found where r: "client c = U_reply r" "found_bnd_info r = Some found" and c: "good os c e"
    using c by (auto simp: state_inv_def)
  note b = good_buffers[OF c] and os = goodD(5)[OF c]
  have "keeps os REPLY {REPLY, COPY, REQUEST, ERROR} q (c', e') \<and> (q = COPY \<longrightarrow> rep r = SUCCEDED)"
  proof (cases found)
    case False
    then show ?thesis using run r by (simp add: reply_write_def the_reply_def keeps_def state_pre_def)
  next
    case True
    obtain n w ob where sd: "send_from os (client_fd c) (origin_buffer c) (e_world e) = Some (n, w)"
        "buffer_read_adv (origin_buffer c) n = Some ob"
      using run r True by (auto simp: reply_write_def the_reply_def Let_def elim!: bind_SomeE)
    let ?e = "e\<lparr>e_world := w\<rparr>"
    have e: "env_ok ?e" using goodD(3)[OF c] by simp
    have ob: "buffer_inv ob" "b_limit ob = b_limit (origin_buffer c)"
      using buffer_read_adv_keeps[OF os sd] b by auto
    note gob = good_origin_buffer[OF c ob]
    show ?thesis
    proof (cases "buffer_can_read ob \<or> rep r = SUCCEDED")
      case True
      then show ?thesis
        using run r sd \<open>found\<close> gob[OF e]
        by (auto simp: reply_write_def the_reply_def u64_nonneg keeps_def state_inv_def state_pre_def Let_def split: if_splits)
    next
      case False
      then obtain st where st: "selector_set_interest (client_fd c) OP_READ ?e = Some (st, e')" "q = REQUEST"
          "c' = c\<lparr>origin_buffer := ob\<rparr>"
        using run r sd \<open>found\<close> by (auto simp: reply_write_def the_reply_def u64_nonneg Let_def elim!: bind_SomeE)
      have "drained c'" using False can_read_iff[OF ob(1)] st(3) by (simp add: drained_def)
      moreover have "good os c' e'" unfolding st(3) by (rule gob[OF poke_env(2)[OF st(1) e]])
      ultimately show ?thesis using st(2) by (simp add: keeps_def state_pre_def)
    qed
  qed
  then show "keeps os REPLY {REPLY, COPY, REQUEST, ERROR} q (c', e')"
    "q = COPY \<Longrightarrow> \<exists>r. client c = U_reply r \<and> rep r = SUCCEDED"
    using r(1) by auto
qed

lemma env_frame_ok: "env_frame e e' \<Longrightarrow> env_ok e \<Longrightarrow> env_ok e'"
  by (simp add: env_frame_def env_ok_def)

lemma copy_or_done_states: "copy_or_done x y (c, e) = Some (q, s) \<Longrightarrow> q \<in> {COPY, DONE}"
  by (auto simp: copy_or_done_def elim!: bind_SomeE)

lemma copy_read_keeps:
  assumes run: "socksv5_copy_read os key (c, e) = Some (q, c', e')" and c: "state_inv os COPY (c, e)"
  shows "keeps os COPY {COPY, DONE, ERROR} q (c', e')"
proof -
  have c: "copy_ok c" "env_ok e" "os_ok os" using c by (auto simp: state_inv_def)
  have s: "copy_ok c'" "env_frame e e'"
    using copy_read_spec[OF c(3,1) env_ok_registry[OF c(2)] refl, of key] run by auto
  have "q \<in> {COPY, DONE, ERROR}"
    using run copy_or_done_states unfolding socksv5_copy_read_def
    by (auto simp: Let_def elim!: bind_SomeE split: if_splits) blast+
  then show ?thesis using s env_frame_ok[OF s(2) c(2)] c(3) by (auto simp: keeps_def state_inv_def state_pre_def)
qed

lemma copy_write_keeps:
  assumes run: "socksv5_copy_write os key (c, e) = Some (q, c', e')" and c: "state_inv os COPY (c, e)"
  shows "keeps os COPY {COPY, DONE, ERROR} q (c', e')"
proof -
  have c: "copy_ok c" "env_ok e" "os_ok os" using c by (auto simp: state_inv_def)
  have s: "copy_ok c'" "env_frame e e'"
    using copy_write_spec[OF c(3,1) env_ok_registry[OF c(2)] refl, of key] run by auto
  have "q \<in> {COPY, DONE, ERROR}"
    using run copy_or_done_states unfolding socksv5_copy_write_def
    by (auto simp: Let_def elim!: bind_SomeE split: if_splits) blast+
  then show ?thesis using s env_frame_ok[OF s(2) c(2)] c(3) by (auto simp: keeps_def state_inv_def state_pre_def)
qed

lemma copy_arrival_keeps:
  assumes run: "socksv5_copy_arrival st key (c, e) = Some (c', e')" and c: "state_pre os COPY (c, e)"
  shows "state_inv os COPY (c', e')"
proof -
  have g: "good os c e" using c by (simp add: state_pre_def)
  have "client_fd c \<noteq> origin_fd c" using goodD(1)[OF g] by (auto simp: conn_ok_def)
  then have "copy_ok c'" "env_frame e e'"
    using copy_arrival_spec[OF goodD(2)[OF g] _ goodD(4)[OF g], of st key] run by auto
  then show ?thesis using env_frame_ok goodD[OF g] by (auto simp: state_inv_def)
qed

section \<open>The machine of the protocol\<close>

lemma arrival_keeps:
  assumes q: "q < 8" and run: "run_hook (on_arrival (socks5States os ! q)) q key (c, e) = Some (c', e')"
    and pre: "state_pre os q (c, e)"
  shows "state_inv os q (c', e')"
proof -
  have os: "good os c e \<Longrightarrow> length (os_uninit os 512 (e_world e)) = 512"
    by (rule os_uninitD[OF goodD(5)])
  consider "q = GREETING" | "q = AUTH" | "q = REQUEST" | "q = CONNECT" | "q = REPLY" | "q = COPY"
    | "q = DONE \<or> q = ERROR" using q by linarith
  then show ?thesis
  proof cases
    case 1
    with run pre q show ?thesis
      by (auto simp: states_arrival run_hook_def greeting_arrival_def state_inv_def state_pre_def)
  next
    case 2
    with run pre q os show ?thesis
      by (auto simp: states_arrival run_hook_def auth_arrival_def state_inv_def state_pre_def auth_shape_def Let_def)
  next
    case 3
    with run pre q show ?thesis
      by (auto simp: states_arrival run_hook_def request_arrival_def state_inv_def state_pre_def Let_def)
  next
    case 4
    with run pre q show ?thesis
      by (auto simp: states_arrival run_hook_def state_inv_def state_pre_def)
  next
    case 5
    with run pre q show ?thesis
      using reply_arrival_keeps by (auto simp: states_arrival run_hook_def)
  next
    case 6
    with run pre q show ?thesis
      using copy_arrival_keeps by (auto simp: states_arrival run_hook_def)
  next
    case 7
    then show ?thesis by (auto simp: state_inv_def)
  qed
qed

text \<open>The transitions that the handlers can answer.\<close>

definition edges :: "nat \<Rightarrow> nat set" where
  "edges q = (if q = GREETING then {GREETING, AUTH, REQUEST, DONE, ERROR}
     else if q = AUTH then {AUTH, REQUEST, DONE, ERROR}
     else if q = REQUEST then {REQUEST, CONNECT, REPLY, DONE}
     else if q = CONNECT then {CONNECT, REPLY}
     else if q = REPLY then {REPLY, COPY, REQUEST, ERROR}
     else if q = COPY then {COPY, DONE, ERROR} else {})"

lemma keeps_weaken: "keeps os q0 S q s \<Longrightarrow> S \<subseteq> edges q0 \<Longrightarrow> keeps os q0 (edges q0) q s"
  by (auto simp: keeps_def)

lemma read_keeps:
  assumes q: "q < 8" "on_read_ready (socks5States os ! q) = Some h" "h key (c, e) = Some (q', c', e')" "state_inv os q (c, e)"
  shows "keeps os q (edges q) q' (c', e')"
proof -
  consider (1) "q = GREETING" "h = greeting_read os" | (2) "q = AUTH" "h = auth_read os" | (3) "q = REQUEST" "h = request_read os" | (4) "q = COPY" "h = socksv5_copy_read os"
    using q(1,2) by (auto simp: states_read split: if_splits)
  then show ?thesis
  proof cases
    case 1
    have "keeps os GREETING (edges GREETING) q' (c', e')"
      by (rule keeps_weaken[OF greeting_read_keeps]) (use q(3,4) 1 in \<open>simp_all add: edges_def\<close>)
    with 1 show ?thesis by simp
  next
    case 2
    have "keeps os AUTH (edges AUTH) q' (c', e')"
      by (rule keeps_weaken[OF auth_read_keeps]) (use q(3,4) 2 in \<open>simp_all add: edges_def\<close>)
    with 2 show ?thesis by simp
  next
    case 3
    have "keeps os REQUEST (edges REQUEST) q' (c', e')"
      by (rule keeps_weaken[OF request_read_keeps]) (use q(3,4) 3 in \<open>simp_all add: edges_def\<close>)
    with 3 show ?thesis by simp
  next
    case 4
    have "keeps os COPY (edges COPY) q' (c', e')"
      by (rule keeps_weaken[OF copy_read_keeps]) (use q(3,4) 4 in \<open>simp_all add: edges_def\<close>)
    with 4 show ?thesis by simp
  qed
qed

lemma write_keeps:
  assumes q: "q < 8" "on_write_ready (socks5States os ! q) = Some h" "h key (c, e) = Some (q', c', e')" "state_inv os q (c, e)"
  shows "keeps os q (edges q) q' (c', e')"
proof -
  consider (1) "q = GREETING" "h = greeting_write os" | (2) "q = AUTH" "h = auth_write os" | (3) "q = CONNECT" "h = connect_write os" | (4) "q = REPLY" "h = reply_write os" | (5) "q = COPY" "h = socksv5_copy_write os"
    using q(1,2) by (auto simp: states_write split: if_splits)
  then show ?thesis
  proof cases
    case 1
    have "keeps os GREETING (edges GREETING) q' (c', e')"
      by (rule keeps_weaken[OF greeting_write_keeps]) (use q(3,4) 1 in \<open>simp_all add: edges_def\<close>)
    with 1 show ?thesis by simp
  next
    case 2
    have "keeps os AUTH (edges AUTH) q' (c', e')"
      by (rule keeps_weaken[OF auth_write_keeps(1)]) (use q(3,4) 2 in \<open>simp_all add: edges_def\<close>)
    with 2 show ?thesis by simp
  next
    case 3
    have "keeps os CONNECT (edges CONNECT) q' (c', e')"
      by (rule keeps_weaken[OF connect_write_keeps]) (use q(3,4) 3 in \<open>simp_all add: edges_def\<close>)
    with 3 show ?thesis by simp
  next
    case 4
    have "keeps os REPLY (edges REPLY) q' (c', e')"
      by (rule keeps_weaken[OF reply_write_keeps(1)]) (use q(3,4) 4 in \<open>simp_all add: edges_def\<close>)
    with 4 show ?thesis by simp
  next
    case 5
    have "keeps os COPY (edges COPY) q' (c', e')"
      by (rule keeps_weaken[OF copy_write_keeps]) (use q(3,4) 5 in \<open>simp_all add: edges_def\<close>)
    with 5 show ?thesis by simp
  qed
qed

lemma block_keeps:
  assumes q: "q < 8" "on_block_ready (socks5States os ! q) = Some h" "h key (c, e) = Some (q', c', e')" "state_inv os q (c, e)"
  shows "keeps os q (edges q) q' (c', e')"
proof -
  have 1: "q = REQUEST" "h = request_block os" using q(1,2) by (auto simp: states_block split: if_splits)
  have "keeps os REQUEST (edges REQUEST) q' (c', e')"
    by (rule keeps_weaken[OF request_block_keeps]) (use q(3,4) 1 in \<open>simp_all add: edges_def\<close>)
  with 1 show ?thesis by simp
qed

interpretation machine: machine_contract "socks5States os" "\<lambda>_. True" "state_pre os" "state_inv os" for os :: "'w os"
proof
  show "sd_state (socks5States os ! i) = i" if "i < length (socks5States os)" for i
    using that states_numbered by simp
next
  fix q :: nat and k :: key and s s' :: "('w, 'b) hstate"
  assume "q < length (socks5States os)" "state_pre os q s" "run_hook (on_arrival (socks5States os ! q)) q k s = Some s'"
  then show "state_inv os q s'" by (cases s; cases s') (auto intro: arrival_keeps)
next
  fix q q' :: nat and k :: key and s s' :: "('w, 'b) hstate"
  assume "q < length (socks5States os)" "state_pre os q' s" "run_hook (on_departure (socks5States os ! q)) q k s = Some s'"
  then show "state_pre os q' s'"
    by (auto simp: states_departure run_hook_def socksv5_copy_close_def split: if_splits)
next
  fix q q' :: nat and k :: key and h and s s' :: "('w, 'b) hstate"
  assume "q < length (socks5States os)" "state_inv os q s" "on_read_ready (socks5States os ! q) = Some h" "h k s = Some (q', s')"
  then show "if q' = q then state_inv os q s' else state_pre os q' s'"
    by (cases s; cases s') (auto dest: read_keeps simp: keeps_def split: if_splits)
next
  fix q q' :: nat and k :: key and h and s s' :: "('w, 'b) hstate"
  assume "q < length (socks5States os)" "state_inv os q s" "on_write_ready (socks5States os ! q) = Some h" "h k s = Some (q', s')"
  then show "if q' = q then state_inv os q s' else state_pre os q' s'"
    by (cases s; cases s') (auto dest: write_keeps simp: keeps_def split: if_splits)
next
  fix q q' :: nat and k :: key and h and s s' :: "('w, 'b) hstate"
  assume "q < length (socks5States os)" "state_inv os q s" "on_block_ready (socks5States os ! q) = Some h" "h k s = Some (q', s')"
  then show "if q' = q then state_inv os q s' else state_pre os q' s'"
    by (cases s; cases s') (auto dest: block_keeps simp: keeps_def split: if_splits)
qed

section \<open>Runs of the machine\<close>

datatype stm_event = Ev_read | Ev_write | Ev_block

definition machine_step :: "'w os \<Rightarrow> stm_event \<Rightarrow> key \<Rightarrow> state_machine \<Rightarrow> ('w, 'm) hstate
   \<Rightarrow> (nat \<times> state_machine \<times> ('w, 'm) hstate) option" where
  "machine_step os ev key m s = (case ev of
     Ev_read \<Rightarrow> stm_handler_read (socks5States os) key m s
   | Ev_write \<Rightarrow> stm_handler_write (socks5States os) key m s
   | Ev_block \<Rightarrow> stm_handler_block (socks5States os) key m s)"

fun machine_run :: "'w os \<Rightarrow> (stm_event \<times> key) list \<Rightarrow> state_machine \<Rightarrow> ('w, 'm) hstate
   \<Rightarrow> (state_machine \<times> ('w, 'm) hstate) option" where
  "machine_run os [] m s = Some (m, s)"
| "machine_run os ((ev, key) # evs) m s = do {
     (q, m, s) \<leftarrow> machine_step os ev key m s;
     machine_run os evs m s
   }"

text \<open>The state a machine is in: the initial one until the first event.\<close>

definition in_state :: "state_machine \<Rightarrow> nat" where
  "in_state m = (case current m of None \<Rightarrow> initial m | Some q \<Rightarrow> q)"

lemma machine_step_inv:
  "machine_step os ev key m s = Some (q, m', s') \<Longrightarrow> machine.minv os m s \<Longrightarrow> machine.minv os m' s'"
  unfolding machine_step_def
  by (auto split: stm_event.splits intro: machine.read_inv machine.write_inv machine.block_inv)

lemma machine_run_inv:
  "machine_run os evs m s = Some (m', s') \<Longrightarrow> machine.minv os m s \<Longrightarrow> machine.minv os m' s'"
proof (induction evs arbitrary: m s)
  case Nil
  then show ?case by simp
next
  case (Cons ev evs)
  obtain x k where ev: "ev = (x, k)" by fastforce
  obtain q m1 s1 where r: "machine_step os x k m s = Some (q, m1, s1)" "machine_run os evs m1 s1 = Some (m', s')"
    using Cons.prems(1) ev by (auto elim!: bind_SomeE)
  show ?case by (rule Cons.IH[OF r(2) machine_step_inv[OF r(1) Cons.prems(2)]])
qed

text \<open>What one event does: the handler that ran, on a state that satisfied the invariant.\<close>

lemma machine_step_handler:
  assumes run: "machine_step os ev key m s = Some (q', m', s')" and i: "machine.minv os m s"
  obtains h s1 s2 where
    "(case ev of Ev_read \<Rightarrow> on_read_ready | Ev_write \<Rightarrow> on_write_ready | Ev_block \<Rightarrow> on_block_ready)
       (socks5States os ! in_state m) = Some h"
    "h key s1 = Some (q', s2)" "state_inv os (in_state m) s1" "in_state m < 8"
    "current m \<noteq> None \<Longrightarrow> s1 = s"
proof -
  define sel where "sel = (case ev of Ev_read \<Rightarrow> on_read_ready | Ev_write \<Rightarrow> on_write_ready
    | Ev_block \<Rightarrow> (on_block_ready :: (key, ('a, 'b) hstate) state_definition \<Rightarrow> _))"
  have "stm_handler sel (socks5States os) key m s = Some (q', m', s')"
    using run by (cases ev) (simp_all add: sel_def machine_step_def stm_handlers)
  then obtain m1 s1 q d h s2 where r: "handle_first (socks5States os) key m s = Some (m1, s1)" "current m1 = Some q"
      "nth_opt (socks5States os) q = Some d" "sel d = Some h" "h key s1 = Some (q', s2)"
    by (auto simp: stm_handler_def elim!: bind_SomeE split: prod.splits)
  have q: "q = in_state m" "current m \<noteq> None \<Longrightarrow> s1 = s"
    using r(1,2) by (auto simp: handle_first_def in_state_def split: option.splits elim!: bind_SomeE)
  have "machine.minv os m1 s1" using machine.first_inv[OF r(1) TrueI i] by simp
  then have "q < 8" "state_inv os q s1" using r(2) by (auto simp: machine.minv_def)
  moreover have "d = socks5States os ! q" using r(3) by (auto simp: nth_opt_def split: if_splits)
  ultimately show thesis using that[of h s1 s2] r(4,5) q sel_def by (cases ev) auto
qed

lemma machine_step_edge:
  fixes s :: "('w, 'm) hstate"
  assumes run: "machine_step os ev key m s = Some (q', m', s')" and i: "machine.minv os m s"
  shows "q' \<in> edges (in_state m)"
proof -
  obtain h and s1 s2 :: "('w, 'm) hstate" where r:
    "(case ev of Ev_read \<Rightarrow> on_read_ready | Ev_write \<Rightarrow> on_write_ready | Ev_block \<Rightarrow> on_block_ready)
       (socks5States os ! in_state m) = Some h"
    "h key s1 = Some (q', s2)" "state_inv os (in_state m) s1" "in_state m < 8"
    by (rule machine_step_handler[OF run i])
  obtain c1 e1 c2 e2 where s: "s1 = (c1, e1)" "s2 = (c2, e2)" by fastforce
  have "keeps os (in_state m) (edges (in_state m)) q' (c2, e2)"
    using r s by (cases ev) (auto intro: read_keeps write_keeps block_keeps)
  then show ?thesis by (simp add: keeps_def)
qed

text \<open>The two gates of the protocol.\<close>

lemma machine_step_gates:
  assumes run: "machine_step os ev key m (c, e) = Some (q', m', s')" and i: "machine.minv os m (c, e)"
    and cur: "current m = Some q"
  shows "q = AUTH \<Longrightarrow> q' = REQUEST \<Longrightarrow> \<exists>a. client c = U_auth a \<and> a_authenticated a"
    "q' = COPY \<Longrightarrow> q = COPY \<or> (\<exists>r. client c = U_reply r \<and> rep r = SUCCEDED)"
proof -
  have inq: "in_state m = q" using cur by (simp add: in_state_def)
  obtain h s1 s2 where r:
    "(case ev of Ev_read \<Rightarrow> on_read_ready | Ev_write \<Rightarrow> on_write_ready | Ev_block \<Rightarrow> on_block_ready)
       (socks5States os ! q) = Some h"
    "h key s1 = Some (q', s2)" "state_inv os q s1" "q < 8" "s1 = (c, e)"
    using machine_step_handler[OF run i, unfolded inq] cur by (metis option.distinct(1))
  obtain c2 e2 where s2: "s2 = (c2, e2)" by fastforce
  note r2 = r(2)[unfolded r(5) s2] and r3 = r(3)[unfolded r(5)]
  show "\<exists>a. client c = U_auth a \<and> a_authenticated a" if q: "q = AUTH" "q' = REQUEST"
  proof (cases ev)
    case Ev_read
    then have "h = auth_read os" using r(1) q(1) by (simp add: states_read)
    then have "q' \<in> {AUTH, DONE, ERROR}" using auth_read_keeps[of os key c e q' c2 e2] r2 r3 q(1) by (auto simp: keeps_def)
    with q(2) show ?thesis by simp
  next
    case Ev_write
    then have "h = auth_write os" using r(1) q(1) by (simp add: states_write)
    with auth_write_keeps(2)[OF _ _ q(2)] r2 r3 q(1) show ?thesis by blast
  next
    case Ev_block
    then show ?thesis using r(1) q(1) by (simp add: states_block)
  qed
  show "q = COPY \<or> (\<exists>r. client c = U_reply r \<and> rep r = SUCCEDED)" if q: "q' = COPY"
  proof -
    have "q' \<in> edges q" using machine_step_edge[OF run i] inq by simp
    then consider "q = COPY" | "q = REPLY" using q by (auto simp: edges_def split: if_splits)
    then show ?thesis
    proof cases
      case 2
      then have "h = reply_write os" using r(1) by (cases ev) (auto simp: states_read states_write states_block)
      with reply_write_keeps(2)[OF _ _ q] r2 r3 2 show ?thesis by blast
    qed simp
  qed
qed

end
