(* ===== verification/Socks5.thy ===== *)
theory Socks5
  imports Protocol
begin

text \<open>
  The connections of the server (\<open>src/server/socks5nio.c\<close>): accepting one, handing the events of
  its two descriptors to its machine, and tearing it down. The state of the server extends the
  environment with the heap of connections: \<open>key->data\<close> is a number, and a number without a
  connection is a dangling or null pointer.

  \<open>socksv5_done\<close> unregisters the descriptors of the connection, and each unregistration calls
  \<open>socksv5_close\<close>, which calls \<open>socksv5_done\<close> again; the flag \<open>closed\<close> ends the recursion. Its
  definition counts the depth of that recursion; a depth of two is enough
  (\<open>done_releases\<close>). Handlers of the other modules are the parameter \<open>oth\<close>.
\<close>

section \<open>State\<close>

record 'w server = "'w env" +
  sv_conns :: "nat \<Rightarrow> socks5 option"
  sv_next :: nat

type_synonym ('w, 'm) sv = "('w, 'm) server_scheme"
type_synonym ('w, 'm) sv_handlers = "handler_ref \<Rightarrow> (attachment, ('w, 'm) server_scheme) fd_handler"

text \<open>\<open>ATTACHMENT (key)\<close>, read and written.\<close>

definition ATTACHMENT :: "key \<Rightarrow> ('w, 'm) sv \<Rightarrow> socks5 option" where
  "ATTACHMENT key s = do { a \<leftarrow> k_data key; sv_conns s a }"

definition put_conn :: "key \<Rightarrow> socks5 option \<Rightarrow> ('w, 'm) sv \<Rightarrow> ('w, 'm) sv" where
  "put_conn key c s = (case k_data key of None \<Rightarrow> s | Some a \<Rightarrow> s\<lparr>sv_conns := (sv_conns s)(a := c)\<rparr>)"

section \<open>Birth\<close>

text \<open>The fields that the code does not set have the content of fresh memory.\<close>

definition socks5_new :: "'w os \<Rightarrow> int \<Rightarrow> 'w \<Rightarrow> (socks5 option \<times> 'w) option" where
  "socks5_new os clientFd w =
     (case os_malloc os w of (m, w) \<Rightarrow>
      (if \<not> m then Some (None, w)
       else
         let junk = os_uninit os (2 * BUFFER_SIZE + HOST_MAX_LENGHT + PORT_MAX_LENGHT) w in do {
           st \<leftarrow> stm_init (socks5States os :: (key, ('w, unit) hstate) state_definition list)
              \<lparr>initial = GREETING, max_state = ERROR, current = None\<rparr>;
           Some (Some \<lparr>
             client_fd = clientFd,
             client_buffer = buffer_init BUFFER_SIZE (take BUFFER_SIZE junk),
             client_addr = Sother 0,
             client = U_uninit,
             origin_fd = - 1,
             origin_host = take HOST_MAX_LENGHT (drop (2 * BUFFER_SIZE) junk),
             origin_port = drop (2 * BUFFER_SIZE + HOST_MAX_LENGHT) junk,
             origin_resolution = [],
             origin_buffer = buffer_init BUFFER_SIZE (take BUFFER_SIZE (drop BUFFER_SIZE junk)),
             origin_copy = None,
             c_atyp = 0,
             stm = st,
             closed = False\<rparr>, w)
         }))"

text \<open>
  Every failure after \<open>accept\<close> closes the new descriptor. \<open>key->data\<close> was cleared at the start,
  so \<open>socks5_destroy (key)\<close> has nothing to free: a connection that could not be registered stays
  allocated.
\<close>

definition socksv5_passive_accept :: "'w os \<Rightarrow> key \<Rightarrow> ('w, 'm) sv \<Rightarrow> (key \<times> ('w, 'm) sv) option" where
  "socksv5_passive_accept os key s =
     (let key = key\<lparr>k_data := None\<rparr> in
      case os_accept os (k_fd key) (e_world s) of
        (SysErr _, w) \<Rightarrow> Some (key, s\<lparr>e_world := w\<rparr>)
      | (SysOk (clientFd, clientAddr), w) \<Rightarrow>
          (case selector_fd_set_nio os clientFd w of (nio, w) \<Rightarrow>
           (if nio = - 1 then Some (key, s\<lparr>e_world := os_close os clientFd w\<rparr>)
            else do {
              let s = s\<lparr>e_world := w, e_calls := e_calls s @ [Log_accepted (addr_text os clientAddr) (bnd_port clientAddr)],
                e_metrics := register_new_connection (e_metrics s)\<rparr>;
              (conn, w) \<leftarrow> socks5_new os clientFd (e_world s);
              (case conn of
                 None \<Rightarrow> Some (key, s\<lparr>e_world := os_close os clientFd w\<rparr>)
               | Some c \<Rightarrow> do {
                   let a = sv_next s;
                   let s = s\<lparr>e_world := w, sv_conns := (sv_conns s)(a := Some (c\<lparr>client_addr := clientAddr\<rparr>)),
                             sv_next := a + 1\<rparr>;
                   (st, s) \<leftarrow> selector_register (fst (os_malloc os w)) clientFd (Some SOCKS5_HANDLER) OP_READ (Some a) s;
                   Some (key, if st \<noteq> SELECTOR_SUCCESS then s\<lparr>e_world := os_close os clientFd (e_world s)\<rparr> else s)
                 })
            })))"

section \<open>Death\<close>

definition socks5_destroy :: "key \<Rightarrow> ('w, 'm) sv \<Rightarrow> (key \<times> ('w, 'm) sv) option" where
  "socks5_destroy key s =
     (if k_data key = None then Some (key, s)
      else do {
        c \<leftarrow> ATTACHMENT key s;
        Some (key\<lparr>k_data := None\<rparr>, put_conn key None s)
      })"

text \<open>\<open>socksv5_close\<close> over the \<open>socksv5_done\<close> that it calls.\<close>

definition close_with ::
  "(key \<Rightarrow> ('w, 'm) sv \<Rightarrow> (key \<times> ('w, 'm) sv) option) \<Rightarrow> 'w os \<Rightarrow> key \<Rightarrow> ('w, 'm) sv \<Rightarrow> (key \<times> ('w, 'm) sv) option" where
  "close_with done_h os key s = do {
     c \<leftarrow> ATTACHMENT key s;
     (c, s) \<leftarrow> stm_handler_close (socks5States os) key (stm c) (c, s);
     let s = put_conn key (Some c) s;
     done_h key (s\<lparr>e_metrics := register_connection_closed (e_metrics s)\<rparr>)
   }"

definition no_handler :: "('d, 's) fd_handler" where
  "no_handler = \<lparr>handle_read = None, handle_write = None, handle_block = None, handle_close = None\<rparr>"

definition closing ::
  "(key \<Rightarrow> ('w, 'm) sv \<Rightarrow> (key \<times> ('w, 'm) sv) option) \<Rightarrow> ('w, 'm) sv_handlers \<Rightarrow> ('w, 'm) sv_handlers" where
  "closing close_h oth h = (case h of
     SOCKS5_HANDLER \<Rightarrow> no_handler\<lparr>handle_close := Some close_h\<rparr>
   | SOCKSV5_PASSIVE \<Rightarrow> no_handler
   | _ \<Rightarrow> oth h)"

text \<open>\<open>selector_unregister_fd\<close> and \<open>close\<close> of one descriptor, if there is one.\<close>

definition release_fd ::
  "('w, 'm) sv_handlers \<Rightarrow> 'w os \<Rightarrow> int \<Rightarrow> ('w, 'm) sv \<Rightarrow> ('w, 'm) sv option" where
  "release_fd H os fd s =
     (if fd \<noteq> - 1 then do {
        (st, s) \<leftarrow> selector_unregister_fd H fd s;
        Some (s\<lparr>e_world := os_close os fd (e_world s)\<rparr>)
      } else Some s)"

primrec socksv5_done ::
  "nat \<Rightarrow> 'w os \<Rightarrow> ('w, 'm) sv_handlers \<Rightarrow> key \<Rightarrow> ('w, 'm) sv \<Rightarrow> (key \<times> ('w, 'm) sv) option" where
  "socksv5_done 0 = (\<lambda>os oth key s. None)"
| "socksv5_done (Suc n) = (\<lambda>os oth key s. do {
     c \<leftarrow> ATTACHMENT key s;
     (if closed c then Some (key, s)
      else do {
        let s = s\<lparr>e_calls := e_calls s @ [Log_closing (addr_text os (client_addr c)) (bnd_port (client_addr c)) (cstr (origin_host c))]\<rparr>;
        let s = put_conn key (Some (c\<lparr>closed := True\<rparr>)) s;
        let H = closing (close_with (socksv5_done n os oth) os) oth;
        s \<leftarrow> release_fd H os (origin_fd c) s;
        s \<leftarrow> release_fd H os (client_fd c) s;
        socks5_destroy key s
      })
   })"

declare socksv5_done.simps [simp del]

abbreviation (input) DONE_DEPTH :: nat where "DONE_DEPTH \<equiv> 2"

definition socksv5_close :: "'w os \<Rightarrow> ('w, 'm) sv_handlers \<Rightarrow> key \<Rightarrow> ('w, 'm) sv \<Rightarrow> (key \<times> ('w, 'm) sv) option" where
  "socksv5_close os oth = close_with (socksv5_done DONE_DEPTH os oth) os"

section \<open>Events\<close>

text \<open>What the three event handlers share after their \<open>stm_handler_*\<close>.\<close>

definition after_event ::
  "'w os \<Rightarrow> ('w, 'm) sv_handlers \<Rightarrow> key \<Rightarrow> nat \<times> state_machine \<times> socks5 \<times> ('w, 'm) sv \<Rightarrow> (key \<times> ('w, 'm) sv) option" where
  "after_event os oth key = (\<lambda>(st, m, c, s).
     let s = put_conn key (Some (c\<lparr>stm := m\<rparr>)) s in
     if st = ERROR \<or> st = DONE then socksv5_done DONE_DEPTH os oth key s else Some (key, s))"

definition socksv5_read :: "'w os \<Rightarrow> ('w, 'm) sv_handlers \<Rightarrow> key \<Rightarrow> ('w, 'm) sv \<Rightarrow> (key \<times> ('w, 'm) sv) option" where
  "socksv5_read os oth key s = do {
     c \<leftarrow> ATTACHMENT key s;
     r \<leftarrow> stm_handler_read (socks5States os) key (stm c) (c, s);
     after_event os oth key r
   }"

definition socksv5_write :: "'w os \<Rightarrow> ('w, 'm) sv_handlers \<Rightarrow> key \<Rightarrow> ('w, 'm) sv \<Rightarrow> (key \<times> ('w, 'm) sv) option" where
  "socksv5_write os oth key s = do {
     c \<leftarrow> ATTACHMENT key s;
     r \<leftarrow> stm_handler_write (socks5States os) key (stm c) (c, s);
     after_event os oth key r
   }"

definition socksv5_block :: "'w os \<Rightarrow> ('w, 'm) sv_handlers \<Rightarrow> key \<Rightarrow> ('w, 'm) sv \<Rightarrow> (key \<times> ('w, 'm) sv) option" where
  "socksv5_block os oth key s = do {
     c \<leftarrow> ATTACHMENT key s;
     r \<leftarrow> stm_handler_block (socks5States os) key (stm c) (c, s);
     after_event os oth key r
   }"

text \<open>The handler structures: \<open>socks5Handler\<close>, and the one of the listening socket.\<close>

definition socks5_handlers :: "'w os \<Rightarrow> ('w, 'm) sv_handlers \<Rightarrow> ('w, 'm) sv_handlers" where
  "socks5_handlers os oth h = (case h of
     SOCKS5_HANDLER \<Rightarrow> \<lparr>handle_read = Some (socksv5_read os oth), handle_write = Some (socksv5_write os oth),
       handle_block = Some (socksv5_block os oth), handle_close = Some (socksv5_close os oth)\<rparr>
   | SOCKSV5_PASSIVE \<Rightarrow> no_handler\<lparr>handle_read := Some (socksv5_passive_accept os)\<rparr>
   | _ \<Rightarrow> oth h)"

text \<open>A step of a resolver thread, on the connection that its key points to.\<close>

definition resolver_step :: "'w os \<Rightarrow> key \<Rightarrow> ('w, 'm) sv \<Rightarrow> ('w, 'm) sv option" where
  "resolver_step os key s = do {
     c \<leftarrow> ATTACHMENT key s;
     let (c, s) = resolve_fqdn_blocking os key (c, s);
     Some (put_conn key (Some c) s)
   }"

section \<open>Fields outside the selector\<close>

lemma server_ext [simp]:
  "sel_entry (s\<lparr>sv_conns := h\<rparr>) fd = sel_entry s fd" "sel_entry (s\<lparr>sv_next := n\<rparr>) fd = sel_entry s fd"
  "sel_inv (s\<lparr>sv_conns := h\<rparr>) = sel_inv s" "sel_inv (s\<lparr>sv_next := n\<rparr>) = sel_inv s"
  "sel_full (s\<lparr>sv_conns := h\<rparr>) = sel_full s" "sel_full (s\<lparr>sv_next := n\<rparr>) = sel_full s"
  by (simp_all add: sel_inv_def sel_full_def items_ok_def max_ok_def wants_def sel_entry_def)

lemma put_conn_simps [simp]:
  "sel_entry (put_conn key c s) fd = sel_entry s fd" "sel_inv (put_conn key c s) = sel_inv s"
  "sel_full (put_conn key c s) = sel_full s" "e_world (put_conn key c s) = e_world s" "e_calls (put_conn key c s) = e_calls s"
  "e_metrics (put_conn key c s) = e_metrics s" "e_users (put_conn key c s) = e_users s"
  by (simp_all add: put_conn_def split: option.splits)

lemma without_item_simps [simp]:
  "e_world (without_item fd s) = e_world s" "e_metrics (without_item fd s) = e_metrics s"
  "e_users (without_item fd s) = e_users s" "e_threads (without_item fd s) = e_threads s"
  "e_calls (without_item fd s) = e_calls s"
  "sv_conns (without_item fd t) = sv_conns t" "sv_next (without_item fd t) = sv_next t"
  by (simp_all add: without_item_def Let_def)

section \<open>Tearing a connection down\<close>

text \<open>The machine of a connection points into its table.\<close>

definition stm_ok :: "socks5 \<Rightarrow> bool" where
  "stm_ok c \<longleftrightarrow> (case current (stm c) of None \<Rightarrow> True | Some q \<Rightarrow> q < 8)"

text \<open>A descriptor that is registered is registered for this connection.\<close>

definition owned :: "attachment \<Rightarrow> int \<Rightarrow> ('w, 'm) sv \<Rightarrow> bool" where
  "owned a fd s \<longleftrightarrow> (\<forall>it. sel_entry s fd = Some it \<longrightarrow> it_handler it = Some SOCKS5_HANDLER \<and> it_data it = Some a)"

lemma departure_logs: "stm_ok c \<Longrightarrow> stm_handler_close (socks5States os) key (stm c) (c, s) = Some (c, s)"
  by (auto simp: stm_handler_close_def stm_ok_def nth_opt_def states_departure run_hook_def socksv5_copy_close_def
      split: option.splits)

lemma put_same: "ATTACHMENT key s = Some c \<Longrightarrow> put_conn key (Some c) s = s"
  by (auto simp: ATTACHMENT_def put_conn_def fun_upd_idem_iff elim!: bind_SomeE)

text \<open>What tearing a connection down leaves alone: the counter of attachments and the rest of the server.\<close>

definition around :: "('w, 'm) sv \<Rightarrow> int set \<times> int set \<times> int list \<times> nat \<times> 'm" where
  "around s = (slave_r s, slave_w s, resolution_jobs s, sv_next s, server.more s)"

lemma around_simps [simp]:
  "around (s\<lparr>e_world := w\<rparr>) = around s" "around (s\<lparr>e_metrics := m\<rparr>) = around s" "around (s\<lparr>e_calls := l\<rparr>) = around s"
  "around (s\<lparr>sv_conns := h\<rparr>) = around s"
  "around (put_conn key c s) = around s" "around (without_item fd s) = around s"
  by (simp_all add: around_def put_conn_def without_item_def Let_def split: option.splits)

lemma cleared_env [simp]:
  "cleared (e\<lparr>e_world := w\<rparr>) = cleared e" "cleared (e\<lparr>e_users := u\<rparr>) = cleared e" "cleared (e\<lparr>e_metrics := m\<rparr>) = cleared e"
  "cleared (e\<lparr>e_threads := t\<rparr>) = cleared e" "cleared (e\<lparr>e_calls := l\<rparr>) = cleared e" "cleared (s\<lparr>sv_conns := h\<rparr>) = cleared s" "cleared (s\<lparr>sv_next := n\<rparr>) = cleared s"
  "cleared (put_conn key c s) = cleared s"
  by (simp_all add: cleared_def put_conn_def split: option.splits)

text \<open>The inner call: the flag is set, so only the counter of connections moves.\<close>

lemma close_when_closed:
  assumes "ATTACHMENT key s = Some c" "closed c" "stm_ok c"
  shows "close_with (socksv5_done (Suc n) os oth) os key s
    = Some (key, s\<lparr>e_metrics := register_connection_closed (e_metrics s)\<rparr>)"
proof -
  have "ATTACHMENT key (s\<lparr>e_metrics := m\<rparr>) = Some c" for m using assms(1) by (simp add: ATTACHMENT_def)
  with assms show ?thesis by (simp add: close_with_def departure_logs put_same socksv5_done.simps)
qed

lemma release_spec:
  assumes s: "registry_ok s" "owned a fd s" and c: "sv_conns s a = Some c" "closed c" "stm_ok c"
  obtains s' where "release_fd (closing (close_with (socksv5_done (Suc n) os oth) os) oth) os fd s = Some s'"
    "registry_ok s'" "sv_conns s' = sv_conns s" "sel_entry s' = (sel_entry s)(fd := None)"
    "e_world s' = (if fd = - 1 then e_world s else os_close os fd (e_world s))"
    "e_metrics s' = (if sel_entry s fd = None then e_metrics s else register_connection_closed (e_metrics s))"
    "e_users s' = e_users s" "around s' = around s" "cleared s \<Longrightarrow> cleared s'" "e_calls s' = e_calls s"
proof (cases "sel_entry s fd")
  case None
  let ?H = "closing (close_with (socksv5_done (Suc n) os oth) os) oth"
  have "selector_unregister_fd ?H fd s = Some (SELECTOR_IARGS, s)"
  proof (cases "INVALID_FD fd")
    case False
    then have "0 \<le> fd" "nat fd < fd_size s" using valid_in_full[of s fd] s(1) by auto
    then show ?thesis using False entry_None[OF None] by (simp add: selector_unregister_fd_def)
  qed (simp add: selector_unregister_fd_def)
  then have "release_fd ?H os fd s = Some (if fd = - 1 then s else s\<lparr>e_world := os_close os fd (e_world s)\<rparr>)"
    by (simp add: release_fd_def)
  then show thesis
    by (rule that) (use None s(1) in \<open>auto simp: fun_eq_iff\<close>)
next
  case (Some it)
  let ?H = "closing (close_with (socksv5_done (Suc n) os oth) os) oth"
  let ?s1 = "s\<lparr>e_metrics := register_connection_closed (e_metrics s)\<rparr>"
  have v: "\<not> INVALID_FD fd" "it_fd it = fd" "nat fd < fd_size s" "fd \<noteq> - 1"
    using entry_valid[OF _ Some] s(1) by auto
  have it: "it_handler it = Some SOCKS5_HANDLER" "it_data it = Some a" using s(2) Some by (auto simp: owned_def)
  have "ATTACHMENT \<lparr>k_fd = it_fd it, k_data = it_data it\<rparr> s = Some c"
    using c(1) it(2) by (simp add: ATTACHMENT_def)
  from close_when_closed[OF this c(2,3)] have un: "selector_unregister_fd ?H fd s = drop_item fd ?s1"
    using v sel_entry_item[OF Some] it by (simp add: selector_unregister_fd_def closing_def)
  have s1: "sel_inv ?s1" "sel_entry ?s1 fd = Some it" using s(1) Some by simp_all
  have "release_fd ?H os fd s = Some ((without_item fd ?s1)\<lparr>e_world := os_close os fd (e_world s)\<rparr>)"
    using un drop_item_used[OF s1] v(4) by (simp add: release_fd_def)
  then show thesis
    by (rule that) (use s(1) s1 Some v(4) inv_without_item[OF s1] entry_without_item[OF s1(2)] cleared_without_item[of ?s1 fd]
      in \<open>simp_all add: fun_eq_iff\<close>)
qed

text \<open>The log after the line with which \<open>socksv5_done\<close> begins.\<close>

definition closing_log :: "'w os \<Rightarrow> socks5 \<Rightarrow> ('w, 'm) env_scheme \<Rightarrow> log_call list" where
  "closing_log os c s = e_calls s @ [Log_closing (addr_text os (client_addr c)) (bnd_port (client_addr c)) (cstr (origin_host c))]"

definition registered_fds :: "socks5 \<Rightarrow> ('w, 'm) sv \<Rightarrow> nat" where
  "registered_fds c s = of_bool (sel_entry s (origin_fd c) \<noteq> None) + of_bool (sel_entry s (client_fd c) \<noteq> None)"

text \<open>
  Both descriptors are unregistered and closed, and the connection is freed. The connection
  counter goes down once per registered descriptor: twice for a connection that had an origin.
\<close>

lemma done_releases:
  assumes s: "registry_ok s" and key: "k_data key = Some a" "sv_conns s a = Some c" "\<not> closed c" "stm_ok c"
    and own: "owned a (origin_fd c) s" "owned a (client_fd c) s" and fds: "origin_fd c \<noteq> client_fd c" "0 \<le> client_fd c"
  shows "\<exists>s'. socksv5_done (Suc (Suc n)) os oth key s = Some (key\<lparr>k_data := None\<rparr>, s')
    \<and> registry_ok s' \<and> sv_conns s' = (sv_conns s)(a := None)
    \<and> sel_entry s' = (sel_entry s)(origin_fd c := None, client_fd c := None)
    \<and> e_world s' = os_close os (client_fd c)
        (if origin_fd c = - 1 then e_world s else os_close os (origin_fd c) (e_world s))
    \<and> e_metrics s' = (register_connection_closed ^^ registered_fds c s) (e_metrics s)
    \<and> e_users s' = e_users s \<and> around s' = around s \<and> (cleared s \<longrightarrow> cleared s') \<and> e_calls s' = closing_log os c s"
proof -
  let ?H = "closing (close_with (socksv5_done (Suc n) os oth) os) oth"
  let ?c = "c\<lparr>closed := True\<rparr>"
  define s0 where "s0 = put_conn key (Some ?c) (s\<lparr>e_calls := closing_log os c s\<rparr>)"
  have s0: "registry_ok s0" "owned a (origin_fd c) s0" "owned a (client_fd c) s0" "sv_conns s0 = (sv_conns s)(a := Some ?c)"
    using s own key(1) by (simp_all add: s0_def owned_def put_conn_def)
  have c0: "sv_conns s0 a = Some ?c" "closed ?c" "stm_ok ?c" using s0(4) key(4) by (simp_all add: stm_ok_def)
  obtain s1 where s1: "release_fd ?H os (origin_fd c) s0 = Some s1" "registry_ok s1" "sv_conns s1 = sv_conns s0"
    "sel_entry s1 = (sel_entry s0)(origin_fd c := None)"
    "e_world s1 = (if origin_fd c = - 1 then e_world s0 else os_close os (origin_fd c) (e_world s0))"
    "e_metrics s1 = (if sel_entry s0 (origin_fd c) = None then e_metrics s0 else register_connection_closed (e_metrics s0))"
    "e_users s1 = e_users s0" "around s1 = around s0" "cleared s0 \<Longrightarrow> cleared s1" "e_calls s1 = e_calls s0"
    using release_spec[OF s0(1,2) c0] by metis
  have o1: "owned a (client_fd c) s1" using s0(3) s1(4) fds(1) by (simp add: owned_def)
  obtain s2 where s2: "release_fd ?H os (client_fd c) s1 = Some s2" "registry_ok s2" "sv_conns s2 = sv_conns s1"
    "sel_entry s2 = (sel_entry s1)(client_fd c := None)"
    "e_world s2 = (if client_fd c = - 1 then e_world s1 else os_close os (client_fd c) (e_world s1))"
    "e_metrics s2 = (if sel_entry s1 (client_fd c) = None then e_metrics s1 else register_connection_closed (e_metrics s1))"
    "e_users s2 = e_users s1" "around s2 = around s1" "cleared s1 \<Longrightarrow> cleared s2" "e_calls s2 = e_calls s1"
    using release_spec[OF s1(2) o1 _ c0(2,3)] c0(1) s1(3) by metis
  let ?s3 = "put_conn key None s2"
  have run: "socksv5_done (Suc (Suc n)) os oth key s = Some (key\<lparr>k_data := None\<rparr>, ?s3)"
    using key s1(1,3) s2(1,3) c0(1) by (simp add: ATTACHMENT_def s0_def[unfolded closing_log_def, symmetric] socks5_destroy_def socksv5_done.simps)
  have "sv_conns ?s3 = (sv_conns s)(a := None)" using key(1) s2(3) s1(3) s0(4) by (simp add: put_conn_def)
  moreover have "sel_entry ?s3 = (sel_entry s)(origin_fd c := None, client_fd c := None)"
    using s1(4) s2(4) by (auto simp: fun_eq_iff s0_def)
  moreover have "e_metrics ?s3 = (register_connection_closed ^^ registered_fds c s) (e_metrics s)"
    using s1(4,6) s2(6) fds(1) by (simp add: s0_def registered_fds_def)
  moreover have "around ?s3 = around s" "cleared s \<Longrightarrow> cleared ?s3" using s2(8,9) s1(8,9) by (simp_all add: s0_def)
  moreover have "e_calls ?s3 = closing_log os c s" using s2(10) s1(10) by (simp add: s0_def)
  ultimately show ?thesis using run s2(2,5,7) s1(5,7) fds(2) by (simp add: s0_def)
qed

text \<open>
  \<open>selector_unregister_fd\<close> on a descriptor of a live connection, as \<open>selector_destroy\<close> calls it:
  the close handler has unregistered the descriptor itself, and the selector clears it again.
\<close>

lemma unregister_live:
  assumes s: "registry_ok s" "sel_entry s fd = Some it" "owned a fd s" and c: "sv_conns s a = Some c" "\<not> closed c" "stm_ok c"
    and fd: "fd = client_fd c \<or> fd = origin_fd c"
    and own: "owned a (origin_fd c) s" "owned a (client_fd c) s" and fds: "origin_fd c \<noteq> client_fd c" "0 \<le> client_fd c"
  shows "selector_unregister_fd (socks5_handlers os oth) fd s = None"
proof -
  have v: "\<not> INVALID_FD fd" "it_fd it = fd" "nat fd < fd_size s"
    using entry_valid[OF _ s(2)] s(1) by auto
  have it: "it_handler it = Some SOCKS5_HANDLER" "it_data it = Some a" using s(2,3) by (auto simp: owned_def)
  let ?key = "\<lparr>k_fd = fd, k_data = Some a\<rparr>" and ?s1 = "s\<lparr>e_metrics := register_connection_closed (e_metrics s)\<rparr>"
  have att: "ATTACHMENT ?key s = Some c" using c(1) by (simp add: ATTACHMENT_def)
  have s1: "registry_ok ?s1" "sv_conns ?s1 a = Some c" "owned a (origin_fd c) ?s1" "owned a (client_fd c) ?s1"
    using s(1) c(1) own by (simp_all add: owned_def)
  obtain s2 where s2: "socksv5_done (Suc (Suc 0)) os oth ?key ?s1 = Some (?key\<lparr>k_data := None\<rparr>, s2)" "registry_ok s2"
      "sel_entry s2 = (sel_entry ?s1)(origin_fd c := None, client_fd c := None)"
    using done_releases[OF s1(1) _ s1(2) c(2,3) s1(3,4) fds, of ?key 0 os oth] by auto
  have "socksv5_close os oth ?key s = Some (?key\<lparr>k_data := None\<rparr>, s2)"
    using att c(3) s2(1) by (simp add: socksv5_close_def close_with_def departure_logs put_same numeral_2_eq_2)
  then have run: "selector_unregister_fd (socks5_handlers os oth) fd s = drop_item fd s2"
    using v sel_entry_item[OF s(2)] it by (simp add: selector_unregister_fd_def socks5_handlers_def)
  have "sel_entry s2 fd = None" using s2(3) fd by auto
  moreover have in2: "0 \<le> fd" "nat fd < fd_size s2" using valid_in_full[of s2 fd] s2(2) v(1) by auto
  ultimately have "\<not> ITEM_USED (fds s2 ! nat fd)" by (rule entry_None[rotated 0])
  then show ?thesis unfolding run by (rule drop_item_twice[OF in2(2)])
qed

section \<open>Accepting a connection\<close>

lemma socks5_new_spec:
  assumes os: "os_ok os" and m: "os_malloc os w = (True, w1)"
  shows "\<exists>c. socks5_new os fd w = Some (Some c, w1) \<and> client_fd c = fd \<and> origin_fd c = - 1 \<and> closed c = False
    \<and> bufs_ok c \<and> arrays_ok c \<and> drained c \<and> stm c = \<lparr>initial = GREETING, max_state = ERROR, current = None\<rparr>
    \<and> buffer_window (client_buffer c) = []"
proof -
  have "length (os_uninit os 2310 w1) = 2310" using os_uninitD[OF os] .
  moreover have "stm_init (socks5States os :: (key, ('a, unit) hstate) state_definition list)
      \<lparr>initial = GREETING, max_state = ERROR, current = None\<rparr>
    = Some \<lparr>initial = GREETING, max_state = ERROR, current = None\<rparr>"
    by (simp add: stm_init_spec states_numbered less_Suc_eq_le)
  ultimately show ?thesis
    using m by (simp add: socks5_new_def Let_def bufs_ok_def arrays_ok_def drained_def)
qed

definition accepted :: "'w os \<Rightarrow> key \<Rightarrow> ('w, 'm) sv \<Rightarrow> int \<Rightarrow> sockaddr \<Rightarrow> 'w \<Rightarrow> bool" where
  "accepted os key s fd addr w \<longleftrightarrow> (\<exists>w1 w2. os_accept os (k_fd key) (e_world s) = (SysOk (fd, addr), w1)
     \<and> selector_fd_set_nio os fd w1 = (0, w2) \<and> os_malloc os w2 = (True, w))"

text \<open>The connection that \<open>accept\<close> makes, before it is registered, and the log then.\<close>

definition accept_log :: "'w os \<Rightarrow> sockaddr \<Rightarrow> ('w, 'm) env_scheme \<Rightarrow> log_call list" where
  "accept_log os addr s = e_calls s @ [Log_accepted (addr_text os addr) (bnd_port addr)]"

lemma accept_start:
  assumes os: "os_ok os" and acc: "accepted os key s fd addr w"
  obtains c where "socksv5_passive_accept os key s = do {
      (st, s) \<leftarrow> selector_register (fst (os_malloc os w)) fd (Some SOCKS5_HANDLER) OP_READ (Some (sv_next s))
        (s\<lparr>e_calls := accept_log os addr s, e_metrics := register_new_connection (e_metrics s), e_world := w,
           sv_conns := (sv_conns s)(sv_next s := Some c), sv_next := sv_next s + 1\<rparr>);
      Some (key\<lparr>k_data := None\<rparr>, if st \<noteq> SELECTOR_SUCCESS then s\<lparr>e_world := os_close os fd (e_world s)\<rparr> else s) }"
    "client_fd c = fd" "client_addr c = addr" "origin_fd c = - 1" "\<not> closed c" "bufs_ok c" "arrays_ok c" "drained c"
    "stm c = \<lparr>initial = GREETING, max_state = ERROR, current = None\<rparr>" "buffer_window (client_buffer c) = []"
proof -
  obtain w1 w2 where a: "os_accept os (k_fd key) (e_world s) = (SysOk (fd, addr), w1)"
     "selector_fd_set_nio os fd w1 = (0, w2)" "os_malloc os w2 = (True, w)"
    using acc by (auto simp: accepted_def)
  obtain c where c: "socks5_new os fd w2 = Some (Some c, w)" "client_fd c = fd" "origin_fd c = - 1" "closed c = False"
    "bufs_ok c" "arrays_ok c" "drained c" "stm c = \<lparr>initial = GREETING, max_state = ERROR, current = None\<rparr>"
    "buffer_window (client_buffer c) = []"
    using socks5_new_spec[OF os a(3)] by blast
  show thesis
    by (rule that[of "c\<lparr>client_addr := addr\<rparr>"])
      (use a c in \<open>simp_all add: socksv5_passive_accept_def accept_log_def Let_def bufs_ok_def arrays_ok_def drained_def
        cong: if_cong\<close>)
qed

text \<open>A registered connection starts with the invariant of its machine.\<close>

lemma accept_spec:
  assumes os: "os_ok os" "names_ok os" "fresh_fds os fd" and s: "env_ok s" and acc: "accepted os key s fd addr w"
    and fd: "0 \<le> fd" "fd < int FD_SETSIZE" "sel_entry s fd = None"
  shows "\<exists>c s'. socksv5_passive_accept os key s = Some (key\<lparr>k_data := None\<rparr>, s')
    \<and> sv_conns s' = (sv_conns s)(sv_next s := Some c) \<and> client_fd c = fd \<and> client_addr c = addr
    \<and> sel_entry s' = (sel_entry s)(fd \<mapsto> \<lparr>it_fd = fd, it_interest = OP_READ, it_handler = Some SOCKS5_HANDLER,
         it_data = Some (sv_next s)\<rparr>)
    \<and> e_metrics s' = register_new_connection (e_metrics s) \<and> env_ok s' \<and> machine.minv os (stm c) (c, s')
    \<and> e_calls s' = accept_log os addr s"
proof -
  obtain c where c: "socksv5_passive_accept os key s = do {
      (st, s) \<leftarrow> selector_register (fst (os_malloc os w)) fd (Some SOCKS5_HANDLER) OP_READ (Some (sv_next s))
        (s\<lparr>e_calls := accept_log os addr s, e_metrics := register_new_connection (e_metrics s), e_world := w,
           sv_conns := (sv_conns s)(sv_next s := Some c), sv_next := sv_next s + 1\<rparr>);
      Some (key\<lparr>k_data := None\<rparr>, if st \<noteq> SELECTOR_SUCCESS then s\<lparr>e_world := os_close os fd (e_world s)\<rparr> else s) }"
    "client_fd c = fd" "client_addr c = addr" "origin_fd c = - 1" "\<not> closed c" "bufs_ok c" "arrays_ok c" "drained c"
    "stm c = \<lparr>initial = GREETING, max_state = ERROR, current = None\<rparr>" "buffer_window (client_buffer c) = []"
    by (rule accept_start[OF os(1) acc])
  let ?s1 = "s\<lparr>e_calls := accept_log os addr s, e_metrics := register_new_connection (e_metrics s), e_world := w,
           sv_conns := (sv_conns s)(sv_next s := Some c), sv_next := sv_next s + 1\<rparr>"
  let ?s2 = "with_item fd (Some SOCKS5_HANDLER) OP_READ (Some (sv_next s)) ?s1"
  have s1: "registry_ok ?s1" "sel_entry ?s1 fd = None" using env_ok_registry[OF s] fd(3) by simp_all
  have nf: "\<not> INVALID_FD fd" using fd(1,2) by (simp add: INVALID_FD_def)
  then have sz: "nat fd < fd_size ?s1" using valid_in_full[of ?s1 fd] s1(1) by blast
  have reg: "selector_register m fd (Some SOCKS5_HANDLER) OP_READ (Some (sv_next s)) ?s1 = Some (SELECTOR_SUCCESS, ?s2)" for m
    by (rule register_free[OF _ nf sz s1(2)]) (use s1(1) in simp_all)
  have inv: "sel_inv ?s2" by (rule inv_with_item[OF _ fd(1) _ sz]) (use s1(1) fd(2) in simp_all)
  have ent: "sel_entry ?s2 = (sel_entry s)(fd \<mapsto> \<lparr>it_fd = fd, it_interest = OP_READ, it_handler = Some SOCKS5_HANDLER,
         it_data = Some (sv_next s)\<rparr>)"
    unfolding entry_with_item[OF fd(1) sz] by (simp add: fun_eq_iff)
  have flds: "sv_conns ?s2 = (sv_conns s)(sv_next s := Some c)" "e_calls ?s2 = accept_log os addr s" "e_metrics ?s2 = register_new_connection (e_metrics s)"
      "e_users ?s2 = e_users s" "sel_full ?s2"
    using s1(1) by (simp_all add: with_item_def sel_full_def)
  have env: "env_ok ?s2" using inv flds(4,5) s by (simp add: env_ok_def)
  have "good os c ?s2" using c env os fd(1) by (simp add: good_def conn_ok_def)
  then have "machine.minv os (stm c) (c, ?s2)" using c(8,9) by (simp add: machine.minv_def state_pre_def)
  then show ?thesis using c(1-3) reg ent flds env by auto
qed

text \<open>
  When the registration fails the descriptor is closed, the counters keep the connection, and
  the connection stays in the heap with nothing that refers to it.
\<close>

lemma accept_leaks:
  assumes os: "os_ok os" and s: "registry_ok s" and acc: "accepted os key s fd addr w"
    and fd: "sel_entry s fd \<noteq> None \<or> int FD_SETSIZE \<le> fd"
  shows "\<exists>c s'. socksv5_passive_accept os key s = Some (key\<lparr>k_data := None\<rparr>, s')
    \<and> sv_conns s' = (sv_conns s)(sv_next s := Some c) \<and> sel_entry s' = sel_entry s
    \<and> e_metrics s' = register_new_connection (e_metrics s) \<and> e_world s' = os_close os fd w"
proof -
  obtain c where c: "socksv5_passive_accept os key s = do {
      (st, s) \<leftarrow> selector_register (fst (os_malloc os w)) fd (Some SOCKS5_HANDLER) OP_READ (Some (sv_next s))
        (s\<lparr>e_calls := accept_log os addr s, e_metrics := register_new_connection (e_metrics s), e_world := w,
           sv_conns := (sv_conns s)(sv_next s := Some c), sv_next := sv_next s + 1\<rparr>);
      Some (key\<lparr>k_data := None\<rparr>, if st \<noteq> SELECTOR_SUCCESS then s\<lparr>e_world := os_close os fd (e_world s)\<rparr> else s) }"
    by (rule accept_start[OF os(1) acc])
  let ?s1 = "s\<lparr>e_calls := accept_log os addr s, e_metrics := register_new_connection (e_metrics s), e_world := w,
           sv_conns := (sv_conns s)(sv_next s := Some c), sv_next := sv_next s + 1\<rparr>"
  obtain st where st: "selector_register m fd (Some SOCKS5_HANDLER) OP_READ (Some (sv_next s)) ?s1 = Some (st, ?s1)"
      "st \<noteq> SELECTOR_SUCCESS" for m
  proof (cases "INVALID_FD fd")
    case True
    then show thesis using that[of SELECTOR_IARGS] by (simp add: selector_register_def)
  next
    case False
    then have "int FD_SETSIZE \<le> fd \<Longrightarrow> False" by (simp add: INVALID_FD_def)
    then obtain it where "sel_entry ?s1 fd = Some it" using fd by auto
    from register_busy[OF False this] show thesis using that[of SELECTOR_FDINUSE] by simp
  qed
  have "socksv5_passive_accept os key s = Some (key\<lparr>k_data := None\<rparr>, ?s1\<lparr>e_world := os_close os fd (e_world ?s1)\<rparr>)"
    unfolding c st(1) using st(2) by simp
  moreover have "sel_entry (?s1\<lparr>e_world := x\<rparr>) = sel_entry s" for x by (simp add: fun_eq_iff)
  ultimately show ?thesis by (intro exI[of _ c] exI[of _ "?s1\<lparr>e_world := os_close os fd (e_world ?s1)\<rparr>"]) simp
qed

section \<open>After an event\<close>

lemma after_event_spec:
  assumes att: "k_data key = Some a"
  shows "st \<noteq> DONE \<Longrightarrow> st \<noteq> ERROR \<Longrightarrow> \<exists>s'. after_event os oth key (st, m, c, s) = Some (key, s')
      \<and> sv_conns s' = (sv_conns s)(a := Some (c\<lparr>stm := m\<rparr>))"
    "st = DONE \<or> st = ERROR \<Longrightarrow> registry_ok s \<Longrightarrow> \<not> closed c \<Longrightarrow> stm_ok (c\<lparr>stm := m\<rparr>) \<Longrightarrow> owned a (origin_fd c) s
      \<Longrightarrow> owned a (client_fd c) s \<Longrightarrow> origin_fd c \<noteq> client_fd c \<Longrightarrow> 0 \<le> client_fd c
      \<Longrightarrow> \<exists>s'. after_event os oth key (st, m, c, s) = Some (key\<lparr>k_data := None\<rparr>, s')
        \<and> sv_conns s' = (sv_conns s)(a := None) \<and> sel_entry s' (client_fd c) = None \<and> sel_entry s' (origin_fd c) = None"
proof -
  show "\<exists>s'. after_event os oth key (st, m, c, s) = Some (key, s') \<and> sv_conns s' = (sv_conns s)(a := Some (c\<lparr>stm := m\<rparr>))"
    if "st \<noteq> DONE" "st \<noteq> ERROR"
    using that att by (simp add: after_event_def put_conn_def)
  assume st: "st = DONE \<or> st = ERROR" and s: "registry_ok s" and c: "\<not> closed c" "stm_ok (c\<lparr>stm := m\<rparr>)"
    and own: "owned a (origin_fd c) s" "owned a (client_fd c) s" and fds: "origin_fd c \<noteq> client_fd c" "0 \<le> client_fd c"
  let ?c = "c\<lparr>stm := m\<rparr>" and ?s = "put_conn key (Some (c\<lparr>stm := m\<rparr>)) s"
  have 1: "registry_ok ?s" "sv_conns ?s a = Some ?c" "\<not> closed ?c" "owned a (origin_fd ?c) ?s" "owned a (client_fd ?c) ?s"
    using s att c own by (simp_all add: put_conn_def owned_def)
  obtain s' where "socksv5_done (Suc (Suc 0)) os oth key ?s = Some (key\<lparr>k_data := None\<rparr>, s')"
      "sv_conns s' = (sv_conns ?s)(a := None)" "sel_entry s' = (sel_entry ?s)(origin_fd ?c := None, client_fd ?c := None)"
    using done_releases[OF 1(1) att 1(2,3) c(2) 1(4,5), of 0 os oth] fds by auto
  then show "\<exists>s'. after_event os oth key (st, m, c, s) = Some (key\<lparr>k_data := None\<rparr>, s')
        \<and> sv_conns s' = (sv_conns s)(a := None) \<and> sel_entry s' (client_fd c) = None \<and> sel_entry s' (origin_fd c) = None"
    using st att by (auto simp: after_event_def numeral_2_eq_2 put_conn_def)
qed

end
