(* ===== verification/Journeys.thy ===== *)
theory Journeys
  imports Socks5
begin

text \<open>
  Runs through several handlers. The lemmas on single steps of the machine say what one event
  does when the handler stays in its state and when it leaves it; the others follow a client
  through two states.
\<close>

section \<open>One event of the machine\<close>

definition ready_handler ::
  "stm_event \<Rightarrow> (key, ('w, 'm) hstate) state_definition \<Rightarrow> (key \<Rightarrow> ('w, 'm) hstate \<Rightarrow> (nat \<times> ('w, 'm) hstate) option) option" where
  "ready_handler ev d = (case ev of Ev_read \<Rightarrow> on_read_ready d | Ev_write \<Rightarrow> on_write_ready d | Ev_block \<Rightarrow> on_block_ready d)"

lemma states_nth_opt: "q < 8 \<Longrightarrow> nth_opt (socks5States os) q = Some (socks5States os ! q)"
  by (simp add: nth_opt_def)

lemma step_eq: "machine_step os ev key m s = stm_handler (ready_handler ev) (socks5States os) key m s"
  by (cases ev) (simp_all add: machine_step_def stm_handlers stm_handler_def ready_handler_def)

lemma step_stays:
  assumes "current m = Some q" "q < 8" "q \<le> max_state m" "ready_handler ev (socks5States os ! q) = Some h"
    and "h key s = Some (q, s')"
  shows "machine_step os ev key m s = Some (q, m, s')"
  unfolding step_eq by (rule handler_stays[where sel = "ready_handler ev" and h = h, OF assms(1) states_nth_opt[OF assms(2)] assms(3-5)])

lemma step_moves:
  assumes m: "current m = Some q" "q < 8" "max_state m = ERROR" and h: "ready_handler ev (socks5States os ! q) = Some h"
    and r: "h key s = Some (q', s1)" "q' \<noteq> q" "q' < 8" and a: "run_hook (on_arrival (socks5States os ! q')) q' key s1 = Some s2"
  shows "machine_step os ev key m s = Some (q', m\<lparr>current := Some q'\<rparr>, s2)"
  unfolding step_eq
proof (rule handler_moves[where sel = "ready_handler ev" and h = h, OF m(1) states_nth_opt[OF m(2)] h r(1,2) _ _ states_nth_opt[OF r(3)]])
  show "run_hook (on_departure (socks5States os ! q)) (sd_state (socks5States os ! q)) key s1 = Some s1"
    using m(2) by (simp add: states_departure run_hook_def socksv5_copy_close_def)
  show "run_hook (on_arrival (socks5States os ! q')) (sd_state (socks5States os ! q')) key s1 = Some s2"
    using a r(3) by (simp add: states_numbered)
qed (use m(3) r(3) in simp)

lemma step_first:
  assumes m: "current m = None" "initial m = q" "q < 8" "q \<le> max_state m"
    and a: "run_hook (on_arrival (socks5States os ! q)) q key s = Some s1"
    and h: "ready_handler ev (socks5States os ! q) = Some h" "h key s1 = Some (q, s')"
  shows "machine_step os ev key m s = Some (q, m\<lparr>current := Some q\<rparr>, s')"
  unfolding step_eq
  by (rule handler_first[where sel = "ready_handler ev" and h = h, OF m(1,2) states_nth_opt[OF m(3)] _ m(4) h]) (simp add: a states_numbered m(3))

section \<open>A client that does not offer the method\<close>

lemma greeting_read_fd:
  "greeting_read os key (c, e) = Some (q, c', e') \<Longrightarrow> client_fd c' = client_fd c"
  by (auto simp: greeting_read_def greeting_methods_def Let_def elim!: bind_SomeE split: prod.splits if_splits client_union.splits)

lemma after_methods_tl:
  assumes "length bs = n"
  shows "after_methods n bs = (if AUTH_METHOD \<in> set bs then tl (dropWhile (\<lambda>m. m \<noteq> AUTH_METHOD) bs) else [])"
  using assms by (simp add: after_methods_def dropWhile_eq_drop tl_drop drop_Suc)

lemma refused_run:
  assumes os: "os_ok os" and c: "bufs_ok c" "buffer_window (client_buffer c) = []" "buffer_window (origin_buffer c) = []"
    and e: "registry_ok e"
    and rd: "os_recv os (k_fd key) BUFFER_SIZE (e_world e) = (SysOk (SOCKS5_VERSION # n # ms), w)"
    and n: "n \<noteq> 0" "length ms = unat n" "AUTH_METHOD \<notin> set ms"
    and wr: "os_send os (client_fd c) [SOCKS5_VERSION, AUTH_METHOD_INVALID] w = (SysOk 2, w')"
  shows "\<exists>c' e'. machine_run os [(Ev_read, key), (Ev_write, key)]
      \<lparr>initial = GREETING, max_state = ERROR, current = None\<rparr> (c, e)
      = Some (\<lparr>initial = GREETING, max_state = ERROR, current = Some REQUEST\<rparr>, c', e') \<and> e_world e' = w'"
proof -
  let ?g = "\<lparr>g_state = VER_N_NMETHODS, g_n_methods = hd (os_uninit os 1 (e_world e)), g_method = NO_AUTH_METHOD\<rparr>"
  let ?c = "c\<lparr>client := U_greeting ?g\<rparr>"
  have g: "greeting_ready ?c ?g" using c by (simp add: greeting_ready_def bufs_ok_def)
  have room: "buffer_room (client_buffer ?c) = BUFFER_SIZE"
    using c room_of_empty by (simp add: bufs_ok_def)
  obtain c1 e1 g1 where r: "greeting_read os key (?c, e) = Some (GREETING, c1, e1)" "bufs_ok c1"
      "client c1 = U_greeting g1" "g_method g1 = AUTH_METHOD_INVALID"
      "buffer_window (origin_buffer c1) = [SOCKS5_VERSION, AUTH_METHOD_INVALID]" "registry_ok e1" "e_world e1 = w"
    using greeting_read_spec[OF os g e, of key] rd n c(2) room e
    by (auto simp: greet_from_def greet_methods_def greeted_def)
  have fd: "client_fd c1 = client_fd c" using greeting_read_fd[OF r(1)] by simp
  obtain c2 e2 where s: "greeting_write os key (c1, e1) = Some (REQUEST, c2, e2)" "e_world e2 = w'"
    using greeting_write_spec[OF os r(2,3,6), of key] r fd wr by auto
  obtain c3 where a: "request_arrival os REQUEST key (c2, e2) = Some (c3, e2)"
    by (auto simp: request_arrival_def Let_def)
  let ?m = "\<lparr>initial = GREETING, max_state = ERROR, current = None\<rparr>"
  have 1: "machine_step os Ev_read key ?m (c, e) = Some (GREETING, ?m\<lparr>current := Some GREETING\<rparr>, c1, e1)"
    by (rule step_first[where ?s1.0 = "(?c, e)" and h = "greeting_read os"]) (use r(1) in \<open>simp_all add: states_arrival run_hook_def greeting_arrival_def ready_handler_def states_read\<close>)
  have 2: "machine_step os Ev_write key (?m\<lparr>current := Some GREETING\<rparr>) (c1, e1) = Some (REQUEST, ?m\<lparr>current := Some REQUEST\<rparr>, c3, e2)"
    by (subst step_moves[where q = GREETING and h = "greeting_write os" and ?s1.0 = "(c2, e2)" and ?s2.0 = "(c3, e2)"]) (use s(1) a in \<open>simp_all add: states_arrival run_hook_def ready_handler_def states_write\<close>)
  show ?thesis using 1 2 s(2) by simp
qed

section \<open>The two buffers of a relay\<close>

lemma get_buf_simps: "get_buf CLIENT_BUFFER c = client_buffer c" "get_buf ORIGIN_BUFFER c = origin_buffer c"
  by (simp_all add: get_buf_def)

lemma client_side_simps:
  "fills CLIENT_COPY = CLIENT_BUFFER" "drains CLIENT_COPY = ORIGIN_BUFFER" "fd_of CLIENT_COPY c = client_fd c"
  "fills ORIGIN_COPY = ORIGIN_BUFFER" "drains ORIGIN_COPY = CLIENT_BUFFER" "fd_of ORIGIN_COPY c = origin_fd c"
  "other_copy CLIENT_COPY = ORIGIN_COPY" "other_copy ORIGIN_COPY = CLIENT_COPY"
  by (simp_all add: fills_def drains_def fd_of_def other_copy_def)

section \<open>The reply\<close>

lemma reply_round:
  assumes os: "os_ok os" "names_ok os" and c: "bufs_ok c" "client c = U_reply r" "buffer_window (origin_buffer c) = []"
    and e: "registry_ok e" and nm: "os_getsockname os (origin_fd c) (e_world e) = (SysOk a, w)"
    and wr: "os_send os (client_fd c) (reply_message (rep r) a) w = (SysOk (length (reply_message (rep r) a)), w')"
  shows "\<exists>c1 e1 c2 e2. reply_arrival os REPLY key (c, e) = Some (c1, e1)
    \<and> reply_write os key (c1, e1) = Some (if rep r = SUCCEDED then COPY else REQUEST, c2, e2)
    \<and> e_world e2 = w' \<and> buffer_window (origin_buffer c2) = []"
proof -
  obtain c1 e1 where 1: "reply_arrival os REPLY key (c, e) = Some (c1, e1)" "bufs_ok c1" "auth_rest c c1"
      "client c1 = U_reply (r\<lparr>found_bnd_info := Some True\<rparr>)" "e1 = e\<lparr>e_world := w\<rparr>"
      "buffer_window (origin_buffer c1) = reply_message (rep r) a"
    using reply_arrival_spec[OF c os(2), of REPLY key e] nm by auto
  have e1: "registry_ok e1" using e 1(5) by simp
  have fd: "client_fd c1 = client_fd c" using 1(3) by (simp add: auth_rest_def)
  from reply_write_spec[OF os(1) 1(2,4) _ e1, of True key] 1 wr fd
  show ?thesis by auto
qed

section \<open>A connection made at once\<close>

lemma dial_at_once:
  assumes r: "origin_resolution c = r # rest" and e: "registry_ok e"
    and so: "os_socket os (ai_family r) (ai_socktype r) (ai_protocol r) (e_world e) = (SysOk fd, w1)"
    and nio: "selector_fd_set_nio os fd w1 = (0, w2)" and co: "os_connect os fd (ai_addr r) w2 = (SysOk (), w3)"
  shows "connect_to_dest os key (c, e) = Some (REPLY, set_rep NETWORK_UNREACHABLE (c\<lparr>origin_fd := fd\<rparr>),
    poke (client_fd c) OP_WRITE (e\<lparr>e_world := w3\<rparr>))"
proof -
  have t: "try_connection os key (c, e) = Some (CONNECTION_DONE, c\<lparr>origin_fd := fd\<rparr>, e\<lparr>e_world := w3\<rparr>)"
    using assms by (simp add: try_connection_def Let_def)
  obtain st where p: "selector_set_interest (client_fd c) OP_WRITE (e\<lparr>e_world := w3\<rparr>)
      = Some (st, poke (client_fd c) OP_WRITE (e\<lparr>e_world := w3\<rparr>))"
    using set_interest_poke[of "e\<lparr>e_world := w3\<rparr>" "client_fd c" OP_WRITE] e by auto
  show ?thesis
    using r t p by (simp add: connect_to_dest_def dial_switch_done to_reply_state_def set_rep_def)
qed

end
