(* ===== verification/Sample.thy ===== *)
theory Sample
  imports Socks5 Journeys
begin

text \<open>
  A small concrete system, database, server and connection. They meet the hypotheses of the
  properties, which are applied to them. The world of the system is the list of segments that
  \<open>recv\<close> will deliver.
\<close>

section \<open>The system\<close>

text \<open>A text form of addresses without zero bytes.\<close>

fun esc :: "byte list \<Rightarrow> byte list" where
  "esc [] = []"
| "esc (b # bs) = (if b = 0 then [2, 1] else [1, b]) @ esc bs"

fun unesc :: "byte list \<Rightarrow> byte list" where
  "unesc (x # y # bs) = (if x = 2 then 0 else y) # unesc bs"
| "unesc bs = []"

definition sample_os :: "byte list list os" where
  "sample_os = \<lparr>
     os_recv = (\<lambda>fd n w. case w of [] \<Rightarrow> (SysErr 11, []) | bs # rest \<Rightarrow> (SysOk (take n bs), rest)),
     os_send = (\<lambda>fd bs w. (SysOk (length bs), w)),
     os_shutdown = (\<lambda>fd h w. w),
     os_close = (\<lambda>fd w. w),
     os_socket = (\<lambda>a b c w. (SysOk 7, w)),
     os_connect = (\<lambda>fd a w. (SysErr EINPROGRESS, w)),
     os_so_error = (\<lambda>fd w. (SysOk 0, w)),
     os_getsockname = (\<lambda>fd w. if fd = - 1 then (SysErr 9, w) else (SysOk (Sin (htons 1080) [127, 0, 0, 1]), w)),
     os_accept = (\<lambda>fd w. (SysOk (5, Sin (htons 50000) [127, 0, 0, 1]), w)),
     os_getfd = (\<lambda>fd w. (SysOk 0, w)),
     os_setfl = (\<lambda>fd f w. (SysOk (), w)),
     os_malloc = (\<lambda>w. (True, w)),
     os_thread = (\<lambda>w. (True, w)),
     os_uninit = (\<lambda>n w. replicate n 0),
     os_ntop = (\<lambda>f a n. Some (esc a)),
     os_pton = (\<lambda>f t. PtonOk (unesc t)),
     os_getaddrinfo = (\<lambda>h p w. (None, w)) \<rparr>"

lemma sample_os_ok: "os_ok sample_os"
  by (auto simp: os_ok_def sample_os_def split: list.splits)

lemma sample_names_ok: "names_ok sample_os"
  by (auto simp: names_ok_def sample_os_def split: if_splits)

lemma sample_fresh: "fd \<noteq> 7 \<Longrightarrow> fresh_fds sample_os fd"
  by (auto simp: fresh_fds_def sample_os_def)

lemma sample_mem: "mem_ok sample_os"
  by (simp add: mem_ok_def sample_os_def)

lemma unesc_esc: "unesc (esc bs) = bs"
  by (induction bs) auto

lemma esc_length: "length (esc bs) = 2 * length bs"
  by (induction bs) auto

lemma esc_nonzero: "0 \<notin> set (esc bs)"
  by (induction bs) auto

lemma sample_ip: "ip_text_ok sample_os"
  by (simp add: ip_text_ok_def sample_os_def unesc_esc esc_length esc_nonzero)

lemma sample_nio: "selector_fd_set_nio sample_os fd w = (0, w)"
  by (simp add: selector_fd_set_nio_def sample_os_def)

lemma sample_serves: "serves sample_os fd pieces pieces"
  by (induction pieces) (auto simp: sample_os_def intro!: exI)

section \<open>The server\<close>

definition sample_db :: users_db where
  "sample_db = the (users_init True True True users_static)"

lemma sample_db_ok: "users_ok sample_db" "totalAdmins sample_db = 1"
  "users_map sample_db = [ascii ''admin'' \<mapsto> (ascii ''admin'', USER_PRIVILEGE_ADMIN)]"
proof -
  obtain db where "users_init True True True users_static = Some db" "users_ok db" "totalAdmins db = 1"
    "users_map db = [ascii ''admin'' \<mapsto> (ascii ''admin'', USER_PRIVILEGE_ADMIN)]"
    by (rule users_init_spec)
  then show "users_ok sample_db" "totalAdmins sample_db = 1"
    "users_map sample_db = [ascii ''admin'' \<mapsto> (ascii ''admin'', USER_PRIVILEGE_ADMIN)]"
    by (simp_all add: sample_db_def)
qed

definition sample_server :: "'w \<Rightarrow> 'w server" where
  "sample_server w = \<lparr>fds = replicate 1025 (item_init zero_item), max_fd = 0,
     master_r = {}, master_w = {}, slave_r = {}, slave_w = {}, resolution_jobs = [],
     e_users = sample_db,
     e_metrics = \<lparr>currentConnections = 0, totalConnections = 0, totalBytesSent = 0, totalBytesReceived = 0\<rparr>,
     e_threads = [], e_calls = [], e_world = w, sv_conns = (\<lambda>_. None), sv_next = 0\<rparr>"

lemma sample_server_fields [simp]:
  "e_world (sample_server w) = w" "e_users (sample_server w) = sample_db" "fd_size (sample_server w) = 1025"
  "sv_conns (sample_server w) = (\<lambda>_. None)" "sv_next (sample_server w) = 0"
  by (simp_all add: sample_server_def)

lemma sample_no_entry [simp]: "sel_entry (sample_server w) fd = None"
  by (auto simp: sel_entry_def sample_server_def item_init_def ITEM_USED_def)

lemma sample_env_ok [simp]: "env_ok (sample_server w)" "sel_inv (sample_server w)" "sel_full (sample_server w)"
proof -
  show 1: "sel_inv (sample_server w)" "sel_full (sample_server w)"
    by (auto simp: sel_inv_def items_ok_def max_ok_def wants_def sel_full_def) (simp_all add: sample_server_def)
  then show "env_ok (sample_server w)" by (simp add: env_ok_def sample_db_ok)
qed

text \<open>Descriptors 5 and 7 registered for the connection number 0.\<close>

definition sample_pair :: "'w \<Rightarrow> 'w server" where
  "sample_pair w = with_item 7 (Some SOCKS5_HANDLER) OP_READ (Some 0)
     (with_item 5 (Some SOCKS5_HANDLER) OP_READ (Some 0) (sample_server w))"

lemma with_item_fields [simp]:
  "e_world (with_item fd h i d s) = e_world s" "e_users (with_item fd h i d s) = e_users s"
  "e_metrics (with_item fd h i d s) = e_metrics s" "sv_conns (with_item fd h i d t) = sv_conns t"
  by (simp_all add: with_item_def)

lemma sample_pair_ok [simp]: "env_ok (sample_pair w)" "sel_inv (sample_pair w)" "sel_full (sample_pair w)"
    "e_world (sample_pair w) = w" "sv_conns (sample_pair w) = (\<lambda>_. None)"
    "sel_entry (sample_pair w) = [5 \<mapsto> \<lparr>it_fd = 5, it_interest = OP_READ, it_handler = Some SOCKS5_HANDLER, it_data = Some 0\<rparr>,
      7 \<mapsto> \<lparr>it_fd = 7, it_interest = OP_READ, it_handler = Some SOCKS5_HANDLER, it_data = Some 0\<rparr>]"
proof -
  let ?a = "with_item 5 (Some SOCKS5_HANDLER) OP_READ (Some 0) (sample_server w)"
  have a: "sel_inv ?a" "fd_size ?a = 1025" by (intro inv_with_item) (simp_all add: with_item_def)
  have b: "sel_inv (sample_pair w)" unfolding sample_pair_def by (rule inv_with_item) (use a in simp_all)
  then show "sel_inv (sample_pair w)" "sel_full (sample_pair w)" by (simp_all add: sample_pair_def)
  with b show "env_ok (sample_pair w)" by (simp add: env_ok_def sample_pair_def sample_db_ok)
  show "e_world (sample_pair w) = w" "sv_conns (sample_pair w) = (\<lambda>_. None)" by (simp_all add: sample_pair_def)
  have e: "sel_entry ?a = (\<lambda>fd. None)(5 \<mapsto> \<lparr>it_fd = 5, it_interest = OP_READ, it_handler = Some SOCKS5_HANDLER, it_data = Some 0\<rparr>)"
    by (subst entry_with_item) (simp_all add: fun_eq_iff)
  show "sel_entry (sample_pair w) = [5 \<mapsto> \<lparr>it_fd = 5, it_interest = OP_READ, it_handler = Some SOCKS5_HANDLER, it_data = Some 0\<rparr>,
      7 \<mapsto> \<lparr>it_fd = 7, it_interest = OP_READ, it_handler = Some SOCKS5_HANDLER, it_data = Some 0\<rparr>]"
    unfolding sample_pair_def by (subst entry_with_item) (use a(2) in \<open>simp_all add: e\<close>)
qed

section \<open>The connection\<close>

definition empty_buffer :: buffer where
  "empty_buffer = buffer_init BUFFER_SIZE (replicate BUFFER_SIZE 0)"

lemma empty_buffer_ok [simp]: "buffer_inv empty_buffer" "buffer_window empty_buffer = []"
    "b_limit empty_buffer = BUFFER_SIZE" "buffer_room empty_buffer = BUFFER_SIZE"
proof -
  show 1: "buffer_inv empty_buffer" "buffer_window empty_buffer = []" "b_limit empty_buffer = BUFFER_SIZE"
    by (simp_all add: empty_buffer_def)
  show "buffer_room empty_buffer = BUFFER_SIZE" using room_of_empty[OF 1(1,2)] 1(3) by simp
qed

definition holding :: "byte list \<Rightarrow> buffer" where
  "holding bs = the (buffer_write_all bs empty_buffer)"

lemma holding_ok:
  assumes "length bs \<le> BUFFER_SIZE"
  shows "buffer_inv (holding bs)" "buffer_window (holding bs) = bs" "b_limit (holding bs) = BUFFER_SIZE"
    "buffer_room (holding bs) = BUFFER_SIZE - length bs"
proof -
  have "length bs \<le> buffer_room empty_buffer" using assms by simp
  from bb.put_all_spec[OF empty_buffer_ok(1) this] obtain b where
    "buffer_write_all bs empty_buffer = Some b" "buffer_inv b" "buffer_window b = bs" "b_limit b = b_limit empty_buffer"
    "buffer_room b = buffer_room empty_buffer - length bs" by auto
  then show "buffer_inv (holding bs)" "buffer_window (holding bs) = bs" "b_limit (holding bs) = BUFFER_SIZE"
    "buffer_room (holding bs) = BUFFER_SIZE - length bs"
    by (simp_all add: holding_def)
qed

definition sample_conn :: "client_union \<Rightarrow> socks5" where
  "sample_conn u = \<lparr>client_fd = 5, client_buffer = empty_buffer, client_addr = Sin 0 [127, 0, 0, 1], client = u,
     origin_fd = - 1, origin_host = replicate HOST_MAX_LENGHT 0, origin_port = replicate PORT_MAX_LENGHT 0,
     origin_resolution = [], origin_buffer = empty_buffer, origin_copy = None, c_atyp = 0,
     stm = \<lparr>initial = GREETING, max_state = ERROR, current = None\<rparr>, closed = False\<rparr>"

lemma sample_conn_fields [simp]:
  "client_fd (sample_conn u) = 5" "client_buffer (sample_conn u) = empty_buffer" "client (sample_conn u) = u"
  "origin_fd (sample_conn u) = - 1" "origin_resolution (sample_conn u) = []" "origin_buffer (sample_conn u) = empty_buffer"
  "closed (sample_conn u) = False" "stm (sample_conn u) = \<lparr>initial = GREETING, max_state = ERROR, current = None\<rparr>"
  by (simp_all add: sample_conn_def)

lemma sample_conn_ok [simp]: "bufs_ok (sample_conn u)" "arrays_ok (sample_conn u)" "conn_ok (sample_conn u)"
  "drained (sample_conn u)" "stm_ok (sample_conn u)"
  by (simp_all add: bufs_ok_def arrays_ok_def conn_ok_def drained_def stm_ok_def sample_conn_def)

lemma sample_good: "good sample_os (sample_conn u) (sample_server w)"
  by (simp add: good_def sample_os_ok sample_names_ok sample_fresh)

definition sample_copying :: "byte list \<Rightarrow> byte list \<Rightarrow> socks5" where
  "sample_copying up down = (sample_conn (U_copy \<lparr>cp_buffer = ORIGIN_BUFFER, cp_fd = 5, cp_interests = OP_READ, cp_other = ORIGIN_COPY\<rparr>))
     \<lparr>origin_fd := 7, client_buffer := holding up, origin_buffer := holding down,
      origin_copy := Some \<lparr>cp_buffer = CLIENT_BUFFER, cp_fd = 7, cp_interests = OP_READ, cp_other = CLIENT_COPY\<rparr>\<rparr>"

lemma sample_copying_ok:
  "length up \<le> BUFFER_SIZE \<Longrightarrow> length down \<le> BUFFER_SIZE \<Longrightarrow> copy_ok (sample_copying up down)"
  by (simp add: copy_ok_def bufs_ok_def copies_ok_def sample_copying_def holding_ok)

section \<open>States in progress\<close>

definition sample_auth :: auth_st where
  "sample_auth = \<lparr>a_state = AUTH_VER, a_ulen = 0, a_plen = 0, a_username = replicate 256 0,
     a_password = replicate 256 0, a_authenticated = False\<rparr>"

definition sample_request :: request_st where
  "sample_request = \<lparr>r_state = VER_CMD_ATYP, r_cmd = 0, r_atyp = 0\<rparr>"

text \<open>The first event of a connection, and the same event in its first state.\<close>

lemma sample_greeting_read:
  "\<exists>c' e'. greeting_read sample_os \<lparr>k_fd = 5, k_data = Some 0\<rparr>
     (sample_conn (U_greeting \<lparr>g_state = VER_N_NMETHODS, g_n_methods = 0, g_method = 0\<rparr>), sample_server [[5, 1, 2]])
     = Some (GREETING, c', e')"
proof -
  have "greeting_ready (sample_conn (U_greeting \<lparr>g_state = VER_N_NMETHODS, g_n_methods = 0, g_method = 0\<rparr>))
      \<lparr>g_state = VER_N_NMETHODS, g_n_methods = 0, g_method = 0\<rparr>"
    by (simp add: greeting_ready_def)
  from greeting_read_spec[OF sample_os_ok this, of "sample_server [[5, 1, 2]]" "\<lparr>k_fd = 5, k_data = Some 0\<rparr>"]
  show ?thesis
    by (auto simp: sample_os_def greet_from_def greet_methods_def greeted_def)
qed

lemma sample_greeting_step:
  "\<exists>c' e'. machine_run sample_os [(Ev_read, \<lparr>k_fd = 5, k_data = Some 0\<rparr>)]
      \<lparr>initial = GREETING, max_state = ERROR, current = None\<rparr> (sample_conn U_uninit, sample_server [[5, 1, 2]])
      = Some (\<lparr>initial = GREETING, max_state = ERROR, current = Some GREETING\<rparr>, c', e')"
  "\<exists>s'. machine_step sample_os Ev_read \<lparr>k_fd = 5, k_data = Some 0\<rparr>
      \<lparr>initial = GREETING, max_state = ERROR, current = Some GREETING\<rparr>
      (sample_conn (U_greeting \<lparr>g_state = VER_N_NMETHODS, g_n_methods = 0, g_method = 0\<rparr>), sample_server [[5, 1, 2]])
      = Some (GREETING, \<lparr>initial = GREETING, max_state = ERROR, current = Some GREETING\<rparr>, s')"
proof -
  let ?g = "U_greeting \<lparr>g_state = VER_N_NMETHODS, g_n_methods = 0, g_method = 0\<rparr>"
  obtain c' e' where r: "greeting_read sample_os \<lparr>k_fd = 5, k_data = Some 0\<rparr> (sample_conn ?g, sample_server [[5, 1, 2]])
     = Some (GREETING, c', e')" using sample_greeting_read by blast
  have 0: "nth_opt (socks5States sample_os) GREETING = Some (socks5States sample_os ! GREETING)"
    by (simp add: nth_opt_def)
  have un: "(sample_conn U_uninit)\<lparr>client := ?g\<rparr> = sample_conn ?g" by (simp add: sample_conn_def)
  have junk: "hd (os_uninit sample_os 1 w) = 0" for w by (simp add: sample_os_def)
  show "\<exists>s'. machine_step sample_os Ev_read \<lparr>k_fd = 5, k_data = Some 0\<rparr>
      \<lparr>initial = GREETING, max_state = ERROR, current = Some GREETING\<rparr> (sample_conn ?g, sample_server [[5, 1, 2]])
      = Some (GREETING, \<lparr>initial = GREETING, max_state = ERROR, current = Some GREETING\<rparr>, s')"
    using r 0 by (simp add: machine_step_def stm_handlers stm_handler_def handle_first_def states_read jump_def)
  show "\<exists>c' e'. machine_run sample_os [(Ev_read, \<lparr>k_fd = 5, k_data = Some 0\<rparr>)]
      \<lparr>initial = GREETING, max_state = ERROR, current = None\<rparr> (sample_conn U_uninit, sample_server [[5, 1, 2]])
      = Some (\<lparr>initial = GREETING, max_state = ERROR, current = Some GREETING\<rparr>, c', e')"
    using r 0 un junk
    by (simp add: machine_step_def stm_handlers stm_handler_def handle_first_def states_read states_arrival jump_def
        run_hook_def greeting_arrival_def states_numbered)
qed

end
