(* ===== verification/PamAuth.thy ===== *)
theory PamAuth
  imports Connection
begin

text \<open>
  The data of a management connection (\<open>struct pam\<close> of \<open>src/server/include/pam.h\<close> with
  \<open>pamAuth.h\<close> and \<open>pamRequest.h\<close>) and its first state, \<open>PAM_AUTH\<close>
  (\<open>src/server/pam/pamAuth.c\<close>). A connection has one buffer, used for both directions.

  The lemmas give the answer to a whole credentials message, and what happens to one that comes
  in pieces.
\<close>

section \<open>The connection\<close>

abbreviation (input) PAM_VERSION_1 :: byte where "PAM_VERSION_1 \<equiv> 1"
abbreviation (input) PAM_BUFFER_SIZE :: nat where "PAM_BUFFER_SIZE \<equiv> 65536"

abbreviation (input) PAM_AUTH :: nat where "PAM_AUTH \<equiv> 0"
abbreviation (input) PAM_REQUEST :: nat where "PAM_REQUEST \<equiv> 1"
abbreviation (input) PAM_DONE :: nat where "PAM_DONE \<equiv> 2"
abbreviation (input) PAM_ERROR :: nat where "PAM_ERROR \<equiv> 3"

abbreviation (input) PAM_AUTH_USERNAME_MAX_LENGHT :: nat where "PAM_AUTH_USERNAME_MAX_LENGHT \<equiv> 255"
abbreviation (input) PAM_AUTH_PASS_MAX_LENGHT :: nat where "PAM_AUTH_PASS_MAX_LENGHT \<equiv> 255"
abbreviation (input) PAM_REQUEST_BODY_MAX_LENGTH :: nat where "PAM_REQUEST_BODY_MAX_LENGTH \<equiv> 65536"
abbreviation (input) RESERVED_BYTE :: byte where "RESERVED_BYTE \<equiv> 0"

abbreviation (input) PAM_AUTH_SUCCESS :: byte where "PAM_AUTH_SUCCESS \<equiv> 0"
abbreviation (input) PAM_AUTH_FAILURE :: byte where "PAM_AUTH_FAILURE \<equiv> 1"
abbreviation (input) PAM_SERVER_ERROR :: byte where "PAM_SERVER_ERROR \<equiv> 2"

datatype pam_auth_state = VER_N_NUSER_N_NPASS | USERNAME | PASS

text \<open>
  The memory of a new connection is not initialised: the state of a substate is undetermined
  (\<open>None\<close>) until its arrival hook, and reading it then is undefined; the bytes are those of
  fresh memory. The field \<open>ver\<close> of the two structures, which nothing uses, is left out.
\<close>

record pamAuth_st =
  pa_state :: "pam_auth_state option"
  pa_status :: byte
  pa_n_user :: byte
  pa_n_pass :: byte
  pa_username :: "byte list"
  pa_pass :: "byte list"

datatype pam_request_state = VER_N_RESERVED | METHOD | NBODY | READ_BODY | WRITE

record pamRequest_st =
  pr_state :: "pam_request_state option"
  pr_reserved :: byte
  pr_method :: u16
  pr_read_nbody :: u16
  pr_read_body :: "byte list"
  pr_status :: byte
  pr_write_nbody :: u16
  pr_write_body :: "byte list"

record pam =
  pm_client_fd :: int
  pm_client_addr :: sockaddr
  pm_buffer :: buffer
  pm_auth :: pamAuth_st
  pm_request :: pamRequest_st
  pm_stm :: state_machine

type_synonym ('w, 'm) pstate = "pam \<times> ('w, 'm) env_scheme"
type_synonym ('w, 'm) phandler = "key \<Rightarrow> ('w, 'm) pstate \<Rightarrow> (nat \<times> ('w, 'm) pstate) option"

section \<open>The state \<open>PAM_AUTH\<close>\<close>

definition pam_auth_arrival :: "nat \<Rightarrow> key \<Rightarrow> ('w, 'm) pstate \<Rightarrow> ('w, 'm) pstate option" where
  "pam_auth_arrival st key = (\<lambda>(c, e).
     Some (c\<lparr>pm_auth := (pm_auth c)\<lparr>pa_state := Some VER_N_NUSER_N_NPASS\<rparr>\<rparr>, e))"

text \<open>The loop over the bytes of the password, which also stops at the end of the buffer.\<close>

fun read_while :: "nat \<Rightarrow> nat \<Rightarrow> byte list \<Rightarrow> buffer \<Rightarrow> (byte list \<times> buffer) option" where
  "read_while 0 i arr b = Some (arr, b)"
| "read_while (Suc n) i arr b =
     (if \<not> buffer_can_read b then Some (arr, b)
      else do {
        (x, b) \<leftarrow> buffer_read b;
        arr \<leftarrow> c_set arr i x;
        read_while n (Suc i) arr b
      })"

text \<open>The three parts of \<open>pam_auth_read\<close>, last first.\<close>

definition pam_auth_pass :: "('w, 'm) phandler" where
  "pam_auth_pass key = (\<lambda>(c, e). do {
     st \<leftarrow> pa_state (pm_auth c);
     (if st \<noteq> PASS then Some (PAM_AUTH, c, e)
      else do {
        let a = pm_auth c;
        (p, toRead) \<leftarrow> buffer_read_ptr (pm_buffer c);
        (if toRead < unat (pa_n_pass a) then Some (PAM_AUTH, c, e)
         else do {
           (pw, b) \<leftarrow> read_while (unat (pa_n_pass a)) 0 (pa_pass a) (pm_buffer c);
           pw \<leftarrow> c_set pw (unat (pa_n_pass a)) 0;
           let c = c\<lparr>pm_buffer := b, pm_auth := a\<lparr>pa_pass := pw\<rparr>\<rparr>;
           (userStatus, db) \<leftarrow> user_authenticate (e_users e) (pa_username a) pw;
           let e = e\<lparr>e_users := db, e_calls := e_calls e @ [Log_pam_login userStatus (cstr (pa_username a))]\<rparr>;
           (if userStatus \<notin> {USER_OK, USER_BADUSERNAME, USER_WRONGPASSWORD} then Some (PAM_ERROR, c, e)
            else do {
              let status = (if userStatus = USER_OK then PAM_AUTH_SUCCESS else PAM_AUTH_FAILURE);
              b \<leftarrow> buffer_write (buffer_reset b) PAM_VERSION_1;
              b \<leftarrow> buffer_write b status;
              (st, e) \<leftarrow> selector_set_interest_key key OP_WRITE e;
              Some (PAM_AUTH, c\<lparr>pm_buffer := b, pm_auth := a\<lparr>pa_pass := pw, pa_status := status\<rparr>\<rparr>, e)
            })
         })
      })
   })"

definition pam_auth_username :: "('w, 'm) phandler" where
  "pam_auth_username key = (\<lambda>(c, e). do {
     st \<leftarrow> pa_state (pm_auth c);
     (if st \<noteq> USERNAME then pam_auth_pass key (c, e)
      else do {
        let a = pm_auth c;
        (p, toRead) \<leftarrow> buffer_read_ptr (pm_buffer c);
        (if toRead < unat (pa_n_user a) then Some (PAM_AUTH, c, e)
         else do {
           (un, b) \<leftarrow> read_into (unat (pa_n_user a)) (pa_username a) (pm_buffer c);
           un \<leftarrow> c_set un (unat (pa_n_user a)) 0;
           pam_auth_pass key (c\<lparr>pm_buffer := b, pm_auth := a\<lparr>pa_state := Some PASS, pa_username := un\<rparr>\<rparr>, e)
         })
      })
   })"

text \<open>The first check asks \<open>buffer_write_ptr\<close> for the bytes received: it gets the room left.\<close>

definition pam_auth_header :: "('w, 'm) phandler" where
  "pam_auth_header key = (\<lambda>(c, e). do {
     st \<leftarrow> pa_state (pm_auth c);
     (if st \<noteq> VER_N_NUSER_N_NPASS then pam_auth_username key (c, e)
      else do {
        let a = pm_auth c;
        (p, toRead) \<leftarrow> buffer_write_ptr (pm_buffer c);
        (if toRead < 3 then Some (PAM_AUTH, c, e)
         else do {
           (ver, b) \<leftarrow> buffer_read (pm_buffer c);
           (if ver \<noteq> PAM_VERSION_1 then Some (PAM_ERROR, c\<lparr>pm_buffer := b\<rparr>, e)
            else do {
              (nu, b) \<leftarrow> buffer_read b;
              (if nu = 0 then Some (PAM_ERROR, c\<lparr>pm_buffer := b, pm_auth := a\<lparr>pa_n_user := nu\<rparr>\<rparr>, e)
               else do {
                 (np, b) \<leftarrow> buffer_read b;
                 (if np = 0 then Some (PAM_ERROR, c\<lparr>pm_buffer := b, pm_auth := a\<lparr>pa_n_user := nu, pa_n_pass := np\<rparr>\<rparr>, e)
                  else pam_auth_username key
                    (c\<lparr>pm_buffer := b, pm_auth := a\<lparr>pa_state := Some USERNAME, pa_n_user := nu, pa_n_pass := np\<rparr>\<rparr>, e))
               })
            })
         })
      })
   })"

text \<open>What both read handlers start with: a state to answer at once, or \<open>None\<close> to go on.\<close>

definition pam_recv :: "'w os \<Rightarrow> key \<Rightarrow> ('w, 'm) pstate \<Rightarrow> (nat option \<times> ('w, 'm) pstate) option" where
  "pam_recv os key = (\<lambda>(c, e). do {
     (readn, b, w) \<leftarrow> recv_into os (k_fd key) (pm_buffer c) (e_world e);
     let c = c\<lparr>pm_buffer := b\<rparr>;
     let e = e\<lparr>e_world := w\<rparr>;
     (if readn < 0 then Some (Some PAM_ERROR, c, e)
      else if readn = 0 then Some (Some PAM_DONE, c, e)
      else do {
        b \<leftarrow> buffer_write_adv b readn;
        Some (None, c\<lparr>pm_buffer := b\<rparr>, e)
      })
   })"

definition pam_auth_read :: "'w os \<Rightarrow> ('w, 'm) phandler" where
  "pam_auth_read os key s = do {
     (out, s) \<leftarrow> pam_recv os key s;
     (case out of Some q \<Rightarrow> Some (q, s) | None \<Rightarrow> pam_auth_header key s)
   }"

text \<open>The next state does not depend on the status that was sent.\<close>

definition pam_auth_write :: "'w os \<Rightarrow> ('w, 'm) phandler" where
  "pam_auth_write os key = (\<lambda>(c, e). do {
     (written, w) \<leftarrow> send_from os (pm_client_fd c) (pm_buffer c) (e_world e);
     let e = e\<lparr>e_world := w\<rparr>;
     b \<leftarrow> buffer_read_adv (pm_buffer c) written;
     let c = c\<lparr>pm_buffer := b\<rparr>;
     (if written < 0 then Some (PAM_ERROR, c, e)
      else if buffer_can_read b then Some (PAM_AUTH, c, e)
      else do {
        (st, e) \<leftarrow> selector_set_interest_key key OP_READ e;
        Some (PAM_REQUEST, c\<lparr>pm_buffer := buffer_reset b\<rparr>, e)
      })
   })"

end
