(* ===== verification/PamMethods.thy ===== *)
theory PamMethods
  imports PamAuth
begin

text \<open>
  The methods of the management protocol, \<open>src/server/pam/pamMethods.c\<close>: user list, adding and
  removing users, changing passwords and roles, metrics. A handler reads its arguments from the
  body of the request and sets the status and, for the two queries only, the body of the answer.
\<close>

section \<open>Codes\<close>

abbreviation (input) PAM_REQUEST_SUCCESS :: byte where "PAM_REQUEST_SUCCESS \<equiv> 0"
abbreviation (input) PAM_REQUEST_FAILURE :: byte where "PAM_REQUEST_FAILURE \<equiv> 1"
abbreviation (input) PAM_REQUEST_UNAUTHORIZED :: byte where "PAM_REQUEST_UNAUTHORIZED \<equiv> 2"
abbreviation (input) PAM_REQUEST_USER_ALREADY_EXISTS :: byte where "PAM_REQUEST_USER_ALREADY_EXISTS \<equiv> 3"
abbreviation (input) PAM_REQUEST_USER_WRONG_PASSWORD :: byte where "PAM_REQUEST_USER_WRONG_PASSWORD \<equiv> 4"
abbreviation (input) PAM_REQUEST_USER_CREDTOOLONG :: byte where "PAM_REQUEST_USER_CREDTOOLONG \<equiv> 5"
abbreviation (input) PAM_REQUEST_USER_BADUSERNAME :: byte where "PAM_REQUEST_USER_BADUSERNAME \<equiv> 6"

definition set_status :: "byte \<Rightarrow> pam \<Rightarrow> pam" where
  "set_status st c = c\<lparr>pm_request := (pm_request c)\<lparr>pr_status := st\<rparr>\<rparr>"

definition set_nbody :: "u16 \<Rightarrow> pam \<Rightarrow> pam" where
  "set_nbody n c = c\<lparr>pm_request := (pm_request c)\<lparr>pr_write_nbody := n\<rparr>\<rparr>"

definition set_write_body :: "byte list \<Rightarrow> pam \<Rightarrow> pam" where
  "set_write_body bs c = c\<lparr>pm_request := (pm_request c)\<lparr>pr_write_body := bs\<rparr>\<rparr>"

section \<open>Arguments\<close>

text \<open>
  A length byte and that many bytes, terminated, in a local array of 255 bytes: for the length
  255 the terminator is stored past its end.
\<close>

definition read_field :: "'w os \<Rightarrow> 'w \<Rightarrow> buffer \<Rightarrow> (byte list \<times> buffer) option" where
  "read_field os w b = do {
     (n, b) \<leftarrow> buffer_read b;
     (arr, b) \<leftarrow> read_into (unat n) (os_uninit os PAM_AUTH_USERNAME_MAX_LENGHT w) b;
     arr \<leftarrow> c_set arr (unat n) 0;
     Some (arr, b)
   }"

section \<open>The methods\<close>

text \<open>
  The list is written after the initial message; \<open>users_get_connected_users_list\<close> returns the
  position where it ended, and the handler adds it to the length of the message once more. On
  success the status is not set.
\<close>

definition listing_message :: "byte list" where
  "listing_message = ascii ''+OK listing users'' @ [10]"

definition handle_get_connected_users_list :: "('w, 'm) pstate \<Rightarrow> ('w, 'm) pstate option" where
  "handle_get_connected_users_list = (\<lambda>(c, e). do {
     let len = length listing_message;
     (n, buf, db) \<leftarrow> users_get_connected_users_list (e_users e)
       (store_at 0 listing_message (replicate PAM_BUFFER_SIZE 0)) len;
     let e = e\<lparr>e_users := db\<rparr>;
     let copied = len + n;
     (if copied \<le> len then Some (set_nbody 0 (set_status PAM_SERVER_ERROR c), e)
      else do {
        wb \<leftarrow> c_memcpy (pr_write_body (pm_request c)) 0 buf copied;
        Some (set_nbody (of_nat copied) (set_write_body wb c), e)
      })
   })"

definition create_code :: "user_status \<Rightarrow> byte" where
  "create_code st = (case st of
     USER_OK \<Rightarrow> PAM_REQUEST_SUCCESS
   | USER_ALREADYEXISTS \<Rightarrow> PAM_REQUEST_USER_ALREADY_EXISTS
   | USER_WRONGPASSWORD \<Rightarrow> PAM_REQUEST_USER_WRONG_PASSWORD
   | USER_CREDTOOLONG \<Rightarrow> PAM_REQUEST_USER_CREDTOOLONG
   | USER_BADUSERNAME \<Rightarrow> PAM_REQUEST_USER_BADUSERNAME)"

text \<open>The local \<open>User\<close> of \<open>user_create\<close> is not initialised; \<open>list_add\<close> may allocate twice.\<close>

definition local_user :: "'w os \<Rightarrow> 'w \<Rightarrow> user" where
  "local_user os w = (let junk = os_uninit os 512 w in
     \<lparr>u_username = take 256 junk, u_password = drop 256 junk, u_privilege_level = 0\<rparr>)"

definition handle_add_user :: "'w os \<Rightarrow> buffer \<Rightarrow> ('w, 'm) pstate \<Rightarrow> ('w, 'm) pstate option" where
  "handle_add_user os b = (\<lambda>(c, e). do {
     (username, b) \<leftarrow> read_field os (e_world e) b;
     (password, b) \<leftarrow> read_field os (e_world e) b;
     (role, b) \<leftarrow> buffer_read b;
     let c = set_status PAM_REQUEST_SUCCESS c;
     (admin, db) \<leftarrow> user_is_admin (e_users e) (pa_username (pm_auth c));
     (if \<not> admin then Some (set_status PAM_REQUEST_UNAUTHORIZED c, e\<lparr>e_users := db\<rparr>)
      else do {
        let (m1, w) = os_malloc os (e_world e);
        let (m2, w) = os_malloc os w;
        (st, db) \<leftarrow> user_create m1 m2 (local_user os w) db username password (unat role);
        Some (set_status (create_code st) c, e\<lparr>e_users := db, e_world := w\<rparr>)
      })
   })"

text \<open>
  \<open>userToRemove\<close> is a pointer, \<open>NULL\<close> when there is no such user; the second operand of the
  condition reads through it when there is one administrator.
\<close>

definition handle_remove_user :: "'w os \<Rightarrow> buffer \<Rightarrow> ('w, 'm) pstate \<Rightarrow> ('w, 'm) pstate option" where
  "handle_remove_user os b = (\<lambda>(c, e). do {
     (username, b) \<leftarrow> read_field os (e_world e) b;
     let c = set_status PAM_REQUEST_SUCCESS c;
     let currentUserName = pa_username (pm_auth c);
     (userToRemove, db) \<leftarrow> user_get_if_exists (e_users e) username;
     (admin, db) \<leftarrow> user_is_admin db currentUserName;
     refused \<leftarrow>
       (if \<not> admin then Some True
        else do {
          last_admin \<leftarrow>
            (if user_total_admins db = 1 then do {
               a \<leftarrow> userToRemove;
               u \<leftarrow> user_load db a;
               Some (u_privilege_level u = USER_PRIVILEGE_ADMIN)
             } else Some False);
          (if last_admin then Some True
           else do { r \<leftarrow> c_strcmp currentUserName username; Some (r = 0) })
        });
     (if refused then Some (set_status PAM_REQUEST_UNAUTHORIZED c, e\<lparr>e_users := db\<rparr>)
      else do {
        (st, db) \<leftarrow> user_remove db username;
        Some (set_status (if st = USER_OK then PAM_REQUEST_SUCCESS
            else if st = USER_BADUSERNAME then PAM_REQUEST_USER_BADUSERNAME else of_nat PAM_ERROR) c,
          e\<lparr>e_users := db\<rparr>)
      })
   })"

text \<open>The case \<open>USER_BADUSERNAME\<close> has no \<open>break\<close>: it falls into the default, status \<open>PAM_ERROR\<close>.\<close>

definition handle_change_password :: "'w os \<Rightarrow> buffer \<Rightarrow> ('w, 'm) pstate \<Rightarrow> ('w, 'm) pstate option" where
  "handle_change_password os b = (\<lambda>(c, e). do {
     (username, b) \<leftarrow> read_field os (e_world e) b;
     (newPassword, b) \<leftarrow> read_field os (e_world e) b;
     let c = set_status PAM_REQUEST_SUCCESS c;
     (admin, db) \<leftarrow> user_is_admin (e_users e) (pa_username (pm_auth c));
     (if \<not> admin then Some (set_status PAM_REQUEST_UNAUTHORIZED c, e\<lparr>e_users := db\<rparr>)
      else do {
        (st, db) \<leftarrow> user_change_password db username newPassword;
        (case st of
           USER_OK \<Rightarrow> Some (set_status PAM_REQUEST_SUCCESS c, e\<lparr>e_users := db\<rparr>)
         | USER_BADUSERNAME \<Rightarrow> Some (set_status (of_nat PAM_ERROR)
             (set_status PAM_REQUEST_USER_ALREADY_EXISTS c), e\<lparr>e_users := db\<rparr>)
         | _ \<Rightarrow> Some (set_status (of_nat PAM_ERROR) c, e\<lparr>e_users := db\<rparr>))
      })
   })"

definition handle_change_role :: "'w os \<Rightarrow> buffer \<Rightarrow> ('w, 'm) pstate \<Rightarrow> ('w, 'm) pstate option" where
  "handle_change_role os b = (\<lambda>(c, e). do {
     (username, b) \<leftarrow> read_field os (e_world e) b;
     (newRole, b) \<leftarrow> buffer_read b;
     let c = set_status PAM_REQUEST_SUCCESS c;
     (admin, db) \<leftarrow> user_is_admin (e_users e) (pa_username (pm_auth c));
     (if \<not> admin then Some (set_status PAM_REQUEST_UNAUTHORIZED c, e\<lparr>e_users := db\<rparr>)
      else do {
        (st, db) \<leftarrow> user_change_role db username (unat newRole);
        Some (set_status (if st = USER_OK then PAM_REQUEST_SUCCESS
            else if st = USER_BADUSERNAME then PAM_REQUEST_USER_ALREADY_EXISTS else of_nat PAM_ERROR) c,
          e\<lparr>e_users := db\<rparr>)
      })
   })"

text \<open>
  \<open>%d\<close> with an argument of type \<open>size_t\<close>: on the platform the low 32 bits, as a signed number.
  \<open>snprintf\<close> does not fail on this format.
\<close>

definition int_text :: "u64 \<Rightarrow> byte list" where
  "int_text x = (let n = sint (ucast x :: 32 word) in
     if n < 0 then 45 # dec_digits (nat (- n)) else dec_digits (nat n))"

definition metrics_message :: "byte list" where
  "metrics_message = ascii ''+OK Metrics snapshot'' @ [10]"

definition metrics_text :: "metricSnapshot \<Rightarrow> byte list" where
  "metrics_text m =
     ascii ''Current Connections: '' @ int_text (currentConnections m) @ [10]
   @ ascii ''Total Connections: '' @ int_text (totalConnections m) @ [10]
   @ ascii ''Total Bytes Sent: '' @ int_text (totalBytesSent m) @ [10]
   @ ascii ''Total Bytes Received: '' @ int_text (totalBytesReceived m) @ [10]"

definition handle_get_metrics :: "('w, 'm) pstate \<Rightarrow> ('w, 'm) pstate option" where
  "handle_get_metrics = (\<lambda>(c, e). do {
     let snapshot = get_metrics_snapshot (e_metrics e);
     wb \<leftarrow> c_memcpy (pr_write_body (pm_request c)) 0 metrics_message (length metrics_message);
     let copied = length metrics_message;
     let t = metrics_text snapshot;
     let stored = take (PAM_BUFFER_SIZE - copied - 1) t @ [0];
     wb \<leftarrow> c_memcpy wb copied stored (length stored);
     Some (set_nbody (of_nat (copied + length t)) (set_status PAM_REQUEST_SUCCESS (set_write_body wb c)), e)
   })"

definition handle_pam_request_method :: "'w os \<Rightarrow> buffer \<Rightarrow> ('w, 'm) pstate \<Rightarrow> ('w, 'm) pstate option" where
  "handle_pam_request_method os b = (\<lambda>(c, e).
     let m = pr_method (pm_request c) in
     if m = 1 then handle_get_connected_users_list (c, e)
     else if m = 2 then handle_add_user os b (c, e)
     else if m = 3 then handle_remove_user os b (c, e)
     else if m = 4 then handle_change_password os b (c, e)
     else if m = 5 then handle_change_role os b (c, e)
     else if m = 6 then handle_get_metrics (c, e)
     else Some (set_nbody 0 (set_status PAM_REQUEST_FAILURE c), e))"

end
