(* ===== verification/PamRequest.thy ===== *)
theory PamRequest
  imports PamMethods
begin

text \<open>
  The state \<open>PAM_REQUEST\<close> of the management protocol, \<open>src/server/pam/pamRequest.c\<close>: one request
  (version, reserved byte, method, length, body) and its answer, after which the connection is
  done. Every check for bytes still to come asks \<open>buffer_write_ptr\<close>, which gives the room left
  in the buffer and not the bytes received.
\<close>

definition pam_request_arrival :: "nat \<Rightarrow> key \<Rightarrow> ('w, 'm) pstate \<Rightarrow> ('w, 'm) pstate option" where
  "pam_request_arrival st key = (\<lambda>(c, e).
     Some (c\<lparr>pm_request := (pm_request c)\<lparr>pr_state := Some VER_N_RESERVED, pr_reserved := RESERVED_BYTE\<rparr>\<rparr>, e))"

text \<open>\<open>*(uint16_t *) ptr\<close> at an offset of the array.\<close>

definition read_u16 :: "byte list \<Rightarrow> nat \<Rightarrow> u16 option" where
  "read_u16 d p = do { x \<leftarrow> nth_opt d p; y \<leftarrow> nth_opt d (p + 1); Some (from_mem16 x y) }"

text \<open>The parts of \<open>pam_request_read\<close>, last first: the body and the answer.\<close>

definition pam_answer :: "('w, 'm) phandler" where
  "pam_answer key = (\<lambda>(c, e). do {
     let r = pm_request c;
     b \<leftarrow> buffer_write (buffer_reset (pm_buffer c)) PAM_VERSION_1;
     b \<leftarrow> buffer_write b (pr_status r);
     let nb = mem16 (htons (pr_write_nbody r));
     b \<leftarrow> buffer_write b (nb ! 0);
     b \<leftarrow> buffer_write b (nb ! 1);
     c_assert (unat (pr_write_nbody r) \<le> length (pr_write_body r));
     b \<leftarrow> buffer_write_all (take (unat (pr_write_nbody r)) (pr_write_body r)) b;
     (st, e) \<leftarrow> selector_set_interest_key key OP_WRITE e;
     Some (PAM_REQUEST, c\<lparr>pm_buffer := b\<rparr>, e)
   })"

definition pam_body :: "'w os \<Rightarrow> ('w, 'm) phandler" where
  "pam_body os key = (\<lambda>(c, e). do {
     st \<leftarrow> pr_state (pm_request c);
     (if st \<noteq> READ_BODY then Some (PAM_REQUEST, c, e)
      else do {
        let r = pm_request c;
        (p, toRead) \<leftarrow> buffer_write_ptr (pm_buffer c);
        (if toRead < unat (pr_read_nbody r) then Some (PAM_REQUEST, c, e)
         else do {
           (body, b) \<leftarrow> read_into (unat (pr_read_nbody r)) (pr_read_body r) (pm_buffer c);
           body \<leftarrow> c_set body (unat (pr_read_nbody r)) 0;
           buffer \<leftarrow> buffer_write_adv (buffer_init PAM_BUFFER_SIZE body) (int (unat (pr_read_nbody r)));
           s \<leftarrow> handle_pam_request_method os buffer
             (c\<lparr>pm_buffer := b, pm_request := r\<lparr>pr_read_body := body\<rparr>\<rparr>, e);
           pam_answer key s
         })
      })
   })"

definition pam_nbody :: "'w os \<Rightarrow> ('w, 'm) phandler" where
  "pam_nbody os key = (\<lambda>(c, e). do {
     st \<leftarrow> pr_state (pm_request c);
     (if st \<noteq> NBODY then pam_body os key (c, e)
      else do {
        (p, toRead) \<leftarrow> buffer_write_ptr (pm_buffer c);
        (if toRead < 2 then Some (PAM_REQUEST, c, e)
         else do {
           (ptr, n) \<leftarrow> buffer_read_ptr (pm_buffer c);
           nbody \<leftarrow> read_u16 (b_data (pm_buffer c)) ptr;
           b \<leftarrow> buffer_read_adv (pm_buffer c) 2;
           pam_body os key (c\<lparr>pm_buffer := b,
             pm_request := (pm_request c)\<lparr>pr_state := Some READ_BODY, pr_read_nbody := ntohs nbody\<rparr>\<rparr>, e)
         })
      })
   })"

definition pam_method :: "'w os \<Rightarrow> ('w, 'm) phandler" where
  "pam_method os key = (\<lambda>(c, e). do {
     st \<leftarrow> pr_state (pm_request c);
     (if st \<noteq> METHOD then pam_nbody os key (c, e)
      else do {
        (p, toRead) \<leftarrow> buffer_write_ptr (pm_buffer c);
        (if toRead < 2 then Some (PAM_REQUEST, c, e)
         else do {
           (ptr, n) \<leftarrow> buffer_read_ptr (pm_buffer c);
           method \<leftarrow> read_u16 (b_data (pm_buffer c)) ptr;
           b \<leftarrow> buffer_read_adv (pm_buffer c) 2;
           pam_nbody os key (c\<lparr>pm_buffer := b,
             pm_request := (pm_request c)\<lparr>pr_state := Some NBODY, pr_method := ntohs method\<rparr>\<rparr>, e)
         })
      })
   })"

definition pam_version :: "'w os \<Rightarrow> ('w, 'm) phandler" where
  "pam_version os key = (\<lambda>(c, e). do {
     st \<leftarrow> pr_state (pm_request c);
     (if st \<noteq> VER_N_RESERVED then pam_method os key (c, e)
      else do {
        (p, toRead) \<leftarrow> buffer_write_ptr (pm_buffer c);
        (if toRead < 2 then Some (PAM_REQUEST, c, e)
         else do {
           (ver, b) \<leftarrow> buffer_read (pm_buffer c);
           (if ver \<noteq> PAM_VERSION_1 then Some (PAM_ERROR, c\<lparr>pm_buffer := b\<rparr>, e)
            else do {
              (reserved, b) \<leftarrow> buffer_read b;
              (if reserved \<noteq> pr_reserved (pm_request c) then Some (PAM_ERROR, c\<lparr>pm_buffer := b\<rparr>, e)
               else pam_method os key (c\<lparr>pm_buffer := b,
                 pm_request := (pm_request c)\<lparr>pr_state := Some METHOD\<rparr>\<rparr>, e))
            })
         })
      })
   })"

definition pam_request_read :: "'w os \<Rightarrow> ('w, 'm) phandler" where
  "pam_request_read os key s = do {
     (out, s) \<leftarrow> pam_recv os key s;
     (case out of Some q \<Rightarrow> Some (q, s) | None \<Rightarrow> pam_version os key s)
   }"

definition pam_request_write :: "'w os \<Rightarrow> ('w, 'm) phandler" where
  "pam_request_write os key = (\<lambda>(c, e). do {
     (written, w) \<leftarrow> send_from os (pm_client_fd c) (pm_buffer c) (e_world e);
     let e = e\<lparr>e_world := w\<rparr>;
     b \<leftarrow> buffer_read_adv (pm_buffer c) written;
     let c = c\<lparr>pm_buffer := b\<rparr>;
     (if written < 0 then Some (PAM_ERROR, c, e)
      else if buffer_can_read b then Some (PAM_REQUEST, c, e)
      else do {
        (st, e) \<leftarrow> selector_set_interest_key key OP_NOOP e;
        Some (PAM_DONE, c\<lparr>pm_buffer := buffer_reset b\<rparr>, e)
      })
   })"

end
