(* ===== verification/Pam.thy ===== *)
theory Pam
  imports PamRequest Socks5
begin

text \<open>
  The management server, \<open>src/server/pam/pam.c\<close>: the table of its two states, accepting a
  connection, the three handlers it registers, and the end of a connection. The server's state
  is extended with the management connections, numbered as \<open>key->data\<close> points to them.
\<close>

definition pamStates :: "'w os \<Rightarrow> (key, ('w, 'm) pstate) state_definition list" where
  "pamStates os = [
     (plain_state PAM_AUTH)\<lparr>on_arrival := Some pam_auth_arrival, on_read_ready := Some (pam_auth_read os),
        on_write_ready := Some (pam_auth_write os)\<rparr>,
     (plain_state PAM_REQUEST)\<lparr>on_arrival := Some pam_request_arrival, on_read_ready := Some (pam_request_read os),
        on_write_ready := Some (pam_request_write os)\<rparr>,
     plain_state PAM_DONE,
     plain_state PAM_ERROR]"

record 'w pam_server = "'w server" +
  pm_conns :: "nat \<Rightarrow> pam option"
  pm_next :: nat

type_synonym ('w, 'm) ps = "('w, 'm) pam_server_scheme"
type_synonym ('w, 'm) ps_handlers = "handler_ref \<Rightarrow> (attachment, ('w, 'm) pam_server_scheme) fd_handler"

definition PAM_ATTACHMENT :: "key \<Rightarrow> ('w, 'm) ps \<Rightarrow> pam option" where
  "PAM_ATTACHMENT key s = do { a \<leftarrow> k_data key; pm_conns s a }"

definition put_pam :: "key \<Rightarrow> pam option \<Rightarrow> ('w, 'm) ps \<Rightarrow> ('w, 'm) ps" where
  "put_pam key c s = (case k_data key of None \<Rightarrow> s | Some a \<Rightarrow> s\<lparr>pm_conns := (pm_conns s)(a := c)\<rparr>)"

text \<open>All the bytes of \<open>struct pam\<close> that the code does not set, from fresh memory.\<close>

definition pam_new :: "'w os \<Rightarrow> int \<Rightarrow> 'w \<Rightarrow> (pam option \<times> 'w) option" where
  "pam_new os clientFd w =
     (case os_malloc os w of (m, w) \<Rightarrow>
      (if \<not> m then Some (None, w)
       else
         let junk = os_uninit os (3 * PAM_BUFFER_SIZE + 521) w;
             data = (\<lambda>i. take PAM_BUFFER_SIZE (drop (i * PAM_BUFFER_SIZE) junk));
             small = drop (3 * PAM_BUFFER_SIZE) junk in do {
           st \<leftarrow> stm_init (pamStates os :: (key, ('w, unit) pstate) state_definition list)
              \<lparr>initial = PAM_AUTH, max_state = PAM_ERROR, current = None\<rparr>;
           Some (Some \<lparr>
             pm_client_fd = clientFd,
             pm_client_addr = Sother 0,
             pm_buffer = buffer_init PAM_BUFFER_SIZE (data 0),
             pm_auth = \<lparr>pa_state = None, pa_status = small ! 510, pa_n_user = small ! 511, pa_n_pass = small ! 512,
               pa_username = take PAM_AUTH_USERNAME_MAX_LENGHT small,
               pa_pass = take PAM_AUTH_PASS_MAX_LENGHT (drop PAM_AUTH_USERNAME_MAX_LENGHT small)\<rparr>,
             pm_request = \<lparr>pr_state = None, pr_reserved = small ! 513, pr_method = from_mem16 (small ! 514) (small ! 515),
               pr_read_nbody = from_mem16 (small ! 516) (small ! 517), pr_read_body = data 1, pr_status = small ! 518,
               pr_write_nbody = from_mem16 (small ! 519) (small ! 520), pr_write_body = data 2\<rparr>,
             pm_stm = st\<rparr>, w)
         }))"

text \<open>On the failure path the connection itself is passed to \<open>pam_destroy\<close>, so it is freed.\<close>

definition pam_passive_accept :: "'w os \<Rightarrow> key \<Rightarrow> ('w, 'm) ps \<Rightarrow> (key \<times> ('w, 'm) ps) option" where
  "pam_passive_accept os key s =
     (case os_accept os (k_fd key) (e_world s) of
        (SysErr _, w) \<Rightarrow> Some (key, s\<lparr>e_world := w\<rparr>)
      | (SysOk (clientFd, clientAddr), w) \<Rightarrow>
          (case selector_fd_set_nio os clientFd w of (nio, w) \<Rightarrow>
           (if nio = - 1 then Some (key, s\<lparr>e_world := os_close os clientFd w\<rparr>)
            else do {
              let s = s\<lparr>e_calls := e_calls s @ [Log_pam_accepted (addr_text os clientAddr) (bnd_port clientAddr)]\<rparr>;
              (conn, w) \<leftarrow> pam_new os clientFd w;
              (case conn of
                 None \<Rightarrow> Some (key, s\<lparr>e_world := os_close os clientFd w\<rparr>)
               | Some c \<Rightarrow> do {
                   let a = pm_next s;
                   (st, s) \<leftarrow> selector_register (fst (os_malloc os w)) clientFd (Some PAM_HANDLER) OP_READ (Some a)
                      (s\<lparr>e_world := w\<rparr>);
                   Some (key, if st \<noteq> SELECTOR_SUCCESS then s\<lparr>e_world := os_close os clientFd (e_world s)\<rparr>
                     else s\<lparr>pm_conns := (pm_conns s)(a := Some (c\<lparr>pm_client_addr := clientAddr\<rparr>)), pm_next := a + 1\<rparr>)
                 })
            })))"

section \<open>The handlers\<close>

definition pam_destroy :: "key \<Rightarrow> ('w, 'm) ps \<Rightarrow> ('w, 'm) ps option" where
  "pam_destroy key s = (case k_data key of None \<Rightarrow> Some s
     | Some a \<Rightarrow> do { c \<leftarrow> pm_conns s a; Some (put_pam key None s) })"

definition pam_close :: "key \<Rightarrow> ('w, 'm) ps \<Rightarrow> (key \<times> ('w, 'm) ps) option" where
  "pam_close key s = do { s \<leftarrow> pam_destroy key s; Some (key, s) }"

text \<open>\<open>pamHandler\<close> as the unregistration in \<open>pam_done\<close> uses it: its \<open>handle_close\<close>.\<close>

definition pam_closing :: "('w, 'm) ps_handlers \<Rightarrow> ('w, 'm) ps_handlers" where
  "pam_closing oth h = (case h of
     PAM_HANDLER \<Rightarrow> no_handler\<lparr>handle_close := Some pam_close\<rparr> | _ \<Rightarrow> oth h)"

text \<open>The abort of \<open>pam_done\<close> has no result.\<close>

definition pam_done :: "'w os \<Rightarrow> ('w, 'm) ps_handlers \<Rightarrow> key \<Rightarrow> ('w, 'm) ps \<Rightarrow> (key \<times> ('w, 'm) ps) option" where
  "pam_done os oth key s = do {
     c \<leftarrow> PAM_ATTACHMENT key s;
     let fd = pm_client_fd c;
     (st, s) \<leftarrow> selector_unregister_fd (pam_closing oth) fd s;
     c_assert (st = SELECTOR_SUCCESS);
     Some (key, s\<lparr>e_world := os_close os fd (e_world s)\<rparr>)
   }"

definition pam_after_event ::
  "'w os \<Rightarrow> ('w, 'm) ps_handlers \<Rightarrow> key \<Rightarrow> nat \<times> state_machine \<times> pam \<times> ('w, 'm) ps \<Rightarrow> (key \<times> ('w, 'm) ps) option" where
  "pam_after_event os oth key = (\<lambda>(st, m, c, s).
     let s = put_pam key (Some (c\<lparr>pm_stm := m\<rparr>)) s in
     if st = PAM_ERROR \<or> st = PAM_DONE then pam_done os oth key s else Some (key, s))"

definition pam_read :: "'w os \<Rightarrow> ('w, 'm) ps_handlers \<Rightarrow> key \<Rightarrow> ('w, 'm) ps \<Rightarrow> (key \<times> ('w, 'm) ps) option" where
  "pam_read os oth key s = do {
     c \<leftarrow> PAM_ATTACHMENT key s;
     r \<leftarrow> stm_handler_read (pamStates os) key (pm_stm c) (c, s);
     pam_after_event os oth key r
   }"

definition pam_write :: "'w os \<Rightarrow> ('w, 'm) ps_handlers \<Rightarrow> key \<Rightarrow> ('w, 'm) ps \<Rightarrow> (key \<times> ('w, 'm) ps) option" where
  "pam_write os oth key s = do {
     c \<leftarrow> PAM_ATTACHMENT key s;
     r \<leftarrow> stm_handler_write (pamStates os) key (pm_stm c) (c, s);
     pam_after_event os oth key r
   }"

text \<open>\<open>pamHandler\<close> and the listening socket, over the handlers of the proxy.\<close>

definition pam_handlers :: "'w os \<Rightarrow> ('w, 'm) ps_handlers \<Rightarrow> ('w, 'm) ps_handlers" where
  "pam_handlers os oth h = (case h of
     PAM_HANDLER \<Rightarrow> no_handler\<lparr>handle_read := Some (pam_read os oth), handle_write := Some (pam_write os oth),
       handle_close := Some pam_close\<rparr>
   | PAM_PASSIVE \<Rightarrow> no_handler\<lparr>handle_read := Some (pam_passive_accept os)\<rparr>
   | _ \<Rightarrow> oth h)"

end
