(* ===== verification/PamLaws.thy ===== *)
theory PamLaws
  imports Pam
begin

text \<open>
  What the management server's handlers promise: the bounds of the connection's buffer and
  arrays, and the consistency of users and registry, hold before and after every handler that
  returns. The last section gives the interpretation of the machine's contract.
\<close>

section \<open>The invariant\<close>

definition pam_ok :: "pam \<Rightarrow> bool" where
  "pam_ok c \<longleftrightarrow> buffer_inv (pm_buffer c) \<and> b_limit (pm_buffer c) = PAM_BUFFER_SIZE
     \<and> length (pa_username (pm_auth c)) = PAM_AUTH_USERNAME_MAX_LENGHT
     \<and> length (pa_pass (pm_auth c)) = PAM_AUTH_PASS_MAX_LENGHT
     \<and> length (pr_read_body (pm_request c)) = PAM_REQUEST_BODY_MAX_LENGTH
     \<and> length (pr_write_body (pm_request c)) = PAM_REQUEST_BODY_MAX_LENGTH"

definition pam_good :: "'w os \<Rightarrow> ('w, 'm) pstate \<Rightarrow> bool" where
  "pam_good os = (\<lambda>(c, e). pam_ok c \<and> env_ok e \<and> os_ok os)"

lemma pam_okD:
  "pam_ok c \<Longrightarrow> buffer_inv (pm_buffer c)" "pam_ok c \<Longrightarrow> b_limit (pm_buffer c) = PAM_BUFFER_SIZE"
  by (simp_all add: pam_ok_def)

lemma pam_ok_buffer:
  "pam_ok c \<Longrightarrow> buffer_inv b \<Longrightarrow> b_limit b = PAM_BUFFER_SIZE \<Longrightarrow> pam_ok (c\<lparr>pm_buffer := b\<rparr>)"
  by (simp add: pam_ok_def)

lemma env_users: "env_ok e \<Longrightarrow> users_ok db \<Longrightarrow> env_ok (e\<lparr>e_users := db\<rparr>)"
  by (simp add: env_ok_def)

lemma env_users_ok: "env_ok e \<Longrightarrow> users_ok (e_users e)"
  by (simp add: env_ok_def)

section \<open>\<open>PAM_AUTH\<close>\<close>

lemma read_while_keeps:
  "read_while n i arr b = Some (arr', b') \<Longrightarrow> buffer_inv b \<Longrightarrow> buffer_inv b' \<and> b_limit b' = b_limit b \<and> length arr' = length arr"
proof (induction n i arr b rule: read_while.induct)
  case (2 n i arr b)
  then show ?case
    by (fastforce simp: c_set_def elim!: bind_SomeE dest: buffer_read_keeps split: if_splits)
qed simp

lemma field_fits:
  assumes "read_into n arr b = Some (x, b')" "c_set x n 0 = Some y" "buffer_inv b"
  shows "n < length arr"
proof -
  obtain cs where r: "buffer_read_n n b = Some (cs, b')" "x = store_at 0 cs arr" "n \<le> length arr"
    using assms(1) by (auto simp: read_into_def c_assert_bind split: if_splits elim!: bind_SomeE)
  have "length cs = n" using buffer_read_n_keeps[OF r(1) assms(3)] by simp
  then have "length x = length arr" using r(2,3) by (simp add: store_at_def)
  then show ?thesis using assms(2) by (simp add: c_set_def split: if_splits)
qed

lemma answer_two_keeps:
  assumes "buffer_write (buffer_reset b) x = Some b1" "buffer_write b1 y = Some b2" "buffer_inv b"
  shows "buffer_inv b2 \<and> b_limit b2 = b_limit b"
  using buffer_write_keeps[OF assms(1)] buffer_write_keeps[OF assms(2)] buffer_inv_reset[OF assms(3)] by simp

lemma pam_auth_pass_keeps:
  assumes run: "pam_auth_pass key (c, e) = Some (q, s')" and g: "pam_good os (c, e)"
  shows "pam_good os s' \<and> q \<in> {PAM_AUTH, PAM_ERROR}"
proof -
  have c: "pam_ok c" "env_ok e" "os_ok os" using g by (simp_all add: pam_good_def)
  let ?a = "pm_auth c"
  obtain st where st: "pa_state ?a = Some st" using run by (auto simp: pam_auth_pass_def elim!: bind_SomeE)
  let ?n = "length (buffer_window (pm_buffer c))"
  note rp = read_ptr_eq[OF pam_okD(1)[OF c(1)]]
  show ?thesis
  proof (cases "st = PASS \<and> unat (pa_n_pass ?a) \<le> ?n")
    case False
    then show ?thesis using run st rp g by (auto simp: pam_auth_pass_def Let_def split: if_splits)
  next
    case True
    then obtain x b pw us db where r: "read_while (unat (pa_n_pass ?a)) 0 (pa_pass ?a) (pm_buffer c) = Some (x, b)"
      "c_set x (unat (pa_n_pass ?a)) 0 = Some pw" "user_authenticate (e_users e) (pa_username ?a) pw = Some (us, db)"
      using run st rp by (auto simp: pam_auth_pass_def Let_def elim!: bind_SomeE)
    have b: "buffer_inv b" "b_limit b = PAM_BUFFER_SIZE" and pw: "length pw = PAM_AUTH_PASS_MAX_LENGHT"
      using read_while_keeps[OF r(1)] r(2) c(1) by (auto simp: pam_ok_def c_set_def split: if_splits)
    have "users_ok db" using user_authenticate_frame[OF env_users_ok[OF c(2)] r(3)] by (simp add: same_users_def)
    then have "env_ok (e\<lparr>e_users := db\<rparr>)" by (rule env_users[OF c(2)])
    then have e1: "env_ok (e\<lparr>e_users := db, e_calls := l\<rparr>)" for l by simp
    have c1: "pam_ok (c\<lparr>pm_buffer := b, pm_auth := ?a\<lparr>pa_pass := pw\<rparr>\<rparr>)"
      using c(1) b pw by (simp add: pam_ok_def)
    show ?thesis
    proof (cases "us \<in> {USER_OK, USER_BADUSERNAME, USER_WRONGPASSWORD}")
      case False
      then show ?thesis using run st rp r True c1 e1 c(3) by (auto simp: pam_auth_pass_def Let_def pam_good_def)
    next
      case ok: True
      then obtain status l b1 b2 s2 e2 where w: "buffer_write (buffer_reset b) PAM_VERSION_1 = Some b1"
        "buffer_write b1 status = Some b2" "selector_set_interest_key key OP_WRITE (e\<lparr>e_users := db, e_calls := l\<rparr>) = Some (s2, e2)"
        "q = PAM_AUTH" "s' = (c\<lparr>pm_buffer := b2, pm_auth := ?a\<lparr>pa_pass := pw, pa_status := status\<rparr>\<rparr>, e2)"
        using run st rp r True by (auto simp: pam_auth_pass_def Let_def elim!: bind_SomeE)
      have "buffer_inv b2 \<and> b_limit b2 = b_limit b" by (rule answer_two_keeps[OF w(1,2) b(1)])
      then have "pam_ok (fst s')" using c(1) b pw w(5) by (simp add: pam_ok_def)
      with poke_key_env(2)[OF w(3) e1] w(4,5) c(3) show ?thesis by (simp add: pam_good_def)
    qed
  qed
qed

lemma pam_auth_username_keeps:
  assumes run: "pam_auth_username key (c, e) = Some (q, s')" and g: "pam_good os (c, e)"
  shows "pam_good os s' \<and> q \<in> {PAM_AUTH, PAM_ERROR}"
proof -
  have c: "pam_ok c" "env_ok e" "os_ok os" using g by (simp_all add: pam_good_def)
  let ?a = "pm_auth c"
  obtain st where st: "pa_state ?a = Some st" using run by (auto simp: pam_auth_username_def elim!: bind_SomeE)
  show ?thesis
  proof (cases "st = USERNAME")
    case False
    then show ?thesis using run st pam_auth_pass_keeps[of key c e q s', OF _ g] by (simp add: pam_auth_username_def)
  next
    case True
    note rp = read_ptr_eq[OF pam_okD(1)[OF c(1)]]
    show ?thesis
    proof (cases "length (buffer_window (pm_buffer c)) < unat (pa_n_user ?a)")
      case less: True
      then show ?thesis using run st True rp g by (auto simp: pam_auth_username_def Let_def)
    next
      case False
      then obtain x b un where r: "read_into (unat (pa_n_user ?a)) (pa_username ?a) (pm_buffer c) = Some (x, b)"
        "c_set x (unat (pa_n_user ?a)) 0 = Some un"
        "pam_auth_pass key (c\<lparr>pm_buffer := b, pm_auth := ?a\<lparr>pa_state := Some PASS, pa_username := un\<rparr>\<rparr>, e) = Some (q, s')"
        using run st True rp by (auto simp: pam_auth_username_def Let_def elim!: bind_SomeE)
      have "unat (pa_n_user ?a) < length (pa_username ?a)" by (rule field_fits[OF r(1,2) pam_okD(1)[OF c(1)]])
      then have "buffer_inv b \<and> b_limit b = PAM_BUFFER_SIZE \<and> length un = PAM_AUTH_USERNAME_MAX_LENGHT"
        using field_keeps[OF r(1,2)] c(1) by (simp add: pam_ok_def)
      then have "pam_good os (c\<lparr>pm_buffer := b, pm_auth := ?a\<lparr>pa_state := Some PASS, pa_username := un\<rparr>\<rparr>, e)"
        using c by (simp add: pam_good_def pam_ok_def)
      from pam_auth_pass_keeps[OF r(3) this] show ?thesis .
    qed
  qed
qed


lemma pam_auth_header_keeps:
  assumes run: "pam_auth_header key (c, e) = Some (q, s')" and g: "pam_good os (c, e)"
  shows "pam_good os s' \<and> q \<in> {PAM_AUTH, PAM_ERROR}"
proof -
  have c: "pam_ok c" "env_ok e" "os_ok os" using g by (simp_all add: pam_good_def)
  let ?a = "pm_auth c"
  obtain st where st: "pa_state ?a = Some st" using run by (auto simp: pam_auth_header_def elim!: bind_SomeE)
  note wp = write_ptr_eq[OF pam_okD(1)[OF c(1)]]
  have keep: "pam_good os (c\<lparr>pm_buffer := b, pm_auth := a\<rparr>, e)"
    if "buffer_inv b" "b_limit b = PAM_BUFFER_SIZE" "pa_username a = pa_username ?a" "pa_pass a = pa_pass ?a" for a b
    using that c by (simp add: pam_good_def pam_ok_def)
  show ?thesis
  proof (cases "st = VER_N_NUSER_N_NPASS \<and> 3 \<le> buffer_room (pm_buffer c)")
    case False
    then show ?thesis using run st wp g pam_auth_username_keeps[of key c e q s', OF _ g]
      by (auto simp: pam_auth_header_def Let_def split: if_splits)
  next
    case True
    then obtain ver b1 where 1: "buffer_read (pm_buffer c) = Some (ver, b1)"
      using run st wp by (auto simp: pam_auth_header_def Let_def elim!: bind_SomeE)
    have b1: "buffer_inv b1" "b_limit b1 = PAM_BUFFER_SIZE" using buffer_read_keeps[OF 1] c(1) by (simp_all add: pam_ok_def)
    show ?thesis
    proof (cases "ver = PAM_VERSION_1")
      case False
      then show ?thesis using run st wp True 1 keep[OF b1, of ?a] by (auto simp: pam_auth_header_def Let_def)
    next
      case v: True
      then obtain nu b2 where 2: "buffer_read b1 = Some (nu, b2)"
        using run st wp True 1 by (auto simp: pam_auth_header_def Let_def elim!: bind_SomeE)
      have b2: "buffer_inv b2" "b_limit b2 = PAM_BUFFER_SIZE" using buffer_read_keeps[OF 2] b1 by simp_all
      show ?thesis
      proof (cases "nu = 0")
        case z: True
        then show ?thesis using run st wp True 1 v 2 keep[OF b2, of "?a\<lparr>pa_n_user := nu\<rparr>"]
          by (auto simp: pam_auth_header_def Let_def)
      next
        case nu: False
        then obtain np b3 where 3: "buffer_read b2 = Some (np, b3)"
          using run st wp True 1 v 2 by (auto simp: pam_auth_header_def Let_def elim!: bind_SomeE)
        have b3: "buffer_inv b3" "b_limit b3 = PAM_BUFFER_SIZE" using buffer_read_keeps[OF 3] b2 by simp_all
        show ?thesis
        proof (cases "np = 0")
          case z: True
          then show ?thesis using run st wp True 1 v 2 nu 3 keep[OF b3, of "?a\<lparr>pa_n_user := nu, pa_n_pass := np\<rparr>"]
            by (auto simp: pam_auth_header_def Let_def)
        next
          case np: False
          let ?c = "c\<lparr>pm_buffer := b3, pm_auth := ?a\<lparr>pa_state := Some USERNAME, pa_n_user := nu, pa_n_pass := np\<rparr>\<rparr>"
          have "pam_auth_username key (?c, e) = Some (q, s')"
            using run st wp True 1 v 2 nu 3 np by (auto simp: pam_auth_header_def Let_def)
          from pam_auth_username_keeps[OF this keep[OF b3]] show ?thesis by simp
        qed
      qed
    qed
  qed
qed

lemma pam_recv_keeps:
  assumes run: "pam_recv os key (c, e) = Some (out, s')" and g: "pam_good os (c, e)"
  shows "pam_good os s' \<and> (\<forall>q. out = Some q \<longrightarrow> q \<in> {PAM_DONE, PAM_ERROR})"
proof -
  have c: "pam_ok c" "env_ok e" "os_ok os" using g by (simp_all add: pam_good_def)
  note inv = pam_okD(1)[OF c(1)]
  show ?thesis
    using c(3) inv
  proof (cases rule: recv_cases[where fd = "k_fd key" and w = "e_world e"])
    case (err x w)
    then show ?thesis using run g by (auto simp: pam_recv_def Let_def pam_good_def pam_ok_def)
  next
    case (got bs w b1 b2)
    then show ?thesis
    proof (cases "bs = []")
      case True
      with got have "buffer_inv b1 \<and> b_limit b1 = b_limit (pm_buffer c)"
        using inv by (auto simp: buffer_write_adv_def Let_def c_assert_bind split: if_splits)
      with True got show ?thesis using run c by (auto simp: pam_recv_def Let_def pam_good_def pam_ok_def)
    next
      case False
      then show ?thesis using run got c by (auto simp: pam_recv_def Let_def pam_good_def pam_ok_def)
    qed
  qed
qed

lemma pam_auth_read_keeps:
  assumes "pam_auth_read os key s = Some (q, s')" "pam_good os s"
  shows "pam_good os s' \<and> q \<in> {PAM_AUTH, PAM_DONE, PAM_ERROR}"
proof -
  obtain c e where s: "s = (c, e)" by (cases s)
  obtain out s1 where r: "pam_recv os key (c, e) = Some (out, s1)"
      "case out of Some q1 \<Rightarrow> q = q1 \<and> s' = s1 | None \<Rightarrow> pam_auth_header key s1 = Some (q, s')"
    using assms(1) s by (auto simp: pam_auth_read_def elim!: bind_SomeE split: option.splits)
  have g: "pam_good os s1 \<and> (\<forall>q. out = Some q \<longrightarrow> q \<in> {PAM_DONE, PAM_ERROR})"
    by (rule pam_recv_keeps[OF r(1)]) (use assms(2) s in simp)
  obtain c1 e1 where s1: "s1 = (c1, e1)" by (cases s1)
  show ?thesis
    using r(2) g pam_auth_header_keeps[of key c1 e1 q s' os] s1 by (auto split: option.splits)
qed

text \<open>The write handlers of the two states have the same shape.\<close>

lemma pam_send_keeps:
  assumes sd: "send_from os fd (pm_buffer c) (e_world e) = Some (n, w)" "buffer_read_adv (pm_buffer c) n = Some b"
    and g: "pam_good os (c, e)"
  shows "pam_good os (c\<lparr>pm_buffer := b\<rparr>, e\<lparr>e_world := w\<rparr>)"
    "selector_set_interest_key key i (e\<lparr>e_world := w\<rparr>) = Some (st, e') \<Longrightarrow> pam_good os (c\<lparr>pm_buffer := buffer_reset b\<rparr>, e')"
proof -
  have c: "pam_ok c" "env_ok e" "os_ok os" using g by (simp_all add: pam_good_def)
  have b: "buffer_inv b" "b_limit b = PAM_BUFFER_SIZE"
    using buffer_read_adv_keeps[OF c(3) sd] c(1) by (simp_all add: pam_ok_def)
  show "pam_good os (c\<lparr>pm_buffer := b\<rparr>, e\<lparr>e_world := w\<rparr>)" using c b by (simp add: pam_good_def pam_ok_buffer)
  assume i: "selector_set_interest_key key i (e\<lparr>e_world := w\<rparr>) = Some (st, e')"
  have "env_ok (e\<lparr>e_world := w\<rparr>)" using c(2) by simp
  from poke_key_env(2)[OF i this] show "pam_good os (c\<lparr>pm_buffer := buffer_reset b\<rparr>, e')"
    using c b buffer_inv_reset[OF b(1)] by (simp add: pam_good_def pam_ok_buffer)
qed

lemma pam_auth_write_keeps:
  assumes "pam_auth_write os key s = Some (q, s')" "pam_good os s"
  shows "pam_good os s' \<and> q \<in> {PAM_AUTH, PAM_REQUEST, PAM_ERROR}"
proof -
  obtain c e where s: "s = (c, e)" by (cases s)
  obtain n w b where sd: "send_from os (pm_client_fd c) (pm_buffer c) (e_world e) = Some (n, w)"
      "buffer_read_adv (pm_buffer c) n = Some b"
    using assms(1) s by (auto simp: pam_auth_write_def Let_def elim!: bind_SomeE)
  have g: "pam_good os (c, e)" using assms(2) s by simp
  show ?thesis
    using assms(1) s sd pam_send_keeps[OF sd g]
    by (auto simp: pam_auth_write_def Let_def elim!: bind_SomeE split: if_splits)
qed


section \<open>The methods\<close>

lemma set_simps [simp]:
  "pam_ok (set_status x c) = pam_ok c" "pam_ok (set_nbody n c) = pam_ok c"
  "length wb = PAM_REQUEST_BODY_MAX_LENGTH \<Longrightarrow> pam_ok c \<Longrightarrow> pam_ok (set_write_body wb c)"
  "pm_buffer (set_status x c) = pm_buffer c" "pm_buffer (set_nbody n c) = pm_buffer c"
  "pm_buffer (set_write_body wb c) = pm_buffer c"
  "pm_auth (set_status x c) = pm_auth c" "pm_auth (set_nbody n c) = pm_auth c" "pm_auth (set_write_body wb c) = pm_auth c"
  "pm_client_fd (set_status x c) = pm_client_fd c" "pm_client_fd (set_nbody n c) = pm_client_fd c"
  "pm_client_fd (set_write_body wb c) = pm_client_fd c"
  "pm_stm (set_status x c) = pm_stm c" "pm_stm (set_nbody n c) = pm_stm c" "pm_stm (set_write_body wb c) = pm_stm c"
  by (simp_all add: set_status_def set_nbody_def set_write_body_def pam_ok_def)

lemma read_field_keeps:
  assumes "read_field os w b = Some (arr, b')" "os_ok os" "buffer_inv b"
  shows "buffer_inv b' \<and> terminated arr \<and> length (cstr arr) \<le> 254"
proof -
  obtain n b1 x where r: "buffer_read b = Some (n, b1)"
      "read_into (unat n) (os_uninit os PAM_AUTH_USERNAME_MAX_LENGHT w) b1 = Some (x, b')" "c_set x (unat n) 0 = Some arr"
    using assms(1) by (auto simp: read_field_def elim!: bind_SomeE)
  have b1: "buffer_inv b1" using buffer_read_keeps[OF r(1) assms(3)] by simp
  note f = field_keeps[OF r(2,3) b1 field_fits[OF r(2,3) b1]]
  have "length arr = PAM_AUTH_USERNAME_MAX_LENGHT" using f os_uninitD[OF assms(2)] by simp
  then show ?thesis using f terminated_length[of arr] by simp
qed

definition same_side :: "pam \<Rightarrow> pam \<Rightarrow> bool" where
  "same_side c c' \<longleftrightarrow> pm_buffer c' = pm_buffer c \<and> pm_auth c' = pm_auth c \<and> pm_client_fd c' = pm_client_fd c
     \<and> pm_stm c' = pm_stm c"

definition kept :: "'w os \<Rightarrow> pam \<Rightarrow> ('w, 'm) pstate \<Rightarrow> bool" where
  "kept os c s' \<longleftrightarrow> pam_good os s' \<and> same_side c (fst s')"

lemma keptI:
  assumes "pam_good os (c, e)" "pam_ok c'" "same_side c c'" "env_ok e'"
  shows "kept os c (c', e')"
  using assms by (simp add: kept_def pam_good_def)

lemma goodP: "pam_good os (c, e) \<Longrightarrow> pam_ok c" "pam_good os (c, e) \<Longrightarrow> env_ok e" "pam_good os (c, e) \<Longrightarrow> os_ok os"
    "pam_good os (c, e) \<Longrightarrow> users_ok (e_users e)"
  by (simp_all add: pam_good_def env_ok_def)

text \<open>The step that the four privileged methods share: the arguments are read and the name of the
  connection's user is looked up.\<close>

lemma admin_keeps:
  assumes "pam_good os (c, e)" "user_is_admin (e_users e) nm = Some (r, db)"
  shows "users_ok db" "kept os c (set_status x (set_status y c), e\<lparr>e_users := db\<rparr>)"
proof -
  show "users_ok db" using user_is_admin_frame[OF goodP(4)[OF assms(1)] assms(2)] by (simp add: same_users_def)
  then show "kept os c (set_status x (set_status y c), e\<lparr>e_users := db\<rparr>)"
    by (intro keptI[OF assms(1)] env_users[OF goodP(2)[OF assms(1)]])
      (simp_all add: goodP(1)[OF assms(1)] same_side_def)
qed

lemma answer_keeps:
  assumes "pam_good os (c, e)" "users_ok db"
  shows "kept os c (set_status x (set_status y c), e\<lparr>e_users := db\<rparr>)"
    "kept os c (set_status z (set_status x (set_status y c)), e\<lparr>e_users := db\<rparr>)"
  by (intro keptI[OF assms(1)] env_users[OF goodP(2)[OF assms(1)] assms(2)];
      simp add: goodP(1)[OF assms(1)] same_side_def)+

lemma handle_add_keeps:
  assumes run: "handle_add_user os b (c, e) = Some s'" and g: "pam_good os (c, e)" and b: "buffer_inv b"
  shows "kept os c s'"
proof -
  obtain un b1 pw b2 role b3 admin db where r: "read_field os (e_world e) b = Some (un, b1)"
      "read_field os (e_world e) b1 = Some (pw, b2)" "buffer_read b2 = Some (role, b3)"
      "user_is_admin (e_users e) (pa_username (pm_auth c)) = Some (admin, db)"
    using run by (auto simp: handle_add_user_def Let_def elim!: bind_SomeE)
  note ad = admin_keeps[OF g r(4)]
  show ?thesis
  proof (cases admin)
    case False
    then have "s' = (set_status PAM_REQUEST_UNAUTHORIZED (set_status PAM_REQUEST_SUCCESS c), e\<lparr>e_users := db\<rparr>)"
      using run r by (simp add: handle_add_user_def Let_def)
    then show ?thesis using ad(2) by simp
  next
    case True
    obtain m1 w1 m2 w2 where m: "os_malloc os (e_world e) = (m1, w1)" "os_malloc os w1 = (m2, w2)"
      by (metis surj_pair)
    obtain st db2 where u: "user_create m1 m2 (local_user os w2) db un pw (unat role) = Some (st, db2)"
        "s' = (set_status (create_code st) (set_status PAM_REQUEST_SUCCESS c), e\<lparr>e_users := db2, e_world := w2\<rparr>)"
      using run r True m by (auto simp: handle_add_user_def Let_def elim!: bind_SomeE)
    have "junk_ok (local_user os w2)"
      using os_uninitD[OF goodP(3)[OF g]] by (simp add: junk_ok_def local_user_def Let_def)
    from user_create_keeps[OF ad(1) this u(1)] have "users_ok db2" .
    from answer_keeps(1)[OF g this, of "create_code st" PAM_REQUEST_SUCCESS] show ?thesis
      unfolding u(2) by (simp add: kept_def pam_good_def)
  qed
qed

lemma handle_change_password_keeps:
  assumes run: "handle_change_password os b (c, e) = Some s'" and g: "pam_good os (c, e)" and b: "buffer_inv b"
  shows "kept os c s'"
proof -
  obtain un b1 pw b2 admin db where r: "read_field os (e_world e) b = Some (un, b1)"
      "read_field os (e_world e) b1 = Some (pw, b2)"
      "user_is_admin (e_users e) (pa_username (pm_auth c)) = Some (admin, db)"
    using run by (auto simp: handle_change_password_def Let_def elim!: bind_SomeE)
  note ad = admin_keeps[OF g r(3)]
  note un = read_field_keeps[OF r(1) goodP(3)[OF g] b]
  from un have "buffer_inv b1" by simp
  note pw = read_field_keeps[OF r(2) goodP(3)[OF g] this]
  show ?thesis
  proof (cases admin)
    case False
    then have "s' = (set_status PAM_REQUEST_UNAUTHORIZED (set_status PAM_REQUEST_SUCCESS c), e\<lparr>e_users := db\<rparr>)"
      using run r by (simp add: handle_change_password_def Let_def)
    then show ?thesis using ad(2) by simp
  next
    case True
    obtain st db2 where u: "user_change_password db un pw = Some (st, db2)" "users_ok db2"
      using user_change_password_spec[OF ad(1), of un pw] un pw by auto
    show ?thesis using run r True u answer_keeps[OF g u(2)]
      by (auto simp: handle_change_password_def Let_def split: user_status.splits)
  qed
qed

lemma handle_change_role_keeps:
  assumes run: "handle_change_role os b (c, e) = Some s'" and g: "pam_good os (c, e)" and b: "buffer_inv b"
  shows "kept os c s'"
proof -
  obtain un b1 role b2 admin db where r: "read_field os (e_world e) b = Some (un, b1)" "buffer_read b1 = Some (role, b2)"
      "user_is_admin (e_users e) (pa_username (pm_auth c)) = Some (admin, db)"
    using run by (auto simp: handle_change_role_def Let_def elim!: bind_SomeE)
  note ad = admin_keeps[OF g r(3)]
  note un = read_field_keeps[OF r(1) goodP(3)[OF g] b]
  show ?thesis
  proof (cases admin)
    case False
    then have "s' = (set_status PAM_REQUEST_UNAUTHORIZED (set_status PAM_REQUEST_SUCCESS c), e\<lparr>e_users := db\<rparr>)"
      using run r by (simp add: handle_change_role_def Let_def)
    then show ?thesis using ad(2) by simp
  next
    case True
    obtain st db2 where u: "user_change_role db un (unat role) = Some (st, db2)" "users_ok db2"
      using user_change_role_spec[OF ad(1), of un] un by blast
    show ?thesis using run r True u answer_keeps[OF g u(2)] by (auto simp: handle_change_role_def Let_def)
  qed
qed

lemma handle_remove_keeps:
  assumes run: "handle_remove_user os b (c, e) = Some s'" and g: "pam_good os (c, e)" and b: "buffer_inv b"
  shows "kept os c s'"
proof -
  obtain un b1 ur db1 admin db where r: "read_field os (e_world e) b = Some (un, b1)"
      "user_get_if_exists (e_users e) un = Some (ur, db1)" "user_is_admin db1 (pa_username (pm_auth c)) = Some (admin, db)"
    using run by (auto simp: handle_remove_user_def Let_def elim!: bind_SomeE)
  note un = read_field_keeps[OF r(1) goodP(3)[OF g] b]
  have "users_ok db1" using user_get_frame[OF goodP(4)[OF g] r(2)] by (simp add: same_users_def)
  then have db: "users_ok db" using user_is_admin_frame[OF _ r(3)] by (simp add: same_users_def)
  obtain st db2 where u: "user_remove db un = Some (st, db2)" "users_ok db2"
    using user_remove_spec[OF db, of un] un by blast
  show ?thesis using run r u answer_keeps(1)[OF g u(2)] answer_keeps(1)[OF g db]
    by (auto simp: handle_remove_user_def Let_def elim!: bind_SomeE split: if_splits)
qed

lemma memcpy_length: "c_memcpy dst i src n = Some d \<Longrightarrow> length d = length dst"
  by (auto simp: c_memcpy_def split: if_splits)

lemma handle_metrics_keeps:
  assumes run: "handle_get_metrics (c, e) = Some s'" and g: "pam_good os (c, e)"
  shows "kept os c s'"
proof -
  obtain w1 w2 i t k nb where r: "c_memcpy (pr_write_body (pm_request c)) 0 metrics_message i = Some w1"
      "c_memcpy w1 (length metrics_message) t k = Some w2"
      "s' = (set_nbody nb (set_status PAM_REQUEST_SUCCESS (set_write_body w2 c)), e)"
    using run unfolding handle_get_metrics_def get_metrics_snapshot_def Let_def
    by (fastforce elim!: bind_SomeE)
  have "length w2 = PAM_REQUEST_BODY_MAX_LENGTH"
    using memcpy_length[OF r(1)] memcpy_length[OF r(2)] goodP(1)[OF g] by (simp add: pam_ok_def)
  then show ?thesis unfolding r(3)
    by (intro keptI[OF g]) (simp_all add: goodP[OF g] same_side_def)
qed

lemma user_lines_frame:
  assumes "user_lines lp buf i = Some (b, n, lp')" "lp = Some l"
  shows "\<exists>it. lp' = Some (l\<lparr>l_iter := it\<rparr>)"
proof -
  have "\<forall>l. lp = Some l \<longrightarrow> (\<exists>it. snd (snd (b, n, lp')) = Some (l\<lparr>l_iter := it\<rparr>))"
    using assms(1)
  proof (rule user_lines.raw_induct[rotated])
    fix ul :: "user slist option \<Rightarrow> byte list \<Rightarrow> nat \<Rightarrow> (byte list \<times> nat \<times> user slist option) option"
      and lp :: "user slist option" and buf i y
    assume IH: "\<And>lp buf i y. ul lp buf i = Some y \<Longrightarrow> \<forall>l. lp = Some l \<longrightarrow> (\<exists>it. snd (snd y) = Some (l\<lparr>l_iter := it\<rparr>))"
      and s: "(do { more \<leftarrow> list_has_next lp;
           if \<not> more then Some (buf, i, lp)
           else do { (r, lp') \<leftarrow> list_get_next lp; (a, u) \<leftarrow> r; (buf', i') \<leftarrow> user_line buf i u; ul lp' buf' i' } }) = Some y"
    show "\<forall>l. lp = Some l \<longrightarrow> (\<exists>it. snd (snd y) = Some (l\<lparr>l_iter := it\<rparr>))"
    proof (intro allI impI)
      fix l assume lp: "lp = Some l"
      from s lp show "\<exists>it. snd (snd y) = Some (l\<lparr>l_iter := it\<rparr>)"
        by (fastforce simp: list_has_next_def list_get_next_def elim!: bind_SomeE split: if_splits option.splits dest: IH
            intro: exI[of _ "l_iter l"])
    qed
  qed
  with assms(2) show ?thesis by simp
qed

lemma list_users_frame:
  assumes "users_ok db" "users_get_connected_users_list db buf i = Some (n, buf', db')"
  shows "same_users db db'"
proof -
  from users_okD[OF assms(1)] obtain l where l: "usersList db = Some l" by blast
  obtain b lp where r: "user_lines (list_begin_iter (usersList db)) buf i = Some (b, n, lp)" "db' = db\<lparr>usersList := lp\<rparr>"
    using assms(2) by (auto simp: users_get_connected_users_list_def elim!: bind_SomeE)
  obtain it where "lp = Some (l\<lparr>l_iter := it\<rparr>)"
    using user_lines_frame[OF r(1)] l by (auto simp: list_begin_iter_def)
  with assms(1) r(2) l show ?thesis
    by (simp add: same_users_def users_ok_def users_elems_def iter_frame)
qed

lemma handle_list_keeps:
  assumes run: "handle_get_connected_users_list (c, e) = Some s'" and g: "pam_good os (c, e)"
  shows "kept os c s'"
proof -
  obtain n buf db where r: "users_get_connected_users_list (e_users e)
      (store_at 0 listing_message (replicate PAM_BUFFER_SIZE 0)) (length listing_message) = Some (n, buf, db)"
    using run by (auto simp: handle_get_connected_users_list_def Let_def elim!: bind_SomeE)
  have db: "users_ok db" using list_users_frame[OF goodP(4)[OF g] r] by (simp add: same_users_def)
  note e = env_users[OF goodP(2)[OF g] db]
  show ?thesis
  proof (cases "n = 0")
    case True
    then have "s' = (set_nbody 0 (set_status PAM_SERVER_ERROR c), e\<lparr>e_users := db\<rparr>)"
      using run r by (simp add: handle_get_connected_users_list_def Let_def)
    then show ?thesis using e by (simp add: kept_def pam_good_def goodP[OF g] same_side_def)
  next
    case False
    then obtain wb where w: "c_memcpy (pr_write_body (pm_request c)) 0 buf (length listing_message + n) = Some wb"
        "s' = (set_nbody (of_nat (length listing_message + n)) (set_write_body wb c), e\<lparr>e_users := db\<rparr>)"
      using run r by (auto simp: handle_get_connected_users_list_def Let_def elim!: bind_SomeE)
    have "length wb = PAM_REQUEST_BODY_MAX_LENGTH"
      using memcpy_length[OF w(1)] goodP(1)[OF g] by (simp add: pam_ok_def)
    then show ?thesis using e w(2) by (simp add: kept_def pam_good_def goodP[OF g] same_side_def)
  qed
qed

lemma handle_method_keeps:
  assumes "handle_pam_request_method os b (c, e) = Some s'" "pam_good os (c, e)" "buffer_inv b"
  shows "kept os c s'"
proof -
  have "kept os c (set_nbody 0 (set_status PAM_REQUEST_FAILURE c), e)"
    by (rule keptI[OF assms(2)]) (simp_all add: goodP[OF assms(2)] same_side_def)
  then show ?thesis using assms
    by (auto simp: handle_pam_request_method_def Let_def split: if_splits
      intro: handle_list_keeps handle_add_keeps handle_remove_keeps handle_change_password_keeps handle_change_role_keeps
        handle_metrics_keeps)
qed

section \<open>\<open>PAM_REQUEST\<close>\<close>

lemma buffer_write_all_keeps:
  "buffer_write_all bs b = Some b' \<Longrightarrow> buffer_inv b \<Longrightarrow> buffer_inv b' \<and> b_limit b' = b_limit b"
  by (induction bs arbitrary: b) (fastforce elim!: bind_SomeE dest: buffer_write_keeps)+

lemma pam_answer_keeps:
  assumes run: "pam_answer key (c, e) = Some (q, s')" and g: "pam_good os (c, e)"
  shows "pam_good os s' \<and> q = PAM_REQUEST"
proof -
  obtain b1 b2 b3 b4 b5 st e2 where r: "buffer_write (buffer_reset (pm_buffer c)) PAM_VERSION_1 = Some b1"
      "buffer_write b1 (pr_status (pm_request c)) = Some b2"
      "buffer_write b2 (mem16 (htons (pr_write_nbody (pm_request c))) ! 0) = Some b3"
      "buffer_write b3 (mem16 (htons (pr_write_nbody (pm_request c))) ! 1) = Some b4"
      "buffer_write_all (take (unat (pr_write_nbody (pm_request c))) (pr_write_body (pm_request c))) b4 = Some b5"
      "selector_set_interest_key key OP_WRITE e = Some (st, e2)" "q = PAM_REQUEST" "s' = (c\<lparr>pm_buffer := b5\<rparr>, e2)"
    using run by (auto simp: pam_answer_def Let_def c_assert_bind elim!: bind_SomeE split: if_splits)
  have "buffer_inv b2 \<and> b_limit b2 = PAM_BUFFER_SIZE"
    using answer_two_keeps[OF r(1,2)] goodP(1)[OF g] by (simp add: pam_ok_def)
  then have "buffer_inv b4 \<and> b_limit b4 = PAM_BUFFER_SIZE"
    using buffer_write_keeps[OF r(3)] buffer_write_keeps[OF r(4)] by simp
  then have "buffer_inv b5 \<and> b_limit b5 = PAM_BUFFER_SIZE"
    using buffer_write_all_keeps[OF r(5)] by simp
  then show ?thesis using r(7,8) goodP[OF g] poke_key_env(2)[OF r(6)] by (simp add: pam_good_def pam_ok_buffer)
qed

lemma pam_body_keeps:
  assumes run: "pam_body os key (c, e) = Some (q, s')" and g: "pam_good os (c, e)"
  shows "pam_good os s' \<and> q = PAM_REQUEST"
proof -
  let ?r = "pm_request c"
  let ?n = "unat (pr_read_nbody ?r)"
  obtain st where st: "pr_state ?r = Some st" using run by (auto simp: pam_body_def elim!: bind_SomeE)
  note wp = write_ptr_eq[OF pam_okD(1)[OF goodP(1)[OF g]]]
  show ?thesis
  proof (cases "st = READ_BODY \<and> ?n \<le> buffer_room (pm_buffer c)")
    case False
    then show ?thesis using run st wp g by (auto simp: pam_body_def Let_def split: if_splits)
  next
    case True
    then obtain x b y lb s1 where r: "read_into ?n (pr_read_body ?r) (pm_buffer c) = Some (x, b)"
      "c_set x ?n 0 = Some y" "buffer_write_adv (buffer_init PAM_BUFFER_SIZE y) (int ?n) = Some lb"
      "handle_pam_request_method os lb (c\<lparr>pm_buffer := b, pm_request := ?r\<lparr>pr_read_body := y\<rparr>\<rparr>, e) = Some s1"
      "pam_answer key s1 = Some (q, s')"
      using run st wp by (auto simp: pam_body_def Let_def elim!: bind_SomeE)
    note inv = pam_okD(1)[OF goodP(1)[OF g]]
    have f: "?n < length (pr_read_body ?r)" by (rule field_fits[OF r(1,2) inv])
    note k = field_keeps[OF r(1,2) inv f]
    have y: "length y = PAM_REQUEST_BODY_MAX_LENGTH" using k goodP(1)[OF g] by (simp add: pam_ok_def)
    have lb: "buffer_inv lb" using r(3) buffer_inv_init[of PAM_BUFFER_SIZE y] y
      by (auto simp: buffer_write_adv_def Let_def c_assert_bind buffer_inv_def split: if_splits)
    have "pam_good os (c\<lparr>pm_buffer := b, pm_request := ?r\<lparr>pr_read_body := y\<rparr>\<rparr>, e)"
      using k y goodP[OF g] by (simp add: pam_good_def pam_ok_def)
    from handle_method_keeps[OF r(4) this lb] have "pam_good os s1" by (simp add: kept_def)
    then show ?thesis using pam_answer_keeps[of key "fst s1" "snd s1" q s' os] r(5) by simp
  qed
qed

lemma adv_read_keeps:
  "buffer_read_adv b n = Some b' \<Longrightarrow> buffer_inv b \<Longrightarrow> buffer_inv b' \<and> b_limit b' = b_limit b"
  by (auto simp: buffer_read_adv_def buffer_compact_def Let_def c_assert_bind buffer_inv_def split: if_splits)

lemma pam_nbody_keeps:
  assumes run: "pam_nbody os key (c, e) = Some (q, s')" and g: "pam_good os (c, e)"
  shows "pam_good os s' \<and> q = PAM_REQUEST"
proof -
  have keep: "pam_good os (c\<lparr>pm_buffer := b, pm_request := r\<rparr>, e)"
    if "buffer_read_adv (pm_buffer c) n = Some b" "pr_read_body r = pr_read_body (pm_request c)"
      "pr_write_body r = pr_write_body (pm_request c)" for b n r
    using that goodP[OF g] adv_read_keeps[OF that(1)] by (simp add: pam_good_def pam_ok_def)
  obtain st where st: "pr_state (pm_request c) = Some st" using run by (auto simp: pam_nbody_def elim!: bind_SomeE)
  note wp = write_ptr_eq[OF pam_okD(1)[OF goodP(1)[OF g]]]
  show ?thesis
  proof (cases "st = NBODY \<and> 2 \<le> buffer_room (pm_buffer c)")
    case False
    then show ?thesis using run st wp g pam_body_keeps[of os key c e q s', OF _ g]
      by (auto simp: pam_nbody_def Let_def split: if_splits)
  next
    case True
    then obtain x b where "buffer_read_adv (pm_buffer c) 2 = Some b" "pam_body os key (c\<lparr>pm_buffer := b,
        pm_request := (pm_request c)\<lparr>pr_state := Some READ_BODY, pr_read_nbody := ntohs x\<rparr>\<rparr>, e) = Some (q, s')"
      using run st wp by (auto simp: pam_nbody_def Let_def elim!: bind_SomeE)
    then show ?thesis using pam_body_keeps[OF _ keep] by simp
  qed
qed

lemma pam_method_keeps:
  assumes run: "pam_method os key (c, e) = Some (q, s')" and g: "pam_good os (c, e)"
  shows "pam_good os s' \<and> q = PAM_REQUEST"
proof -
  have keep: "pam_good os (c\<lparr>pm_buffer := b, pm_request := r\<rparr>, e)"
    if "buffer_read_adv (pm_buffer c) n = Some b" "pr_read_body r = pr_read_body (pm_request c)"
      "pr_write_body r = pr_write_body (pm_request c)" for b n r
    using that goodP[OF g] adv_read_keeps[OF that(1)] by (simp add: pam_good_def pam_ok_def)
  obtain st where st: "pr_state (pm_request c) = Some st" using run by (auto simp: pam_method_def elim!: bind_SomeE)
  note wp = write_ptr_eq[OF pam_okD(1)[OF goodP(1)[OF g]]]
  show ?thesis
  proof (cases "st = METHOD \<and> 2 \<le> buffer_room (pm_buffer c)")
    case False
    then show ?thesis using run st wp g pam_nbody_keeps[of os key c e q s', OF _ g]
      by (auto simp: pam_method_def Let_def split: if_splits)
  next
    case True
    then obtain x b where "buffer_read_adv (pm_buffer c) 2 = Some b" "pam_nbody os key (c\<lparr>pm_buffer := b,
        pm_request := (pm_request c)\<lparr>pr_state := Some NBODY, pr_method := ntohs x\<rparr>\<rparr>, e) = Some (q, s')"
      using run st wp by (auto simp: pam_method_def Let_def elim!: bind_SomeE)
    then show ?thesis using pam_nbody_keeps[OF _ keep] by simp
  qed
qed

lemma pam_version_keeps:
  assumes run: "pam_version os key (c, e) = Some (q, s')" and g: "pam_good os (c, e)"
  shows "pam_good os s' \<and> q \<in> {PAM_REQUEST, PAM_ERROR}"
proof -
  have keep: "pam_good os (c\<lparr>pm_buffer := b, pm_request := r\<rparr>, e)"
    if "buffer_inv b" "b_limit b = PAM_BUFFER_SIZE" "pr_read_body r = pr_read_body (pm_request c)"
      "pr_write_body r = pr_write_body (pm_request c)" for b r
    using that goodP[OF g] by (simp add: pam_good_def pam_ok_def)
  obtain st where st: "pr_state (pm_request c) = Some st" using run by (auto simp: pam_version_def elim!: bind_SomeE)
  note wp = write_ptr_eq[OF pam_okD(1)[OF goodP(1)[OF g]]]
  show ?thesis
  proof (cases "st = VER_N_RESERVED \<and> 2 \<le> buffer_room (pm_buffer c)")
    case False
    then show ?thesis using run st wp g pam_method_keeps[of os key c e q s', OF _ g]
      by (auto simp: pam_version_def Let_def split: if_splits)
  next
    case True
    then obtain ver b1 where 1: "buffer_read (pm_buffer c) = Some (ver, b1)"
      using run st wp by (auto simp: pam_version_def Let_def elim!: bind_SomeE)
    have b1: "buffer_inv b1" "b_limit b1 = PAM_BUFFER_SIZE"
      using buffer_read_keeps[OF 1] goodP(1)[OF g] by (simp_all add: pam_ok_def)
    show ?thesis
    proof (cases "ver = PAM_VERSION_1")
      case False
      then show ?thesis using run st wp True 1 keep[OF b1, of "pm_request c"] by (auto simp: pam_version_def Let_def)
    next
      case v: True
      then obtain rs b2 where 2: "buffer_read b1 = Some (rs, b2)"
        using run st wp True 1 by (auto simp: pam_version_def Let_def elim!: bind_SomeE)
      have b2: "buffer_inv b2" "b_limit b2 = PAM_BUFFER_SIZE" using buffer_read_keeps[OF 2] b1 by simp_all
      let ?c = "c\<lparr>pm_buffer := b2, pm_request := (pm_request c)\<lparr>pr_state := Some METHOD\<rparr>\<rparr>"
      show ?thesis
      proof (cases "rs = pr_reserved (pm_request c)")
        case False
        then show ?thesis using run st wp True 1 2 v keep[OF b2, of "pm_request c"] by (auto simp: pam_version_def Let_def)
      next
        case rs: True
        then have "pam_method os key (?c, e) = Some (q, s')" using run st wp True 1 2 v by (auto simp: pam_version_def Let_def)
        from pam_method_keeps[OF this keep[OF b2]] show ?thesis by simp
      qed
    qed
  qed
qed

lemma pam_request_read_keeps:
  assumes "pam_request_read os key s = Some (q, s')" "pam_good os s"
  shows "pam_good os s' \<and> q \<in> {PAM_REQUEST, PAM_DONE, PAM_ERROR}"
proof -
  obtain c e where s: "s = (c, e)" by (cases s)
  obtain out s1 where r: "pam_recv os key (c, e) = Some (out, s1)"
      "case out of Some q1 \<Rightarrow> q = q1 \<and> s' = s1 | None \<Rightarrow> pam_version os key s1 = Some (q, s')"
    using assms(1) s by (auto simp: pam_request_read_def elim!: bind_SomeE split: option.splits)
  have g: "pam_good os s1 \<and> (\<forall>q. out = Some q \<longrightarrow> q \<in> {PAM_DONE, PAM_ERROR})"
    by (rule pam_recv_keeps[OF r(1)]) (use assms(2) s in simp)
  obtain c1 e1 where s1: "s1 = (c1, e1)" by (cases s1)
  show ?thesis
    using r(2) g pam_version_keeps[of os key c1 e1 q s'] s1 by (auto split: option.splits)
qed

lemma pam_request_write_keeps:
  assumes "pam_request_write os key s = Some (q, s')" "pam_good os s"
  shows "pam_good os s' \<and> q \<in> {PAM_REQUEST, PAM_DONE, PAM_ERROR}"
proof -
  obtain c e where s: "s = (c, e)" by (cases s)
  obtain n w b where sd: "send_from os (pm_client_fd c) (pm_buffer c) (e_world e) = Some (n, w)"
      "buffer_read_adv (pm_buffer c) n = Some b"
    using assms(1) s by (auto simp: pam_request_write_def Let_def elim!: bind_SomeE)
  have g: "pam_good os (c, e)" using assms(2) s by simp
  show ?thesis
    using assms(1) s sd pam_send_keeps[OF sd g]
    by (auto simp: pam_request_write_def Let_def elim!: bind_SomeE split: if_splits)
qed

lemma pam_arrivals:
  "pam_auth_arrival q k s = Some s' \<Longrightarrow> pam_good os s \<Longrightarrow> pam_good os s'"
  "pam_request_arrival q k s = Some s' \<Longrightarrow> pam_good os s \<Longrightarrow> pam_good os s'"
  by (auto simp: pam_auth_arrival_def pam_request_arrival_def pam_good_def pam_ok_def split: prod.splits)

end
