(* ===== verification/PamMachine.thy ===== *)
theory PamMachine
  imports PamLaws Journeys
begin

text \<open>
  The management protocol as a state machine: its table meets the contract of the engine, so the
  invariant of a state holds after every run. The last section says what one event does.
\<close>

section \<open>The contract of the engine\<close>

text \<open>The state of a substate is determined once its state of the machine was entered.\<close>

definition pam_inv :: "'w os \<Rightarrow> nat \<Rightarrow> ('w, 'm) pstate \<Rightarrow> bool" where
  "pam_inv os q s \<longleftrightarrow> pam_good os s \<and> (q = PAM_AUTH \<longrightarrow> pa_state (pm_auth (fst s)) \<noteq> None)
     \<and> (q = PAM_REQUEST \<longrightarrow> pr_state (pm_request (fst s)) \<noteq> None)"

definition pam_edges :: "nat \<Rightarrow> nat set" where
  "pam_edges q = (if q = PAM_AUTH then {PAM_AUTH, PAM_REQUEST, PAM_DONE, PAM_ERROR}
     else if q = PAM_REQUEST then {PAM_REQUEST, PAM_DONE, PAM_ERROR} else {})"

lemma pam_states_length [simp]: "length (pamStates os) = 4"
  by (simp add: pamStates_def)

lemma lt_four: "(q::nat) < 4 \<Longrightarrow> q = PAM_AUTH \<or> q = PAM_REQUEST \<or> q = PAM_DONE \<or> q = PAM_ERROR"
  by auto

lemma pam_states_read: "q < 4 \<Longrightarrow> on_read_ready (pamStates os ! q) =
    (if q = PAM_AUTH then Some (pam_auth_read os) else if q = PAM_REQUEST then Some (pam_request_read os) else None)"
  by (drule lt_four) (auto simp: pamStates_def plain_state_def)

lemma pam_states_write: "q < 4 \<Longrightarrow> on_write_ready (pamStates os ! q) =
    (if q = PAM_AUTH then Some (pam_auth_write os) else if q = PAM_REQUEST then Some (pam_request_write os) else None)"
  by (drule lt_four) (auto simp: pamStates_def plain_state_def)

lemma pam_states_block: "q < 4 \<Longrightarrow> on_block_ready (pamStates os ! q) = None"
  by (drule lt_four) (auto simp: pamStates_def plain_state_def)

lemma pam_states_departure: "q < 4 \<Longrightarrow> on_departure (pamStates os ! q) = None"
  by (drule lt_four) (auto simp: pamStates_def plain_state_def)

lemma pam_states_arrival: "q < 4 \<Longrightarrow> on_arrival (pamStates os ! q) =
    (if q = PAM_AUTH then Some pam_auth_arrival else if q = PAM_REQUEST then Some pam_request_arrival else None)"
  by (drule lt_four) (auto simp: pamStates_def plain_state_def)

lemma pam_states_numbered: "q < 4 \<Longrightarrow> sd_state (pamStates os ! q) = q"
  by (drule lt_four) (auto simp: pamStates_def plain_state_def)

subsection \<open>The state of a substate stays determined\<close>

lemma pass_state: "pam_auth_pass key (c, e) = Some (q, c', e') \<Longrightarrow> pa_state (pm_auth c') \<noteq> None"
  by (auto simp: pam_auth_pass_def Let_def elim!: bind_SomeE split: if_splits)

lemma username_state: "pam_auth_username key (c, e) = Some (q, c', e') \<Longrightarrow> pa_state (pm_auth c') \<noteq> None"
  by (auto simp: pam_auth_username_def Let_def elim!: bind_SomeE split: if_splits dest!: pass_state)

lemma header_state: "pam_auth_header key (c, e) = Some (q, c', e') \<Longrightarrow> pa_state (pm_auth c') \<noteq> None"
  by (auto simp: pam_auth_header_def Let_def elim!: bind_SomeE split: if_splits dest!: username_state)

lemma recv_sub: "pam_recv os key (c, e) = Some (out, c', e') \<Longrightarrow> pm_auth c' = pm_auth c \<and> pm_request c' = pm_request c
    \<and> pm_client_fd c' = pm_client_fd c"
  by (auto simp: pam_recv_def Let_def elim!: bind_SomeE split: if_splits)

lemma auth_read_state:
  "pam_auth_read os key (c, e) = Some (q, c', e') \<Longrightarrow> pa_state (pm_auth c) \<noteq> None \<Longrightarrow> pa_state (pm_auth c') \<noteq> None"
  unfolding pam_auth_read_def
  by (elim bind_SomeE) (auto split: option.splits prod.splits dest: header_state recv_sub)

lemma auth_write_state:
  "pam_auth_write os key (c, e) = Some (q, c', e') \<Longrightarrow> pm_auth c' = pm_auth c \<and> pm_request c' = pm_request c"
  by (auto simp: pam_auth_write_def Let_def elim!: bind_SomeE split: if_splits)

lemma set_state [simp]:
  "pr_state (pm_request (set_status x c)) = pr_state (pm_request c)"
  "pr_state (pm_request (set_nbody n c)) = pr_state (pm_request c)"
  "pr_state (pm_request (set_write_body wb c)) = pr_state (pm_request c)"
  by (simp_all add: set_status_def set_nbody_def set_write_body_def)

lemma method_state:
  "handle_pam_request_method os b (c, e) = Some (c', e') \<Longrightarrow> pr_state (pm_request c') = pr_state (pm_request c)"
  by (auto simp: handle_pam_request_method_def handle_get_connected_users_list_def handle_add_user_def handle_remove_user_def
      handle_change_password_def handle_change_role_def handle_get_metrics_def Let_def
      elim!: bind_SomeE split: if_splits user_status.splits prod.splits)

lemma answer_state: "pam_answer key (c, e) = Some (q, c', e') \<Longrightarrow> pm_request c' = pm_request c"
  by (auto simp: pam_answer_def Let_def elim!: bind_SomeE)

lemma body_state: "pam_body os key (c, e) = Some (q, c', e') \<Longrightarrow> pr_state (pm_request c') \<noteq> None"
  by (auto simp: pam_body_def Let_def elim!: bind_SomeE split: if_splits dest!: method_state answer_state)

lemma nbody_state: "pam_nbody os key (c, e) = Some (q, c', e') \<Longrightarrow> pr_state (pm_request c') \<noteq> None"
  by (auto simp: pam_nbody_def Let_def elim!: bind_SomeE split: if_splits dest!: body_state)

lemma pam_method_state: "pam_method os key (c, e) = Some (q, c', e') \<Longrightarrow> pr_state (pm_request c') \<noteq> None"
  by (auto simp: pam_method_def Let_def elim!: bind_SomeE split: if_splits dest!: nbody_state)

lemma version_state: "pam_version os key (c, e) = Some (q, c', e') \<Longrightarrow> pr_state (pm_request c') \<noteq> None"
  by (auto simp: pam_version_def Let_def elim!: bind_SomeE split: if_splits dest!: pam_method_state)

lemma request_read_state:
  "pam_request_read os key (c, e) = Some (q, c', e') \<Longrightarrow> pr_state (pm_request c) \<noteq> None \<Longrightarrow> pr_state (pm_request c') \<noteq> None"
  unfolding pam_request_read_def
  by (elim bind_SomeE) (auto split: option.splits prod.splits dest: version_state recv_sub)

lemma request_write_state:
  "pam_request_write os key (c, e) = Some (q, c', e') \<Longrightarrow> pm_auth c' = pm_auth c \<and> pm_request c' = pm_request c"
  by (auto simp: pam_request_write_def Let_def elim!: bind_SomeE split: if_splits)

subsection \<open>The table\<close>

lemma pam_read_keeps:
  assumes q: "q < 4" "on_read_ready (pamStates os ! q) = Some h" "h key (c, e) = Some (q', c', e')" "pam_inv os q (c, e)"
  shows "q' \<in> pam_edges q \<and> (if q' = q then pam_inv os q (c', e') else pam_good os (c', e'))"
proof -
  consider "q = PAM_AUTH" "h = pam_auth_read os" | "q = PAM_REQUEST" "h = pam_request_read os"
    using q(1,2) by (auto simp: pam_states_read split: if_splits)
  then show ?thesis
  proof cases
    case 1
    with q(3,4) pam_auth_read_keeps[of os key "(c, e)" q' "(c', e')"] auth_read_state[of os key c e q' c' e']
    show ?thesis by (auto simp: pam_inv_def pam_edges_def)
  next
    case 2
    with q(3,4) pam_request_read_keeps[of os key "(c, e)" q' "(c', e')"] request_read_state[of os key c e q' c' e']
    show ?thesis by (auto simp: pam_inv_def pam_edges_def)
  qed
qed

lemma pam_write_keeps:
  assumes q: "q < 4" "on_write_ready (pamStates os ! q) = Some h" "h key (c, e) = Some (q', c', e')" "pam_inv os q (c, e)"
  shows "q' \<in> pam_edges q \<and> (if q' = q then pam_inv os q (c', e') else pam_good os (c', e'))"
proof -
  consider "q = PAM_AUTH" "h = pam_auth_write os" | "q = PAM_REQUEST" "h = pam_request_write os"
    using q(1,2) by (auto simp: pam_states_write split: if_splits)
  then show ?thesis
  proof cases
    case 1
    with q(3,4) pam_auth_write_keeps[of os key "(c, e)" q' "(c', e')"] auth_write_state[of os key c e q' c' e']
    show ?thesis by (auto simp: pam_inv_def pam_edges_def)
  next
    case 2
    with q(3,4) pam_request_write_keeps[of os key "(c, e)" q' "(c', e')"] request_write_state[of os key c e q' c' e']
    show ?thesis by (auto simp: pam_inv_def pam_edges_def)
  qed
qed

lemma pam_arrival_keeps:
  assumes "q < 4" "run_hook (on_arrival (pamStates os ! q)) q key s = Some s'" "pam_good os s"
  shows "pam_inv os q s'"
  using assms pam_arrivals[of q key s s' os]
  by (auto simp: pam_states_arrival run_hook_def pam_inv_def pam_auth_arrival_def pam_request_arrival_def
      split: if_splits prod.splits)

interpretation pam_machine: machine_contract "pamStates os" "\<lambda>_. True" "\<lambda>_. pam_good os" "pam_inv os" for os :: "'w os"
proof
  show "sd_state (pamStates os ! i) = i" if "i < length (pamStates os)" for i
    using that pam_states_numbered by simp
next
  fix q :: nat and k :: key and s s' :: "('w, 'b) pstate"
  assume "q < length (pamStates os)" "pam_good os s" "run_hook (on_arrival (pamStates os ! q)) q k s = Some s'"
  then show "pam_inv os q s'" by (auto intro: pam_arrival_keeps)
next
  fix q q' :: nat and k :: key and s s' :: "('w, 'b) pstate"
  assume "q < length (pamStates os)" "pam_good os s" "run_hook (on_departure (pamStates os ! q)) q k s = Some s'"
  then show "pam_good os s'" by (simp add: pam_states_departure run_hook_def)
next
  fix q q' :: nat and k :: key and h and s s' :: "('w, 'b) pstate"
  assume "q < length (pamStates os)" "pam_inv os q s" "on_read_ready (pamStates os ! q) = Some h" "h k s = Some (q', s')"
  then show "if q' = q then pam_inv os q s' else pam_good os s'"
    using pam_read_keeps[of q os h k "fst s" "snd s" q' "fst s'" "snd s'"] by (simp split: if_splits)
next
  fix q q' :: nat and k :: key and h and s s' :: "('w, 'b) pstate"
  assume "q < length (pamStates os)" "pam_inv os q s" "on_write_ready (pamStates os ! q) = Some h" "h k s = Some (q', s')"
  then show "if q' = q then pam_inv os q s' else pam_good os s'"
    using pam_write_keeps[of q os h k "fst s" "snd s" q' "fst s'" "snd s'"] by (simp split: if_splits)
next
  fix q q' :: nat and k :: key and h and s s' :: "('w, 'b) pstate"
  assume "q < length (pamStates os)" "pam_inv os q s" "on_block_ready (pamStates os ! q) = Some h" "h k s = Some (q', s')"
  then show "if q' = q then pam_inv os q s' else pam_good os s'" by (simp add: pam_states_block)
qed

section \<open>Runs\<close>

definition pam_step :: "'w os \<Rightarrow> stm_event \<Rightarrow> key \<Rightarrow> state_machine \<Rightarrow> ('w, 'm) pstate
   \<Rightarrow> (nat \<times> state_machine \<times> ('w, 'm) pstate) option" where
  "pam_step os ev key m s = (case ev of
     Ev_read \<Rightarrow> stm_handler_read (pamStates os) key m s
   | Ev_write \<Rightarrow> stm_handler_write (pamStates os) key m s
   | Ev_block \<Rightarrow> stm_handler_block (pamStates os) key m s)"

fun pam_run :: "'w os \<Rightarrow> (stm_event \<times> key) list \<Rightarrow> state_machine \<Rightarrow> ('w, 'm) pstate
   \<Rightarrow> (state_machine \<times> ('w, 'm) pstate) option" where
  "pam_run os [] m s = Some (m, s)"
| "pam_run os ((ev, key) # evs) m s = do {
     (q, m, s) \<leftarrow> pam_step os ev key m s;
     pam_run os evs m s
   }"

lemma pam_step_inv:
  "pam_step os ev key m s = Some (q, m', s') \<Longrightarrow> pam_machine.minv os m s \<Longrightarrow> pam_machine.minv os m' s'"
  unfolding pam_step_def
  by (auto split: stm_event.splits intro: pam_machine.read_inv pam_machine.write_inv pam_machine.block_inv)

lemma pam_run_inv:
  "pam_run os evs m s = Some (m', s') \<Longrightarrow> pam_machine.minv os m s \<Longrightarrow> pam_machine.minv os m' s'"
proof (induction evs arbitrary: m s)
  case Nil
  then show ?case by simp
next
  case (Cons ev evs)
  obtain x k where ev: "ev = (x, k)" by fastforce
  obtain q m1 s1 where r: "pam_step os x k m s = Some (q, m1, s1)" "pam_run os evs m1 s1 = Some (m', s')"
    using Cons.prems(1) ev by (auto elim!: bind_SomeE)
  show ?case by (rule Cons.IH[OF r(2) pam_step_inv[OF r(1) Cons.prems(2)]])
qed


lemma pam_nth_opt: "q < 4 \<Longrightarrow> nth_opt (pamStates os) q = Some (pamStates os ! q)"
  by (simp add: nth_opt_def)

lemma pam_stays:
  assumes "current m = Some q" "q < 4" "q \<le> max_state m"
  shows "on_read_ready (pamStates os ! q) = Some h \<Longrightarrow> h key s = Some (q, s') \<Longrightarrow> pam_step os Ev_read key m s = Some (q, m, s')"
    "on_write_ready (pamStates os ! q) = Some h \<Longrightarrow> h key s = Some (q, s') \<Longrightarrow> pam_step os Ev_write key m s = Some (q, m, s')"
  using handler_stays[OF assms(1) pam_nth_opt[OF assms(2)] assms(3)] by (simp_all add: pam_step_def stm_handlers)

lemma pam_first_read:
  assumes "pam_auth_arrival PAM_AUTH key s = Some s1" "pam_auth_read os key s1 = Some (PAM_AUTH, s')"
  shows "pam_step os Ev_read key \<lparr>initial = PAM_AUTH, max_state = PAM_ERROR, current = None\<rparr> s
    = Some (PAM_AUTH, \<lparr>initial = PAM_AUTH, max_state = PAM_ERROR, current = Some PAM_AUTH\<rparr>, s')"
  using handler_first[where sel = on_read_ready and q = PAM_AUTH and tbl = "pamStates os" and s = s and ?s1.0 = s1 and k = key
      and h = "pam_auth_read os" and s' = s' and d = "pamStates os ! PAM_AUTH"
      and m = "\<lparr>initial = PAM_AUTH, max_state = PAM_ERROR, current = None\<rparr>"] assms
  by (simp add: pam_step_def stm_handlers pam_nth_opt pam_states_arrival pam_states_numbered pam_states_read run_hook_def)

lemma pam_auth_done:
  assumes "pam_auth_write os key s = Some (PAM_REQUEST, s1)" "pam_request_arrival PAM_REQUEST key s1 = Some s2"
  shows "pam_step os Ev_write key \<lparr>initial = PAM_AUTH, max_state = PAM_ERROR, current = Some PAM_AUTH\<rparr> s
    = Some (PAM_REQUEST, \<lparr>initial = PAM_AUTH, max_state = PAM_ERROR, current = Some PAM_REQUEST\<rparr>, s2)"
  using handler_moves[where sel = on_write_ready and q = PAM_AUTH and tbl = "pamStates os" and s = s and ?s1.0 = s1 and ?s2.0 = s1
      and ?s3.0 = s2 and k = key and h = "pam_auth_write os" and q' = PAM_REQUEST and d = "pamStates os ! PAM_AUTH"
      and d' = "pamStates os ! PAM_REQUEST" and m = "\<lparr>initial = PAM_AUTH, max_state = PAM_ERROR, current = Some PAM_AUTH\<rparr>"] assms
  by (simp add: pam_step_def stm_handlers pam_nth_opt pam_states_arrival pam_states_departure pam_states_numbered
      pam_states_write run_hook_def)

end
