(* ===== verification/PamExchanges.thy ===== *)
theory PamExchanges
  imports PamMachine
begin

text \<open>
  The messages of a management client, from the bytes received to the bytes answered: the login,
  a request and its method, a whole exchange; then accepting a connection and closing it.
\<close>

section \<open>Messages\<close>

lemma read_while_avail:
  assumes "buffer_inv b" "n \<le> length (buffer_window b)" "i + n \<le> length arr"
  shows "\<exists>b'. read_while n i arr b = Some (store_at i (take n (buffer_window b)) arr, b') \<and> buffer_inv b'
    \<and> buffer_window b' = drop n (buffer_window b) \<and> b_limit b' = b_limit b"
  using assms
proof (induction n arbitrary: i arr b)
  case 0
  then show ?case by (simp add: store_at_def)
next
  case (Suc n)
  then obtain x xs where w: "buffer_window b = x # xs" by (cases "buffer_window b") auto
  obtain b1 where b1: "buffer_read b = Some (x, b1)" "buffer_inv b1" "buffer_window b1 = xs" "b_limit b1 = b_limit b"
    using buffer_read_spec[OF Suc.prems(1)] w by auto
  have "n \<le> length (buffer_window b1)" "Suc i + n \<le> length (arr[i := x])" using Suc.prems(2,3) w b1(3) by simp_all
  from Suc.IH[OF b1(2) this] obtain b2 where b2: "read_while n (Suc i) (arr[i := x]) b1 =
      Some (store_at (Suc i) (take n xs) (arr[i := x]), b2)" "buffer_inv b2"
      "buffer_window b2 = drop n xs" "b_limit b2 = b_limit b" using b1(3,4) by auto
  have "store_at (Suc i) (take n xs) (arr[i := x]) = store_at i (x # take n xs) arr"
    using Suc.prems(3) by (simp add: store_at_def take_Suc_conv_app_nth)
  then show ?case
    using b1(1) b2 w Suc.prems(3) can_read_iff[OF Suc.prems(1)] by (simp add: c_set_def)
qed

lemma pass_field:
  assumes "buffer_inv b" "n \<le> length (buffer_window b)" "n < length arr"
  obtains x b' where "read_while n 0 arr b = Some (x, b')"
    "c_set x n 0 = Some (take n (buffer_window b) @ 0 # drop (Suc n) arr)"
    "buffer_inv b'" "buffer_window b' = drop n (buffer_window b)" "b_limit b' = b_limit b"
proof -
  obtain b' where b': "read_while n 0 arr b = Some (store_at 0 (take n (buffer_window b)) arr, b')" "buffer_inv b'"
      "buffer_window b' = drop n (buffer_window b)" "b_limit b' = b_limit b"
    using read_while_avail[OF assms(1,2), of 0 arr] assms(3) by auto
  obtain x bb where "read_into n arr b = Some (x, bb)" "c_set x n 0 = Some (take n (buffer_window b) @ 0 # drop (Suc n) arr)"
    using field_avail[OF assms] by blast
  moreover obtain b2 where "read_into n arr b = Some (store_at 0 (take n (buffer_window b)) arr, b2)"
    using read_into_avail[OF assms(1,2), of arr] assms(3) by auto
  ultimately show thesis using that b' by simp
qed

lemma recv_message:
  assumes "os_ok os" "buffer_inv (pm_buffer c)" "os_recv os (k_fd key) (buffer_room (pm_buffer c)) (e_world e) = (SysOk bs, w)"
    "bs \<noteq> []"
  obtains b where "pam_recv os key (c, e) = Some (None, c\<lparr>pm_buffer := b\<rparr>, e\<lparr>e_world := w\<rparr>)" "buffer_inv b"
    "buffer_window b = buffer_window (pm_buffer c) @ bs" "b_limit b = b_limit (pm_buffer c)"
    "buffer_room b = buffer_room (pm_buffer c) - length bs"
  using assms(1,2)
proof (cases rule: recv_cases[where fd = "k_fd key" and w = "e_world e"])
  case (err x w')
  then show ?thesis using assms(3) by simp
next
  case (got bs' w' b1 b2)
  then show ?thesis using that[of b2] assms(3,4) by (simp add: pam_recv_def Let_def)
qed

lemma read_next:
  assumes "buffer_inv b" "buffer_window b = x # xs"
  obtains b' where "buffer_read b = Some (x, b')" "buffer_inv b'" "buffer_window b' = xs" "b_limit b' = b_limit b"
    "buffer_room b \<le> buffer_room b'"
  using buffer_read_spec[OF assms(1)] assms(2) by auto

text \<open>What the answer to a pair of name and password is.\<close>

definition login_status :: "users_db \<Rightarrow> byte list \<Rightarrow> byte list \<Rightarrow> byte" where
  "login_status db u p = (if credentials_ok db u p then PAM_AUTH_SUCCESS else PAM_AUTH_FAILURE)"

lemma pam_pass_spec:
  assumes g: "pam_good os (c, e)" and st: "pa_state (pm_auth c) = Some PASS"
    and w: "buffer_window (pm_buffer c) = p @ rest" "length p = unat (pa_n_pass (pm_auth c))" "length p < 255"
    and t: "terminated (pa_username (pm_auth c))"
  shows "\<exists>c' e'. pam_auth_pass key (c, e) = Some (PAM_AUTH, c', e')
    \<and> buffer_window (pm_buffer c') = [PAM_VERSION_1, login_status (e_users e) (pa_username (pm_auth c)) p]
    \<and> pa_username (pm_auth c') = pa_username (pm_auth c) \<and> pm_client_fd c' = pm_client_fd c
    \<and> pm_request c' = pm_request c \<and> same_users (e_users e) (e_users e') \<and> e_world e' = e_world e"
proof -
  let ?a = "pm_auth c" and ?n = "unat (pa_n_pass (pm_auth c))"
  note c = goodP[OF g]
  have inv: "buffer_inv (pm_buffer c)" using pam_okD[OF c(1)] by simp
  have n: "?n \<le> length (buffer_window (pm_buffer c))" "?n < length (pa_pass ?a)" using w c(1) by (simp_all add: pam_ok_def)
  have p: "take ?n (buffer_window (pm_buffer c)) = p" using w by simp
  obtain x b where r: "read_while ?n 0 (pa_pass ?a) (pm_buffer c) = Some (x, b)"
      "c_set x ?n 0 = Some (p @ 0 # drop (Suc ?n) (pa_pass ?a))" "buffer_inv b" "b_limit b = b_limit (pm_buffer c)"
    by (rule pass_field[OF inv n, unfolded p])
  let ?pw = "p @ 0 # drop (Suc ?n) (pa_pass ?a)"
  obtain db where ua: "user_authenticate (e_users e) (pa_username ?a) ?pw = Some
      (case users_map (e_users e) (cstr (pa_username ?a)) of None \<Rightarrow> USER_BADUSERNAME
       | Some (q, _) \<Rightarrow> if q = cstr ?pw then USER_OK else USER_WRONGPASSWORD, db)" "same_users (e_users e) db"
    using user_authenticate_spec[OF c(4) t terminated_field] by blast
  define us where "us = (case users_map (e_users e) (cstr (pa_username ?a)) of None \<Rightarrow> USER_BADUSERNAME
       | Some (q, _) \<Rightarrow> if q = cstr ?pw then USER_OK else USER_WRONGPASSWORD)"
  have us: "us \<in> {USER_OK, USER_BADUSERNAME, USER_WRONGPASSWORD}"
      "(if us = USER_OK then PAM_AUTH_SUCCESS else PAM_AUTH_FAILURE) = login_status (e_users e) (pa_username ?a) p"
    by (auto simp: us_def login_status_def credentials_ok_def cstr_field split: option.splits prod.splits)
  obtain b1 b2 where wr: "buffer_write (buffer_reset b) PAM_VERSION_1 = Some b1"
      "buffer_write b1 (login_status (e_users e) (pa_username ?a) p) = Some b2" "buffer_window b2 = [PAM_VERSION_1, login_status (e_users e) (pa_username ?a) p]"
    by (rule write_two[OF buffer_inv_reset[OF r(3)], of PAM_VERSION_1 "login_status (e_users e) (pa_username ?a) p"])
      (use r(4) pam_okD[OF c(1)] in simp_all)
  have "env_ok (e\<lparr>e_users := db\<rparr>)" by (rule env_users[OF c(2)]) (use ua(2) in \<open>simp add: same_users_def\<close>)
  then have reg: "registry_ok (e\<lparr>e_users := db, e_calls := l\<rparr>)" for l using env_ok_registry by simp
  let ?e = "e\<lparr>e_users := db, e_calls := e_calls e @ [Log_pam_login us (cstr (pa_username ?a))]\<rparr>"
  obtain st2 where si: "selector_set_interest_key key OP_WRITE ?e = Some (st2, poke (k_fd key) OP_WRITE ?e)"
    by (rule set_interest_key_poke[OF reg])
  show ?thesis
    using st w r(1,2) ua(1)[folded us_def] us wr si ua(2) read_ptr_eq[OF inv]
    by (simp add: pam_auth_pass_def Let_def)
qed


lemma pam_username_spec:
  assumes g: "pam_good os (c, e)" and st: "pa_state (pm_auth c) = Some USERNAME"
    and w: "buffer_window (pm_buffer c) = u @ p @ rest" "length u = unat (pa_n_user (pm_auth c))" "length u < 255"
      "length p = unat (pa_n_pass (pm_auth c))" "length p < 255"
  shows "\<exists>c' e'. pam_auth_username key (c, e) = Some (PAM_AUTH, c', e')
    \<and> buffer_window (pm_buffer c') = [PAM_VERSION_1, login_status (e_users e) (u @ [0]) p]
    \<and> cstr (pa_username (pm_auth c')) = cstr u \<and> terminated (pa_username (pm_auth c')) \<and> pm_client_fd c' = pm_client_fd c
    \<and> pm_request c' = pm_request c \<and> same_users (e_users e) (e_users e') \<and> e_world e' = e_world e"
proof -
  let ?a = "pm_auth c" and ?n = "unat (pa_n_user (pm_auth c))"
  note c = goodP[OF g]
  have inv: "buffer_inv (pm_buffer c)" using pam_okD[OF c(1)] by simp
  have n: "?n \<le> length (buffer_window (pm_buffer c))" "?n < length (pa_username ?a)" using w c(1) by (simp_all add: pam_ok_def)
  have tk: "take ?n (buffer_window (pm_buffer c)) = u" "drop ?n (buffer_window (pm_buffer c)) = p @ rest" using w by simp_all
  obtain x b where r: "read_into ?n (pa_username ?a) (pm_buffer c) = Some (x, b)"
      "c_set x ?n 0 = Some (u @ 0 # drop (Suc ?n) (pa_username ?a))" "buffer_inv b" "buffer_window b = p @ rest"
      "b_limit b = b_limit (pm_buffer c)"
    by (rule field_avail[OF inv n, unfolded tk])
  let ?un = "u @ 0 # drop (Suc ?n) (pa_username ?a)"
  let ?c = "c\<lparr>pm_buffer := b, pm_auth := ?a\<lparr>pa_state := Some PASS, pa_username := ?un\<rparr>\<rparr>"
  have "length ?un = 255" using w(2,3) n(2) c(1) by (simp add: pam_ok_def)
  then have "pam_good os (?c, e)" using r(3,5) c by (simp add: pam_good_def pam_ok_def)
  from pam_pass_spec[OF this, of p rest key] w r(4) terminated_field obtain c' e' where
    "pam_auth_pass key (?c, e) = Some (PAM_AUTH, c', e')"
    "buffer_window (pm_buffer c') = [PAM_VERSION_1, login_status (e_users e) ?un p]"
    "pa_username (pm_auth c') = ?un" "pm_client_fd c' = pm_client_fd c" "pm_request c' = pm_request c"
    "same_users (e_users e) (e_users e')" "e_world e' = e_world e" by auto
  then show ?thesis using st r(1,2) w(1,2) read_ptr_eq[OF inv] terminated_field
    by (simp add: pam_auth_username_def Let_def login_status_def credentials_ok_def cstr_field)
qed

lemma pam_login_spec:
  assumes g: "pam_good os (c, e)" and st: "pa_state (pm_auth c) = Some VER_N_NUSER_N_NPASS" "buffer_window (pm_buffer c) = []"
    and rd: "os_recv os (k_fd key) PAM_BUFFER_SIZE (e_world e) = (SysOk (PAM_VERSION_1 # nu # np # u @ p @ rest), w)"
    and n: "nu \<noteq> 0" "np \<noteq> 0" "length u = unat nu" "length p = unat np" "length u < 255" "length p < 255"
      "length u + length p + length rest \<le> 65530"
  shows "\<exists>c' e'. pam_auth_read os key (c, e) = Some (PAM_AUTH, c', e')
    \<and> buffer_window (pm_buffer c') = [PAM_VERSION_1, login_status (e_users e) (u @ [0]) p]
    \<and> cstr (pa_username (pm_auth c')) = cstr u \<and> terminated (pa_username (pm_auth c')) \<and> pm_client_fd c' = pm_client_fd c
    \<and> pm_request c' = pm_request c \<and> same_users (e_users e) (e_users e') \<and> e_world e' = w"
proof -
  note c = goodP[OF g]
  have inv: "buffer_inv (pm_buffer c)" "buffer_room (pm_buffer c) = PAM_BUFFER_SIZE"
    using pam_okD[OF c(1)] room_of_empty st(2) by simp_all
  obtain b where b: "pam_recv os key (c, e) = Some (None, c\<lparr>pm_buffer := b\<rparr>, e\<lparr>e_world := w\<rparr>)" "buffer_inv b"
      "buffer_window b = PAM_VERSION_1 # nu # np # u @ p @ rest" "b_limit b = PAM_BUFFER_SIZE" "3 \<le> buffer_room b"
    by (rule recv_message[OF c(3) inv(1), of key e "PAM_VERSION_1 # nu # np # u @ p @ rest" w])
      (use rd inv(2) st(2) n(7) pam_okD[OF c(1)] in auto)
  obtain b1 where b1: "buffer_read b = Some (PAM_VERSION_1, b1)" "buffer_inv b1" "buffer_window b1 = nu # np # u @ p @ rest" "b_limit b1 = b_limit b"
    by (rule read_next[OF b(2,3)])
  obtain b2 where b2: "buffer_read b1 = Some (nu, b2)" "buffer_inv b2" "buffer_window b2 = np # u @ p @ rest" "b_limit b2 = b_limit b1"
    by (rule read_next[OF b1(2,3)])
  obtain b3 where b3: "buffer_read b2 = Some (np, b3)" "buffer_inv b3" "buffer_window b3 = u @ p @ rest" "b_limit b3 = b_limit b2"
    by (rule read_next[OF b2(2,3)])
  let ?c = "c\<lparr>pm_buffer := b3, pm_auth := (pm_auth c)\<lparr>pa_state := Some USERNAME, pa_n_user := nu, pa_n_pass := np\<rparr>\<rparr>"
  have "pam_good os (?c, e\<lparr>e_world := w\<rparr>)" using b3(2,4) b2(4) b1(4) b(4) c by (simp add: pam_good_def pam_ok_def)
  from pam_username_spec[OF this, of u p rest key] n b3(3) obtain c' e' where
    "pam_auth_username key (?c, e\<lparr>e_world := w\<rparr>) = Some (PAM_AUTH, c', e')"
    "buffer_window (pm_buffer c') = [PAM_VERSION_1, login_status (e_users e) (u @ [0]) p]"
    "cstr (pa_username (pm_auth c')) = cstr u" "terminated (pa_username (pm_auth c'))" "pm_client_fd c' = pm_client_fd c"
    "pm_request c' = pm_request c" "same_users (e_users e) (e_users e')" "e_world e' = w" by auto
  moreover have "pam_auth_header key (c\<lparr>pm_buffer := b\<rparr>, e\<lparr>e_world := w\<rparr>) = pam_auth_username key (?c, e\<lparr>e_world := w\<rparr>)"
    using st(1) b b1(1) b2(1) b3(1) n(1,2) write_ptr_eq[OF b(2)] by (simp add: pam_auth_header_def Let_def)
  ultimately show ?thesis using b(1) by (simp add: pam_auth_read_def)
qed


text \<open>A request that arrives in one segment: its method runs on a buffer that holds the body.\<close>

definition be16 :: "byte \<Rightarrow> byte \<Rightarrow> u16" where
  "be16 hi lo = ntohs (from_mem16 hi lo)"

lemma read_two:
  assumes "buffer_inv b" "buffer_window b = x # y # r"
  obtains b' where "read_u16 (b_data b) (b_read b) = Some (from_mem16 x y)" "buffer_read_adv b 2 = Some b'" "buffer_inv b'"
    "buffer_window b' = r" "b_limit b' = b_limit b" "buffer_room b \<le> buffer_room b'"
proof -
  have len: "b_write b - b_read b = Suc (Suc (length r))" using length_window[OF assms(1)] assms(2) by simp
  have w: "take (b_write b - b_read b) (drop (b_read b) (b_data b)) = x # y # r"
    using assms(2) by (simp add: buffer_window_def)
  have le: "b_read b + 1 < length (b_data b)" using len assms(1) unfolding buffer_inv_def by linarith
  have "b_data b ! b_read b = x" "b_data b ! (b_read b + 1) = y"
    using arg_cong[OF w, of "\<lambda>l. l ! 0"] arg_cong[OF w, of "\<lambda>l. l ! 1"] le len by simp_all
  then have "read_u16 (b_data b) (b_read b) = Some (from_mem16 x y)" using le by (simp add: read_u16_def nth_opt_def)
  moreover obtain b' where "buffer_read_adv b (int 2) = Some b'" "buffer_inv b'" "buffer_window b' = drop 2 (buffer_window b)"
      "b_limit b' = b_limit b" "buffer_room b \<le> buffer_room b'"
    using read_adv_spec[OF assms(1), of 2] assms(2) by auto
  ultimately show thesis using that assms(2) by simp
qed

text \<open>The answer of four bytes and the first bytes of the answer's body, as they are in memory.\<close>

definition answer_bytes :: "pamRequest_st \<Rightarrow> byte list" where
  "answer_bytes r = [PAM_VERSION_1, pr_status r] @ mem16 (htons (pr_write_nbody r))
     @ take (unat (pr_write_nbody r)) (pr_write_body r)"

lemma pam_answer_spec:
  assumes g: "pam_good os (c, e)" and n: "unat (pr_write_nbody (pm_request c)) \<le> 65532"
  shows "\<exists>b. pam_answer key (c, e) = Some (PAM_REQUEST, c\<lparr>pm_buffer := b\<rparr>, poke (k_fd key) OP_WRITE e)
    \<and> buffer_window b = answer_bytes (pm_request c) \<and> buffer_inv b \<and> b_limit b = PAM_BUFFER_SIZE"
proof -
  let ?r = "pm_request c"
  note c = goodP[OF g]
  let ?m = "mem16 (htons (pr_write_nbody ?r))" and ?t = "take (unat (pr_write_nbody ?r)) (pr_write_body ?r)"
  have m: "[?m ! 0, ?m ! 1] = ?m" by (simp add: mem16_def)
  have bd: "unat (pr_write_nbody ?r) \<le> length (pr_write_body ?r)" using n c(1) by (simp add: pam_ok_def)
  have a: "answer_bytes ?r = [PAM_VERSION_1, pr_status ?r, ?m ! 0, ?m ! 1] @ ?t"
    using m by (simp add: answer_bytes_def)
  have len: "length (answer_bytes ?r) \<le> b_limit (buffer_reset (pm_buffer c))"
    using n bd pam_okD[OF c(1)] by (simp add: a)
  obtain b where b: "buffer_write_all (answer_bytes ?r) (buffer_reset (pm_buffer c)) = Some b" "buffer_inv b"
      "buffer_window b = answer_bytes ?r" "b_limit b = b_limit (buffer_reset (pm_buffer c))"
    using bb.put_all_drained[OF buffer_inv_reset[OF pam_okD(1)[OF c(1)]] _ len] by auto
  obtain st where s: "selector_set_interest_key key OP_WRITE e = Some (st, poke (k_fd key) OP_WRITE e)"
    by (rule set_interest_key_poke[OF env_ok_registry[OF c(2)]])
  have "pam_answer key (c, e) = Some (PAM_REQUEST, c\<lparr>pm_buffer := b\<rparr>, poke (k_fd key) OP_WRITE e)"
    using b(1) s bd unfolding a by (auto simp: pam_answer_def Let_def elim!: bind_SomeE)
  then show ?thesis using b pam_okD[OF c(1)] by auto
qed


lemma fragment_aborts:
  assumes g: "pam_good os (c, e)" and st: "pr_state (pm_request c) = Some VER_N_RESERVED" "pr_reserved (pm_request c) = RESERVED_BYTE"
    and bw: "buffer_window (pm_buffer c) = []"
    and rd: "os_recv os (k_fd key) PAM_BUFFER_SIZE (e_world e) = (SysOk [PAM_VERSION_1, RESERVED_BYTE], w)"
  shows "pam_request_read os key (c, e) = None"
proof -
  note c = goodP[OF g]
  have inv: "buffer_inv (pm_buffer c)" "buffer_room (pm_buffer c) = PAM_BUFFER_SIZE"
    using pam_okD[OF c(1)] room_of_empty bw by simp_all
  obtain b where b: "pam_recv os key (c, e) = Some (None, c\<lparr>pm_buffer := b\<rparr>, e\<lparr>e_world := w\<rparr>)" "buffer_inv b"
      "buffer_window b = buffer_window (pm_buffer c) @ [PAM_VERSION_1, RESERVED_BYTE]" "buffer_room b = PAM_BUFFER_SIZE - 2"
    by (rule recv_message[OF c(3) inv(1), of key e "[PAM_VERSION_1, RESERVED_BYTE]" w]) (use rd inv(2) in simp_all)
  have w: "buffer_window b = [PAM_VERSION_1, RESERVED_BYTE]" using b(3) bw by simp
  obtain b1 where b1: "buffer_read b = Some (PAM_VERSION_1, b1)" "buffer_inv b1" "buffer_window b1 = [RESERVED_BYTE]"
    by (rule read_next[OF b(2) w])
  obtain b2 where b2: "buffer_read b1 = Some (RESERVED_BYTE, b2)" "buffer_inv b2" "buffer_window b2 = []"
    by (rule read_next[OF b1(2,3)])
  have "b_write b2 = b_read b2" using length_window[OF b2(2)] b2(2,3) by (simp add: buffer_inv_def)
  then have "buffer_read_adv b2 2 = None" by (simp add: buffer_read_adv_def c_assert_def)
  then have "pam_method os key (c\<lparr>pm_buffer := b2, pm_request := (pm_request c)\<lparr>pr_state := Some METHOD\<rparr>\<rparr>, e\<lparr>e_world := w\<rparr>) = None
      \<or> buffer_room b2 < 2"
    using write_ptr_eq[OF b2(2)] by (auto simp: pam_method_def Let_def split: Option.bind_split)
  moreover have "2 \<le> buffer_room b2"
    using buffer_read_spec[OF b(2)] buffer_read_spec[OF b1(2)] b(4) b1(1) b2(1) by auto
  ultimately show ?thesis
    using b(1,4) st b1(1) b2(1) write_ptr_eq[OF b(2)] by (simp add: pam_request_read_def pam_version_def Let_def)
qed

definition method_ready :: "'w os \<Rightarrow> byte list \<Rightarrow> pam \<Rightarrow> buffer \<Rightarrow> pam \<Rightarrow> bool" where
  "method_ready os body c lb c' \<longleftrightarrow> buffer_inv lb \<and> buffer_window lb = body \<and> pam_ok c' \<and> pm_auth c' = pm_auth c
     \<and> pm_client_fd c' = pm_client_fd c \<and> pr_status (pm_request c') = pr_status (pm_request c)
     \<and> pr_write_nbody (pm_request c') = pr_write_nbody (pm_request c)
     \<and> pr_write_body (pm_request c') = pr_write_body (pm_request c)"

lemma pam_body_spec:
  assumes g: "pam_good os (c, e)" and st: "pr_state (pm_request c) = Some READ_BODY"
    and w: "buffer_window (pm_buffer c) = body @ rest" "length body = unat (pr_read_nbody (pm_request c))"
      "length body \<le> buffer_room (pm_buffer c)" "length body < PAM_REQUEST_BODY_MAX_LENGTH"
  shows "\<exists>lb c'. method_ready os body c lb c' \<and> pr_method (pm_request c') = pr_method (pm_request c)
    \<and> pam_body os key (c, e) = do { s \<leftarrow> handle_pam_request_method os lb (c', e); pam_answer key s }"
proof -
  let ?r = "pm_request c" and ?n = "unat (pr_read_nbody (pm_request c))"
  note c = goodP[OF g]
  have inv: "buffer_inv (pm_buffer c)" using pam_okD[OF c(1)] by simp
  have n: "?n \<le> length (buffer_window (pm_buffer c))" "?n < length (pr_read_body ?r)" using w c(1) by (simp_all add: pam_ok_def)
  have tk: "take ?n (buffer_window (pm_buffer c)) = body" using w by simp
  let ?y = "body @ 0 # drop (Suc ?n) (pr_read_body ?r)"
  obtain x b where r: "read_into ?n (pr_read_body ?r) (pm_buffer c) = Some (x, b)"
      "c_set x ?n 0 = Some ?y" "buffer_inv b" "b_limit b = b_limit (pm_buffer c)"
    by (rule field_avail[OF inv n, unfolded tk])
  have y: "length ?y = PAM_REQUEST_BODY_MAX_LENGTH" using w(2) n(2) c(1) by (simp add: pam_ok_def)
  let ?lb = "(buffer_init PAM_BUFFER_SIZE ?y)\<lparr>b_write := ?n\<rparr>"
  have adv: "buffer_write_adv (buffer_init PAM_BUFFER_SIZE ?y) (int k) = Some ((buffer_init PAM_BUFFER_SIZE ?y)\<lparr>b_write := k\<rparr>)"
    if "k < PAM_BUFFER_SIZE" for k
    using that by (simp add: buffer_write_adv_def buffer_init_def Let_def)
  have lb: "buffer_write_adv (buffer_init PAM_BUFFER_SIZE ?y) (int ?n) = Some ?lb"
    by (rule adv) (use w(2,4) in simp)
  have lbi: "buffer_inv ?lb" "buffer_window ?lb = body"
    using w(2,4) y by (auto simp: buffer_inv_def buffer_init_def buffer_window_def)
  let ?c = "c\<lparr>pm_buffer := b, pm_request := ?r\<lparr>pr_read_body := ?y\<rparr>\<rparr>"
  have "pam_body os key (c, e) = do { s \<leftarrow> handle_pam_request_method os ?lb (?c, e); pam_answer key s }"
    using st w r(1,2) lb write_ptr_eq[OF inv] by (simp add: pam_body_def Let_def)
  moreover have "method_ready os body c ?lb ?c"
    using lbi r(3,4) y c(1) by (simp add: method_ready_def pam_ok_def)
  ultimately show ?thesis by (intro exI[of _ ?lb] exI[of _ ?c]) simp
qed

lemma pam_request_spec:
  assumes g: "pam_good os (c, e)" and st: "pr_state (pm_request c) = Some VER_N_RESERVED" "pr_reserved (pm_request c) = RESERVED_BYTE"
    and bw: "buffer_window (pm_buffer c) = []"
    and rd: "os_recv os (k_fd key) PAM_BUFFER_SIZE (e_world e)
        = (SysOk (PAM_VERSION_1 # RESERVED_BYTE # m1 # m2 # n1 # n2 # body @ rest), w)"
    and n: "length body = unat (be16 n1 n2)" "6 + 2 * length body + length rest \<le> PAM_BUFFER_SIZE" "length body + length rest \<le> 65528"
  shows "\<exists>lb c'. method_ready os body c lb c' \<and> pr_method (pm_request c') = be16 m1 m2
    \<and> pam_request_read os key (c, e) = do { s \<leftarrow> handle_pam_request_method os lb (c', e\<lparr>e_world := w\<rparr>); pam_answer key s }"
proof -
  let ?msg = "PAM_VERSION_1 # RESERVED_BYTE # m1 # m2 # n1 # n2 # body @ rest"
  note c = goodP[OF g]
  have inv: "buffer_inv (pm_buffer c)" "buffer_room (pm_buffer c) = PAM_BUFFER_SIZE"
    using pam_okD[OF c(1)] room_of_empty bw by simp_all
  obtain b where b: "pam_recv os key (c, e) = Some (None, c\<lparr>pm_buffer := b\<rparr>, e\<lparr>e_world := w\<rparr>)" "buffer_inv b"
      "buffer_window b = buffer_window (pm_buffer c) @ ?msg" "b_limit b = b_limit (pm_buffer c)"
      "buffer_room b = buffer_room (pm_buffer c) - length ?msg"
    by (rule recv_message[OF c(3) inv(1), of key e ?msg w]) (use rd inv(2) in simp_all)
  have room: "2 \<le> buffer_room b" "length body \<le> buffer_room b" using b(5) inv(2) n(2,3) by simp_all
  have bw: "buffer_window b = ?msg" "b_limit b = PAM_BUFFER_SIZE" using b(3,4) bw pam_okD[OF c(1)] by simp_all
  obtain b1 where b1: "buffer_read b = Some (PAM_VERSION_1, b1)" "buffer_inv b1"
      "buffer_window b1 = RESERVED_BYTE # m1 # m2 # n1 # n2 # body @ rest" "b_limit b1 = b_limit b" "buffer_room b \<le> buffer_room b1"
    by (rule read_next[OF b(2) bw(1)])
  obtain b2 where b2: "buffer_read b1 = Some (RESERVED_BYTE, b2)" "buffer_inv b2"
      "buffer_window b2 = m1 # m2 # n1 # n2 # body @ rest" "b_limit b2 = b_limit b1" "buffer_room b1 \<le> buffer_room b2"
    by (rule read_next[OF b1(2,3)])
  obtain b3 where b3: "read_u16 (b_data b2) (b_read b2) = Some (from_mem16 m1 m2)" "buffer_read_adv b2 2 = Some b3" "buffer_inv b3"
      "buffer_window b3 = n1 # n2 # body @ rest" "b_limit b3 = b_limit b2" "buffer_room b2 \<le> buffer_room b3"
    by (rule read_two[OF b2(2,3)])
  obtain b4 where b4: "read_u16 (b_data b3) (b_read b3) = Some (from_mem16 n1 n2)" "buffer_read_adv b3 2 = Some b4" "buffer_inv b4"
      "buffer_window b4 = body @ rest" "b_limit b4 = b_limit b3" "buffer_room b3 \<le> buffer_room b4"
    by (rule read_two[OF b3(3,4)])
  let ?e = "e\<lparr>e_world := w\<rparr>"
  let ?c2 = "c\<lparr>pm_buffer := b2, pm_request := (pm_request c)\<lparr>pr_state := Some METHOD\<rparr>\<rparr>"
  let ?c3 = "c\<lparr>pm_buffer := b3, pm_request := (pm_request c)\<lparr>pr_state := Some NBODY, pr_method := be16 m1 m2\<rparr>\<rparr>"
  let ?c4 = "c\<lparr>pm_buffer := b4, pm_request := (pm_request c)\<lparr>pr_method := be16 m1 m2, pr_state := Some READ_BODY,
      pr_read_nbody := be16 n1 n2\<rparr>\<rparr>"
  have v: "pam_version os key (c\<lparr>pm_buffer := b\<rparr>, ?e) = pam_method os key (?c2, ?e)"
    using st room b1(1) b2(1) write_ptr_eq[OF b(2)] by (simp add: pam_version_def Let_def)
  have m: "pam_method os key (?c2, ?e) = pam_nbody os key (?c3, ?e)"
    using room b1(5) b2(5) b3(1,2) write_ptr_eq[OF b2(2)] read_ptr_eq[OF b2(2)]
    by (simp add: pam_method_def Let_def be16_def)
  have nb: "pam_nbody os key (?c3, ?e) = pam_body os key (?c4, ?e)"
    using room b1(5) b2(5) b3(6) b4(1,2) write_ptr_eq[OF b3(3)] read_ptr_eq[OF b3(3)]
    by (simp add: pam_nbody_def Let_def be16_def)
  have "pam_good os (?c4, ?e)" using b4(3,5) b3(5) b2(4) b1(4) bw(2) c by (simp add: pam_good_def pam_ok_def)
  from pam_body_spec[OF this, of body rest key] n room b1(5) b2(5) b3(6) b4(4,6)
  obtain lb c' where f: "method_ready os body ?c4 lb c'" "pr_method (pm_request c') = be16 m1 m2"
    "pam_body os key (?c4, ?e) = do { s \<leftarrow> handle_pam_request_method os lb (c', ?e); pam_answer key s }" by auto
  have "method_ready os body c lb c'" using f(1) by (simp add: method_ready_def)
  then show ?thesis using f(2,3) b(1) v m nb
    by (intro exI[of _ lb] exI[of _ c']) (simp add: pam_request_read_def)
qed


section \<open>The methods\<close>

lemma read_field_spec:
  assumes os: "os_ok os" and b: "buffer_inv b" "buffer_window b = n # u @ rest" "length u = unat n" "length u < 255"
  obtains t b' where "read_field os w b = Some (u @ 0 # t, b')" "buffer_inv b'" "buffer_window b' = rest"
proof -
  obtain b1 where b1: "buffer_read b = Some (n, b1)" "buffer_inv b1" "buffer_window b1 = u @ rest"
    by (rule read_next[OF b(1,2)])
  have f: "unat n \<le> length (buffer_window b1)" "unat n < length (os_uninit os 255 w)"
    using b(3,4) b1(3) os_uninitD[OF os] by simp_all
  have tk: "take (unat n) (buffer_window b1) = u" "drop (unat n) (buffer_window b1) = rest" using b(3) b1(3) by simp_all
  obtain x b2 where r: "read_into (unat n) (os_uninit os 255 w) b1 = Some (x, b2)"
      "c_set x (unat n) 0 = Some (u @ 0 # drop (Suc (unat n)) (os_uninit os 255 w))" "buffer_inv b2" "buffer_window b2 = rest"
    by (rule field_avail[OF b1(2) f, unfolded tk])
  show thesis by (rule that) (use b1(1) r in \<open>simp_all add: read_field_def\<close>)
qed

lemma cstr_length_le: "length (cstr a) \<le> length a"
  unfolding cstr_def by (rule length_takeWhile_le)

definition is_admin :: "users_db \<Rightarrow> byte list \<Rightarrow> bool" where
  "is_admin db name \<longleftrightarrow> (\<exists>p. users_map db (cstr name) = Some (p, USER_PRIVILEGE_ADMIN))"

lemma admin_checked:
  assumes "users_ok db" "terminated name"
  obtains db' where "user_is_admin db name = Some (is_admin db name, db')" "same_users db db'"
proof -
  have "(case users_map db (cstr name) of None \<Rightarrow> False | Some (p, pl) \<Rightarrow> pl = USER_PRIVILEGE_ADMIN) = is_admin db name"
    by (auto simp: is_admin_def split: option.splits)
  then show thesis using user_is_admin_spec[OF assms] that by metis
qed

lemma handle_add_spec:
  assumes g: "pam_good os (c, e)" and b: "buffer_inv b" "buffer_window b = nu # u @ np # p @ role # rest"
      "length u = unat nu" "length p = unat np" "length u < 255" "length p < 255"
    and ad: "terminated (pa_username (pm_auth c))" "is_admin (e_users e) (pa_username (pm_auth c))"
    and m: "os_malloc os (e_world e) = (True, w1)" "os_malloc os w1 = (True, w2)"
    and fresh: "users_map (e_users e) (cstr u) = None"
  shows "\<exists>db. handle_add_user os b (c, e) = Some (set_status PAM_REQUEST_SUCCESS (set_status PAM_REQUEST_SUCCESS c),
      e\<lparr>e_users := db, e_world := w2\<rparr>)
    \<and> users_ok db \<and> users_map db = (users_map (e_users e))(cstr u \<mapsto> (cstr p, unat role))"
proof -
  note c = goodP[OF g]
  obtain t b1 where f1: "read_field os (e_world e) b = Some (u @ 0 # t, b1)" "buffer_inv b1" "buffer_window b1 = np # p @ role # rest"
    by (rule read_field_spec[OF c(3) b(1,2,3,5)])
  obtain t' b2 where f2: "read_field os (e_world e) b1 = Some (p @ 0 # t', b2)" "buffer_inv b2" "buffer_window b2 = role # rest"
    by (rule read_field_spec[OF c(3) f1(2,3) b(4,6)])
  obtain b3 where f3: "buffer_read b2 = Some (role, b3)" by (rule read_next[OF f2(2,3)])
  obtain db where db: "user_is_admin (e_users e) (pa_username (pm_auth c)) = Some (True, db)" "same_users (e_users e) db"
    using admin_checked[OF c(4) ad(1)] ad(2) by metis
  have same: "users_ok db" "users_map db = users_map (e_users e)" using same_usersD[OF db(2)] by simp_all
  have junk: "junk_ok (local_user os w2)" using os_uninitD[OF c(3)] by (simp add: junk_ok_def local_user_def Let_def)
  have ok: "create_status db (u @ 0 # t) (p @ 0 # t') = USER_OK"
    using fresh same b(5,6) cstr_length_le[of u] cstr_length_le[of p] by (simp add: create_status_def cstr_field)
  from user_create_spec[OF same(1) terminated_field terminated_field junk, of u t p t' "unat role"] ok obtain db2 where
    "user_create True True (local_user os w2) db (u @ 0 # t) (p @ 0 # t') (unat role) = Some (USER_OK, db2)" "users_ok db2"
    "users_map db2 = (users_map db)(cstr u \<mapsto> (cstr p, unat role))" by (auto simp: cstr_field)
  then show ?thesis using f1(1) f2(1) f3 db(1) m same(2)
    by (intro exI[of _ db2]) (simp add: handle_add_user_def Let_def create_code_def)
qed

lemma handle_refused:
  assumes g: "pam_good os (c, e)" and m: "pr_method (pm_request c) \<in> {2, 3, 4, 5}"
    and ad: "terminated (pa_username (pm_auth c))" "\<not> is_admin (e_users e) (pa_username (pm_auth c))"
    and run: "handle_pam_request_method os b (c, e) = Some (c', e')"
  shows "c' = set_status PAM_REQUEST_UNAUTHORIZED (set_status PAM_REQUEST_SUCCESS c) \<and> same_users (e_users e) (e_users e')"
proof -
  note c = goodP[OF g]
  have no: "\<exists>db'. user_is_admin db (pa_username (pm_auth c)) = Some (False, db') \<and> same_users (e_users e) db'"
    if "same_users (e_users e) db" for db
  proof -
    have d: "users_ok db" "users_map db = users_map (e_users e)" using same_usersD[OF that] by simp_all
    obtain db2 where "user_is_admin db (pa_username (pm_auth c)) = Some (is_admin db (pa_username (pm_auth c)), db2)"
        "same_users db db2" by (rule admin_checked[OF d(1) ad(1)])
    then show ?thesis using that ad(2) d(2) by (simp add: is_admin_def same_users_def)
  qed
  obtain db0 where db0: "user_is_admin (e_users e) (pa_username (pm_auth c)) = Some (False, db0)" "same_users (e_users e) db0"
    using no[of "e_users e"] c(4) by (auto simp: same_users_def)
  show ?thesis
  proof (cases "pr_method (pm_request c) = 3")
    case False
    then show ?thesis using run m db0
      by (auto simp: handle_pam_request_method_def handle_add_user_def handle_change_password_def
          handle_change_role_def Let_def elim!: bind_SomeE)
  next
    case True
    then have r: "handle_remove_user os b (c, e) = Some (c', e')" using run by (simp add: handle_pam_request_method_def)
    then obtain un b1 ur db1 where f: "read_field os (e_world e) b = Some (un, b1)" "user_get_if_exists (e_users e) un = Some (ur, db1)"
      by (auto simp: handle_remove_user_def Let_def elim!: bind_SomeE)
    obtain db2 where "user_is_admin db1 (pa_username (pm_auth c)) = Some (False, db2)" "same_users (e_users e) db2"
      using no[OF user_get_frame[OF c(4) f(2)]] by blast
    then show ?thesis using r f by (auto simp: handle_remove_user_def Let_def)
  qed
qed


text \<open>The only administrator asks for a name that is not there: \<open>userToRemove\<close> is \<open>NULL\<close>.\<close>

lemma handle_remove_absent:
  assumes g: "pam_good os (c, e)" and b: "buffer_inv b" "buffer_window b = n # u @ rest" "length u = unat n" "length u < 255"
    and ad: "terminated (pa_username (pm_auth c))" "is_admin (e_users e) (pa_username (pm_auth c))"
    and one: "totalAdmins (e_users e) = 1" and absent: "users_map (e_users e) (cstr u) = None"
  shows "handle_remove_user os b (c, e) = None"
proof -
  note c = goodP[OF g]
  obtain t b1 where f1: "read_field os (e_world e) b = Some (u @ 0 # t, b1)"
    by (rule read_field_spec[OF c(3) b])
  obtain db where db: "user_get_if_exists (e_users e) (u @ 0 # t) = Some (None, db)" "same_users (e_users e) db"
    by (cases rule: user_get_cases[OF c(4) terminated_field[of u t]]) (use absent in \<open>simp_all add: cstr_field\<close>)
  have same: "users_ok db" "users_map db = users_map (e_users e)" using same_usersD[OF db(2)] by simp_all
  obtain db2 where db2: "user_is_admin db (pa_username (pm_auth c)) = Some (is_admin db (pa_username (pm_auth c)), db2)"
      "same_users db db2" by (rule admin_checked[OF same(1) ad(1)])
  have "is_admin db (pa_username (pm_auth c))" using ad(2) same(2) by (simp add: is_admin_def)
  moreover have "totalAdmins db2 = 1" using db(2) db2(2) one by (simp add: same_users_def)
  ultimately show ?thesis using f1 db(1) db2(1) by (simp add: handle_remove_user_def Let_def user_total_admins_def)
qed

text \<open>The four methods with arguments leave the length and the body of the answer as they were.\<close>

lemma set_status_rest:
  "pr_write_nbody (pm_request (set_status x c)) = pr_write_nbody (pm_request c)"
  "pr_write_body (pm_request (set_status x c)) = pr_write_body (pm_request c)"
  "pr_status (pm_request (set_status x c)) = x"
  by (simp_all add: set_status_def)

lemma stale_answer:
  assumes "handle_pam_request_method os b (c, e) = Some (c', e')" "pr_method (pm_request c) \<in> {2, 3, 4, 5}"
  shows "pr_write_nbody (pm_request c') = pr_write_nbody (pm_request c) \<and> pr_write_body (pm_request c') = pr_write_body (pm_request c)"
  using assms
  by (auto simp: handle_pam_request_method_def handle_add_user_def handle_remove_user_def
      handle_change_password_def handle_change_role_def Let_def set_status_rest
      elim!: bind_SomeE split: if_splits user_status.splits prod.splits)


section \<open>A whole exchange\<close>

text \<open>Once the answer is out, the machine goes to \<open>PAM_REQUEST\<close> whatever the answer was.\<close>

lemma pam_auth_sent:
  assumes g: "pam_good os (c, e)"
    and wr: "os_send os (pm_client_fd c) (buffer_window (pm_buffer c)) (e_world e) = (SysOk (length (buffer_window (pm_buffer c))), w)"
  shows "\<exists>b. pam_auth_write os key (c, e) = Some (PAM_REQUEST, c\<lparr>pm_buffer := b\<rparr>, poke (k_fd key) OP_READ (e\<lparr>e_world := w\<rparr>))
    \<and> buffer_inv b \<and> buffer_window b = [] \<and> b_limit b = b_limit (pm_buffer c)"
proof -
  note c = goodP[OF g]
  have reg: "registry_ok (e\<lparr>e_world := w\<rparr>)" using env_ok_registry[OF c(2)] by simp
  obtain st where si: "selector_set_interest_key key OP_READ (e\<lparr>e_world := w\<rparr>) = Some (st, poke (k_fd key) OP_READ (e\<lparr>e_world := w\<rparr>))"
    by (rule set_interest_key_poke[OF reg])
  show ?thesis using c(3) pam_okD(1)[OF c(1)]
  proof (cases rule: send_cases[where fd = "pm_client_fd c" and w = "e_world e"])
    case (err x w')
    then show ?thesis using wr by simp
  next
    case (sent k w' b)
    then show ?thesis using wr si buffer_inv_reset[of b]
      by (auto simp: pam_auth_write_def Let_def can_read_iff)
  qed
qed

lemma pam_answer_total:
  assumes g: "pam_good os (c, e)"
  shows "\<exists>b. pam_answer key (c, e) = Some (PAM_REQUEST, c\<lparr>pm_buffer := b\<rparr>, poke (k_fd key) OP_WRITE e)"
proof -
  note c = goodP[OF g]
  have total: "\<exists>b'. buffer_write_all bs b = Some b'" if "buffer_inv b" for bs b
    using that
  proof (induction bs arbitrary: b)
    case (Cons x bs)
    obtain b1 where "buffer_write b x = Some b1" "buffer_inv b1" using buffer_write_spec[OF Cons.prems] by blast
    then show ?case using Cons.IH by simp
  qed simp
  let ?r = "pm_request c"
  let ?m = "mem16 (htons (pr_write_nbody ?r))" and ?t = "take (unat (pr_write_nbody ?r)) (pr_write_body ?r)"
  obtain b where b: "buffer_write_all ([PAM_VERSION_1, pr_status ?r, ?m ! 0, ?m ! 1] @ ?t) (buffer_reset (pm_buffer c)) = Some b"
    using total[OF buffer_inv_reset[OF pam_okD(1)[OF c(1)]]] by blast
  obtain st where s: "selector_set_interest_key key OP_WRITE e = Some (st, poke (k_fd key) OP_WRITE e)"
    by (rule set_interest_key_poke[OF env_ok_registry[OF c(2)]])
  have "unat (pr_write_nbody ?r) < 2 ^ 16" using unsigned_less[of "pr_write_nbody ?r"] by simp
  then have bd: "unat (pr_write_nbody ?r) \<le> length (pr_write_body ?r)" using c(1) by (simp add: pam_ok_def)
  show ?thesis using b s bd by (intro exI[of _ b]) (auto simp: pam_answer_def Let_def elim!: bind_SomeE)
qed

abbreviation (input) pam_machine_at :: "nat option \<Rightarrow> state_machine" where
  "pam_machine_at q \<equiv> \<lparr>initial = PAM_AUTH, max_state = PAM_ERROR, current = q\<rparr>"

lemma pam_run_append:
  "pam_run os (evs @ evs') m s = do { (m, s) \<leftarrow> pam_run os evs m s; pam_run os evs' m s }"
  by (induction os evs m s rule: pam_run.induct) (auto split: Option.bind_split)

lemma login_run:
  assumes g: "pam_good os (c, e)" and bw: "buffer_window (pm_buffer c) = []"
    and r1: "os_recv os (k_fd key) PAM_BUFFER_SIZE (e_world e) = (SysOk (PAM_VERSION_1 # nu # np # u @ p), w1)"
    and n: "nu \<noteq> 0" "np \<noteq> 0" "length u = unat nu" "length p = unat np" "length u < 255" "length p < 255"
    and s1: "os_send os (pm_client_fd c) [PAM_VERSION_1, login_status (e_users e) (u @ [0]) p] w1 = (SysOk 2, w2)"
  shows "\<exists>c' e'. pam_run os [(Ev_read, key), (Ev_write, key)] (pam_machine_at None) (c, e) = Some (pam_machine_at (Some PAM_REQUEST), c', e')
    \<and> pam_good os (c', e') \<and> buffer_window (pm_buffer c') = [] \<and> pr_state (pm_request c') = Some VER_N_RESERVED
    \<and> pr_reserved (pm_request c') = RESERVED_BYTE \<and> cstr (pa_username (pm_auth c')) = cstr u
    \<and> terminated (pa_username (pm_auth c')) \<and> same_users (e_users e) (e_users e') \<and> e_world e' = w2"
proof -
  let ?c0 = "c\<lparr>pm_auth := (pm_auth c)\<lparr>pa_state := Some VER_N_NUSER_N_NPASS\<rparr>\<rparr>"
  have a0: "pam_auth_arrival PAM_AUTH key (c, e) = Some (?c0, e)" by (simp add: pam_auth_arrival_def)
  have g0: "pam_good os (?c0, e)" using g by (simp add: pam_good_def pam_ok_def)
  obtain c1 e1 where 1: "pam_auth_read os key (?c0, e) = Some (PAM_AUTH, c1, e1)"
      "buffer_window (pm_buffer c1) = [PAM_VERSION_1, login_status (e_users e) (u @ [0]) p]"
      "cstr (pa_username (pm_auth c1)) = cstr u" "terminated (pa_username (pm_auth c1))" "pm_client_fd c1 = pm_client_fd c"
      "same_users (e_users e) (e_users e1)" "e_world e1 = w1"
    using pam_login_spec[OF g0, of key nu np u p "[]" w1] bw r1 n by auto
  have g1: "pam_good os (c1, e1)" using pam_auth_read_keeps[OF 1(1) g0] by simp
  have wr: "os_send os (pm_client_fd c1) (buffer_window (pm_buffer c1)) (e_world e1) = (SysOk (length (buffer_window (pm_buffer c1))), w2)"
    using s1 1(2,5,7) by (simp add: numeral_2_eq_2)
  let ?e2 = "poke (k_fd key) OP_READ (e1\<lparr>e_world := w2\<rparr>)"
  obtain b2 where 2: "pam_auth_write os key (c1, e1) = Some (PAM_REQUEST, c1\<lparr>pm_buffer := b2\<rparr>, ?e2)"
      "buffer_window b2 = []" using pam_auth_sent[OF g1 wr] by blast
  let ?c2 = "c1\<lparr>pm_buffer := b2, pm_request := (pm_request c1)\<lparr>pr_state := Some VER_N_RESERVED, pr_reserved := RESERVED_BYTE\<rparr>\<rparr>"
  have a2: "pam_request_arrival PAM_REQUEST key (c1\<lparr>pm_buffer := b2\<rparr>, ?e2) = Some (?c2, ?e2)"
    by (simp add: pam_request_arrival_def)
  have "pam_good os (c1\<lparr>pm_buffer := b2\<rparr>, ?e2)" using pam_auth_write_keeps[OF 2(1) g1] by simp
  then have "pam_good os (?c2, ?e2)" by (simp add: pam_good_def pam_ok_def)
  then show ?thesis
    using pam_first_read[OF a0 1(1)] pam_auth_done[OF 2(1) a2] 1(3,4,6) 2(2)
    by (intro exI[of _ ?c2] exI[of _ ?e2]) simp
qed

lemma add_request_run:
  assumes g: "pam_good os (c, e)" and bw: "buffer_window (pm_buffer c) = []"
    and st: "pr_state (pm_request c) = Some VER_N_RESERVED" "pr_reserved (pm_request c) = RESERVED_BYTE"
    and r2: "os_recv os (k_fd key) PAM_BUFFER_SIZE (e_world e)
        = (SysOk (PAM_VERSION_1 # RESERVED_BYTE # 0 # 2 # n1 # n2 # nv # v @ nx # x @ [role]), w3)"
    and b: "length v = unat nv" "length x = unat nx" "length v < 255" "length x < 255"
      "unat (be16 n1 n2) = 3 + length v + length x"
    and m: "os_malloc os w3 = (True, w4)" "os_malloc os w4 = (True, w5)"
    and ad: "terminated (pa_username (pm_auth c))" "is_admin (e_users e) (pa_username (pm_auth c))"
    and fresh: "users_map (e_users e) (cstr v) = None"
  shows "\<exists>c' e'. pam_run os [(Ev_read, key)] (pam_machine_at (Some PAM_REQUEST)) (c, e) = Some (pam_machine_at (Some PAM_REQUEST), c', e')
    \<and> users_map (e_users e') = (users_map (e_users e))(cstr v \<mapsto> (cstr x, unat role))"
proof -
  let ?body = "nv # v @ nx # x @ [role]"
  have len: "length ?body = unat (be16 n1 n2)" using b(5) by simp
  have fits: "6 + 2 * length ?body + length [] \<le> PAM_BUFFER_SIZE" "length ?body + length [] \<le> 65528" using b(3,4) by simp_all
  obtain lb c3 where 3: "method_ready os ?body c lb c3" "pr_method (pm_request c3) = be16 0 2"
      "pam_request_read os key (c, e) = do { s \<leftarrow> handle_pam_request_method os lb (c3, e\<lparr>e_world := w3\<rparr>); pam_answer key s }"
    using pam_request_spec[OF g st bw, of key 0 2 n1 n2 ?body "[]" w3] r2 len fits by auto
  let ?e3 = "e\<lparr>e_world := w3\<rparr>"
  have add: "pr_method (pm_request c3) = 2" using 3(2) by (simp add: be16_def ntohs_from_mem16)
  have g3: "pam_good os (c3, ?e3)" using g 3(1) by (simp add: pam_good_def method_ready_def)
  have lb: "buffer_inv lb" "buffer_window lb = nv # v @ nx # x @ role # []" "pm_auth c3 = pm_auth c"
    using 3(1) by (simp_all add: method_ready_def)
  obtain db where h: "handle_add_user os lb (c3, ?e3) = Some (set_status PAM_REQUEST_SUCCESS (set_status PAM_REQUEST_SUCCESS c3),
      ?e3\<lparr>e_users := db, e_world := w5\<rparr>)" "users_map db = (users_map (e_users ?e3))(cstr v \<mapsto> (cstr x, unat role))"
    using handle_add_spec[OF g3 lb(1,2) b(1-4), of w4 w5] lb(3) ad m fresh by auto
  let ?c4 = "set_status PAM_REQUEST_SUCCESS (set_status PAM_REQUEST_SUCCESS c3)" and ?e4 = "?e3\<lparr>e_users := db, e_world := w5\<rparr>"
  have "pam_good os (?c4, ?e4)" using handle_add_keeps[OF h(1) g3 lb(1)] by (simp add: kept_def)
  from pam_answer_total[OF this] obtain b5 where "pam_answer key (?c4, ?e4)
      = Some (PAM_REQUEST, ?c4\<lparr>pm_buffer := b5\<rparr>, poke (k_fd key) OP_WRITE ?e4)" by blast
  then have rd: "pam_request_read os key (c, e) = Some (PAM_REQUEST, ?c4\<lparr>pm_buffer := b5\<rparr>, poke (k_fd key) OP_WRITE ?e4)"
    using 3(3) h(1) add by (simp add: handle_pam_request_method_def)
  have "pam_step os Ev_read key (pam_machine_at (Some PAM_REQUEST)) (c, e)
      = Some (PAM_REQUEST, pam_machine_at (Some PAM_REQUEST), ?c4\<lparr>pm_buffer := b5\<rparr>, poke (k_fd key) OP_WRITE ?e4)"
    by (rule pam_stays(1)[where h = "pam_request_read os"]) (use rd in \<open>simp_all add: pam_states_read\<close>)
  then show ?thesis using h(2) by simp
qed


section \<open>Accepting and closing\<close>

lemma pam_server_ext [simp]:
  "sel_entry (s\<lparr>pm_conns := h\<rparr>) fd = sel_entry s fd" "sel_entry (s\<lparr>pm_next := n\<rparr>) fd = sel_entry s fd"
  "sel_inv (s\<lparr>pm_conns := h\<rparr>) = sel_inv s" "sel_inv (s\<lparr>pm_next := n\<rparr>) = sel_inv s"
  "sel_full (s\<lparr>pm_conns := h\<rparr>) = sel_full s" "sel_full (s\<lparr>pm_next := n\<rparr>) = sel_full s"
  by (simp_all add: sel_inv_def sel_full_def items_ok_def max_ok_def wants_def sel_entry_def)

lemma pam_env_ext [simp]:
  "env_ok (s\<lparr>pm_conns := h\<rparr>) = env_ok s" "env_ok (s\<lparr>pm_next := n\<rparr>) = env_ok s"
  by (simp_all add: env_ok_def)

lemma pam_new_spec:
  assumes os: "os_ok os" and m: "os_malloc os w = (True, w1)"
  shows "\<exists>c. pam_new os fd w = Some (Some c, w1) \<and> pm_client_fd c = fd \<and> pam_ok c \<and> buffer_window (pm_buffer c) = []
    \<and> pm_stm c = pam_machine_at None"
proof -
  have "length (os_uninit os (3 * PAM_BUFFER_SIZE + 521) w1) = 3 * PAM_BUFFER_SIZE + 521" using os_uninitD[OF os] .
  moreover have "stm_init (pamStates os :: (key, ('a, unit) pstate) state_definition list)
      \<lparr>initial = PAM_AUTH, max_state = PAM_ERROR, current = None\<rparr> = Some (pam_machine_at None)"
    by (simp add: stm_init_spec pam_states_numbered less_Suc_eq_le)
  ultimately show ?thesis
    using m by (simp add: pam_new_def Let_def pam_ok_def)
qed

text \<open>The connection is freed, its descriptor unregistered and closed once.\<close>

lemma pam_done_spec:
  assumes s: "registry_ok s" and key: "k_data key = Some a" "pm_conns s a = Some c"
    and it: "sel_entry s (pm_client_fd c) = Some it" "it_handler it = Some PAM_HANDLER" "it_data it = Some a"
  shows "\<exists>s'. pam_done os oth key s = Some (key, s') \<and> pm_conns s' = (pm_conns s)(a := None)
    \<and> sel_entry s' = (sel_entry s)(pm_client_fd c := None) \<and> registry_ok s'
    \<and> e_world s' = os_close os (pm_client_fd c) (e_world s) \<and> e_users s' = e_users s"
proof -
  let ?fd = "pm_client_fd c"
  let ?s1 = "s\<lparr>pm_conns := (pm_conns s)(a := None)\<rparr>"
  have v: "\<not> INVALID_FD ?fd" "it_fd it = ?fd" "nat ?fd < fd_size s" using entry_valid[OF _ it(1)] s by auto
  have "selector_unregister_fd (pam_closing oth) ?fd s = drop_item ?fd ?s1"
    using v sel_entry_item[OF it(1)] it key
    by (simp add: selector_unregister_fd_def pam_closing_def pam_close_def pam_destroy_def put_pam_def)
  moreover have s1: "sel_inv ?s1" "sel_entry ?s1 ?fd = Some it" using s it(1) by simp_all
  ultimately have "selector_unregister_fd (pam_closing oth) ?fd s = Some (SELECTOR_SUCCESS, without_item ?fd ?s1)"
    using drop_item_used[OF s1] by simp
  then have run: "pam_done os oth key s = Some (key, (without_item ?fd ?s1)\<lparr>e_world := os_close os ?fd (e_world (without_item ?fd ?s1))\<rparr>)"
    using key by (simp add: pam_done_def PAM_ATTACHMENT_def Let_def)
  have "pm_conns (without_item ?fd ?s1) = (pm_conns s)(a := None)" "e_world (without_item ?fd ?s1) = e_world s"
     "e_users (without_item ?fd ?s1) = e_users s"
    by (simp_all add: without_item_def Let_def)
  then show ?thesis using run s inv_without_item[OF s1] entry_without_item[OF s1(2)] by (simp add: fun_eq_iff)
qed

lemma pam_accept_spec:
  assumes os: "os_ok os" and s: "env_ok s" and acc: "accepted os key s fd addr w"
    and fd: "0 \<le> fd" "fd < int FD_SETSIZE" "sel_entry s fd = None"
  shows "\<exists>c s'. pam_passive_accept os key s = Some (key, s') \<and> pm_conns s' = (pm_conns s)(pm_next s := Some c)
    \<and> pm_client_fd c = fd \<and> pm_client_addr c = addr \<and> pam_machine.minv os (pm_stm c) (c, s') \<and> e_metrics s' = e_metrics s
    \<and> sel_entry s' = (sel_entry s)(fd \<mapsto> \<lparr>it_fd = fd, it_interest = OP_READ, it_handler = Some PAM_HANDLER,
         it_data = Some (pm_next s)\<rparr>)"
proof -
  obtain w1 w2 where a: "os_accept os (k_fd key) (e_world s) = (SysOk (fd, addr), w1)"
     "selector_fd_set_nio os fd w1 = (0, w2)" "os_malloc os w2 = (True, w)"
    using acc by (auto simp: accepted_def)
  obtain c where c: "pam_new os fd w2 = Some (Some c, w)" "pm_client_fd c = fd" "pam_ok c" "pm_stm c = pam_machine_at None"
    using pam_new_spec[OF os a(3)] by blast
  let ?s1 = "s\<lparr>e_calls := e_calls s @ [Log_pam_accepted (addr_text os addr) (bnd_port addr)], e_world := w\<rparr>" and ?c = "c\<lparr>pm_client_addr := addr\<rparr>"
  let ?s2 = "with_item fd (Some PAM_HANDLER) OP_READ (Some (pm_next s)) ?s1"
  let ?s3 = "?s2\<lparr>pm_conns := (pm_conns s)(pm_next s := Some ?c), pm_next := pm_next s + 1\<rparr>"
  have s1: "registry_ok ?s1" "sel_entry ?s1 fd = None" using env_ok_registry[OF s] fd(3) by simp_all
  have nf: "\<not> INVALID_FD fd" using fd(1,2) by (simp add: INVALID_FD_def)
  then have sz: "nat fd < fd_size ?s1" using valid_in_full[of ?s1 fd] s1(1) by blast
  have reg: "selector_register m fd (Some PAM_HANDLER) OP_READ (Some (pm_next s)) ?s1 = Some (SELECTOR_SUCCESS, ?s2)" for m
    by (rule register_free[OF _ nf sz s1(2)]) (use s1(1) in simp_all)
  have inv: "sel_inv ?s2" by (rule inv_with_item[OF _ fd(1) _ sz]) (use s1(1) fd(2) in simp_all)
  have ent: "sel_entry ?s2 = (sel_entry s)(fd \<mapsto> \<lparr>it_fd = fd, it_interest = OP_READ, it_handler = Some PAM_HANDLER,
         it_data = Some (pm_next s)\<rparr>)"
    unfolding entry_with_item[OF fd(1) sz] by (simp add: fun_eq_iff)
  have flds: "pm_conns ?s2 = pm_conns s" "pm_next ?s2 = pm_next s" "e_metrics ?s2 = e_metrics s" "e_users ?s2 = e_users s" "sel_full ?s2"
    using s1(1) by (simp_all add: with_item_def sel_full_def)
  have env: "env_ok ?s3" using inv flds(4,5) s by (simp add: env_ok_def)
  have run: "pam_passive_accept os key s = Some (key, ?s3)"
    using a c(1) reg flds(1,2) by (simp add: pam_passive_accept_def Let_def)
  have "pam_good os (?c, ?s3)" using c(3) os env by (simp add: pam_good_def pam_ok_def)
  then have "pam_machine.minv os (pm_stm ?c) (?c, ?s3)" using c(4) by (simp add: pam_machine.minv_def)
  moreover have "sel_entry ?s3 = sel_entry ?s2" by (simp add: fun_eq_iff)
  ultimately show ?thesis using run c(2) ent flds(3) by (intro exI[of _ ?c] exI[of _ ?s3]) simp
qed

end
