(* ===== verification/PamListing.thy ===== *)
theory PamListing
  imports PamExchanges
begin

text \<open>
  The two methods that answer with a text, the user list and the metrics: the bytes of the answer.
\<close>

definition list_line :: "user \<Rightarrow> byte list" where
  "list_line u = (if u_privilege_level u = USER_PRIVILEGE_ADMIN then 64 else 35) # uname u @ [10]"

lemma store_at_append:
  assumes "i + length xs + length ys \<le> length d"
  shows "store_at (i + length xs) ys (store_at i xs d) = store_at i (xs @ ys) d"
  using assms by (cases xs) (auto simp: store_at_def min_def ac_simps)

lemma c_set_store: "i < length d \<Longrightarrow> c_set d i x = Some (store_at i [x] d)"
  by (simp add: c_set_def store_at_single)

lemma memcpy_store: "i + n \<le> length d \<Longrightarrow> n \<le> length src \<Longrightarrow> c_memcpy d i src n = Some (store_at i (take n src) d)"
  by (simp add: c_memcpy_def)

lemma take_cstr: "take (length (cstr a)) a = cstr a"
  unfolding cstr_def by (rule takeWhile_eq_take[symmetric])

lemma user_line_spec:
  assumes "user_ok u" "i + length (list_line u) \<le> length buf"
  shows "user_line buf i u = Some (store_at i (list_line u) buf, i + length (list_line u))"
proof -
  let ?m = "if u_privilege_level u = USER_PRIVILEGE_ADMIN then 64 else 35 :: byte" and ?n = "uname u"
  have t: "terminated (u_username u)" "length ?n < length (u_username u)"
    using user_okD[OF assms(1)] terminated_length by (auto simp: uname_def)
  have len: "i + 2 + length ?n \<le> length buf" using assms(2) by (simp add: list_line_def)
  have "store_at (i + 1) ?n (store_at i [?m] buf) = store_at i (?m # ?n) buf"
    using store_at_append[of i "[?m]" ?n buf] len by simp
  moreover have "store_at (i + 1 + length ?n) [10] (store_at i (?m # ?n) buf) = store_at i (list_line u) buf"
    using store_at_append[of i "?m # ?n" "[10]" buf] len by (simp add: list_line_def)
  ultimately show ?thesis
    using len t by (simp add: user_line_def c_set_store memcpy_store take_cstr uname_def list_line_def)
qed

lemma user_lines_spec:
  assumes "chain (l_heap l) p as None" "\<forall>a \<in> set as. user_ok (elem (l_heap l) a)"
    and "i + length (concat (map list_line (elems (l_heap l) as))) \<le> length buf"
  shows "\<exists>it. user_lines (Some (l\<lparr>l_iter := Some p\<rparr>)) buf i =
    Some (store_at i (concat (map list_line (elems (l_heap l) as))) buf,
      i + length (concat (map list_line (elems (l_heap l) as))), Some (l\<lparr>l_iter := it\<rparr>))"
  using assms
proof (induction as arbitrary: p i buf)
  case Nil
  then show ?case by (subst user_lines.simps) (auto simp: list_has_next_def store_at_def)
next
  case (Cons a as)
  then obtain nd where nd: "p = Some a" "deref (l_heap l) a = Some nd" "chain (l_heap l) (n_next nd) as None"
    by (auto split: option.splits)
  then have el: "n_data nd = elem (l_heap l) a" by (simp add: elem_def)
  let ?u = "elem (l_heap l) a" and ?r = "concat (map list_line (elems (l_heap l) as))"
  have fit: "i + length (list_line ?u) + length ?r \<le> length buf" using Cons.prems(3) by simp
  have ln: "user_line buf i ?u = Some (store_at i (list_line ?u) buf, i + length (list_line ?u))"
    by (rule user_line_spec) (use Cons.prems(2) fit in simp_all)
  have "i + length (list_line ?u) + length ?r \<le> length (store_at i (list_line ?u) buf)" using fit by simp
  moreover have "\<forall>a \<in> set as. user_ok (elem (l_heap l) a)" using Cons.prems(2) by simp
  ultimately obtain it where it: "user_lines (Some (l\<lparr>l_iter := Some (n_next nd)\<rparr>)) (store_at i (list_line ?u) buf) (i + length (list_line ?u))
      = Some (store_at (i + length (list_line ?u)) ?r (store_at i (list_line ?u) buf),
          i + length (list_line ?u) + length ?r, Some (l\<lparr>l_iter := it\<rparr>))" using Cons.IH[OF nd(3)] by blast
  have "user_lines (Some (l\<lparr>l_iter := Some p\<rparr>)) buf i = user_lines (Some (l\<lparr>l_iter := Some (n_next nd)\<rparr>))
      (store_at i (list_line ?u) buf) (i + length (list_line ?u))"
    using nd el ln by (subst user_lines.simps) (simp add: list_has_next_def list_get_next_def)
  then show ?case using it store_at_append[of i "list_line ?u" ?r buf] fit
    by (intro exI[of _ it]) (simp add: add.assoc)
qed

definition listing :: "users_db \<Rightarrow> byte list" where
  "listing db = listing_message @ concat (map list_line (users_elems db))"

text \<open>The text is followed by as many zero bytes as the message has, and no status is set.\<close>

lemma listing_text:
  assumes db: "users_ok db" and n: "length (listing db) < length z"
  shows "\<exists>db'. users_get_connected_users_list db (store_at 0 listing_message z) (length listing_message)
    = Some (length (listing db), (store_at 0 (listing db) z)[length (listing db) := 0], db')"
proof -
  let ?m = "listing_message" and ?t = "concat (map list_line (users_elems db))"
  obtain l as where l: "usersList db = Some l" "list_rep l as" "users_elems db = elems (l_heap l) as"
      "\<forall>a \<in> set as. user_ok (elem (l_heap l) a)"
    by (rule users_okD[OF db])
  have ch: "chain (l_heap l) (l_head l) as None" using l(2) by (simp add: list_rep_def)
  have fit: "length ?m + length ?t < length z" using n by (simp add: listing_def)
  then have bl: "length ?m + length (concat (map list_line (elems (l_heap l) as))) \<le> length (store_at 0 ?m z)"
    using l(3) by simp
  from user_lines_spec[OF ch l(4) bl] obtain it where
    ul: "user_lines (Some (l\<lparr>l_iter := Some (l_head l)\<rparr>)) (store_at 0 ?m z) (length ?m)
      = Some (store_at (length ?m) ?t (store_at 0 ?m z), length ?m + length ?t, Some (l\<lparr>l_iter := it\<rparr>))" using l(3) by auto
  have "store_at (length ?m) ?t (store_at 0 ?m z) = store_at 0 (listing db) z"
    using store_at_append[of 0 ?m ?t z] fit by (simp add: listing_def)
  then show ?thesis
    using ul l(1) fit by (simp add: users_get_connected_users_list_def list_begin_iter_def c_set_def listing_def)
qed

lemma u16_of_nat: "n < 65536 \<Longrightarrow> unat (word_of_nat n :: u16) = n"
  by (simp add: unat_of_nat)

lemma copied_zeros:
  assumes "length t + k < n" "0 < k"
  shows "take (k + length t) ((store_at 0 t (replicate n 0))[length t := 0]) = t @ replicate k (0::byte)"
proof -
  have "store_at 0 t (replicate n 0) = t @ replicate (n - length t) 0" using assms by (simp add: store_at_def)
  moreover have "(replicate (n - length t) (0::byte))[0 := 0] = replicate (n - length t) 0"
    by (cases "n - length t") simp_all
  ultimately have "(store_at 0 t (replicate n 0))[length t := 0] = t @ replicate (n - length t) (0::byte)"
    by (simp add: list_update_append)
  then show ?thesis using assms by (simp add: min_def)
qed

text \<open>The text is followed by as many zero bytes as the message has, and no status is set.\<close>

lemma listing_spec:
  assumes g: "pam_good os (c, e)" and n: "length (listing (e_users e)) + length listing_message < PAM_BUFFER_SIZE"
  shows "\<exists>c' e'. handle_get_connected_users_list (c, e) = Some (c', e') \<and> same_users (e_users e) (e_users e')
    \<and> pr_status (pm_request c') = pr_status (pm_request c)
    \<and> take (unat (pr_write_nbody (pm_request c'))) (pr_write_body (pm_request c'))
        = listing (e_users e) @ replicate (length listing_message) 0"
proof -
  let ?t = "listing (e_users e)"
  note c = goodP[OF g]
  define k where "k = length listing_message"
  have k: "0 < k" by (simp add: k_def listing_message_def)
  define z where "z = replicate PAM_BUFFER_SIZE (0::byte)"
  have z: "length ?t < length z" using n by (simp add: z_def)
  define b where "b = (store_at 0 ?t z)[length ?t := 0]"
  have lb: "length b = PAM_BUFFER_SIZE" using z by (simp add: b_def z_def)
  have tk: "take (k + length ?t) b = ?t @ replicate k 0"
    unfolding b_def z_def by (rule copied_zeros) (use n k in \<open>simp_all add: k_def\<close>)
  obtain db where ls: "users_get_connected_users_list (e_users e) (store_at 0 listing_message z) k = Some (length ?t, b, db)"
    using listing_text[OF c(4) z] by (auto simp: k_def b_def)
  have same: "same_users (e_users e) db" using list_users_frame[OF c(4) ls] .
  define wb where "wb = store_at 0 (?t @ replicate k 0) (pr_write_body (pm_request c))"
  have bd: "length (pr_write_body (pm_request c)) = PAM_BUFFER_SIZE" using c(1) by (simp add: pam_ok_def)
  have fit: "k + length ?t < PAM_BUFFER_SIZE" using n by (simp add: k_def)
  have mc: "c_memcpy (pr_write_body (pm_request c)) 0 b (k + length ?t) = Some wb"
    using memcpy_store[of 0 "k + length ?t" "pr_write_body (pm_request c)" b] fit bd lb tk by (simp add: wb_def)
  define nb :: u16 where "nb = word_of_nat (k + length ?t)"
  have un: "unat nb = k + length ?t" unfolding nb_def by (rule u16_of_nat[OF fit])
  have pos: "\<not> k + length ?t \<le> k" using k by (simp add: listing_def k_def)
  have run: "handle_get_connected_users_list (c, e)
      = Some (set_nbody nb (set_write_body wb c), e\<lparr>e_users := db\<rparr>)"
    unfolding handle_get_connected_users_list_def Let_def prod.case k_def[symmetric] z_def[symmetric] ls
    using mc pos by (simp add: nb_def)
  have "take (k + length ?t) wb = ?t @ replicate k 0" using fit bd by (simp add: wb_def store_at_def)
  then show ?thesis using run same
    by (intro exI conjI) (assumption, simp_all add: set_nbody_def set_write_body_def un k_def)
qed


section \<open>Metrics\<close>

lemma int_text_length: "length (int_text x) \<le> 11"
proof -
  let ?n = "sint (ucast x :: 32 word)"
  have "- (2 ^ 31) \<le> ?n \<and> ?n < 2 ^ 31" using sint_range_size[of "ucast x :: 32 word"] by (simp add: word_size)
  then have "nat ?n \<le> nat (2 ^ 31)" "nat (- ?n) \<le> nat (2 ^ 31)" by (intro nat_mono; linarith)+
  moreover have "nat (2 ^ 31) < 10 ^ 10" by simp
  ultimately have "nat ?n < 10 ^ 10" "nat (- ?n) < 10 ^ 10" by (blast intro: le_less_trans)+
  from this[THEN dec_digits_length] show ?thesis by (simp add: int_text_def Let_def)
qed

lemma metrics_text_length: "length (metrics_text m) \<le> 200"
  using int_text_length[of "currentConnections m"] int_text_length[of "totalConnections m"]
    int_text_length[of "totalBytesSent m"] int_text_length[of "totalBytesReceived m"]
  by (simp add: metrics_text_def ascii_def)

lemma int_text_sint: "sint (ucast x :: 32 word) = signed_take_bit 31 (uint x)"
  by (simp add: sint_uint unsigned_ucast_eq signed_take_bit_take_bit)

lemma int_text_small:
  assumes "unat x < 2 ^ 31"
  shows "int_text x = dec_digits (unat x)"
proof -
  have "int (unat x) < int (2 ^ 31)" using assms by (simp only: of_nat_less_iff)
  then have "uint x < 2 ^ 31" by simp
  then have "sint (ucast x :: 32 word) = uint x"
    unfolding int_text_sint by (intro signed_take_bit_int_eq_self) (simp_all add: order_trans[OF _ uint_ge_0])
  then show ?thesis unfolding int_text_def unat_eq_nat_uint Let_def by simp
qed

lemma int_text_reads_back: "unat x < 2 ^ 31 \<Longrightarrow> c_atoi (int_text x @ 0 # junk) = int (unat x)"
  by (simp add: int_text_small c_atoi_dec_digits)

text \<open>The four counters as text, all of it inside the answer.\<close>

lemma metrics_spec:
  assumes g: "pam_good os (c, e)"
  shows "\<exists>c'. handle_get_metrics (c, e) = Some (c', e) \<and> pr_status (pm_request c') = PAM_REQUEST_SUCCESS
    \<and> take (unat (pr_write_nbody (pm_request c'))) (pr_write_body (pm_request c')) = metrics_message @ metrics_text (e_metrics e)"
proof -
  let ?t = "metrics_text (e_metrics e)"
  note c = goodP[OF g]
  define k where "k = length metrics_message"
  have k: "k = 21" by (simp add: k_def metrics_message_def ascii_def)
  have bd: "length (pr_write_body (pm_request c)) = PAM_BUFFER_SIZE" using c(1) by (simp add: pam_ok_def)
  have lt: "length ?t \<le> 200" by (rule metrics_text_length)
  define w1 where "w1 = store_at 0 metrics_message (pr_write_body (pm_request c))"
  have 1: "c_memcpy (pr_write_body (pm_request c)) 0 metrics_message k = Some w1"
    using memcpy_store[of 0 k "pr_write_body (pm_request c)" metrics_message] bd k by (simp add: w1_def k_def[symmetric])
  have l1: "length w1 = PAM_BUFFER_SIZE" using bd k by (simp add: w1_def k_def[symmetric])
  have tk: "take (PAM_BUFFER_SIZE - k - 1) ?t = ?t" using lt k by simp
  define w2 where "w2 = store_at k (?t @ [0]) w1"
  have 2: "c_memcpy w1 k (?t @ [0]) (length (?t @ [0])) = Some w2"
    using memcpy_store[of k "length (?t @ [0])" w1 "?t @ [0]"] l1 lt k by (simp add: w2_def)
  define nb :: u16 where "nb = word_of_nat (k + length ?t)"
  have un: "unat nb = k + length ?t" unfolding nb_def by (rule u16_of_nat) (use lt k in simp)
  have run: "handle_get_metrics (c, e) = Some (set_nbody nb (set_status PAM_REQUEST_SUCCESS (set_write_body w2 c)), e)"
    unfolding handle_get_metrics_def Let_def prod.case get_metrics_snapshot_def k_def[symmetric] 1
    using 2 tk by (simp add: nb_def)
  have "w2 = store_at 0 (metrics_message @ ?t @ [0]) (pr_write_body (pm_request c))"
    unfolding w2_def w1_def k_def
    using store_at_append[of 0 metrics_message "?t @ [0]" "pr_write_body (pm_request c)"] bd lt k by (simp add: k_def)
  then have "take (k + length ?t) w2 = metrics_message @ ?t" by (simp add: store_at_def k_def)
  then show ?thesis using run un
    by (intro exI conjI) (assumption, simp_all add: set_nbody_def set_status_def set_write_body_def)
qed

end
