(* ===== verification/PamSample.thy ===== *)
theory PamSample
  imports Sample PamListing
begin

text \<open>A concrete management connection and server, over the system and the users of \<open>Sample\<close>.\<close>

definition sample_pam :: "pam_auth_state option \<Rightarrow> byte list \<Rightarrow> pam_request_state option \<Rightarrow> u16 \<Rightarrow> pam" where
  "sample_pam a name r m = \<lparr>pm_client_fd = 5, pm_client_addr = Sin 0 [127, 0, 0, 1],
     pm_buffer = buffer_init PAM_BUFFER_SIZE (replicate PAM_BUFFER_SIZE 0),
     pm_auth = \<lparr>pa_state = a, pa_status = 0, pa_n_user = 0, pa_n_pass = 0,
       pa_username = name @ replicate (PAM_AUTH_USERNAME_MAX_LENGHT - length name) 0, pa_pass = replicate PAM_AUTH_PASS_MAX_LENGHT 0\<rparr>,
     pm_request = \<lparr>pr_state = r, pr_reserved = RESERVED_BYTE, pr_method = m, pr_read_nbody = 0,
       pr_read_body = replicate PAM_REQUEST_BODY_MAX_LENGTH 0, pr_status = 7, pr_write_nbody = 3,
       pr_write_body = replicate PAM_REQUEST_BODY_MAX_LENGTH 9\<rparr>,
     pm_stm = \<lparr>initial = PAM_AUTH, max_state = PAM_ERROR, current = None\<rparr>\<rparr>"

lemma sample_pam_fields [simp]:
  "pm_client_fd (sample_pam a name r m) = 5" "pa_state (pm_auth (sample_pam a name r m)) = a"
  "pr_state (pm_request (sample_pam a name r m)) = r" "pr_reserved (pm_request (sample_pam a name r m)) = RESERVED_BYTE"
  "pr_method (pm_request (sample_pam a name r m)) = m" "pr_write_nbody (pm_request (sample_pam a name r m)) = 3"
  "pr_status (pm_request (sample_pam a name r m)) = 7"
  "take 3 (pr_write_body (pm_request (sample_pam a name r m))) = [9, 9, 9]"
  "buffer_window (pm_buffer (sample_pam a name r m)) = []"
  by (simp_all add: sample_pam_def numeral_3_eq_3)

lemma sample_pam_name [simp]:
  "length name < 255 \<Longrightarrow> terminated (pa_username (pm_auth (sample_pam a name r m)))"
  "0 \<notin> set name \<Longrightarrow> length name < 255 \<Longrightarrow> cstr (pa_username (pm_auth (sample_pam a name r m))) = name"
proof -
  assume n: "length name < 255"
  then obtain k where k: "255 - length name = Suc k" by (cases "255 - length name") simp_all
  show "terminated (pa_username (pm_auth (sample_pam a name r m)))" by (simp add: sample_pam_def k terminated_field)
  show "0 \<notin> set name \<Longrightarrow> cstr (pa_username (pm_auth (sample_pam a name r m))) = name"
    by (simp add: sample_pam_def k cstr_append_zero)
qed

lemma sample_pam_good: "length name \<le> 255 \<Longrightarrow> pam_good sample_os (sample_pam a name r m, sample_server w)"
  by (simp add: pam_good_def pam_ok_def sample_pam_def sample_os_ok)

lemma sample_recv: "length bs \<le> n \<Longrightarrow> os_recv sample_os fd n (bs # rest) = (SysOk bs, rest)"
  by (simp add: sample_os_def)

lemma sample_send: "os_send sample_os fd bs w = (SysOk (length bs), w)"
  by (simp add: sample_os_def)

lemma sample_malloc: "os_malloc sample_os w = (True, w)"
  by (simp add: sample_os_def)

lemma sample_admin: "is_admin sample_db (ascii ''admin'')" "users_map sample_db [98] = None"
  by (simp_all add: is_admin_def sample_db_ok ascii_admin)

text \<open>A server with descriptor 5 registered for the management connection number 0.\<close>

definition sample_pam_server :: "'w \<Rightarrow> 'w pam_server" where
  "sample_pam_server w = \<lparr>fds = replicate 1025 (item_init zero_item), max_fd = 0,
     master_r = {}, master_w = {}, slave_r = {}, slave_w = {}, resolution_jobs = [],
     e_users = sample_db,
     e_metrics = \<lparr>currentConnections = 0, totalConnections = 0, totalBytesSent = 0, totalBytesReceived = 0\<rparr>,
     e_threads = [], e_calls = [], e_world = w, sv_conns = (\<lambda>_. None), sv_next = 0,
     pm_conns = [0 \<mapsto> sample_pam (Some PASS) [] None 0], pm_next = 1\<rparr>"

lemma sample_pam_server_ok [simp]: "sel_inv (sample_pam_server w)" "sel_full (sample_pam_server w)"
    "sel_entry (sample_pam_server w) fd = None" "fd_size (sample_pam_server w) = 1025"
    "pm_conns (sample_pam_server w) = [0 \<mapsto> sample_pam (Some PASS) [] None 0]"
  by (auto simp: sel_inv_def items_ok_def max_ok_def wants_def sel_full_def sel_entry_def item_init_def ITEM_USED_def
      sample_pam_server_def)

definition sample_pam_open :: "'w \<Rightarrow> 'w pam_server" where
  "sample_pam_open w = with_item 5 (Some PAM_HANDLER) OP_READ (Some 0) (sample_pam_server w)"

lemma sample_pam_open_ok [simp]: "sel_inv (sample_pam_open w)" "sel_full (sample_pam_open w)"
    "pm_conns (sample_pam_open w) = [0 \<mapsto> sample_pam (Some PASS) [] None 0]"
    "sel_entry (sample_pam_open w) 5 = Some \<lparr>it_fd = 5, it_interest = OP_READ, it_handler = Some PAM_HANDLER, it_data = Some 0\<rparr>"
proof -
  show "sel_inv (sample_pam_open w)" unfolding sample_pam_open_def by (rule inv_with_item) simp_all
  show "sel_full (sample_pam_open w)" by (simp add: sample_pam_open_def)
  show "pm_conns (sample_pam_open w) = [0 \<mapsto> sample_pam (Some PASS) [] None 0]"
    by (simp add: sample_pam_open_def with_item_def)
  show "sel_entry (sample_pam_open w) 5
      = Some \<lparr>it_fd = 5, it_interest = OP_READ, it_handler = Some PAM_HANDLER, it_data = Some 0\<rparr>"
    unfolding sample_pam_open_def by (subst entry_with_item) simp_all
qed


lemma sample_listing: "listing sample_db = listing_message @ 64 # ascii ''admin'' @ [10]"
proof -
  let ?us = "users_elems sample_db"
  have all: "uname u = ascii ''admin'' \<and> u_privilege_level u = USER_PRIVILEGE_ADMIN" if "u \<in> set ?us" for u
  proof -
    have "users_map sample_db (uname u) = Some (user_value u)" using users_map_iff[OF sample_db_ok(1)] that by blast
    then show ?thesis by (simp add: sample_db_ok(3) user_value_def split: if_splits)
  qed
  have "distinct (map uname ?us)" using key_sorted_distinct[OF users_sorted[OF sample_db_ok(1)]] .
  moreover have "set (map uname ?us) \<subseteq> {ascii ''admin''}" using all by auto
  ultimately have "length ?us \<le> 1"
    using card_mono[of "{ascii ''admin''}" "set (map uname ?us)"] distinct_card[of "map uname ?us"] by simp
  moreover have "?us \<noteq> []" using sample_db_ok(3) by (auto simp: users_map_def fun_eq_iff split: if_splits)
  ultimately obtain u where "?us = [u]" by (cases ?us) auto
  with all show ?thesis by (simp add: listing_def list_line_def)
qed


text \<open>User \<open>b\<close>, who is no administrator, asks for a change of role.\<close>

lemma sample_refused_run:
  "\<exists>db. handle_pam_request_method sample_os (holding [5, 97, 100, 109, 105, 110, 1]) (sample_pam None [98] None 5, sample_server [])
    = Some (set_status PAM_REQUEST_UNAUTHORIZED (set_status PAM_REQUEST_SUCCESS (sample_pam None [98] None 5)), (sample_server [])\<lparr>e_users := db\<rparr>)"
  "\<not> is_admin sample_db (pa_username (pm_auth (sample_pam None [98] None 5)))"
proof -
  let ?c = "sample_pam None [98] None 5" and ?b = "holding [5, 97, 100, 109, 105, 110, 1]"
  show na: "\<not> is_admin sample_db (pa_username (pm_auth ?c))" by (simp add: is_admin_def sample_db_ok ascii_admin)
  have t: "terminated (pa_username (pm_auth ?c))" by simp
  have b: "buffer_inv ?b" "buffer_window ?b = 5 # [97, 100, 109, 105, 110] @ [1]" by (simp_all add: holding_ok)
  have n: "length [97, 100, 109, 105, 110 :: byte] = unat (5 :: byte)" "length [97, 100, 109, 105, 110 :: byte] < 255" by simp_all
  obtain k b1 where f: "read_field sample_os ([] :: byte list list) ?b = Some ([97, 100, 109, 105, 110] @ 0 # k, b1)"
      "buffer_inv b1" "buffer_window b1 = [1]"
    by (rule read_field_spec[OF sample_os_ok b n])
  obtain b2 where r: "buffer_read b1 = Some (1, b2)" by (rule read_next[OF f(2,3)])
  obtain db where "user_is_admin sample_db (pa_username (pm_auth ?c)) = Some (is_admin sample_db (pa_username (pm_auth ?c)), db)"
    by (rule admin_checked[OF sample_db_ok(1) t])
  then have "handle_pam_request_method sample_os ?b (?c, sample_server []) = Some
      (set_status PAM_REQUEST_UNAUTHORIZED (set_status PAM_REQUEST_SUCCESS ?c), (sample_server [])\<lparr>e_users := db\<rparr>)"
    using f(1) r na by (simp add: handle_pam_request_method_def handle_change_role_def Let_def)
  then show "\<exists>db. handle_pam_request_method sample_os ?b (?c, sample_server []) = Some
      (set_status PAM_REQUEST_UNAUTHORIZED (set_status PAM_REQUEST_SUCCESS ?c), (sample_server [])\<lparr>e_users := db\<rparr>)" by blast
qed


text \<open>A login with a name that does not exist.\<close>

lemma sample_login:
  "\<exists>c' e'. pam_run sample_os [(Ev_read, \<lparr>k_fd = 5, k_data = Some 0\<rparr>), (Ev_write, \<lparr>k_fd = 5, k_data = Some 0\<rparr>)]
      (pam_machine_at None) (sample_pam None [] None 0, sample_server [[1, 1, 1, 97, 98]])
      = Some (pam_machine_at (Some PAM_REQUEST), c', e')"
proof -
  have g: "pam_good sample_os (sample_pam None [] None 0, sample_server [[1, 1, 1, 97, 98]])" by (rule sample_pam_good) simp
  have r: "os_recv sample_os (k_fd \<lparr>k_fd = 5, k_data = Some (0 :: nat)\<rparr>) PAM_BUFFER_SIZE (e_world (sample_server [[1, 1, 1, 97, 98]]))
      = (SysOk (PAM_VERSION_1 # 1 # 1 # [97] @ [98]), [])" by (simp add: sample_recv)
  have w: "os_send sample_os (pm_client_fd (sample_pam None [] None 0))
      [PAM_VERSION_1, login_status (e_users (sample_server [[1, 1, 1, 97, 98 :: byte]])) ([97] @ [0]) [98]] [] = (SysOk 2, [])"
    by (simp add: sample_send)
  have n: "1 \<noteq> (0 :: byte)" "length [97 :: byte] = unat (1 :: byte)" "length [98 :: byte] = unat (1 :: byte)"
      "length [97 :: byte] < 255" "length [98 :: byte] < 255" "buffer_window (pm_buffer (sample_pam None [] None 0)) = []" by simp_all
  show ?thesis using login_run[OF g n(6) r n(1,1,2-5) w] by blast
qed

end
