(* ===== verification/CText.thy ===== *)
theory CText
  imports CStrings
begin

text \<open>
  The functions of \<open>string.h\<close> and \<open>stdlib.h\<close> that the command lines use: \<open>strtol\<close>, \<open>strchr\<close> and
  \<open>strtok\<close>, on the content of a string (its bytes up to the terminator).
\<close>

abbreviation (input) LONG_MAX :: int where "LONG_MAX \<equiv> 9223372036854775807"
abbreviation (input) LONG_MIN :: int where "LONG_MIN \<equiv> - 9223372036854775808"

text \<open>The value, and how many bytes it took: 0 when there is no number.\<close>

definition strtol_sign :: "byte list \<Rightarrow> bool \<times> nat" where
  "strtol_sign t = (case t of c # _ \<Rightarrow> (if c = 45 then (True, 1) else if c = 43 then (False, 1) else (False, 0)) | [] \<Rightarrow> (False, 0))"

definition c_strtol :: "byte list \<Rightarrow> int \<times> nat" where
  "c_strtol s = (
     let sp = length (takeWhile is_space s); t = drop sp s;
         (neg, sg) = strtol_sign t;
         ds = takeWhile is_digit (drop sg t);
         v = int (digits_value 0 ds)
     in if ds = [] then (0, 0)
        else (max LONG_MIN (min LONG_MAX (if neg then - v else v)), sp + sg + length ds))"

definition c_strchr :: "byte \<Rightarrow> byte list \<Rightarrow> nat option" where
  "c_strchr c s = (if c \<in> set s then Some (length (takeWhile (\<lambda>x. x \<noteq> c) s)) else None)"

text \<open>One call of \<open>strtok\<close> with one separator: the token, and what the next call starts with.\<close>

definition c_strtok :: "byte \<Rightarrow> byte list \<Rightarrow> (byte list \<times> byte list) option" where
  "c_strtok d s = (
     let t = dropWhile (\<lambda>x. x = d) s; tok = takeWhile (\<lambda>x. x \<noteq> d) t
     in if t = [] then None else Some (tok, drop (Suc (length tok)) t))"

section \<open>Numbers\<close>

lemma digits_run:
  assumes "\<forall>c \<in> set ds. is_digit c" "rest = [] \<or> \<not> is_digit (hd rest)"
  shows "takeWhile is_digit (ds @ rest) = ds"
proof -
  have "takeWhile is_digit (ds @ rest) = ds @ takeWhile is_digit rest" using assms(1) by (simp add: takeWhile_append2)
  moreover have "takeWhile is_digit rest = []" using assms(2) by (cases rest) auto
  ultimately show ?thesis by simp
qed

lemma strtol_digits:
  assumes "rest = [] \<or> \<not> is_digit (hd rest)" "int n \<le> LONG_MAX"
  shows "c_strtol (dec_digits n @ rest) = (int n, length (dec_digits n))"
proof -
  obtain c cs where c: "dec_digits n = c # cs" using dec_digits_nonempty[of n] by (cases "dec_digits n") auto
  then have "is_digit c" using dec_digits_all[of n] by auto
  note nd = is_digit_not_space[OF this]
  have v: "digits_value 0 (dec_digits n) = n"
    using digits_value_dec[of n "[]"] digits_value_append[OF dec_digits_all, of 0 n "[0]"] by (simp add: is_digit_def)
  have "takeWhile is_digit (dec_digits n @ rest) = dec_digits n" by (rule digits_run[OF dec_digits_all assms(1)])
  then show ?thesis
    using nd assms(2) v c by (simp add: c_strtol_def strtol_sign_def)
qed

section \<open>Pieces\<close>

lemma strchr_first:
  assumes "d \<notin> set u"
  shows "c_strchr d (u @ d # p) = Some (length u)"
proof -
  have "takeWhile (\<lambda>x. x \<noteq> d) (u @ d # p) = u" using assms by (auto simp: takeWhile_tail takeWhile_eq_all_conv)
  then show ?thesis by (simp add: c_strchr_def)
qed

lemma strchrD: "c_strchr c s = Some k \<Longrightarrow> s = take k s @ c # drop (k + 1) s \<and> c \<notin> set (take k s)"
proof -
  assume a: "c_strchr c s = Some k"
  then have k: "k = length (takeWhile (\<lambda>x. x \<noteq> c) s)" "c \<in> set s" by (simp_all add: c_strchr_def split: if_splits)
  then obtain u p where s: "s = u @ c # p" "c \<notin> set u" using split_list_first by metis
  have "takeWhile (\<lambda>x. x \<noteq> c) (u @ c # p) = u" using s(2) by (auto simp: takeWhile_tail takeWhile_eq_all_conv)
  then have "k = length u" using k(1) s(1) by simp
  then show ?thesis using s by simp
qed

lemma strtok_first:
  assumes "d \<notin> set u" "u \<noteq> []"
  shows "c_strtok d (u @ d # p) = Some (u, p)" "c_strtok d u = Some (u, [])"
proof -
  have dw: "dropWhile (\<lambda>x. x = d) (u @ t) = u @ t" for t
    using assms by (cases u) auto
  have tw: "takeWhile (\<lambda>x. x \<noteq> d) (u @ d # p) = u" "takeWhile (\<lambda>x. x \<noteq> d) u = u"
    using assms(1) by (auto simp: takeWhile_tail takeWhile_eq_all_conv)
  show "c_strtok d (u @ d # p) = Some (u, p)" unfolding c_strtok_def dw Let_def tw using assms(2) by simp
  show "c_strtok d u = Some (u, [])"
    using assms(2) dw[of "[]"] unfolding c_strtok_def Let_def by (simp add: tw)
qed

end
