(* ===== verification/ClientArgs.thy ===== *)
theory ClientArgs
  imports CText Users
begin

text \<open>
  The command line of the management client, \<open>src/client/client_args.c\<close>. The vector of arguments
  has a string or \<open>NULL\<close> (\<open>None\<close>) at each place; options are replaced by \<open>NULL\<close> once they are read.
  The structure that is filled starts as whatever the stack of the caller held: the fields that
  an option does not set keep that.
\<close>

record client_args =
  ca_host :: "byte list"
  ca_port :: u16
  ca_option :: "byte list"
  ca_user :: "byte list option"
  ca_password :: "byte list option"
  ca_usr_count :: int
  ca_arg1 :: "byte list option"
  ca_arg2 :: "byte list option"
  ca_arg3 :: "byte list option"

definition is_number :: "byte list \<Rightarrow> bool" where
  "is_number s \<longleftrightarrow> s \<noteq> [] \<and> list_all is_digit s"

definition need_args :: "byte list \<Rightarrow> int" where
  "need_args opt = (
     if opt = ascii ''users'' then 0
     else if opt = ascii ''metrics'' then 0
     else if opt = ascii ''remove-user'' then 1
     else if opt = ascii ''change-role'' then 2
     else if opt = ascii ''change-password'' then 2
     else if opt = ascii ''add-user'' then 3
     else - 1)"

text \<open>The copy in the static buffer has at most 255 bytes. \<open>None\<close> is the result \<open>-1\<close>.\<close>

definition parse_password :: "byte list \<Rightarrow> (byte list \<times> byte list) option" where
  "parse_password usr_pass = do {
     (user, rest) \<leftarrow> c_strtok 58 (take 255 usr_pass);
     (password, rest) \<leftarrow> c_strtok 58 rest;
     Some (user, password)
   }"

text \<open>The loop over the options: a result to return at once, or the arguments that are left.\<close>

fun read_options :: "byte list list \<Rightarrow> client_args \<Rightarrow> int + (byte list option list \<times> client_args)" where
  "read_options [] out = Inr ([], out)"
| "read_options (a # argv) out =
     (if a = ascii ''-h'' then Inl 1
      else if a = ascii ''-v'' then Inl 1
      else if a = ascii ''-L'' then
        (case argv of [] \<Rightarrow> Inl (- 1)
         | x # argv \<Rightarrow> (case read_options argv (out\<lparr>ca_host := x\<rparr>) of Inl e \<Rightarrow> Inl e
             | Inr (rest, out) \<Rightarrow> Inr (None # None # rest, out)))
      else if a = ascii ''-P'' then
        (case argv of [] \<Rightarrow> Inl (- 1)
         | x # argv \<Rightarrow>
            if \<not> is_number x then Inl (- 1)
            else let p = fst (c_strtol x) in
              if p < 1 \<or> 65535 < p then Inl (- 1)
              else (case read_options argv (out\<lparr>ca_port := word_of_int p\<rparr>) of Inl e \<Rightarrow> Inl e
                | Inr (rest, out) \<Rightarrow> Inr (None # None # rest, out)))
      else if a = ascii ''-u'' then
        (case argv of [] \<Rightarrow> Inl (- 1)
         | x # argv \<Rightarrow>
            if ca_usr_count out \<ge> 32 then Inl (- 1)
            else (case parse_password x of None \<Rightarrow> Inl (- 1)
              | Some (u, p) \<Rightarrow>
                 (case read_options argv (out\<lparr>ca_user := Some u, ca_password := Some p\<rparr>) of Inl e \<Rightarrow> Inl e
                  | Inr (rest, out) \<Rightarrow> Inr (None # None # rest, out))))
      else (case read_options argv out of Inl e \<Rightarrow> Inl e | Inr (rest, out) \<Rightarrow> Inr (Some a # rest, out)))"

text \<open>The loop that assigns the arguments: the first \<open>n\<close> places that are not \<open>NULL\<close>.\<close>

definition set_arg :: "nat \<Rightarrow> byte list \<Rightarrow> client_args \<Rightarrow> client_args" where
  "set_arg k a out = (if k = 0 then out\<lparr>ca_arg1 := Some a\<rparr> else if k = 1 then out\<lparr>ca_arg2 := Some a\<rparr>
     else if k = 2 then out\<lparr>ca_arg3 := Some a\<rparr> else out)"

fun assign_args :: "byte list option list \<Rightarrow> nat \<Rightarrow> nat \<Rightarrow> client_args \<Rightarrow> client_args" where
  "assign_args [] k n out = out"
| "assign_args (a # argv) k n out =
     (if k < n then (case a of None \<Rightarrow> assign_args argv k n out
        | Some x \<Rightarrow> assign_args argv (k + 1) n (set_arg k x out)) else out)"

text \<open>\<open>argv\<close> here is without the name of the program.\<close>

definition parse_client_args :: "byte list list \<Rightarrow> client_args \<Rightarrow> int + client_args" where
  "parse_client_args argv out = (
     let out = out\<lparr>ca_usr_count := 0, ca_port := 8080, ca_host := ascii ''127.0.0.1''\<rparr> in
     if argv = [] then Inl (- 1)
     else (case read_options argv out of
       Inl e \<Rightarrow> Inl e
     | Inr (argv, out) \<Rightarrow>
        (case dropWhile (\<lambda>a. a = None) argv of
           Some opt # argv \<Rightarrow>
             (let out = out\<lparr>ca_option := opt\<rparr>; nArgs = need_args opt;
                  remaining = length (filter (\<lambda>a. a \<noteq> None) argv) in
              if nArgs < 0 then Inl (- 1)
              else if int remaining < nArgs then Inl (- 1)
              else Inr (assign_args argv 0 (nat nArgs) (out\<lparr>ca_arg1 := None, ca_arg2 := None, ca_arg3 := None\<rparr>)))
         | _ \<Rightarrow> Inl (- 1))))"

section \<open>What a command line means\<close>

text \<open>Words that are no options are kept as they are.\<close>

definition plain :: "byte list \<Rightarrow> bool" where
  "plain a \<longleftrightarrow> a \<notin> {ascii ''-h'', ascii ''-v'', ascii ''-L'', ascii ''-P'', ascii ''-u''}"

lemma read_plain: "list_all plain ws \<Longrightarrow> read_options ws out = Inr (map Some ws, out)"
  by (induction ws arbitrary: out) (simp_all add: plain_def)

lemma option_names:
  "ascii ''-L'' \<noteq> ascii ''-h''" "ascii ''-L'' \<noteq> ascii ''-v''" "ascii ''-P'' \<noteq> ascii ''-h''" "ascii ''-P'' \<noteq> ascii ''-v''"
  "ascii ''-P'' \<noteq> ascii ''-L''" "ascii ''-u'' \<noteq> ascii ''-h''" "ascii ''-u'' \<noteq> ascii ''-v''" "ascii ''-u'' \<noteq> ascii ''-L''"
  "ascii ''-u'' \<noteq> ascii ''-P''"
  by (simp_all add: ascii_def)

lemma password_pair:
  assumes "58 \<notin> set u" "58 \<notin> set p" "u \<noteq> []" "p \<noteq> []" "length u + length p < 255"
  shows "parse_password (u @ 58 # p) = Some (u, p)"
  using assms strtok_first[OF assms(1,3)] strtok_first[OF assms(2,4)] by (simp add: parse_password_def)

text \<open>The credentials, then a command with its arguments.\<close>

lemma parse_command:
  assumes u: "58 \<notin> set u" "58 \<notin> set p" "u \<noteq> []" "p \<noteq> []" "length u + length p < 255"
    and w: "list_all plain (cmd # ws)" "int (length ws) = need_args cmd"
  shows "\<exists>out'. parse_client_args (ascii ''-u'' # (u @ 58 # p) # cmd # ws) out = Inr out'
    \<and> ca_user out' = Some u \<and> ca_password out' = Some p \<and> ca_option out' = cmd
    \<and> ca_host out' = ascii ''127.0.0.1'' \<and> ca_port out' = 8080
    \<and> ca_arg1 out' = (case ws of a # _ \<Rightarrow> Some a | _ \<Rightarrow> None) \<and> ca_arg2 out' = (case ws of _ # b # _ \<Rightarrow> Some b | _ \<Rightarrow> None)
    \<and> ca_arg3 out' = (case ws of _ # _ # c # _ \<Rightarrow> Some c | _ \<Rightarrow> None)"
proof -
  let ?o = "out\<lparr>ca_usr_count := 0, ca_port := 8080, ca_host := ascii ''127.0.0.1'', ca_user := Some u, ca_password := Some p\<rparr>"
  have r: "read_options (ascii ''-u'' # (u @ 58 # p) # cmd # ws) (out\<lparr>ca_usr_count := 0, ca_port := 8080, ca_host := ascii ''127.0.0.1''\<rparr>)
      = Inr (None # None # map Some (cmd # ws), ?o)"
    using read_plain[OF w(1), of ?o] password_pair[OF u] by (simp add: option_names)
  have n: "length ws \<le> 3" using w(2) by (auto simp: need_args_def split: if_splits)
  have f: "length (filter (\<lambda>a. a \<noteq> None) (map Some ws)) = length ws" by (simp add: filter_map comp_def)
  have run: "parse_client_args (ascii ''-u'' # (u @ 58 # p) # cmd # ws) out = Inr (assign_args (map Some ws) 0 (length ws)
      (?o\<lparr>ca_option := cmd, ca_arg1 := None, ca_arg2 := None, ca_arg3 := None\<rparr>))"
    using r f w(2)[symmetric] by (simp add: parse_client_args_def Let_def)
  consider "ws = []" | a where "ws = [a]" | a b where "ws = [a, b]" | a b c where "ws = [a, b, c]"
    using n by (auto simp: le_Suc_eq length_Suc_conv numeral_3_eq_3)
  then show ?thesis by cases (use run in \<open>simp_all add: set_arg_def\<close>)
qed

end
