(* ===== verification/Client.thy ===== *)
theory Client
  imports ClientArgs Net
begin

text \<open>
  The management client: the encoding of requests and the decoding of answers of
  \<open>src/client/client_utils.c\<close>, and the program of \<open>src/client/main.c\<close>. What a function prints is left
  out, the answer that is printed is returned instead. Strings are given by their bytes.
\<close>

abbreviation (input) PROTOCOL_VERSION :: byte where "PROTOCOL_VERSION \<equiv> 1"
abbreviation (input) METHOD_USERS :: u16 where "METHOD_USERS \<equiv> 1"
abbreviation (input) METHOD_ADD_USER :: u16 where "METHOD_ADD_USER \<equiv> 2"
abbreviation (input) METHOD_REMOVE_USER :: u16 where "METHOD_REMOVE_USER \<equiv> 3"
abbreviation (input) METHOD_CHANGE_PASSWORD :: u16 where "METHOD_CHANGE_PASSWORD \<equiv> 4"
abbreviation (input) METHOD_CHANGE_ROLE :: u16 where "METHOD_CHANGE_ROLE \<equiv> 5"
abbreviation (input) METHOD_METRICS :: u16 where "METHOD_METRICS \<equiv> 6"

record server_response =
  resp_ver :: byte
  resp_status :: byte
  resp_nbody :: u16
  resp_body :: "byte list option"

section \<open>Requests\<close>

text \<open>The body is a pointer: \<open>NULL\<close> is \<open>None\<close>, from which nothing but 0 bytes can be copied.\<close>

definition send_request :: "'w os \<Rightarrow> byte \<Rightarrow> u16 \<Rightarrow> u16 \<Rightarrow> byte list option \<Rightarrow> int \<Rightarrow> 'w \<Rightarrow> (int \<times> 'w) option" where
  "send_request os ver method n_body body sock w =
     (case os_malloc os w of (m, w) \<Rightarrow>
       if \<not> m then Some (- 1, w)
       else do {
         let reserved = 0;
         let header = [ver, reserved] @ mem16 (htons method) @ mem16 (htons n_body);
         bytes \<leftarrow> (case body of
             Some b \<Rightarrow> if 0 < n_body then do { c_assert (unat n_body \<le> length b); Some (take (unat n_body) b) } else Some []
           | None \<Rightarrow> do { c_assert (n_body = 0); Some [] });
         Some (0, snd (os_send os sock (header @ bytes) w))
       })"

section \<open>Answers\<close>

text \<open>What \<open>recv\<close> leaves in an array: the bytes received over what memory held.\<close>

definition received :: "byte list sys \<Rightarrow> byte list \<Rightarrow> int \<times> byte list" where
  "received r junk = (case r of SysErr _ \<Rightarrow> (- 1, junk) | SysOk bs \<Rightarrow> (int (length bs), bs @ drop (length bs) junk))"

definition receive_response :: "'w os \<Rightarrow> int \<Rightarrow> 'w \<Rightarrow> server_response option \<times> 'w" where
  "receive_response os sock w =
     (case os_malloc os w of (m, w) \<Rightarrow>
       if \<not> m then (None, w)
       else let junk = os_uninit os 4 w in
         (case os_recv os sock 4 w of (r, w) \<Rightarrow>
         (case received r junk of (n, header) \<Rightarrow>
           if n < 2 then (None, w)
           else if header ! 1 \<noteq> 0
           then (Some \<lparr>resp_ver = header ! 0, resp_status = header ! 1, resp_nbody = 0, resp_body = None\<rparr>, w)
           else let nbody = ntohs (from_mem16 (header ! 2) (header ! 3)) in
             if 0 < nbody
             then (case os_malloc os w of (m, w) \<Rightarrow>
               if \<not> m then (None, w)
               else let junk = os_uninit os (unat nbody) w in
                 (case os_recv os sock (unat nbody) w of (r, w) \<Rightarrow>
                 (case received r junk of (n, body) \<Rightarrow>
                   if n < int (unat nbody) then (None, w)
                   else (Some \<lparr>resp_ver = header ! 0, resp_status = header ! 1, resp_nbody = nbody, resp_body = Some body\<rparr>, w))))
             else (Some \<lparr>resp_ver = header ! 0, resp_status = header ! 1, resp_nbody = nbody, resp_body = None\<rparr>, w))))"

section \<open>The commands\<close>

definition ask :: "'w os \<Rightarrow> u16 \<Rightarrow> u16 \<Rightarrow> byte list option \<Rightarrow> int \<Rightarrow> 'w \<Rightarrow> (server_response option \<times> 'w) option" where
  "ask os method outLen body sock w = do {
     (r, w) \<leftarrow> send_request os PROTOCOL_VERSION method outLen body sock w;
     Some (receive_response os sock w)
   }"

definition get_users :: "'w os \<Rightarrow> client_args \<Rightarrow> int \<Rightarrow> 'w \<Rightarrow> (server_response option \<times> 'w) option" where
  "get_users os args sock w = ask os METHOD_USERS 0 None sock w"

definition get_metrics :: "'w os \<Rightarrow> client_args \<Rightarrow> int \<Rightarrow> 'w \<Rightarrow> (server_response option \<times> 'w) option" where
  "get_metrics os args sock w = ask os METHOD_METRICS 0 None sock w"

text \<open>\<open>uint8_t len = strlen (s)\<close> and the bytes that \<open>memcpy (_, s, len)\<close> copies after it.\<close>

definition field :: "byte list \<Rightarrow> byte list" where
  "field s = (let n = of_nat (length s) :: byte in n # take (unat n) s)"

definition role_of :: "byte list \<Rightarrow> byte" where
  "role_of s = word_of_int (c_atoi (s @ [0]))"

text \<open>The body is built in memory that is not checked: without it, the first store faults.\<close>

definition ask_with :: "'w os \<Rightarrow> u16 \<Rightarrow> byte list \<Rightarrow> int \<Rightarrow> 'w \<Rightarrow> (server_response option \<times> 'w) option" where
  "ask_with os method body sock w = (case os_malloc os w of (m, w) \<Rightarrow> do {
     c_assert m;
     ask os method (of_nat (length body)) (Some body) sock w
   })"

definition add_user :: "'w os \<Rightarrow> client_args \<Rightarrow> int \<Rightarrow> 'w \<Rightarrow> (server_response option \<times> 'w) option" where
  "add_user os args sock w = do {
     arg1 \<leftarrow> ca_arg1 args;
     arg2 \<leftarrow> ca_arg2 args;
     arg3 \<leftarrow> ca_arg3 args;
     ask_with os METHOD_ADD_USER (field arg1 @ field arg2 @ [role_of arg3]) sock w
   }"

definition remove_user :: "'w os \<Rightarrow> client_args \<Rightarrow> int \<Rightarrow> 'w \<Rightarrow> (server_response option \<times> 'w) option" where
  "remove_user os args sock w = do {
     arg1 \<leftarrow> ca_arg1 args;
     ask_with os METHOD_REMOVE_USER (field arg1) sock w
   }"

definition change_password :: "'w os \<Rightarrow> client_args \<Rightarrow> int \<Rightarrow> 'w \<Rightarrow> (server_response option \<times> 'w) option" where
  "change_password os args sock w = do {
     arg1 \<leftarrow> ca_arg1 args;
     arg2 \<leftarrow> ca_arg2 args;
     ask_with os METHOD_CHANGE_PASSWORD (field arg1 @ field arg2) sock w
   }"

definition change_role :: "'w os \<Rightarrow> client_args \<Rightarrow> int \<Rightarrow> 'w \<Rightarrow> (server_response option \<times> 'w) option" where
  "change_role os args sock w = do {
     arg1 \<leftarrow> ca_arg1 args;
     arg2 \<leftarrow> ca_arg2 args;
     ask_with os METHOD_CHANGE_ROLE (field arg1 @ [role_of arg2]) sock w
   }"

definition detect_ip_version :: "'w os \<Rightarrow> byte list \<Rightarrow> nat" where
  "detect_ip_version os host =
     (case os_pton os AF_INET host of PtonOk _ \<Rightarrow> 4
      | _ \<Rightarrow> (case os_pton os AF_INET6 host of PtonOk _ \<Rightarrow> 6 | _ \<Rightarrow> 0))"

section \<open>The program\<close>

text \<open>Each part ends the program with a code (\<open>Inl\<close>) or goes on (\<open>Inr\<close>).\<close>

definition open_connection :: "'w os \<Rightarrow> nat \<Rightarrow> sockaddr \<Rightarrow> 'w \<Rightarrow> (int + int) \<times> 'w" where
  "open_connection os family addr w =
     (case os_socket os family SOCK_STREAM 0 w of
        (SysErr _, w) \<Rightarrow> (Inl (- 1), w)
      | (SysOk sock, w) \<Rightarrow>
          (case os_connect os sock addr w of
             (SysErr _, w) \<Rightarrow> (Inl (- 1), os_close os sock w)
           | (SysOk _, w) \<Rightarrow> (Inr sock, w)))"

text \<open>For a host that is no address the program closes \<open>sock\<close>, which nothing has set: \<open>sock0\<close>.\<close>

definition client_connect :: "'w os \<Rightarrow> int \<Rightarrow> client_args \<Rightarrow> 'w \<Rightarrow> (int + int) \<times> 'w" where
  "client_connect os sock0 args w = (
     let ip_ver = detect_ip_version os (ca_host args); port = htons (ca_port args) in
     if ip_ver = 4 then
       (case os_pton os AF_INET (ca_host args) of
          PtonOk a \<Rightarrow> open_connection os AF_INET (Sin port a) w | _ \<Rightarrow> (Inl (- 1), w))
     else if ip_ver = 6 then
       (case os_pton os AF_INET6 (ca_host args) of
          PtonOk a \<Rightarrow> open_connection os AF_INET6 (Sin6 port a) w | _ \<Rightarrow> (Inl (- 1), w))
     else (Inl (- 1), os_close os sock0 w))"

text \<open>The answer of two bytes is read over an uninitialised array, and \<open>recv\<close>'s result is not looked at.\<close>

definition client_auth :: "'w os \<Rightarrow> byte list \<Rightarrow> byte list \<Rightarrow> int \<Rightarrow> 'w \<Rightarrow> ((int + unit) \<times> 'w) option" where
  "client_auth os user pass sock w =
     (if 255 < length user \<or> 255 < length pass then Some (Inl (- 1), w)
      else (case os_malloc os w of (m, w) \<Rightarrow> do {
        c_assert m;
        let msg = [1, of_nat (length user), of_nat (length pass)] @ user @ pass;
        let w = snd (os_send os sock msg w);
        let junk = os_uninit os 2 w;
        let (r, w) = os_recv os sock 2 w;
        Some (if snd (received r junk) ! 1 = 0 then (Inr (), w) else (Inl 1, os_close os sock w))
      }))"

definition client_command :: "'w os \<Rightarrow> client_args \<Rightarrow> int \<Rightarrow> 'w \<Rightarrow> (server_response option \<times> 'w) option" where
  "client_command os args sock w = (
     let opt = ca_option args in
     if opt = ascii ''users'' then get_users os args sock w
     else if opt = ascii ''add-user'' then add_user os args sock w
     else if opt = ascii ''remove-user'' then remove_user os args sock w
     else if opt = ascii ''change-password'' then change_password os args sock w
     else if opt = ascii ''change-role'' then change_role os args sock w
     else if opt = ascii ''metrics'' then get_metrics os args sock w
     else Some (None, w))"

text \<open>
  After the check for missing credentials the program goes on: \<open>strlen\<close> of a null pointer faults.
  The structure of the arguments starts as the stack was, \<open>args0\<close>.
\<close>

definition client_main :: "'w os \<Rightarrow> int \<Rightarrow> client_args \<Rightarrow> byte list list \<Rightarrow> 'w \<Rightarrow> (int \<times> 'w) option" where
  "client_main os sock0 args0 argv w =
     (case parse_client_args argv args0 of
        Inl r \<Rightarrow> Some (if r = 1 then 0 else - 1, w)
      | Inr args \<Rightarrow>
         (case client_connect os sock0 args w of
            (Inl r, w) \<Rightarrow> Some (r, w)
          | (Inr sock, w) \<Rightarrow> do {
              user \<leftarrow> ca_user args;
              pass \<leftarrow> ca_password args;
              (a, w) \<leftarrow> client_auth os user pass sock w;
              (case a of Inl r \<Rightarrow> Some (r, w)
               | Inr _ \<Rightarrow> do {
                   (resp, w) \<leftarrow> client_command os args sock w;
                   Some (0, os_close os sock w)
                 })
            }))"

end
