(* ===== verification/ClientServer.thy ===== *)
theory ClientServer
  imports Client PamListing
begin

text \<open>
  The client against the server: the bytes of its requests are the ones that the server's handlers
  understand, and it reads back the answers that they write.
\<close>

section \<open>Encoding\<close>

lemma field_short: "length s \<le> 255 \<Longrightarrow> field s = of_nat (length s) # s"
  by (simp add: field_def unat_of_nat)

lemma unat_len: "length s \<le> 255 \<Longrightarrow> length s = unat (of_nat (length s) :: byte)"
  by (simp add: unat_of_nat)

lemma from_mem16_mem16: "from_mem16 (ucast y) (ucast (drop_bit 8 y)) = y"
  unfolding from_mem16_def by (rule bit_eqI) (auto simp: bit_simps)

lemma be16_mem16: "be16 (mem16 (htons x) ! 0) (mem16 (htons x) ! 1) = x"
  using from_mem16_mem16[of "htons x"] by (simp add: be16_def mem16_def)

lemma mem16_two: "mem16 x = [mem16 x ! 0, mem16 x ! 1]"
  by (simp add: mem16_def)

definition request_bytes :: "u16 \<Rightarrow> byte list \<Rightarrow> byte list" where
  "request_bytes method body = [PROTOCOL_VERSION, 0] @ mem16 (htons method) @ mem16 (htons (of_nat (length body))) @ body"

text \<open>A command with a body sends these bytes in one piece and then reads the answer.\<close>

lemma ask_with_sends:
  assumes "os_malloc os w = (True, w1)" "os_malloc os w1 = (True, w2)" "length body < 65536"
  shows "ask_with os method body sock w
    = Some (receive_response os sock (snd (os_send os sock (request_bytes method body) w2)))"
proof -
  have n: "unat (of_nat (length body) :: u16) = length body" by (rule u16_of_nat[OF assms(3)])
  then have z: "(0 < (of_nat (length body) :: u16)) = (body \<noteq> [])" by (simp add: word_greater_zero_iff unat_eq_0[symmetric])
  show ?thesis using assms(1,2) n z
    by (cases "body = []") (simp_all add: ask_with_def ask_def send_request_def Let_def request_bytes_def)
qed

lemma ask_sends:
  assumes "os_malloc os w = (True, w1)"
  shows "ask os method 0 None sock w = Some (receive_response os sock (snd (os_send os sock (request_bytes method []) w1)))"
  using assms by (simp add: ask_def send_request_def Let_def request_bytes_def)

definition add_user_body :: "byte list \<Rightarrow> byte list \<Rightarrow> byte list \<Rightarrow> byte list" where
  "add_user_body u p r = field u @ field p @ [role_of r]"

lemma add_user_body_short:
  assumes "length u \<le> 255" "length p \<le> 255"
  shows "add_user_body u p r = of_nat (length u) # u @ of_nat (length p) # p @ [role_of r]"
  by (simp add: add_user_body_def field_short[OF assms(1)] field_short[OF assms(2)])

lemma add_user_sends:
  assumes "ca_arg1 args = Some u" "ca_arg2 args = Some p" "ca_arg3 args = Some r"
    and "os_malloc os w = (True, w1)" "os_malloc os w1 = (True, w2)" "length u \<le> 255" "length p \<le> 255"
  shows "add_user os args sock w = Some (receive_response os sock
    (snd (os_send os sock (request_bytes METHOD_ADD_USER (add_user_body u p r)) w2)))"
proof -
  have "length (add_user_body u p r) < 65536" using assms(6,7) by (simp add: add_user_body_short)
  from ask_with_sends[OF assms(4,5) this] show ?thesis using assms(1-3) by (simp add: add_user_def add_user_body_def)
qed

text \<open>A role that does not start with a number is 0, the role of an administrator.\<close>

lemma role_of_word:
  assumes "r = [] \<or> \<not> is_space (hd r) \<and> \<not> is_digit (hd r) \<and> hd r \<notin> {43, 45}"
  shows "role_of r = of_nat USER_PRIVILEGE_ADMIN"
  using assms by (cases r) (auto simp: role_of_def c_atoi_def is_space_def is_digit_def)

lemma role_of_number: "n \<le> 255 \<Longrightarrow> role_of (dec_digits n) = of_nat n"
  using c_atoi_dec_digits[of n "[]"] by (simp add: role_of_def)

section \<open>The server understands the request\<close>

lemma server_adds:
  assumes g: "pam_good os (c, e)" and bw: "buffer_window (pm_buffer c) = []"
    and st: "pr_state (pm_request c) = Some VER_N_RESERVED" "pr_reserved (pm_request c) = RESERVED_BYTE"
    and r: "os_recv os (k_fd key) PAM_BUFFER_SIZE (e_world e) = (SysOk (request_bytes METHOD_ADD_USER (add_user_body u p r)), w3)"
    and n: "length u < 255" "length p < 255"
    and m: "os_malloc os w3 = (True, w4)" "os_malloc os w4 = (True, w5)"
    and ad: "terminated (pa_username (pm_auth c))" "is_admin (e_users e) (pa_username (pm_auth c))"
    and fresh: "users_map (e_users e) (cstr u) = None"
  shows "\<exists>c' e'. pam_run os [(Ev_read, key)] (pam_machine_at (Some PAM_REQUEST)) (c, e) = Some (pam_machine_at (Some PAM_REQUEST), c', e')
    \<and> users_map (e_users e') = (users_map (e_users e))(cstr u \<mapsto> (cstr p, unat (role_of r)))"
proof -
  let ?nb = "of_nat (length (add_user_body u p r)) :: u16"
  have sh: "add_user_body u p r = of_nat (length u) # u @ of_nat (length p) # p @ [role_of r]"
    by (rule add_user_body_short) (use n in simp_all)
  have len: "length (add_user_body u p r) = 3 + length u + length p" by (simp add: sh)
  have lt: "length (add_user_body u p r) < 65536" using n len by simp
  have mm: "mem16 (htons METHOD_ADD_USER) = [0, 2]" by (simp add: mem16_htons)
  have "request_bytes METHOD_ADD_USER (add_user_body u p r) = PAM_VERSION_1 # RESERVED_BYTE # 0 # 2
      # mem16 (htons ?nb) ! 0 # mem16 (htons ?nb) ! 1 # of_nat (length u) # u @ of_nat (length p) # p @ [role_of r]"
    unfolding request_bytes_def mm using mem16_two[of "htons ?nb"] by (simp add: sh)
  note r2 = r[unfolded this]
  have nb: "unat (be16 (mem16 (htons ?nb) ! 0) (mem16 (htons ?nb) ! 1)) = 3 + length u + length p"
    unfolding be16_mem16 using u16_of_nat[OF lt] len by simp
  have ul: "length u = unat (of_nat (length u) :: byte)" "length p = unat (of_nat (length p) :: byte)"
    using n by (auto intro: unat_len)
  show ?thesis by (rule add_request_run[OF g bw st r2 ul n nb m ad fresh])
qed

section \<open>The client reads the answer\<close>

lemma reads_answer:
  assumes "os_malloc os w = (True, w1)" "os_recv os sock 4 w1 = (SysOk ([v, 0] @ mem16 (htons n)), w2)" "0 < n"
    and "os_malloc os w2 = (True, w3)" "os_recv os sock (unat n) w3 = (SysOk body, w4)" "length body = unat n" "os_ok os"
  shows "receive_response os sock w = (Some \<lparr>resp_ver = v, resp_status = 0, resp_nbody = n, resp_body = Some body\<rparr>, w4)"
proof -
  have b: "ntohs (from_mem16 (mem16 (htons n) ! 0) (mem16 (htons n) ! 1)) = n" using be16_mem16[of n] by (simp add: be16_def)
  have l: "length (mem16 (htons n)) = 2" by (simp add: mem16_def)
  have h: "([v, 0] @ mem16 (htons n)) ! 2 = mem16 (htons n) ! 0" "([v, 0] @ mem16 (htons n)) ! 3 = mem16 (htons n) ! 1"
    by (simp_all add: mem16_def nth_append)
  show ?thesis
    using assms l b h os_uninitD[OF assms(7)]
    by (simp add: receive_response_def received_def Let_def nth_append)
qed

text \<open>An error comes without a body, whatever follows the status.\<close>

lemma reads_error:
  assumes "os_malloc os w = (True, w1)" "os_recv os sock 4 w1 = (SysOk (v # s # rest), w2)" "s \<noteq> 0"
  shows "receive_response os sock w = (Some \<lparr>resp_ver = v, resp_status = s, resp_nbody = 0, resp_body = None\<rparr>, w2)"
  using assms by (simp add: receive_response_def received_def Let_def)

text \<open>The list of users is answered with a status that nothing set: the client takes it for an error unless it is 0.\<close>

section \<open>The program\<close>

text \<open>Without credentials the program connects and then reads through a null pointer.\<close>

lemma no_credentials_faults:
  assumes "parse_client_args argv args0 = Inr args" "client_connect os sock0 args w = (Inr sock, w1)"
    and "ca_user args = None \<or> ca_password args = None"
  shows "client_main os sock0 args0 argv w = None"
  using assms by (auto simp: client_main_def split: Option.bind_split)

lemma plain_keeps_user:
  assumes "list_all plain argv" "parse_client_args argv args0 = Inr args"
  shows "ca_user args = ca_user args0 \<and> ca_password args = ca_password args0"
proof -
  have as: "ca_user (assign_args xs k n out) = ca_user out \<and> ca_password (assign_args xs k n out) = ca_password out" for xs k n out
    by (induction xs k n out rule: assign_args.induct) (auto simp: set_arg_def split: option.splits)
  show ?thesis using assms as
    by (auto simp: parse_client_args_def read_plain Let_def split: list.splits option.splits if_splits)
qed

end
