(* ===== verification/NetUtils.thy ===== *)
theory NetUtils
  imports ByteBuffer CStrings Users Net
begin

text \<open>
  \<open>src/shared/netutils.c\<close>: the text of a socket address, and the two helpers that write and copy on
  blocking descriptors. The server does not call them. A buffer is the array that it points to; a
  result of 0 from \<open>send\<close> leaves \<open>errno\<close> as it was, \<open>errno0\<close>.
\<close>

section \<open>An address as text\<close>

definition c_strncat :: "byte list \<Rightarrow> byte list \<Rightarrow> nat \<Rightarrow> byte list option" where
  "c_strncat dst src n = do {
     len \<leftarrow> c_strlen dst;
     let bs = take n (cstr src) @ [0];
     c_memcpy dst len bs (length bs)
   }"

text \<open>\<open>snprintf (dst + i, n, _)\<close> of a text.\<close>

definition c_snprintf_at :: "byte list \<Rightarrow> nat \<Rightarrow> nat \<Rightarrow> byte list \<Rightarrow> byte list option" where
  "c_snprintf_at dst i n text = (if n = 0 then Some dst
     else let bs = take (n - 1) text @ [0] in c_memcpy dst i bs (length bs))"

definition sockaddr_to_human :: "'w os \<Rightarrow> byte list \<Rightarrow> nat \<Rightarrow> sockaddr option \<Rightarrow> byte list option" where
  "sockaddr_to_human os buff buffsize addr = (case addr of
     None \<Rightarrow> c_strncpy buff (ascii ''null'' @ [0]) buffsize
   | Some addr \<Rightarrow> do {
       let handled = (case addr of Sin port p \<Rightarrow> Some (AF_INET, port, p) | Sin6 port p \<Rightarrow> Some (AF_INET6, port, p) | _ \<Rightarrow> None);
       buff \<leftarrow> (case handled of
           Some (family, port, p) \<Rightarrow>
             (case os_ntop os family p buffsize of
                Some t \<Rightarrow> c_memcpy buff 0 (t @ [0]) (length t + 1)
              | None \<Rightarrow> do {
                  buff \<leftarrow> c_strncpy buff (ascii ''unknown ip'' @ [0]) buffsize;
                  c_assert (0 < buffsize);
                  c_set buff (buffsize - 1) 0
                })
         | None \<Rightarrow> c_strncpy buff (ascii ''unknown'' @ [0]) buffsize);
       buff \<leftarrow> c_strncat buff (ascii '':'' @ [0]) buffsize;
       c_assert (0 < buffsize);
       buff \<leftarrow> c_set buff (buffsize - 1) 0;
       len \<leftarrow> c_strlen buff;
       buff \<leftarrow> (case handled of
           Some (family, port, p) \<Rightarrow> c_snprintf_at buff len (buffsize - len) (dec_digits (unat (ntohs port)))
         | None \<Rightarrow> Some buff);
       c_set buff (buffsize - 1) 0
     })"

section \<open>Blocking transfers\<close>

text \<open>The result of \<open>send\<close> as the code tests it: \<open>nwritten > 0\<close>, or the value of \<open>errno\<close>.\<close>

definition sent :: "nat \<Rightarrow> nat sys \<Rightarrow> nat + nat" where
  "sent errno0 r = (case r of SysErr e \<Rightarrow> Inl e | SysOk n \<Rightarrow> if 0 < n then Inr n else Inl errno0)"

lemma read_adv_shrinks:
  assumes "buffer_read_adv b (int n) = Some b'" "0 < n"
  shows "b_write b' - b_read b' < b_write b - b_read b"
  using assms by (auto simp: buffer_read_adv_def buffer_compact_def c_assert_bind Let_def split: if_splits)

function sock_blocking_write :: "'w os \<Rightarrow> nat \<Rightarrow> int \<Rightarrow> buffer \<Rightarrow> 'w \<Rightarrow> (nat \<times> buffer \<times> 'w) option" where
  "sock_blocking_write os errno0 fd b w = do {
     (ptr, n) \<leftarrow> buffer_read_ptr b;
     let r = os_send os fd (buffer_window b) w;
     (case sent errno0 (fst r) of
        Inl e \<Rightarrow> Some (e, b, snd r)
      | Inr k \<Rightarrow> (case buffer_read_adv b (int k) of
          None \<Rightarrow> None
        | Some b' \<Rightarrow> if buffer_can_read b' then sock_blocking_write os errno0 fd b' (snd r) else Some (0, b', snd r)))
   }"
  by pat_completeness auto
termination
  by (relation "measure (\<lambda>(os, e, fd, b, w). b_write b - b_read b)")
    (auto simp: sent_def dest!: read_adv_shrinks split: sys.splits if_splits)

declare sock_blocking_write.simps [simp del]

text \<open>The inner loop of \<open>sock_blocking_copy\<close>: 0, or the error with which it leaves both loops.\<close>

function send_all :: "'w os \<Rightarrow> nat \<Rightarrow> int \<Rightarrow> byte list \<Rightarrow> 'w \<Rightarrow> (nat + unit) \<times> 'w" where
  "send_all os errno0 dest bs w = (
     let r = os_send os dest bs w in
     (case sent errno0 (fst r) of
        Inl e \<Rightarrow> (Inl e, snd r)
      | Inr k \<Rightarrow> if k < length bs then send_all os errno0 dest (drop k bs) (snd r) else (Inr (), snd r)))"
  by pat_completeness auto
termination
  by (relation "measure (\<lambda>(os, e, fd, bs, w). length bs)")
    (auto simp: sent_def split: sys.splits if_splits)

declare send_all.simps [simp del]

text \<open>The outer loop goes on as long as bytes arrive; a negative result of \<open>recv\<close> ends it like the end of the stream.\<close>

partial_function (option) sock_blocking_copy :: "'w os \<Rightarrow> nat \<Rightarrow> int \<Rightarrow> int \<Rightarrow> 'w \<Rightarrow> (nat \<times> 'w) option" where
  "sock_blocking_copy os errno0 source dest w =
     (case os_recv os source 4096 w of
        (SysErr _, w) \<Rightarrow> Some (0, w)
      | (SysOk bs, w) \<Rightarrow>
          (if bs = [] then Some (0, w)
           else (case send_all os errno0 dest bs w of
             (Inl e, w) \<Rightarrow> Some (e, w)
           | (Inr _, w) \<Rightarrow> sock_blocking_copy os errno0 source dest w)))"

section \<open>What is transferred\<close>

text \<open>Calls of \<open>send\<close>, each from where the last one stopped, that take \<open>bs\<close> up to \<open>rest\<close>.\<close>

inductive delivered :: "'w os \<Rightarrow> int \<Rightarrow> byte list \<Rightarrow> byte list \<Rightarrow> 'w \<Rightarrow> 'w \<Rightarrow> bool" for os fd where
  delivered_done: "delivered os fd bs bs w w"
| delivered_step: "os_send os fd bs w = (SysOk n, w1) \<Longrightarrow> 0 < n \<Longrightarrow> n \<le> length bs
    \<Longrightarrow> delivered os fd (drop n bs) rest w1 w2 \<Longrightarrow> delivered os fd bs rest w w2"

inductive_cases delivered_nilE: "delivered os fd bs [] w w'"

lemma delivered_rest: "delivered os fd bs rest w w' \<Longrightarrow> \<exists>k. rest = drop k bs"
proof (induction rule: delivered.induct)
  case (delivered_done bs w)
  show ?case by (rule exI[of _ 0]) simp
next
  case (delivered_step bs w n w1 rest w2)
  then show ?case by auto
qed

lemma sent_Inr: "sent e r = Inr k \<longleftrightarrow> r = SysOk k \<and> 0 < k"
  by (auto simp: sent_def split: sys.splits if_splits)

lemma send_all_step:
  assumes "os_send os fd bs w = (SysOk k, w1)" "0 < k" "k \<le> length bs"
  shows "send_all os e fd bs w = (if k = length bs then (Inr (), w1) else send_all os e fd (drop k bs) w1)"
  using assms by (subst send_all.simps) (auto simp: sent_def Let_def)

lemma send_all_delivers:
  assumes "os_ok os" "send_all os e fd bs w = (Inr (), w')"
  shows "delivered os fd bs [] w w'"
  using assms
proof (induction bs arbitrary: w rule: length_induct)
  case (1 bs)
  obtain r w1 where r: "os_send os fd bs w = (r, w1)" by fastforce
  with 1(3) obtain k where k: "r = SysOk k" "0 < k"
    by (subst (asm) send_all.simps) (auto simp: sent_Inr Let_def split: sum.splits)
  have le: "k \<le> length bs" using os_sendD[OF assms(1)] r k by blast
  note s = send_all_step[OF r[unfolded k(1)] k(2) le, of e]
  have "delivered os fd (drop k bs) [] w1 w'"
  proof (cases "k = length bs")
    case True
    with s 1(3) show ?thesis by (simp add: delivered_done)
  next
    case False
    then have "length (drop k bs) < length bs" "send_all os e fd (drop k bs) w1 = (Inr (), w')" using s k le 1(3) by simp_all
    with 1(1) assms(1) show ?thesis by blast
  qed
  then show ?case using r k le by (auto intro: delivered_step)
qed

lemma delivers_send_all:
  assumes "delivered os fd bs rest w w'" "rest = []" "bs \<noteq> []"
  shows "send_all os e fd bs w = (Inr (), w')"
  using assms
proof (induction rule: delivered.induct)
  case (delivered_step bs w n w1 rest w2)
  note s = send_all_step[OF delivered_step(1-3), of e]
  show ?case
  proof (cases "n = length bs")
    case True
    with delivered_step(4,6) have "w1 = w2" by (auto elim: delivered.cases)
    with True s show ?thesis by simp
  next
    case False
    with delivered_step s show ?thesis by simp
  qed
qed simp

text \<open>The write ends, and leaves in the buffer what was not taken when \<open>send\<close> failed.\<close>

lemma blocking_write_spec:
  assumes "os_ok os" "buffer_inv b"
  shows "\<exists>e b' w' w1. sock_blocking_write os errno0 fd b w = Some (e, b', w') \<and> buffer_inv b'
    \<and> delivered os fd (buffer_window b) (buffer_window b') w w1
    \<and> (if buffer_window b \<noteq> [] \<and> buffer_window b' = [] then e = 0 \<and> w' = w1
       else sent errno0 (fst (os_send os fd (buffer_window b') w1)) = Inl e \<and> w' = snd (os_send os fd (buffer_window b') w1))"
  using assms(2)
proof (induction "length (buffer_window b)" arbitrary: b w rule: less_induct)
  case less
  note inv = less.prems
  obtain r w1 where r: "os_send os fd (buffer_window b) w = (r, w1)" by fastforce
  note rp = read_ptr_eq[OF inv]
  show ?case
  proof (cases "sent errno0 r")
    case (Inl e)
    have nz: "buffer_window b \<noteq> [] \<and> buffer_window b = [] \<longleftrightarrow> False" by blast
    have "sock_blocking_write os errno0 fd b w = Some (e, b, w1)"
      using rp r Inl by (subst sock_blocking_write.simps) simp
    then show ?thesis using r Inl inv
      by (intro exI[of _ e] exI[of _ b] exI[of _ w1] exI[of _ w] conjI) (simp_all add: delivered_done)
  next
    case (Inr k)
    then have k: "r = SysOk k" "0 < k" by (simp_all add: sent_Inr)
    have le: "k \<le> length (buffer_window b)" using os_sendD[OF assms(1)] r k by blast
    from read_adv_spec[OF inv le] obtain b1 where b1: "buffer_read_adv b (int k) = Some b1" "buffer_inv b1"
      "buffer_window b1 = drop k (buffer_window b)" by blast
    have ne: "buffer_window b \<noteq> []" using k le by auto
    note cr = can_read_iff[OF b1(2)]
    have run: "sock_blocking_write os errno0 fd b w = (if buffer_can_read b1 then sock_blocking_write os errno0 fd b1 w1 else Some (0, b1, w1))"
      using rp r Inr b1(1) by (subst sock_blocking_write.simps) simp
    show ?thesis
    proof (cases "buffer_window b1 = []")
      case True
      have "delivered os fd (buffer_window b) (buffer_window b1) w w1"
        by (rule delivered_step[OF r[unfolded k(1)] k(2) le]) (simp add: b1(3) delivered_done)
      then show ?thesis using run cr True b1(2) ne by auto
    next
      case False
      have "length (buffer_window b1) < length (buffer_window b)" using b1(3) k le by simp
      from less.hyps[OF this b1(2), of w1] obtain e b' w' w2 where i:
        "sock_blocking_write os errno0 fd b1 w1 = Some (e, b', w')" "buffer_inv b'"
        "delivered os fd (buffer_window b1) (buffer_window b') w1 w2"
        "if buffer_window b1 \<noteq> [] \<and> buffer_window b' = [] then e = 0 \<and> w' = w2
         else sent errno0 (fst (os_send os fd (buffer_window b') w2)) = Inl e \<and> w' = snd (os_send os fd (buffer_window b') w2)"
        by blast
      have "delivered os fd (buffer_window b) (buffer_window b') w w2"
        using i(3) by (intro delivered_step[OF r[unfolded k(1)] k(2) le]) (simp add: b1(3))
      then show ?thesis using run cr False i ne by (intro exI[of _ e] exI[of _ b'] exI[of _ w'] exI[of _ w2]) simp
    qed
  qed
qed

text \<open>A stream that ends: the segments that \<open>recv\<close> delivers, each taken by the destination.\<close>

inductive streamed :: "'w os \<Rightarrow> int \<Rightarrow> int \<Rightarrow> byte list list \<Rightarrow> 'w \<Rightarrow> 'w \<Rightarrow> bool" for os src dst where
  streamed_end: "os_recv os src 4096 w = (SysOk [], w1) \<Longrightarrow> streamed os src dst [] w w1"
| streamed_error: "os_recv os src 4096 w = (SysErr e, w1) \<Longrightarrow> streamed os src dst [] w w1"
| streamed_seg: "os_recv os src 4096 w = (SysOk bs, w1) \<Longrightarrow> bs \<noteq> [] \<Longrightarrow> delivered os dst bs [] w1 w2
    \<Longrightarrow> streamed os src dst segs w2 w3 \<Longrightarrow> streamed os src dst (bs # segs) w w3"

lemma copy_streamed: "streamed os src dst segs w w' \<Longrightarrow> sock_blocking_copy os errno0 src dst w = Some (0, w')"
proof (induction rule: streamed.induct)
  case (streamed_seg w bs w1 w2 segs w3)
  then have "send_all os errno0 dst bs w1 = (Inr (), w2)" by (auto intro: delivers_send_all)
  with streamed_seg show ?case by (subst sock_blocking_copy.simps) simp
qed (subst sock_blocking_copy.simps, simp)+

text \<open>An array that starts with the string \<open>s\<close>.\<close>

definition str_at :: "byte list \<Rightarrow> byte list \<Rightarrow> bool" where
  "str_at d s \<longleftrightarrow> 0 \<notin> set s \<and> take (length s + 1) d = s @ [0]"

lemma str_atD:
  assumes "str_at d s"
  shows "cstr d = s" "terminated d" "c_strlen d = Some (length s)" "length s < length d"
proof -
  have "d = s @ 0 # drop (length s + 1) d" using assms append_take_drop_id[of "length s + 1" d] by (simp add: str_at_def)
  then obtain r where d: "d = s @ 0 # r" by blast
  have z: "0 \<notin> set s" using assms by (simp add: str_at_def)
  show c: "cstr d = s" unfolding d by (rule cstr_append_zero[OF z])
  show t: "terminated d" unfolding d by (simp add: terminated_def)
  show "c_strlen d = Some (length s)" using c t by simp
  show "length s < length d" unfolding d by simp
qed

lemma str_at_set:
  assumes "str_at d s" "length s \<le> i" "i < length d"
  shows "\<exists>e. c_set d i 0 = Some e \<and> str_at e s \<and> length e = length d"
proof -
  have "take (length s + 1) (d[i := 0]) = s @ [0]"
    using assms by (cases "i = length s") (auto simp: str_at_def take_update_swap list_update_append split: nat.splits)
  then show ?thesis using assms by (simp add: c_set_def str_at_def)
qed

lemma str_at_append:
  assumes "str_at d s" "0 \<notin> set u" "length s + length u < length d"
  shows "\<exists>e. c_memcpy d (length s) (u @ [0]) (length u + 1) = Some e \<and> str_at e (s @ u) \<and> length e = length d"
proof -
  have "take (length s) d = s" using assms(1) by (metis cstr_def str_atD(1) takeWhile_eq_take)
  then show ?thesis using assms by (auto simp: c_memcpy_def str_at_def store_at_def)
qed

lemma str_at_first:
  assumes "0 \<notin> set u" "length u < length d"
  shows "\<exists>e. c_memcpy d 0 (u @ [0]) (length u + 1) = Some e \<and> str_at e u \<and> length e = length d"
  using assms by (auto simp: c_memcpy_def str_at_def store_at_def)

fun addr_parts :: "sockaddr \<Rightarrow> (nat \<times> u16 \<times> byte list) option" where
  "addr_parts (Sin port p) = Some (AF_INET, port, p)"
| "addr_parts (Sin6 port p) = Some (AF_INET6, port, p)"
| "addr_parts (Sother _) = None"

lemma dec_digits_nonzero: "0 \<notin> set (dec_digits n)"
  using dec_digits_all[of n] is_digit_not_space by blast

lemma sockaddr_to_human_spec:
  assumes a: "addr_parts addr = Some (family, port, p)" and t: "os_ntop os family p buffsize = Some t" "0 \<notin> set t"
    and room: "length t + 6 < buffsize" "buffsize \<le> length buff"
  shows "\<exists>d. sockaddr_to_human os buff buffsize (Some addr) = Some d \<and> length d = length buff \<and> terminated d
    \<and> cstr d = t @ [58] @ dec_digits (unat (ntohs port))"
proof -
  let ?u = "dec_digits (unat (ntohs port))"
  have "unat (ntohs port) < 10 ^ 5" using unsigned_less[of "ntohs port", where 'a = nat] by simp
  then have u: "length ?u \<le> 5" by (rule dec_digits_length) simp
  have i: "buffsize - 1 < length buff" using room by simp
  have g: "length (t @ [58]) \<le> buffsize - 1" "length ((t @ [58]) @ ?u) \<le> buffsize - 1" using room u by simp_all
  obtain d1 where d1: "c_memcpy buff 0 (t @ [0]) (length t + 1) = Some d1" "str_at d1 t" "length d1 = length buff"
    using str_at_first[of t buff] t(2) room by auto
  obtain d2 where d2: "c_memcpy d1 (length t) ([58] @ [0]) (length [58 :: byte] + 1) = Some d2" "str_at d2 (t @ [58])" "length d2 = length buff"
    using str_at_append[OF d1(2), of "[58]"] d1(3) room by auto
  obtain d3 where d3: "c_set d2 (buffsize - 1) 0 = Some d3" "str_at d3 (t @ [58])" "length d3 = length buff"
    using str_at_set[OF d2(2) g(1)] d2(3) i by auto
  obtain d4 where d4: "c_memcpy d3 (length (t @ [58])) (?u @ [0]) (length ?u + 1) = Some d4" "str_at d4 ((t @ [58]) @ ?u)" "length d4 = length buff"
    using str_at_append[OF d3(2) dec_digits_nonzero, of "unat (ntohs port)"] d3(3) room u by auto
  obtain d5 where d5: "c_set d4 (buffsize - 1) 0 = Some d5" "str_at d5 ((t @ [58]) @ ?u)" "length d5 = length buff"
    using str_at_set[OF d4(2) g(2)] d4(3) i by auto
  have n1: "take buffsize [58 :: byte] = [58]" using room(1) by simp
  have cat: "c_strncat d1 (ascii '':'' @ [0]) buffsize = Some d2"
    using str_atD[OF d1(2)] d2(1) n1 by (simp add: c_strncat_def ascii_def)
  have tu: "take (buffsize - (length t + 1) - 1) ?u = ?u" using u room(1) by simp
  have pr: "c_snprintf_at d3 (length t + 1) (buffsize - (length t + 1)) ?u = Some d4"
    using room(1) d4(1) unfolding c_snprintf_at_def Let_def tu by simp
  have len: "c_strlen d3 = Some (length t + 1)" using str_atD(3)[OF d3(2)] by simp
  have "sockaddr_to_human os buff buffsize (Some addr) = Some d5"
    using a t(1) d1(1) cat d3(1) len pr d5(1) room(1)
    by (cases addr) (simp_all add: sockaddr_to_human_def)
  then show ?thesis using str_atD[OF d5(2)] d5(3) by simp
qed

text \<open>\<open>strncat\<close> bounds what it appends, not the total: a text that fills the buffer makes it write one byte more.\<close>

lemma sockaddr_to_human_overflow:
  assumes "addr_parts addr = Some (family, port, p)" "os_ntop os family p (length buff) = Some t" "0 \<notin> set t"
    and "length t + 1 = length buff"
  shows "sockaddr_to_human os buff (length buff) (Some addr) = None"
proof -
  obtain d1 where d1: "c_memcpy buff 0 (t @ [0]) (length t + 1) = Some d1" "str_at d1 t" "length d1 = length buff"
    using str_at_first[of t buff] assms(3,4) by auto
  have "take (length buff) [58 :: byte] = [58]" using assms(4) by (cases buff) auto
  then have "c_strncat d1 (ascii '':'' @ [0]) (length buff) = None"
    using str_atD[OF d1(2)] d1(3) assms(4) by (simp add: c_strncat_def ascii_def c_memcpy_def)
  then show ?thesis using assms(1,2) d1(1) by (cases addr) (simp_all add: sockaddr_to_human_def)
qed

end
