(* ===== verification/Edges.thy ===== *)
theory Edges
  imports Sample Journeys PamSample ClientServer NetUtils
begin

text \<open>
  What the handlers do on inputs at the edge of what they check, each with an application to the
  system of \<open>Sample\<close>. Most of it is behaviour that the code hardly intends.
\<close>

text \<open>The failure path after \<open>socks5_new\<close>. \<open>key->data\<close> was set to \<open>NULL\<close> on entry, so the
  \<open>socks5_destroy (key)\<close> at the end frees nothing: the connection stays allocated with no
  descriptor that leads to it, and it stays counted.\<close>

theorem accept_leak:
  assumes "os_ok os" "registry_ok s" "accepted os key s fd addr w" "sel_entry s fd \<noteq> None \<or> int FD_SETSIZE \<le> fd"
  shows "\<exists>c s'. socksv5_passive_accept os key s = Some (key\<lparr>k_data := None\<rparr>, s')
    \<and> sv_conns s' = (sv_conns s)(sv_next s := Some c) \<and> sel_entry s' = sel_entry s
    \<and> e_metrics s' = register_new_connection (e_metrics s) \<and> e_world s' = os_close os fd w"
  using accept_leaks[OF assms] .

theorem accept_leak_witness:
  "\<exists>c s'. socksv5_passive_accept sample_os \<lparr>k_fd = 3, k_data = None\<rparr> (sample_pair ([] :: byte list list)) = Some (\<lparr>k_fd = 3, k_data = None\<rparr>, s')
    \<and> sv_conns s' (sv_next (sample_pair ([] :: byte list list))) = Some c \<and> sel_entry s' = sel_entry (sample_pair ([] :: byte list list))"
proof -
  let ?k = "\<lparr>k_fd = 3, k_data = None\<rparr>"
  have acc: "accepted sample_os ?k (sample_pair ([] :: byte list list)) 5 (Sin (htons 50000) [127, 0, 0, 1]) []"
    by (simp add: accepted_def sample_nio) (simp add: sample_os_def)
  have reg: "registry_ok (sample_pair ([] :: byte list list))" and busy: "sel_entry (sample_pair ([] :: byte list list)) 5 \<noteq> None \<or> int FD_SETSIZE \<le> 5" by simp_all
  from accept_leak[OF sample_os_ok reg acc busy] obtain c s' where
    "socksv5_passive_accept sample_os ?k (sample_pair ([] :: byte list list)) = Some (?k\<lparr>k_data := None\<rparr>, s')"
    "sv_conns s' = (sv_conns (sample_pair ([] :: byte list list)))(sv_next (sample_pair ([] :: byte list list)) := Some c)" "sel_entry s' = sel_entry (sample_pair ([] :: byte list list))"
    by blast
  then show ?thesis by (intro exI[of _ c] exI[of _ s']) simp
qed

text \<open>A header that is not acceptable moves to \<open>REPLY\<close> with the code of the first check it fails, in
  the order version, command, reserved byte, address type.\<close>

theorem header_refused:
  assumes "os_ok os" "bufs_ok c" "client c = U_request r" "r_state r = VER_CMD_ATYP" "registry_ok e"
    and "os_recv os (k_fd key) (buffer_room (client_buffer c)) (e_world e) = (SysOk bs, w)"
    and "buffer_window (client_buffer c) @ bs = [ver, cmd, rsv, atyp] @ rest"
    and "ver \<noteq> SOCKS5_VERSION \<or> cmd \<noteq> 1 \<or> rsv \<noteq> RSV \<or> atyp \<notin> {IPv4_ADDR, FQDN, IPv6_ADDR}"
  shows "\<exists>c'. request_read os key (c, e) = Some (REPLY, c', poke (client_fd c) OP_WRITE (e\<lparr>e_world := w\<rparr>))
    \<and> client c' = U_reply \<lparr>rep = (if ver \<noteq> SOCKS5_VERSION then INVALID_SOCKS5_VERSION
        else if cmd \<noteq> 1 then COMMAND_NOT_SUPPORTED else if rsv \<noteq> RSV then INVALID_RSV
        else ADDRESS_TYPE_NOT_SUPPORTED), found_bnd_info = None\<rparr>"
  using request_header_refused[OF assms(1-7)] assms(8) by (auto simp: header_verdict_def)

theorem header_refused_witness:
  "\<exists>c' e'. request_read sample_os \<lparr>k_fd = 5, k_data = Some 0\<rparr> (sample_conn (U_request sample_request), sample_server [[5, 2, 0, 1]])
      = Some (REPLY, c', e') \<and> client c' = U_reply \<lparr>rep = COMMAND_NOT_SUPPORTED, found_bnd_info = None\<rparr>"
proof -
  have "buffer_window (client_buffer (sample_conn (U_request sample_request))) @ [5, 2, 0, 1] = [5, 2, 0, 1] @ []" by simp
  from header_refused[OF sample_os_ok _ _ _ _ _ this, of sample_request "sample_server [[5, 2, 0, 1]]" "\<lparr>k_fd = 5, k_data = Some 0\<rparr>" "[]"]
  show ?thesis by (auto simp: sample_request_def sample_os_def)
qed

text \<open>When \<open>socket\<close> fails for every address of the destination, \<open>try_connection\<close> steps past the last one
  and reads through the null pointer: no result is defined, for any list of addresses.\<close>

theorem addresses_run_out:
  assumes "\<And>a b p w. \<exists>x w'. os_socket os a b p w = (SysErr x, w')"
  shows "try_connection os key (c, e) = None"
  using try_results_exhausted[of os c "origin_resolution c" key e] assms by (simp add: try_connection_def)

theorem addresses_run_out_witness:
  "try_connection (sample_os\<lparr>os_socket := \<lambda>a b p w. (SysErr 24, w)\<rparr>) \<lparr>k_fd = 5, k_data = Some 0\<rparr>
     ((sample_conn (U_request sample_request))\<lparr>origin_resolution := [ip_result False 80 [127, 0, 0, 1]]\<rparr>, sample_server []) = None"
  by (rule addresses_run_out) simp

text \<open>The length check of \<open>resolve_dst_address\<close> asks for \<open>addrBytes + 1\<close> bytes, one less than address and
  port. A segment that ends after the first byte of the port is dialled with 0 for the second.\<close>

theorem port_needs_one_byte:
  assumes "os_ok os" "ip_text_ok os" "mem_ok os" "bufs_ok c" "arrays_ok c" "client c = U_request r" "r_state r = VER_CMD_ATYP"
    and "os_recv os (k_fd key) (buffer_room (client_buffer c)) (e_world e) = (SysOk bs, w)"
    and "\<And>n. \<exists>x w2. os_recv os (client_fd c) n w = (SysErr x, w2)"
    and "buffer_window (client_buffer c) @ bs = ip_request v6 a [p1]" "length a = addr_len v6"
  shows "\<exists>c' e'. request_read os key (c, e) = connect_to_dest os key (c', e')
    \<and> (\<exists>port. origin_resolution c' = [ip_result v6 port a] \<and> mem16 port = [p1, 0])"
  using request_read_ip[OF assms] by (auto simp: wire_port_short)

theorem port_needs_one_byte_witness:
  "\<exists>c' e'. request_read sample_os \<lparr>k_fd = 5, k_data = Some 0\<rparr> (sample_conn (U_request sample_request),
        sample_server [[5, 1, 0, 1, 127, 0, 0, 1, 31]]) = connect_to_dest sample_os \<lparr>k_fd = 5, k_data = Some 0\<rparr> (c', e')
    \<and> (\<exists>port. origin_resolution c' = [ip_result False port [127, 0, 0, 1]] \<and> mem16 port = [31, 0])"
proof -
  have "buffer_window (client_buffer (sample_conn (U_request sample_request))) @ [5, 1, 0, 1, 127, 0, 0, 1, 31]
      = ip_request False [127, 0, 0, 1] [31]" "length [127, 0, 0, 1 :: byte] = addr_len False"
    by (simp_all add: ip_request_def addr_len_def)
  from port_needs_one_byte[OF sample_os_ok sample_ip sample_mem _ _ _ _ _ _ this, of sample_request
      "\<lparr>k_fd = 5, k_data = Some 0\<rparr>" "sample_server [[5, 1, 0, 1, 127, 0, 0, 1, 31]]" "[]"]
  show ?thesis by (auto simp: sample_request_def sample_os_def)
qed

text \<open>A request whose header arrives in a segment of its own. \<open>resolve_dst_address\<close> calls \<open>recv\<close> again in
  the same event, finds nothing, and takes the empty buffer for the end of the connection.\<close>

theorem header_alone_closes:
  assumes "os_ok os" "bufs_ok c" "client c = U_request r" "r_state r = VER_CMD_ATYP"
    and "os_recv os (k_fd key) (buffer_room (client_buffer c)) (e_world e) = (SysOk bs, w)"
    and "\<And>n. \<exists>x w2. os_recv os (client_fd c) n w = (SysErr x, w2)"
    and "buffer_window (client_buffer c) @ bs = [SOCKS5_VERSION, 1, RSV, atyp]" "atyp = IPv4_ADDR \<or> atyp = FQDN \<or> atyp = IPv6_ADDR"
  shows "\<exists>c' e'. request_read os key (c, e) = Some (DONE, c', e')"
  using request_header_alone[OF assms] .

theorem header_alone_closes_witness:
  "\<exists>c' e'. request_read sample_os \<lparr>k_fd = 5, k_data = Some 0\<rparr> (sample_conn (U_request sample_request), sample_server [[5, 1, 0, 1]])
      = Some (DONE, c', e')"
proof -
  have "buffer_window (client_buffer (sample_conn (U_request sample_request))) @ [5, 1, 0, 1] = [SOCKS5_VERSION, 1, RSV, 1]"
    by simp
  from header_alone_closes[OF sample_os_ok _ _ _ _ _ this, of sample_request "\<lparr>k_fd = 5, k_data = Some 0\<rparr>"
      "sample_server [[5, 1, 0, 1]]" "[]"]
  show ?thesis by (auto simp: sample_request_def sample_os_def)
qed

text \<open>A name whose bytes are still on their way. Its length byte is read out of the buffer before the
  check, and the state stays \<open>DST_LEN\<close>: the next event takes the first byte of the name for the
  length.\<close>

theorem name_length_lost:
  assumes "os_ok os" "bufs_ok c" "client c = U_request r" "r_state r = DST_LEN" "r_atyp r = FQDN"
    and "os_recv os (client_fd c) (buffer_room (client_buffer c)) (e_world e) = (SysOk bs, w)"
    and "buffer_window (client_buffer c) @ bs = len # part" "len \<noteq> 0" "length part < unat len + 1"
  shows "\<exists>c'. request_read os key (c, e) = Some (REQUEST, c', e\<lparr>e_world := w\<rparr>)
    \<and> client c' = U_request r \<and> buffer_window (client_buffer c') = part"
  using fqdn_length_lost[OF assms] .

theorem name_length_lost_witness:
  "\<exists>c' e'. request_read sample_os \<lparr>k_fd = 5, k_data = Some 0\<rparr>
      (sample_conn (U_request \<lparr>r_state = DST_LEN, r_cmd = 1, r_atyp = FQDN\<rparr>), sample_server [[9, 108, 111]]) = Some (REQUEST, c', e')
    \<and> buffer_window (client_buffer c') = [108, 111]"
proof -
  let ?r = "\<lparr>r_state = DST_LEN, r_cmd = 1, r_atyp = FQDN\<rparr>"
  have "buffer_window (client_buffer (sample_conn (U_request ?r))) @ [9, 108, 111] = 9 # [108, 111]" by simp
  from name_length_lost[OF sample_os_ok _ _ _ _ _ this, of ?r "sample_server [[9, 108, 111]]" "[]" "\<lparr>k_fd = 5, k_data = Some 0\<rparr>"]
  show ?thesis by (auto simp: sample_os_def)
qed

text \<open>While a name is being resolved the client's descriptor stays registered for reading. Anything the
  client sends then runs \<open>get_fqdn\<close> with \<open>addrBytes\<close> undetermined: the event has no defined result.\<close>

theorem read_while_resolving:
  assumes "os_ok os" "bufs_ok c" "client c = U_request r" "r_state r = DST_RES" "r_atyp r = FQDN"
  shows "request_read os key (c, e) = None"
  using request_reread_undefined[OF assms] .

theorem read_while_resolving_witness:
  "request_read sample_os \<lparr>k_fd = 5, k_data = Some 0\<rparr>
     (sample_conn (U_request \<lparr>r_state = DST_RES, r_cmd = 1, r_atyp = FQDN\<rparr>), sample_server [[1]]) = None"
  by (rule read_while_resolving[OF sample_os_ok, of _ "\<lparr>r_state = DST_RES, r_cmd = 1, r_atyp = FQDN\<rparr>"]) simp_all

text \<open>\<open>selector_unregister_fd\<close> called on a live connection by anyone but \<open>socksv5_done\<close>, as
  \<open>selector_destroy\<close> does at shutdown. The close handler unregisters the same descriptor inside, and the
  outer call then clears the bit of the descriptor \<open>-1\<close> it finds: the run is undefined.\<close>

theorem destroy_faults:
  assumes "registry_ok s" "sel_entry s fd = Some it" "owned a fd s" "sv_conns s a = Some c" "\<not> closed c" "stm_ok c"
    and "fd = client_fd c \<or> fd = origin_fd c" "owned a (origin_fd c) s" "owned a (client_fd c) s"
    and "origin_fd c \<noteq> client_fd c" "0 \<le> client_fd c"
  shows "selector_unregister_fd (socks5_handlers os oth) fd s = None"
  using unregister_live[OF assms] .

theorem destroy_faults_witness:
  "selector_unregister_fd (socks5_handlers sample_os (\<lambda>_. no_handler)) 5 ((sample_pair [])\<lparr>sv_conns := [0 \<mapsto> sample_copying [1] []]\<rparr>) = None"
proof -
  let ?s = "(sample_pair ([] :: byte list list))\<lparr>sv_conns := [0 \<mapsto> sample_copying [1] []]\<rparr>"
  have e: "sel_entry ?s = sel_entry (sample_pair ([] :: byte list list))" by (rule ext) simp
  have c: "\<not> closed (sample_copying [1] [])" "stm_ok (sample_copying [1] [])" "client_fd (sample_copying [1] []) = 5"
      "origin_fd (sample_copying [1] []) = 7"
    by (simp_all add: sample_copying_def stm_ok_def)
  have own: "owned 0 (origin_fd (sample_copying [1] [])) ?s" "owned 0 (client_fd (sample_copying [1] [])) ?s" "owned 0 5 ?s"
    by (simp_all add: owned_def e c(3,4))
  show ?thesis by (rule destroy_faults[OF _ _ own(3) _ c(1,2) _ own(1,2)]) (simp_all add: c)
qed

text \<open>Registering a free descriptor, changing its interest and unregistering it brings back exactly the
  registrations there were; \<open>max_fd\<close> and the two descriptor sets agree with the table again.\<close>

theorem registration_undone:
  assumes "registry_ok s" "\<not> INVALID_FD fd" "sel_entry s fd = None"
  shows "\<exists>s1 s2 s3. selector_register True fd (Some h) i d s = Some (SELECTOR_SUCCESS, s1)
    \<and> selector_set_interest fd j s1 = Some (SELECTOR_SUCCESS, s2)
    \<and> selector_unregister_fd_without_closing fd s2 = Some (SELECTOR_SUCCESS, s3)
    \<and> registry_ok s3 \<and> sel_entry s3 = sel_entry s"
  by (rule reg.register_drop) (use assms in simp_all)

theorem registration_undone_witness:
  "\<exists>s1 s2 s3. selector_register True 9 (Some SOCKS5_HANDLER) OP_READ (Some 3) (sample_pair []) = Some (SELECTOR_SUCCESS, s1)
    \<and> selector_set_interest 9 OP_WRITE s1 = Some (SELECTOR_SUCCESS, s2)
    \<and> selector_unregister_fd_without_closing 9 s2 = Some (SELECTOR_SUCCESS, s3) \<and> sel_entry s3 7 \<noteq> None"
proof -
  have "registry_ok (sample_pair [])" "\<not> INVALID_FD 9" "sel_entry (sample_pair []) 9 = None"
    by (simp_all add: INVALID_FD_def)
  from registration_undone[OF this, of SOCKS5_HANDLER OP_READ "Some 3" OP_WRITE] show ?thesis by force
qed

text \<open>The capacity check of \<open>selector_register\<close> is off by one: for the descriptor equal to \<open>fd_size\<close> the
  table is not grown and its item is read one past the end.\<close>

theorem register_at_the_edge:
  assumes "fd_size s < ITEMS_MAX_SIZE" "h \<noteq> None"
  shows "selector_register m (int (fd_size s)) h i d s = None"
  using register_at_capacity[OF assms] .

theorem register_at_the_edge_witness:
  "selector_register True 5 (Some SOCKS5_HANDLER) OP_READ None ((sample_server [])\<lparr>fds := replicate 5 (item_init zero_item)\<rparr>) = None"
  using register_at_the_edge[of "(sample_server [])\<lparr>fds := replicate 5 (item_init zero_item)\<rparr>" "Some SOCKS5_HANDLER" True OP_READ None]
  by simp

text \<open>\<open>userToRemove\<close> is \<open>NULL\<close> for a name that does not exist, and with one administrator the check
  that it is not the last one reads through it: the request stops the server.\<close>

theorem pam_remove_absent_faults:
  assumes "pam_good os (c, e)" "buffer_inv b" "buffer_window b = n # u @ rest" "length u = unat n" "length u < 255"
    and "terminated (pa_username (pm_auth c))" "is_admin (e_users e) (pa_username (pm_auth c))"
    and "totalAdmins (e_users e) = 1" "users_map (e_users e) (cstr u) = None" "pr_method (pm_request c) = 3"
  shows "handle_pam_request_method os b (c, e) = None"
  using handle_remove_absent[OF assms(1-9)] assms(10) by (simp add: handle_pam_request_method_def)

theorem pam_remove_absent_faults_witness:
  "handle_pam_request_method sample_os (holding [1, 98]) (sample_pam None (ascii ''admin'') None 3, sample_server []) = None"
  by (rule pam_remove_absent_faults[OF sample_pam_good, where n = 1 and u = "[98]" and rest = "[]"])
    (use sample_admin in \<open>simp_all add: holding_ok sample_db_ok is_admin_def ascii_admin\<close>)

text \<open>\<open>pam_done\<close> unregisters the descriptor, which calls \<open>pam_close\<close> and frees the connection, and then
  closes the descriptor; nothing else changes.\<close>

theorem pam_done_releases:
  assumes "registry_ok s" "k_data key = Some a" "pm_conns s a = Some c" "sel_entry s (pm_client_fd c) = Some it"
    and "it_handler it = Some PAM_HANDLER" "it_data it = Some a"
  shows "\<exists>s'. pam_done os oth key s = Some (key, s') \<and> pm_conns s' = (pm_conns s)(a := None)
    \<and> sel_entry s' = (sel_entry s)(pm_client_fd c := None) \<and> registry_ok s'
    \<and> e_world s' = os_close os (pm_client_fd c) (e_world s)"
  using pam_done_spec[OF assms, of os oth] by blast

theorem pam_done_releases_witness:
  "\<exists>s'. pam_done sample_os (\<lambda>_. no_handler) \<lparr>k_fd = 5, k_data = Some 0\<rparr> (sample_pam_open []) = Some (\<lparr>k_fd = 5, k_data = Some 0\<rparr>, s')
    \<and> pm_conns s' 0 = None \<and> sel_entry s' 5 = None"
proof -
  have s: "registry_ok (sample_pam_open ([] :: byte list list))" by simp
  from pam_done_releases[OF s, of "\<lparr>k_fd = 5, k_data = Some 0\<rparr>" 0 "sample_pam (Some PASS) [] None 0" _ sample_os "\<lambda>_. no_handler"]
  show ?thesis by auto
qed

text \<open>A new connection: one more entry in the registry, for the accepted descriptor, waiting for
  readability and pointing to the new connection; one more connection counted; and a machine
  whose invariant holds, so that everything proved of runs from a fresh connection applies.\<close>

theorem accept_ready:
  assumes "os_ok os" "names_ok os" "fresh_fds os fd" "env_ok s" "accepted os key s fd addr w"
    and "0 \<le> fd" "fd < int FD_SETSIZE" "sel_entry s fd = None"
  shows "\<exists>c s'. socksv5_passive_accept os key s = Some (key\<lparr>k_data := None\<rparr>, s')
    \<and> sv_conns s' = (sv_conns s)(sv_next s := Some c) \<and> client_fd c = fd \<and> client_addr c = addr
    \<and> sel_entry s' = (sel_entry s)(fd \<mapsto> \<lparr>it_fd = fd, it_interest = OP_READ, it_handler = Some SOCKS5_HANDLER,
         it_data = Some (sv_next s)\<rparr>)
    \<and> e_metrics s' = register_new_connection (e_metrics s) \<and> env_ok s' \<and> machine.minv os (stm c) (c, s')
    \<and> e_calls s' = accept_log os addr s"
  using accept_spec[OF assms] .

theorem accept_ready_witness:
  "\<exists>c s'. socksv5_passive_accept sample_os \<lparr>k_fd = 3, k_data = None\<rparr> (sample_server []) = Some (\<lparr>k_fd = 3, k_data = None\<rparr>, s')
    \<and> sv_conns s' = [0 \<mapsto> c] \<and> client_fd c = 5"
proof -
  have "accepted sample_os \<lparr>k_fd = 3, k_data = None\<rparr> (sample_server []) 5 (Sin (htons 50000) [127, 0, 0, 1]) []"
    by (simp add: accepted_def sample_nio) (simp add: sample_os_def)
  from accept_ready[OF sample_os_ok sample_names_ok _ _ this] sample_fresh[of 5] show ?thesis by fastforce
qed

text \<open>The client reads an answer as the server writes it: version, status, the length in network order
  and the body.\<close>

theorem client_reads_answer:
  assumes "os_malloc os w = (True, w1)" "os_recv os sock 4 w1 = (SysOk ([v, 0] @ mem16 (htons n)), w2)" "0 < n"
    and "os_malloc os w2 = (True, w3)" "os_recv os sock (unat n) w3 = (SysOk body, w4)" "length body = unat n" "os_ok os"
  shows "receive_response os sock w = (Some \<lparr>resp_ver = v, resp_status = 0, resp_nbody = n, resp_body = Some body\<rparr>, w4)"
  by (rule reads_answer[OF assms])

theorem client_reads_answer_witness:
  "receive_response sample_os 3 [[1, 0, 0, 2], [104, 105]] = (Some \<lparr>resp_ver = 1, resp_status = 0, resp_nbody = 2, resp_body = Some [104, 105]\<rparr>, [])"
  by (rule client_reads_answer[OF sample_malloc _ _ sample_malloc _ _ sample_os_ok, where ?w2.0 = "[[104, 105]]"])
    (simp_all add: sample_os_def mem16_htons)

text \<open>
  When \<open>getsockname\<close> fails, as it does for the descriptor \<open>-1\<close> of a connection that could not be
  made, the write event answers \<open>ERROR\<close> and sends nothing: the client never sees the reply code.
\<close>

theorem error_reply_lost:
  assumes "os_ok os" "names_ok os" "bufs_ok c" "client c = U_reply r" "buffer_window (origin_buffer c) = []" "registry_ok e"
    and "os_getsockname os (origin_fd c) (e_world e) = (SysErr x, w)"
  shows "\<exists>c1 e1. reply_arrival os REPLY key (c, e) = Some (c1, e1)
    \<and> reply_write os key (c1, e1) = Some (ERROR, c1, e1) \<and> e_world e1 = w"
proof -
  obtain c1 e1 where a: "reply_arrival os REPLY key (c, e) = Some (c1, e1)" "bufs_ok c1"
      "client c1 = U_reply (r\<lparr>found_bnd_info := Some False\<rparr>)" "e1 = e\<lparr>e_world := w\<rparr>"
    using reply_arrival_spec[OF assms(3-5,2), of REPLY key e] assms(7) by auto
  have "registry_ok e1" using assms(6) a(4) by simp
  from reply_write_spec[OF assms(1) a(2,3) _ this] a show ?thesis by auto
qed

theorem error_reply_lost_witness:
  "\<exists>c1 e1. reply_arrival sample_os REPLY \<lparr>k_fd = 5, k_data = Some 0\<rparr>
      (sample_conn (U_reply \<lparr>rep = 5, found_bnd_info = None\<rparr>), sample_server []) = Some (c1, e1)
    \<and> reply_write sample_os \<lparr>k_fd = 5, k_data = Some 0\<rparr> (c1, e1) = Some (ERROR, c1, e1)"
proof -
  have "os_getsockname sample_os (- 1) [] = (SysErr 9, [])" by (simp add: sample_os_def)
  with error_reply_lost[OF sample_os_ok sample_names_ok, of "sample_conn (U_reply \<lparr>rep = 5, found_bnd_info = None\<rparr>)"
      "\<lparr>rep = 5, found_bnd_info = None\<rparr>" "sample_server []" 9 "[]" "\<lparr>k_fd = 5, k_data = Some 0\<rparr>"]
  show ?thesis by auto
qed

text \<open>
  \<open>user_remove\<close> forgets exactly the user named, and leaves \<open>totalAdmins\<close> as it was even when that user
  was an administrator.
\<close>

theorem removed_user_admin_count:
  assumes "users_ok db" "terminated name" "users_map db (cstr name) \<noteq> None"
  shows "\<exists>db'. user_remove db name = Some (USER_OK, db') \<and> users_ok db'
    \<and> users_map db' = (users_map db)(cstr name := None) \<and> user_total_admins db' = user_total_admins db"
  using user_remove_spec[OF assms(1,2)] assms(3) by (auto simp: user_total_admins_def)

theorem removed_user_admin_count_witness:
  "\<exists>db'. user_remove sample_db [97, 100, 109, 105, 110, 0] = Some (USER_OK, db') \<and> users_map db' = Map.empty
    \<and> user_total_admins db' = 1"
  using removed_user_admin_count[OF sample_db_ok(1), of "[97, 100, 109, 105, 110, 0]"]
  by (auto simp: terminated_def cstr_def sample_db_ok ascii_admin user_total_admins_def)

text \<open>
  When \<open>send\<close> returns 0, \<open>sock_blocking_write\<close> returns what \<open>errno\<close> was: with 0 it reports success,
  and everything is still in the buffer.
\<close>

theorem zero_send_succeeds:
  assumes "buffer_inv b" "os_send os fd (buffer_window b) w = (SysOk 0, w')"
  shows "sock_blocking_write os 0 fd b w = Some (0, b, w')"
  using assms read_ptr_eq[OF assms(1)] by (subst sock_blocking_write.simps) (simp add: sent_def)

theorem zero_send_succeeds_witness:
  "sock_blocking_write (sample_os\<lparr>os_send := (\<lambda>fd bs w. (SysOk 0, w))\<rparr>) 0 4 (holding [1, 2]) [] = Some (0, holding [1, 2], [])"
  by (rule zero_send_succeeds) (simp_all add: holding_ok)

end
