(* ===== verification/CharParser.thy ===== *)
theory CharParser
  imports Prelude
begin

unbundle bit_operations_syntax

text \<open>
  The table-driven parser engine of \<open>src/shared/parser.c\<close>. An action of a transition is a
  function on the event it fills. Reading past an array (the class table, the state table, a
  state's transitions) is undefined (\<open>None\<close>).
\<close>

record parser_event =
  e_type :: nat
  e_data :: "byte list"
  e_n :: nat

type_synonym parser_action = "parser_event \<Rightarrow> byte \<Rightarrow> parser_event"

record parser_state_transition =
  t_when :: int
  t_dest :: nat
  t_act1 :: parser_action
  t_act2 :: "parser_action option"

record parser_definition =
  states_count :: nat
  states :: "parser_state_transition list list"
  states_n :: "nat list"
  start_state :: nat

text \<open>\<open>e1.next\<close> is \<open>NULL\<close> or \<open>&e2\<close>: the field \<open>p_e1_next\<close>.\<close>

record parser =
  p_classes :: "nat list"
  p_def :: parser_definition
  p_state :: nat
  p_e1 :: parser_event
  p_e2 :: parser_event
  p_e1_next :: bool

definition any_char :: int where
  "any_char = 512"

definition zero_event :: parser_event where
  "zero_event = \<lparr>e_type = 0, e_data = [0, 0, 0], e_n = 0\<rparr>"

definition parser_init :: "bool \<Rightarrow> nat list \<Rightarrow> parser_definition \<Rightarrow> parser option" where
  "parser_init m classes def =
     (if m then Some \<lparr>p_classes = classes, p_def = def, p_state = start_state def,
                      p_e1 = zero_event, p_e2 = zero_event, p_e1_next = False\<rparr>
      else None)"

definition parser_reset :: "parser \<Rightarrow> parser" where
  "parser_reset p = p\<lparr>p_state := start_state (p_def p)\<rparr>"

text \<open>The condition of one transition on byte \<open>c\<close> of class \<open>type\<close>.\<close>

definition matches :: "parser_state_transition \<Rightarrow> nat \<Rightarrow> byte \<Rightarrow> bool" where
  "matches t type c =
     (if t_when t \<le> 255 then int (unat c) = t_when t
      else if t_when t = any_char then True
      else int type AND t_when t \<noteq> 0)"

text \<open>The loop over the \<open>n\<close> transitions of a state: the first that matches.\<close>

fun first_match :: "nat \<Rightarrow> byte \<Rightarrow> nat \<Rightarrow> parser_state_transition list \<Rightarrow> parser_state_transition option option" where
  "first_match type c 0 ts = Some None"
| "first_match type c (Suc n) [] = None"
| "first_match type c (Suc n) (t # ts) = (if matches t type c then Some (Some t) else first_match type c n ts)"

definition fire :: "parser_state_transition \<Rightarrow> byte \<Rightarrow> parser \<Rightarrow> parser" where
  "fire t c p =
     (let p1 = p\<lparr>p_e1 := t_act1 t (p_e1 p) c\<rparr>;
          p2 = (case t_act2 t of None \<Rightarrow> p1 | Some f \<Rightarrow> p1\<lparr>p_e1_next := True, p_e2 := f (p_e2 p1) c\<rparr>)
      in p2\<lparr>p_state := t_dest t\<rparr>)"

definition parser_feed :: "parser \<Rightarrow> byte \<Rightarrow> (parser_event \<times> parser) option" where
  "parser_feed p c = do {
     type \<leftarrow> nth_opt (p_classes p) (unat c);
     let p0 = p\<lparr>p_e1_next := False\<rparr>;
     state \<leftarrow> nth_opt (states (p_def p)) (p_state p);
     n \<leftarrow> nth_opt (states_n (p_def p)) (p_state p);
     r \<leftarrow> first_match type c n state;
     let p' = (case r of None \<Rightarrow> p0 | Some t \<Rightarrow> fire t c p0);
     Some (p_e1 p', p')
   }"

text \<open>\<open>static const unsigned classes[0xFF]\<close>: 255 entries.\<close>

definition parser_no_classes :: "nat list" where
  "parser_no_classes = replicate 255 0"

text \<open>A client's loop: the events of a run over a string.\<close>

fun feed_all :: "parser \<Rightarrow> byte list \<Rightarrow> (parser_event list \<times> parser) option" where
  "feed_all p [] = Some ([], p)"
| "feed_all p (c # cs) = do { (e, p1) \<leftarrow> parser_feed p c; (es, p2) \<leftarrow> feed_all p1 cs; Some (e # es, p2) }"

end
