(* ===== verification/StrCmpParser.thy ===== *)
theory StrCmpParser
  imports CharParser Users
begin

text \<open>
  The case-insensitive string recogniser of \<open>src/shared/parser_utils.c\<close>: the parser table it
  builds for a string \<open>s\<close>, and the proof that the parser answers, after each byte, whether
  what it read is \<open>s\<close>, may become \<open>s\<close>, or neither, up to ASCII case.
\<close>

abbreviation (input) STRING_CMP_MAYEQ :: nat where "STRING_CMP_MAYEQ \<equiv> 0"
abbreviation (input) STRING_CMP_EQ :: nat where "STRING_CMP_EQ \<equiv> 1"
abbreviation (input) STRING_CMP_NEQ :: nat where "STRING_CMP_NEQ \<equiv> 2"

text \<open>The name of an event; for another number the code returns a pointer that it has not set.\<close>

definition parser_utils_strcmpi_event :: "nat \<Rightarrow> byte list option" where
  "parser_utils_strcmpi_event type = (
     if type = STRING_CMP_MAYEQ then Some (ascii ''wait(c)'')
     else if type = STRING_CMP_EQ then Some (ascii ''eq(c)'')
     else if type = STRING_CMP_NEQ then Some (ascii ''neq(c)'')
     else None)"

definition set_event :: "nat \<Rightarrow> parser_action" where
  "set_event ty ret c = ret\<lparr>e_type := ty, e_n := 1, e_data := (e_data ret)[0 := c]\<rparr>"

definition may_eq :: parser_action where "may_eq = set_event STRING_CMP_MAYEQ"
definition eq :: parser_action where "eq = set_event STRING_CMP_EQ"
definition neq :: parser_action where "neq = set_event STRING_CMP_NEQ"

text \<open>\<open>ctype.h\<close> in the C locale, on the bytes of an ASCII string.\<close>

definition c_tolower :: "byte \<Rightarrow> byte" where
  "c_tolower c = (if 65 \<le> c \<and> c \<le> 90 then c + 32 else c)"

definition c_toupper :: "byte \<Rightarrow> byte" where
  "c_toupper c = (if 97 \<le> c \<and> c \<le> 122 then c - 32 else c)"

definition trans :: "int \<Rightarrow> nat \<Rightarrow> parser_action \<Rightarrow> parser_state_transition" where
  "trans w d a = \<lparr>t_when = w, t_dest = d, t_act1 = a, t_act2 = None\<rparr>"

text \<open>Row \<open>i\<close> of the transition table for a string of length \<open>n\<close>, and the two sinks.\<close>

definition strcmpi_row :: "byte list \<Rightarrow> nat \<Rightarrow> parser_state_transition list" where
  "strcmpi_row s i =
     (let n = length s; dest = (if i + 1 = n then n else i + 1);
          act = (if i + 1 = n then eq else may_eq)
      in [trans (int (unat (c_tolower (s ! i)))) dest act,
          trans (int (unat (c_toupper (s ! i)))) dest act,
          trans any_char (n + 1) neq])"

definition sink_row :: "nat \<Rightarrow> parser_state_transition list" where
  "sink_row n = [trans any_char (n + 1) neq]"

text \<open>
  \<open>m\<close>: did the three allocations succeed. \<open>tolower\<close> and \<open>toupper\<close> are undefined on a
  negative \<open>char\<close>, that is on a byte from 128 on.
\<close>

definition strcmpi_table :: "byte list \<Rightarrow> parser_definition" where
  "strcmpi_table s =
     \<lparr>states_count = length s + 2,
      states = map (strcmpi_row s) [0..<length s] @ [sink_row (length s), sink_row (length s)],
      states_n = replicate (length s) 3 @ [1, 1],
      start_state = 0\<rparr>"

definition parser_utils_strcmpi :: "bool \<Rightarrow> byte list \<Rightarrow> parser_definition option" where
  "parser_utils_strcmpi m str = do {
     n \<leftarrow> c_strlen str;
     (if \<not> m then Some \<lparr>states_count = 0, states = [], states_n = [], start_state = 0\<rparr>
      else do {
        c_assert (list_all (\<lambda>c. c < 128) (take n str));
        Some (strcmpi_table (take n str))
      })
   }"

section \<open>Correctness\<close>

lemma unat_tolower:
  "unat (c_tolower c) = (if 65 \<le> unat c \<and> unat c \<le> 90 then unat c + 32 else unat c)"
proof -
  have "unat (c + 32) = unat c + 32" if "unat c \<le> 90"
    using that by (simp add: unat_word_ariths)
  then show ?thesis by (simp add: c_tolower_def word_le_nat_alt)
qed

lemma unat_toupper:
  "unat (c_toupper c) = (if 97 \<le> unat c \<and> unat c \<le> 122 then unat c - 32 else unat c)"
  by (simp add: c_toupper_def word_le_nat_alt unat_sub)

lemma case_match: "c = c_tolower d \<or> c = c_toupper d \<longleftrightarrow> c_tolower c = c_tolower d"
  unfolding word_unat_eq_iff unat_tolower unat_toupper by auto

text \<open>The reference: the verdict on a string already read.\<close>

definition verdict :: "byte list \<Rightarrow> byte list \<Rightarrow> nat" where
  "verdict s cs =
     (let a = map c_tolower s; b = map c_tolower cs in
      if a = b then STRING_CMP_EQ
      else if take (length b) a = b then STRING_CMP_MAYEQ
      else STRING_CMP_NEQ)"

text \<open>The parser state that stands for having read \<open>cs\<close>.\<close>

definition state_of :: "byte list \<Rightarrow> byte list \<Rightarrow> nat" where
  "state_of s cs =
     (if map c_tolower cs = take (length cs) (map c_tolower s) then length cs else length s + 1)"

definition strcmpi_at :: "byte list \<Rightarrow> byte list \<Rightarrow> parser \<Rightarrow> bool" where
  "strcmpi_at s cs p \<longleftrightarrow> p_classes p = parser_no_classes \<and> p_def p = strcmpi_table s
     \<and> p_state p = state_of s cs \<and> length (e_data (p_e1 p)) = 3"

lemma matches_byte [simp]: "matches (trans (uint d) j a) ty c \<longleftrightarrow> c = d"
proof -
  have "uint d \<le> 255" using uint_bounded[of d] by simp
  then show ?thesis by (auto simp: matches_def trans_def word_uint_eq_iff)
qed

lemma matches_any [simp]: "matches (trans any_char j a) ty c"
  by (simp add: matches_def trans_def any_char_def)

lemma table_row:
  "i < length s \<Longrightarrow> nth_opt (states (strcmpi_table s)) i = Some (strcmpi_row s i)"
  "i < length s \<Longrightarrow> nth_opt (states_n (strcmpi_table s)) i = Some 3"
  by (simp_all add: strcmpi_table_def nth_append)

lemma table_sink:
  "i = length s \<or> i = length s + 1 \<Longrightarrow> nth_opt (states (strcmpi_table s)) i = Some (sink_row (length s))"
  "i = length s \<or> i = length s + 1 \<Longrightarrow> nth_opt (states_n (strcmpi_table s)) i = Some 1"
  by (auto simp: strcmpi_table_def nth_append)

lemma trans_sel [simp]:
  "t_dest (trans w j a) = j" "t_act1 (trans w j a) = a" "t_act2 (trans w j a) = None"
  by (simp_all add: trans_def)

lemma row_match:
  obtains t where "first_match ty c 3 (strcmpi_row s i) = Some (Some t)" "t_act2 t = None"
    "t_dest t = (if c_tolower c = c_tolower (s ! i) then i + 1 else length s + 1)"
    "t_act1 t = (if c_tolower c = c_tolower (s ! i) then (if i + 1 = length s then eq else may_eq) else neq)"
proof (cases "c_tolower c = c_tolower (s ! i)")
  case True
  then have "c = c_tolower (s ! i) \<or> c = c_toupper (s ! i)" by (simp add: case_match)
  then have "\<exists>t. first_match ty c 3 (strcmpi_row s i) = Some (Some t) \<and> t_act2 t = None
     \<and> t_dest t = i + 1 \<and> t_act1 t = (if i + 1 = length s then eq else may_eq)"
    by (cases "c = c_tolower (s ! i)")
      (auto simp: strcmpi_row_def Let_def numeral_3_eq_3)
  with True that show ?thesis by auto
next
  case False
  then have "c \<noteq> c_tolower (s ! i)" "c \<noteq> c_toupper (s ! i)" by (metis case_match)+
  then have "first_match ty c 3 (strcmpi_row s i) = Some (Some (trans any_char (length s + 1) neq))"
    by (simp add: strcmpi_row_def Let_def numeral_3_eq_3)
  with False that show ?thesis by (simp add: trans_def)
qed

lemma sink_match: "first_match ty c 1 (sink_row n) = Some (Some (trans any_char (n + 1) neq))"
  by (simp add: sink_row_def)

lemma state_of_snoc:
  "state_of s (cs @ [d]) =
     (if state_of s cs = length cs \<and> length cs < length s \<and> c_tolower d = c_tolower (s ! length cs)
      then length cs + 1 else length s + 1)"
proof -
  have len: "length cs \<le> length s" if "map c_tolower cs = take (length cs) (map c_tolower s)"
    using arg_cong[OF that, of length] by (simp add: min_def split: if_splits)
  show ?thesis
  proof (cases "length cs < length s")
    case True
    then show ?thesis by (auto simp: state_of_def take_Suc_conv_app_nth)
  next
    case False
    then show ?thesis using len by (auto simp: state_of_def dest!: arg_cong[where f = length])
  qed
qed

lemma verdict_of_state:
  "verdict s cs = (if state_of s cs = length cs \<and> length cs = length s then STRING_CMP_EQ
     else if state_of s cs = length cs \<and> length cs < length s then STRING_CMP_MAYEQ else STRING_CMP_NEQ)"
proof (cases "map c_tolower cs = take (length cs) (map c_tolower s)")
  case True
  have "length cs \<le> length s"
    using arg_cong[OF True, of length] by (simp add: min_def split: if_splits)
  moreover have "map c_tolower s = map c_tolower cs \<longleftrightarrow> length cs = length s"
    using True calculation by (metis length_map order_refl take_all)
  ultimately show ?thesis using True by (simp add: verdict_def state_of_def Let_def)
next
  case False
  then have "map c_tolower s \<noteq> map c_tolower cs" by (metis length_map order_refl take_all)
  with False show ?thesis by (auto simp: verdict_def state_of_def Let_def)
qed

text \<open>One byte.\<close>

lemma strcmpi_feed:
  assumes p: "strcmpi_at s cs p" and d: "d \<noteq> 255"
  shows "\<exists>e p'. parser_feed p d = Some (e, p') \<and> strcmpi_at s (cs @ [d]) p'
    \<and> e_type e = verdict s (cs @ [d]) \<and> e_n e = 1 \<and> e_data e ! 0 = d"
proof -
  have "unat d \<le> 255" using unsigned_less[of d, where ?'a = nat] by simp
  moreover have "unat d \<noteq> 255" using d by (simp add: word_unat_eq_iff)
  ultimately have cls: "nth_opt parser_no_classes (unat d) = Some 0"
    by (simp add: parser_no_classes_def)
  show ?thesis
  proof (cases "state_of s cs = length cs \<and> length cs < length s")
    case True
    obtain t where t: "first_match 0 d 3 (strcmpi_row s (length cs)) = Some (Some t)" "t_act2 t = None"
      "t_dest t = (if c_tolower d = c_tolower (s ! length cs) then length cs + 1 else length s + 1)"
      "t_act1 t = (if c_tolower d = c_tolower (s ! length cs)
         then (if length cs + 1 = length s then eq else may_eq) else neq)"
      by (rule row_match)
    show ?thesis
      using True p cls t table_row[of "length cs" s]
      by (auto simp: parser_feed_def strcmpi_at_def fire_def Let_def verdict_of_state state_of_snoc
          eq_def may_eq_def neq_def set_event_def)
  next
    case False
    then have sink: "state_of s cs = length s \<or> state_of s cs = length s + 1"
      by (cases "map c_tolower cs = take (length cs) (map c_tolower s)")
        (auto simp: state_of_def dest: arg_cong[where f = length])
    show ?thesis
      using False p cls sink_match[of 0 d "length s"] table_sink[OF sink]
      by (auto simp: parser_feed_def strcmpi_at_def fire_def Let_def verdict_of_state state_of_snoc
          neq_def set_event_def trans_def)
  qed
qed

text \<open>A run: the type of the last event is the verdict on everything read.\<close>

lemma strcmpi_run:
  assumes "strcmpi_at s pre p" "255 \<notin> set cs"
  shows "\<exists>es p'. feed_all p cs = Some (es, p') \<and> strcmpi_at s (pre @ cs) p'
    \<and> map e_type es = map (\<lambda>i. verdict s (pre @ take (Suc i) cs)) [0..<length cs]"
  using assms
proof (induction cs arbitrary: pre p)
  case Nil
  then show ?case by simp
next
  case (Cons c cs)
  obtain e p1 where e: "parser_feed p c = Some (e, p1)" "strcmpi_at s (pre @ [c]) p1"
      "e_type e = verdict s (pre @ [c])"
    using strcmpi_feed[OF Cons.prems(1), of c] Cons.prems(2) by auto
  obtain es p2 where r: "feed_all p1 cs = Some (es, p2)" "strcmpi_at s ((pre @ [c]) @ cs) p2"
      "map e_type es = map (\<lambda>i. verdict s ((pre @ [c]) @ take (Suc i) cs)) [0..<length cs]"
    using Cons.IH[OF e(2)] Cons.prems(2) by auto
  have "[0..<length (c # cs)] = 0 # map Suc [0..<length cs]"
    by (simp add: upt_conv_Cons map_Suc_upt del: upt_Suc)
  with e r show ?case by (simp del: upt_Suc)
qed

lemma strcmpi_start:
  assumes "parser_utils_strcmpi True str = Some d" "parser_init True parser_no_classes d = Some p"
  shows "strcmpi_at (cstr str) [] p"
proof -
  have "d = strcmpi_table (cstr str)"
    using assms(1)
    by (auto simp: parser_utils_strcmpi_def c_strlen_def cstr_def c_assert_def
        simp flip: takeWhile_eq_take split: if_splits)
  then show ?thesis
    using assms(2)
    by (auto simp: parser_init_def strcmpi_at_def state_of_def zero_event_def strcmpi_table_def)
qed

text \<open>Every verdict has a name.\<close>

lemma verdict_named: "parser_utils_strcmpi_event (verdict s t) \<noteq> None"
  by (auto simp: parser_utils_strcmpi_event_def verdict_def Let_def)

end
