(* ===== verification/Args.thy ===== *)
theory Args
  imports CText Users
begin

text \<open>
  The command line of the server, \<open>src/server/args.c\<close>. Strings are given by their bytes. What
  \<open>getopt_long\<close> returns is a parameter: the options in order, each with its argument, and how many
  arguments are left. Leaving the program with a code is \<open>Inl\<close>.
\<close>

abbreviation (input) MAX_USERS :: nat where "MAX_USERS \<equiv> 10"
abbreviation (input) USHRT_MAX :: int where "USHRT_MAX \<equiv> 65535"

record socks5args =
  socks_addr :: "byte list"
  socks_port :: u16
  mng_addr :: "byte list"
  mng_port :: u16
  disectors_enabled :: bool
  nusers :: nat
  users_arg :: "(byte list \<times> byte list) option list"

text \<open>\<open>'\0' != *end\<close>: the number does not end at the terminator.\<close>

definition port_arg :: "byte list \<Rightarrow> int + u16" where
  "port_arg s = (let (sl, n) = c_strtol s in
     if n = 0 \<or> drop n s \<noteq> [] \<or> sl < 0 \<or> USHRT_MAX < sl then Inl 1 else Inr (word_of_int sl))"

definition user_arg :: "byte list \<Rightarrow> int + (byte list \<times> byte list)" where
  "user_arg s = (case c_strchr 58 s of None \<Rightarrow> Inl 1 | Some p \<Rightarrow> Inr (take p s, drop (p + 1) s))"

definition default_args :: socks5args where
  "default_args = \<lparr>socks_addr = ascii ''0.0.0.0'', socks_port = 1080, mng_addr = ascii ''0.0.0.0'', mng_port = 8080,
     disectors_enabled = True, nusers = 0, users_arg = replicate MAX_USERS None\<rparr>"

text \<open>The body of the switch: 104 is \<open>'h'\<close>, then \<open>l\<close>, \<open>L\<close>, \<open>N\<close>, \<open>p\<close>, \<open>P\<close>, \<open>u\<close>, \<open>v\<close>.\<close>

definition parse_option :: "byte \<Rightarrow> byte list \<Rightarrow> socks5args \<Rightarrow> int + socks5args" where
  "parse_option c optarg args = (
     if c = 104 then Inl 1
     else if c = 108 then Inr (args\<lparr>socks_addr := optarg\<rparr>)
     else if c = 76 then Inr (args\<lparr>mng_addr := optarg\<rparr>)
     else if c = 78 then Inr (args\<lparr>disectors_enabled := False\<rparr>)
     else if c = 112 then (case port_arg optarg of Inl e \<Rightarrow> Inl e | Inr p \<Rightarrow> Inr (args\<lparr>socks_port := p\<rparr>))
     else if c = 80 then (case port_arg optarg of Inl e \<Rightarrow> Inl e | Inr p \<Rightarrow> Inr (args\<lparr>mng_port := p\<rparr>))
     else if c = 117 then
       (if nusers args \<ge> MAX_USERS then Inl 1
        else (case user_arg optarg of Inl e \<Rightarrow> Inl e
              | Inr u \<Rightarrow> Inr (args\<lparr>users_arg := (users_arg args)[nusers args := Some u], nusers := nusers args + 1\<rparr>)))
     else if c = 118 then Inl 0
     else Inl 1)"

fun parse_options :: "(byte \<times> byte list) list \<Rightarrow> socks5args \<Rightarrow> int + socks5args" where
  "parse_options [] args = Inr args"
| "parse_options ((c, optarg) # opts) args =
     (case parse_option c optarg args of Inl e \<Rightarrow> Inl e | Inr args \<Rightarrow> parse_options opts args)"

definition parse_args :: "(byte \<times> byte list) list \<Rightarrow> nat \<Rightarrow> int + socks5args" where
  "parse_args opts left_over = (case parse_options opts default_args of
     Inl e \<Rightarrow> Inl e
   | Inr args \<Rightarrow> if 0 < left_over then Inl 1 else Inr args)"

section \<open>What the options mean\<close>

definition args_ok :: "socks5args \<Rightarrow> bool" where
  "args_ok a \<longleftrightarrow> length (users_arg a) = MAX_USERS \<and> nusers a \<le> MAX_USERS
     \<and> (\<forall>i < MAX_USERS. (users_arg a ! i = None) = (nusers a \<le> i))"

definition arg_users :: "socks5args \<Rightarrow> (byte list \<times> byte list) list" where
  "arg_users a = map the (take (nusers a) (users_arg a))"

lemma default_args_ok: "args_ok default_args"
  by (simp add: args_ok_def default_args_def)

lemma args_add_user:
  assumes "args_ok a" "nusers a < MAX_USERS"
  shows "args_ok (a\<lparr>users_arg := (users_arg a)[nusers a := Some u], nusers := nusers a + 1\<rparr>)" (is "args_ok ?a")
    "arg_users (a\<lparr>users_arg := (users_arg a)[nusers a := Some u], nusers := nusers a + 1\<rparr>) = arg_users a @ [u]"
proof -
  have "(users_arg a)[nusers a := Some u] ! i = None \<longleftrightarrow> nusers a < i" if "i < MAX_USERS" for i
    using assms(1,2) that by (cases "i = nusers a") (auto simp: args_ok_def)
  then show "args_ok ?a" using assms(1,2) by (simp add: args_ok_def Suc_le_eq)
  show "arg_users ?a = arg_users a @ [u]"
    using assms(1,2) by (simp add: arg_users_def args_ok_def take_Suc_conv_app_nth)
qed

lemma port_arg_digits: "n \<le> 65535 \<Longrightarrow> port_arg (dec_digits n) = Inr (of_nat n)"
  using strtol_digits[of "[]" n] by (simp add: port_arg_def)
    (use dec_digits_nonempty in blast)

lemma port_arg_too_big: "65535 < n \<Longrightarrow> int n \<le> LONG_MAX \<Longrightarrow> port_arg (dec_digits n) = Inl 1"
  using strtol_digits[of "[]" n] by (simp add: port_arg_def)

lemma user_arg_pair: "58 \<notin> set u \<Longrightarrow> user_arg (u @ 58 # p) = Inr (u, p)"
  by (simp add: user_arg_def strchr_first)

text \<open>The users of the command line, in its order, and the bound on how many there can be.\<close>

definition user_options :: "(byte list \<times> byte list) list \<Rightarrow> (byte \<times> byte list) list" where
  "user_options us = map (\<lambda>(u, p). (117, u @ 58 # p)) us"

lemma parse_user_options:
  assumes "args_ok a" "nusers a + length us \<le> MAX_USERS" "\<forall>(u, p) \<in> set us. 58 \<notin> set u"
  shows "\<exists>a'. parse_options (user_options us) a = Inr a' \<and> args_ok a' \<and> arg_users a' = arg_users a @ us
    \<and> nusers a' = nusers a + length us \<and> socks_addr a' = socks_addr a \<and> mng_addr a' = mng_addr a"
  using assms
proof (induction us arbitrary: a)
  case Nil
  then show ?case by (simp add: user_options_def)
next
  case (Cons x us)
  obtain u p where x: "x = (u, p)" by fastforce
  let ?a = "a\<lparr>users_arg := (users_arg a)[nusers a := Some x], nusers := nusers a + 1\<rparr>"
  have lt: "nusers a < MAX_USERS" using Cons.prems(2) by simp
  note ad = args_add_user[OF Cons.prems(1) lt, of x]
  have "parse_option 117 (u @ 58 # p) a = Inr ?a"
    using Cons.prems(3) lt x by (simp add: parse_option_def user_arg_pair)
  moreover obtain a' where "parse_options (user_options us) ?a = Inr a'" "args_ok a'" "arg_users a' = arg_users ?a @ us"
      "nusers a' = nusers ?a + length us" "socks_addr a' = socks_addr ?a" "mng_addr a' = mng_addr ?a"
    using Cons.IH[OF ad(1)] Cons.prems(2,3) by auto
  ultimately show ?case using ad(2) x by (simp add: user_options_def)
qed

text \<open>A command line of users only: the defaults for the rest.\<close>

lemma parse_users_only:
  assumes "length us \<le> MAX_USERS" "\<forall>(u, p) \<in> set us. 58 \<notin> set u"
  obtains args where "parse_args (user_options us) 0 = Inr args" "args_ok args" "arg_users args = us"
    "socks_addr args = ascii ''0.0.0.0''" "mng_addr args = ascii ''0.0.0.0''"
proof -
  have "nusers default_args + length us \<le> MAX_USERS" "arg_users default_args = []"
    using assms(1) by (simp_all add: default_args_def arg_users_def)
  with parse_user_options[OF default_args_ok this(1) assms(2)] show thesis
    by (auto simp: parse_args_def default_args_def intro: that)
qed

text \<open>The result of any command line is well formed: its users are exactly the ones of its options.\<close>

definition named_users :: "socks5args \<Rightarrow> (byte \<times> byte list) list \<Rightarrow> socks5args \<Rightarrow> bool" where
  "named_users a opts a' \<longleftrightarrow> args_ok a' \<and> list_all (\<lambda>(u, p). 58 \<notin> set u) (arg_users a')
     \<and> map (\<lambda>(u, p). u @ 58 # p) (arg_users a')
       = map (\<lambda>(u, p). u @ 58 # p) (arg_users a) @ map snd (filter (\<lambda>x. fst x = 117) opts)"

lemma user_argD: "user_arg s = Inr (u, p) \<Longrightarrow> s = u @ 58 # p \<and> 58 \<notin> set u"
  using strchrD by (auto simp: user_arg_def split: option.splits)

lemma parse_option_type:
  assumes "args_ok a" "list_all (\<lambda>(u, p). 58 \<notin> set u) (arg_users a)"
  shows "case parse_option c x a of Inl e \<Rightarrow> e = 0 \<or> e = 1 | Inr a' \<Rightarrow> named_users a [(c, x)] a'"
proof (cases "c = 117 \<and> nusers a < MAX_USERS")
  case True
  have e: "user_arg x = Inl e \<Longrightarrow> e = 1" for e by (auto simp: user_arg_def split: option.splits)
  show ?thesis
  proof (cases "user_arg x")
    case (Inl k)
    then show ?thesis using True e by (simp add: parse_option_def)
  next
    case (Inr q)
    obtain u p where q: "q = (u, p)" by fastforce
    have n: "nusers a < MAX_USERS" using True by simp
    show ?thesis using True Inr q user_argD[of x u p] args_add_user[OF assms(1) n, of q] assms(2)
      by (simp add: parse_option_def named_users_def)
  qed
next
  case False
  have p: "port_arg x = Inl e \<Longrightarrow> e = 1" for e by (auto simp: port_arg_def Let_def split: if_splits prod.splits)
  have s: "args_ok (a\<lparr>socks_port := v\<rparr>)" "arg_users (a\<lparr>socks_port := v\<rparr>) = arg_users a"
    "args_ok (a\<lparr>mng_port := v\<rparr>)" "arg_users (a\<lparr>mng_port := v\<rparr>) = arg_users a"
    "args_ok (a\<lparr>socks_addr := x\<rparr>)" "arg_users (a\<lparr>socks_addr := x\<rparr>) = arg_users a"
    "args_ok (a\<lparr>mng_addr := x\<rparr>)" "arg_users (a\<lparr>mng_addr := x\<rparr>) = arg_users a"
    "args_ok (a\<lparr>disectors_enabled := d\<rparr>)" "arg_users (a\<lparr>disectors_enabled := d\<rparr>) = arg_users a" for v d
    using assms(1) by (simp_all add: args_ok_def arg_users_def)
  show ?thesis using False p assms(2) by (auto simp: parse_option_def named_users_def s split: sum.splits)
qed

lemma parse_options_type:
  assumes "args_ok a" "list_all (\<lambda>(u, p). 58 \<notin> set u) (arg_users a)"
  shows "case parse_options opts a of Inl e \<Rightarrow> e = 0 \<or> e = 1 | Inr a' \<Rightarrow> named_users a opts a'"
  using assms
proof (induction opts arbitrary: a)
  case Nil
  then show ?case by (simp add: named_users_def)
next
  case (Cons o1 opts)
  obtain c x where o1: "o1 = (c, x)" by fastforce
  show ?case
  proof (cases "parse_option c x a")
    case (Inl e)
    then show ?thesis using parse_option_type[OF Cons.prems, of c x] o1 by simp
  next
    case (Inr a1)
    then have n: "named_users a [(c, x)] a1" using parse_option_type[OF Cons.prems, of c x] by simp
    then have "case parse_options opts a1 of Inl e \<Rightarrow> e = 0 \<or> e = 1 | Inr a' \<Rightarrow> named_users a1 opts a'"
      by (intro Cons.IH) (simp_all add: named_users_def)
    then show ?thesis using n Inr o1 by (auto simp: named_users_def split: sum.splits)
  qed
qed

lemma parse_args_type:
  "case parse_args opts n of Inl e \<Rightarrow> e = 0 \<or> e = 1 | Inr a \<Rightarrow> n = 0 \<and> named_users default_args opts a"
proof -
  have "arg_users default_args = []" by (simp add: arg_users_def default_args_def)
  then have "case parse_options opts default_args of Inl e \<Rightarrow> e = 0 \<or> e = 1 | Inr a' \<Rightarrow> named_users default_args opts a'"
    by (intro parse_options_type default_args_ok) simp
  then show ?thesis by (auto simp: parse_args_def split: sum.splits)
qed

end
