(* ===== verification/ClientOptions.thy ===== *)
theory ClientOptions
  imports Args
begin

text \<open>
  \<open>src/client/args.c\<close>: the older copy of the server's command line that the client is linked with and
  does not call (its own is \<open>client_args.c\<close>, theory \<open>ClientArgs\<close>). The number of users is a local
  variable here, and the management address defaults to the loopback. As in \<open>Args\<close>, what
  \<open>getopt_long\<close> finds is a parameter, and leaving the program with a code is \<open>Inl\<close>.
\<close>

record client_socks5args =
  co_socks_addr :: "byte list"
  co_socks_port :: u16
  co_mng_addr :: "byte list"
  co_mng_port :: u16
  co_disectors_enabled :: bool
  co_users :: "(byte list \<times> byte list) option list"

definition co_port :: "byte list \<Rightarrow> int + u16" where
  "co_port s = (let (sl, n) = c_strtol s in
     if n = 0 \<or> drop n s \<noteq> [] \<or> sl < 0 \<or> USHRT_MAX < sl then Inl 1 else Inr (word_of_int sl))"

definition co_user :: "byte list \<Rightarrow> int + (byte list \<times> byte list)" where
  "co_user s = (case c_strchr 58 s of None \<Rightarrow> Inl 1 | Some p \<Rightarrow> Inr (take p s, drop (p + 1) s))"

definition co_default_args :: client_socks5args where
  "co_default_args = \<lparr>co_socks_addr = ascii ''0.0.0.0'', co_socks_port = 1080, co_mng_addr = ascii ''127.0.0.1'',
     co_mng_port = 8080, co_disectors_enabled = True, co_users = replicate MAX_USERS None\<rparr>"

text \<open>The body of the switch, on the arguments and the local \<open>nusers\<close>.\<close>

definition co_option :: "byte \<Rightarrow> byte list \<Rightarrow> client_socks5args \<times> nat \<Rightarrow> int + (client_socks5args \<times> nat)" where
  "co_option c optarg = (\<lambda>(args, n).
     if c = 104 then Inl 1
     else if c = 108 then Inr (args\<lparr>co_socks_addr := optarg\<rparr>, n)
     else if c = 76 then Inr (args\<lparr>co_mng_addr := optarg\<rparr>, n)
     else if c = 78 then Inr (args\<lparr>co_disectors_enabled := False\<rparr>, n)
     else if c = 112 then (case co_port optarg of Inl e \<Rightarrow> Inl e | Inr p \<Rightarrow> Inr (args\<lparr>co_socks_port := p\<rparr>, n))
     else if c = 80 then (case co_port optarg of Inl e \<Rightarrow> Inl e | Inr p \<Rightarrow> Inr (args\<lparr>co_mng_port := p\<rparr>, n))
     else if c = 117 then
       (if n \<ge> MAX_USERS then Inl 1
        else (case co_user optarg of Inl e \<Rightarrow> Inl e | Inr u \<Rightarrow> Inr (args\<lparr>co_users := (co_users args)[n := Some u]\<rparr>, n + 1)))
     else if c = 118 then Inl 0
     else Inl 1)"

fun co_options :: "(byte \<times> byte list) list \<Rightarrow> client_socks5args \<times> nat \<Rightarrow> int + (client_socks5args \<times> nat)" where
  "co_options [] s = Inr s"
| "co_options ((c, optarg) # opts) s = (case co_option c optarg s of Inl e \<Rightarrow> Inl e | Inr s \<Rightarrow> co_options opts s)"

definition co_parse_args :: "(byte \<times> byte list) list \<Rightarrow> nat \<Rightarrow> int + client_socks5args" where
  "co_parse_args opts left_over = (case co_options opts (co_default_args, 0) of
     Inl e \<Rightarrow> Inl e
   | Inr (args, n) \<Rightarrow> if 0 < left_over then Inl 1 else Inr args)"

section \<open>The same as the server's\<close>

text \<open>The server's arguments without the count, which the struct of the client has no field for.\<close>

definition without_count :: "socks5args \<Rightarrow> client_socks5args" where
  "without_count a = \<lparr>co_socks_addr = socks_addr a, co_socks_port = socks_port a, co_mng_addr = mng_addr a,
     co_mng_port = mng_port a, co_disectors_enabled = disectors_enabled a, co_users = users_arg a\<rparr>"

lemma co_option_server:
  "co_option c x (without_count a, nusers a)
     = (case parse_option c x a of Inl e \<Rightarrow> Inl e | Inr a' \<Rightarrow> Inr (without_count a', nusers a'))"
  by (simp add: co_option_def parse_option_def co_port_def port_arg_def co_user_def user_arg_def without_count_def Let_def
      split: sum.split prod.split option.split)

lemma co_options_server:
  "co_options opts (without_count a, nusers a)
     = (case parse_options opts a of Inl e \<Rightarrow> Inl e | Inr a' \<Rightarrow> Inr (without_count a', nusers a'))"
proof (induction opts arbitrary: a)
  case (Cons o1 opts)
  obtain c x where "o1 = (c, x)" by fastforce
  then show ?case using Cons.IH by (cases "parse_option c x a") (simp_all add: co_option_server)
qed simp

text \<open>Apart from the default address the copy reads every command line as the server does.\<close>

lemma co_parse_args_server:
  "co_parse_args opts left_over
     = (case parse_options opts (default_args\<lparr>mng_addr := ascii ''127.0.0.1''\<rparr>) of
          Inl e \<Rightarrow> Inl e | Inr a \<Rightarrow> if 0 < left_over then Inl 1 else Inr (without_count a))"
proof -
  have "co_default_args = without_count (default_args\<lparr>mng_addr := ascii ''127.0.0.1''\<rparr>)"
    "nusers (default_args\<lparr>mng_addr := ascii ''127.0.0.1''\<rparr>) = 0"
    by (simp_all add: co_default_args_def without_count_def default_args_def)
  then have "co_options opts (co_default_args, 0)
      = (case parse_options opts (default_args\<lparr>mng_addr := ascii ''127.0.0.1''\<rparr>) of Inl e \<Rightarrow> Inl e | Inr a' \<Rightarrow> Inr (without_count a', nusers a'))"
    using co_options_server[of opts "default_args\<lparr>mng_addr := ascii ''127.0.0.1''\<rparr>"] by simp
  then show ?thesis by (simp add: co_parse_args_def split: sum.split)
qed

text \<open>What comes back has at most ten users, each from an option, in the first places of the array.\<close>

lemma co_users_read:
  assumes "co_parse_args opts left_over = Inr a"
  shows "\<exists>n \<le> MAX_USERS. length (co_users a) = MAX_USERS \<and> (\<forall>i < MAX_USERS. (co_users a ! i = None) = (n \<le> i))
    \<and> map (\<lambda>u. fst u @ 58 # snd u) (map the (take n (co_users a))) = map snd (filter (\<lambda>x. fst x = 117) opts)"
proof -
  let ?d = "default_args\<lparr>mng_addr := ascii ''127.0.0.1''\<rparr>"
  obtain s where s: "parse_options opts ?d = Inr s" "a = without_count s"
    using assms by (auto simp: co_parse_args_server split: sum.splits if_splits)
  have d: "args_ok ?d" "arg_users ?d = []" by (simp_all add: args_ok_def arg_users_def default_args_def)
  have "named_users ?d opts s" using parse_options_type[OF d(1), of opts] d(2) s(1) by simp
  then show ?thesis using d(2) s(2)
    by (intro exI[of _ "nusers s"]) (simp add: named_users_def args_ok_def arg_users_def without_count_def case_prod_beta')
qed

end
