(* ===== verification/Calm.thy ===== *)
theory Calm
  imports Journeys
begin

text \<open>
  What the handlers of a proxied connection leave alone: the sets that \<open>select\<close> has returned, the
  list of jobs, and whatever the environment is extended with (the other connections, the
  management server, the log). All but \<open>connect_write\<close> also leave the recorded calls of the log
  alone, and none changes the address of the client.
\<close>

definition calm :: "('w, 'm) env_scheme \<Rightarrow> int set \<times> int set \<times> int list \<times> 'm" where
  "calm e = (slave_r e, slave_w e, resolution_jobs e, env.more e)"

lemma calm_simps [simp]:
  "calm (e\<lparr>e_world := w\<rparr>) = calm e" "calm (e\<lparr>e_users := u\<rparr>) = calm e" "calm (e\<lparr>e_metrics := m\<rparr>) = calm e"
  "calm (e\<lparr>e_threads := t\<rparr>) = calm e" "calm (e\<lparr>e_calls := l\<rparr>) = calm e" "calm (e\<lparr>fds := fs\<rparr>) = calm e" "calm (e\<lparr>max_fd := n\<rparr>) = calm e"
  "calm (e\<lparr>master_r := r\<rparr>) = calm e" "calm (e\<lparr>master_w := v\<rparr>) = calm e"
  by (simp_all add: calm_def)

lemma calm_poke [simp]: "calm (poke fd i e) = calm e"
  by (simp add: poke_def with_interest_def)

text \<open>The same with the recorded calls of the log, and the address of the client.\<close>

definition hush :: "('w, 'm) env_scheme \<Rightarrow> (int set \<times> int set \<times> int list \<times> 'm) \<times> log_call list" where
  "hush e = (calm e, e_calls e)"

lemma hush_simps [simp]:
  "hush (e\<lparr>e_world := w\<rparr>) = hush e" "hush (e\<lparr>e_users := u\<rparr>) = hush e" "hush (e\<lparr>e_metrics := m\<rparr>) = hush e"
  "hush (e\<lparr>e_threads := t\<rparr>) = hush e" "hush (e\<lparr>fds := fs\<rparr>) = hush e" "hush (e\<lparr>max_fd := n\<rparr>) = hush e"
  "hush (e\<lparr>master_r := r\<rparr>) = hush e" "hush (e\<lparr>master_w := v\<rparr>) = hush e" "hush (poke fd i e) = hush e"
  by (simp_all add: hush_def)

lemma hush_calm: "hush e' = hush e \<Longrightarrow> calm e' = calm e"
  by (simp add: hush_def)

definition discreet :: "socks5 \<Rightarrow> ('w, 'm) env_scheme \<Rightarrow> socks5 \<Rightarrow> ('w, 'm) env_scheme \<Rightarrow> bool" where
  "discreet c e c' e' \<longleftrightarrow> hush e' = hush e \<and> client_addr c' = client_addr c"

lemma set_rep_addr [simp]: "client_addr (set_rep r c) = client_addr c"
  by (simp add: set_rep_def)

lemma set_copy_addr [simp]: "client_addr (set_copy f x c) = client_addr c" "client_addr (set_buf b y c) = client_addr c"
  by (simp_all add: set_copy_def set_buf_def split: copy_ref.splits buf_ref.splits)

section \<open>The operations of the selector\<close>

lemma hush_fdset: "items_update_fdset_for_fd it e = Some e' \<Longrightarrow> hush e' = hush e"
  by (auto simp: items_update_fdset_for_fd_def Let_def split: if_splits elim!: bind_SomeE)

lemma hush_set_item [simp]: "hush (set_item i it e) = hush e"
  by (simp add: set_item_def)

lemma hush_set_interest: "selector_set_interest fd i e = Some (st, e') \<Longrightarrow> hush e' = hush e"
  by (auto simp: selector_set_interest_def Let_def split: if_splits elim!: bind_SomeE dest!: hush_fdset)

lemma hush_set_interest_key: "selector_set_interest_key k i e = Some (st, e') \<Longrightarrow> hush e' = hush e"
  by (auto simp: selector_set_interest_key_def split: if_splits dest!: hush_set_interest)

lemma hush_capacity: "ensure_capacity m n e = Some (st, e') \<Longrightarrow> hush e' = hush e"
  by (auto simp: ensure_capacity_def split: if_splits elim!: bind_SomeE)

lemma hush_register: "selector_register m fd h i d e = Some (st, e') \<Longrightarrow> hush e' = hush e"
  by (auto simp: selector_register_def Let_def split: if_splits prod.splits elim!: bind_SomeE dest!: hush_fdset hush_capacity)

lemma hush_unregister: "selector_unregister_fd_without_closing fd e = Some (st, e') \<Longrightarrow> hush e' = hush e"
  by (auto simp: selector_unregister_fd_without_closing_def drop_item_def Let_def split: if_splits elim!: bind_SomeE dest!: hush_fdset)

lemmas hush_selector = hush_set_interest hush_set_interest_key hush_register hush_unregister

section \<open>The handlers\<close>

lemma hush_greeting_methods: "greeting_methods key (c, e) = Some (q, c', e') \<Longrightarrow> discreet c e c' e'"
  by (auto simp: discreet_def greeting_methods_def Let_def split: if_splits prod.splits elim!: bind_SomeE dest!: hush_selector)

lemma hush_greeting_read: "greeting_read os key (c, e) = Some (q, c', e') \<Longrightarrow> discreet c e c' e'"
  by (auto simp: discreet_def greeting_read_def Let_def split: if_splits prod.splits elim!: bind_SomeE dest!: hush_greeting_methods)

lemma hush_greeting_write: "greeting_write os key (c, e) = Some (q, c', e') \<Longrightarrow> discreet c e c' e'"
  by (auto simp: discreet_def greeting_write_def Let_def split: if_splits prod.splits elim!: bind_SomeE dest!: hush_selector)

lemma hush_auth_passwd: "auth_passwd n key (c, e) = Some (q, c', e') \<Longrightarrow> discreet c e c' e'"
  by (auto simp: discreet_def auth_passwd_def Let_def split: if_splits prod.splits elim!: bind_SomeE dest!: hush_selector)

lemma hush_auth_plen: "auth_plen n key (c, e) = Some (q, c', e') \<Longrightarrow> discreet c e c' e'"
  by (auto simp: discreet_def auth_plen_def Let_def split: if_splits prod.splits elim!: bind_SomeE dest!: hush_auth_passwd)

lemma hush_auth_uname: "auth_uname n key (c, e) = Some (q, c', e') \<Longrightarrow> discreet c e c' e'"
  by (auto simp: discreet_def auth_uname_def Let_def split: if_splits prod.splits elim!: bind_SomeE dest!: hush_auth_plen)

lemma hush_auth_ulen: "auth_ulen n key (c, e) = Some (q, c', e') \<Longrightarrow> discreet c e c' e'"
  by (auto simp: discreet_def auth_ulen_def Let_def split: if_splits prod.splits elim!: bind_SomeE dest!: hush_auth_uname)

lemma hush_auth_ver: "auth_ver n key (c, e) = Some (q, c', e') \<Longrightarrow> discreet c e c' e'"
  by (auto simp: discreet_def auth_ver_def Let_def split: if_splits prod.splits elim!: bind_SomeE dest!: hush_auth_ulen)

lemma hush_auth_read: "auth_read os key (c, e) = Some (q, c', e') \<Longrightarrow> discreet c e c' e'"
  by (auto simp: discreet_def auth_read_def Let_def split: if_splits prod.splits elim!: bind_SomeE dest!: hush_auth_ver)

lemma hush_auth_write: "auth_write os key (c, e) = Some (q, c', e') \<Longrightarrow> discreet c e c' e'"
  by (auto simp: discreet_def auth_write_def Let_def split: if_splits prod.splits elim!: bind_SomeE dest!: hush_selector)

lemma next_addr: "get_next_resolution c = Some c' \<Longrightarrow> client_addr c' = client_addr c"
  by (auto simp: get_next_resolution_def split: list.splits)

lemma hush_try: "try_results os key rs (c, e) = Some (r, c', e') \<Longrightarrow> discreet c e c' e'"
proof (induction rs arbitrary: c e)
  case (Cons x rs)
  then show ?case
    by (auto simp: discreet_def Let_def split: sys.splits prod.splits if_splits elim!: bind_SomeE dest!: hush_selector next_addr Cons.IH)
qed simp

lemma hush_reply_state: "to_reply_state (c, e) = Some (q, c', e') \<Longrightarrow> discreet c e c' e'"
  by (auto simp: discreet_def to_reply_state_def elim!: bind_SomeE dest!: hush_selector)

lemma hush_connect: "connect_to_dest os key (c, e) = Some (q, c', e') \<Longrightarrow> discreet c e c' e'"
  by (auto simp: discreet_def connect_to_dest_def try_connection_def split: if_splits dial_result.splits elim!: bind_SomeE
      dest!: hush_selector hush_reply_state hush_try)

text \<open>The state \<open>CONNECT\<close> may write one line to the access log, and then it is over.\<close>

lemma hush_connect_write:
  "connect_write os key (c, e) = Some (q, c', e') \<Longrightarrow> calm e' = calm e \<and> client_addr c' = client_addr c
    \<and> (e_calls e' = e_calls e \<or> q = REPLY \<and> (\<exists>line. e_calls e' = e_calls e @ [Log_access line]))"
  by (auto simp: connect_write_def try_connection_def Let_def discreet_def hush_def
      split: sys.splits prod.splits if_splits dial_result.splits elim!: bind_SomeE dest!: hush_selector next_addr hush_try)

lemma hush_resolve_ip: "resolve_ip os f n mk (c, e) = (ok, c', e') \<Longrightarrow> discreet c e c' e'"
  by (auto simp: discreet_def resolve_ip_def Let_def split: prod.splits if_splits pton_result.splits)

lemma hush_resolve_fqdn: "resolve_fqdn os key e = (ok, e') \<Longrightarrow> hush e' = hush e"
  by (auto simp: resolve_fqdn_def split: prod.splits if_splits)

lemma request_fields_addr:
  "get_port c = Some c1 \<Longrightarrow> client_addr c1 = client_addr c"
  "get_fqdn n c = Some c1 \<Longrightarrow> client_addr c1 = client_addr c"
  "get_ipv4_address os c = Some (ok, c1) \<Longrightarrow> client_addr c1 = client_addr c"
  "get_ipv6_address os c = Some (ok, c1) \<Longrightarrow> client_addr c1 = client_addr c"
  by (auto simp: get_port_def get_fqdn_def get_ipv4_address_def get_ipv6_address_def get_ip_address_def Let_def split: option.splits if_splits
      elim!: bind_SomeE)

lemma hush_resolve_address: "resolve_address os atyp n key (c, e) = Some (q, c', e') \<Longrightarrow> discreet c e c' e'"
  by (auto simp: discreet_def resolve_address_def resolve_ipv4_def resolve_ipv6_def Let_def split: prod.splits if_splits elim!: bind_SomeE
      dest!: hush_reply_state hush_connect hush_resolve_ip hush_resolve_fqdn request_fields_addr)

lemma hush_resolve_dst: "resolve_dst_address os key (c, e) = Some (q, c', e') \<Longrightarrow> discreet c e c' e'"
  by (auto simp: discreet_def resolve_dst_address_def Let_def split: prod.splits if_splits elim!: bind_SomeE
      dest!: hush_reply_state hush_resolve_address)

lemma hush_request_read: "request_read os key (c, e) = Some (q, c', e') \<Longrightarrow> discreet c e c' e'"
  by (auto simp: discreet_def request_read_def Let_def split: prod.splits if_splits elim!: bind_SomeE
      dest!: hush_reply_state hush_resolve_dst)

lemma hush_reply_arrival: "reply_arrival os st key (c, e) = Some (c', e') \<Longrightarrow> discreet c e c' e'"
  by (auto simp: discreet_def reply_arrival_def Let_def split: sys.splits prod.splits elim!: bind_SomeE)

lemma hush_reply_write: "reply_write os key (c, e) = Some (q, c', e') \<Longrightarrow> discreet c e c' e'"
  by (auto simp: discreet_def reply_write_def Let_def split: prod.splits if_splits elim!: bind_SomeE dest!: hush_selector)

lemma hush_copy_arrival: "socksv5_copy_arrival st key (c, e) = Some (c', e') \<Longrightarrow> discreet c e c' e'"
  by (auto simp: discreet_def socksv5_copy_arrival_def Let_def elim!: bind_SomeE dest!: hush_selector)

lemma hush_update: "update_target_interests f (c, e) = Some (r, c', e') \<Longrightarrow> discreet c e c' e'"
  by (auto simp: discreet_def update_target_interests_def Let_def split: if_splits elim!: bind_SomeE dest!: hush_selector)

lemma hush_shut: "shut_direction os x hx bx y hy bb (c, e) = Some (c', e') \<Longrightarrow> discreet c e c' e'"
  by (auto simp: discreet_def shut_direction_def Let_def elim!: bind_SomeE dest!: hush_selector)

lemma hush_copy_or_done: "copy_or_done x y (c, e) = Some (q, c', e') \<Longrightarrow> discreet c e c' e'"
  by (auto simp: discreet_def copy_or_done_def elim!: bind_SomeE)

lemma hush_copy_read: "socksv5_copy_read os key (c, e) = Some (q, c', e') \<Longrightarrow> discreet c e c' e'"
  by (auto simp: discreet_def socksv5_copy_read_def Let_def split: prod.splits if_splits elim!: bind_SomeE
      dest!: hush_update hush_shut hush_copy_or_done)

lemma hush_copy_write: "socksv5_copy_write os key (c, e) = Some (q, c', e') \<Longrightarrow> discreet c e c' e'"
  by (auto simp: discreet_def socksv5_copy_write_def Let_def split: prod.splits if_splits elim!: bind_SomeE
      dest!: hush_update hush_shut hush_copy_or_done)

section \<open>The machine\<close>

lemma states_range: "nth_opt (socks5States os) q = Some d \<Longrightarrow> d = socks5States os ! q \<and> q < 8"
  by (auto simp: nth_opt_def split: if_splits)

lemma hush_arrival:
  assumes "q < 8" "run_hook (on_arrival (socks5States os ! q)) n key (c, e) = Some (c', e')"
  shows "discreet c e c' e'"
  using assms hush_reply_arrival[of os n key c e c' e'] hush_copy_arrival[of n key c e c' e']
  by (auto simp: states_arrival run_hook_def greeting_arrival_def auth_arrival_def request_arrival_def Let_def discreet_def
      split: if_splits)

lemma departure_same:
  assumes "nth_opt (socks5States os) q = Some d" "run_hook (on_departure d) n key s = Some s'"
  shows "s' = s"
  using assms states_range[OF assms(1)] by (auto simp: states_departure run_hook_def socksv5_copy_close_def split: if_splits)

lemma hush_arrival_at:
  "nth_opt (socks5States os) q = Some d \<Longrightarrow> run_hook (on_arrival d) n key (c, e) = Some (c', e') \<Longrightarrow> discreet c e c' e'"
  using states_range[of os q d] hush_arrival[of q os n key c e c' e'] by simp

text \<open>
  What an event in the state \<open>q\<close> that leads to \<open>r\<close> leaves alone: everything above, but for one line
  of the access log when \<open>CONNECT\<close> leads to \<open>REPLY\<close>.
\<close>

definition modest :: "nat \<Rightarrow> nat \<Rightarrow> socks5 \<Rightarrow> ('w, 'm) env_scheme \<Rightarrow> socks5 \<Rightarrow> ('w, 'm) env_scheme \<Rightarrow> bool" where
  "modest q r c e c' e' \<longleftrightarrow> calm e' = calm e \<and> client_addr c' = client_addr c
     \<and> (e_calls e' = e_calls e \<or> q = CONNECT \<and> r = REPLY \<and> (\<exists>line. e_calls e' = e_calls e @ [Log_access line]))"

lemma discreet_modest: "discreet c e c' e' \<Longrightarrow> modest q r c e c' e'"
  by (simp add: discreet_def modest_def hush_def)

lemma modest_handler:
  assumes "q < 8" "ready_handler ev (socks5States os ! q) = Some h" "h key (c, e) = Some (r, c', e')"
  shows "modest q r c e c' e'"
proof (cases "q = CONNECT \<and> h = connect_write os")
  case True
  then show ?thesis using hush_connect_write[of os key c e r c' e'] assms(3) by (simp add: modest_def)
next
  case False
  have "discreet c e c' e'"
    using assms False hush_greeting_read hush_greeting_write hush_auth_read hush_auth_write hush_request_read hush_connect
      hush_reply_write hush_copy_read hush_copy_write
    by (cases ev) (auto simp: ready_handler_def states_read states_write states_block request_block_def split: if_splits)
  then show ?thesis by (rule discreet_modest)
qed

definition phase :: "state_machine \<Rightarrow> nat" where
  "phase m = (case current m of None \<Rightarrow> initial m | Some q \<Rightarrow> q)"

lemma modest_machine:
  assumes "machine_step os ev key m (c, e) = Some (q, m', c', e')"
  shows "modest (phase m) q c e c' e'"
proof -
  obtain m1 c1 e1 p d h c2 e2 where 1: "handle_first (socks5States os) key m (c, e) = Some (m1, c1, e1)"
    "current m1 = Some p" "nth_opt (socks5States os) p = Some d" "ready_handler ev d = Some h" "h key (c1, e1) = Some (q, c2, e2)"
    "jump (socks5States os) q key m1 (c2, e2) = Some (m', c', e')"
    using assms unfolding step_eq by (auto simp: stm_handler_def elim!: bind_SomeE)
  have first: "discreet c e c1 e1" "p = phase m"
    using 1(1,2) by (auto simp: handle_first_def phase_def discreet_def split: option.splits elim!: bind_SomeE dest: hush_arrival_at)
  have "modest p q c1 e1 c2 e2"
    using modest_handler[of p ev os h key c1 e1 q c2 e2] 1(3-5) by (auto dest!: states_range)
  moreover have "discreet c2 e2 c' e'"
    using 1(6) by (auto simp: jump_def discreet_def split: if_splits option.splits elim!: bind_SomeE dest: departure_same hush_arrival_at)
  ultimately show ?thesis using first by (auto simp: modest_def discreet_def hush_def)
qed

lemma calm_machine: "machine_step os ev key m (c, e) = Some (q, m', c', e') \<Longrightarrow> calm e' = calm e"
  by (drule modest_machine) (simp add: modest_def)

end
