(* ===== verification/FdTable.thy ===== *)
theory FdTable
  imports Calm
begin

text \<open>
  The table of descriptors of the process, and what the handlers of a proxied connection do to it
  and to the registry: which descriptors they open, close, register and forget.
\<close>

section \<open>The system\<close>

text \<open>
  \<open>opn w\<close> is the set of the descriptors that are open. Only \<open>accept\<close>, \<open>socket\<close> and \<open>close\<close> change
  it, the first two return a descriptor that was not open, and \<open>getsockopt (SO_ERROR)\<close> does not fail
  on an open one.
\<close>

definition hands_out :: "('w \<Rightarrow> int set) \<Rightarrow> int sys \<Rightarrow> 'w \<Rightarrow> 'w \<Rightarrow> bool" where
  "hands_out opn r w w' \<longleftrightarrow> (case r of
     SysErr _ \<Rightarrow> opn w' = opn w
   | SysOk fd \<Rightarrow> 0 \<le> fd \<and> fd \<notin> opn w \<and> opn w' = insert fd (opn w))"

definition fd_table :: "'w os \<Rightarrow> ('w \<Rightarrow> int set) \<Rightarrow> bool" where
  "fd_table os opn \<longleftrightarrow>
     (\<forall>fd n w. opn (snd (os_recv os fd n w)) = opn w)
   \<and> (\<forall>fd bs w. opn (snd (os_send os fd bs w)) = opn w)
   \<and> (\<forall>fd x w. opn (os_shutdown os fd x w) = opn w)
   \<and> (\<forall>fd w. opn (os_close os fd w) = opn w - {fd})
   \<and> (\<forall>a b p w. hands_out opn (fst (os_socket os a b p w)) w (snd (os_socket os a b p w)))
   \<and> (\<forall>fd a w. opn (snd (os_connect os fd a w)) = opn w)
   \<and> (\<forall>fd w. opn (snd (os_so_error os fd w)) = opn w \<and> (fd \<in> opn w \<longrightarrow> (\<exists>n. fst (os_so_error os fd w) = SysOk n)))
   \<and> (\<forall>fd w. opn (snd (os_getsockname os fd w)) = opn w)
   \<and> (\<forall>fd w. hands_out opn (case fst (os_accept os fd w) of SysErr x \<Rightarrow> SysErr x | SysOk (f, a) \<Rightarrow> SysOk f) w (snd (os_accept os fd w)))
   \<and> (\<forall>fd w. opn (snd (os_getfd os fd w)) = opn w)
   \<and> (\<forall>fd n w. opn (snd (os_setfl os fd n w)) = opn w)
   \<and> (\<forall>w. opn (snd (os_malloc os w)) = opn w)
   \<and> (\<forall>w. opn (snd (os_thread os w)) = opn w)
   \<and> (\<forall>h s w. opn (snd (os_getaddrinfo os h s w)) = opn w)"

lemma table_shutdown: "fd_table os opn \<Longrightarrow> opn (os_shutdown os fd x w) = opn w"
  by (simp add: fd_table_def)

lemma table_close: "fd_table os opn \<Longrightarrow> opn (os_close os fd w) = opn w - {fd}"
  by (simp add: fd_table_def)

lemma table_calls:
  "os_recv os fd n w = (r, w') \<Longrightarrow> fd_table os opn \<Longrightarrow> opn w' = opn w"
  "os_send os fd bs w = (s, w') \<Longrightarrow> fd_table os opn \<Longrightarrow> opn w' = opn w"
  "os_connect os fd a w = (c, w') \<Longrightarrow> fd_table os opn \<Longrightarrow> opn w' = opn w"
  "os_so_error os fd w = (e, w') \<Longrightarrow> fd_table os opn \<Longrightarrow> opn w' = opn w"
  "os_getsockname os fd w = (g, w') \<Longrightarrow> fd_table os opn \<Longrightarrow> opn w' = opn w"
  "os_getfd os fd w = (k, w') \<Longrightarrow> fd_table os opn \<Longrightarrow> opn w' = opn w"
  "os_setfl os fd m w = (l, w') \<Longrightarrow> fd_table os opn \<Longrightarrow> opn w' = opn w"
  "os_malloc os w = (b, w') \<Longrightarrow> fd_table os opn \<Longrightarrow> opn w' = opn w"
  "os_thread os w = (b, w') \<Longrightarrow> fd_table os opn \<Longrightarrow> opn w' = opn w"
  "os_getaddrinfo os hn sv w = (i, w') \<Longrightarrow> fd_table os opn \<Longrightarrow> opn w' = opn w"
  by (simp_all add: fd_table_def) (metis snd_conv)+

lemma table_so_error: "fd_table os opn \<Longrightarrow> fd \<in> opn w \<Longrightarrow> \<exists>n w'. os_so_error os fd w = (SysOk n, w')"
  by (simp add: fd_table_def) (metis prod.collapse)

lemma table_socket:
  "os_socket os a b p w = (SysErr x, w') \<Longrightarrow> fd_table os opn \<Longrightarrow> opn w' = opn w"
  "os_socket os a b p w = (SysOk fd, w') \<Longrightarrow> fd_table os opn \<Longrightarrow> 0 \<le> fd \<and> fd \<notin> opn w \<and> opn w' = insert fd (opn w)"
proof -
  assume T: "fd_table os opn"
  have "hands_out opn (fst (os_socket os a b p w)) w (snd (os_socket os a b p w))" using T by (simp add: fd_table_def)
  then show "os_socket os a b p w = (SysErr x, w') \<Longrightarrow> opn w' = opn w"
    "os_socket os a b p w = (SysOk fd, w') \<Longrightarrow> 0 \<le> fd \<and> fd \<notin> opn w \<and> opn w' = insert fd (opn w)"
    by (simp_all add: hands_out_def)
qed

lemma table_accept:
  "os_accept os l w = (SysErr x, w') \<Longrightarrow> fd_table os opn \<Longrightarrow> opn w' = opn w"
  "os_accept os l w = (SysOk (fd, ad), w') \<Longrightarrow> fd_table os opn \<Longrightarrow> 0 \<le> fd \<and> fd \<notin> opn w \<and> opn w' = insert fd (opn w)"
proof -
  assume T: "fd_table os opn"
  have "hands_out opn (case fst (os_accept os l w) of SysErr x \<Rightarrow> SysErr x | SysOk (f, a) \<Rightarrow> SysOk f) w (snd (os_accept os l w))"
    using T by (simp add: fd_table_def)
  then show "os_accept os l w = (SysErr x, w') \<Longrightarrow> opn w' = opn w"
    "os_accept os l w = (SysOk (fd, ad), w') \<Longrightarrow> 0 \<le> fd \<and> fd \<notin> opn w \<and> opn w' = insert fd (opn w)"
    by (simp_all add: hands_out_def)
qed

lemma table_nio:
  assumes "selector_fd_set_nio os fd w = (n, w')" and T: "fd_table os opn"
  shows "opn w' = opn w"
  using assms(1) by (auto simp: selector_fd_set_nio_def split: prod.splits sys.splits dest!: table_calls(6,7)[OF _ T])

lemma table_recv_into:
  assumes "recv_into os fd b w = Some (n, b', w')" and T: "fd_table os opn"
  shows "opn w' = opn w"
  using assms(1) by (auto simp: recv_into_def split: prod.splits sys.splits elim!: bind_SomeE dest!: table_calls(1)[OF _ T])

lemma table_send_from:
  assumes "send_from os fd b w = Some (n, w')" and T: "fd_table os opn"
  shows "opn w' = opn w"
  using assms(1) by (auto simp: send_from_def split: prod.splits sys.splits elim!: bind_SomeE dest!: table_calls(2)[OF _ T])

lemmas table = table_calls table_socket table_nio table_recv_into table_send_from

section \<open>The registry as a map of roles\<close>

text \<open>The handler and the data of each registered descriptor, without its interest.\<close>

definition roles :: "('h, 'd, 'm) fdselector_scheme \<Rightarrow> int \<Rightarrow> ('h option \<times> 'd option) option" where
  "roles s fd = map_option (\<lambda>it. (it_handler it, it_data it)) (sel_entry s fd)"

lemma roles_ext [simp]:
  "roles (e\<lparr>e_world := w\<rparr>) = roles e" "roles (e\<lparr>e_users := u\<rparr>) = roles e" "roles (e\<lparr>e_metrics := m\<rparr>) = roles e"
  "roles (e\<lparr>e_threads := t\<rparr>) = roles e" "roles (e\<lparr>e_calls := l\<rparr>) = roles e"
  by (simp_all add: roles_def fun_eq_iff)

lemma roles_poke [simp]: "roles (poke fd i e) = roles e"
  by (auto simp: roles_def fun_eq_iff entry_poke split: option.splits)

lemma roles_None: "roles e fd = None \<longleftrightarrow> sel_entry e fd = None"
  by (simp add: roles_def)

lemma roles_cong: "sel_entry e' = sel_entry e \<Longrightarrow> roles e' = roles e"
  by (simp add: roles_def fun_eq_iff)

definition sound :: "('h, 'd, 'm) fdselector_scheme \<Rightarrow> bool" where
  "sound s \<longleftrightarrow> registry_ok s \<and> cleared s"

lemma cleared_poke: "cleared e \<Longrightarrow> cleared (poke fd i e)"
  using cleared_with_interest[of e fd _ i] by (auto simp: poke_def)

lemma sound_ext [simp]:
  "sound (e\<lparr>e_world := w\<rparr>) = sound e" "sound (e\<lparr>e_users := u\<rparr>) = sound e" "sound (e\<lparr>e_metrics := m\<rparr>) = sound e"
  "sound (e\<lparr>e_threads := t\<rparr>) = sound e" "sound (e\<lparr>e_calls := l\<rparr>) = sound e"
  by (simp_all add: sound_def)

text \<open>What a handler that opens, closes and registers nothing leaves as it was.\<close>

definition ledger ::
  "('w \<Rightarrow> int set) \<Rightarrow> ('w, 'm) env_scheme \<Rightarrow> ((int \<Rightarrow> (handler_ref option \<times> attachment option) option) \<times> int set \<times> 'm) option" where
  "ledger opn e = (if sound e then Some (roles e, opn (e_world e), env.more e) else None)"

definition ends :: "socks5 \<Rightarrow> int \<times> int \<times> bool" where
  "ends c = (client_fd c, origin_fd c, closed c)"

definition still :: "('w \<Rightarrow> int set) \<Rightarrow> ('w, 'm) env_scheme \<Rightarrow> ('w, 'm) env_scheme \<Rightarrow> bool" where
  "still opn e e' \<longleftrightarrow> (ledger opn e \<noteq> None \<longrightarrow> ledger opn e' = ledger opn e)"

lemma ledger_ext [simp]:
  "ledger opn (e\<lparr>e_users := u\<rparr>) = ledger opn e" "ledger opn (e\<lparr>e_metrics := m\<rparr>) = ledger opn e"
  "ledger opn (e\<lparr>e_threads := t\<rparr>) = ledger opn e" "ledger opn (e\<lparr>e_calls := l\<rparr>) = ledger opn e"
  by (simp_all add: ledger_def)

lemma ledger_world [simp]: "opn w = opn (e_world e) \<Longrightarrow> ledger opn (e\<lparr>e_world := w\<rparr>) = ledger opn e"
  by (simp add: ledger_def)

lemma ends_simps [simp]:
  "ends (c\<lparr>client := u\<rparr>) = ends c" "ends (c\<lparr>client_buffer := b\<rparr>) = ends c" "ends (c\<lparr>origin_buffer := b\<rparr>) = ends c"
  "ends (c\<lparr>c_atyp := a\<rparr>) = ends c" "ends (c\<lparr>origin_host := ho\<rparr>) = ends c" "ends (c\<lparr>origin_port := po\<rparr>) = ends c"
  "ends (c\<lparr>origin_resolution := rs\<rparr>) = ends c" "ends (c\<lparr>origin_copy := oc\<rparr>) = ends c" "ends (c\<lparr>stm := m\<rparr>) = ends c"
  "ends (set_rep r c) = ends c" "ends (set_copy f x c) = ends c" "ends (set_buf g b c) = ends c"
  by (simp_all add: ends_def set_rep_def set_copy_def set_buf_def split: copy_ref.splits buf_ref.splits)

lemma still_interest:
  "selector_set_interest fd i e = Some (st, e') \<Longrightarrow> still opn e e' \<and> e_world e' = e_world e"
  "selector_set_interest_key k i e = Some (st, e') \<Longrightarrow> still opn e e' \<and> e_world e' = e_world e"
proof -
  show 1: "still opn e e' \<and> e_world e' = e_world e" if "selector_set_interest fd i e = Some (st, e')" for fd
  proof -
    have "e_world e' = e_world e"
      using that by (auto simp: selector_set_interest_def items_update_fdset_for_fd_def set_item_def Let_def split: if_splits elim!: bind_SomeE)
    then show ?thesis using that set_interest_status[of e fd i] cleared_poke[of e fd i] by (auto simp: still_def ledger_def sound_def)
  qed
  show "selector_set_interest_key k i e = Some (st, e') \<Longrightarrow> still opn e e' \<and> e_world e' = e_world e"
    using 1 by (auto simp: selector_set_interest_key_def still_def split: if_splits)
qed

section \<open>The handlers that keep what they have\<close>

lemma still_greeting_methods: "greeting_methods key (c, e) = Some (q, c', e') \<Longrightarrow> still opn e e' \<and> ends c' = ends c \<and> q \<noteq> CONNECT"
  by (auto simp: greeting_methods_def Let_def still_def split: if_splits prod.splits elim!: bind_SomeE dest!: still_interest[where opn = opn])

lemma still_greeting_read:
  assumes T: "fd_table os opn" and r: "greeting_read os key (c, e) = Some (q, c', e')"
  shows "still opn e e' \<and> ends c' = ends c \<and> q \<noteq> CONNECT"
  using r by (auto simp: greeting_read_def Let_def still_def split: if_splits prod.splits elim!: bind_SomeE
      dest!: table_recv_into[OF _ T] still_greeting_methods[where opn = opn])

lemma still_greeting_write:
  assumes T: "fd_table os opn" and r: "greeting_write os key (c, e) = Some (q, c', e')"
  shows "still opn e e' \<and> ends c' = ends c \<and> q \<noteq> CONNECT"
  using r by (auto simp: greeting_write_def Let_def still_def split: if_splits prod.splits elim!: bind_SomeE
      dest!: table_send_from[OF _ T] still_interest[where opn = opn])

lemma still_auth_passwd: "auth_passwd n key (c, e) = Some (q, c', e') \<Longrightarrow> still opn e e' \<and> ends c' = ends c \<and> q \<noteq> CONNECT"
  by (auto simp: auth_passwd_def Let_def still_def split: if_splits prod.splits elim!: bind_SomeE dest!: still_interest[where opn = opn])

lemma still_auth_plen: "auth_plen n key (c, e) = Some (q, c', e') \<Longrightarrow> still opn e e' \<and> ends c' = ends c \<and> q \<noteq> CONNECT"
  by (auto simp: auth_plen_def Let_def still_def split: if_splits prod.splits elim!: bind_SomeE dest!: still_auth_passwd[where opn = opn])

lemma still_auth_uname: "auth_uname n key (c, e) = Some (q, c', e') \<Longrightarrow> still opn e e' \<and> ends c' = ends c \<and> q \<noteq> CONNECT"
  by (auto simp: auth_uname_def Let_def still_def split: if_splits prod.splits elim!: bind_SomeE dest!: still_auth_plen[where opn = opn])

lemma still_auth_ulen: "auth_ulen n key (c, e) = Some (q, c', e') \<Longrightarrow> still opn e e' \<and> ends c' = ends c \<and> q \<noteq> CONNECT"
  by (auto simp: auth_ulen_def Let_def still_def split: if_splits prod.splits elim!: bind_SomeE dest!: still_auth_uname[where opn = opn])

lemma still_auth_ver: "auth_ver n key (c, e) = Some (q, c', e') \<Longrightarrow> still opn e e' \<and> ends c' = ends c \<and> q \<noteq> CONNECT"
  by (auto simp: auth_ver_def Let_def still_def split: if_splits prod.splits elim!: bind_SomeE dest!: still_auth_ulen[where opn = opn])

lemma still_auth_read:
  assumes T: "fd_table os opn" and r: "auth_read os key (c, e) = Some (q, c', e')"
  shows "still opn e e' \<and> ends c' = ends c \<and> q \<noteq> CONNECT"
  using r by (auto simp: auth_read_def Let_def still_def split: if_splits prod.splits elim!: bind_SomeE
      dest!: table_recv_into[OF _ T] still_auth_ver[where opn = opn])

lemma still_auth_write:
  assumes T: "fd_table os opn" and r: "auth_write os key (c, e) = Some (q, c', e')"
  shows "still opn e e' \<and> ends c' = ends c \<and> q \<noteq> CONNECT"
  using r by (auto simp: auth_write_def Let_def still_def split: if_splits prod.splits elim!: bind_SomeE
      dest!: table_send_from[OF _ T] still_interest[where opn = opn])

lemma still_reply_state: "to_reply_state (c, e) = Some (q, c', e') \<Longrightarrow> still opn e e' \<and> ends c' = ends c \<and> q = REPLY \<and> c' = c"
  by (auto simp: to_reply_state_def Let_def still_def split: if_splits prod.splits elim!: bind_SomeE dest!: still_interest[where opn = opn])

text \<open>The reply: only a failure is followed by \<open>REQUEST\<close>, only the success by \<open>COPY\<close>.\<close>

lemma still_reply_arrival:
  assumes T: "fd_table os opn" and r: "reply_arrival os st key (c, e) = Some (c', e')"
  shows "still opn e e' \<and> ends c' = ends c
    \<and> (\<forall>x'. client c' = U_reply x' \<longrightarrow> (\<exists>x. client c = U_reply x \<and> rep x = rep x'))"
  using r by (auto simp: reply_arrival_def Let_def still_def the_reply_def split: if_splits prod.splits sys.splits client_union.splits elim!: bind_SomeE
      dest!: table_calls(5)[OF _ T])

lemma still_reply_write:
  assumes T: "fd_table os opn" and r: "reply_write os key (c, e) = Some (q, c', e')"
  shows "still opn e e' \<and> ends c' = ends c \<and> client c' = client c
    \<and> (q = REQUEST \<longrightarrow> (\<exists>x. client c = U_reply x \<and> rep x \<noteq> SUCCEDED)) \<and> q \<in> {REQUEST, REPLY, COPY, ERROR}"
  using r by (auto simp: reply_write_def Let_def still_def the_reply_def split: if_splits prod.splits client_union.splits elim!: bind_SomeE
      dest!: table_send_from[OF _ T] still_interest[where opn = opn])

lemma still_update: "update_target_interests f (c, e) = Some (r, c', e') \<Longrightarrow> still opn e e' \<and> ends c' = ends c"
  by (auto simp: update_target_interests_def Let_def still_def split: if_splits prod.splits elim!: bind_SomeE dest!: still_interest[where opn = opn])

lemma still_shut:
  assumes T: "fd_table os opn" and r: "shut_direction os x hx bx y hy bb (c, e) = Some (c', e')"
  shows "still opn e e' \<and> ends c' = ends c"
  using r by (auto simp: shut_direction_def Let_def still_def table_shutdown[OF T] split: if_splits prod.splits elim!: bind_SomeE
      dest!: still_interest[where opn = opn])

lemma still_copy_arrival: "socksv5_copy_arrival st key (c, e) = Some (c', e') \<Longrightarrow> still opn e e' \<and> ends c' = ends c"
  by (auto simp: socksv5_copy_arrival_def Let_def still_def split: if_splits prod.splits elim!: bind_SomeE dest!: still_interest[where opn = opn])

lemma copy_or_done_same: "copy_or_done x y (c, e) = Some (q, c', e') \<Longrightarrow> c' = c \<and> e' = e \<and> q \<in> {COPY, DONE}"
  by (auto simp: copy_or_done_def elim!: bind_SomeE)

lemma still_copy_read:
  assumes T: "fd_table os opn" and r: "socksv5_copy_read os key (c, e) = Some (q, c', e')"
  shows "still opn e e' \<and> ends c' = ends c \<and> q \<in> {COPY, DONE, ERROR}"
  using r by (auto simp: socksv5_copy_read_def Let_def still_def split: if_splits prod.splits elim!: bind_SomeE
      dest!: table_recv_into[OF _ T] still_update[where opn = opn] still_shut[OF T] copy_or_done_same)

lemma still_copy_write:
  assumes T: "fd_table os opn" and r: "socksv5_copy_write os key (c, e) = Some (q, c', e')"
  shows "still opn e e' \<and> ends c' = ends c \<and> q \<in> {COPY, DONE, ERROR}"
  using r by (auto simp: socksv5_copy_write_def Let_def still_def split: if_splits prod.splits elim!: bind_SomeE
      dest!: table_send_from[OF _ T] still_update[where opn = opn] still_shut[OF T] copy_or_done_same)

section \<open>The handlers that open and close\<close>

lemma ledger_register:
  assumes s: "sound (e :: ('w, 'm) env_scheme)" "roles e fd = None" and r: "selector_register m fd (Some h) i d e = Some (st, e')"
  shows "sound e' \<and> e_world e' = e_world e \<and> env.more e' = env.more e
    \<and> roles e' = (if st = SELECTOR_SUCCESS then (roles e)(fd \<mapsto> (Some h, d)) else roles e)"
proof (cases "INVALID_FD fd")
  case True
  then show ?thesis using r s(1) by (simp add: selector_register_def)
next
  case False
  have e: "registry_ok e" "sel_entry e fd = None" using s by (simp_all add: sound_def roles_None)
  have v: "0 \<le> fd" "nat fd < fd_size e" "fd < int ITEMS_MAX_SIZE" using valid_in_full[of e fd] e(1) False by (auto simp: INVALID_FD_def)
  have r': "st = SELECTOR_SUCCESS" "e' = with_item fd (Some h) i d e"
    using r register_free[OF _ False v(2) e(2), of "Some h"] e(1) by auto
  have "roles e' = (roles e)(fd \<mapsto> (Some h, d))"
    unfolding r'(2) roles_def entry_with_item[OF v(1,2)] by (simp add: fun_eq_iff)
  moreover have "e_world e' = e_world e" "env.more e' = env.more e" unfolding r'(2) by (simp_all add: with_item_def)
  ultimately show ?thesis
    using inv_with_item[OF _ v(1,3,2), of "Some h" i d] cleared_with_item[OF _ v(1), of e "Some h" i d] e(1) r' s(1) by (simp add: sound_def)
qed

lemma ledger_unregister:
  assumes s: "sound (e :: ('w, 'm) env_scheme)" and r: "selector_unregister_fd_without_closing fd e = Some (st, e')"
  shows "sound e' \<and> e_world e' = e_world e \<and> env.more e' = env.more e \<and> roles e' = (roles e)(fd := None)"
proof (cases "sel_entry e fd")
  case None
  then show ?thesis using r s unregister_quiet_unused[OF None] by (auto simp: sound_def roles_def fun_eq_iff)
next
  case (Some it)
  have e: "registry_ok e" using s by (simp add: sound_def)
  have r': "e' = without_item fd e" using r unregister_quiet_used[OF _ Some] e by simp
  have "roles e' = (roles e)(fd := None)" unfolding r' roles_def entry_without_item[OF Some] by (simp add: fun_eq_iff)
  moreover have "env.more e' = env.more e" unfolding r' by (simp add: without_item_def Let_def)
  ultimately show ?thesis using inv_without_item[OF _ Some] cleared_without_item[of e fd] e r' s by (simp add: sound_def)
qed

text \<open>
  What a connection has, apart from which \<open>R\<close> is registered and \<open>W\<close> is open: its origin's
  descriptor, if it has one, is open, and it is not registered (\<open>bare\<close>) or registered for this
  connection (\<open>linked\<close>). \<open>M\<close> is the rest of the server.
\<close>

record 'm outside =
  o_fd :: int
  o_roles :: "int \<Rightarrow> (handler_ref option \<times> attachment option) option"
  o_open :: "int set"
  o_more :: 'm

definition within :: "('w \<Rightarrow> int set) \<Rightarrow> 'm outside \<Rightarrow> socks5 \<Rightarrow> ('w, 'm) env_scheme \<Rightarrow> bool" where
  "within opn X c e \<longleftrightarrow> sound e \<and> client_fd c = o_fd X \<and> \<not> closed c \<and> o_open X \<subseteq> opn (e_world e) \<and> env.more e = o_more X
     \<and> (\<forall>fd. o_roles X fd \<noteq> None \<longrightarrow> fd \<in> o_open X) \<and> o_fd X \<in> o_open X"

definition bare :: "('w \<Rightarrow> int set) \<Rightarrow> 'm outside \<Rightarrow> socks5 \<Rightarrow> ('w, 'm) env_scheme \<Rightarrow> bool" where
  "bare opn X c e \<longleftrightarrow> within opn X c e \<and> roles e = o_roles X
     \<and> (origin_fd c = - 1 \<or> 0 \<le> origin_fd c \<and> origin_fd c \<in> opn (e_world e) - o_open X)"

definition linked :: "('w \<Rightarrow> int set) \<Rightarrow> nat \<Rightarrow> 'm outside \<Rightarrow> socks5 \<Rightarrow> ('w, 'm) env_scheme \<Rightarrow> bool" where
  "linked opn a X c e \<longleftrightarrow> within opn X c e \<and> roles e = (o_roles X)(origin_fd c \<mapsto> (Some SOCKS5_HANDLER, Some a))
     \<and> 0 \<le> origin_fd c \<and> origin_fd c \<in> opn (e_world e) - o_open X"

lemma still_keeps:
  assumes "still opn e e'" "ends c' = ends c"
  shows "bare opn X c e \<Longrightarrow> bare opn X c' e'" "linked opn a X c e \<Longrightarrow> linked opn a X c' e'"
proof -
  have e: "client_fd c' = client_fd c" "origin_fd c' = origin_fd c" "closed c' = closed c" using assms(2) by (simp_all add: ends_def)
  have "sound e \<Longrightarrow> sound e' \<and> roles e' = roles e \<and> opn (e_world e') = opn (e_world e) \<and> env.more e' = env.more e"
    using assms(1) by (auto simp: still_def ledger_def split: if_splits)
  then show "bare opn X c e \<Longrightarrow> bare opn X c' e'" "linked opn a X c e \<Longrightarrow> linked opn a X c' e'"
    using e by (simp_all add: bare_def linked_def within_def)
qed

lemma still_same [simp]: "still opn e e"
  by (simp add: still_def)

lemma try_results_ledger:
  assumes T: "fd_table os opn" and key: "k_data key = Some a"
  shows "bare opn X c e \<Longrightarrow> origin_resolution c = rs \<Longrightarrow> try_results os key rs (c, e) = Some (ret, c', e')
    \<Longrightarrow> client c' = client c \<and> (if ret = CONNECTION_IN_PROGRESS then linked opn a X c' e' else bare opn X c' e')"
proof (induction rs arbitrary: c e)
  case (Cons r rest)
  have get: "get_next_resolution (c\<lparr>origin_fd := x\<rparr>) = Some (c\<lparr>origin_fd := x, origin_resolution := rest\<rparr>)" for x
    using Cons.prems(2) by (simp add: get_next_resolution_def)
  have b: "within opn X c e" "roles e = o_roles X" using Cons.prems(1) by (simp_all add: bare_def)
  have IH: "client c' = client c \<and> (if ret = CONNECTION_IN_PROGRESS then linked opn a X c' e' else bare opn X c' e')"
    if "try_results os key rest (c\<lparr>origin_fd := - 1, origin_resolution := rest\<rparr>, e1) = Some (ret, c', e')"
      "sound e1" "o_open X \<subseteq> opn (e_world e1)" "env.more e1 = env.more e" "roles e1 = roles e" for e1
  proof -
    have "bare opn X (c\<lparr>origin_fd := - 1, origin_resolution := rest\<rparr>) e1" using that(2-5) b by (simp add: bare_def within_def)
    from Cons.IH[OF this _ that(1)] show ?thesis by simp
  qed
  obtain x w where sock: "os_socket os (ai_family r) (ai_socktype r) (ai_protocol r) (e_world e) = (x, w)" by fastforce
  show ?case
  proof (cases x)
    case (SysErr n)
    have "opn w = opn (e_world e)" using table_socket(1)[OF _ T] sock SysErr by simp
    then show ?thesis using Cons.prems(3) sock get SysErr b by (intro IH[of "e\<lparr>e_world := w\<rparr>"]) (simp_all add: within_def)
  next
    case (SysOk fd)
    have fd: "0 \<le> fd" "fd \<notin> opn (e_world e)" "opn w = insert fd (opn (e_world e))"
      using table_socket(2)[OF _ T] sock SysOk by blast+
    have out: "fd \<notin> o_open X" "roles e fd = None" using fd(2) b unfolding within_def by (auto dest: subsetD, metis subsetD)
    obtain nio w1 where nio: "selector_fd_set_nio os fd w = (nio, w1)" by fastforce
    have w1: "opn w1 = opn w" by (rule table_nio[OF nio T])
    show ?thesis
    proof (cases "nio = - 1")
      case True
      with Cons.prems(3) sock SysOk nio get show ?thesis
        by (intro IH[of "e\<lparr>e_world := os_close os fd w1\<rparr>"])
          (use b out w1 fd(3) in \<open>auto simp: Let_def table_close[OF T] within_def\<close>)
    next
      case False
      obtain y w2 where con: "os_connect os fd (ai_addr r) w1 = (y, w2)" by fastforce
      have w2: "opn w2 = insert fd (opn (e_world e))" using table_calls(3)[OF con T] w1 fd(3) by simp
      have base: "bare opn X (c\<lparr>origin_fd := fd\<rparr>) (e\<lparr>e_world := w2\<rparr>)" using b w2 fd(1) out(1) by (auto simp: bare_def within_def)
      show ?thesis
      proof (cases y)
        case (SysOk u)
        with Cons.prems(3) sock \<open>x = SysOk fd\<close> nio False con base show ?thesis by (auto simp: Let_def)
      next
        case (SysErr errno)
        note step = sock \<open>x = SysOk fd\<close> nio False con SysErr
        have e2: "sound (e\<lparr>e_world := w2\<rparr>)" "roles (e\<lparr>e_world := w2\<rparr>) fd = None" using b out(2) by (simp_all add: within_def)
        consider "errno = EINPROGRESS" | "errno \<noteq> EINPROGRESS" "rest = []" | "errno \<noteq> EINPROGRESS" "rest \<noteq> []" by blast
        then show ?thesis
        proof cases
          case 1
          obtain st where reg: "selector_register (fst (os_malloc os w2)) fd (Some SOCKS5_HANDLER) OP_WRITE (k_data key) (e\<lparr>e_world := w2\<rparr>) = Some (st, e')"
            "c' = c\<lparr>origin_fd := fd\<rparr>" "ret = (if st \<noteq> SELECTOR_SUCCESS then SELECTOR_REGISTER_FAILED else CONNECTION_IN_PROGRESS)"
            using Cons.prems(3) step 1 by (auto simp: Let_def elim!: bind_SomeE)
          note L = ledger_register[OF e2 reg(1)]
          show ?thesis
          proof (cases "st = SELECTOR_SUCCESS")
            case True
            then show ?thesis using L reg(2,3) key b fd(1) w2 out(1) by (auto simp: linked_def within_def)
          next
            case False
            then show ?thesis using L reg(2,3) b fd(1) w2 out(1) by (auto simp: bare_def within_def)
          qed
        next
          case 2
          have "errno_reply errno \<noteq> CONNECTION_IN_PROGRESS" using errno_reply_codes[of errno] by auto
          with Cons.prems(3) step 2 base show ?thesis by (auto simp: Let_def)
        next
          case 3
          obtain st e3 where un: "selector_unregister_fd_without_closing fd (e\<lparr>e_world := w2\<rparr>) = Some (st, e3)"
            "try_results os key rest (c\<lparr>origin_fd := - 1, origin_resolution := rest\<rparr>, e3\<lparr>e_world := os_close os fd (e_world e3)\<rparr>) = Some (ret, c', e')"
            using Cons.prems(3) step 3 get by (auto simp: Let_def elim!: bind_SomeE)
          show ?thesis
            by (rule IH[OF un(2)])
              (use ledger_unregister[OF e2(1) un(1)] b w2 out in \<open>auto simp: table_close[OF T] within_def fun_eq_iff\<close>)
        qed
      qed
    qed
  qed
qed simp

lemma connect_ledger:
  assumes T: "fd_table os opn" and key: "k_data key = Some a"
    and b: "bare opn X c e" and r: "connect_to_dest os key (c, e) = Some (q, c', e')"
  shows "if q = CONNECT then linked opn a X c' e' else q = REPLY \<and> bare opn X c' e'"
proof (cases "origin_resolution c = []")
  case True
  then show ?thesis using r still_keeps(1)[OF _ _ b] by (auto simp: connect_to_dest_def dest!: still_reply_state[where opn = opn])
next
  case False
  then obtain ret c1 e1 where 1: "try_connection os key (c, e) = Some (ret, c1, e1)"
    "(case dial_switch ret of
           Dial_wait \<Rightarrow> do { (st, e) \<leftarrow> selector_set_interest (client_fd c1) OP_WRITE e1; Some (CONNECT, c1, e) }
         | Dial_reply r \<Rightarrow> to_reply_state (set_rep r c1, e1)
         | Dial_success \<Rightarrow> do { (st, e) \<leftarrow> selector_set_interest (origin_fd c1) OP_NOOP e1; to_reply_state (set_rep SUCCEDED c1, e) })
       = Some (q, c', e')"
    using r by (auto simp: connect_to_dest_def elim!: bind_SomeE)
  have d: "if ret = CONNECTION_IN_PROGRESS then linked opn a X c1 e1 else bare opn X c1 e1"
    using try_results_ledger[OF T key b refl] 1(1) by (simp add: try_connection_def)
  have "ret \<le> 6" using 1(1) try_results_codes by (auto simp: try_connection_def)
  note n = dial_switch_never_success[OF this]
  show ?thesis
  proof (cases "dial_switch ret")
    case (Dial_reply r)
    then have "ret \<noteq> CONNECTION_IN_PROGRESS" by (auto simp: dial_switch_def)
    then have b1: "bare opn X c1 e1" using d by simp
    have "still opn e1 e' \<and> ends c' = ends c1 \<and> q = REPLY"
      using still_reply_state[of "set_rep r c1" e1 q c' e' opn] 1(2) Dial_reply by simp
    then show ?thesis using still_keeps(1)[of opn e1 e' c' c1 X] b1 by simp
  next
    case Dial_wait
    then have "ret = CONNECTION_IN_PROGRESS" by (simp add: dial_switch_def split: if_splits)
    then have b1: "linked opn a X c1 e1" using d by simp
    have "still opn e1 e' \<and> c' = c1 \<and> q = CONNECT"
      using 1(2) Dial_wait by (auto elim!: bind_SomeE dest!: still_interest[where opn = opn])
    then show ?thesis using still_keeps(2)[of opn e1 e' c' c1 a X] b1 by simp
  qed (use n in simp)
qed

section \<open>The request\<close>

lemma still_resolve_ip:
  assumes T: "fd_table os opn" and r: "resolve_ip os f n mk (c, e) = (ok, c', e')"
  shows "still opn e e' \<and> ends c' = ends c"
  using r by (auto simp: resolve_ip_def Let_def still_def split: prod.splits if_splits pton_result.splits dest!: table_calls(8)[OF _ T])

lemma still_resolve_fqdn:
  assumes T: "fd_table os opn" and r: "resolve_fqdn os key e = (ok, e')"
  shows "still opn e e'"
  using r by (auto simp: resolve_fqdn_def still_def split: prod.splits if_splits dest!: table_calls(8,9)[OF _ T])

lemma get_port_ends: "get_port c = Some c' \<Longrightarrow> ends c' = ends c"
  by (auto simp: get_port_def Let_def elim!: bind_SomeE)

lemma get_ip_ends: "get_ip_address os f n c = Some (ok, c') \<Longrightarrow> ends c' = ends c"
  by (auto simp: get_ip_address_def Let_def split: option.splits elim!: bind_SomeE)

lemma get_fqdn_ends: "get_fqdn n c = Some c' \<Longrightarrow> ends c' = ends c"
  by (auto simp: get_fqdn_def elim!: bind_SomeE)

text \<open>What a handler of the request leaves behind.\<close>

definition asked :: "('w \<Rightarrow> int set) \<Rightarrow> nat \<Rightarrow> 'm outside \<Rightarrow> nat \<Rightarrow> socks5 \<Rightarrow> ('w, 'm) env_scheme \<Rightarrow> bool" where
  "asked opn a X q c e \<longleftrightarrow> (if q = CONNECT then linked opn a X c e else bare opn X c e)"

lemma asked_reply:
  assumes "to_reply_state (c, e) = Some (q, c', e')" "bare opn X c e"
  shows "asked opn a X q c' e'"
  using still_reply_state[OF assms(1), of opn] still_keeps(1)[OF _ _ assms(2), of e' c'] by (simp add: asked_def)

lemma ip_branch_ledger:
  assumes T: "fd_table os opn" and key: "k_data key = Some a" and b: "bare opn X c e"
    and r: "(let (ok, c, e) = resolve_ip os f n mk (c, e) in
            if \<not> ok then to_reply_state (set_rep SERVER_FAILURE c, e) else connect_to_dest os key (c, e)) = Some (q, c', e')"
  shows "asked opn a X q c' e'"
proof -
  obtain ok c1 e1 where 1: "resolve_ip os f n mk (c, e) = (ok, c1, e1)" by (cases "resolve_ip os f n mk (c, e)") auto
  have b1: "bare opn X c1 e1" using still_keeps(1)[OF _ _ b] still_resolve_ip[OF T 1] by simp
  have b2: "bare opn X (set_rep SERVER_FAILURE c1) e1" using still_keeps(1)[OF _ _ b1, of e1 "set_rep SERVER_FAILURE c1"] by simp
  show ?thesis using r 1 connect_ledger[OF T key b1, of q c' e'] asked_reply[OF _ b2, of q c' e' a]
    by (auto simp: asked_def split: if_splits)
qed

lemma resolve_address_ledger:
  assumes T: "fd_table os opn" and key: "k_data key = Some a" and b: "bare opn X c e"
    and r: "resolve_address os atyp n key (c, e) = Some (q, c', e')"
  shows "asked opn a X q c' e'"
proof -
  have keep: "bare opn X c1 e" if "ends c1 = ends c" for c1 using still_keeps(1)[OF _ that b] by simp
  have fail: "asked opn a X q c' e'" if "to_reply_state (set_rep SERVER_FAILURE c1, e1) = Some (q, c', e')" "bare opn X c1 e1" for c1 e1
    by (rule asked_reply[OF that(1)]) (use still_keeps(1)[OF _ _ that(2), of e1 "set_rep SERVER_FAILURE c1"] in simp)
  have ip: "asked opn a X q c' e'"
    if "get_ip_address os f m c = Some (ok, c1)" "(if \<not> ok then to_reply_state (set_rep SERVER_FAILURE c1, e)
         else do { c \<leftarrow> get_port c1;
           (let (ok, c, e) = resolve_ip os f m mk (c, e) in
            if \<not> ok then to_reply_state (set_rep SERVER_FAILURE c, e) else connect_to_dest os key (c, e)) }) = Some (q, c', e')" for f m ok c1 mk
  proof (cases ok)
    case True
    then obtain c2 where 2: "get_port c1 = Some c2" "(let (ok, c, e) = resolve_ip os f m mk (c2, e) in
            if \<not> ok then to_reply_state (set_rep SERVER_FAILURE c, e) else connect_to_dest os key (c, e)) = Some (q, c', e')"
      using \<open>(if \<not> ok then _ else _) = _\<close> by (auto elim!: bind_SomeE)
    show ?thesis
      by (rule ip_branch_ledger[OF T key keep 2(2)]) (use get_port_ends[OF 2(1)] get_ip_ends[OF that(1)] in simp)
  qed (use that(2) fail[OF _ keep] get_ip_ends[OF that(1)] in auto)
  consider "atyp = IPv4_ADDR" | "atyp \<noteq> IPv4_ADDR" "atyp = FQDN" | "atyp \<noteq> IPv4_ADDR" "atyp \<noteq> FQDN" by blast
  then show ?thesis
  proof cases
    case 1
    then obtain ok c1 where "get_ip_address os AF_INET IPv4_ADDR_LEN c = Some (ok, c1)"
      "(if \<not> ok then to_reply_state (set_rep SERVER_FAILURE c1, e)
         else do { c \<leftarrow> get_port c1;
           (let (ok, c, e) = resolve_ip os AF_INET IPv4_ADDR_LEN Sin (c, e) in
            if \<not> ok then to_reply_state (set_rep SERVER_FAILURE c, e) else connect_to_dest os key (c, e)) }) = Some (q, c', e')"
      using r unfolding resolve_address_def get_ipv4_address_def resolve_ipv4_def by (auto elim!: bind_SomeE)
    then show ?thesis by (rule ip)
  next
    case 2
    then obtain m c1 c2 where 2: "get_fqdn m c = Some c1" "get_port c1 = Some c2"
      "(let (ok, e) = resolve_fqdn os key e in if \<not> ok then to_reply_state (set_rep SERVER_FAILURE c2, e) else Some (REQUEST, c2, e)) = Some (q, c', e')"
      using r by (auto simp: resolve_address_def elim!: bind_SomeE)
    obtain ok e1 where 3: "resolve_fqdn os key e = (ok, e1)" by fastforce
    have "bare opn X c2 e1"
      using still_keeps(1)[OF still_resolve_fqdn[OF T 3] _ b] get_port_ends[OF 2(2)] get_fqdn_ends[OF 2(1)] by simp
    then show ?thesis using 2(3) 3 fail by (auto simp: asked_def split: if_splits)
  next
    case 3
    then obtain ok c1 where "get_ip_address os AF_INET6 IPv6_ADDR_LEN c = Some (ok, c1)"
      "(if \<not> ok then to_reply_state (set_rep SERVER_FAILURE c1, e)
         else do { c \<leftarrow> get_port c1;
           (let (ok, c, e) = resolve_ip os AF_INET6 IPv6_ADDR_LEN Sin6 (c, e) in
            if \<not> ok then to_reply_state (set_rep SERVER_FAILURE c, e) else connect_to_dest os key (c, e)) }) = Some (q, c', e')"
      using r unfolding resolve_address_def get_ipv6_address_def resolve_ipv6_def by (auto elim!: bind_SomeE)
    then show ?thesis by (rule ip)
  qed
qed

lemma resolve_dst_ledger:
  assumes T: "fd_table os opn" and key: "k_data key = Some a" and b: "bare opn X c e"
    and r: "resolve_dst_address os key (c, e) = Some (q, c', e')"
  shows "asked opn a X q c' e'"
proof -
  obtain n cb w where io: "recv_into os (client_fd c) (client_buffer c) (e_world e) = Some (n, cb, w)"
    using r by (auto simp: resolve_dst_address_def elim!: bind_SomeE)
  have keep: "bare opn X c1 (e\<lparr>e_world := w\<rparr>)" if "ends c1 = ends c" for c1
    using still_keeps(1)[OF _ that b, of "e\<lparr>e_world := w\<rparr>"] table_recv_into[OF io T] by (simp add: still_def)
  have 1: "asked opn a X q c' e'" if "to_reply_state (c1, e\<lparr>e_world := w\<rparr>) = Some (q, c', e')" "ends c1 = ends c" for c1
    by (rule asked_reply[OF that(1) keep[OF that(2)]])
  have 2: "asked opn a X q c' e'" if "resolve_address os t m key (c1, e\<lparr>e_world := w\<rparr>) = Some (q, c', e')" "ends c1 = ends c" for c1 t m
    by (rule resolve_address_ledger[OF T key keep[OF that(2)] that(1)])
  have 3: "asked opn a X q1 c1 (e\<lparr>e_world := w\<rparr>)" if "q1 \<noteq> CONNECT" "ends c1 = ends c" for c1 q1
    using keep[OF that(2)] that(1) by (simp add: asked_def)
  show ?thesis using r io
    by (auto simp: resolve_dst_address_def Let_def split: if_splits elim!: bind_SomeE intro!: 3 dest!: 1 2)
qed

lemma request_read_ledger:
  assumes T: "fd_table os opn" and key: "k_data key = Some a" and b: "bare opn X c e"
    and r: "request_read os key (c, e) = Some (q, c', e')"
  shows "asked opn a X q c' e'"
proof -
  obtain x where x: "the_request c = Some x" using r by (auto simp: request_read_def elim!: bind_SomeE)
  show ?thesis
  proof (cases "r_state x = VER_CMD_ATYP")
    case True
    obtain n cb w where io: "recv_into os (k_fd key) (client_buffer c) (e_world e) = Some (n, cb, w)"
      using r x True by (auto simp: request_read_def elim!: bind_SomeE)
    have keep: "bare opn X c1 (e\<lparr>e_world := w\<rparr>)" if "ends c1 = ends c" for c1
      using still_keeps(1)[OF _ that b, of "e\<lparr>e_world := w\<rparr>"] table_recv_into[OF io T] by (simp add: still_def)
    have 1: "asked opn a X q c' e'" if "to_reply_state (c1, e\<lparr>e_world := w\<rparr>) = Some (q, c', e')" "ends c1 = ends c" for c1
      by (rule asked_reply[OF that(1) keep[OF that(2)]])
    have 2: "asked opn a X q c' e'" if "resolve_dst_address os key (c1, e\<lparr>e_world := w\<rparr>) = Some (q, c', e')" "ends c1 = ends c" for c1
      by (rule resolve_dst_ledger[OF T key keep[OF that(2)] that(1)])
    have 3: "asked opn a X q1 c1 (e\<lparr>e_world := w\<rparr>)" if "q1 \<noteq> CONNECT" "ends c1 = ends c" for c1 q1
      using keep[OF that(2)] that(1) by (simp add: asked_def)
    show ?thesis using r io x True
      by (auto simp: request_read_def Let_def split: if_splits elim!: bind_SomeE intro!: 3 dest!: 1 2)
  next
    case False
    then show ?thesis using r x resolve_dst_ledger[OF T key b] by (simp add: request_read_def)
  qed
qed

section \<open>The connection attempt\<close>

lemma connect_write_ledger:
  assumes T: "fd_table os opn" and key: "k_data key = Some a" and l: "linked opn a X c e"
    and r: "connect_write os key (c, e) = Some (q, c', e')"
  shows "if q = CONNECT then linked opn a X c' e'
    else q = REPLY \<and> (bare opn X c' e' \<or> linked opn a X c' e' \<and> (\<exists>x. client c' = U_reply x \<and> rep x = SUCCEDED))"
proof -
  have o: "origin_fd c \<in> opn (e_world e)" "origin_fd c \<notin> o_open X" "within opn X c e" "roles e = (o_roles X)(origin_fd c \<mapsto> (Some SOCKS5_HANDLER, Some a))"
    using l by (simp_all add: linked_def)
  obtain v w where so: "os_so_error os (origin_fd c) (e_world e) = (SysOk v, w)" using table_so_error[OF T o(1)] by blast
  have w: "opn w = opn (e_world e)" by (rule table_calls(4)[OF so T])
  show ?thesis
  proof (cases "v = 0")
    case True
    have "still opn e e' \<and> ends c' = ends c \<and> q = REPLY \<and> (\<exists>x. client c' = U_reply x \<and> rep x = SUCCEDED)"
      using r so True w by (auto simp: connect_write_def still_def set_rep_def split: client_union.splits elim!: bind_SomeE dest!: still_interest[where opn = opn])
    then show ?thesis using still_keeps(2)[OF _ _ l] by auto
  next
    case False
    obtain st e1 where un: "selector_unregister_fd_without_closing (origin_fd c) (e\<lparr>e_world := w\<rparr>) = Some (st, e1)"
      using r so False by (auto simp: connect_write_def elim!: bind_SomeE)
    define e2 where "e2 = e1\<lparr>e_world := os_close os (origin_fd c) (e_world e1)\<rparr>"
    define c2 where "c2 = c\<lparr>origin_fd := - 1\<rparr>"
    have "o_roles X (origin_fd c) = None" using o(2,3) unfolding within_def by blast
    then have s: "sound (e\<lparr>e_world := w\<rparr>)" "o_roles X (origin_fd c) = None" using o(3) by (simp_all add: within_def)
    have "roles e1 = o_roles X" using ledger_unregister[OF s(1) un] o(4) s(2) by (simp add: fun_eq_iff)
    then have b: "bare opn X c2 e2"
      using ledger_unregister[OF s(1) un] o(2,3) w by (auto simp: bare_def within_def c2_def e2_def table_close[OF T])
    have keep: "bare opn X c1 e2" if "ends c1 = ends c2" for c1 using still_keeps(1)[OF _ that b] by simp
    have rest: "do {
        c_assert (origin_resolution c2 \<noteq> []);
        (if tl (origin_resolution c2) = [] then do {
           let ret = 0;
           let c = (if v = unat NETWORK_UNREACHABLE \<or> v = unat HOST_UNREACHABLE
                       \<or> v = unat CONNECTION_REFUSED \<or> v = unat TTL_EXPIRED
                    then set_rep ret c2 else set_rep SERVER_FAILURE c2);
           (st, e) \<leftarrow> selector_set_interest (client_fd c) OP_WRITE e2;
           Some (REPLY, c, e)
         } else do {
           c \<leftarrow> get_next_resolution c2;
           (ret, c, e) \<leftarrow> try_connection os key (c, e2);
           (case dial_switch ret of
              Dial_wait \<Rightarrow> Some (CONNECT, c, e)
            | Dial_reply r \<Rightarrow> do {
                (st, e) \<leftarrow> selector_set_interest (client_fd c) OP_WRITE e;
                Some (REPLY, set_rep r c, e)
              }
            | Dial_success \<Rightarrow> do {
                line \<leftarrow> print_connection_access_log os c;
                (st, e) \<leftarrow> selector_set_interest (origin_fd c) OP_NOOP (e\<lparr>e_calls := e_calls e @ [Log_access line]\<rparr>);
                (st, e) \<leftarrow> selector_set_interest (client_fd c) OP_WRITE e;
                Some (REPLY, set_rep SUCCEDED c, e)
              })
         }) } = Some (q, c', e')"
      using r so False un unfolding connect_write_def e2_def c2_def Let_def by (simp split del: if_split)
    have reply: ?thesis if "selector_set_interest f OP_WRITE e3 = Some (st, e')" "bare opn X c3 e3" "ends c' = ends c3" "q = REPLY" for f e3 st c3
      using still_interest(1)[OF that(1), of opn] still_keeps(1)[OF _ that(3,2)] that(4) by simp
    show ?thesis
    proof (cases "tl (origin_resolution c2) = []")
      case True
      then obtain f st where "selector_set_interest f OP_WRITE e2 = Some (st, e')" "ends c' = ends c2" "q = REPLY"
        using rest by (auto simp: Let_def split: if_splits elim!: bind_SomeE)
      then show ?thesis using reply[OF _ b] by blast
    next
      case more: False
      obtain c3 ret c4 e4 where 1: "get_next_resolution c2 = Some c3" "try_connection os key (c3, e2) = Some (ret, c4, e4)"
        using rest more by (auto elim!: bind_SomeE)
      have b3: "bare opn X c3 e2" using 1(1) keep by (auto simp: get_next_resolution_def split: list.splits)
      have d: "if ret = CONNECTION_IN_PROGRESS then linked opn a X c4 e4 else bare opn X c4 e4"
        using try_results_ledger[OF T key b3 refl] 1(2) by (simp add: try_connection_def)
      have "ret \<le> 6" using 1(2) try_results_codes by (auto simp: try_connection_def)
      note n = dial_switch_never_success[OF this]
      show ?thesis
      proof (cases "dial_switch ret")
        case (Dial_reply r)
        then have "ret \<noteq> CONNECTION_IN_PROGRESS" by (auto simp: dial_switch_def)
        then have b4: "bare opn X c4 e4" using d by simp
        obtain f st where "selector_set_interest f OP_WRITE e4 = Some (st, e')" "ends c' = ends c4" "q = REPLY"
          using rest more 1 Dial_reply by (auto elim!: bind_SomeE)
        then show ?thesis using reply[OF _ b4] by blast
      next
        case Dial_wait
        then have "ret = CONNECTION_IN_PROGRESS" by (simp add: dial_switch_def split: if_splits)
        then show ?thesis using rest more 1 Dial_wait d by (auto elim!: bind_SomeE)
      qed (use n in simp)
    qed
  qed
qed

end
