(* ===== verification/PamTable.thy ===== *)
theory PamTable
  imports FdTable Pam
begin

text \<open>The handlers of the management protocol open, close and register nothing.\<close>

section \<open>The two states\<close>

abbreviation (input) same_end :: "pam \<Rightarrow> pam \<Rightarrow> bool" where
  "same_end c c' \<equiv> pm_client_fd c' = pm_client_fd c"

lemma still_pam_auth_pass: "pam_auth_pass key (c, e) = Some (q, c', e') \<Longrightarrow> still opn e e' \<and> same_end c c'"
  by (auto simp: pam_auth_pass_def Let_def still_def split: if_splits prod.splits elim!: bind_SomeE
      dest!: still_interest[where opn = opn])

lemma still_pam_auth_username: "pam_auth_username key (c, e) = Some (q, c', e') \<Longrightarrow> still opn e e' \<and> same_end c c'"
  by (auto simp: pam_auth_username_def Let_def still_def split: if_splits prod.splits elim!: bind_SomeE
      dest!: still_pam_auth_pass[where opn = opn])

lemma still_pam_auth_header: "pam_auth_header key (c, e) = Some (q, c', e') \<Longrightarrow> still opn e e' \<and> same_end c c'"
  by (auto simp: pam_auth_header_def Let_def still_def split: if_splits prod.splits elim!: bind_SomeE
      dest!: still_pam_auth_username[where opn = opn])

lemma still_pam_recv:
  assumes T: "fd_table os opn" and r: "pam_recv os key (c, e) = Some (q, c', e')"
  shows "still opn e e' \<and> same_end c c'"
  using r by (auto simp: pam_recv_def Let_def still_def split: if_splits prod.splits elim!: bind_SomeE
      dest!: table_recv_into[OF _ T])

lemma still_pam_auth_read:
  assumes T: "fd_table os opn" and r: "pam_auth_read os key (c, e) = Some (q, c', e')"
  shows "still opn e e' \<and> same_end c c'"
  using r by (auto simp: pam_auth_read_def Let_def still_def split: if_splits prod.splits option.splits elim!: bind_SomeE
      dest!: still_pam_recv[OF T] still_pam_auth_header[where opn = opn])

lemma still_pam_auth_write:
  assumes T: "fd_table os opn" and r: "pam_auth_write os key (c, e) = Some (q, c', e')"
  shows "still opn e e' \<and> same_end c c'"
  using r by (auto simp: pam_auth_write_def Let_def still_def split: if_splits prod.splits elim!: bind_SomeE
      dest!: table_send_from[OF _ T] still_interest[where opn = opn])

section \<open>The methods\<close>

lemma end_setters [simp]:
  "pm_client_fd (set_status st c) = pm_client_fd c" "pm_client_fd (set_nbody n c) = pm_client_fd c"
  "pm_client_fd (set_write_body bs c) = pm_client_fd c"
  by (simp_all add: set_status_def set_nbody_def set_write_body_def)

lemma still_handle_get_connected_users_list: "handle_get_connected_users_list (c, e) = Some (c', e') \<Longrightarrow> still opn e e' \<and> same_end c c'"
  by (auto simp: handle_get_connected_users_list_def Let_def still_def split: if_splits prod.splits elim!: bind_SomeE)

lemma still_handle_add_user:
  assumes T: "fd_table os opn" and r: "handle_add_user os b (c, e) = Some (c', e')"
  shows "still opn e e' \<and> same_end c c'"
  using r by (auto simp: handle_add_user_def Let_def still_def split: if_splits prod.splits elim!: bind_SomeE
      dest!: table_calls(8)[OF _ T])

lemma still_handle_remove_user: "handle_remove_user os b (c, e) = Some (c', e') \<Longrightarrow> still opn e e' \<and> same_end c c'"
  by (auto simp: handle_remove_user_def Let_def still_def split: if_splits prod.splits user_status.splits elim!: bind_SomeE)

lemma still_handle_change_password: "handle_change_password os b (c, e) = Some (c', e') \<Longrightarrow> still opn e e' \<and> same_end c c'"
  by (auto simp: handle_change_password_def Let_def still_def split: if_splits prod.splits user_status.splits elim!: bind_SomeE)

lemma still_handle_change_role: "handle_change_role os b (c, e) = Some (c', e') \<Longrightarrow> still opn e e' \<and> same_end c c'"
  by (auto simp: handle_change_role_def Let_def still_def split: if_splits prod.splits user_status.splits elim!: bind_SomeE)

lemma still_handle_get_metrics: "handle_get_metrics (c, e) = Some (c', e') \<Longrightarrow> still opn e e' \<and> same_end c c'"
  by (auto simp: handle_get_metrics_def Let_def still_def split: if_splits prod.splits elim!: bind_SomeE)

lemma still_handle_pam_request_method:
  assumes T: "fd_table os opn" and r: "handle_pam_request_method os b (c, e) = Some (c', e')"
  shows "still opn e e' \<and> same_end c c'"
  using r by (auto simp: handle_pam_request_method_def Let_def still_def split: if_splits prod.splits elim!: bind_SomeE
      dest!: still_handle_get_connected_users_list[where opn = opn] still_handle_add_user[OF T]
      still_handle_remove_user[where opn = opn] still_handle_change_password[where opn = opn] still_handle_change_role[where opn = opn]
      still_handle_get_metrics[where opn = opn])

lemma still_pam_answer: "pam_answer key (c, e) = Some (q, c', e') \<Longrightarrow> still opn e e' \<and> same_end c c'"
  by (auto simp: pam_answer_def Let_def still_def split: if_splits prod.splits elim!: bind_SomeE
      dest!: still_interest[where opn = opn])

lemma still_pam_body:
  assumes T: "fd_table os opn" and r: "pam_body os key (c, e) = Some (q, c', e')"
  shows "still opn e e' \<and> same_end c c'"
  using r by (auto simp: pam_body_def Let_def still_def split: if_splits prod.splits elim!: bind_SomeE
      dest!: still_handle_pam_request_method[OF T] still_pam_answer[where opn = opn])

lemma still_pam_nbody:
  assumes T: "fd_table os opn" and r: "pam_nbody os key (c, e) = Some (q, c', e')"
  shows "still opn e e' \<and> same_end c c'"
  using r by (auto simp: pam_nbody_def Let_def still_def split: if_splits prod.splits elim!: bind_SomeE
      dest!: still_pam_body[OF T])

lemma still_pam_method:
  assumes T: "fd_table os opn" and r: "pam_method os key (c, e) = Some (q, c', e')"
  shows "still opn e e' \<and> same_end c c'"
  using r by (auto simp: pam_method_def Let_def still_def split: if_splits prod.splits elim!: bind_SomeE
      dest!: still_pam_nbody[OF T])

lemma still_pam_version:
  assumes T: "fd_table os opn" and r: "pam_version os key (c, e) = Some (q, c', e')"
  shows "still opn e e' \<and> same_end c c'"
  using r by (auto simp: pam_version_def Let_def still_def split: if_splits prod.splits elim!: bind_SomeE
      dest!: still_pam_method[OF T])

lemma still_pam_request_read:
  assumes T: "fd_table os opn" and r: "pam_request_read os key (c, e) = Some (q, c', e')"
  shows "still opn e e' \<and> same_end c c'"
  using r by (auto simp: pam_request_read_def Let_def still_def split: if_splits prod.splits option.splits elim!: bind_SomeE
      dest!: still_pam_recv[OF T] still_pam_version[OF T])

lemma still_pam_request_write:
  assumes T: "fd_table os opn" and r: "pam_request_write os key (c, e) = Some (q, c', e')"
  shows "still opn e e' \<and> same_end c c'"
  using r by (auto simp: pam_request_write_def Let_def still_def split: if_splits prod.splits elim!: bind_SomeE
      dest!: table_send_from[OF _ T] still_interest[where opn = opn])

end
