(* ===== verification/FifoQueue.thy ===== *)
theory FifoQueue
  imports NodeHeap
begin

text \<open>
  The bounded queue of \<open>src/shared/queue.c\<close>: a linked list with \<open>first\<close> and \<open>last\<close>
  pointers over the heap of \<open>NodeHeap\<close>. The queue handle may be \<open>NULL\<close>, an element
  pointer may be \<open>NULL\<close>, and the two allocations of \<open>enqueue\<close> may fail (the arguments
  \<open>m1\<close>, \<open>m2\<close>: did \<open>malloc\<close> succeed). Elements are copied by value (\<open>memcpy\<close> of
  \<open>elemSize\<close> bytes), so \<open>elemSize\<close> is the element type. \<open>freeFn\<close> acts on the
  client's state \<open>'s\<close>.

  The abstraction \<open>queue_list\<close> reads the queue as a list; the operations refine the FIFO
  with drop-oldest overflow, whose contract is the locale \<open>lossy_fifo\<close>.
\<close>

record ('a, 's) queue =
  q_heap :: "'a heap"
  q_first :: "nat option"
  q_last :: "nat option"
  q_max_capacity :: nat
  q_size :: nat
  q_freeFn :: "('a \<Rightarrow> 's \<Rightarrow> 's option) option"
  q_iterNode :: "nat option"

definition create_queue :: "bool \<Rightarrow> ('a \<Rightarrow> 's \<Rightarrow> 's option) option \<Rightarrow> nat \<Rightarrow> ('a, 's) queue option" where
  "create_queue m free_fn max_capacity =
     (if \<not> m then None
      else Some \<lparr>q_heap = [], q_first = None, q_last = None, q_max_capacity = max_capacity,
                 q_size = 0, q_freeFn = free_fn, q_iterNode = None\<rparr>)"

text \<open>
  \<open>dequeue_nn\<close> is \<open>dequeue\<close> on a queue that is not \<open>NULL\<close> and not empty: the element
  that is copied to \<open>buffer\<close>, and the new queue. The pointer result of \<open>dequeue\<close> is
  \<open>buffer\<close>, or \<open>NULL\<close> when there is nothing to take.
\<close>

definition dequeue_nn :: "('a, 's) queue \<Rightarrow> ('a \<times> ('a, 's) queue) option" where
  "dequeue_nn q = do {
     temp \<leftarrow> q_first q;
     nd \<leftarrow> deref (q_heap q) temp;
     Some (n_data nd,
       q\<lparr>q_first := n_next nd,
         q_last := (if n_next nd = None then None else q_last q),
         q_heap := h_free temp (q_heap q),
         q_size := q_size q - 1\<rparr>)
   }"

definition dequeue :: "('a, 's) queue option \<Rightarrow> ('a option \<times> ('a, 's) queue option) option" where
  "dequeue qp = (case qp of
     None \<Rightarrow> Some (None, None)
   | Some q \<Rightarrow>
       (if q_size q = 0 then Some (None, Some q)
        else do { (x, q') \<leftarrow> dequeue_nn q; Some (Some x, Some q') }))"

text \<open>The eviction of \<open>enqueue\<close>: \<open>freeFn\<close> on the oldest element, then \<open>dequeue (queue, NULL)\<close>.\<close>

definition enqueue_evict :: "('a, 's) queue \<Rightarrow> 's \<Rightarrow> (('a, 's) queue \<times> 's) option" where
  "enqueue_evict q s =
     (if q_max_capacity q \<noteq> 0 \<and> q_size q \<ge> q_max_capacity q then do {
        s' \<leftarrow> (case q_freeFn q of
                None \<Rightarrow> Some s
              | Some f \<Rightarrow> do { a \<leftarrow> q_first q; nd \<leftarrow> deref (q_heap q) a; f (n_data nd) s });
        (_, q') \<leftarrow> dequeue (Some q);
        Some (the q', s')
      } else Some (q, s))"

definition enqueue_link :: "('a, 's) queue \<Rightarrow> 'a \<Rightarrow> ('a, 's) queue option" where
  "enqueue_link q x = do {
     let (newNode, h) = h_alloc \<lparr>n_next = None, n_data = x\<rparr> (q_heap q);
     q' \<leftarrow> (case q_last q of
             None \<Rightarrow> Some (q\<lparr>q_heap := h, q_first := Some newNode\<rparr>)
           | Some l \<Rightarrow> do { h' \<leftarrow> h_set_next l (Some newNode) h; Some (q\<lparr>q_heap := h'\<rparr>) });
     Some (q'\<lparr>q_last := Some newNode, q_size := q_size q' + 1\<rparr>)
   }"

text \<open>
  The result: is the returned pointer non-\<open>NULL\<close>, the queue, the client's state. The
  second \<open>malloc\<close> (the data block) is not checked: \<open>memcpy\<close> to \<open>NULL\<close> is undefined.
\<close>

definition enqueue ::
  "bool \<Rightarrow> bool \<Rightarrow> ('a, 's) queue option \<Rightarrow> 'a option \<Rightarrow> 's \<Rightarrow> (bool \<times> ('a, 's) queue option \<times> 's) option" where
  "enqueue m1 m2 qp data s = (case (qp, data) of
     (Some q, Some x) \<Rightarrow>
       (if \<not> m1 then Some (False, Some q, s)
        else do {
          c_assert m2;
          (q1, s1) \<leftarrow> enqueue_evict q s;
          q2 \<leftarrow> enqueue_link q1 x;
          Some (True, Some q2, s1)
        })
   | _ \<Rightarrow> Some (False, qp, s))"

definition queue_peek :: "('a, 's) queue option \<Rightarrow> 'a option option" where
  "queue_peek qp = (case qp of
     None \<Rightarrow> Some None
   | Some q \<Rightarrow>
       (if q_size q = 0 then Some None
        else do { a \<leftarrow> q_first q; nd \<leftarrow> deref (q_heap q) a; Some (Some (n_data nd)) }))"

definition queue_size :: "('a, 's) queue option \<Rightarrow> nat" where
  "queue_size qp = (case qp of None \<Rightarrow> 0 | Some q \<Rightarrow> q_size q)"

definition queue_begin_iter :: "('a, 's) queue option \<Rightarrow> ('a, 's) queue option" where
  "queue_begin_iter qp = map_option (\<lambda>q. q\<lparr>q_iterNode := q_first q\<rparr>) qp"

definition queue_has_next_iter :: "('a, 's) queue option \<Rightarrow> bool" where
  "queue_has_next_iter qp = (case qp of None \<Rightarrow> False | Some q \<Rightarrow> q_iterNode q \<noteq> None)"

definition queue_iter_next :: "('a, 's) queue option \<Rightarrow> ('a option \<times> ('a, 's) queue option) option" where
  "queue_iter_next qp = (case qp of
     None \<Rightarrow> Some (None, None)
   | Some q \<Rightarrow> (case q_iterNode q of
       None \<Rightarrow> Some (None, Some q)
     | Some a \<Rightarrow> do {
         nd \<leftarrow> deref (q_heap q) a;
         Some (Some (n_data nd), Some (q\<lparr>q_iterNode := n_next nd\<rparr>))
       }))"

text \<open>\<open>free_queue\<close>: the loop is \<open>free_nodes\<close>; \<open>freeFn\<close> is not called.\<close>

definition free_queue :: "('a, 's) queue option \<Rightarrow> 'a heap option" where
  "free_queue qp = (case qp of None \<Rightarrow> Some [] | Some q \<Rightarrow> free_nodes (q_heap q) (q_first q))"

section \<open>Representation\<close>

text \<open>\<open>q\<close> is a well-formed queue whose nodes, oldest first, are \<open>as\<close>.\<close>

definition queue_rep :: "('a, 's) queue \<Rightarrow> nat list \<Rightarrow> bool" where
  "queue_rep q as \<longleftrightarrow> chain (q_heap q) (q_first q) as None
     \<and> q_last q = (if as = [] then None else Some (last as))
     \<and> q_size q = length as
     \<and> (q_max_capacity q = 0 \<or> q_size q \<le> q_max_capacity q)"

definition queue_inv :: "('a, 's) queue \<Rightarrow> bool" where
  "queue_inv q \<longleftrightarrow> (\<exists>as. queue_rep q as)"

definition queue_list :: "('a, 's) queue \<Rightarrow> 'a list" where
  "queue_list q = walk (q_size q) (q_heap q) (q_first q)"

lemma queue_rep_list: "queue_rep q as \<Longrightarrow> queue_list q = elems (q_heap q) as"
  by (simp add: queue_rep_def queue_list_def walk_chain)

lemma queue_size_list: "queue_inv q \<Longrightarrow> q_size q = length (queue_list q)"
  by (auto simp: queue_inv_def queue_rep_list) (simp add: queue_rep_def)

lemma create_queue_spec:
  "create_queue True f cap = Some q \<Longrightarrow> queue_inv q \<and> queue_list q = [] \<and> q_max_capacity q = cap \<and> q_freeFn q = f"
  by (auto simp: create_queue_def queue_inv_def queue_list_def queue_rep_def intro!: exI[of _ "[]"])

lemma dequeue_nn_rep:
  assumes "queue_rep q (a # as)"
  obtains q' where "dequeue_nn q = Some (elem (q_heap q) a, q')" "queue_rep q' as"
    "queue_list q' = elems (q_heap q) as" "q_max_capacity q' = q_max_capacity q"
    "q_freeFn q' = q_freeFn q"
proof -
  from assms obtain nd where nd: "q_first q = Some a" "deref (q_heap q) a = Some nd"
      "chain (q_heap q) (n_next nd) as None" and size: "q_size q = Suc (length as)"
      and lst: "q_last q = Some (last (a # as))"
      and cap: "q_max_capacity q = 0 \<or> q_size q \<le> q_max_capacity q"
    by (auto simp: queue_rep_def split: option.splits)
  from assms have fresh: "a \<notin> set as"
    using chain_distinct[of "q_heap q" "q_first q" "a # as"] by (simp add: queue_rep_def)
  let ?q = "q\<lparr>q_first := n_next nd, q_last := (if n_next nd = None then None else q_last q),
    q_heap := h_free a (q_heap q), q_size := q_size q - 1\<rparr>"
  have "n_next nd = None \<longleftrightarrow> as = []"
    using nd(3) by (cases as) auto
  then have rep: "queue_rep ?q as"
    using nd fresh size lst cap by (auto simp: queue_rep_def h_free_def)
  have "queue_list ?q = elems (q_heap q) as"
    using queue_rep_list[OF rep] fresh by (simp add: h_free_def elems_frame)
  with rep nd show thesis
    by (intro that[of ?q]) (simp_all add: dequeue_nn_def elem_def)
qed

lemma dequeue_spec:
  assumes "queue_inv q"
  shows "\<exists>q'. dequeue (Some q) = Some (case queue_list q of [] \<Rightarrow> None | x # _ \<Rightarrow> Some x, Some q')
    \<and> queue_inv q' \<and> queue_list q' = tl (queue_list q) \<and> q_max_capacity q' = q_max_capacity q
    \<and> q_freeFn q' = q_freeFn q"
proof -
  from assms obtain as where rep: "queue_rep q as" by (auto simp: queue_inv_def)
  show ?thesis
  proof (cases as)
    case Nil
    with rep queue_rep_list[OF rep] assms show ?thesis
      by (simp add: dequeue_def) (simp add: queue_rep_def)
  next
    case (Cons a bs)
    from rep Cons obtain q' where "dequeue_nn q = Some (elem (q_heap q) a, q')" "queue_rep q' bs"
        "queue_list q' = elems (q_heap q) bs" "q_max_capacity q' = q_max_capacity q"
        "q_freeFn q' = q_freeFn q"
      using dequeue_nn_rep by blast
    moreover have "q_size q \<noteq> 0" using rep Cons by (simp add: queue_rep_def)
    ultimately show ?thesis
      using queue_rep_list[OF rep] Cons by (auto simp: dequeue_def queue_inv_def)
  qed
qed

lemma queue_peek_spec:
  assumes "queue_inv q"
  shows "queue_peek (Some q) = Some (case queue_list q of [] \<Rightarrow> None | x # _ \<Rightarrow> Some x)"
proof -
  from assms obtain as where rep: "queue_rep q as" by (auto simp: queue_inv_def)
  with queue_rep_list[OF rep] show ?thesis
    by (cases as) (auto simp: queue_rep_def queue_peek_def elem_def split: option.splits)
qed

lemma enqueue_link_spec:
  assumes "queue_inv q" "q_max_capacity q = 0 \<or> q_size q < q_max_capacity q"
  shows "\<exists>q'. enqueue_link q x = Some q' \<and> queue_inv q' \<and> queue_list q' = queue_list q @ [x]
    \<and> q_max_capacity q' = q_max_capacity q \<and> q_freeFn q' = q_freeFn q"
proof -
  let ?n = "length (q_heap q)" and ?nd = "\<lparr>n_next = None, n_data = x\<rparr>"
  let ?h = "q_heap q @ [Some ?nd]"
  from assms(1) obtain as where rep: "queue_rep q as" by (auto simp: queue_inv_def)
  then have ch: "chain (q_heap q) (q_first q) as None" and size: "q_size q = length as"
    and lst: "q_last q = (if as = [] then None else Some (last as))"
    by (auto simp: queue_rep_def)
  have chg: "chain ?h (q_first q) as None" using ch by (rule chain_grow)
  show ?thesis
  proof (cases "as = []")
    case True
    let ?q = "q\<lparr>q_heap := ?h, q_first := Some ?n, q_last := Some ?n, q_size := q_size q + 1\<rparr>"
    have rep': "queue_rep ?q [?n]"
      using True size assms(2) by (auto simp: queue_rep_def)
    have "queue_list ?q = [x]" using queue_rep_list[OF rep'] by simp
    with rep' True queue_rep_list[OF rep] lst show ?thesis
      by (auto simp: enqueue_link_def h_alloc_def queue_inv_def)
  next
    case False
    then obtain bs l where as: "as = bs @ [l]" by (metis rev_exhaust)
    have l: "l < length (q_heap q)" "l \<notin> set bs"
      using ch as chain_distinct[OF ch] by (auto dest: chain_less)
    obtain nd where nd: "deref ?h l = Some nd"
      using chg as chain_deref[of ?h "q_first q" as None l] by auto
    let ?h' = "?h[l := Some (nd\<lparr>n_next := Some ?n\<rparr>)]"
    let ?q = "q\<lparr>q_heap := ?h', q_last := Some ?n, q_size := q_size q + 1\<rparr>"
    have "chain ?h' (q_first q) (bs @ [l]) (Some ?n)"
      using chg l(2) nd unfolding as by (rule chain_relink)
    moreover have "chain ?h' (Some ?n) [?n] None"
      using l by (simp add: deref_update)
    ultimately have "chain ?h' (q_first q) (as @ [?n]) None"
      unfolding as by (subst chain_append) blast
    then have rep': "queue_rep ?q (as @ [?n])"
      using size assms(2) by (auto simp: queue_rep_def)
    have "elems ?h' as = elems (q_heap q) as"
      using nd elems_grow[OF ch, of "Some ?nd"] by simp
    moreover have "elem ?h' ?n = x" using nd by simp
    ultimately have "queue_list ?q = queue_list q @ [x]"
      using queue_rep_list[OF rep'] queue_rep_list[OF rep] by simp
    with rep' lst as nd show ?thesis
      by (auto simp: enqueue_link_def h_alloc_def h_set_next_def queue_inv_def)
  qed
qed

text \<open>Overflow drops the oldest element after running \<open>freeFn\<close> on it.\<close>

definition evicts :: "('a, 's) queue \<Rightarrow> bool" where
  "evicts q \<longleftrightarrow> q_max_capacity q \<noteq> 0 \<and> q_size q \<ge> q_max_capacity q"

lemma enqueue_evict_keep: "\<not> evicts q \<Longrightarrow> enqueue_evict q s = Some (q, s)"
  unfolding enqueue_evict_def evicts_def by (simp only: if_False)

definition freeFn_result :: "('a, 's) queue \<Rightarrow> 'a \<Rightarrow> 's \<Rightarrow> 's option" where
  "freeFn_result q x s = (case q_freeFn q of None \<Rightarrow> Some s | Some f \<Rightarrow> f x s)"

lemma enqueue_evict_drop:
  assumes "queue_inv q" "evicts q" "freeFn_result q (hd (queue_list q)) s = Some s'"
  shows "\<exists>q'. enqueue_evict q s = Some (q', s') \<and> queue_inv q' \<and> queue_list q' = tl (queue_list q)
    \<and> q_max_capacity q' = q_max_capacity q \<and> q_freeFn q' = q_freeFn q"
proof -
  from assms(1) obtain as where rep: "queue_rep q as" by (auto simp: queue_inv_def)
  with assms(2) obtain a bs where as: "as = a # bs"
    by (cases as) (auto simp: queue_rep_def evicts_def)
  from rep as obtain nd where nd: "q_first q = Some a" "deref (q_heap q) a = Some nd"
    by (auto simp: queue_rep_def split: option.splits)
  have "hd (queue_list q) = n_data nd"
    using queue_rep_list[OF rep] as nd by (simp add: elem_def)
  then have free: "(case q_freeFn q of None \<Rightarrow> Some s
      | Some f \<Rightarrow> do { a \<leftarrow> q_first q; nd \<leftarrow> deref (q_heap q) a; f (n_data nd) s }) = Some s'"
    using assms(3) nd by (simp add: freeFn_result_def split: option.splits)
  from dequeue_spec[OF assms(1)] obtain y q' where deq: "dequeue (Some q) = Some (y, Some q')"
      "queue_inv q'" "queue_list q' = tl (queue_list q)"
      "q_max_capacity q' = q_max_capacity q" "q_freeFn q' = q_freeFn q"
    by blast
  have "enqueue_evict q s = Some (q', s')"
    using assms(2) unfolding enqueue_evict_def evicts_def free deq(1) by simp
  with deq show ?thesis by blast
qed

lemma queue_bound: "queue_inv q \<Longrightarrow> q_max_capacity q = 0 \<or> length (queue_list q) \<le> q_max_capacity q"
  by (metis queue_inv_def queue_rep_def queue_size_list)

text \<open>The whole of \<open>enqueue\<close> on a good queue with memory available.\<close>

lemma enqueue_spec:
  assumes "queue_inv q"
    "evicts q \<Longrightarrow> freeFn_result q (hd (queue_list q)) s = Some s'" "\<not> evicts q \<Longrightarrow> s' = s"
  shows "\<exists>q'. enqueue True True (Some q) (Some x) s = Some (True, Some q', s') \<and> queue_inv q'
    \<and> queue_list q' = (if evicts q then tl (queue_list q) else queue_list q) @ [x]
    \<and> q_max_capacity q' = q_max_capacity q \<and> q_freeFn q' = q_freeFn q"
proof (cases "evicts q")
  case True
  with enqueue_evict_drop[OF assms(1)] assms(2) obtain q1 where
    q1: "enqueue_evict q s = Some (q1, s')" "queue_inv q1" "queue_list q1 = tl (queue_list q)"
      "q_max_capacity q1 = q_max_capacity q" "q_freeFn q1 = q_freeFn q"
    by blast
  have "q_size q1 < q_max_capacity q1"
    using q1 True queue_size_list[of q1] queue_bound[OF assms(1)] by (auto simp: evicts_def)
  with enqueue_link_spec[OF q1(2), of x] q1 True show ?thesis
    by (auto simp: enqueue_def)
next
  case False
  then have "q_max_capacity q = 0 \<or> q_size q < q_max_capacity q"
    by (auto simp: evicts_def)
  with enqueue_link_spec[OF assms(1), of x] False assms(3) show ?thesis
    by (auto simp: enqueue_def enqueue_evict_keep)
qed

text \<open>The iterator: what is still to be returned.\<close>

definition queue_iter_list :: "('a, 's) queue \<Rightarrow> 'a list" where
  "queue_iter_list q = walk (q_size q) (q_heap q) (q_iterNode q)"

lemma queue_begin_iter_list: "queue_iter_list (the (queue_begin_iter (Some q))) = queue_list q"
  by (simp add: queue_begin_iter_def queue_iter_list_def queue_list_def)

text \<open>\<open>free_queue\<close> terminates on every good queue.\<close>

lemma free_queue_spec:
  "queue_inv q \<Longrightarrow> \<exists>h'. free_queue (Some q) = Some h'"
  using free_nodes_spec by (fastforce simp: queue_inv_def queue_rep_def free_queue_def)

section \<open>The contract: a FIFO that drops the oldest element when full\<close>

text \<open>Capacity 0 is unlimited. \<open>push_all\<close> is a client's run of insertions.\<close>

fun push_all :: "('a \<Rightarrow> 'q \<Rightarrow> 'q option) \<Rightarrow> 'a list \<Rightarrow> 'q \<Rightarrow> 'q option" where
  "push_all push [] q = Some q"
| "push_all push (x # xs) q = do { q1 \<leftarrow> push x q; push_all push xs q1 }"

fun pop_n :: "('q \<Rightarrow> ('a option \<times> 'q) option) \<Rightarrow> nat \<Rightarrow> 'q \<Rightarrow> ('a list \<times> 'q) option" where
  "pop_n pop 0 q = Some ([], q)"
| "pop_n pop (Suc n) q = do {
     (x, q1) \<leftarrow> pop q;
     (xs, q2) \<leftarrow> pop_n pop n q1;
     Some ((case x of None \<Rightarrow> xs | Some y \<Rightarrow> y # xs), q2)
   }"

definition keep_last :: "nat \<Rightarrow> 'a list \<Rightarrow> 'a list" where
  "keep_last c xs = (if c = 0 then xs else drop (length xs - c) xs)"

lemma keep_last_id: "c = 0 \<or> length xs \<le> c \<Longrightarrow> keep_last c xs = xs"
  by (auto simp: keep_last_def)

lemma keep_last_keep_last: "keep_last c (keep_last c xs @ ys) = keep_last c (xs @ ys)"
  by (cases "c \<le> length xs") (auto simp: keep_last_def add.commute)

locale lossy_fifo =
  fixes inv :: "'q \<Rightarrow> bool"
    and list :: "'q \<Rightarrow> 'a list"
    and cap :: "'q \<Rightarrow> nat"
    and push :: "'a \<Rightarrow> 'q \<Rightarrow> 'q option"
    and pop :: "'q \<Rightarrow> ('a option \<times> 'q) option"
  assumes bound_law: "inv q \<Longrightarrow> cap q = 0 \<or> length (list q) \<le> cap q"
    and push_law: "inv q \<Longrightarrow> \<exists>q'. push x q = Some q' \<and> inv q' \<and> cap q' = cap q
      \<and> list q' = (if cap q \<noteq> 0 \<and> length (list q) \<ge> cap q then tl (list q) else list q) @ [x]"
    and pop_law: "inv q \<Longrightarrow> \<exists>q'. pop q = Some (case list q of [] \<Rightarrow> None | x # _ \<Rightarrow> Some x, q')
      \<and> inv q' \<and> cap q' = cap q \<and> list q' = tl (list q)"
begin

lemma push_keep_last:
  assumes "inv q"
  shows "\<exists>q'. push x q = Some q' \<and> inv q' \<and> cap q' = cap q
    \<and> list q' = keep_last (cap q) (list q @ [x])"
  using push_law[OF assms, of x] bound_law[OF assms]
  by (cases "list q") (auto simp: keep_last_def drop_Cons' Suc_diff_le split: if_splits)

lemma push_all_spec:
  "inv q \<Longrightarrow> \<exists>q'. push_all push xs q = Some q' \<and> inv q' \<and> cap q' = cap q
     \<and> list q' = keep_last (cap q) (list q @ xs)"
proof (induction xs arbitrary: q)
  case Nil
  then show ?case using bound_law by (auto simp: keep_last_id)
next
  case (Cons x xs)
  obtain q1 where q1: "push x q = Some q1" "inv q1" "cap q1 = cap q"
      "list q1 = keep_last (cap q) (list q @ [x])"
    using push_keep_last[OF Cons.prems] by blast
  with keep_last_keep_last[of "cap q" "list q @ [x]" xs] Cons.IH[OF q1(2)] q1 show ?case by simp
qed

lemma pop_n_spec:
  "inv q \<Longrightarrow> \<exists>q'. pop_n pop n q = Some (take n (list q), q') \<and> inv q' \<and> cap q' = cap q
     \<and> list q' = drop n (list q)"
proof (induction n arbitrary: q)
  case 0
  then show ?case by simp
next
  case (Suc n)
  obtain q1 where "pop q = Some (case list q of [] \<Rightarrow> None | x # _ \<Rightarrow> Some x, q1)"
      "inv q1" "cap q1 = cap q" "list q1 = tl (list q)"
    using pop_law[OF Suc.prems] by blast
  with Suc.IH[of q1] show ?case
    by (cases "list q") (auto simp: drop_Suc)
qed

text \<open>What comes out after a burst of insertions into an empty FIFO: the newest ones, in order.\<close>

lemma burst_spec:
  assumes "inv q" "list q = []"
  shows "\<exists>q1 q2. push_all push xs q = Some q1
    \<and> pop_n pop (length xs) q1 = Some (keep_last (cap q) xs, q2) \<and> list q2 = []"
proof -
  obtain q1 where q1: "push_all push xs q = Some q1" "inv q1" "list q1 = keep_last (cap q) xs"
    using push_all_spec[OF assms(1), of xs] assms(2) by auto
  have "length (keep_last (cap q) xs) \<le> length xs" by (simp add: keep_last_def)
  with pop_n_spec[OF q1(2), of "length xs"] q1 show ?thesis by auto
qed

end

text \<open>The code's queue, with a \<open>freeFn\<close> that never faults, meets the contract.\<close>

definition freeFn_total :: "('a, 's) queue \<Rightarrow> bool" where
  "freeFn_total q \<longleftrightarrow> (\<forall>x s. freeFn_result q x s \<noteq> None)"

definition fq_push :: "'a \<Rightarrow> ('a, 's) queue \<times> 's \<Rightarrow> (('a, 's) queue \<times> 's) option" where
  "fq_push x qs = do {
     (_, qp, s) \<leftarrow> enqueue True True (Some (fst qs)) (Some x) (snd qs);
     q \<leftarrow> qp;
     Some (q, s)
   }"

definition fq_pop :: "('a, 's) queue \<times> 's \<Rightarrow> ('a option \<times> ('a, 's) queue \<times> 's) option" where
  "fq_pop qs = do { (x, qp) \<leftarrow> dequeue (Some (fst qs)); q \<leftarrow> qp; Some (x, q, snd qs) }"

definition fq_inv :: "('a, 's) queue \<times> 's \<Rightarrow> bool" where
  "fq_inv qs \<longleftrightarrow> queue_inv (fst qs) \<and> freeFn_total (fst qs)"

lemma freeFn_total_cong: "q_freeFn q' = q_freeFn q \<Longrightarrow> freeFn_total q' = freeFn_total q"
  by (simp add: freeFn_total_def freeFn_result_def)

lemma fq_push_law:
  assumes "fq_inv qs"
  shows "\<exists>qs'. fq_push x qs = Some qs' \<and> fq_inv qs' \<and> q_max_capacity (fst qs') = q_max_capacity (fst qs)
    \<and> queue_list (fst qs') = (if q_max_capacity (fst qs) \<noteq> 0
        \<and> length (queue_list (fst qs)) \<ge> q_max_capacity (fst qs) then tl (queue_list (fst qs))
        else queue_list (fst qs)) @ [x]"
proof -
  obtain q s where qs: "qs = (q, s)" by (cases qs)
  with assms have inv: "queue_inv q" and tot: "freeFn_total q" by (auto simp: fq_inv_def)
  obtain s' where s': "evicts q \<Longrightarrow> freeFn_result q (hd (queue_list q)) s = Some s'" "\<not> evicts q \<Longrightarrow> s' = s"
    using tot unfolding freeFn_total_def by (metis not_Some_eq)
  from enqueue_spec[OF inv s', of x] qs tot queue_size_list[OF inv] show ?thesis
    by (auto simp: fq_push_def fq_inv_def evicts_def cong: freeFn_total_cong)
qed

interpretation fq: lossy_fifo fq_inv "\<lambda>qs. queue_list (fst qs)" "\<lambda>qs. q_max_capacity (fst qs)" fq_push fq_pop
proof (unfold_locales, goal_cases)
  case (1 qs)
  then show ?case by (auto simp: fq_inv_def dest: queue_bound)
next
  case (2 qs x)
  then show ?case by (rule fq_push_law)
next
  case (3 qs)
  then have "queue_inv (fst qs)" by (simp add: fq_inv_def)
  from dequeue_spec[OF this] 3 show ?case
    by (auto simp: fq_pop_def fq_inv_def cong: freeFn_total_cong)
qed

end
