(* ===== verification/Logger.thy ===== *)
theory Logger
  imports FifoQueue Connection
begin

text \<open>
  The logger of the server, \<open>src/server/logger.c\<close>. Messages are formatted into strings of their
  own, kept in a bounded queue, and written by the selector when the log file is ready. Strings are
  given by their bytes up to the terminator; \<open>log_live\<close> counts the strings that are allocated and
  not freed, so a message that is dropped without \<open>free\<close> shows.

  The calls that only the logger makes (\<open>write\<close>, \<open>open\<close>, the clock) are fields of the record
  \<open>host\<close>; the compile time switch \<open>NO_COLOR_LOGS\<close> is one too. The macros have the values of
  \<open>src/server/include/defines.h\<close>.
\<close>

section \<open>State\<close>

abbreviation (input) MAX_LOG_SIZE :: nat where "MAX_LOG_SIZE \<equiv> 1024"
abbreviation (input) MAX_LOG_QUEUE_SIZE :: nat where "MAX_LOG_QUEUE_SIZE \<equiv> 100"
abbreviation (input) LOGGER_TRACE :: int where "LOGGER_TRACE \<equiv> 0"
abbreviation (input) LOGGER_DEBUG :: int where "LOGGER_DEBUG \<equiv> 1"
abbreviation (input) LOGGER_INFO :: int where "LOGGER_INFO \<equiv> 2"
abbreviation (input) LOGGER_WARN :: int where "LOGGER_WARN \<equiv> 3"
abbreviation (input) LOGGER_ERROR :: int where "LOGGER_ERROR \<equiv> 4"
abbreviation (input) LOGGER_FATAL :: int where "LOGGER_FATAL \<equiv> 5"
abbreviation (input) LOGGER_ACCESS_LOG :: int where "LOGGER_ACCESS_LOG \<equiv> 6"
abbreviation (input) LOGGER_MIN_LEVEL :: int where "LOGGER_MIN_LEVEL \<equiv> LOGGER_INFO"
abbreviation (input) STDOUT_FILENO :: int where "STDOUT_FILENO \<equiv> 1"

record tm =
  tm_year :: nat
  tm_mon :: nat
  tm_mday :: nat
  tm_hour :: nat
  tm_min :: nat
  tm_sec :: nat

record 'w host =
  h_write :: "int \<Rightarrow> byte list \<Rightarrow> 'w \<Rightarrow> nat sys \<times> 'w"
  h_open :: "byte list \<Rightarrow> 'w \<Rightarrow> int sys \<times> 'w"
  h_localtime :: "'w \<Rightarrow> tm"
  h_strerror :: "nat \<Rightarrow> byte list"
  NO_COLOR_LOGS :: bool

record logger =
  logQueue :: "(byte list, nat) queue option"
  logBuffer :: buffer
  currentLog :: "byte list option"
  minLogLevel :: int
  logFile :: int
  loggerSelector :: bool
  logAlwaysIncrementalId :: nat
  log_live :: nat

type_synonym ('w, 'm) logging = "logger \<times> ('w, 'm) env_scheme"

definition logger_static :: logger where
  "logger_static = \<lparr>logQueue = None, logBuffer = buffer_init 0 [], currentLog = None, minLogLevel = LOGGER_MIN_LEVEL,
     logFile = - 1, loggerSelector = False, logAlwaysIncrementalId = 0, log_live = 0\<rparr>"

text \<open>\<open>free\<close> of a message.\<close>

definition free_log :: "byte list \<Rightarrow> nat \<Rightarrow> nat option" where
  "free_log msg n = do { c_assert (0 < n); Some (n - 1) }"

definition freed :: "logger \<Rightarrow> logger option" where
  "freed lg = do { n \<leftarrow> free_log [] (log_live lg); Some (lg\<lparr>log_live := n\<rparr>) }"

section \<open>Formatting\<close>

definition log_level_to_string :: "bool \<Rightarrow> int \<Rightarrow> int \<Rightarrow> byte list" where
  "log_level_to_string no_color log_file level =
     (if \<not> no_color \<and> log_file = STDOUT_FILENO then
        (if level = LOGGER_TRACE then 27 # ascii ''[0;90mTRACE'' @ 27 # ascii ''[0m''
         else if level = LOGGER_DEBUG then 27 # ascii ''[36mDEBUG'' @ 27 # ascii ''[0m''
         else if level = LOGGER_INFO then 27 # ascii ''[34mINFO'' @ 27 # ascii ''[0m''
         else if level = LOGGER_WARN then 27 # ascii ''[33mWARN'' @ 27 # ascii ''[0m''
         else if level = LOGGER_ERROR then 27 # ascii ''[31mERROR'' @ 27 # ascii ''[0m''
         else if level = LOGGER_FATAL then 27 # ascii ''[41;37mFATAL'' @ 27 # ascii ''[0m''
         else if level = LOGGER_ACCESS_LOG then 27 # ascii ''[44m'' @ 27 # ascii ''[37mACCESS'' @ 27 # ascii ''[0m''
         else ascii ''UNKNOWN'')
      else
        (if level = LOGGER_TRACE then ascii ''TRACE''
         else if level = LOGGER_DEBUG then ascii ''DEBUG''
         else if level = LOGGER_INFO then ascii ''INFO''
         else if level = LOGGER_WARN then ascii ''WARN''
         else if level = LOGGER_ERROR then ascii ''ERROR''
         else if level = LOGGER_FATAL then ascii ''FATAL''
         else if level = LOGGER_ACCESS_LOG then ascii ''ACCESS''
         else ascii ''UNKNOWN''))"

text \<open>\<open>%0kd\<close> of a number that is not negative.\<close>

definition padded :: "nat \<Rightarrow> nat \<Rightarrow> byte list" where
  "padded k n = replicate (k - length (dec_digits n)) 48 @ dec_digits n"

definition log_prefix :: "byte list \<Rightarrow> int \<Rightarrow> nat \<Rightarrow> tm \<Rightarrow> byte list \<Rightarrow> nat \<Rightarrow> byte list" where
  "log_prefix levelStr level logId t file line = (
     let padding = (if level = LOGGER_INFO \<or> level = LOGGER_WARN then ascii '' '' else []);
         when = padded 4 (tm_year t + 1900) @ ascii ''-'' @ padded 2 (tm_mon t + 1) @ ascii ''-'' @ padded 2 (tm_mday t)
           @ ascii '' '' @ padded 2 (tm_hour t) @ ascii '':'' @ padded 2 (tm_min t) @ ascii '':'' @ padded 2 (tm_sec t)
     in if level = LOGGER_ACCESS_LOG
        then ascii ''['' @ levelStr @ ascii '']'' @ padding @ ascii '' ['' @ padded 6 (logId mod 1000000) @ ascii ''] ['' @ when
          @ ascii '']  ''
        else ascii ''['' @ levelStr @ ascii '']'' @ padding @ ascii ''  ['' @ padded 6 (logId mod 1000000) @ ascii ''] ['' @ when
          @ ascii '' @ '' @ file @ ascii '':'' @ dec_digits line @ ascii ''] '')"

text \<open>
  The message with its prefix in \<open>MAX_LOG_SIZE\<close> bytes; \<open>body\<close> is the text that \<open>fmt\<close> and its
  arguments stand for. A longer prefix makes the size of the second \<open>snprintf\<close> wrap.
\<close>

definition log_text :: "byte list \<Rightarrow> byte list \<Rightarrow> byte list option" where
  "log_text prefix body = do {
     let body = take (MAX_LOG_SIZE - 1) body;
     let prefixSize = length prefix;
     let out = take (MAX_LOG_SIZE - 1) prefix;
     c_assert (prefixSize \<le> MAX_LOG_SIZE);
     let out = (if prefixSize < MAX_LOG_SIZE then out @ take (MAX_LOG_SIZE - prefixSize - 1) (body @ [10]) else out);
     Some (if length out \<ge> MAX_LOG_SIZE - 1 then take (MAX_LOG_SIZE - 5) out @ ascii ''...'' @ [10] else out)
   }"

definition format_log_message ::
  "'w os \<Rightarrow> ('w, 'x) host_scheme \<Rightarrow> int \<Rightarrow> byte list \<Rightarrow> nat \<Rightarrow> byte list \<Rightarrow> ('w, 'm) logging
   \<Rightarrow> (byte list option \<times> ('w, 'm) logging) option" where
  "format_log_message os h level file line body = (\<lambda>(lg, s).
     let levelStr = log_level_to_string (NO_COLOR_LOGS h) (logFile lg) level;
         logId = logAlwaysIncrementalId lg;
         lg = lg\<lparr>logAlwaysIncrementalId := logId + 1\<rparr>
     in (case os_malloc os (e_world s) of (m, w) \<Rightarrow>
       let s = s\<lparr>e_world := w\<rparr> in
       if \<not> m then Some (None, lg, s)
       else do {
         out \<leftarrow> log_text (log_prefix levelStr level logId (h_localtime h w) file line) body;
         Some (Some out, lg\<lparr>log_live := log_live lg + 1\<rparr>, s)
       }))"

section \<open>The selector\<close>

text \<open>The argument is not \<open>NULL\<close>.\<close>

definition logger_register_selector :: "'w os \<Rightarrow> ('w, 'm) logging \<Rightarrow> (int \<times> ('w, 'm) logging) option" where
  "logger_register_selector os = (\<lambda>(lg, s).
     (case selector_fd_set_nio os (logFile lg) (e_world s) of (r, w) \<Rightarrow>
       let s = s\<lparr>e_world := w\<rparr> in
       if r < 0 then Some (- 1, lg, s)
       else do {
         (ss, s) \<leftarrow> (if \<not> loggerSelector lg
            then selector_register (fst (os_malloc os w)) (logFile lg) (Some LOGGER_HANDLER) OP_WRITE None s
            else do { (_, s) \<leftarrow> selector_set_interest (logFile lg) OP_WRITE s; Some (SELECTOR_SUCCESS, s) });
         let lg = (if \<not> loggerSelector lg then lg\<lparr>loggerSelector := True\<rparr> else lg);
         Some (if ss = SELECTOR_SUCCESS then 0 else - 1, lg, s)
       }))"

text \<open>Here the selector may be \<open>NULL\<close>: it is the static variable.\<close>

definition logger_unregister_selector :: "('w, 'm) logging \<Rightarrow> (int \<times> ('w, 'm) logging) option" where
  "logger_unregister_selector = (\<lambda>(lg, s).
     (if \<not> loggerSelector lg then Some (0, lg, s)
      else do {
        (ss, s) \<leftarrow> selector_set_interest (logFile lg) OP_NOOP s;
        Some (if ss = SELECTOR_SUCCESS then 0 else - 1, lg, s)
      }))"

section \<open>Logging\<close>

definition logger_log_message_deferred ::
  "'w os \<Rightarrow> ('w, 'x) host_scheme \<Rightarrow> int \<Rightarrow> byte list \<Rightarrow> nat \<Rightarrow> byte list \<Rightarrow> ('w, 'm) logging \<Rightarrow> ('w, 'm) logging option" where
  "logger_log_message_deferred os h level file line msg = (\<lambda>(lg, s).
     if logQueue lg = None \<or> level < minLogLevel lg then Some (lg, s)
     else do {
       (formattedMsg, lg, s) \<leftarrow> format_log_message os h level file line msg (lg, s);
       (case formattedMsg of
          None \<Rightarrow> Some (lg, s)
        | Some m \<Rightarrow>
           (case os_malloc os (e_world s) of (m1, w) \<Rightarrow>
           (case (if m1 then os_malloc os w else (True, w)) of (m2, w) \<Rightarrow> do {
             (_, q, n) \<leftarrow> enqueue m1 m2 (logQueue lg) (Some m) (log_live lg);
             let lg = lg\<lparr>logQueue := q, log_live := n\<rparr>;
             let s = s\<lparr>e_world := w\<rparr>;
             (if loggerSelector lg \<and> logAlwaysIncrementalId lg mod (MAX_LOG_QUEUE_SIZE div 3) = 0
              then do { (_, lg, s) \<leftarrow> logger_register_selector os (lg, s); Some (lg, s) }
              else Some (lg, s))
           })))
     })"

definition open_file_non_blocking ::
  "'w os \<Rightarrow> ('w, 'x) host_scheme \<Rightarrow> byte list option \<Rightarrow> ('w, 'm) logging \<Rightarrow> (int \<times> ('w, 'm) logging) option" where
  "open_file_non_blocking os h filename = (\<lambda>(lg, s).
     (case filename of
        None \<Rightarrow> do {
          r \<leftarrow> logger_log_message_deferred os h LOGGER_WARN (ascii ''logger.c'') 82
             (ascii ''No file provided, logging to STDOUT'') (lg, s);
          Some (STDOUT_FILENO, r)
        }
      | Some name \<Rightarrow>
        (case h_open h name (e_world s) of
           (SysOk file, w) \<Rightarrow> Some (file, lg, s\<lparr>e_world := w\<rparr>)
         | (SysErr e, w) \<Rightarrow> do {
             r \<leftarrow> logger_log_message_deferred os h LOGGER_ERROR (ascii ''logger.c'') 86
                (ascii ''Failed to open log file '' @ 34 # name @ 34 # ascii '': '' @ h_strerror h e @ ascii ''. Logging to STD_OUT'')
                (lg, s\<lparr>e_world := w\<rparr>);
             Some (STDOUT_FILENO, r)
           })))"

definition logger_init :: "'w os \<Rightarrow> ('w, 'x) host_scheme \<Rightarrow> byte list option \<Rightarrow> ('w, 'm) logging \<Rightarrow> ('w, 'm) logging option" where
  "logger_init os h LOG_FILE_NAME = (\<lambda>(lg, s).
     (case os_malloc os (e_world s) of (m, w) \<Rightarrow> do {
       let lg = lg\<lparr>logQueue := create_queue m (Some free_log) MAX_LOG_QUEUE_SIZE, logBuffer := buffer_init MAX_LOG_SIZE []\<rparr>;
       (file, lg, s) \<leftarrow> open_file_non_blocking os h LOG_FILE_NAME (lg, s\<lparr>e_world := w\<rparr>);
       Some (lg\<lparr>logFile := file\<rparr>, s)
     }))"

section \<open>Writing\<close>

text \<open>Taking an element makes the queue shorter, so the loops over it end.\<close>

lemma dequeue_shrinks:
  assumes "dequeue qp = Some (x, qp')" "queue_size qp \<noteq> 0"
  shows "queue_size qp' < queue_size qp"
  using assms by (auto simp: dequeue_def dequeue_nn_def queue_size_def Let_def split: option.splits if_splits elim!: bind_SomeE)

text \<open>\<open>written == toRead\<close> compares an \<open>int\<close> with a \<open>size_t\<close>; \<open>-1\<close> is no size.\<close>

definition write_result :: "nat sys \<Rightarrow> int" where
  "write_result r = (case r of SysErr _ \<Rightarrow> - 1 | SysOk n \<Rightarrow> int n)"

definition take_log :: "logger \<Rightarrow> logger option" where
  "take_log lg = do {
     (x, qp) \<leftarrow> dequeue (logQueue lg);
     log \<leftarrow> x;
     b \<leftarrow> buffer_write_adv (buffer_init (length log) log) (int (length log));
     Some (lg\<lparr>logQueue := qp, currentLog := Some log, logBuffer := b\<rparr>)
   }"

definition write_some ::
  "('w, 'x) host_scheme \<Rightarrow> ('w, 'm) logging \<Rightarrow> ((logger \<times> ('w, 'm) env_scheme) \<times> nat \<times> int) option" where
  "write_some h = (\<lambda>(lg, s). do {
     (rPtr, toRead) \<leftarrow> buffer_read_ptr (logBuffer lg);
     let (r, w) = h_write h (logFile lg) (buffer_window (logBuffer lg)) (e_world s);
     let written = write_result r;
     b \<leftarrow> buffer_read_adv (logBuffer lg) written;
     let lg = lg\<lparr>logBuffer := b\<rparr>;
     lg \<leftarrow> (if written = int toRead then do { lg \<leftarrow> freed lg; Some (lg\<lparr>currentLog := None\<rparr>) } else Some lg);
     Some ((lg, s\<lparr>e_world := w\<rparr>), toRead, written)
   })"

lemma take_log_shrinks:
  "take_log lg = Some lg1 \<Longrightarrow> queue_size (logQueue lg) \<noteq> 0 \<Longrightarrow> queue_size (logQueue lg1) < queue_size (logQueue lg)"
  using dequeue_shrinks by (fastforce simp: take_log_def Let_def elim!: bind_SomeE)

lemma write_some_queue: "write_some h (lg, s) = Some ((lg1, s1), n, k) \<Longrightarrow> logQueue lg1 = logQueue lg"
  by (auto simp: write_some_def freed_def Let_def split: prod.splits if_splits elim!: bind_SomeE)

function write_loop ::
  "('w, 'x) host_scheme \<Rightarrow> ('w, 'm) logging \<Rightarrow> nat \<Rightarrow> int \<Rightarrow> (('w, 'm) logging \<times> nat \<times> nat \<times> int) option" where
  "write_loop h (lg, s) toRead written =
     (let queueSize = queue_size (logQueue lg) in
      if queueSize = 0 then Some ((lg, s), queueSize, toRead, written)
      else do {
        peek \<leftarrow> queue_peek (logQueue lg);
        (if toRead = 0 \<and> written = int toRead \<and> peek \<noteq> None then do {
           lg1 \<leftarrow> take_log lg;
           (if buffer_can_read (logBuffer lg1) then do {
              ((lg2, s2), toRead2, written2) \<leftarrow> write_some h (lg1, s);
              write_loop h (lg2, s2) toRead2 written2
            } else write_loop h (lg1, s) toRead written)
         } else Some ((lg, s), queueSize, toRead, written))
      })"
  by pat_completeness auto
termination
  by (relation "measure (\<lambda>(h, (lg, s), _). queue_size (logQueue lg))")
    (auto dest!: take_log_shrinks write_some_queue)

declare write_loop.simps [simp del]

definition write_logs_deferred :: "('w, 'x) host_scheme \<Rightarrow> ('w, 'm) logging \<Rightarrow> ('w, 'm) logging option" where
  "write_logs_deferred h ls = do {
     (ls, queueSize, toRead, written) \<leftarrow> write_loop h ls 0 0;
     (if queueSize = 0 \<and> written = int toRead
      then do { (_, ls) \<leftarrow> logger_unregister_selector ls; Some ls } else Some ls)
   }"

text \<open>The handler structure: \<open>loggerHandlers\<close>, whose key has no data.\<close>

function flush_loop :: "('w, 'x) host_scheme \<Rightarrow> ('w, 'm) logging \<Rightarrow> ('w, 'm) logging option" where
  "flush_loop h (lg, s) =
     (if queue_size (logQueue lg) = 0 then Some (lg, s)
      else do {
        (msg, qp) \<leftarrow> dequeue (logQueue lg);
        (case msg of
           None \<Rightarrow> flush_loop h (lg\<lparr>logQueue := qp\<rparr>, s)
         | Some m \<Rightarrow> do {
             n \<leftarrow> free_log m (log_live lg);
             flush_loop h (lg\<lparr>logQueue := qp, log_live := n\<rparr>, s\<lparr>e_world := snd (h_write h (logFile lg) m (e_world s))\<rparr>)
           })
      })"
  by pat_completeness auto
termination
  by (relation "measure (\<lambda>(h, lg, s). queue_size (logQueue lg))") (auto dest!: dequeue_shrinks)

declare flush_loop.simps [simp del]

definition flush_all_logs :: "('w, 'x) host_scheme \<Rightarrow> ('w, 'm) logging \<Rightarrow> ('w, 'm) logging option" where
  "flush_all_logs h = (\<lambda>(lg, s). if logQueue lg = None then Some (lg, s) else flush_loop h (lg, s))"

definition free_logger :: "'w os \<Rightarrow> ('w, 'x) host_scheme \<Rightarrow> ('w, 'm) logging \<Rightarrow> ('w, 'm) logging option" where
  "free_logger os h = (\<lambda>(lg, s).
     (if logQueue lg = None then Some (lg, s)
      else do {
        let (lg, s) = (if 0 \<le> logFile lg \<and> logFile lg \<noteq> STDOUT_FILENO
          then (lg\<lparr>logFile := - 1\<rparr>, s\<lparr>e_world := os_close os (logFile lg) (e_world s)\<rparr>) else (lg, s));
        (lg, s) \<leftarrow> flush_all_logs h (lg, s);
        _ \<leftarrow> free_queue (logQueue lg);
        Some (lg\<lparr>logQueue := None\<rparr>, s)
      }))"

end
