(* ===== verification/LoggerLaws.thy ===== *)
theory LoggerLaws
  imports Logger
begin

text \<open>
  The logger on every branch: what a message looks like, what the queue holds after it, what one
  event of the log file writes, and what is lost.
\<close>

section \<open>The text of a message\<close>

lemma log_text_fits:
  assumes "length prefix + length body < MAX_LOG_SIZE - 2"
  shows "log_text prefix body = Some (prefix @ body @ [10])"
  using assms by (simp add: log_text_def Let_def)

lemma log_text_cut:
  assumes "length prefix \<le> MAX_LOG_SIZE" "MAX_LOG_SIZE - 2 \<le> length prefix + length body"
  shows "log_text prefix body = Some (take (MAX_LOG_SIZE - 5) (prefix @ body) @ ascii ''...'' @ [10])"
  using assms by (auto simp: log_text_def Let_def min_def)

lemma ascii_length [simp]: "length (ascii s) = length s"
  by (simp add: ascii_def)

lemma log_text_bound:
  assumes "log_text prefix body = Some out"
  shows "out \<noteq> [] \<and> length out < MAX_LOG_SIZE \<and> last out = 10"
proof -
  have p: "length prefix \<le> MAX_LOG_SIZE" using assms by (auto simp: log_text_def Let_def c_assert_bind split: if_splits)
  show ?thesis
    using assms log_text_fits[of prefix body] log_text_cut[OF p, of body] by (cases "length prefix + length body < MAX_LOG_SIZE - 2") auto
qed

section \<open>The state\<close>

definition log_ok :: "logger \<Rightarrow> bool" where
  "log_ok lg \<longleftrightarrow> (case logQueue lg of None \<Rightarrow> False
     | Some q \<Rightarrow> queue_inv q \<and> q_freeFn q = Some free_log \<and> q_max_capacity q = MAX_LOG_QUEUE_SIZE
         \<and> length (queue_list q) + (if currentLog lg = None then 0 else 1) \<le> log_live lg)"

definition pending :: "logger \<Rightarrow> byte list list" where
  "pending lg = (case logQueue lg of None \<Rightarrow> [] | Some q \<Rightarrow> queue_list q)"

lemma log_okD:
  assumes "log_ok lg"
  obtains q where "logQueue lg = Some q" "queue_inv q" "q_freeFn q = Some free_log" "q_max_capacity q = MAX_LOG_QUEUE_SIZE"
    "length (queue_list q) + (if currentLog lg = None then 0 else 1) \<le> log_live lg" "pending lg = queue_list q"
  using assms by (auto simp: log_ok_def pending_def split: option.splits)

lemma log_okI:
  assumes "logQueue lg = Some q" "queue_inv q" "q_freeFn q = Some free_log" "q_max_capacity q = MAX_LOG_QUEUE_SIZE"
    and "length (queue_list q) + (if currentLog lg = None then 0 else 1) \<le> log_live lg"
  shows "log_ok lg"
  using assms by (simp add: log_ok_def)

lemma pending_bound: "log_ok lg \<Longrightarrow> length (pending lg) \<le> MAX_LOG_QUEUE_SIZE"
  by (auto elim!: log_okD dest!: queue_bound)

lemma pending_size: "log_ok lg \<Longrightarrow> queue_size (logQueue lg) = length (pending lg)"
  by (auto elim!: log_okD simp: queue_size_def queue_size_list)

lemma pending_peek:
  "log_ok lg \<Longrightarrow> queue_peek (logQueue lg) = Some (case pending lg of [] \<Rightarrow> None | x # _ \<Rightarrow> Some x)"
  by (auto elim!: log_okD simp: queue_peek_spec)

lemma pending_dequeue:
  assumes "log_ok lg" "pending lg = m # ms"
  obtains q where "dequeue (logQueue lg) = Some (Some m, Some q)" "queue_inv q" "queue_list q = ms"
    "q_freeFn q = Some free_log" "q_max_capacity q = MAX_LOG_QUEUE_SIZE"
  using assms(1)
proof (rule log_okD)
  fix q assume q: "logQueue lg = Some q" "queue_inv q" "q_freeFn q = Some free_log" "q_max_capacity q = MAX_LOG_QUEUE_SIZE"
    "pending lg = queue_list q"
  with dequeue_spec[OF q(2)] assms(2) show thesis by (auto intro: that)
qed

section \<open>A message is put\<close>

lemma log_put:
  assumes ok: "log_ok lg" and lv: "minLogLevel lg \<le> level"
    and mem: "os_malloc os (e_world s) = (True, w1)" "os_malloc os w1 = (True, w2)" "os_malloc os w2 = (True, w3)"
    and tx: "log_text (log_prefix (log_level_to_string (NO_COLOR_LOGS h) (logFile lg) level) level
      (logAlwaysIncrementalId lg) (h_localtime h w1) file line) body = Some m"
    and quiet: "\<not> loggerSelector lg \<or> (logAlwaysIncrementalId lg + 1) mod 33 \<noteq> 0"
  shows "\<exists>lg'. logger_log_message_deferred os h level file line body (lg, s) = Some (lg', s\<lparr>e_world := w3\<rparr>)
    \<and> log_ok lg' \<and> pending lg' = keep_last MAX_LOG_QUEUE_SIZE (pending lg @ [m])
    \<and> logAlwaysIncrementalId lg' = logAlwaysIncrementalId lg + 1 \<and> logFile lg' = logFile lg \<and> currentLog lg' = currentLog lg
    \<and> loggerSelector lg' = loggerSelector lg \<and> minLogLevel lg' = minLogLevel lg \<and> logBuffer lg' = logBuffer lg"
proof -
  from ok obtain q where q: "logQueue lg = Some q" "queue_inv q" "q_freeFn q = Some free_log" "q_max_capacity q = MAX_LOG_QUEUE_SIZE"
    "length (queue_list q) + (if currentLog lg = None then 0 else 1) \<le> log_live lg" "pending lg = queue_list q"
    by (rule log_okD)
  have len: "q_size q = length (queue_list q)" by (rule queue_size_list[OF q(2)])
  have ev: "evicts q = (100 \<le> length (queue_list q))" using q(4) len by (simp add: evicts_def)
  let ?n = "log_live lg + 1" and ?n' = "if evicts q then log_live lg else log_live lg + 1"
  have "evicts q \<Longrightarrow> freeFn_result q (hd (queue_list q)) ?n = Some ?n'" "\<not> evicts q \<Longrightarrow> ?n' = ?n"
    using q(3) by (simp_all add: freeFn_result_def free_log_def)
  from enqueue_spec[OF q(2) this, of m] obtain q' where
    q': "enqueue True True (Some q) (Some m) ?n = Some (True, Some q', ?n')" "queue_inv q'"
      "queue_list q' = (if evicts q then tl (queue_list q) else queue_list q) @ [m]"
      "q_max_capacity q' = q_max_capacity q" "q_freeFn q' = q_freeFn q" by blast
  have bd: "length (queue_list q) \<le> 100" using queue_bound[OF q(2)] q(4) by simp
  have kl: "queue_list q' = keep_last MAX_LOG_QUEUE_SIZE (queue_list q @ [m])"
    using bd ev unfolding q'(3) keep_last_def by (cases "queue_list q") (auto simp: drop_Cons')
  let ?lg = "lg\<lparr>logAlwaysIncrementalId := logAlwaysIncrementalId lg + 1, log_live := ?n\<rparr>"
  let ?lg' = "?lg\<lparr>logQueue := Some q', log_live := ?n'\<rparr>"
  have "length (queue_list q') + (if currentLog lg = None then 0 else 1) \<le> ?n'"
    using q(5) ev unfolding q'(3) by (auto simp: not_less_eq_eq)
  then have "log_ok ?lg'" using q' q(3,4) by (intro log_okI[of _ q']) simp_all
  moreover have "logger_log_message_deferred os h level file line body (lg, s) = Some (?lg', s\<lparr>e_world := w3\<rparr>)"
    using q(1) lv mem tx q'(1) quiet
    by (cases "evicts q") (auto simp: logger_log_message_deferred_def format_log_message_def Let_def)
  ultimately show ?thesis using kl q(6) by (intro exI[of _ ?lg'] conjI) (simp_all add: pending_def)
qed

lemma log_quiet: "level < minLogLevel lg \<Longrightarrow> logger_log_message_deferred os h level file line body (lg, s) = Some (lg, s)"
  by (simp add: logger_log_message_deferred_def)

section \<open>The file is ready\<close>

text \<open>What one event does: it writes the oldest message, whatever \<open>write\<close> takes of it.\<close>

definition unregistered :: "logger \<Rightarrow> ('w, 'm) env_scheme \<Rightarrow> ('w, 'm) env_scheme" where
  "unregistered lg s = (if loggerSelector lg \<and> sel_entry s (logFile lg) \<noteq> None then with_interest (logFile lg) OP_NOOP s else s)"

lemma logger_unregister_spec:
  assumes "sel_inv s" "sel_full s"
  shows "\<exists>r. logger_unregister_selector (lg, s) = Some (r, lg, unregistered lg s)"
  using set_interest_full[OF assms, of "logFile lg" OP_NOOP] by (auto simp: logger_unregister_selector_def unregistered_def)

lemma write_nothing:
  assumes "log_ok lg" "pending lg = []" "sel_inv s" "sel_full s"
  shows "write_logs_deferred h (lg, s) = Some (lg, unregistered lg s)"
  using logger_unregister_spec[OF assms(3,4), of lg] pending_size[OF assms(1)] assms(2)
  by (auto simp: write_logs_deferred_def write_loop.simps)

lemma sel_world [simp]:
  "sel_inv (s\<lparr>e_world := w\<rparr>) = sel_inv s" "sel_full (s\<lparr>e_world := w\<rparr>) = sel_full s" "sel_entry (s\<lparr>e_world := w\<rparr>) = sel_entry s"
  by (simp_all add: fun_eq_iff sel_inv_def sel_full_def items_ok_def max_ok_def wants_def sel_entry_def)

lemma take_log_spec:
  assumes ok: "log_ok lg" and p: "pending lg = m # ms" and m: "m \<noteq> []"
  obtains q b where "take_log lg = Some (lg\<lparr>logQueue := Some q, currentLog := Some m, logBuffer := b\<rparr>)"
    "queue_inv q" "queue_list q = ms" "q_freeFn q = Some free_log" "q_max_capacity q = MAX_LOG_QUEUE_SIZE"
    "buffer_inv b" "buffer_window b = m"
proof -
  from pending_dequeue[OF ok p] obtain q where q: "dequeue (logQueue lg) = Some (Some m, Some q)" "queue_inv q" "queue_list q = ms"
    "q_freeFn q = Some free_log" "q_max_capacity q = MAX_LOG_QUEUE_SIZE" by blast
  let ?b = "(buffer_init (length m) m)\<lparr>b_write := length m\<rparr>"
  have b: "buffer_write_adv (buffer_init (length m) m) (int (length m)) = Some ?b"
    by (simp add: buffer_write_adv_def buffer_init_def Let_def)
  show thesis
  proof (rule that[OF _ q(2-5)])
    show "take_log lg = Some (lg\<lparr>logQueue := Some q, currentLog := Some m, logBuffer := ?b\<rparr>)"
      using q(1) b by (simp add: take_log_def)
    show "buffer_inv ?b" using m by (simp add: buffer_inv_def buffer_init_def)
    show "buffer_window ?b = m" by (simp add: buffer_window_def buffer_init_def)
  qed
qed

lemma write_some_spec:
  assumes b: "buffer_inv (logBuffer lg)" "buffer_window (logBuffer lg) = m" "m \<noteq> []" and live: "0 < log_live lg"
    and w: "h_write h (logFile lg) m (e_world s) = (r, w)" "\<And>k. r = SysOk k \<Longrightarrow> k \<le> length m"
  shows "\<exists>b'. write_some h (lg, s) = Some ((if r = SysOk (length m)
      then lg\<lparr>logBuffer := b', log_live := log_live lg - 1, currentLog := None\<rparr> else lg\<lparr>logBuffer := b'\<rparr>, s\<lparr>e_world := w\<rparr>),
      length m, write_result r)"
proof -
  note rp = read_ptr_eq[OF b(1)]
  obtain b' where b': "buffer_read_adv (logBuffer lg) (write_result r) = Some b'"
    using read_adv_spec[OF b(1)] w(2) b(2) by (cases r) (auto simp: write_result_def)
  have e: "(write_result r = int (length m)) = (r = SysOk (length m))" by (cases r) (auto simp: write_result_def)
  show ?thesis using rp b' w(1) b(2) live e by (intro exI[of _ b']) (simp add: write_some_def freed_def free_log_def)
qed

definition after_write :: "byte list \<Rightarrow> nat sys \<Rightarrow> logger \<Rightarrow> logger \<Rightarrow> bool" where
  "after_write m r lg lg' \<longleftrightarrow> logFile lg' = logFile lg \<and> loggerSelector lg' = loggerSelector lg
     \<and> logAlwaysIncrementalId lg' = logAlwaysIncrementalId lg \<and> minLogLevel lg' = minLogLevel lg
     \<and> (if r = SysOk (length m) then currentLog lg' = None \<and> log_live lg' = log_live lg - 1
        else currentLog lg' = Some m \<and> log_live lg' = log_live lg)"

lemma write_one:
  assumes ok: "log_ok lg" and p: "pending lg = m # ms" and m: "m \<noteq> []"
    and s: "sel_inv s" "sel_full s"
    and w: "h_write h (logFile lg) m (e_world s) = (r, w)" "\<And>k. r = SysOk k \<Longrightarrow> k \<le> length m"
  shows "\<exists>lg'. write_logs_deferred h (lg, s) = Some (lg',
      if ms = [] \<and> r = SysOk (length m) then unregistered lg (s\<lparr>e_world := w\<rparr>) else s\<lparr>e_world := w\<rparr>)
    \<and> log_ok lg' \<and> pending lg' = ms \<and> after_write m r lg lg'"
proof -
  from take_log_spec[OF ok p m] obtain q b where q: "take_log lg = Some (lg\<lparr>logQueue := Some q, currentLog := Some m, logBuffer := b\<rparr>)"
    "queue_inv q" "queue_list q = ms" "q_freeFn q = Some free_log" "q_max_capacity q = MAX_LOG_QUEUE_SIZE"
    "buffer_inv b" "buffer_window b = m" by blast
  let ?l1 = "lg\<lparr>logQueue := Some q, currentLog := Some m, logBuffer := b\<rparr>"
  have live: "length (pending lg) \<le> log_live lg" using ok by (auto elim!: log_okD)
  then have l1: "0 < log_live ?l1" using p by simp
  have l1b: "buffer_inv (logBuffer ?l1)" "buffer_window (logBuffer ?l1) = m" "h_write h (logFile ?l1) m (e_world s) = (r, w)"
    using q(6,7) w(1) by simp_all
  from write_some_spec[OF l1b(1,2) m l1 l1b(3) w(2)] obtain b' where
    ws: "write_some h (?l1, s) = Some ((if r = SysOk (length m) then ?l1\<lparr>logBuffer := b', log_live := log_live ?l1 - 1, currentLog := None\<rparr>
      else ?l1\<lparr>logBuffer := b'\<rparr>, s\<lparr>e_world := w\<rparr>), length m, write_result r)" by blast
  define l2 where "l2 = (if r = SysOk (length m) then ?l1\<lparr>logBuffer := b', log_live := log_live ?l1 - 1, currentLog := None\<rparr> else ?l1\<lparr>logBuffer := b'\<rparr>)"
  have f: "logQueue l2 = Some q" "logFile l2 = logFile lg" "loggerSelector l2 = loggerSelector lg" "after_write m r lg l2"
    "length (queue_list q) + (if currentLog l2 = None then 0 else 1) \<le> log_live l2"
    using live p q(3) by (auto simp: l2_def after_write_def)
  note ws = ws[folded l2_def]
  have can: "buffer_can_read b" using can_read_iff[OF q(6)] q(7) m by simp
  have n: "queue_size (logQueue lg) = Suc (length ms)" using pending_size[OF ok] p by simp
  have q2: "queue_size (logQueue l2) = length ms" using queue_size_list[OF q(2)] q(3) f(1) by (simp add: queue_size_def)
  have pk: "queue_peek (logQueue l2) = Some (case ms of [] \<Rightarrow> None | x # _ \<Rightarrow> Some x)" using queue_peek_spec[OF q(2)] q(3) f(1) by simp
  have stop: "write_loop h (l2, s\<lparr>e_world := w\<rparr>) (length m) (write_result r)
      = Some ((l2, s\<lparr>e_world := w\<rparr>), length ms, length m, write_result r)"
    unfolding write_loop.simps[of h l2] q2 pk Let_def using m by simp
  have "queue_peek (logQueue lg) = Some (Some m)" using pending_peek[OF ok] p by simp
  then have run: "write_loop h (lg, s) 0 0 = Some ((l2, s\<lparr>e_world := w\<rparr>), length ms, length m, write_result r)"
    unfolding write_loop.simps[of h lg] n q(1) using ws can stop by simp
  have e: "(write_result r = int (length m)) = (r = SysOk (length m))" by (cases r) (auto simp: write_result_def)
  have s': "sel_inv (s\<lparr>e_world := w\<rparr>)" "sel_full (s\<lparr>e_world := w\<rparr>)" using s by simp_all
  have u: "unregistered l2 (s\<lparr>e_world := w\<rparr>) = unregistered lg (s\<lparr>e_world := w\<rparr>)" unfolding unregistered_def f(2,3) ..
  obtain k where un: "logger_unregister_selector (l2, s\<lparr>e_world := w\<rparr>) = Some (k, l2, unregistered lg (s\<lparr>e_world := w\<rparr>))"
    using logger_unregister_spec[OF s', of l2] unfolding u by blast
  have "write_logs_deferred h (lg, s) = Some (l2,
      if ms = [] \<and> r = SysOk (length m) then unregistered lg (s\<lparr>e_world := w\<rparr>) else s\<lparr>e_world := w\<rparr>)"
    unfolding write_logs_deferred_def run using e un by simp
  moreover have "log_ok l2" using f(1,5) q(2,4,5) by (intro log_okI[of _ q])
  moreover have "pending l2 = ms" using q(3) f(1) by (simp add: pending_def)
  ultimately show ?thesis using f(4) by blast
qed

section \<open>Everything is written\<close>

definition writes :: "('w, 'x) host_scheme \<Rightarrow> int \<Rightarrow> byte list list \<Rightarrow> 'w \<Rightarrow> 'w" where
  "writes h fd ms w = fold (\<lambda>m w. snd (h_write h fd m w)) ms w"

lemma writes_simps [simp]: "writes h fd [] w = w" "writes h fd (m # ms) w = writes h fd ms (snd (h_write h fd m w))"
  by (simp_all add: writes_def)

lemma flush_loop_spec:
  assumes "log_ok lg"
  shows "\<exists>lg'. flush_loop h (lg, s) = Some (lg', s\<lparr>e_world := writes h (logFile lg) (pending lg) (e_world s)\<rparr>)
    \<and> log_ok lg' \<and> pending lg' = [] \<and> log_live lg' = log_live lg - length (pending lg) \<and> logFile lg' = logFile lg
    \<and> currentLog lg' = currentLog lg"
  using assms
proof (induction "pending lg" arbitrary: lg s)
  case Nil
  then show ?case using pending_size[OF Nil.prems] by (subst flush_loop.simps) simp
next
  case (Cons m ms)
  from pending_dequeue[OF Cons.prems Cons.hyps(2)[symmetric]] obtain q where q: "dequeue (logQueue lg) = Some (Some m, Some q)"
    "queue_inv q" "queue_list q = ms" "q_freeFn q = Some free_log" "q_max_capacity q = MAX_LOG_QUEUE_SIZE" by blast
  let ?l = "lg\<lparr>logQueue := Some q, log_live := log_live lg - 1\<rparr>"
  have live: "Suc (length ms) + (if currentLog lg = None then 0 else 1) \<le> log_live lg"
    using Cons.prems Cons.hyps(2)[symmetric] by (auto elim!: log_okD)
  then have ok: "log_ok ?l" using q(2-5) by (intro log_okI[of _ q]) auto
  have pd: "pending ?l = ms" using q(3) by (simp add: pending_def)
  have n: "queue_size (logQueue lg) = Suc (length ms)" using pending_size[OF Cons.prems] Cons.hyps(2)[symmetric] by simp
  have "flush_loop h (lg, s) = flush_loop h (?l, s\<lparr>e_world := snd (h_write h (logFile lg) m (e_world s))\<rparr>)"
    using n q(1) live by (subst flush_loop.simps) (simp add: free_log_def)
  with Cons.hyps(1)[OF pd[symmetric] ok, of "s\<lparr>e_world := snd (h_write h (logFile lg) m (e_world s))\<rparr>"] pd Cons.hyps(2)[symmetric]
  show ?case by auto
qed

text \<open>The end of the logger: a log file other than the standard output is closed first.\<close>

lemma free_logger_spec:
  assumes ok: "log_ok lg"
  shows "\<exists>lg'. free_logger os h (lg, s) = Some (lg', s\<lparr>e_world :=
      (if 0 \<le> logFile lg \<and> logFile lg \<noteq> STDOUT_FILENO
       then writes h (- 1) (pending lg) (os_close os (logFile lg) (e_world s))
       else writes h (logFile lg) (pending lg) (e_world s))\<rparr>)
    \<and> logQueue lg' = None"
proof -
  have free: "\<exists>x. free_queue (logQueue l) = Some x" if "log_ok l" for l
    using that by (auto elim!: log_okD dest: free_queue_spec)
  obtain q0 where nn: "logQueue lg = Some q0" using ok by (auto elim: log_okD)
  show ?thesis
  proof (cases "0 \<le> logFile lg \<and> logFile lg \<noteq> STDOUT_FILENO")
    case True
    let ?l = "lg\<lparr>logFile := - 1\<rparr>" and ?s = "s\<lparr>e_world := os_close os (logFile lg) (e_world s)\<rparr>"
    have ok': "log_ok ?l" using ok by (auto simp: log_ok_def split: option.splits)
    have pd: "pending ?l = pending lg" by (simp add: pending_def)
    from flush_loop_spec[OF ok', of h ?s] obtain l where l: "flush_loop h (?l, ?s) = Some (l, ?s\<lparr>e_world := writes h (- 1) (pending lg) (e_world ?s)\<rparr>)"
      "log_ok l" unfolding pd by auto
    obtain x where x: "free_queue (logQueue l) = Some x" using free[OF l(2)] by blast
    show ?thesis using True nn x l(1) by (simp add: free_logger_def flush_all_logs_def)
  next
    case False
    from flush_loop_spec[OF ok, of h s] obtain l where l: "flush_loop h (lg, s) = Some (l, s\<lparr>e_world := writes h (logFile lg) (pending lg) (e_world s)\<rparr>)"
      "log_ok l" by auto
    obtain x where x: "free_queue (logQueue l) = Some x" using free[OF l(2)] by blast
    have F: "(0 \<le> logFile lg \<and> logFile lg \<noteq> STDOUT_FILENO) = False" using False by blast
    show ?thesis using nn x l(1) by (simp add: free_logger_def flush_all_logs_def F)
  qed
qed

section \<open>A run of events\<close>

fun log_events :: "('w, 'x) host_scheme \<Rightarrow> nat \<Rightarrow> ('w, 'm) logging \<Rightarrow> ('w, 'm) logging option" where
  "log_events h 0 ls = Some ls"
| "log_events h (Suc n) ls = do { ls \<leftarrow> write_logs_deferred h ls; log_events h n ls }"

definition takes_all :: "('w, 'x) host_scheme \<Rightarrow> bool" where
  "takes_all h \<longleftrightarrow> (\<forall>fd m w. fst (h_write h fd m w) = SysOk (length m))"

lemma unregistered_inv [simp]:
  assumes "sel_inv s"
  shows "sel_inv (unregistered lg s)" "sel_full (unregistered lg s) = sel_full s"
  using assms inv_with_interest by (auto simp: unregistered_def)

lemma unregistered_world [simp]: "e_world (unregistered lg s) = e_world s"
  by (simp add: unregistered_def with_interest_def Let_def)

text \<open>When the file takes whole messages, as many events write as many messages, in their order.\<close>

lemma log_events_spec:
  assumes "log_ok lg" "[] \<notin> set (pending lg)" "sel_inv s" "sel_full s" "takes_all h" "currentLog lg = None"
  shows "\<exists>lg' s'. log_events h n (lg, s) = Some (lg', s') \<and> log_ok lg' \<and> pending lg' = drop n (pending lg)
    \<and> e_world s' = writes h (logFile lg) (take n (pending lg)) (e_world s) \<and> log_live lg' = log_live lg - min n (length (pending lg))
    \<and> currentLog lg' = None"
  using assms
proof (induction n arbitrary: lg s)
  case 0
  then show ?case by simp
next
  case (Suc n)
  note p = Suc.prems
  show ?case
  proof (cases "pending lg")
    case Nil
    have "sel_inv (unregistered lg s)" "sel_full (unregistered lg s)" using p(3,4) by simp_all
    from Suc.IH[OF p(1,2) this p(5,6)] write_nothing[OF p(1) Nil p(3,4), of h] show ?thesis by (simp add: Nil)
  next
    case (Cons m ms)
    obtain w where w: "h_write h (logFile lg) m (e_world s) = (SysOk (length m), w)"
      using p(5) by (metis prod.collapse takes_all_def)
    have m: "m \<noteq> []" using p(2) Cons by auto
    from write_one[OF p(1) Cons m p(3,4) w] obtain l t where l: "write_logs_deferred h (lg, s) = Some (l, t)"
      "log_ok l" "pending l = ms" "after_write m (SysOk (length m)) lg l" "sel_inv t" "sel_full t" "e_world t = w"
      using p(3,4) by fastforce
    have nz: "[] \<notin> set (pending l)" using p(2) Cons l(3) by simp
    have c: "currentLog l = None" "logFile l = logFile lg" "log_live l = log_live lg - 1" using l(4) by (auto simp: after_write_def)
    from Suc.IH[OF l(2) nz l(5,6) p(5) c(1)] show ?thesis using l(1,3,7) c w by (simp add: Cons)
  qed
qed

text \<open>A message that the file takes in part: the next event writes the next message instead of the rest.\<close>

lemma partial_write_spec:
  assumes ok: "log_ok lg" "pending lg = m1 # m2 # ms" "m1 \<noteq> []" "m2 \<noteq> []" and s: "sel_inv s" "sel_full s"
    and w1: "h_write h (logFile lg) m1 (e_world s) = (SysOk k, w1)" "k < length m1"
    and w2: "h_write h (logFile lg) m2 w1 = (SysOk (length m2), w2)"
  shows "\<exists>lg' s'. log_events h 2 (lg, s) = Some (lg', s') \<and> e_world s' = w2 \<and> pending lg' = ms
    \<and> log_live lg' + 1 = log_live lg \<and> currentLog lg' = None"
proof -
  have le: "\<And>j. SysOk k = SysOk j \<Longrightarrow> j \<le> length m1" "SysOk k \<noteq> SysOk (length m1)" using w1(2) by auto
  obtain a where a: "write_logs_deferred h (lg, s) = Some (a, s\<lparr>e_world := w1\<rparr>)" "log_ok a" "pending a = m2 # ms"
      "after_write m1 (SysOk k) lg a"
    using write_one[OF ok(1-3) s w1(1) le(1)] le(2) by auto
  have f: "logFile a = logFile lg" "log_live a = log_live lg" using a(4) le(2) by (auto simp: after_write_def)
  have s': "sel_inv (s\<lparr>e_world := w1\<rparr>)" "sel_full (s\<lparr>e_world := w1\<rparr>)" using s by simp_all
  have w2': "h_write h (logFile a) m2 (e_world (s\<lparr>e_world := w1\<rparr>)) = (SysOk (length m2), w2)" using w2 f by simp
  from write_one[OF a(2,3) ok(4) s' w2'] obtain b t where b: "write_logs_deferred h (a, s\<lparr>e_world := w1\<rparr>) = Some (b, t)"
    "pending b = ms" "after_write m2 (SysOk (length m2)) a b" "e_world t = w2" by fastforce
  have "length (pending lg) \<le> log_live lg" using ok(1) by (auto elim!: log_okD)
  then have "0 < log_live lg" using ok(2) by simp
  then show ?thesis using a(1) b f(2) by (simp add: numeral_2_eq_2 after_write_def)
qed

end
