(* ===== verification/Server.thy ===== *)
theory Server
  imports Pam LoggerLaws Args
begin

text \<open>
  The program of the server, \<open>src/server/server.c\<close>: the selector, the databases, the users of the
  command line, the two listening sockets, the loop and the end. The state is the one of the handlers
  with the logger added. What only this file asks of the system is in the record \<open>platform\<close>; the
  options that \<open>getopt_long\<close> finds and the rounds of the loop (what \<open>pselect\<close> answers, and a signal
  that may arrive) are arguments.
\<close>

section \<open>State\<close>

record 'w proxy = "'w pam_server" +
  px_log :: logger

record 'w platform = "'w host" +
  pt_sigprocmask :: "'w \<Rightarrow> int \<times> 'w"
  pt_sigaction :: "'w \<Rightarrow> int \<times> 'w"
  pt_reuseaddr :: "int \<Rightarrow> 'w \<Rightarrow> 'w"
  pt_bind :: "int \<Rightarrow> sockaddr \<Rightarrow> 32 word \<Rightarrow> 'w \<Rightarrow> unit sys \<times> 'w"
  pt_listen :: "int \<Rightarrow> nat \<Rightarrow> 'w \<Rightarrow> unit sys \<times> 'w"
  pt_errno :: "'w \<Rightarrow> nat"

abbreviation (input) SELECTOR_CAPACITY :: nat where "SELECTOR_CAPACITY \<equiv> 1024"
abbreviation (input) MAX_PENDING_CONNECTIONS :: nat where "MAX_PENDING_CONNECTIONS \<equiv> 20"

definition proxy_static :: "'w \<Rightarrow> 'w proxy" where
  "proxy_static w = \<lparr>fds = [], max_fd = 0, master_r = {}, master_w = {}, slave_r = {}, slave_w = {}, resolution_jobs = [],
     e_users = users_static,
     e_metrics = \<lparr>currentConnections = 0, totalConnections = 0, totalBytesSent = 0, totalBytesReceived = 0\<rparr>,
     e_threads = [], e_calls = [], e_world = w, sv_conns = (\<lambda>_. None), sv_next = 0, pm_conns = (\<lambda>_. None), pm_next = 0,
     px_log = logger_static\<rparr>"

text \<open>A function of the logger on the whole state.\<close>

definition with_log :: "((logger \<times> 'w proxy) \<Rightarrow> (logger \<times> 'w proxy) option) \<Rightarrow> 'w proxy \<Rightarrow> 'w proxy option" where
  "with_log f p = do { (lg, p) \<leftarrow> f (px_log p, p); Some (p\<lparr>px_log := lg\<rparr>) }"

definition log_line :: "'w os \<Rightarrow> ('w, 'x) host_scheme \<Rightarrow> int \<Rightarrow> nat \<Rightarrow> byte list \<Rightarrow> 'w proxy \<Rightarrow> 'w proxy option" where
  "log_line os h level line text = with_log (logger_log_message_deferred os h level (ascii ''server.c'') line text)"

section \<open>The parts of the selector that only this file calls\<close>

definition selector_error :: "selector_status \<Rightarrow> byte list" where
  "selector_error status = (case status of
     SELECTOR_SUCCESS \<Rightarrow> ascii ''Success''
   | SELECTOR_ENOMEM \<Rightarrow> ascii ''Not enough memory''
   | SELECTOR_MAXFD \<Rightarrow> ascii ''Can'' @ 39 # ascii ''t handle any more file descriptors''
   | SELECTOR_IARGS \<Rightarrow> ascii ''Illegal argument''
   | SELECTOR_IO \<Rightarrow> ascii ''I/O error''
   | _ \<Rightarrow> ascii ''something failed'')"

definition selector_init :: "('w, 'x) platform_scheme \<Rightarrow> 'w \<Rightarrow> selector_status \<times> 'w" where
  "selector_init h w =
     (case pt_sigprocmask h w of (r, w) \<Rightarrow>
       if r = - 1 then (SELECTOR_IO, w)
       else (case pt_sigaction h w of (r, w) \<Rightarrow> (if r \<noteq> 0 then SELECTOR_IO else SELECTOR_SUCCESS, w)))"

definition selector_close :: selector_status where
  "selector_close = SELECTOR_SUCCESS"

definition install :: "(handler_ref, attachment) fdselector \<Rightarrow> 'w proxy \<Rightarrow> 'w proxy" where
  "install sel p = p\<lparr>fds := fds sel, max_fd := max_fd sel, master_r := master_r sel, master_w := master_w sel,
     slave_r := slave_r sel, slave_w := slave_w sel, resolution_jobs := resolution_jobs sel\<rparr>"

section \<open>The handlers\<close>

text \<open>\<open>loggerHandlers\<close>, whose key has no data, and the tables of the two servers.\<close>

definition logger_handlers :: "('w, 'x) host_scheme \<Rightarrow> handler_ref \<Rightarrow> (attachment, 'w proxy) fd_handler" where
  "logger_handlers h r = (case r of
     LOGGER_HANDLER \<Rightarrow> no_handler\<lparr>handle_write := Some (\<lambda>key p. do { p \<leftarrow> with_log (write_logs_deferred h) p; Some (key, p) })\<rparr>
   | _ \<Rightarrow> no_handler)"

definition server_handlers :: "'w os \<Rightarrow> ('w, 'x) host_scheme \<Rightarrow> handler_ref \<Rightarrow> (attachment, 'w proxy) fd_handler" where
  "server_handlers os h = pam_handlers os (socks5_handlers os (pam_closing (logger_handlers h)))"

section \<open>Addresses\<close>

text \<open>The length is negative on an error; the address has its family and port all the same.\<close>

definition interpret_socket_args ::
  "'w os \<Rightarrow> ('w, 'x) host_scheme \<Rightarrow> byte list \<Rightarrow> u16 \<Rightarrow> 'w proxy \<Rightarrow> (int \<times> sockaddr \<times> 'w proxy) option" where
  "interpret_socket_args os h addr port p = (
     let ipv6 = c_strchr 58 addr \<noteq> None in
     if ipv6 then
       (case os_pton os AF_INET6 addr of
          PtonOk a \<Rightarrow> Some (28, Sin6 (htons port) a, p)
        | _ \<Rightarrow> do {
            p \<leftarrow> log_line os h LOGGER_FATAL 248 (ascii ''Invalid IPv6 address: '' @ addr) p;
            Some (- 1, Sin6 (htons port) (replicate 16 0), p)
          })
     else
       (case os_pton os AF_INET addr of
          PtonOk a \<Rightarrow> Some (16, Sin (htons port) a, p)
        | _ \<Rightarrow> do {
            p \<leftarrow> log_line os h LOGGER_FATAL 260 (ascii ''Invalid IPv4 address: '' @ addr) p;
            Some (- 1, Sin (htons port) (replicate 4 0), p)
          }))"

section \<open>Setting up\<close>

text \<open>The variables of \<open>main\<close>. A failure jumps to \<open>finally\<close> with a message and a status.\<close>

record 'w boot =
  bt_proxy :: "'w proxy"
  bt_selector :: bool
  bt_server :: int
  bt_pamServer :: int

type_synonym 'w failure = "byte list \<times> selector_status \<times> 'w boot"
type_synonym 'w stage = "('w failure + 'w boot) option"

definition fail :: "byte list \<Rightarrow> 'w boot \<Rightarrow> 'w stage" where
  "fail msg b = Some (Inl (msg, SELECTOR_SUCCESS, b))"

definition next_stage :: "'w stage \<Rightarrow> ('w boot \<Rightarrow> 'w stage) \<Rightarrow> 'w stage" where
  "next_stage r f = do { x \<leftarrow> r; (case x of Inl e \<Rightarrow> Some (Inl e) | Inr b \<Rightarrow> f b) }"

definition at_world :: "'w \<Rightarrow> 'w boot \<Rightarrow> 'w boot" where
  "at_world w b = b\<lparr>bt_proxy := (bt_proxy b)\<lparr>e_world := w\<rparr>\<rparr>"

definition make_selector :: "'w os \<Rightarrow> ('w, 'x) platform_scheme \<Rightarrow> 'w boot \<Rightarrow> 'w stage" where
  "make_selector os h b = (
     case selector_init h (e_world (bt_proxy b)) of (st, w) \<Rightarrow>
       if st \<noteq> SELECTOR_SUCCESS then fail (ascii ''initializing selector'') (at_world w b)
       else (case os_malloc os w of (m1, w) \<Rightarrow>
         (case (if m1 then os_malloc os w else (True, w)) of (m2, w) \<Rightarrow> do {
           s \<leftarrow> selector_new m1 m2 SELECTOR_CAPACITY;
           (case s of
              None \<Rightarrow> fail (ascii ''unable to create selector'') (at_world w b)
            | Some sel \<Rightarrow> Some (Inr ((at_world w b)\<lparr>bt_proxy := install sel ((bt_proxy b)\<lparr>e_world := w\<rparr>), bt_selector := True\<rparr>)))
         })))"

text \<open>The three modules with a state; \<open>list_create\<close> and \<open>list_add\<close> of \<open>users_init\<close> allocate.\<close>

definition init_modules :: "'w os \<Rightarrow> ('w, 'x) platform_scheme \<Rightarrow> byte list option \<Rightarrow> 'w boot \<Rightarrow> 'w stage" where
  "init_modules os h LOG_FILE_NAME b = do {
     let p = bt_proxy b;
     let p = p\<lparr>e_metrics := metrics_init (e_metrics p)\<rparr>;
     let (m, w) = os_malloc os (e_world p);
     let (m1, w) = os_malloc os w;
     let (m2, w) = os_malloc os w;
     db \<leftarrow> users_init m m1 m2 (e_users p);
     let p = p\<lparr>e_users := db, e_world := w\<rparr>;
     p \<leftarrow> with_log (logger_init os h LOG_FILE_NAME) p;
     (r, lg, p) \<leftarrow> logger_register_selector os (px_log p, p);
     let b = b\<lparr>bt_proxy := p\<lparr>px_log := lg\<rparr>\<rparr>;
     (if r < 0 then fail (ascii ''initializing logger'') b else Some (Inr b))
   }"

fun create_users :: "'w os \<Rightarrow> (byte list \<times> byte list) list \<Rightarrow> 'w boot \<Rightarrow> 'w stage" where
  "create_users os [] b = Some (Inr b)"
| "create_users os ((name, pass) # us) b = do {
     let p = bt_proxy b;
     let (m1, w) = os_malloc os (e_world p);
     let (m2, w) = os_malloc os w;
     (st, db) \<leftarrow> user_create m1 m2 (local_user os w) (e_users p) (name @ [0]) (pass @ [0]) USER_PRIVILEGE_DEFAULT;
     let b = b\<lparr>bt_proxy := p\<lparr>e_users := db, e_world := w\<rparr>\<rparr>;
     (if st \<noteq> USER_OK then fail (ascii ''creating users'') b else create_users os us b)
   }"

text \<open>
  The part that both sockets have in the same words: which variable holds the descriptor, and the
  text before \<open>socket\<close>, are arguments. \<open>addrlen\<close> is unsigned, so the first test never fails.
\<close>

record listener =
  ls_bad :: "byte list"
  ls_socket :: "byte list"
  ls_bind :: "byte list"
  ls_listen :: "byte list"
  ls_flags :: "byte list"
  ls_starting :: "nat \<times> byte list"
  ls_ready :: "nat \<times> byte list"

definition socks_listener :: listener where
  "socks_listener = \<lparr>ls_bad = ascii ''interpreting socket arguments'', ls_socket = ascii ''unable to create socket'',
     ls_bind = ascii ''unable to bind socket'', ls_listen = ascii ''unable to listen'',
     ls_flags = ascii ''getting server socket flags'', ls_starting = (94, ascii ''Starting server...''),
     ls_ready = (118, ascii ''Proxy server listening on addr '')\<rparr>"

definition pam_listener :: listener where
  "pam_listener = \<lparr>ls_bad = ascii ''interpreting pam socket arguments'', ls_socket = ascii ''unable to create pam socket'',
     ls_bind = ascii ''unable to bind pam socket'', ls_listen = ascii ''unable to listen on pam server'',
     ls_flags = ascii ''getting pam server socket flags'', ls_starting = (127, ascii ''Starting pam server...''),
     ls_ready = (151, ascii ''Pam server listening on addr '')\<rparr>"

definition log_stage :: "'w os \<Rightarrow> ('w, 'x) host_scheme \<Rightarrow> int \<Rightarrow> nat \<times> byte list \<Rightarrow> 'w boot \<Rightarrow> 'w boot option" where
  "log_stage os h level m b = do {
     p \<leftarrow> log_line os h level (fst m) (snd m) (bt_proxy b);
     Some (b\<lparr>bt_proxy := p\<rparr>)
   }"

definition open_listener ::
  "'w os \<Rightarrow> ('w, 'x) platform_scheme \<Rightarrow> listener \<Rightarrow> (int \<Rightarrow> 'w boot \<Rightarrow> 'w boot) \<Rightarrow> byte list \<Rightarrow> u16 \<Rightarrow> 'w boot \<Rightarrow> 'w stage" where
  "open_listener os h ls set_fd addr_arg port b = do {
     (len, addr, p) \<leftarrow> interpret_socket_args os h addr_arg port (bt_proxy b);
     let b = b\<lparr>bt_proxy := p\<rparr>;
     let addrlen = (word_of_int len :: 32 word);
     (if addrlen < 0 then fail (ls_bad ls) b
      else do {
        b \<leftarrow> log_stage os h LOGGER_DEBUG (ls_starting ls) b;
        (case os_socket os (ss_family addr) SOCK_STREAM IPPROTO_TCP (e_world (bt_proxy b)) of
           (SysErr e, w) \<Rightarrow> fail (ls_socket ls) (set_fd (- 1) (at_world w b))
         | (SysOk fd, w) \<Rightarrow>
             (let b = set_fd fd b; w = pt_reuseaddr h fd w in
              case pt_bind h fd addr addrlen w of
                (SysErr e, w) \<Rightarrow> fail (ls_bind ls) (at_world w b)
              | (SysOk _, w) \<Rightarrow>
                 (case pt_listen h fd MAX_PENDING_CONNECTIONS w of
                    (SysErr e, w) \<Rightarrow> fail (ls_listen ls) (at_world w b)
                  | (SysOk _, w) \<Rightarrow>
                     (case selector_fd_set_nio os fd w of (r, w) \<Rightarrow>
                       if r = - 1 then fail (ls_flags ls) (at_world w b)
                       else do {
                         b \<leftarrow> log_stage os h LOGGER_INFO (fst (ls_ready ls),
                           snd (ls_ready ls) @ addr_arg @ ascii '':'' @ dec_digits (unat port) @ ascii '' (TCP)'') (at_world w b);
                         Some (Inr b)
                       }))))
      })
   }"

definition register_listener :: "'w os \<Rightarrow> int \<Rightarrow> handler_ref \<Rightarrow> byte list \<Rightarrow> 'w boot \<Rightarrow> 'w stage" where
  "register_listener os fd h msg b = do {
     (ss, p) \<leftarrow> selector_register (fst (os_malloc os (e_world (bt_proxy b)))) fd (Some h) OP_READ None (bt_proxy b);
     let b = b\<lparr>bt_proxy := p\<rparr>;
     Some (if ss \<noteq> SELECTOR_SUCCESS then Inl (msg, ss, b) else Inr b)
   }"

definition set_up :: "'w os \<Rightarrow> ('w, 'x) platform_scheme \<Rightarrow> socks5args \<Rightarrow> 'w boot \<Rightarrow> 'w stage" where
  "set_up os h args b =
     next_stage (create_users os (arg_users args) b) (\<lambda>b.
     next_stage (open_listener os h socks_listener (\<lambda>fd b. b\<lparr>bt_server := fd\<rparr>) (socks_addr args) (socks_port args) b) (\<lambda>b.
     next_stage (open_listener os h pam_listener (\<lambda>fd b. b\<lparr>bt_pamServer := fd\<rparr>) (mng_addr args) (mng_port args) b) (\<lambda>b.
     next_stage (register_listener os (bt_server b) SOCKSV5_PASSIVE (ascii ''registering socks fd'') b) (\<lambda>b.
       register_listener os (bt_pamServer b) PAM_PASSIVE (ascii ''registering pam fd'') b))))"

section \<open>Serving\<close>

text \<open>The text of the message, with the snapshot of the metrics.\<close>

definition signal_message :: "nat \<Rightarrow> metricSnapshot \<Rightarrow> byte list" where
  "signal_message sig snapshot = ascii ''Signal '' @ dec_digits sig @ ascii '', cleaning up and exiting.'' @ [10]
     @ ascii ''Metrics:'' @ [10, 9] @ ascii ''Bytes transferred'' @ [10, 9]
     @ ascii ''Sent: '' @ dec_digits (unat (totalBytesSent snapshot)) @ [10, 9]
     @ ascii ''Received: '' @ dec_digits (unat (totalBytesReceived snapshot)) @ [10, 9]
     @ ascii ''Total connections: '' @ dec_digits (unat (totalConnections snapshot))"

definition signal_handler :: "'w os \<Rightarrow> ('w, 'x) platform_scheme \<Rightarrow> nat \<Rightarrow> 'w proxy \<Rightarrow> 'w proxy option" where
  "signal_handler os h sig p = do {
     let snapshot = get_metrics_snapshot (e_metrics p);
     p \<leftarrow> log_line os h LOGGER_FATAL 232 (signal_message sig snapshot) p;
     p \<leftarrow> with_log (flush_all_logs h) p;
     with_log (free_logger os h) p
   }"

text \<open>
  The loop over its rounds: in each, what \<open>pselect\<close> answers, and the signal that arrives meanwhile.
  \<open>Inr\<close>: the rounds are over and the server is still serving. \<open>Inl\<close>: the loop has ended.
\<close>

fun serve :: "'w os \<Rightarrow> ('w, 'x) platform_scheme \<Rightarrow> (nat option \<times> pselect_result) list \<Rightarrow> 'w boot
    \<Rightarrow> ((byte list option \<times> selector_status \<times> 'w boot) + 'w boot) option" where
  "serve os h [] b = Some (Inr b)"
| "serve os h ((sig, ps) # rounds) b = do {
     p \<leftarrow> (case sig of None \<Rightarrow> Some (bt_proxy b) | Some n \<Rightarrow> signal_handler os h n (bt_proxy b));
     (ss, p) \<leftarrow> selector_select (server_handlers os h) ps p;
     let b = b\<lparr>bt_proxy := p\<rparr>;
     (if ss \<noteq> SELECTOR_SUCCESS then Some (Inl (Some (ascii ''serving''), ss, b))
      else if sig \<noteq> None then Some (Inl (None, SELECTOR_SUCCESS, b))
      else serve os h rounds b)
   }"

section \<open>The end\<close>

definition finally_log ::
  "'w os \<Rightarrow> ('w, 'x) platform_scheme \<Rightarrow> byte list option \<Rightarrow> selector_status \<Rightarrow> 'w proxy \<Rightarrow> (int \<times> 'w proxy) option" where
  "finally_log os h errorMsg ss p =
     (if ss \<noteq> SELECTOR_SUCCESS then do {
        p \<leftarrow> log_line os h LOGGER_FATAL 202 ((case errorMsg of None \<Rightarrow> [] | Some m \<Rightarrow> m) @ ascii '': ''
          @ (if ss = SELECTOR_IO then h_strerror h (pt_errno h (e_world p)) else selector_error ss)) p;
        Some (2, p)
      }
      else (case errorMsg of
        Some m \<Rightarrow> do { p \<leftarrow> log_line os h LOGGER_FATAL 205 m p; Some (1, p) }
      | None \<Rightarrow> Some (0, p)))"

definition main_finally ::
  "'w os \<Rightarrow> ('w, 'x) platform_scheme \<Rightarrow> byte list option \<Rightarrow> selector_status \<Rightarrow> 'w boot \<Rightarrow> (int \<times> 'w) option" where
  "main_finally os h errorMsg ss b = do {
     (ret, p) \<leftarrow> finally_log os h errorMsg ss (bt_proxy b);
     _ \<leftarrow> users_free (e_users p);
     p \<leftarrow> with_log (free_logger os h) p;
     p \<leftarrow> (if bt_selector b then selector_destroy (server_handlers os h) p else Some p);
     let w = e_world p;
     let w = (if 0 \<le> bt_server b then os_close os (bt_server b) w else w);
     let w = (if 0 \<le> bt_pamServer b then os_close os (bt_pamServer b) w else w);
     Some (ret, w)
   }"

datatype 'w outcome = Exited int 'w | Serving "'w boot"

definition ended ::
  "'w os \<Rightarrow> ('w, 'x) platform_scheme \<Rightarrow> byte list option \<Rightarrow> selector_status \<Rightarrow> 'w boot \<Rightarrow> 'w outcome option" where
  "ended os h errorMsg ss b = do { (ret, w) \<leftarrow> main_finally os h errorMsg ss b; Some (Exited ret w) }"

text \<open>
  \<open>main\<close>: \<open>close (STDIN_FILENO)\<close> first; \<open>parse_args\<close>, which may leave the program, after the logger is
  registered. \<open>signal\<close> only installs the handler.
\<close>

definition server_main ::
  "'w os \<Rightarrow> ('w, 'x) platform_scheme \<Rightarrow> byte list option \<Rightarrow> (byte \<times> byte list) list \<Rightarrow> nat
   \<Rightarrow> (nat option \<times> pselect_result) list \<Rightarrow> 'w \<Rightarrow> 'w outcome option" where
  "server_main os h LOG_FILE_NAME opts left_over rounds w = do {
     let w = os_close os 0 w;
     let b = \<lparr>bt_proxy = proxy_static w, bt_selector = False, bt_server = - 1, bt_pamServer = - 1\<rparr>;
     r \<leftarrow> next_stage (make_selector os h b) (init_modules os h LOG_FILE_NAME);
     (case r of
        Inl (msg, ss, b) \<Rightarrow> ended os h (Some msg) ss b
      | Inr b \<Rightarrow>
         (case parse_args opts left_over of
            Inl code \<Rightarrow> Some (Exited code (e_world (bt_proxy b)))
          | Inr args \<Rightarrow> do {
              r \<leftarrow> set_up os h args b;
              (case r of
                 Inl (msg, ss, b) \<Rightarrow> ended os h (Some msg) ss b
               | Inr b \<Rightarrow> do {
                   r \<leftarrow> serve os h rounds b;
                   (case r of
                      Inl (msg, ss, b) \<Rightarrow> ended os h msg ss b
                    | Inr b \<Rightarrow> Some (Serving b))
                 })
            }))
   }"

end
