(* ===== verification/ServerLaws.thy ===== *)
theory ServerLaws
  imports Server
begin

text \<open>
  The server's program on its main paths: from the start to the loop, the loop with a signal, and the
  end. What it needs of the system while it starts is \<open>boots\<close>.
\<close>

section \<open>Messages\<close>

text \<open>A clock whose fields have at most the digits that the format gives them.\<close>

definition clock_ok :: "('w, 'x) host_scheme \<Rightarrow> bool" where
  "clock_ok h \<longleftrightarrow> (\<forall>w. let t = h_localtime h w in tm_year t < 8000 \<and> tm_mon t < 12 \<and> tm_mday t < 32
     \<and> tm_hour t < 24 \<and> tm_min t < 60 \<and> tm_sec t < 62)"

lemma padded_length: "n < 10 ^ k \<Longrightarrow> 0 < k \<Longrightarrow> length (padded k n) = k"
  using dec_digits_length[of n k] by (simp add: padded_def)

lemma level_length: "length (log_level_to_string nc fd level) \<le> 20"
  by (simp add: log_level_to_string_def)

lemma prefix_short:
  assumes "clock_ok h" "line < 1000" "length file \<le> 100" "length ls \<le> 20"
  shows "length (log_prefix ls level n (h_localtime h w) file line) \<le> 200"
proof -
  let ?t = "h_localtime h w"
  have t: "tm_year ?t < 8000" "tm_mon ?t < 12" "tm_mday ?t < 32" "tm_hour ?t < 24" "tm_min ?t < 60" "tm_sec ?t < 62"
    using assms(1) by (simp_all add: clock_ok_def Let_def)
  have p: "length (padded 4 (tm_year ?t + 1900)) = 4" "length (padded 2 (tm_mon ?t + 1)) = 2" "length (padded 2 (tm_mday ?t)) = 2"
      "length (padded 2 (tm_hour ?t)) = 2" "length (padded 2 (tm_min ?t)) = 2" "length (padded 2 (tm_sec ?t)) = 2"
      "length (padded 6 (n mod 1000000)) = 6"
    by (rule padded_length; use t in simp)+
  have l: "length (dec_digits line) \<le> 3" by (rule dec_digits_length) (use assms(2) in simp_all)
  show ?thesis using assms(3,4) p l by (simp add: log_prefix_def Let_def)
qed

lemma log_text_some: "length prefix \<le> 200 \<Longrightarrow> \<exists>m. log_text prefix body = Some m"
  using log_text_fits[of prefix body] log_text_cut[of prefix body]
  by (cases "length prefix + length body < MAX_LOG_SIZE - 2") auto

text \<open>The logger has only gone on: its file and level are the same, and few messages were added.\<close>

definition log_more :: "nat \<Rightarrow> logger \<Rightarrow> logger \<Rightarrow> bool" where
  "log_more k lg lg' \<longleftrightarrow> log_ok lg' \<and> logFile lg' = logFile lg \<and> loggerSelector lg' = loggerSelector lg
     \<and> minLogLevel lg' = minLogLevel lg \<and> logAlwaysIncrementalId lg' \<le> logAlwaysIncrementalId lg + k \<and> currentLog lg' = currentLog lg"

lemma log_more_trans: "log_more j a b \<Longrightarrow> log_more k b c \<Longrightarrow> log_more (j + k) a c"
  by (auto simp: log_more_def)

lemma log_more_refl: "log_ok a \<Longrightarrow> log_more 0 a a"
  by (simp add: log_more_def)

lemma log_more_mono: "log_more j a b \<Longrightarrow> j \<le> k \<Longrightarrow> log_more k a b"
  by (auto simp: log_more_def)

text \<open>A message of the log: the text after the time, the level and the place in the source.\<close>

definition a_log_line :: "byte list \<Rightarrow> byte list \<Rightarrow> bool" where
  "a_log_line msg m \<longleftrightarrow> (\<exists>prefix. length prefix \<le> 200 \<and> log_text prefix msg = Some m)"

lemma log_message_spec:
  assumes ok: "log_ok lg" and few: "logAlwaysIncrementalId lg < 30" and mem: "mem_ok os" and clk: "clock_ok h"
    and sz: "line < 1000" "length file \<le> 100" and kp: "\<And>w. opens (snd (os_malloc os w)) = opens w"
  shows "\<exists>lg' w. logger_log_message_deferred os h level file line msg (lg, s) = Some (lg', s\<lparr>e_world := w\<rparr>)
    \<and> log_more 1 lg lg' \<and> opens w = opens (e_world s)
    \<and> (\<exists>m. a_log_line msg m
      \<and> pending lg' = (if minLogLevel lg \<le> level then keep_last MAX_LOG_QUEUE_SIZE (pending lg @ [m]) else pending lg))"
proof (cases "minLogLevel lg \<le> level")
  case False
  obtain m where "log_text [] msg = Some m" using log_text_some[of "[]" msg] by auto
  then have "a_log_line msg m" unfolding a_log_line_def by (intro exI[of _ "[]"]) simp
  then show ?thesis using False ok by (intro exI[of _ lg] exI[of _ "e_world s"] conjI exI[of _ m]) (simp_all add: log_quiet log_more_def)
next
  case True
  obtain w1 where w1: "os_malloc os (e_world s) = (True, w1)" using mem by (metis mem_ok_def prod.collapse)
  obtain w2 where w2: "os_malloc os w1 = (True, w2)" using mem by (metis mem_ok_def prod.collapse)
  obtain w3 where w3: "os_malloc os w2 = (True, w3)" using mem by (metis mem_ok_def prod.collapse)
  obtain m where m: "log_text (log_prefix (log_level_to_string (NO_COLOR_LOGS h) (logFile lg) level) level
      (logAlwaysIncrementalId lg) (h_localtime h w1) file line) msg = Some m"
    using log_text_some[OF prefix_short[OF clk sz level_length]] by blast
  then have line: "a_log_line msg m" unfolding a_log_line_def using prefix_short[OF clk sz level_length] by blast
  have "(logAlwaysIncrementalId lg + 1) mod 33 \<noteq> 0" using few by simp
  then have q: "\<not> loggerSelector lg \<or> (logAlwaysIncrementalId lg + 1) mod 33 \<noteq> 0" by blast
  have "opens w3 = opens (e_world s)" using kp[of "e_world s"] kp[of w1] kp[of w2] w1 w2 w3 by simp
  with log_put[OF ok True w1 w2 w3 m q] obtain lg' where
    "logger_log_message_deferred os h level file line msg (lg, s) = Some (lg', s\<lparr>e_world := w3\<rparr>)" "log_more 1 lg lg'"
    "pending lg' = keep_last MAX_LOG_QUEUE_SIZE (pending lg @ [m])" "opens w3 = opens (e_world s)"
    by (auto simp: log_more_def)
  then show ?thesis using True line by (intro exI[of _ lg'] exI[of _ w3]) auto
qed

section \<open>A system on which the server starts\<close>

text \<open>
  \<open>opens w\<close> is the set of open descriptors: while there are few, a new socket is none of them, and
  small enough for \<open>select\<close>.
\<close>

definition few :: "int set \<Rightarrow> nat \<Rightarrow> bool" where
  "few D n \<longleftrightarrow> finite D \<and> card D + n \<le> 16"

lemma few_insert: "few D (Suc n) \<Longrightarrow> few (insert fd D) n"
  by (cases "fd \<in> D") (auto simp: few_def insert_absorb)

lemma few_less: "few D (Suc n) \<Longrightarrow> few D n"
  by (simp add: few_def)

definition boots :: "'w os \<Rightarrow> ('w, 'x) platform_scheme \<Rightarrow> ('w \<Rightarrow> int set) \<Rightarrow> bool" where
  "boots os h opens \<longleftrightarrow> mem_ok os \<and> os_ok os \<and> clock_ok h
     \<and> (\<forall>w. opens (snd (os_malloc os w)) = opens w)
     \<and> (\<forall>w. fst (pt_sigprocmask h w) = 0 \<and> opens (snd (pt_sigprocmask h w)) = opens w)
     \<and> (\<forall>w. fst (pt_sigaction h w) = 0 \<and> opens (snd (pt_sigaction h w)) = opens w)
     \<and> (\<forall>fd w. fst (selector_fd_set_nio os fd w) = 0 \<and> opens (snd (selector_fd_set_nio os fd w)) = opens w)
     \<and> (\<forall>f w. few (opens w) 1 \<longrightarrow> (\<exists>fd w'. os_socket os f SOCK_STREAM IPPROTO_TCP w = (SysOk fd, w') \<and> 0 \<le> fd \<and> fd < 1024 \<and> fd \<notin> opens w
          \<and> opens w' = insert fd (opens w)))
     \<and> (\<forall>fd w. opens (pt_reuseaddr h fd w) = opens w)
     \<and> (\<forall>fd a n w. n \<in> {16, 28} \<longrightarrow> fst (pt_bind h fd a n w) = SysOk () \<and> opens (snd (pt_bind h fd a n w)) = opens w)
     \<and> (\<forall>fd n w. fst (pt_listen h fd n w) = SysOk () \<and> opens (snd (pt_listen h fd n w)) = opens w)"

lemma ex_pair: "fst x = a \<Longrightarrow> P (snd x) \<Longrightarrow> \<exists>w. x = (a, w) \<and> P w"
  by (cases x) auto

lemma bootsD:
  assumes "boots os h opens"
  shows "mem_ok os" "os_ok os" "clock_ok h" "\<And>w. opens (snd (os_malloc os w)) = opens w"
    "\<And>w. \<exists>w'. os_malloc os w = (True, w') \<and> opens w' = opens w"
    "\<And>w. \<exists>w'. pt_sigprocmask h w = (0, w') \<and> opens w' = opens w" "\<And>w. \<exists>w'. pt_sigaction h w = (0, w') \<and> opens w' = opens w"
    "\<And>fd w. \<exists>w'. selector_fd_set_nio os fd w = (0, w') \<and> opens w' = opens w"
    "\<And>f w. few (opens w) 1 \<Longrightarrow> \<exists>fd w'. os_socket os f SOCK_STREAM IPPROTO_TCP w = (SysOk fd, w') \<and> 0 \<le> fd \<and> fd < 1024 \<and> fd \<notin> opens w
       \<and> opens w' = insert fd (opens w)"
    "\<And>fd w. opens (pt_reuseaddr h fd w) = opens w"
    "\<And>fd a n w. n = 16 \<or> n = 28 \<Longrightarrow> \<exists>w'. pt_bind h fd a n w = (SysOk (), w') \<and> opens w' = opens w"
    "\<And>fd n w. \<exists>w'. pt_listen h fd n w = (SysOk (), w') \<and> opens w' = opens w"
proof -
  have u: "mem_ok os" "os_ok os" "clock_ok h" "\<forall>w. opens (snd (os_malloc os w)) = opens w"
    "\<forall>w. fst (pt_sigprocmask h w) = 0 \<and> opens (snd (pt_sigprocmask h w)) = opens w"
    "\<forall>w. fst (pt_sigaction h w) = 0 \<and> opens (snd (pt_sigaction h w)) = opens w"
    "\<forall>fd w. fst (selector_fd_set_nio os fd w) = 0 \<and> opens (snd (selector_fd_set_nio os fd w)) = opens w"
    "\<forall>fd a n w. n \<in> {16, 28} \<longrightarrow> fst (pt_bind h fd a n w) = SysOk () \<and> opens (snd (pt_bind h fd a n w)) = opens w"
    "\<forall>fd n w. fst (pt_listen h fd n w) = SysOk () \<and> opens (snd (pt_listen h fd n w)) = opens w"
    "\<forall>f w. few (opens w) 1 \<longrightarrow> (\<exists>fd w'. os_socket os f SOCK_STREAM IPPROTO_TCP w = (SysOk fd, w') \<and> 0 \<le> fd \<and> fd < 1024 \<and> fd \<notin> opens w
       \<and> opens w' = insert fd (opens w))"
    "\<forall>fd w. opens (pt_reuseaddr h fd w) = opens w"
    by (insert assms[unfolded boots_def]) (elim conjE, assumption)+
  show "mem_ok os" "os_ok os" "clock_ok h" "\<And>w. opens (snd (os_malloc os w)) = opens w" using u by blast+
  show "\<exists>w'. os_malloc os w = (True, w') \<and> opens w' = opens w" for w
    by (rule ex_pair) (use u(1,4) in \<open>simp_all add: mem_ok_def\<close>)
  show "\<exists>w'. pt_sigprocmask h w = (0, w') \<and> opens w' = opens w" for w by (rule ex_pair) (use u(5) in simp_all)
  show "\<exists>w'. pt_sigaction h w = (0, w') \<and> opens w' = opens w" for w by (rule ex_pair) (use u(6) in simp_all)
  show "\<exists>w'. selector_fd_set_nio os fd w = (0, w') \<and> opens w' = opens w" for fd w by (rule ex_pair) (use u(7) in simp_all)
  show "\<exists>fd w'. os_socket os f SOCK_STREAM IPPROTO_TCP w = (SysOk fd, w') \<and> 0 \<le> fd \<and> fd < 1024 \<and> fd \<notin> opens w
       \<and> opens w' = insert fd (opens w)" if "few (opens w) 1" for f w
    using u(10) that by blast
  show "opens (pt_reuseaddr h fd w) = opens w" for fd w using u(11) by blast
  show "\<exists>w'. pt_bind h fd a n w = (SysOk (), w') \<and> opens w' = opens w" if "n = 16 \<or> n = 28" for fd a n w
    by (rule ex_pair) (use u(8) that in auto)
  show "\<exists>w'. pt_listen h fd n w = (SysOk (), w') \<and> opens w' = opens w" for fd n w by (rule ex_pair) (use u(9) in simp_all)
qed

lemma log_line_spec:
  assumes b: "boots os h opens" and ok: "log_ok (px_log p)" "logAlwaysIncrementalId (px_log p) < 30" and l: "line < 1000"
  shows "\<exists>w lg. log_line os h level line msg p = Some (p\<lparr>e_world := w, px_log := lg\<rparr>) \<and> log_more 1 (px_log p) lg
    \<and> opens w = opens (e_world p)
    \<and> (\<exists>m. a_log_line msg m
      \<and> pending lg = (if minLogLevel (px_log p) \<le> level then keep_last MAX_LOG_QUEUE_SIZE (pending (px_log p) @ [m]) else pending (px_log p)))"
proof -
  have f: "length (ascii ''server.c'') \<le> 100" by simp
  note D = bootsD[OF b]
  from log_message_spec[where opens = opens and level = level and msg = msg and s = p, OF ok D(1,3) l f D(4)]
  obtain lg w where "logger_log_message_deferred os h level (ascii ''server.c'') line msg (px_log p, p) = Some (lg, p\<lparr>e_world := w\<rparr>)"
    "log_more 1 (px_log p) lg" "opens w = opens (e_world p)"
    "\<exists>m. a_log_line msg m
      \<and> pending lg = (if minLogLevel (px_log p) \<le> level then keep_last MAX_LOG_QUEUE_SIZE (pending (px_log p) @ [m]) else pending (px_log p))"
    by blast
  then show ?thesis by (intro exI[of _ w] exI[of _ lg]) (simp add: log_line_def with_log_def)
qed

section \<open>The state while starting\<close>

definition booted :: "(int \<Rightarrow> (handler_ref, attachment) item option) \<Rightarrow> (byte list \<Rightarrow> (byte list \<times> nat) option) \<Rightarrow> nat \<Rightarrow> 'w boot \<Rightarrow> bool" where
  "booted entries users n b \<longleftrightarrow> sel_inv (bt_proxy b) \<and> sel_full (bt_proxy b) \<and> resolution_jobs (bt_proxy b) = []
     \<and> sel_entry (bt_proxy b) = entries \<and> users_ok (e_users (bt_proxy b)) \<and> users_map (e_users (bt_proxy b)) = users
     \<and> log_ok (px_log (bt_proxy b)) \<and> logAlwaysIncrementalId (px_log (bt_proxy b)) \<le> n \<and> logFile (px_log (bt_proxy b)) = STDOUT_FILENO
     \<and> loggerSelector (px_log (bt_proxy b)) \<and> minLogLevel (px_log (bt_proxy b)) = LOGGER_MIN_LEVEL \<and> bt_selector b
     \<and> sv_conns (bt_proxy b) = (\<lambda>_. None) \<and> pm_conns (bt_proxy b) = (\<lambda>_. None) \<and> cleared (bt_proxy b)"

lemma proxy_ext [simp]:
  "sel_inv (p\<lparr>px_log := lg\<rparr>) = sel_inv p" "sel_full (p\<lparr>px_log := lg\<rparr>) = sel_full p" "sel_entry (p\<lparr>px_log := lg\<rparr>) = sel_entry p"
  "sel_inv (p\<lparr>e_users := db\<rparr>) = sel_inv p" "sel_full (p\<lparr>e_users := db\<rparr>) = sel_full p" "sel_entry (p\<lparr>e_users := db\<rparr>) = sel_entry p"
  "sel_inv (p\<lparr>e_metrics := mt\<rparr>) = sel_inv p" "sel_full (p\<lparr>e_metrics := mt\<rparr>) = sel_full p" "sel_entry (p\<lparr>e_metrics := mt\<rparr>) = sel_entry p"
  "cleared (p\<lparr>px_log := lg\<rparr>) = cleared p"
  by (simp_all add: fun_eq_iff sel_inv_def sel_full_def items_ok_def max_ok_def wants_def sel_entry_def cleared_def)

lemma boot_world [simp]: "booted en us n (b\<lparr>bt_proxy := (bt_proxy b)\<lparr>e_world := w\<rparr>\<rparr>) = booted en us n b"
  "booted en us n (b\<lparr>bt_server := fd\<rparr>) = booted en us n b" "booted en us n (b\<lparr>bt_pamServer := fd\<rparr>) = booted en us n b"
  by (simp_all add: booted_def)

lemma booted_mono: "booted en us n b \<Longrightarrow> n \<le> m \<Longrightarrow> booted en us m b"
  by (auto simp: booted_def)

lemma booted_log:
  assumes "booted en us n b" "log_more k (px_log (bt_proxy b)) lg"
  shows "booted en us (n + k) (b\<lparr>bt_proxy := (bt_proxy b)\<lparr>e_world := w, px_log := lg\<rparr>\<rparr>)"
  using assms by (simp add: booted_def log_more_def)

lemma make_selector_spec:
  assumes "boots os h opens"
  shows "\<exists>sel w. make_selector os h b = Some (Inr (b\<lparr>bt_proxy := install sel ((bt_proxy b)\<lparr>e_world := w\<rparr>), bt_selector := True\<rparr>))
    \<and> sel_inv sel \<and> sel_full sel \<and> sel_entry sel = (\<lambda>_. None) \<and> resolution_jobs sel = [] \<and> opens w = opens (e_world (bt_proxy b)) \<and> cleared sel"
proof -
  note D = bootsD[OF assms]
  obtain w1 where w1: "pt_sigprocmask h (e_world (bt_proxy b)) = (0, w1)" "opens w1 = opens (e_world (bt_proxy b))" using D(6) by blast
  obtain w2 where w2: "pt_sigaction h w1 = (0, w2)" "opens w2 = opens w1" using D(7) by blast
  obtain w3 where w3: "os_malloc os w2 = (True, w3)" "opens w3 = opens w2" using D(5) by blast
  obtain w4 where w4: "os_malloc os w3 = (True, w4)" "opens w4 = opens w3" using D(5) by blast
  obtain sel :: "(handler_ref, attachment) fdselector" where sel: "selector_new True True 1024 = Some (Some sel)" "sel_inv sel" "sel_full sel"
    "\<forall>fd. sel_entry sel fd = None" "resolution_jobs sel = []" "cleared sel" using selector_new_spec by blast
  have "make_selector os h b = Some (Inr (b\<lparr>bt_proxy := install sel ((bt_proxy b)\<lparr>e_world := w4\<rparr>), bt_selector := True\<rparr>))"
    using w1 w2 w3 w4 sel(1) by (simp add: make_selector_def selector_init_def at_world_def)
  then show ?thesis using sel(2-6) w1 w2 w3 w4 by (intro exI[of _ sel] exI[of _ w4]) auto
qed

lemma install_laws [simp]:
  "sel_inv (install sel p) = sel_inv sel" "sel_full (install sel p) = sel_full sel" "sel_entry (install sel p) = sel_entry sel"
  "resolution_jobs (install sel p) = resolution_jobs sel" "e_users (install sel p) = e_users p" "px_log (install sel p) = px_log p"
  "e_world (install sel p) = e_world p" "sv_conns (install sel p) = sv_conns p" "pm_conns (install sel p) = pm_conns p"
  "e_metrics (install sel p) = e_metrics p" "cleared (install sel p) = cleared sel"
  by (simp_all add: install_def fun_eq_iff sel_inv_def sel_full_def items_ok_def max_ok_def wants_def sel_entry_def cleared_def)

section \<open>The stages\<close>

lemma logger_init_spec:
  assumes b: "boots os h opens" and st: "px_log p = logger_static"
  shows "\<exists>w lg. with_log (logger_init os h None) p = Some (p\<lparr>e_world := w, px_log := lg\<rparr>) \<and> log_ok lg
    \<and> logFile lg = STDOUT_FILENO \<and> \<not> loggerSelector lg \<and> logAlwaysIncrementalId lg \<le> 1 \<and> opens w = opens (e_world p)
    \<and> minLogLevel lg = LOGGER_MIN_LEVEL"
proof -
  note D = bootsD[OF b]
  obtain w1 where w1: "os_malloc os (e_world p) = (True, w1)" "opens w1 = opens (e_world p)" using D(5) by blast
  obtain q :: "(byte list, nat) queue" where q: "create_queue True (Some free_log) MAX_LOG_QUEUE_SIZE = Some q"
    by (simp add: create_queue_def)
  let ?lg = "logger_static\<lparr>logQueue := Some q, logBuffer := buffer_init MAX_LOG_SIZE []\<rparr>"
  have ok: "log_ok ?lg" using create_queue_spec[OF q] by (intro log_okI[of _ q]) (simp_all add: logger_static_def)
  have few: "logAlwaysIncrementalId ?lg < 30" by (simp add: logger_static_def)
  have l: "(82 :: nat) < 1000" and f: "length (ascii ''logger.c'') \<le> 100" by simp_all
  from log_message_spec[where opens = opens and s = "p\<lparr>e_world := w1\<rparr>" and level = LOGGER_WARN
      and msg = "ascii ''No file provided, logging to STDOUT''", OF ok few D(1,3) l f D(4)]
  obtain lg w where r: "logger_log_message_deferred os h LOGGER_WARN (ascii ''logger.c'') 82
      (ascii ''No file provided, logging to STDOUT'') (?lg, p\<lparr>e_world := w1\<rparr>) = Some (lg, p\<lparr>e_world := w\<rparr>)"
    "log_more 1 ?lg lg" "opens w = opens w1" by auto
  let ?lg' = "lg\<lparr>logFile := STDOUT_FILENO\<rparr>"
  have "with_log (logger_init os h None) p = Some (p\<lparr>e_world := w, px_log := ?lg'\<rparr>)"
    using w1(1) q r(1) st by (simp add: with_log_def logger_init_def open_file_non_blocking_def)
  moreover have "log_ok ?lg'" using r(2) by (auto simp: log_more_def log_ok_def split: option.splits)
  moreover have "\<not> loggerSelector ?lg'" "logAlwaysIncrementalId ?lg' \<le> 1" "minLogLevel ?lg' = LOGGER_MIN_LEVEL" using r(2) by (simp_all add: log_more_def logger_static_def)
  ultimately show ?thesis using w1(2) r(3) by (intro exI[of _ w] exI[of _ ?lg']) simp
qed

definition logger_item :: "(handler_ref, attachment) item" where
  "logger_item = \<lparr>it_fd = STDOUT_FILENO, it_interest = OP_WRITE, it_handler = Some LOGGER_HANDLER, it_data = None\<rparr>"

definition passive_item :: "int \<Rightarrow> handler_ref \<Rightarrow> (handler_ref, attachment) item" where
  "passive_item fd r = \<lparr>it_fd = fd, it_interest = OP_READ, it_handler = Some r, it_data = None\<rparr>"

definition admin_only :: "byte list \<Rightarrow> (byte list \<times> nat) option" where
  "admin_only = [ascii ''admin'' \<mapsto> (ascii ''admin'', USER_PRIVILEGE_ADMIN)]"

lemma with_item_proxy:
  "px_log (with_item fd r i d p) = px_log p" "e_users (with_item fd r i d p) = e_users p" "e_world (with_item fd r i d p) = e_world p"
  "resolution_jobs (with_item fd r i d p) = resolution_jobs p" "sv_conns (with_item fd r i d p) = sv_conns p"
  "pm_conns (with_item fd r i d p) = pm_conns p"
  by (simp_all add: with_item_def)

lemma register_spec:
  assumes "sel_inv p" "sel_full p" "0 \<le> fd" "fd < 1024" "sel_entry p fd = None"
  shows "selector_register m fd (Some r) i d p = Some (SELECTOR_SUCCESS, with_item fd (Some r) i d p)"
    "sel_inv (with_item fd (Some r) i d p)" "sel_full (with_item fd (Some r) i d p)"
    "sel_entry (with_item fd (Some r) i d p) = (sel_entry p)(fd \<mapsto> \<lparr>it_fd = fd, it_interest = i, it_handler = Some r, it_data = d\<rparr>)"
proof -
  have v: "\<not> INVALID_FD fd" using assms(3,4) by (simp add: INVALID_FD_def)
  have n: "nat fd < fd_size p" using valid_in_full[OF assms(2) v] by simp
  show "selector_register m fd (Some r) i d p = Some (SELECTOR_SUCCESS, with_item fd (Some r) i d p)"
    by (rule register_free[OF assms(1) v n assms(5)]) simp
  show "sel_inv (with_item fd (Some r) i d p)" by (rule inv_with_item[OF assms(1,3) _ n]) (use assms(4) in simp_all)
  show "sel_full (with_item fd (Some r) i d p)" using assms(2) by simp
  show "sel_entry (with_item fd (Some r) i d p) = (sel_entry p)(fd \<mapsto> \<lparr>it_fd = fd, it_interest = i, it_handler = Some r, it_data = d\<rparr>)"
    by (rule entry_with_item[OF assms(3) n])
qed

lemma init_modules_spec:
  assumes b: "boots os h opens" and p: "sel_inv (bt_proxy b)" "sel_full (bt_proxy b)" "sel_entry (bt_proxy b) = (\<lambda>_. None)"
    "resolution_jobs (bt_proxy b) = []" "e_users (bt_proxy b) = users_static" "px_log (bt_proxy b) = logger_static" "bt_selector b"
    "sv_conns (bt_proxy b) = (\<lambda>_. None)" "pm_conns (bt_proxy b) = (\<lambda>_. None)" "cleared (bt_proxy b)"
  shows "\<exists>b'. init_modules os h None b = Some (Inr b') \<and> booted [STDOUT_FILENO \<mapsto> logger_item] admin_only 1 b'
    \<and> opens (e_world (bt_proxy b')) = opens (e_world (bt_proxy b)) \<and> bt_server b' = bt_server b \<and> bt_pamServer b' = bt_pamServer b"
proof -
  note D = bootsD[OF b]
  let ?p = "bt_proxy b" let ?p1 = "?p\<lparr>e_metrics := metrics_init (e_metrics ?p)\<rparr>"
  obtain w1 where w1: "os_malloc os (e_world ?p) = (True, w1)" "opens w1 = opens (e_world ?p)" using D(5) by blast
  obtain w2 where w2: "os_malloc os w1 = (True, w2)" "opens w2 = opens w1" using D(5) by blast
  obtain w3 where w3: "os_malloc os w2 = (True, w3)" "opens w3 = opens w2" using D(5) by blast
  obtain db where db: "users_init True True True users_static = Some db" "users_ok db" "totalAdmins db = 1" "users_map db = admin_only"
    by (rule users_init_spec) (simp add: admin_only_def)
  let ?p2 = "?p1\<lparr>e_users := db, e_world := w3\<rparr>"
  have "px_log ?p2 = logger_static" using p(6) by simp
  from logger_init_spec[OF b this] obtain w lg where lg: "with_log (logger_init os h None) ?p2 = Some (?p2\<lparr>e_world := w, px_log := lg\<rparr>)"
    "log_ok lg" "logFile lg = STDOUT_FILENO" "\<not> loggerSelector lg" "logAlwaysIncrementalId lg \<le> 1" "opens w = opens w3" "minLogLevel lg = LOGGER_MIN_LEVEL" by auto
  obtain w4 where w4: "selector_fd_set_nio os STDOUT_FILENO w = (0, w4)" "opens w4 = opens w" using D(8) by blast
  let ?p3 = "?p2\<lparr>e_world := w, px_log := lg\<rparr>" let ?p4 = "?p3\<lparr>e_world := w4\<rparr>"
  have s: "sel_inv ?p4" "sel_full ?p4" "sel_entry ?p4 STDOUT_FILENO = None" using p(1-3) by simp_all
  note R = register_spec[OF s(1,2) _ _ s(3)]
  let ?p5 = "with_item STDOUT_FILENO (Some LOGGER_HANDLER) OP_WRITE None ?p4"
  let ?b = "b\<lparr>bt_proxy := ?p5\<lparr>px_log := lg\<lparr>loggerSelector := True\<rparr>\<rparr>\<rparr>"
  have "init_modules os h None b = Some (Inr ?b)"
    using w1 w2 w3 db(1) p(5) lg(1,3,4) w4(1) R(1)
    by (simp add: init_modules_def logger_register_selector_def Let_def)
  moreover have "booted [STDOUT_FILENO \<mapsto> logger_item] admin_only 1 ?b"
    using R(2-4) db(2,4) lg p(3,4,7-10) cleared_with_item[of ?p4 STDOUT_FILENO "Some LOGGER_HANDLER" OP_WRITE None]
    by (auto simp: booted_def with_item_proxy logger_item_def log_ok_def split: option.splits)
  ultimately show ?thesis using w1(2) w2(2) w3(2) lg(6) w4(2) by (intro exI[of _ ?b]) (simp add: with_item_proxy)
qed

text \<open>The users of the command line are added to the first one, \<open>admin\<close>.\<close>

definition new_users :: "(byte list \<times> byte list) list \<Rightarrow> (byte list \<Rightarrow> (byte list \<times> nat) option) \<Rightarrow> bool" where
  "new_users us m \<longleftrightarrow> distinct (map fst us) \<and> (\<forall>(u, p) \<in> set us. m u = None \<and> 0 \<notin> set u \<and> 0 \<notin> set p \<and> length u < 255 \<and> length p < 255)"

definition with_users :: "(byte list \<times> byte list) list \<Rightarrow> (byte list \<Rightarrow> (byte list \<times> nat) option) \<Rightarrow> byte list \<Rightarrow> (byte list \<times> nat) option" where
  "with_users us m = m ++ map_of (map (\<lambda>(u, p). (u, p, USER_PRIVILEGE_DEFAULT)) us)"

lemma local_user_ok: "os_ok os \<Longrightarrow> junk_ok (local_user os w)"
  using os_uninitD[of os 512 w] by (simp add: junk_ok_def local_user_def Let_def)

lemma create_one_user:
  assumes b: "boots os h opens" and bt: "booted en us n b" and u: "0 \<notin> set u" "0 \<notin> set p"
  shows "\<exists>b' st. create_users os ((u, p) # rest) b = (if st = USER_OK then create_users os rest b' else fail (ascii ''creating users'') b')
    \<and> booted en (if st = USER_OK then us(u \<mapsto> (p, USER_PRIVILEGE_DEFAULT)) else us) n b'
    \<and> opens (e_world (bt_proxy b')) = opens (e_world (bt_proxy b)) \<and> bt_server b' = bt_server b \<and> bt_pamServer b' = bt_pamServer b
    \<and> (st = USER_OK) = (length u < 255 \<and> length p < 255 \<and> us u = None)"
proof -
  note D = bootsD[OF b]
  let ?p = "bt_proxy b"
  obtain w1 where w1: "os_malloc os (e_world ?p) = (True, w1)" "opens w1 = opens (e_world ?p)" using D(5) by blast
  obtain w2 where w2: "os_malloc os w1 = (True, w2)" "opens w2 = opens w1" using D(5) by blast
  have db: "users_ok (e_users ?p)" "users_map (e_users ?p) = us" using bt by (simp_all add: booted_def)
  have t: "terminated (u @ [0])" "terminated (p @ [0])" "cstr (u @ [0]) = u" "cstr (p @ [0]) = p"
    using u by (simp_all add: terminated_def cstr_append_zero)
  let ?st = "create_status (e_users ?p) (u @ [0]) (p @ [0])"
  from user_create_spec[OF db(1) t(1,2) local_user_ok[OF D(2)], of w2 USER_PRIVILEGE_DEFAULT] t(3,4) db(2)
  obtain db' where c: "user_create True True (local_user os w2) (e_users ?p) (u @ [0]) (p @ [0]) USER_PRIVILEGE_DEFAULT = Some (?st, db')"
    "users_ok db'" "users_map db' = (if ?st = USER_OK then us(u \<mapsto> (p, USER_PRIVILEGE_DEFAULT)) else us)"
    by (auto split: if_splits)
  have st: "(?st = USER_OK) = (length u < 255 \<and> length p < 255 \<and> us u = None)"
    using t(3,4) db(2) by (auto simp: create_status_def)
  let ?b = "b\<lparr>bt_proxy := ?p\<lparr>e_users := db', e_world := w2\<rparr>\<rparr>"
  have "create_users os ((u, p) # rest) b = (if ?st = USER_OK then create_users os rest ?b else fail (ascii ''creating users'') ?b)"
    using w1(1) w2(1) c(1) by simp
  moreover have "booted en (if ?st = USER_OK then us(u \<mapsto> (p, USER_PRIVILEGE_DEFAULT)) else us) n ?b"
    using bt c(2,3) by (simp add: booted_def)
  ultimately show ?thesis using w1(2) w2(2) st by (intro exI[of _ ?b] exI[of _ ?st]) simp
qed

lemma create_users_spec:
  assumes "boots os h opens" "booted en us n b" "new_users L us"
  shows "\<exists>b'. create_users os L b = Some (Inr b') \<and> booted en (with_users L us) n b'
    \<and> opens (e_world (bt_proxy b')) = opens (e_world (bt_proxy b)) \<and> bt_server b' = bt_server b \<and> bt_pamServer b' = bt_pamServer b"
  using assms(2,3)
proof (induction L arbitrary: b us)
  case Nil
  then show ?case by (simp add: with_users_def)
next
  case (Cons x L)
  obtain u p where x: "x = (u, p)" by fastforce
  have new: "0 \<notin> set u" "0 \<notin> set p" "length u < 255" "length p < 255" "us u = None" "u \<notin> fst ` set L"
    using Cons.prems(2) x by (auto simp: new_users_def)
  obtain b1 where b1: "create_users os ((u, p) # L) b = create_users os L b1" "booted en (us(u \<mapsto> (p, USER_PRIVILEGE_DEFAULT))) n b1"
    "opens (e_world (bt_proxy b1)) = opens (e_world (bt_proxy b))" "bt_server b1 = bt_server b" "bt_pamServer b1 = bt_pamServer b"
    using create_one_user[OF assms(1) Cons.prems(1) new(1,2), of L] new(3-5) by auto
  have "new_users L (us(u \<mapsto> (p, USER_PRIVILEGE_DEFAULT)))"
    using Cons.prems(2) new(6) x by (force simp: new_users_def)
  from Cons.IH[OF b1(2) this] obtain b2 where b2: "create_users os L b1 = Some (Inr b2)"
    "booted en (with_users L (us(u \<mapsto> (p, USER_PRIVILEGE_DEFAULT)))) n b2" "opens (e_world (bt_proxy b2)) = opens (e_world (bt_proxy b1))"
    "bt_server b2 = bt_server b1" "bt_pamServer b2 = bt_pamServer b1" by blast
  have "map_of (map (\<lambda>(u, p). (u, p, USER_PRIVILEGE_DEFAULT)) L) u = None"
    using new(6) by (simp add: map_of_eq_None_iff image_image case_prod_beta)
  then have "with_users L (us(u \<mapsto> (p, USER_PRIVILEGE_DEFAULT))) = with_users (x # L) us"
    unfolding with_users_def x by (auto simp: fun_eq_iff map_add_def split: option.splits)
  then show ?case using b1 b2 x by (intro exI[of _ b2]) simp
qed

text \<open>A listening socket. Nothing is said of an address that \<open>inet_pton\<close> refuses.\<close>

definition addr_valid :: "'w os \<Rightarrow> byte list \<Rightarrow> bool" where
  "addr_valid os a \<longleftrightarrow> (\<exists>x. os_pton os (if c_strchr 58 a = None then AF_INET else AF_INET6) a = PtonOk x)"

lemma log_stage_spec:
  assumes b: "boots os h opens" and bt: "booted en us n b" "n < 30" and l: "fst m < 1000"
  shows "\<exists>p. log_stage os h level m b = Some (b\<lparr>bt_proxy := p\<rparr>) \<and> booted en us (n + 1) (b\<lparr>bt_proxy := p\<rparr>)
    \<and> opens (e_world p) = opens (e_world (bt_proxy b))"
proof -
  have "log_ok (px_log (bt_proxy b))" "logAlwaysIncrementalId (px_log (bt_proxy b)) < 30" using bt by (auto simp: booted_def)
  from log_line_spec[OF b this l, of level "snd m"] obtain w lg where r:
    "log_line os h level (fst m) (snd m) (bt_proxy b) = Some ((bt_proxy b)\<lparr>e_world := w, px_log := lg\<rparr>)"
    "log_more 1 (px_log (bt_proxy b)) lg" "opens w = opens (e_world (bt_proxy b))" by blast
  then show ?thesis using booted_log[OF bt(1) r(2), of w]
    by (intro exI[of _ "(bt_proxy b)\<lparr>e_world := w, px_log := lg\<rparr>"]) (simp add: log_stage_def)
qed

lemma open_listener_spec:
  assumes b: "boots os h opens" and bt: "booted en us n b" "n < 20" and a: "addr_valid os a"
    and fw: "few (opens (e_world (bt_proxy b))) 1"
    and l: "fst (ls_starting ls) < 1000" "fst (ls_ready ls) < 1000"
    and set: "\<And>fd c. bt_proxy (set_fd fd c) = bt_proxy c" "\<And>fd c m. booted en us m (set_fd fd c) = booted en us m c"
      "\<And>fd c p. (set_fd fd c)\<lparr>bt_proxy := p\<rparr> = set_fd fd (c\<lparr>bt_proxy := p\<rparr>)"
  shows "\<exists>fd c. open_listener os h ls set_fd a port b = Some (Inr (set_fd fd c)) \<and> booted en us (n + 2) c \<and> 0 \<le> fd \<and> fd < 1024
    \<and> fd \<notin> opens (e_world (bt_proxy b)) \<and> opens (e_world (bt_proxy c)) = insert fd (opens (e_world (bt_proxy b)))
    \<and> bt_server c = bt_server b \<and> bt_pamServer c = bt_pamServer b"
proof -
  note D = bootsD[OF b]
  obtain len addr where ad: "interpret_socket_args os h a port (bt_proxy b) = Some (len, addr, bt_proxy b)" "len = 16 \<or> len = 28"
    using a by (cases "c_strchr 58 a") (auto simp: addr_valid_def interpret_socket_args_def)
  obtain p1 where p1: "log_stage os h LOGGER_DEBUG (ls_starting ls) b = Some (b\<lparr>bt_proxy := p1\<rparr>)"
    "booted en us (n + 1) (b\<lparr>bt_proxy := p1\<rparr>)" "opens (e_world p1) = opens (e_world (bt_proxy b))"
    using log_stage_spec[OF b bt(1) _ l(1), of LOGGER_DEBUG] bt(2) by auto
  obtain fd w2 where so: "os_socket os (ss_family addr) SOCK_STREAM IPPROTO_TCP (e_world p1) = (SysOk fd, w2)" "0 \<le> fd" "fd < 1024"
    "fd \<notin> opens (e_world p1)" "opens w2 = insert fd (opens (e_world p1))"
    using D(9)[OF fw[folded p1(3)]] by blast
  define c1 where "c1 = set_fd fd (b\<lparr>bt_proxy := p1\<rparr>)"
  have c1: "bt_proxy c1 = p1" "booted en us (n + 1) c1" using p1(2) set(1,2) by (simp_all add: c1_def)
  let ?w3 = "pt_reuseaddr h fd w2"
  have "(word_of_int len :: 32 word) = 16 \<or> (word_of_int len :: 32 word) = 28" using ad(2) by auto
  from D(11)[OF this, of fd addr ?w3] obtain w4 where w4: "pt_bind h fd addr (word_of_int len) ?w3 = (SysOk (), w4)" "opens w4 = opens ?w3"
    by (elim exE conjE)
  obtain w5 where w5: "pt_listen h fd MAX_PENDING_CONNECTIONS w4 = (SysOk (), w5)" "opens w5 = opens w4" using D(12) by blast
  obtain w6 where w6: "selector_fd_set_nio os fd w5 = (0, w6)" "opens w6 = opens w5" using D(8) by blast
  define c2 where "c2 = at_world w6 c1"
  let ?m = "(fst (ls_ready ls), snd (ls_ready ls) @ a @ ascii '':'' @ dec_digits (unat port) @ ascii '' (TCP)'')"
  have c2: "booted en us (n + 1) c2" "e_world (bt_proxy c2) = w6" using c1(2) by (simp_all add: at_world_def c2_def)
  obtain p3 where p3: "log_stage os h LOGGER_INFO ?m c2 = Some (c2\<lparr>bt_proxy := p3\<rparr>)"
    "booted en us (n + 1 + 1) (c2\<lparr>bt_proxy := p3\<rparr>)" "opens (e_world p3) = opens w6"
    using log_stage_spec[OF b c2(1) _, of ?m LOGGER_INFO] bt(2) l(2) c2(2) by auto
  have eq: "c2\<lparr>bt_proxy := p3\<rparr> = set_fd fd (b\<lparr>bt_proxy := p3\<rparr>)"
    by (simp add: at_world_def c1_def c2_def set(3))
  have "open_listener os h ls set_fd a port b = Some (Inr (c2\<lparr>bt_proxy := p3\<rparr>))"
    unfolding open_listener_def ad(1) using p1(1) so(1) w4(1) w5(1) w6(1) p3(1)
    by (simp add: c1_def[symmetric] c2_def[symmetric])
  moreover have "booted en us (n + 2) (b\<lparr>bt_proxy := p3\<rparr>)" using p3(2) unfolding eq set(2) by simp
  moreover have "opens (e_world p3) = insert fd (opens (e_world (bt_proxy b)))"
    using p3(3) w6(2) w5(2) w4(2) so(5) p1(3) D(10) by simp
  ultimately show ?thesis using so(2-4) p1(3) unfolding eq by (intro exI[of _ fd] exI[of _ "b\<lparr>bt_proxy := p3\<rparr>"]) simp
qed

lemma register_listener_spec:
  assumes bt: "booted en us n b" and fd: "0 \<le> fd" "fd < 1024" "en fd = None"
  shows "\<exists>b'. register_listener os fd r msg b = Some (Inr b') \<and> booted (en(fd \<mapsto> passive_item fd r)) us n b'
    \<and> e_world (bt_proxy b') = e_world (bt_proxy b) \<and> bt_server b' = bt_server b \<and> bt_pamServer b' = bt_pamServer b"
proof -
  have p: "sel_inv (bt_proxy b)" "sel_full (bt_proxy b)" "sel_entry (bt_proxy b) fd = None" using bt fd(3) by (auto simp: booted_def)
  note R = register_spec[where r = r and i = OP_READ and d = None, OF p(1,2) fd(1,2) p(3)]
  let ?b = "b\<lparr>bt_proxy := with_item fd (Some r) OP_READ None (bt_proxy b)\<rparr>"
  have "register_listener os fd r msg b = Some (Inr ?b)" using R(1) by (simp add: register_listener_def)
  moreover have "booted (en(fd \<mapsto> passive_item fd r)) us n ?b"
    using bt R(2-4) cleared_with_item[OF _ fd(1), of "bt_proxy b" "Some r" OP_READ None]
    by (simp add: booted_def with_item_proxy passive_item_def)
  ultimately show ?thesis by (intro exI[of _ ?b]) (simp add: with_item_proxy)
qed

definition serving_entries :: "int \<Rightarrow> int \<Rightarrow> int \<Rightarrow> (handler_ref, attachment) item option" where
  "serving_entries server pam = [STDOUT_FILENO \<mapsto> logger_item, server \<mapsto> passive_item server SOCKSV5_PASSIVE, pam \<mapsto> passive_item pam PAM_PASSIVE]"

lemma set_up_spec:
  assumes b: "boots os h opens" and bt: "booted [STDOUT_FILENO \<mapsto> logger_item] admin_only 1 b" "STDOUT_FILENO \<in> opens (e_world (bt_proxy b))"
    and fw: "few (opens (e_world (bt_proxy b))) 2"
    and us: "new_users (arg_users args) admin_only" and ad: "addr_valid os (socks_addr args)" "addr_valid os (mng_addr args)"
  shows "\<exists>b'. set_up os h args b = Some (Inr b') \<and> booted (serving_entries (bt_server b') (bt_pamServer b')) (with_users (arg_users args) admin_only) 5 b'
    \<and> bt_server b' \<noteq> bt_pamServer b' \<and> {bt_server b', bt_pamServer b'} \<inter> opens (e_world (bt_proxy b)) = {}
    \<and> opens (e_world (bt_proxy b')) = {bt_server b', bt_pamServer b'} \<union> opens (e_world (bt_proxy b))"
proof -
  let ?us = "with_users (arg_users args) admin_only"
  obtain b1 where b1: "create_users os (arg_users args) b = Some (Inr b1)" "booted [STDOUT_FILENO \<mapsto> logger_item] ?us 1 b1"
    "opens (e_world (bt_proxy b1)) = opens (e_world (bt_proxy b))" using create_users_spec[OF b bt(1) us] by blast
  have fw1: "few (opens (e_world (bt_proxy b1))) 1" unfolding b1(3) by (rule few_less) (use fw in \<open>simp add: numeral_2_eq_2\<close>)
  have l1: "fst (ls_starting socks_listener) < 1000" "fst (ls_ready socks_listener) < 1000" by (simp_all add: socks_listener_def)
  have l2: "fst (ls_starting pam_listener) < 1000" "fst (ls_ready pam_listener) < 1000" by (simp_all add: pam_listener_def)
  obtain f1 c1 where c1: "open_listener os h socks_listener (\<lambda>fd b. b\<lparr>bt_server := fd\<rparr>) (socks_addr args) (socks_port args) b1
      = Some (Inr (c1\<lparr>bt_server := f1\<rparr>))" "booted [STDOUT_FILENO \<mapsto> logger_item] ?us (Suc (Suc (Suc 0))) c1" "0 \<le> f1" "f1 < 1024"
    "f1 \<notin> opens (e_world (bt_proxy b1))" "opens (e_world (bt_proxy c1)) = insert f1 (opens (e_world (bt_proxy b1)))"
    using open_listener_spec[OF b b1(2) _ ad(1) fw1 l1, of "\<lambda>fd b. b\<lparr>bt_server := fd\<rparr>" "socks_port args"] by auto
  define b2 where "b2 = c1\<lparr>bt_server := f1\<rparr>"
  have b2: "booted [STDOUT_FILENO \<mapsto> logger_item] ?us 3 b2" "bt_proxy b2 = bt_proxy c1" using c1(2) by (simp_all add: b2_def numeral_3_eq_3)
  have fw2: "few (opens (e_world (bt_proxy b2))) 1"
    unfolding b2(2) c1(6) b1(3) by (rule few_insert) (use fw in \<open>simp add: numeral_2_eq_2\<close>)
  obtain f2 c2 where c2: "open_listener os h pam_listener (\<lambda>fd b. b\<lparr>bt_pamServer := fd\<rparr>) (mng_addr args) (mng_port args) b2
      = Some (Inr (c2\<lparr>bt_pamServer := f2\<rparr>))" "booted [STDOUT_FILENO \<mapsto> logger_item] ?us 5 c2" "0 \<le> f2" "f2 < 1024"
    "f2 \<notin> opens (e_world (bt_proxy b2))" "bt_server c2 = bt_server b2" "opens (e_world (bt_proxy c2)) = insert f2 (opens (e_world (bt_proxy b2)))"
    using open_listener_spec[OF b b2(1) _ ad(2) fw2 l2, of "\<lambda>fd b. b\<lparr>bt_pamServer := fd\<rparr>" "mng_port args"] by auto
  define b3 where "b3 = c2\<lparr>bt_pamServer := f2\<rparr>"
  have b3: "booted [STDOUT_FILENO \<mapsto> logger_item] ?us 5 b3" "bt_server b3 = f1" "bt_pamServer b3 = f2" using c2(2,6) by (simp_all add: b3_def b2_def)
  have ne: "f1 \<noteq> STDOUT_FILENO" "f2 \<noteq> STDOUT_FILENO" "f1 \<noteq> f2" using c1(5,6) c2(5) b2(2) b1(3) bt(2) by auto
  have e3: "[STDOUT_FILENO \<mapsto> logger_item] f1 = None" using ne by simp
  obtain b4 where b4: "register_listener os f1 SOCKSV5_PASSIVE (ascii ''registering socks fd'') b3 = Some (Inr b4)"
    "booted ([STDOUT_FILENO \<mapsto> logger_item](f1 \<mapsto> passive_item f1 SOCKSV5_PASSIVE)) ?us 5 b4" "bt_server b4 = f1" "bt_pamServer b4 = f2"
    "e_world (bt_proxy b4) = e_world (bt_proxy b3)"
    using register_listener_spec[OF b3(1) c1(3,4) e3, of os SOCKSV5_PASSIVE "ascii ''registering socks fd''"] b3(2,3) by metis
  have e4: "([STDOUT_FILENO \<mapsto> logger_item](f1 \<mapsto> passive_item f1 SOCKSV5_PASSIVE)) f2 = None" using ne by simp
  obtain b5 where b5: "register_listener os f2 PAM_PASSIVE (ascii ''registering pam fd'') b4 = Some (Inr b5)"
    "booted (serving_entries f1 f2) ?us 5 b5" "bt_server b5 = f1" "bt_pamServer b5 = f2" "e_world (bt_proxy b5) = e_world (bt_proxy b4)"
    using register_listener_spec[OF b4(2) c2(3,4) e4, of os PAM_PASSIVE "ascii ''registering pam fd''"] b4(3,4)
    unfolding serving_entries_def by metis
  have "set_up os h args b = Some (Inr b5)"
    unfolding set_up_def using b1(1) c1(1) c2(1) b4(1) b5(1) b3(2) b4(4)
    by (simp add: next_stage_def b2_def[symmetric] b3_def[symmetric])
  moreover have "opens (e_world (bt_proxy b5)) = {f1, f2} \<union> opens (e_world (bt_proxy b))"
    using b5(5) b4(5) c2(7) c1(6) b1(3) b2(2) by (auto simp: b3_def)
  ultimately show ?thesis using b5 ne c1(5,6) c2(5) b2(2) b1(3) by (intro exI[of _ b5]) auto
qed

text \<open>From the first line of \<open>main\<close> to the loop.\<close>

lemma server_start_spec:
  assumes b: "boots os h opens" and w: "STDOUT_FILENO \<in> opens (os_close os 0 w)" "few (opens (os_close os 0 w)) 2"
    and a: "parse_args opts left_over = Inr args" and us: "new_users (arg_users args) admin_only"
    and ad: "addr_valid os (socks_addr args)" "addr_valid os (mng_addr args)"
  shows "\<exists>b. booted (serving_entries (bt_server b) (bt_pamServer b)) (with_users (arg_users args) admin_only) 5 b
    \<and> bt_server b \<noteq> bt_pamServer b \<and> STDOUT_FILENO \<notin> {bt_server b, bt_pamServer b}
    \<and> {STDOUT_FILENO, bt_server b, bt_pamServer b} \<subseteq> opens (e_world (bt_proxy b))
    \<and> (\<forall>rounds. server_main os h None opts left_over rounds w = do {
          r \<leftarrow> serve os h rounds b;
          (case r of Inl (msg, ss, b) \<Rightarrow> ended os h msg ss b | Inr b \<Rightarrow> Some (Serving b))
        })"
proof -
  define b0 where "b0 = \<lparr>bt_proxy = proxy_static (os_close os 0 w), bt_selector = False, bt_server = - 1, bt_pamServer = - 1\<rparr>"
  obtain sel w1 where m: "make_selector os h b0 = Some (Inr (b0\<lparr>bt_proxy := install sel ((bt_proxy b0)\<lparr>e_world := w1\<rparr>), bt_selector := True\<rparr>))"
    "sel_inv sel" "sel_full sel" "sel_entry sel = (\<lambda>_. None)" "resolution_jobs sel = []" "opens w1 = opens (os_close os 0 w)" "cleared sel"
    using make_selector_spec[OF b, of b0] by (auto simp: b0_def proxy_static_def)
  define b1 where "b1 = b0\<lparr>bt_proxy := install sel ((bt_proxy b0)\<lparr>e_world := w1\<rparr>), bt_selector := True\<rparr>"
  have p1: "sel_inv (bt_proxy b1)" "sel_full (bt_proxy b1)" "sel_entry (bt_proxy b1) = (\<lambda>_. None)" "resolution_jobs (bt_proxy b1) = []"
    "e_users (bt_proxy b1) = users_static" "px_log (bt_proxy b1) = logger_static" "bt_selector b1"
    "sv_conns (bt_proxy b1) = (\<lambda>_. None)" "pm_conns (bt_proxy b1) = (\<lambda>_. None)" "cleared (bt_proxy b1)" "e_world (bt_proxy b1) = w1"
    using m(2-5,7) by (simp_all add: b1_def b0_def proxy_static_def)
  obtain b2 where b2: "init_modules os h None b1 = Some (Inr b2)" "booted [STDOUT_FILENO \<mapsto> logger_item] admin_only 1 b2"
    "opens (e_world (bt_proxy b2)) = opens w1" using init_modules_spec[OF b p1(1-10)] p1(11) by auto
  have in2: "STDOUT_FILENO \<in> opens (e_world (bt_proxy b2))" "few (opens (e_world (bt_proxy b2))) 2" using b2(3) m(6) w by simp_all
  obtain b3 where b3: "set_up os h args b2 = Some (Inr b3)"
    "booted (serving_entries (bt_server b3) (bt_pamServer b3)) (with_users (arg_users args) admin_only) 5 b3"
    "bt_server b3 \<noteq> bt_pamServer b3" "{bt_server b3, bt_pamServer b3} \<inter> opens (e_world (bt_proxy b2)) = {}"
    "opens (e_world (bt_proxy b3)) = {bt_server b3, bt_pamServer b3} \<union> opens (e_world (bt_proxy b2))"
    using set_up_spec[OF b b2(2) in2 us ad] by blast
  have "server_main os h None opts left_over rounds w = do {
          r \<leftarrow> serve os h rounds b3;
          (case r of Inl (msg, ss, b) \<Rightarrow> ended os h msg ss b | Inr b \<Rightarrow> Some (Serving b))
        }" for rounds
    unfolding server_main_def Let_def b0_def[symmetric] m(1)[folded b1_def] next_stage_def using b2(1) a b3(1) by simp
  moreover have "STDOUT_FILENO \<notin> {bt_server b3, bt_pamServer b3}" using b3(4) in2(1) by auto
  moreover have "{STDOUT_FILENO, bt_server b3, bt_pamServer b3} \<subseteq> opens (e_world (bt_proxy b3))" using b3(5) in2(1) by simp
  ultimately show ?thesis using b3(2,3) by blast
qed

end
