(* ===== verification/ServerEnd.thy ===== *)
theory ServerEnd
  imports ServerLaws
begin

text \<open>
  How the server ends: the signal handler, the loop after it, and the release of everything. With
  only its listening sockets open it exits with 0; with a connection open the release is undefined.
\<close>

section \<open>A signal\<close>

definition closed_file :: "'w os \<Rightarrow> int \<Rightarrow> 'w \<Rightarrow> 'w" where
  "closed_file os fd w = (if 0 \<le> fd \<and> fd \<noteq> STDOUT_FILENO then os_close os fd w else w)"

lemma free_flushed:
  assumes ok: "log_ok lg" and p: "pending lg = []"
  shows "\<exists>lg'. free_logger os h (lg, s) = Some (lg', s\<lparr>e_world := closed_file os (logFile lg) (e_world s)\<rparr>) \<and> logQueue lg' = None"
  using free_logger_spec[OF ok, of os h s] p by (auto simp: closed_file_def split: if_splits)

lemma signal_handler_spec:
  assumes b: "boots os h opens" and ok: "log_ok (px_log p)" "logAlwaysIncrementalId (px_log p) < 30" "minLogLevel (px_log p) \<le> LOGGER_FATAL"
  shows "\<exists>p1 m lg. log_line os h LOGGER_FATAL 232 (signal_message sig (get_metrics_snapshot (e_metrics p))) p = Some p1
    \<and> pending (px_log p1) = keep_last MAX_LOG_QUEUE_SIZE (pending (px_log p) @ [m])
    \<and> a_log_line (signal_message sig (get_metrics_snapshot (e_metrics p))) m
    \<and> signal_handler os h sig p = Some (p\<lparr>e_world := closed_file os (logFile (px_log p))
        (writes h (logFile (px_log p)) (pending (px_log p1)) (e_world p1)), px_log := lg\<rparr>)
    \<and> logQueue lg = None"
proof -
  have l: "(232 :: nat) < 1000" by simp
  let ?msg = "signal_message sig (get_metrics_snapshot (e_metrics p))"
  obtain w lg1 m where a: "log_line os h LOGGER_FATAL 232 ?msg p = Some (p\<lparr>e_world := w, px_log := lg1\<rparr>)" "log_more 1 (px_log p) lg1"
    "pending lg1 = keep_last MAX_LOG_QUEUE_SIZE (pending (px_log p) @ [m])" "a_log_line ?msg m"
    using log_line_spec[OF b ok(1,2) l, of LOGGER_FATAL ?msg] ok(3) by auto
  let ?p1 = "p\<lparr>e_world := w, px_log := lg1\<rparr>"
  have lg1: "log_ok lg1" "logFile lg1 = logFile (px_log p)" using a(2) by (simp_all add: log_more_def)
  obtain q1 where q1: "logQueue lg1 = Some q1" using lg1(1) by (auto elim: log_okD)
  obtain lg2 where f: "flush_loop h (lg1, ?p1) = Some (lg2, ?p1\<lparr>e_world := writes h (logFile lg1) (pending lg1) w\<rparr>)"
    "log_ok lg2" "pending lg2 = []" "logFile lg2 = logFile lg1" using flush_loop_spec[OF lg1(1), of h ?p1] by auto
  let ?p2 = "?p1\<lparr>e_world := writes h (logFile lg1) (pending lg1) w, px_log := lg2\<rparr>"
  obtain lg3 where g: "free_logger os h (lg2, ?p2) = Some (lg3, ?p2\<lparr>e_world := closed_file os (logFile lg2) (e_world ?p2)\<rparr>)" "logQueue lg3 = None"
    using free_flushed[OF f(2,3), of os h ?p2] by blast
  have "signal_handler os h sig p = Some (?p2\<lparr>e_world := closed_file os (logFile lg2) (e_world ?p2), px_log := lg3\<rparr>)"
    unfolding signal_handler_def Let_def using a(1) q1 f(1) g(1) by (simp add: with_log_def flush_all_logs_def)
  then show ?thesis using a(1,3,4) g(2) f(4) lg1(2) by (intro exI[of _ ?p1] exI[of _ m] exI[of _ lg3]) simp
qed

section \<open>The loop\<close>

text \<open>A round in which nothing is ready and no job is done.\<close>

definition idle :: "pselect_result \<Rightarrow> bool" where
  "idle ps \<longleftrightarrow> ps = PS_EAGAIN \<or> ps = PS_EINTR"

definition waited :: "'w proxy \<Rightarrow> 'w proxy" where
  "waited p = p\<lparr>slave_r := master_r p, slave_w := master_w p, resolution_jobs := []\<rparr>"

lemma waited_simps [simp]:
  "sel_inv (waited p) = sel_inv p" "sel_full (waited p) = sel_full p" "sel_entry (waited p) = sel_entry p" "e_users (waited p) = e_users p"
  "px_log (waited p) = px_log p" "e_world (waited p) = e_world p" "resolution_jobs (waited p) = []" "sv_conns (waited p) = sv_conns p"
  "pm_conns (waited p) = pm_conns p" "cleared (waited p) = cleared p"
  by (simp_all add: waited_def fun_eq_iff sel_inv_def sel_full_def items_ok_def max_ok_def wants_def sel_entry_def cleared_def)

lemma select_idle: "idle ps \<Longrightarrow> resolution_jobs p = [] \<Longrightarrow> selector_select H ps p = Some (SELECTOR_SUCCESS, waited p)"
  by (auto simp: idle_def selector_select_def handle_block_notifications_def waited_def)

lemma booted_waited: "booted en us n b \<Longrightarrow> booted en us n (b\<lparr>bt_proxy := waited (bt_proxy b)\<rparr>)"
  by (simp add: booted_def)

lemma serve_idle:
  assumes "booted en us n b" "idle ps"
  shows "serve os h ((None, ps) # rounds) b = serve os h rounds (b\<lparr>bt_proxy := waited (bt_proxy b)\<rparr>)"
  using assms select_idle[OF assms(2), of "bt_proxy b"] by (simp add: booted_def)

lemma serve_idles:
  assumes "booted en us n b" "list_all idle pss"
  shows "\<exists>b'. (\<forall>rounds. serve os h (map (Pair None) pss @ rounds) b = serve os h rounds b') \<and> booted en us n b'
    \<and> bt_server b' = bt_server b \<and> bt_pamServer b' = bt_pamServer b \<and> e_world (bt_proxy b') = e_world (bt_proxy b) \<and> px_log (bt_proxy b') = px_log (bt_proxy b)"
  using assms
proof (induction pss arbitrary: b)
  case Nil
  then show ?case by auto
next
  case (Cons ps pss)
  have ps: "idle ps" "list_all idle pss" using Cons.prems(2) by simp_all
  have "serve os h (map (Pair None) (ps # pss) @ rounds) b = serve os h (map (Pair None) pss @ rounds) (b\<lparr>bt_proxy := waited (bt_proxy b)\<rparr>)" for rounds
    using serve_idle[OF Cons.prems(1) ps(1), where os = os and h = h and rounds = "map (Pair None) pss @ rounds"] by (simp del: serve.simps)
  then show ?case using Cons.IH[OF booted_waited[OF Cons.prems(1)] ps(2)] by (simp del: serve.simps)
qed

section \<open>Releasing\<close>

text \<open>Handlers without a close function.\<close>

definition quiet :: "(handler_ref \<Rightarrow> (attachment, 's) fd_handler) \<Rightarrow> (handler_ref, attachment) item option \<Rightarrow> bool" where
  "quiet H e \<longleftrightarrow> (\<forall>it. e = Some it \<longrightarrow> (\<exists>r. it_handler it = Some r \<and> handle_close (H r) = None))"

lemma unregister_quiet:
  assumes "sel_inv s" "sel_entry s fd = Some it" "quiet H (sel_entry s fd)"
  shows "selector_unregister_fd H fd s = Some (SELECTOR_SUCCESS, without_item fd s)"
proof -
  obtain r where r: "it_handler it = Some r" "handle_close (H r) = None" using assms(2,3) by (auto simp: quiet_def)
  have v: "\<not> INVALID_FD fd" "nat fd < fd_size s" using entry_valid[OF assms(1,2)] by simp_all
  show ?thesis using v r sel_entry_item[OF assms(2)] drop_item_used[OF assms(1,2)] by (simp add: selector_unregister_fd_def)
qed

definition quiet_step :: "nat \<Rightarrow> ('h, 'd, 'm) fdselector_scheme \<Rightarrow> ('h, 'd, 'm) fdselector_scheme" where
  "quiet_step i s = (if sel_entry s (int i) = None then s else without_item (int i) s)"

lemma unregister_all_step:
  assumes s: "sel_inv s" "sel_full s" and i: "i < 1025" and q: "quiet H (sel_entry s (int i))"
  shows "unregister_all H (i # is) s = unregister_all H is (quiet_step i s)"
    "sel_inv (quiet_step i s)" "sel_full (quiet_step i s)" "sel_entry (quiet_step i s) = (sel_entry s)(int i := None)"
proof -
  have n: "i < fd_size s" using s(2) i by (simp add: sel_full_def)
  show "unregister_all H (i # is) s = unregister_all H is (quiet_step i s)"
  proof (cases "sel_entry s (int i)")
    case None
    then have "\<not> ITEM_USED (fds s ! i)" using entry_None[of s "int i"] n by simp
    then show ?thesis using None n by (simp add: quiet_step_def)
  next
    case (Some it)
    then show ?thesis using sel_entry_item[OF Some] n unregister_quiet[OF s(1) Some q] by (simp add: quiet_step_def)
  qed
  show "sel_inv (quiet_step i s)" "sel_full (quiet_step i s)" "sel_entry (quiet_step i s) = (sel_entry s)(int i := None)"
    using s inv_without_item[OF s(1), of "int i"] entry_without_item[of s "int i"] by (auto simp: quiet_step_def)
qed

lemma quiet_step_env [simp]:
  "e_world (quiet_step i s) = e_world s" "sv_conns (quiet_step i t) = sv_conns t" "e_metrics (quiet_step i s) = e_metrics s"
  by (simp_all add: quiet_step_def)

lemma unregister_all_quiet:
  fixes s :: "(handler_ref, attachment, 'm) fdselector_scheme"
  assumes "sel_inv s" "sel_full s" "\<forall>fd. quiet H (sel_entry s fd)" "\<forall>i \<in> set is. i < 1025"
  shows "unregister_all H is s = Some (fold quiet_step is s)"
  using assms
proof (induction "is" arbitrary: s)
  case Nil
  then show ?case by simp
next
  case (Cons i "is")
  have i: "i < 1025" using Cons.prems(4) by simp
  note st = unregister_all_step[OF Cons.prems(1,2) i, of H]
  have q: "quiet H (sel_entry s (int i))" using Cons.prems(3) by blast
  have "\<forall>fd. quiet H (sel_entry (quiet_step i s) fd)" using Cons.prems(3) unfolding st(4)[OF q] by (simp add: quiet_def)
  then show ?case using Cons.IH[OF st(2)[OF q] st(3)[OF q]] st(1)[OF q] Cons.prems(4) by simp
qed

lemma fold_quiet_world: "e_world (fold quiet_step is s) = e_world s"
  by (induction "is" arbitrary: s) simp_all

lemma serving_quiet: "quiet (server_handlers os h) (serving_entries f1 f2 fd)"
  by (auto simp: quiet_def serving_entries_def passive_item_def logger_item_def server_handlers_def pam_handlers_def socks5_handlers_def
      pam_closing_def logger_handlers_def no_handler_def)

lemma users_free_spec: "users_ok db \<Longrightarrow> users_free db \<noteq> None"
  using free_nodes_spec by (fastforce simp: users_ok_def users_free_def list_free_def list_ok_def list_rep_def split: option.splits)

text \<open>The end of a server that has only its listening sockets: every descriptor is closed once.\<close>

definition closed_sockets :: "'w os \<Rightarrow> 'w boot \<Rightarrow> 'w \<Rightarrow> 'w" where
  "closed_sockets os b w = (
     let w = (if 0 \<le> bt_server b then os_close os (bt_server b) w else w)
     in if 0 \<le> bt_pamServer b then os_close os (bt_pamServer b) w else w)"

lemma main_finally_spec:
  fixes b :: "'w boot"
  assumes p: "sel_inv (bt_proxy b)" "sel_full (bt_proxy b)" "sel_entry (bt_proxy b) = serving_entries f1 f2" "users_ok (e_users (bt_proxy b))"
    and l: "logQueue (px_log (bt_proxy b)) = None" and sel: "bt_selector b"
  shows "main_finally os h None SELECTOR_SUCCESS b = Some (0, closed_sockets os b (e_world (bt_proxy b)))"
proof -
  obtain x where x: "users_free (e_users (bt_proxy b)) = Some x" using users_free_spec[OF p(4)] by blast
  have fl: "with_log (free_logger os h) (bt_proxy b) = Some (bt_proxy b)"
    using l by (simp add: with_log_def free_logger_def)
  have q: "\<forall>fd. quiet (server_handlers os h) (sel_entry (bt_proxy b) fd)" unfolding p(3) using serving_quiet by blast
  have "unregister_all (server_handlers os h) [0..<fd_size (bt_proxy b)] (bt_proxy b) = Some (fold quiet_step [0..<fd_size (bt_proxy b)] (bt_proxy b))"
    by (rule unregister_all_quiet[OF p(1,2) q]) (use p(2) in \<open>simp add: sel_full_def\<close>)
  then show ?thesis using x fl sel
    by (simp add: main_finally_def finally_log_def selector_destroy_def fold_quiet_world closed_sockets_def Let_def)
qed

text \<open>The whole run: it waits, a signal comes, it writes the log and exits.\<close>

lemma server_stop_spec:
  assumes b: "boots os h opens" and w: "STDOUT_FILENO \<in> opens (os_close os 0 w)" "few (opens (os_close os 0 w)) 2"
    and a: "parse_args opts left_over = Inr args" and us: "new_users (arg_users args) admin_only"
    and ad: "addr_valid os (socks_addr args)" "addr_valid os (mng_addr args)"
    and ps: "list_all idle pss" "idle ps"
  shows "\<exists>b p m. server_main os h None opts left_over (map (Pair None) pss) w = Some (Serving b)
    \<and> log_line os h LOGGER_FATAL 232 (signal_message sig (get_metrics_snapshot (e_metrics (bt_proxy b)))) (bt_proxy b) = Some p
    \<and> pending (px_log p) = keep_last MAX_LOG_QUEUE_SIZE (pending (px_log (bt_proxy b)) @ [m])
    \<and> a_log_line (signal_message sig (get_metrics_snapshot (e_metrics (bt_proxy b)))) m
    \<and> server_main os h None opts left_over (map (Pair None) pss @ (Some sig, ps) # rounds) w
      = Some (Exited 0 (closed_sockets os b (writes h STDOUT_FILENO (pending (px_log p)) (e_world p))))
    \<and> booted (serving_entries (bt_server b) (bt_pamServer b)) (with_users (arg_users args) admin_only) 5 b"
proof -
  obtain b0 where b0: "booted (serving_entries (bt_server b0) (bt_pamServer b0)) (with_users (arg_users args) admin_only) 5 b0"
    "\<And>rounds. server_main os h None opts left_over rounds w = do {
        r \<leftarrow> serve os h rounds b0;
        (case r of Inl (msg, ss, b) \<Rightarrow> ended os h msg ss b | Inr b \<Rightarrow> Some (Serving b))
      }" using server_start_spec[OF b w a us ad] by blast
  obtain b1 where b1: "\<And>rounds. serve os h (map (Pair None) pss @ rounds) b0 = serve os h rounds b1"
    "booted (serving_entries (bt_server b1) (bt_pamServer b1)) (with_users (arg_users args) admin_only) 5 b1"
    using serve_idles[OF b0(1) ps(1)] b0(1) by metis
  let ?p = "bt_proxy b1"
  have ok: "log_ok (px_log ?p)" "logAlwaysIncrementalId (px_log ?p) < 30" using b1(2) by (auto simp: booted_def)
  have lv: "minLogLevel (px_log ?p) \<le> LOGGER_FATAL" using b1(2) by (simp add: booted_def)
  have lf: "logFile (px_log ?p) = STDOUT_FILENO" using b1(2) by (simp add: booted_def)
  obtain p1 m lg where sg: "log_line os h LOGGER_FATAL 232 (signal_message sig (get_metrics_snapshot (e_metrics ?p))) ?p = Some p1"
    "pending (px_log p1) = keep_last MAX_LOG_QUEUE_SIZE (pending (px_log ?p) @ [m])"
    "a_log_line (signal_message sig (get_metrics_snapshot (e_metrics ?p))) m"
    "signal_handler os h sig ?p = Some (?p\<lparr>e_world := writes h STDOUT_FILENO (pending (px_log p1)) (e_world p1), px_log := lg\<rparr>)"
    "logQueue lg = None"
    using signal_handler_spec[OF b ok lv, of sig] lf by (auto simp: closed_file_def)
  define p2 where "p2 = ?p\<lparr>e_world := writes h STDOUT_FILENO (pending (px_log p1)) (e_world p1), px_log := lg\<rparr>"
  have jobs: "resolution_jobs p2 = []" using b1(2) by (simp add: p2_def booted_def)
  let ?b2 = "b1\<lparr>bt_proxy := waited p2\<rparr>"
  have sv: "serve os h ((Some sig, ps) # rounds) b1 = Some (Inl (None, SELECTOR_SUCCESS, ?b2))"
    using sg(4)[folded p2_def] select_idle[OF ps(2) jobs, of "server_handlers os h"] by simp
  have fin: "sel_inv (bt_proxy ?b2)" "sel_full (bt_proxy ?b2)" "sel_entry (bt_proxy ?b2) = serving_entries (bt_server b1) (bt_pamServer b1)"
    "users_ok (e_users (bt_proxy ?b2))" "logQueue (px_log (bt_proxy ?b2)) = None" "bt_selector ?b2"
    using b1(2) sg(5) by (simp_all add: booted_def p2_def)
  have cs: "closed_sockets os ?b2 v = closed_sockets os b1 v" for v by (simp add: closed_sockets_def Let_def)
  have "server_main os h None opts left_over (map (Pair None) pss @ (Some sig, ps) # rounds) w
      = Some (Exited 0 (closed_sockets os b1 (writes h STDOUT_FILENO (pending (px_log p1)) (e_world p1))))"
    unfolding b0(2) b1(1) sv using main_finally_spec[OF fin, of os h] unfolding cs
    by (simp add: ended_def p2_def)
  moreover have "server_main os h None opts left_over (map (Pair None) pss) w = Some (Serving b1)"
    unfolding b0(2) using b1(1)[of "[]"] by simp
  ultimately show ?thesis using sg(1-3) b1(2) by blast
qed

section \<open>The end with a connection open\<close>

lemma unregister_cong:
  assumes "sel_entry s fd = Some it" "it_handler it = Some r" "H r = H' r"
  shows "selector_unregister_fd H fd s = selector_unregister_fd H' fd s"
  using sel_entry_item[OF assms(1)] sel_entry_range[OF assms(1)] assms(2,3) by (simp add: selector_unregister_fd_def)

text \<open>A proxied connection whose descriptors are both registered.\<close>

definition live_conn :: "attachment \<Rightarrow> socks5 \<Rightarrow> 'w proxy \<Rightarrow> bool" where
  "live_conn a c p \<longleftrightarrow> sv_conns p a = Some c \<and> \<not> closed c \<and> stm_ok c \<and> owned a (origin_fd c) p \<and> owned a (client_fd c) p
     \<and> origin_fd c \<noteq> client_fd c \<and> 0 \<le> client_fd c"

lemma unregister_conn_faults:
  fixes p :: "'w proxy"
  assumes "sel_inv p" "sel_full p" "live_conn a c p" "fd = client_fd c \<or> fd = origin_fd c" "sel_entry p fd \<noteq> None"
  shows "selector_unregister_fd (server_handlers os h) fd p = None"
proof -
  obtain it where it: "sel_entry p fd = Some it" using assms(5) by blast
  have l: "sv_conns p a = Some c" "\<not> closed c" "stm_ok c" "owned a (origin_fd c) p" "owned a (client_fd c) p"
    "origin_fd c \<noteq> client_fd c" "0 \<le> client_fd c" using assms(3) by (simp_all add: live_conn_def)
  have own: "owned a fd p" using assms(4) l by blast
  then have h: "it_handler it = Some SOCKS5_HANDLER" using it by (simp add: owned_def)
  have reg: "registry_ok p" using assms(1,2) by simp
  let ?H = "socks5_handlers os (pam_closing (logger_handlers h))"
  have "selector_unregister_fd (server_handlers os h) fd p = selector_unregister_fd ?H fd p"
    by (rule unregister_cong[OF it h]) (simp add: server_handlers_def pam_handlers_def)
  also have "\<dots> = None"
    by (rule unregister_live[OF reg it own l(1-3) assms(4) l(4-7)])
  finally show ?thesis .
qed

lemma unregister_all_faults:
  fixes p :: "'w proxy"
  assumes "sel_inv p" "sel_full p" "live_conn a c p" "int n = client_fd c \<or> int n = origin_fd c" "sel_entry p (int n) \<noteq> None"
    and "\<forall>i. k \<le> i \<and> i < n \<longrightarrow> quiet (server_handlers os h) (sel_entry p (int i))" "k \<le> n"
  shows "unregister_all (server_handlers os h) [k..<1025] p = None"
  using assms
proof (induction "n - k" arbitrary: k p)
  case 0
  then have k: "k = n" by simp
  obtain it where it: "sel_entry p (int n) = Some it" using "0.prems"(5) by blast
  have n: "n < fd_size p" "ITEM_USED (fds p ! n)" using sel_entry_range[OF it] sel_entry_item[OF it] by auto
  then have "n < 1025" using "0.prems"(2) by (simp add: sel_full_def)
  then have "[k..<1025] = n # [Suc n..<1025]" using k by (simp add: upt_conv_Cons)
  then show ?case using n unregister_conn_faults[OF "0.prems"(1-5), where os = os and h = h] by simp
next
  case (Suc d)
  have k: "k < n" using Suc.hyps(2) by simp
  obtain it where it: "sel_entry p (int n) = Some it" using Suc.prems(5) by blast
  have n: "n < 1025" using sel_entry_range[OF it] Suc.prems(2) by (simp add: sel_full_def)
  have q: "quiet (server_handlers os h) (sel_entry p (int k))" using Suc.prems(6) k by simp
  have k': "k < 1025" using k n by simp
  note st = unregister_all_step[OF Suc.prems(1,2) k']
  have own: "owned a (origin_fd c) (quiet_step k p)" "owned a (client_fd c) (quiet_step k p)"
    using Suc.prems(3) unfolding owned_def st(4)[OF q] live_conn_def by (auto simp: owned_def)
  have "live_conn a c (quiet_step k p)" using Suc.prems(3) own by (simp add: live_conn_def)
  moreover have "sel_entry (quiet_step k p) (int n) \<noteq> None" unfolding st(4)[OF q] using k it by simp
  moreover have "\<forall>i. Suc k \<le> i \<and> i < n \<longrightarrow> quiet (server_handlers os h) (sel_entry (quiet_step k p) (int i))"
    unfolding st(4)[OF q] using Suc.prems(6) by (auto simp: quiet_def dest: Suc_leD)
  moreover have "d = n - Suc k" using Suc.hyps(2) by simp
  ultimately have "unregister_all (server_handlers os h) [Suc k..<1025] (quiet_step k p) = None"
    using Suc.hyps(1)[of "Suc k" "quiet_step k p"] st(2)[OF q] st(3)[OF q] Suc.prems(4) k by simp
  then show ?case using st(1)[OF q] k' by (simp add: upt_conv_Cons)
qed

lemma shutdown_spec:
  fixes b :: "'w boot"
  assumes p: "sel_inv (bt_proxy b)" "sel_full (bt_proxy b)" "live_conn a c (bt_proxy b)"
      "fd = client_fd c \<or> fd = origin_fd c" "sel_entry (bt_proxy b) fd \<noteq> None"
    and q: "\<forall>fd'. 0 \<le> fd' \<and> fd' < fd \<longrightarrow> quiet (server_handlers os h) (sel_entry (bt_proxy b) fd')"
    and l: "logQueue (px_log (bt_proxy b)) = None" and sel: "bt_selector b"
  shows "main_finally os h None SELECTOR_SUCCESS b = None"
proof -
  let ?n = "nat fd"
  have n: "int ?n = fd" using p(5) sel_entry_range[of "bt_proxy b" fd] by auto
  have "unregister_all (server_handlers os h) [0..<1025] (bt_proxy b) = None"
    by (rule unregister_all_faults[where n = ?n, OF p(1-3)]) (use n p(4,5) q in auto)
  moreover have "fd_size (bt_proxy b) = 1025" using p(2) by (simp add: sel_full_def)
  moreover have "with_log (free_logger os h) (bt_proxy b) = Some (bt_proxy b)" using l by (simp add: with_log_def free_logger_def)
  ultimately show ?thesis using sel
    by (simp add: main_finally_def finally_log_def selector_destroy_def)
qed

section \<open>An address that is none\<close>

text \<open>The error of \<open>interpret_socket_args\<close> is lost in an unsigned variable: \<open>bind\<close> is called with it.\<close>

lemma bad_address_spec:
  assumes b: "boots os h opens" and bt: "booted en us n b" "n < 20"
    and a: "c_strchr 58 a = None" "os_pton os AF_INET a = PtonBad"
    and fw: "few (opens (e_world (bt_proxy b))) 1" and l: "fst (ls_starting ls) < 1000"
    and set: "\<And>fd c. bt_proxy (set_fd fd c) = bt_proxy c"
    and bind: "\<And>fd w. fst (pt_bind h fd (Sin (htons port) [0, 0, 0, 0]) (- 1) w) = SysErr e"
  shows "\<exists>c. open_listener os h ls set_fd a port b = Some (Inl (ls_bind ls, SELECTOR_SUCCESS, c))"
proof -
  note D = bootsD[OF b]
  let ?p = "bt_proxy b"
  have ok: "log_ok (px_log ?p)" "logAlwaysIncrementalId (px_log ?p) < 30" using bt by (auto simp: booted_def)
  obtain w0 lg0 where g: "log_line os h LOGGER_FATAL 260 (ascii ''Invalid IPv4 address: '' @ a) ?p = Some (?p\<lparr>e_world := w0, px_log := lg0\<rparr>)"
    "log_more 1 (px_log ?p) lg0" "opens w0 = opens (e_world ?p)"
    using log_line_spec[OF b ok, of 260 LOGGER_FATAL "ascii ''Invalid IPv4 address: '' @ a"] by auto
  let ?b0 = "b\<lparr>bt_proxy := ?p\<lparr>e_world := w0, px_log := lg0\<rparr>\<rparr>"
  have r4: "replicate 4 (0 :: byte) = [0, 0, 0, 0]" by (simp add: numeral_eq_Suc)
  have ad: "interpret_socket_args os h a port ?p = Some (- 1, Sin (htons port) [0, 0, 0, 0], ?p\<lparr>e_world := w0, px_log := lg0\<rparr>)"
    using a g(1) by (simp add: interpret_socket_args_def r4)
  have b0: "booted en us (n + 1) ?b0" by (rule booted_log[OF bt(1) g(2)])
  obtain p1 where p1: "log_stage os h LOGGER_DEBUG (ls_starting ls) ?b0 = Some (?b0\<lparr>bt_proxy := p1\<rparr>)"
    "opens (e_world p1) = opens w0"
    using log_stage_spec[OF b b0 _ l, of LOGGER_DEBUG] bt(2) by auto
  obtain fd w2 where so: "os_socket os AF_INET SOCK_STREAM IPPROTO_TCP (e_world p1) = (SysOk fd, w2)"
    using D(9)[OF fw[folded g(3), folded p1(2)]] by blast
  obtain w3 where w3: "pt_bind h fd (Sin (htons port) [0, 0, 0, 0]) (- 1) (pt_reuseaddr h fd w2) = (SysErr e, w3)"
    using bind[of fd "pt_reuseaddr h fd w2"] by (metis prod.collapse)
  show ?thesis unfolding open_listener_def ad using p1(1) so w3 by (simp add: fail_def)
qed

end
