(* ===== verification/Rounds.thy ===== *)
theory Rounds
  imports ServerEnd Calm
begin

text \<open>
  Rounds of the main loop in which one descriptor is ready: the loop over the table calls the one
  handler that waits for it. For a proxied connection that is one event of its machine.
\<close>

section \<open>The loop over the table\<close>

definition polled :: "int set \<Rightarrow> int set \<Rightarrow> ('h, 'd, 'm) fdselector_scheme \<Rightarrow> ('h, 'd, 'm) fdselector_scheme" where
  "polled r w s = s\<lparr>slave_r := r, slave_w := w\<rparr>"

lemma polled_simps [simp]:
  "sel_entry (polled r w s) = sel_entry s" "sel_inv (polled r w s) = sel_inv s" "sel_full (polled r w s) = sel_full s"
  "slave_r (polled r w s) = r" "slave_w (polled r w s) = w" "resolution_jobs (polled r w s) = resolution_jobs s"
  "max_fd (polled r w s) = max_fd s" "fds (polled r w s) = fds s"
  by (simp_all add: polled_def fun_eq_iff sel_inv_def sel_full_def items_ok_def max_ok_def wants_def sel_entry_def)

lemma full_size: "sel_full s \<Longrightarrow> fd_size s = 1025"
  by (simp add: sel_full_def)

lemma body_idle:
  assumes s: "sel_inv s" "sel_full s" "i < 1025" and n: "int i \<notin> slave_r s" "int i \<notin> slave_w s"
  shows "iteration_body H i s = Some s"
proof (cases "ITEM_USED (fds s ! i)")
  case True
  have e: "sel_entry s (int i) = Some (fds s ! i)" using True s(2,3) by (simp add: sel_entry_def sel_full_def)
  have v: "it_fd (fds s ! i) = int i" "int i < 1024" using entry_valid[OF s(1) e] by simp_all
  show ?thesis using True v n s(2,3)
    by (simp add: iteration_body_def nth_opt_def sel_full_def FD_ISSET_def dispatch_def)
qed (use s in \<open>simp add: iteration_body_def nth_opt_def sel_full_def\<close>)

lemma iterate_idle:
  assumes "sel_inv s" "sel_full s" "\<forall>i \<in> set is. i < 1025 \<and> int i \<notin> slave_r s \<and> int i \<notin> slave_w s"
  shows "iterate H is s = Some s"
  using assms by (induction "is") (simp_all add: body_idle)

lemma iterate_append: "iterate H (xs @ ys) s = Option.bind (iterate H xs s) (iterate H ys)"
  by (induction xs arbitrary: s) (auto split: Option.bind_split)

lemma body_read:
  assumes s: "sel_inv s" "sel_entry s fd = Some it" and r: "fd \<in> slave_r s" "OP_READ AND it_interest it \<noteq> 0"
    and h: "it_handler it = Some x" "handle_read (H x) = Some f" "f \<lparr>k_fd = fd, k_data = it_data it\<rparr> s = Some (k, s')"
    and s': "sel_full s'" "fd \<notin> slave_w s'"
  shows "iteration_body H (nat fd) s = Some s'"
proof -
  have v: "0 \<le> fd" "fd < 1024" "it_fd it = fd" "nat fd < fd_size s" "fds s ! nat fd = it" "ITEM_USED it"
    using entry_valid[OF s] sel_entry_item[OF s(2)] by auto
  have z: "nat fd < fd_size s'" using v(2) full_size[OF s'(1)] by simp
  show ?thesis using v z r h s'(2)
    by (simp add: iteration_body_def nth_opt_def FD_ISSET_def dispatch_def)
qed

lemma body_write:
  assumes s: "sel_inv s" "sel_entry s fd = Some it" and r: "fd \<notin> slave_r s" "fd \<in> slave_w s" "OP_WRITE AND it_interest it \<noteq> 0"
    and h: "it_handler it = Some x" "handle_write (H x) = Some f" "f \<lparr>k_fd = fd, k_data = it_data it\<rparr> s = Some (k, s')"
  shows "iteration_body H (nat fd) s = Some s'"
proof -
  have v: "0 \<le> fd" "fd < 1024" "it_fd it = fd" "nat fd < fd_size s" "fds s ! nat fd = it" "ITEM_USED it"
    using entry_valid[OF s] sel_entry_item[OF s(2)] by auto
  then show ?thesis using r h by (simp add: iteration_body_def nth_opt_def FD_ISSET_def dispatch_def)
qed

text \<open>Only one descriptor is in the sets: the others are passed over.\<close>

lemma iteration_one:
  assumes s: "sel_inv s" "sel_full s" "sel_entry s fd = Some it" and one: "slave_r s \<union> slave_w s \<subseteq> {fd}"
    and b: "iteration_body H (nat fd) s = Some s'"
    and s': "sel_inv s'" "sel_full s'" "slave_r s' \<union> slave_w s' \<subseteq> {fd}"
  shows "handle_iteration H s = Some s'"
proof -
  have v: "0 \<le> fd" "fd < 1024" using entry_valid[OF s(1,3)] by simp_all
  have m: "fd \<le> max_fd s" "max_fd s < 1025" using s full_size[OF s(2)] by (auto simp: sel_inv_def max_ok_def)
  have split: "[0..<nat (max_fd s + 1)] = [0..<nat fd] @ nat fd # [Suc (nat fd)..<nat (max_fd s + 1)]"
  proof -
    have "nat fd < nat (max_fd s + 1)" using v m by simp
    then show ?thesis by (metis le0 less_imp_le_nat upt_add_eq_append upt_conv_Cons le_add_diff_inverse add_0)
  qed
  have a: "iterate H [0..<nat fd] s = Some s"
    by (rule iterate_idle[OF s(1,2)]) (use one v in \<open>auto simp: nat_less_iff\<close>)
  have c: "iterate H [Suc (nat fd)..<nat (max_fd s + 1)] s' = Some s'"
    by (rule iterate_idle[OF s'(1,2)]) (use s'(3) v m in \<open>auto simp: nat_less_iff\<close>)
  show ?thesis unfolding handle_iteration_def split iterate_append using a b c by simp
qed

lemma select_ready:
  assumes "handle_iteration H (polled r w s) = Some s'" "resolution_jobs s' = []"
  shows "selector_select H (PS_READY r w) s = Some (SELECTOR_SUCCESS, s')"
proof -
  have "s\<lparr>slave_r := master_r s, slave_w := master_w s, slave_r := r, slave_w := w\<rparr> = polled r w s" by (simp add: polled_def)
  then show ?thesis using assms by (simp add: selector_select_def handle_block_notifications_def)
qed

lemma select_read:
  assumes s: "sel_inv s" "sel_full s" "sel_entry s fd = Some it" and r: "OP_READ AND it_interest it \<noteq> 0"
    and h: "it_handler it = Some x" "handle_read (H x) = Some f" "f \<lparr>k_fd = fd, k_data = it_data it\<rparr> (polled {fd} {} s) = Some (k, s')"
    and s': "sel_inv s'" "sel_full s'" "slave_r s' = {fd}" "slave_w s' = {}" "resolution_jobs s' = []"
  shows "selector_select H (PS_READY {fd} {}) s = Some (SELECTOR_SUCCESS, s')"
proof -
  have "iteration_body H (nat fd) (polled {fd} {} s) = Some s'"
    by (rule body_read[where it = it and x = x and f = f and k = k]) (use s s' r h in simp_all)
  then show ?thesis by (intro select_ready[OF iteration_one[where it = it]]) (use s s' in simp_all)
qed

lemma select_write:
  assumes s: "sel_inv s" "sel_full s" "sel_entry s fd = Some it" and r: "OP_WRITE AND it_interest it \<noteq> 0"
    and h: "it_handler it = Some x" "handle_write (H x) = Some f" "f \<lparr>k_fd = fd, k_data = it_data it\<rparr> (polled {} {fd} s) = Some (k, s')"
    and s': "sel_inv s'" "sel_full s'" "slave_r s' = {}" "slave_w s' = {fd}" "resolution_jobs s' = []"
  shows "selector_select H (PS_READY {} {fd}) s = Some (SELECTOR_SUCCESS, s')"
proof -
  have "iteration_body H (nat fd) (polled {} {fd} s) = Some s'"
    by (rule body_write[where it = it and x = x and f = f and k = k]) (use s s' r h in simp_all)
  then show ?thesis by (intro select_ready[OF iteration_one[where it = it]]) (use s s' in simp_all)
qed

section \<open>An event of a connection\<close>

text \<open>What \<open>pselect\<close> answers when one descriptor is ready, and the bit of the interest in that.\<close>

definition ready :: "stm_event \<Rightarrow> int \<Rightarrow> pselect_result" where
  "ready ev fd = (if ev = Ev_read then PS_READY {fd} {} else PS_READY {} {fd})"

definition awaits :: "stm_event \<Rightarrow> fd_interest \<Rightarrow> bool" where
  "awaits ev i \<longleftrightarrow> (if ev = Ev_read then OP_READ AND i \<noteq> 0 else ev = Ev_write \<and> OP_WRITE AND i \<noteq> 0)"

definition seen :: "stm_event \<Rightarrow> int \<Rightarrow> 'w proxy \<Rightarrow> 'w proxy" where
  "seen ev fd p = (if ev = Ev_read then polled {fd} {} p else polled {} {fd} p)"

lemma awaits_simps [simp]: "awaits Ev_read OP_READ" "awaits Ev_write OP_WRITE"
  by (simp_all add: awaits_def)

lemma more_fields:
  assumes "env.more (e :: 'w proxy) = env.more p"
  shows "sv_conns e = sv_conns p" "sv_next e = sv_next p" "pm_conns e = pm_conns p" "pm_next e = pm_next p" "px_log e = px_log p"
  using assms by (cases e; cases p; simp)+

lemma seen_simps [simp]:
  "sel_entry (seen ev fd p) = sel_entry p" "sel_inv (seen ev fd p) = sel_inv p" "sel_full (seen ev fd p) = sel_full p"
  "env_ok (seen ev fd p) = env_ok p" "e_users (seen ev fd p) = e_users p" "e_world (seen ev fd p) = e_world p"
  "e_metrics (seen ev fd p) = e_metrics p" "e_calls (seen ev fd p) = e_calls p" "sv_conns (seen ev fd p) = sv_conns p" "sv_next (seen ev fd p) = sv_next p"
  "pm_conns (seen ev fd p) = pm_conns p" "px_log (seen ev fd p) = px_log p" "resolution_jobs (seen ev fd p) = resolution_jobs p"
  by (simp_all add: seen_def env_ok_def) (simp_all add: polled_def)

lemma round_handler:
  assumes s: "sel_inv p" "sel_full p" "sel_entry p fd = Some it" "awaits ev (it_interest it)" "it_handler it = Some x"
    and h: "(if ev = Ev_read then handle_read (H x) else handle_write (H x)) = Some f"
      "f \<lparr>k_fd = fd, k_data = it_data it\<rparr> (seen ev fd p) = Some (k, p')"
    and p': "sel_inv p'" "sel_full p'" "slave_r p' = slave_r (seen ev fd p)" "slave_w p' = slave_w (seen ev fd p)" "resolution_jobs p' = []"
  shows "selector_select H (ready ev fd) p = Some (SELECTOR_SUCCESS, p')"
proof (cases "ev = Ev_read")
  case True
  then have a: "OP_READ AND it_interest it \<noteq> 0" "handle_read (H x) = Some f" "f \<lparr>k_fd = fd, k_data = it_data it\<rparr> (polled {fd} {} p) = Some (k, p')"
    using s(4) h by (simp_all add: awaits_def seen_def)
  show ?thesis unfolding ready_def using select_read[of p fd it x H f k p'] s a p' True by (simp add: seen_def)
next
  case False
  then have a: "OP_WRITE AND it_interest it \<noteq> 0" "handle_write (H x) = Some f" "f \<lparr>k_fd = fd, k_data = it_data it\<rparr> (polled {} {fd} p) = Some (k, p')"
    using s(4) h by (simp_all add: awaits_def seen_def)
  show ?thesis unfolding ready_def using select_write[of p fd it x H f k p'] s a p' False by (simp add: seen_def)
qed

lemma round_event:
  assumes p: "sel_inv p" "sel_full p" "sel_entry p fd = Some it" "awaits ev (it_interest it)"
      "it_handler it = Some SOCKS5_HANDLER" "it_data it = Some a" "resolution_jobs p = []" "sv_conns p a = Some c"
    and step: "machine_step os ev \<lparr>k_fd = fd, k_data = Some a\<rparr> (stm c) (c, seen ev fd p) = Some (q, m, c', e)"
      "q \<noteq> ERROR" "q \<noteq> DONE" "sel_inv e" "sel_full e"
  shows "selector_select (server_handlers os h) (ready ev fd) p
      = Some (SELECTOR_SUCCESS, e\<lparr>sv_conns := (sv_conns p)(a \<mapsto> c'\<lparr>stm := m\<rparr>)\<rparr>)"
    "calm e = calm (seen ev fd p)"
proof -
  let ?key = "\<lparr>k_fd = fd, k_data = Some a\<rparr>" and ?p' = "e\<lparr>sv_conns := (sv_conns p)(a \<mapsto> c'\<lparr>stm := m\<rparr>)\<rparr>"
  show calm: "calm e = calm (seen ev fd p)" by (rule calm_machine[OF step(1)])
  then have more: "sv_conns e = sv_conns p" using more_fields[of e "seen ev fd p"] by (simp add: calm_def)
  have att: "ATTACHMENT ?key (seen ev fd p) = Some c" using p(8) by (simp add: ATTACHMENT_def)
  have put: "after_event os oth ?key (q, m, c', e) = Some (?key, ?p')" for oth
    using step(2,3) more by (simp add: after_event_def put_conn_def)
  obtain oth where H: "server_handlers os h SOCKS5_HANDLER = socks5_handlers os oth SOCKS5_HANDLER"
    by (auto simp: server_handlers_def pam_handlers_def)
  have "ev = Ev_read \<or> ev = Ev_write" using p(4) by (auto simp: awaits_def split: if_splits)
  then show "selector_select (server_handlers os h) (ready ev fd) p = Some (SELECTOR_SUCCESS, ?p')"
  proof
    assume ev: "ev = Ev_read"
    have "socksv5_read os oth ?key (seen ev fd p) = Some (?key, ?p')"
      using att step(1) ev put by (simp add: socksv5_read_def machine_step_def)
    then show ?thesis
      by (intro round_handler[OF p(1-5), where f = "socksv5_read os oth" and k = ?key])
        (use H ev p calm step(4,5) in \<open>simp_all add: socks5_handlers_def calm_def\<close>)
  next
    assume ev: "ev = Ev_write"
    have "socksv5_write os oth ?key (seen ev fd p) = Some (?key, ?p')"
      using att step(1) ev put by (simp add: socksv5_write_def machine_step_def)
    then show ?thesis
      by (intro round_handler[OF p(1-5), where f = "socksv5_write os oth" and k = ?key])
        (use H ev p calm step(4,5) in \<open>simp_all add: socks5_handlers_def calm_def\<close>)
  qed
qed

text \<open>The invariant of a machine looks at the environment only through \<open>env_ok\<close>, and at no state of the machine in the record.\<close>

lemma minv_env:
  assumes "env_ok e' = env_ok e"
  shows "machine.minv os m (c\<lparr>stm := x\<rparr>, e') = machine.minv os m (c, e)"
proof -
  have g: "good os (c\<lparr>stm := x\<rparr>) e' = good os c e" "drained (c\<lparr>stm := x\<rparr>) = drained c" "copy_ok (c\<lparr>stm := x\<rparr>) = copy_ok c"
    using assms by (simp_all add: good_def conn_ok_def bufs_ok_def arrays_ok_def drained_def copy_ok_def copies_ok_def)
  have "state_pre os q (c\<lparr>stm := x\<rparr>, e') = state_pre os q (c, e)" "state_inv os q (c\<lparr>stm := x\<rparr>, e') = state_inv os q (c, e)" for q
    using assms by (simp_all add: state_pre_def state_inv_def g)
  then show ?thesis by (simp add: machine.minv_def split: option.splits)
qed

lemma step_current: "machine_step os ev key m s = Some (q, m', s') \<Longrightarrow> current m' = Some q"
  unfolding step_eq by (auto simp: stm_handler_def jump_def split: if_splits elim!: bind_SomeE)

lemma minv_envD: "machine.minv os m (c, e) \<Longrightarrow> current m = Some q \<Longrightarrow> q \<noteq> DONE \<Longrightarrow> q \<noteq> ERROR \<Longrightarrow> env_ok e"
  by (auto simp: machine.minv_def state_inv_def good_def split: if_splits)

text \<open>What a step from the state \<open>s\<close> to \<open>q\<close> tells the log: nothing, or one line of the access log.\<close>

definition tells :: "nat \<Rightarrow> nat \<Rightarrow> ('w, 'm) env_scheme \<Rightarrow> ('w, 'm) env_scheme \<Rightarrow> bool" where
  "tells s q e e' \<longleftrightarrow> e_calls e' = e_calls e \<or> s = CONNECT \<and> q = REPLY \<and> (\<exists>line. e_calls e' = e_calls e @ [Log_access line])"

lemma event_round:
  assumes p: "env_ok p" "resolution_jobs p = []" "sel_entry p fd = Some it" "awaits ev (it_interest it)"
      "it_handler it = Some SOCKS5_HANDLER" "it_data it = Some a" "sv_conns p a = Some c" "machine.minv os (stm c) (c, p)"
    and step: "machine_step os ev \<lparr>k_fd = fd, k_data = Some a\<rparr> (stm c) (c, seen ev fd p) = Some (q, m, c', e)" "q \<noteq> ERROR" "q \<noteq> DONE"
  shows "\<exists>p'. selector_select (server_handlers os h) (ready ev fd) p = Some (SELECTOR_SUCCESS, p')
    \<and> sv_conns p' = (sv_conns p)(a \<mapsto> c'\<lparr>stm := m\<rparr>) \<and> pm_conns p' = pm_conns p \<and> px_log p' = px_log p
    \<and> sel_entry p' = sel_entry e \<and> e_world p' = e_world e \<and> e_users p' = e_users e \<and> e_metrics p' = e_metrics e
    \<and> env_ok p' \<and> resolution_jobs p' = [] \<and> machine.minv os m (c'\<lparr>stm := m\<rparr>, p') \<and> tells (phase (stm c)) q p p'"
proof -
  let ?p' = "e\<lparr>sv_conns := (sv_conns p)(a \<mapsto> c'\<lparr>stm := m\<rparr>)\<rparr>"
  have "machine.minv os (stm c) (c\<lparr>stm := stm c\<rparr>, seen ev fd p)" using p(8) minv_env[where e' = "seen ev fd p" and e = p and os = os and m = "stm c" and c = c and x = "stm c"] by simp
  then have i: "machine.minv os m (c', e)" using machine_step_inv[OF step(1)] by simp
  have e: "env_ok e" by (rule minv_envD[OF i step_current[OF step(1)] step(3,2)])
  have s: "sel_inv p" "sel_full p" "sel_inv e" "sel_full e" using p(1) e by (simp_all add: env_ok_def)
  note R = round_event(1)[OF s(1,2) p(3-6,2,7) step s(3,4), where h = h] round_event(2)[OF s(1,2) p(3-6,2,7) step s(3,4)]
  have "pm_conns e = pm_conns p" "px_log e = px_log p" "resolution_jobs e = []"
    using R(2) p(2) more_fields[of e "seen ev fd p"] by (simp_all add: calm_def)
  moreover have "env_ok ?p'" using e by (simp add: env_ok_def)
  moreover have "tells (phase (stm c)) q p ?p'" using modest_machine[OF step(1)] by (simp add: modest_def tells_def)
  ultimately show ?thesis using R(1) i e minv_env[where e' = ?p' and e = e and os = os and m = m and c = c' and x = m] by (intro exI[of _ ?p']) (simp add: fun_eq_iff)
qed

end
