(* ===== verification/Ledger.thy ===== *)
theory Ledger
  imports PamTable Rounds
begin

text \<open>
  Who owns which descriptor, over the whole server: every registered descriptor of the proxy belongs
  to one connection that is alive and names it, every registered descriptor is open, and no
  descriptor has two owners. The invariant is kept by every round of the main loop, whatever is ready
  and however the system answers, and by the threads that resolve names.
\<close>

section \<open>The states of a connection\<close>

definition placed :: "('w \<Rightarrow> int set) \<Rightarrow> nat \<Rightarrow> 'm outside \<Rightarrow> nat \<Rightarrow> socks5 \<Rightarrow> ('w, 'm) env_scheme \<Rightarrow> bool" where
  "placed opn a X q c e \<longleftrightarrow> (bare opn X c e \<or> linked opn a X c e)
     \<and> (q \<in> {GREETING, AUTH, REQUEST} \<longrightarrow> bare opn X c e) \<and> (q = CONNECT \<longrightarrow> linked opn a X c e)
     \<and> (q = REPLY \<longrightarrow> (\<forall>x. client c = U_reply x \<longrightarrow> rep x \<noteq> SUCCEDED \<longrightarrow> bare opn X c e))"

lemma placed_still:
  assumes "placed opn a X q c e" "still opn e e'" "ends c' = ends c"
    and "q = REPLY \<Longrightarrow> (\<And>x'. client c' = U_reply x' \<Longrightarrow> \<exists>x. client c = U_reply x \<and> rep x = rep x')"
  shows "placed opn a X q c' e'"
  using assms still_keeps[OF assms(2,3)] unfolding placed_def by metis

lemma placed_bare: "bare opn X c e \<Longrightarrow> q \<noteq> CONNECT \<Longrightarrow> placed opn a X q c e"
  by (simp add: placed_def)

lemma placed_arrival:
  assumes T: "fd_table os opn" and p: "placed opn a X q c e" "q < 8"
    and r: "run_hook (on_arrival (socks5States os ! q)) n key (c, e) = Some (c', e')"
  shows "placed opn a X q c' e'"
proof -
  have "still opn e e' \<and> ends c' = ends c \<and> (q = REPLY \<longrightarrow> (\<forall>x'. client c' = U_reply x' \<longrightarrow> (\<exists>x. client c = U_reply x \<and> rep x = rep x')))"
    using r p(2) still_reply_arrival[OF T, of n key c e c' e'] still_copy_arrival[of n key c e c' e' opn]
    by (auto simp: states_arrival run_hook_def greeting_arrival_def auth_arrival_def request_arrival_def Let_def split: if_splits)
  then show ?thesis by (intro placed_still[OF p(1)]) auto
qed

lemma placed_handler:
  assumes T: "fd_table os opn" and key: "k_data key = Some a" and p: "placed opn a X q c e" "q < 8"
    and h: "ready_handler ev (socks5States os ! q) = Some f" "f key (c, e) = Some (r, c', e')"
  shows "placed opn a X r c' e'"
proof -
  have early: "placed opn a X r c' e'" if "q \<in> {GREETING, AUTH}" "still opn e e' \<and> ends c' = ends c \<and> r \<noteq> CONNECT"
    using that p(1) still_keeps(1)[of opn e e' c' c X] placed_bare[of opn X c' e' r a] by (auto simp: placed_def)
  have asked: "placed opn a X r c' e'" if "asked opn a X r c' e'"
    using that by (auto simp: asked_def placed_def split: if_splits)
  have "bare opn X c e" if "q = REQUEST" using p(1) that by (simp add: placed_def)
  note req = this
  consider "q = GREETING" | "q = AUTH" | "q = REQUEST" | "q = CONNECT" | "q = REPLY" | "q = COPY"
    using h(1) p(2) unfolding eight by (cases ev) (auto simp: ready_handler_def states_read states_write states_block)
  then show ?thesis
  proof cases
    case 1
    then have "f = greeting_read os \<or> f = greeting_write os" using h(1) by (cases ev) (auto simp: ready_handler_def states_read states_write states_block)
    then have w: "still opn e e' \<and> ends c' = ends c \<and> r \<noteq> CONNECT" using h(2) still_greeting_read[OF T] still_greeting_write[OF T] by blast
    show ?thesis by (rule early[OF _ w]) (use 1 in simp)
  next
    case 2
    then have "f = auth_read os \<or> f = auth_write os" using h(1) by (cases ev) (auto simp: ready_handler_def states_read states_write states_block)
    then have w: "still opn e e' \<and> ends c' = ends c \<and> r \<noteq> CONNECT" using h(2) still_auth_read[OF T] still_auth_write[OF T] by blast
    show ?thesis by (rule early[OF _ w]) (use 2 in simp)
  next
    case 3
    then have "f = request_read os \<or> f = connect_to_dest os"
      using h(1) by (cases ev) (auto simp: ready_handler_def states_read states_write states_block request_block_def fun_eq_iff)
    then show ?thesis
      using h(2) request_read_ledger[OF T key req[OF 3]] connect_ledger[OF T key req[OF 3]]
      by (intro asked) (auto simp: asked_def split: if_splits)
  next
    case 4
    then have f: "f = connect_write os" using h(1) by (cases ev) (auto simp: ready_handler_def states_read states_write states_block)
    have "linked opn a X c e" using p(1) 4 by (simp add: placed_def)
    from connect_write_ledger[OF T key this h(2)[unfolded f]] show ?thesis
      by (auto simp: placed_def split: if_splits)
  next
    case 5
    then have f: "f = reply_write os" using h(1) by (cases ev) (auto simp: ready_handler_def states_read states_write states_block)
    note w = still_reply_write[OF T h(2)[unfolded f]]
    have k: "bare opn X c e \<Longrightarrow> bare opn X c' e'" "linked opn a X c e \<Longrightarrow> linked opn a X c' e'"
      using still_keeps[of opn e e' c' c] w by blast+
    have h: "bare opn X c' e' \<or> linked opn a X c' e'" using p(1) k unfolding placed_def by blast
    have b: "bare opn X c' e'" if "client c' = U_reply x" "rep x \<noteq> SUCCEDED" for x
    proof (rule k(1))
      have "client c = U_reply x" using w that(1) by simp
      then show "bare opn X c e" using p(1) 5 that(2) by (simp add: placed_def)
    qed
    have "bare opn X c' e'" if "r = REQUEST" using b w that by auto
    then show ?thesis using h b w unfolding placed_def by auto
  next
    case 6
    then have f: "f = socksv5_copy_read os \<or> f = socksv5_copy_write os" using h(1) by (cases ev) (auto simp: ready_handler_def states_read states_write states_block)
    then have w: "still opn e e' \<and> ends c' = ends c \<and> r \<in> {COPY, DONE, ERROR}"
      using h(2) still_copy_read[OF T] still_copy_write[OF T] by blast
    have "bare opn X c' e' \<or> linked opn a X c' e'" using p(1) w still_keeps[of opn e e' c' c] unfolding placed_def by blast
    then show ?thesis using w unfolding placed_def by auto
  qed
qed

definition state_of :: "state_machine \<Rightarrow> nat" where
  "state_of m = (case current m of None \<Rightarrow> GREETING | Some q \<Rightarrow> q)"

definition table_ok :: "state_machine \<Rightarrow> bool" where
  "table_ok m \<longleftrightarrow> initial m = GREETING \<and> max_state m = ERROR \<and> state_of m < 8"

lemma machine_ledger:
  assumes T: "fd_table os opn" and key: "k_data key = Some a" and p: "placed opn a X (state_of m) c e" "table_ok m"
    and r: "machine_step os ev key m (c, e) = Some (q, m', c', e')"
  shows "placed opn a X q c' e' \<and> table_ok m' \<and> state_of m' = q"
proof -
  obtain m1 c1 e1 s d h t c2 e2 where 1: "handle_first (socks5States os) key m (c, e) = Some (m1, c1, e1)" "current m1 = Some s"
    "nth_opt (socks5States os) s = Some d" "ready_handler ev d = Some h" "h key (c1, e1) = Some (t, c2, e2)"
    "jump (socks5States os) t key m1 (c2, e2) = Some (m', c', e')" "q = t"
    using r unfolding step_eq by (auto simp: stm_handler_def elim!: bind_SomeE)
  have f: "s = state_of m \<and> initial m1 = GREETING \<and> max_state m1 = ERROR \<and> placed opn a X s c1 e1"
    using 1(1,2) p placed_arrival[OF T, of a X GREETING c e]
    by (auto simp: handle_first_def state_of_def table_ok_def split: option.splits elim!: bind_SomeE dest!: states_range)
  have h: "placed opn a X t c2 e2"
  proof (rule placed_handler[OF T key])
    show "placed opn a X s c1 e1" using f by (elim conjE)
    show "s < 8" "ready_handler ev (socks5States os ! s) = Some h" using states_range[OF 1(3)] 1(4) by simp_all
  qed (rule 1(5))
  show ?thesis
  proof (cases "t = s")
    case True
    then show ?thesis using 1(2,6,7) h f p(2) by (auto simp: jump_def table_ok_def state_of_def elim!: bind_SomeE)
  next
    case False
    then obtain d' where j: "nth_opt (socks5States os) t = Some d'" "run_hook (on_arrival d') (sd_state d') key (c2, e2) = Some (c', e')"
      "m' = m1\<lparr>current := Some t\<rparr>"
      using 1(2,3,6) by (auto simp: jump_def elim!: bind_SomeE dest!: departure_same[OF 1(3)])
    then show ?thesis using placed_arrival[OF T h, of "sd_state d'" key c' e'] states_range[OF j(1)] f 1(7)
      by (simp add: table_ok_def state_of_def)
  qed
qed

section \<open>The management connections\<close>

lemma still_trans: "still opn e e1 \<Longrightarrow> still opn e1 e2 \<Longrightarrow> still opn e e2"
  by (auto simp: still_def)

lemma pam_states:
  "nth_opt (pamStates os) q = Some d \<Longrightarrow> on_departure d = None
    \<and> (on_arrival d = None \<or> on_arrival d = Some pam_auth_arrival \<or> on_arrival d = Some pam_request_arrival)
    \<and> on_read_ready d \<in> {None, Some (pam_auth_read os), Some (pam_request_read os)}
    \<and> on_write_ready d \<in> {None, Some (pam_auth_write os), Some (pam_request_write os)}"
  by (auto simp: pamStates_def nth_opt_def plain_state_def less_Suc_eq split: if_splits)

lemma pam_arrival:
  assumes "nth_opt (pamStates os) q = Some d" "run_hook (on_arrival d) n key (c, e) = Some (c', e')"
  shows "e' = e \<and> pm_client_fd c' = pm_client_fd c"
  using pam_states[OF assms(1)] assms(2) by (auto simp: run_hook_def pam_auth_arrival_def pam_request_arrival_def)

lemma pam_machine_ledger:
  assumes T: "fd_table os opn" and r: "stm_handler sel (pamStates os) key m (c, e) = Some (q, m', c', e')"
    and sel: "sel = on_read_ready \<or> sel = on_write_ready"
  shows "still opn e e' \<and> pm_client_fd c' = pm_client_fd c"
proof -
  obtain m1 c1 e1 s d h c2 e2 where 1: "handle_first (pamStates os) key m (c, e) = Some (m1, c1, e1)" "nth_opt (pamStates os) s = Some d"
    "sel d = Some h" "h key (c1, e1) = Some (q, c2, e2)" "jump (pamStates os) q key m1 (c2, e2) = Some (m', c', e')"
    using r by (auto simp: stm_handler_def elim!: bind_SomeE)
  have a: "e1 = e \<and> pm_client_fd c1 = pm_client_fd c"
    using 1(1) by (auto simp: handle_first_def split: option.splits elim!: bind_SomeE dest: pam_arrival)
  have "h \<in> {pam_auth_read os, pam_request_read os, pam_auth_write os, pam_request_write os}"
    using pam_states[OF 1(2)] sel 1(3) by auto
  then have b: "still opn e1 e2 \<and> pm_client_fd c2 = pm_client_fd c1"
    using 1(4) by (auto dest: still_pam_auth_read[OF T] still_pam_request_read[OF T] still_pam_auth_write[OF T] still_pam_request_write[OF T])
  have "e' = e2 \<and> pm_client_fd c' = pm_client_fd c2"
  proof (cases "current m1 = Some q")
    case False
    have dep: "s1 = (c2, e2)" if "nth_opt (pamStates os) t = Some x" "run_hook (on_departure x) n key (c2, e2) = Some s1" for t x n s1
      using pam_states[OF that(1)] that(2) by (simp add: run_hook_def)
    obtain x where "nth_opt (pamStates os) q = Some x" "run_hook (on_arrival x) (sd_state x) key (c2, e2) = Some (c', e')"
      using 1(5) False dep by (auto simp: jump_def split: option.splits elim!: bind_SomeE) (metis prod.inject)+
    then show ?thesis by (rule pam_arrival)
  qed (use 1(5) in \<open>auto simp: jump_def elim!: bind_SomeE\<close>)
  with a b show ?thesis by simp
qed

section \<open>The invariant of the server\<close>

text \<open>A connection is alive while its client's descriptor is registered for it.\<close>

definition alive :: "'w proxy \<Rightarrow> nat \<Rightarrow> socks5 \<Rightarrow> bool" where
  "alive p a c \<longleftrightarrow> sv_conns p a = Some c \<and> roles p (client_fd c) = Some (Some SOCKS5_HANDLER, Some a)"

text \<open>What a connection in the state \<open>q\<close> has: its origin's descriptor is open and registered for nobody else.\<close>

definition attached :: "('w \<Rightarrow> int set) \<Rightarrow> nat \<Rightarrow> nat \<Rightarrow> socks5 \<Rightarrow> 'w proxy \<Rightarrow> bool" where
  "attached opn a q c p \<longleftrightarrow> \<not> closed c \<and> client_fd c \<in> opn (e_world p) \<and> client_fd c \<noteq> origin_fd c
     \<and> (origin_fd c = - 1 \<or> 0 \<le> origin_fd c \<and> origin_fd c \<in> opn (e_world p))
     \<and> roles p (origin_fd c) \<in> {None, Some (Some SOCKS5_HANDLER, Some a)}
     \<and> (q \<in> {GREETING, AUTH, REQUEST} \<longrightarrow> roles p (origin_fd c) = None) \<and> (q = CONNECT \<longrightarrow> roles p (origin_fd c) \<noteq> None)
     \<and> (q = REPLY \<longrightarrow> (\<forall>x. client c = U_reply x \<longrightarrow> rep x \<noteq> SUCCEDED \<longrightarrow> roles p (origin_fd c) = None))"

text \<open>\<open>L\<close> are descriptors that are open and that nothing in the server refers to.\<close>

definition socks_inv :: "('w \<Rightarrow> int set) \<Rightarrow> int set \<Rightarrow> 'w proxy \<Rightarrow> bool" where
  "socks_inv opn L p \<longleftrightarrow> sound p
     \<and> (\<forall>fd. roles p fd \<noteq> None \<longrightarrow> fd \<in> opn (e_world p))
     \<and> - 1 \<notin> L \<and> L \<subseteq> opn (e_world p) \<and> (\<forall>fd \<in> L. roles p fd = None) \<and> (\<forall>a c. alive p a c \<longrightarrow> origin_fd c \<notin> L)
     \<and> (\<forall>fd d. roles p fd = Some (Some SOCKS5_HANDLER, d) \<longrightarrow> (\<exists>a c. d = Some a \<and> alive p a c \<and> fd \<in> {client_fd c, origin_fd c}))
     \<and> (\<forall>a c. alive p a c \<longrightarrow> table_ok (stm c) \<and> attached opn a (state_of (stm c)) c p)
     \<and> (\<forall>a b c d. alive p a c \<longrightarrow> alive p b d \<longrightarrow> a \<noteq> b \<longrightarrow> origin_fd c = - 1 \<or> origin_fd c \<noteq> origin_fd d)
     \<and> (\<forall>a \<ge> sv_next p. sv_conns p a = None)"

definition pam_held :: "'w proxy \<Rightarrow> bool" where
  "pam_held p \<longleftrightarrow> (\<forall>fd d. roles p fd = Some (Some PAM_HANDLER, d) \<longrightarrow> (\<exists>a c. d = Some a \<and> pm_conns p a = Some c \<and> pm_client_fd c = fd))
     \<and> (\<forall>a \<ge> pm_next p. pm_conns p a = None)"

definition server_inv :: "('w \<Rightarrow> int set) \<Rightarrow> int set \<Rightarrow> 'w proxy \<Rightarrow> bool" where
  "server_inv opn L p \<longleftrightarrow> socks_inv opn L p \<and> pam_held p"

lemma minus_one: "sound p \<Longrightarrow> roles p (- 1) = None"
  using entry_valid(1)[of p "- 1"] by (cases "sel_entry p (- 1)") (auto simp: sound_def roles_def)

lemma socks_invD:
  assumes "socks_inv opn L p"
  shows "sound p" "roles p fd \<noteq> None \<Longrightarrow> fd \<in> opn (e_world p)" "- 1 \<notin> L" "L \<subseteq> opn (e_world p)" "fd \<in> L \<Longrightarrow> roles p fd = None"
    "alive p a c \<Longrightarrow> origin_fd c \<notin> L"
    "roles p fd = Some (Some SOCKS5_HANDLER, d) \<Longrightarrow> \<exists>a c. d = Some a \<and> alive p a c \<and> fd \<in> {client_fd c, origin_fd c}"
    "alive p a c \<Longrightarrow> table_ok (stm c)" "alive p a c \<Longrightarrow> attached opn a (state_of (stm c)) c p"
    "alive p a c \<Longrightarrow> alive p b c' \<Longrightarrow> a \<noteq> b \<Longrightarrow> origin_fd c = - 1 \<or> origin_fd c \<noteq> origin_fd c'"
    "sv_next p \<le> a \<Longrightarrow> sv_conns p a = None"
  using assms unfolding socks_inv_def by blast+

lemma socks_invI:
  assumes "sound p" "\<And>fd. roles p fd \<noteq> None \<Longrightarrow> fd \<in> opn (e_world p)" "- 1 \<notin> L" "L \<subseteq> opn (e_world p)" "\<And>fd. fd \<in> L \<Longrightarrow> roles p fd = None"
    "\<And>a c. alive p a c \<Longrightarrow> origin_fd c \<notin> L"
    "\<And>fd d. roles p fd = Some (Some SOCKS5_HANDLER, d) \<Longrightarrow> \<exists>a c. d = Some a \<and> alive p a c \<and> fd \<in> {client_fd c, origin_fd c}"
    "\<And>a c. alive p a c \<Longrightarrow> table_ok (stm c) \<and> attached opn a (state_of (stm c)) c p"
    "\<And>a b c c'. alive p a c \<Longrightarrow> alive p b c' \<Longrightarrow> a \<noteq> b \<Longrightarrow> origin_fd c = - 1 \<or> origin_fd c \<noteq> origin_fd c'"
    "\<And>a. sv_next p \<le> a \<Longrightarrow> sv_conns p a = None"
  shows "socks_inv opn L p"
  using assms unfolding socks_inv_def by blast

text \<open>Between the two ways to say what a connection has.\<close>

definition others where
  "others opn (p :: 'w proxy) c = \<lparr>o_fd = client_fd c, o_roles = (roles p)(origin_fd c := None), o_open = opn (e_world p) - {origin_fd c},
     o_more = env.more p\<rparr>"

lemma attached_placed:
  assumes i: "socks_inv opn L p" and a: "alive p a c"
  shows "placed opn a (others opn p c) (state_of (stm c)) c p"
proof -
  note at = socks_invD(9)[OF i a]
  have w: "within opn (others opn p c) c p"
    using at socks_invD(1,2)[OF i] by (auto simp: within_def others_def attached_def)
  have k: "bare opn (others opn p c) c p \<longleftrightarrow> roles p (origin_fd c) = None"
    "linked opn a (others opn p c) c p \<longleftrightarrow> roles p (origin_fd c) = Some (Some SOCKS5_HANDLER, Some a)"
    using w at minus_one[OF socks_invD(1)[OF i]] by (auto simp: bare_def linked_def others_def attached_def fun_eq_iff)
  show ?thesis using at unfolding placed_def k attached_def by auto
qed

section \<open>An event of a proxied connection\<close>

lemma roles_fields [simp]:
  "roles (s\<lparr>sv_conns := h\<rparr>) = roles s" "roles (s\<lparr>sv_next := n\<rparr>) = roles s" "roles (t\<lparr>pm_conns := k\<rparr>) = roles t"
  "roles (t\<lparr>pm_next := n\<rparr>) = roles t" "roles (p\<lparr>px_log := lg\<rparr>) = roles p" "roles (x\<lparr>slave_r := r\<rparr>) = roles x"
  "roles (x\<lparr>slave_w := r\<rparr>) = roles x" "roles (x\<lparr>resolution_jobs := js\<rparr>) = roles x"
  by (simp_all add: roles_def fun_eq_iff sel_entry_def)

lemma sound_fields [simp]:
  "sound (s\<lparr>sv_conns := h\<rparr>) = sound s" "sound (s\<lparr>sv_next := n\<rparr>) = sound s" "sound (t\<lparr>pm_conns := k\<rparr>) = sound t"
  "sound (t\<lparr>pm_next := n\<rparr>) = sound t" "sound (p\<lparr>px_log := lg\<rparr>) = sound p" "sound (x\<lparr>slave_r := r\<rparr>) = sound x"
  "sound (x\<lparr>slave_w := r\<rparr>) = sound x" "sound (x\<lparr>resolution_jobs := js\<rparr>) = sound x"
  by (simp_all add: sound_def cleared_def sel_inv_def sel_full_def items_ok_def max_ok_def wants_def sel_entry_def)

lemma alive_unique: "alive p a c \<Longrightarrow> alive p a c' \<Longrightarrow> c' = c"
  by (simp add: alive_def)

text \<open>No two connections share a descriptor.\<close>

lemma alive_apart:
  assumes i: "socks_inv opn L p" and ab: "alive p a c" "alive p b d" "a \<noteq> b"
  shows "client_fd d \<noteq> client_fd c" "client_fd d \<noteq> origin_fd c" "origin_fd d \<noteq> client_fd c" "origin_fd c = - 1 \<or> origin_fd d \<noteq> origin_fd c"
proof -
  have r: "roles p (client_fd c) = Some (Some SOCKS5_HANDLER, Some a)" "roles p (client_fd d) = Some (Some SOCKS5_HANDLER, Some b)"
    "roles p (origin_fd c) \<in> {None, Some (Some SOCKS5_HANDLER, Some a)}" "roles p (origin_fd d) \<in> {None, Some (Some SOCKS5_HANDLER, Some b)}"
    using ab socks_invD(9)[OF i ab(1)] socks_invD(9)[OF i ab(2)] by (simp_all add: alive_def attached_def)
  show "client_fd d \<noteq> client_fd c" "client_fd d \<noteq> origin_fd c" "origin_fd d \<noteq> client_fd c" using r ab(3) by auto
  show "origin_fd c = - 1 \<or> origin_fd d \<noteq> origin_fd c" using socks_invD(10)[OF i ab] by auto
qed

lemma attached_elsewhere:
  assumes "attached opn b q d p" "roles p' (origin_fd d) = roles p (origin_fd d)"
    and "client_fd d \<in> opn (e_world p')" "origin_fd d = - 1 \<or> origin_fd d \<in> opn (e_world p')"
  shows "attached opn b q d p'"
  using assms unfolding attached_def by auto

lemma conn_replaced:
  fixes p :: "'w proxy"
  assumes i: "socks_inv opn L p" and a: "alive p a c" and pl: "placed opn a (others opn p c) q c' e" and m: "table_ok m" "state_of m = q"
  defines "p' \<equiv> e\<lparr>sv_conns := (sv_conns p)(a \<mapsto> c'\<lparr>stm := m\<rparr>)\<rparr>"
  shows "socks_inv opn L p'" "alive p' a (c'\<lparr>stm := m\<rparr>)"
    "\<And>fd d. roles p' fd = Some (Some PAM_HANDLER, d) \<Longrightarrow> roles p fd = Some (Some PAM_HANDLER, d)"
    "roles p' (client_fd c) = roles p (client_fd c)" "roles p' (origin_fd c) \<in> {None, Some (Some SOCKS5_HANDLER, Some a)}"
    "pm_conns p' = pm_conns p" "pm_next p' = pm_next p"
proof -
  let ?S = "Some (Some SOCKS5_HANDLER, Some a)"
  define W where "W = opn (e_world p) - {origin_fd c}"
  define R where "R = (roles p)(origin_fd c := None)"
  have Ra: "R fd = (if fd = origin_fd c then None else roles p fd)" for fd by (simp add: R_def)
  have Wa: "fd \<in> W \<longleftrightarrow> fd \<in> opn (e_world p) \<and> fd \<noteq> origin_fd c" for fd by (simp add: W_def)
  let ?c = "c'\<lparr>stm := m\<rparr>"
  note at = socks_invD(9)[OF i a]
  have ca: "client_fd c \<in> opn (e_world p)" "client_fd c \<noteq> origin_fd c" "roles p (client_fd c) = ?S" "roles p (origin_fd c) \<in> {None, ?S}"
    using at a by (simp_all add: attached_def alive_def)
  have w: "within opn (others opn p c) c' e" using pl by (auto simp: placed_def bare_def linked_def)
  have e: "sound e" "client_fd c' = client_fd c" "\<not> closed c'" "W \<subseteq> opn (e_world e)" "env.more e = env.more p"
    using w by (simp_all add: within_def others_def W_def)
  have o: "origin_fd c' = - 1 \<and> roles e = R \<or> 0 \<le> origin_fd c' \<and> origin_fd c' \<in> opn (e_world e) \<and> origin_fd c' \<notin> W
      \<and> (roles e = R \<or> roles e = R(origin_fd c' := ?S))"
    using pl by (auto simp: placed_def bare_def linked_def others_def W_def R_def)
  have bare: "roles e = R" if "bare opn (others opn p c) c' e" using that by (simp add: bare_def others_def R_def)
  have linked: "roles e (origin_fd c') \<noteq> None" if "linked opn a (others opn p c) c' e" using that by (simp add: linked_def others_def)
  have R: "fd \<in> W" if "R fd \<noteq> None" for fd using socks_invD(2)[OF i, of fd] that by (simp add: Ra Wa split: if_splits)
  have m1: "R (- 1) = None" using minus_one[OF socks_invD(1)[OF i]] by (simp add: Ra)
  have ro': "R (origin_fd c') = None" using o R[of "origin_fd c'"] m1 by metis
  have re: "roles e fd = R fd \<or> fd = origin_fd c' \<and> roles e fd = ?S" for fd
  proof -
    have "roles e = R \<or> roles e = R(origin_fd c' := ?S)" using o by blast
    then show ?thesis by (cases "fd = origin_fd c'") (elim disjE; simp)+
  qed
  have conns: "sv_conns e = sv_conns p" "sv_next e = sv_next p" using more_fields[OF e(5)] by simp_all
  have p': "roles p' = roles e" "e_world p' = e_world e" "sound p'" "sv_next p' = sv_next p" "sv_conns p' = (sv_conns p)(a \<mapsto> ?c)"
    using conns e(1) by (simp_all add: p'_def)
  have cl: "roles e (client_fd c) = ?S" using re[of "client_fd c"] ca(2,3) by (auto simp: Ra)
  have here: "alive p' a ?c" using cl e(2) p' by (simp add: alive_def)
  then show "alive p' a (c'\<lparr>stm := m\<rparr>)" by simp
  have o1: "origin_fd c' = - 1 \<or> origin_fd c' \<notin> W" using o by (elim disjE conjE) simp_all
  have oR: "origin_fd c' = - 1 \<Longrightarrow> roles e = R" using o by (elim disjE conjE) simp_all
  have older: "alive p b d \<and> client_fd d \<in> W \<and> (origin_fd d = - 1 \<or> origin_fd d \<in> W) \<and> roles e (origin_fd d) = roles p (origin_fd d)"
    if "alive p' b d" "b \<noteq> a" for b d
  proof -
    have d: "sv_conns p b = Some d" "roles e (client_fd d) = Some (Some SOCKS5_HANDLER, Some b)" using that p' by (simp_all add: alive_def)
    have "R (client_fd d) = Some (Some SOCKS5_HANDLER, Some b)" using re[of "client_fd d"] d(2) that(2) by auto
    then have al: "alive p b d" using d(1) by (simp add: alive_def Ra split: if_splits)
    note ap = alive_apart[OF i a al that(2)[symmetric]] and atd = socks_invD(9)[OF i al]
    have "client_fd d \<in> opn (e_world p)" "origin_fd d = - 1 \<or> origin_fd d \<in> opn (e_world p)"
      using atd unfolding attached_def by blast+
    then have W: "client_fd d \<in> W" "origin_fd d = - 1 \<or> origin_fd d \<in> W"
      using ap(2,4) by (auto simp: Wa)
    have "roles e (origin_fd d) = R (origin_fd d)"
    proof (cases "origin_fd d = origin_fd c'")
      case True
      then have "origin_fd c' = - 1" using o1 W(2) by auto
      then show ?thesis using oR by simp
    qed (use re in blast)
    moreover have "R (origin_fd d) = roles p (origin_fd d)"
    proof (cases "origin_fd d = origin_fd c")
      case True
      then have "origin_fd c = - 1" using ap(4) by auto
      then show ?thesis using minus_one[OF socks_invD(1)[OF i]] True by (simp add: Ra)
    qed (simp add: Ra)
    ultimately show ?thesis using al W by simp
  qed
  have L: "L \<subseteq> W" using socks_invD(4)[OF i] socks_invD(6)[OF i a] by (auto simp: Wa)
  show "socks_inv opn L p'"
  proof (rule socks_invI)
    show "sound p'" "- 1 \<notin> L" using p' socks_invD(3)[OF i] by simp_all
    show "L \<subseteq> opn (e_world p')" using L e(4) p'(2) by auto
    show "roles p' fd = None" if "fd \<in> L" for fd
    proof -
      have "fd \<noteq> origin_fd c'" using L that o1 socks_invD(3)[OF i] by auto
      then show ?thesis using re[of fd] socks_invD(5)[OF i that] p'(1) by (simp add: Ra split: if_splits)
    qed
    show "fd \<in> opn (e_world p')" if "roles p' fd \<noteq> None" for fd
    proof (cases "roles e fd = R fd")
      case True
      then show ?thesis using that R[of fd] e(4) p'(1,2) by auto
    next
      case False
      then have "fd = origin_fd c'" "origin_fd c' \<noteq> - 1" using re[of fd] o by auto
      then show ?thesis using o p'(2) by auto
    qed
    show "origin_fd d \<notin> L" if "alive p' b d" for b d
    proof (cases "b = a")
      case True
      then have "d = ?c" using that here by (simp add: alive_def)
      then show ?thesis using o1 L socks_invD(3)[OF i] by auto
    next
      case False
      then show ?thesis using older[OF that] socks_invD(6)[OF i] by blast
    qed
    show "\<exists>b d. x = Some b \<and> alive p' b d \<and> fd \<in> {client_fd d, origin_fd d}" if "roles p' fd = Some (Some SOCKS5_HANDLER, x)" for fd x
    proof (cases "fd = origin_fd c' \<and> x = Some a")
      case True
      then show ?thesis using here by (intro exI[of _ a] exI[of _ ?c]) simp
    next
      case False
      then have r: "R fd = Some (Some SOCKS5_HANDLER, x)" using re[of fd] that p'(1) by auto
      then obtain b d where d: "x = Some b" "alive p b d" "fd \<in> {client_fd d, origin_fd d}" "fd \<noteq> origin_fd c"
        using socks_invD(7)[OF i, of fd x] by (auto simp: Ra split: if_splits)
      show ?thesis
      proof (cases "b = a")
        case True
        then show ?thesis using d alive_unique[OF a] here e(2) by (intro exI[of _ a] exI[of _ ?c]) auto
      next
        case False
        note ap = alive_apart[OF i a d(2) False[symmetric]]
        have "client_fd d \<in> W" using socks_invD(9)[OF i d(2)] ap(2) by (auto simp: attached_def Wa)
        then have "client_fd d \<noteq> origin_fd c'" using o1 socks_invD(9)[OF i d(2)] minus_one[OF socks_invD(1)[OF i]] d(2) by (auto simp: alive_def)
        then have "roles e (client_fd d) = roles p (client_fd d)" using re[of "client_fd d"] ap(2) by (simp add: Ra)
        then have "alive p' b d" using d(2) False p' by (simp add: alive_def)
        then show ?thesis using d by blast
      qed
    qed
    show "table_ok (stm d) \<and> attached opn b (state_of (stm d)) d p'" if "alive p' b d" for b d
    proof (cases "b = a")
      case True
      then have d: "d = ?c" using that here by (simp add: alive_def)
      have "R (client_fd c) = ?S" using ca by (simp add: Ra)
      then have oc: "client_fd c \<noteq> origin_fd c'" using ro' by auto
      have b: "roles e (origin_fd c') = None" if "bare opn (others opn p c) c' e" using bare[OF that] ro' by simp
      have g: "\<not> closed ?c" "client_fd ?c \<in> opn (e_world p')" "client_fd ?c \<noteq> origin_fd ?c"
          "origin_fd ?c = - 1 \<or> 0 \<le> origin_fd ?c \<and> origin_fd ?c \<in> opn (e_world p')"
        using e(2-4) ca(1,2) oc o p'(2) by (auto simp: Wa)
      have k: "roles p' (origin_fd ?c) \<in> {None, ?S}" using re[of "origin_fd c'"] ro' p'(1) by auto
      have "q \<in> {GREETING, AUTH, REQUEST} \<longrightarrow> roles p' (origin_fd ?c) = None" "q = CONNECT \<longrightarrow> roles p' (origin_fd ?c) \<noteq> None"
          "q = REPLY \<longrightarrow> (\<forall>x. client ?c = U_reply x \<longrightarrow> rep x \<noteq> SUCCEDED \<longrightarrow> roles p' (origin_fd ?c) = None)"
        using pl b linked p'(1) unfolding placed_def by simp_all
      then have "attached opn a q ?c p'" using g k unfolding attached_def by blast
      then show ?thesis using d m True by simp
    next
      case False
      have "attached opn b (state_of (stm d)) d p'"
        by (rule attached_elsewhere[OF socks_invD(9)[OF i]]) (use older[OF that False] e(4) p'(1,2) in auto)
      then show ?thesis using older[OF that False] socks_invD(8)[OF i] by blast
    qed
    show "origin_fd d = - 1 \<or> origin_fd d \<noteq> origin_fd d'" if "alive p' b d" "alive p' b' d'" "b \<noteq> b'" for b b' d d'
    proof -
      have mine: "origin_fd x = origin_fd c'" if "alive p' a x" for x using that here by (simp add: alive_def)
      consider "b = a" | "b' = a" | "b \<noteq> a" "b' \<noteq> a" by blast
      then show ?thesis
      proof cases
        case 1
        then show ?thesis using mine older[OF that(2)] that(1,3) o1 by auto
      next
        case 2
        then show ?thesis using mine older[OF that(1)] that(2,3) o1 by auto
      next
        case 3
        then show ?thesis using older that socks_invD(10)[OF i] by blast
      qed
    qed
    show "sv_conns p' b = None" if "sv_next p' \<le> b" for b
      using socks_invD(11)[OF i, of b] that p'(4,5) a by (auto simp: alive_def)
  qed
  show "roles p fd = Some (Some PAM_HANDLER, d)" if "roles p' fd = Some (Some PAM_HANDLER, d)" for fd d
    using re[of fd] that p'(1) by (simp add: Ra split: if_splits)
  show "roles p' (client_fd c) = roles p (client_fd c)" using cl ca p'(1) by simp
  show "roles p' (origin_fd c) \<in> {None, ?S}" using re[of "origin_fd c"] p'(1) by (auto simp: Ra)
  show "pm_conns p' = pm_conns p" "pm_next p' = pm_next p" using more_fields[OF e(5)] by (simp_all add: p'_def)
qed

end
