(* ===== verification/Descriptors.thy ===== *)
theory Descriptors
  imports Ledger
begin

text \<open>
  The steps of the server keep the invariant of its descriptors: an event of a proxied connection
  and its end, accepting, the management server, the log, a round of the main loop, and a step of a
  thread that resolves a name.
\<close>

section \<open>The end of a connection\<close>

lemma conn_released:
  fixes p :: "'w proxy"
  assumes T: "fd_table os opn" and i: "server_inv opn L p" and a: "alive p a c" and key: "k_data key = Some a"
    and r: "socksv5_done DONE_DEPTH os oth key p = Some (k, p')"
  shows "server_inv opn L p' \<and> k = key\<lparr>k_data := None\<rparr>
    \<and> (\<forall>fd. roles p' fd = (if fd = client_fd c \<or> fd = origin_fd c then None else roles p fd))"
proof -
  have si: "socks_inv opn L p" using i by (simp add: server_inv_def)
  note D = socks_invD[OF si] and at = socks_invD(9)[OF si a]
  have s: "registry_ok p" "cleared p" using D(1) by (simp_all add: sound_def)
  have c: "sv_conns p a = Some c" "roles p (client_fd c) = Some (Some SOCKS5_HANDLER, Some a)" using a by (simp_all add: alive_def)
  have at': "\<not> closed c" "client_fd c \<in> opn (e_world p)" "client_fd c \<noteq> origin_fd c" "roles p (origin_fd c) \<in> {None, Some (Some SOCKS5_HANDLER, Some a)}"
    using at unfolding attached_def by blast+
  have st: "stm_ok c" using socks_invD(8)[OF si a] by (simp add: stm_ok_def table_ok_def state_of_def split: option.splits)
  have own: "owned a (origin_fd c) p" "owned a (client_fd c) p" using at'(4) c(2) by (auto simp: owned_def roles_def)
  have pos: "0 \<le> client_fd c" using c(2) s(1) entry_valid(1)[of p "client_fd c"] by (cases "sel_entry p (client_fd c)") (simp_all add: roles_def)
  obtain s' where d: "socksv5_done (Suc (Suc 0)) os oth key p = Some (key\<lparr>k_data := None\<rparr>, s')" "registry_ok s'" "sv_conns s' = (sv_conns p)(a := None)"
    "sel_entry s' = (sel_entry p)(origin_fd c := None, client_fd c := None)"
    "e_world s' = os_close os (client_fd c) (if origin_fd c = - 1 then e_world p else os_close os (origin_fd c) (e_world p))"
    "around s' = around p" "cleared p \<longrightarrow> cleared s'"
    using done_releases[OF s(1) key c(1) at'(1) st own at'(3)[symmetric] pos, of 0 os oth] by blast
  have p': "p' = s'" "k = key\<lparr>k_data := None\<rparr>" using r d(1) by (simp_all add: numeral_2_eq_2)
  have ro: "roles p' fd = (if fd = client_fd c \<or> fd = origin_fd c then None else roles p fd)" for fd
    unfolding p' roles_def d(4) by simp
  have op: "opn (e_world p') = opn (e_world p) - {client_fd c} - (if origin_fd c = - 1 then {} else {origin_fd c})"
    unfolding p' d(5) by (auto simp: table_close[OF T])
  have mo: "sv_next p' = sv_next p" "pm_conns p' = pm_conns p" "pm_next p' = pm_next p"
    using d(6) unfolding p' by (cases s'; cases p; simp add: around_def)+
  have older: "alive p b x \<and> b \<noteq> a" if "alive p' b x" for b x
    using that ro[of "client_fd x"] d(3) p'(1) by (auto simp: alive_def split: if_splits)
  have left: "alive p' b x" if "alive p b x" "b \<noteq> a" for b x
    using alive_apart(1,2)[OF si a that(1) that(2)[symmetric]] that ro[of "client_fd x"] d(3) p'(1) by (simp add: alive_def)
  have m1: "roles p (- 1) = None" by (rule minus_one[OF D(1)])
  have "socks_inv opn L p'"
  proof (rule socks_invI)
    show "sound p'" using d(2,7) s(2) p'(1) by (simp add: sound_def)
    show "- 1 \<notin> L" by (rule D(3))
    show "fd \<in> opn (e_world p')" if "roles p' fd \<noteq> None" for fd
    proof -
      have "fd \<noteq> client_fd c" "fd \<noteq> origin_fd c" "roles p fd \<noteq> None" using that ro[of fd] by (auto split: if_splits)
      then show ?thesis using D(2)[of fd] unfolding op by simp
    qed
    show "L \<subseteq> opn (e_world p')" using D(4) D(5)[of "client_fd c"] c(2) D(6)[OF a] unfolding op by (auto split: if_splits)
    show "roles p' fd = None" if "fd \<in> L" for fd using D(5)[OF that] ro[of fd] by simp
    show "origin_fd x \<notin> L" if "alive p' b x" for b x using D(6) older[OF that] by blast
    show "\<exists>b x. d = Some b \<and> alive p' b x \<and> fd \<in> {client_fd x, origin_fd x}" if "roles p' fd = Some (Some SOCKS5_HANDLER, d)" for fd d
    proof -
      have f: "fd \<noteq> client_fd c" "fd \<noteq> origin_fd c" "roles p fd = Some (Some SOCKS5_HANDLER, d)" using that ro[of fd] by (auto split: if_splits)
      then obtain b x where b: "d = Some b" "alive p b x" "fd \<in> {client_fd x, origin_fd x}" using D(7) by blast
      have "b \<noteq> a" using b(2,3) f(1,2) alive_unique[OF a] by auto
      then show ?thesis using b left by blast
    qed
    show "table_ok (stm x) \<and> attached opn b (state_of (stm x)) x p'" if "alive p' b x" for b x
    proof -
      have b: "alive p b x" "b \<noteq> a" using older[OF that] by blast+
      note ap = alive_apart[OF si a b(1) b(2)[symmetric]] and ax = socks_invD(9)[OF si b(1)]
      have w: "client_fd x \<in> opn (e_world p)" "origin_fd x = - 1 \<or> origin_fd x \<in> opn (e_world p)" using ax unfolding attached_def by blast+
      have "roles p' (origin_fd x) = roles p (origin_fd x)"
      proof (cases "origin_fd x = origin_fd c")
        case True
        then show ?thesis using ap(4) m1 ro[of "origin_fd x"] by auto
      qed (use ap(3) ro[of "origin_fd x"] in simp)
      moreover have "client_fd x \<in> opn (e_world p')" "origin_fd x = - 1 \<or> origin_fd x \<in> opn (e_world p')"
        using w ap unfolding op by auto
      ultimately show ?thesis using attached_elsewhere[OF ax] socks_invD(8)[OF si b(1)] by blast
    qed
    show "origin_fd x = - 1 \<or> origin_fd x \<noteq> origin_fd y" if "alive p' b x" "alive p' b' y" "b \<noteq> b'" for b b' x y
      using D(10) older[OF that(1)] older[OF that(2)] that(3) by blast
    show "sv_conns p' b = None" if "sv_next p' \<le> b" for b using D(11)[of b] that mo(1) d(3) p'(1) by simp
  qed
  moreover have "pam_held p'"
    using i mo(2,3) ro unfolding server_inv_def pam_held_def by (auto split: if_splits)
  ultimately show ?thesis using p'(2) ro by (simp add: server_inv_def)
qed

section \<open>Events\<close>

text \<open>What a handler leaves of the invariant, of the item it was called for and of its key.\<close>

definition item_key :: "'w proxy \<Rightarrow> key \<Rightarrow> bool" where
  "item_key p key \<longleftrightarrow> (\<exists>h d. roles p (k_fd key) = Some (Some h, d) \<and> (h \<noteq> SOCKSV5_PASSIVE \<longrightarrow> d = k_data key))"

definition handled :: "('w \<Rightarrow> int set) \<Rightarrow> int set \<Rightarrow> key \<Rightarrow> key \<Rightarrow> 'w proxy \<Rightarrow> bool" where
  "handled opn L key k p' \<longleftrightarrow> server_inv opn L p' \<and> k_fd k = k_fd key \<and> (roles p' (k_fd k) = None \<or> item_key p' k)"

lemma socks_event:
  fixes p :: "'w proxy"
  assumes T: "fd_table os opn" and i: "server_inv opn L p" and ro: "roles p (k_fd key) = Some (Some SOCKS5_HANDLER, k_data key)"
    and c: "ATTACHMENT key p = Some c" and st: "machine_step os ev key (stm c) (c, p) = Some (q, m, c', e)"
    and af: "after_event os oth key (q, m, c', e) = Some (k, p')"
  shows "handled opn L key k p'"
proof -
  have si: "socks_inv opn L p" using i by (simp add: server_inv_def)
  obtain a x where a: "k_data key = Some a" "alive p a x" "k_fd key \<in> {client_fd x, origin_fd x}" using socks_invD(7)[OF si ro] by blast
  have x: "x = c" using a(1,2) c by (simp add: ATTACHMENT_def alive_def)
  note ac = a(2)[unfolded x]
  have pl: "placed opn a (others opn p c) q c' e" "table_ok m" "state_of m = q"
    using machine_ledger[OF T a(1) attached_placed[OF si ac] socks_invD(8)[OF si ac] st] by simp_all
  define p1 where "p1 = e\<lparr>sv_conns := (sv_conns p)(a \<mapsto> c'\<lparr>stm := m\<rparr>)\<rparr>"
  note R = conn_replaced[OF si ac pl, folded p1_def]
  have w: "within opn (others opn p c) c' e" using pl(1) by (auto simp: placed_def bare_def linked_def)
  have "sv_conns e = sv_conns p" using w more_fields[of e p] by (simp add: within_def others_def)
  then have p1: "put_conn key (Some (c'\<lparr>stm := m\<rparr>)) e = p1" using a(1) by (simp add: put_conn_def p1_def)
  have "pam_held p1" using i R(3,6,7) unfolding server_inv_def pam_held_def by simp
  then have i1: "server_inv opn L p1" using R(1) by (simp add: server_inv_def)
  have af': "(if q = ERROR \<or> q = DONE then socksv5_done DONE_DEPTH os oth key p1 else Some (key, p1)) = Some (k, p')"
    using af p1 by (simp add: after_event_def)
  have fd: "k_fd key = client_fd c \<or> k_fd key = origin_fd c" using a(3) x by blast
  show ?thesis
  proof (cases "q = ERROR \<or> q = DONE")
    case True
    then have d: "socksv5_done DONE_DEPTH os oth key p1 = Some (k, p')" using af' by simp
    have f: "client_fd (c'\<lparr>stm := m\<rparr>) = client_fd c" using w by (simp add: within_def others_def)
    note rel = conn_released[OF T i1 R(2) a(1) d]
    have "roles p' (k_fd key) = None"
    proof (cases "roles p1 (k_fd key)")
      case None
      then show ?thesis using rel by simp
    next
      case (Some y)
      then have "roles p1 (k_fd key) = Some (Some SOCKS5_HANDLER, Some a)" using fd R(4,5) ro a(1) by auto
      then obtain z where z: "alive p1 a z" "k_fd key = client_fd z \<or> k_fd key = origin_fd z" using socks_invD(7)[OF R(1)] by blast
      then show ?thesis using rel alive_unique[OF R(2) z(1)] by auto
    qed
    then show ?thesis using rel by (simp add: handled_def)
  next
    case False
    then have k: "k = key" "p' = p1" using af' by simp_all
    have "roles p1 (k_fd key) = None \<or> roles p1 (k_fd key) = roles p (k_fd key)"
      using R(4,5) a(1) ro fd by auto
    then show ?thesis using i1 k ro by (auto simp: handled_def item_key_def)
  qed
qed

section \<open>Changes outside the proxied connections\<close>

text \<open>Only descriptors of \<open>G\<close> change their role or close, and no connection has them.\<close>

lemma socks_aside:
  fixes p p' :: "'w proxy"
  assumes i: "socks_inv opn L p" and same: "sound p'" "sv_conns p' = sv_conns p" "sv_next p' = sv_next p"
    and ro: "\<And>fd. fd \<notin> G \<Longrightarrow> roles p' fd = roles p fd" and op: "opn (e_world p) - G \<subseteq> opn (e_world p')"
    and G: "\<And>fd. fd \<in> G \<Longrightarrow> roles p' fd \<noteq> None \<Longrightarrow> fd \<in> opn (e_world p')"
      "\<And>fd d. fd \<in> G \<Longrightarrow> roles p' fd \<noteq> Some (Some SOCKS5_HANDLER, d)" "\<And>fd d. fd \<in> G \<Longrightarrow> roles p fd \<noteq> Some (Some SOCKS5_HANDLER, d)"
      "\<And>a c. alive p a c \<Longrightarrow> origin_fd c \<notin> G" "G \<inter> L = {}"
  shows "socks_inv opn L p'"
proof -
  note D = socks_invD[OF i]
  have al: "alive p' a c \<longleftrightarrow> alive p a c" for a c
    using ro[of "client_fd c"] G(2,3)[of "client_fd c"] same(2) by (cases "client_fd c \<in> G") (auto simp: alive_def)
  have out: "client_fd c \<notin> G" if "alive p a c" for a c using that G(3) by (auto simp: alive_def)
  show ?thesis
  proof (rule socks_invI)
    show "sound p'" "- 1 \<notin> L" using same(1) D(3) by simp_all
    show "fd \<in> opn (e_world p')" if "roles p' fd \<noteq> None" for fd
      using that G(1)[of fd] ro[of fd] D(2)[of fd] op by (cases "fd \<in> G") auto
    show "L \<subseteq> opn (e_world p')" using D(4) op G(5) by blast
    show "roles p' fd = None" if "fd \<in> L" for fd
    proof -
      have "fd \<notin> G" using that G(5) by blast
      then show ?thesis using D(5)[OF that] ro by simp
    qed
    show "origin_fd c \<notin> L" if "alive p' a c" for a c using that al D(6) by blast
    show "\<exists>a c. d = Some a \<and> alive p' a c \<and> fd \<in> {client_fd c, origin_fd c}" if "roles p' fd = Some (Some SOCKS5_HANDLER, d)" for fd d
    proof -
      have "fd \<notin> G" using G(2)[of fd d] that by blast
      then have "roles p fd = Some (Some SOCKS5_HANDLER, d)" using ro that by simp
      then show ?thesis using D(7) al by blast
    qed
    show "table_ok (stm c) \<and> attached opn a (state_of (stm c)) c p'" if "alive p' a c" for a c
    proof -
      have a: "alive p a c" using that al by blast
      note at = socks_invD(9)[OF i a]
      have "client_fd c \<in> opn (e_world p)" "origin_fd c = - 1 \<or> origin_fd c \<in> opn (e_world p)" using at unfolding attached_def by blast+
      then have "client_fd c \<in> opn (e_world p')" "origin_fd c = - 1 \<or> origin_fd c \<in> opn (e_world p')" using op out[OF a] G(4)[OF a] by blast+
      then show ?thesis using attached_elsewhere[OF at ro[OF G(4)[OF a]]] socks_invD(8)[OF i a] by blast
    qed
    show "origin_fd c = - 1 \<or> origin_fd c \<noteq> origin_fd c'" if "alive p' a c" "alive p' b c'" "a \<noteq> b" for a b c c'
      using that al D(10) by blast
    show "sv_conns p' a = None" if "sv_next p' \<le> a" for a using that same(2,3) D(11) by simp
  qed
qed

lemma socks_world:
  assumes "socks_inv opn L p" "opn w = opn (e_world p)"
  shows "socks_inv opn L (p\<lparr>e_world := w\<rparr>)"
  by (rule socks_aside[OF assms(1), where G = "{}"]) (use assms socks_invD(1)[OF assms(1)] in simp_all)

section \<open>Accepting\<close>

lemma socks_new:
  assumes T: "fd_table os opn" and r: "socks5_new os fd w = Some (conn, w')"
  shows "opn w' = opn w \<and> (\<forall>c. conn = Some c \<longrightarrow> client_fd c = fd \<and> origin_fd c = - 1 \<and> \<not> closed c \<and> table_ok (stm c) \<and> state_of (stm c) = GREETING)"
  using r by (auto simp: socks5_new_def Let_def stm_init_def table_ok_def state_of_def split: prod.splits if_splits elim!: bind_SomeE
      dest!: table_calls(8)[OF _ T])

text \<open>A connection that nothing refers to yet: it is stored, and its descriptor is registered for it.\<close>

lemma socks_stored:
  assumes i: "socks_inv opn L p"
  shows "socks_inv opn L (p\<lparr>sv_conns := (sv_conns p)(sv_next p \<mapsto> c), sv_next := sv_next p + 1\<rparr>)"
proof -
  let ?p = "p\<lparr>sv_conns := (sv_conns p)(sv_next p \<mapsto> c), sv_next := sv_next p + 1\<rparr>"
  note D = socks_invD[OF i]
  have none: "roles p fd \<noteq> Some (Some SOCKS5_HANDLER, Some (sv_next p))" for fd
    using D(7)[of fd "Some (sv_next p)"] D(11)[of "sv_next p"] by (auto simp: alive_def)
  have al: "alive ?p a x \<longleftrightarrow> alive p a x" for a x using none[of "client_fd x"] D(11)[of "sv_next p"] by (auto simp: alive_def)
  have at: "attached opn a q x ?p \<longleftrightarrow> attached opn a q x p" for a q x by (simp add: attached_def)
  show ?thesis unfolding socks_inv_def al at using i D(11) unfolding socks_inv_def by auto
qed

lemma socks_joined:
  fixes p p' :: "'w proxy"
  assumes i: "socks_inv opn L p" and same: "sound p'" "sv_conns p' = sv_conns p" "sv_next p' = sv_next p"
    and new: "sv_conns p a = Some c" "origin_fd c = - 1" "\<not> closed c" "table_ok (stm c)" "state_of (stm c) = GREETING"
      "\<forall>fd. roles p fd \<noteq> Some (Some SOCKS5_HANDLER, Some a)"
    and ro: "roles p' = (roles p)(client_fd c \<mapsto> (Some SOCKS5_HANDLER, Some a))"
    and op: "client_fd c \<notin> opn (e_world p)" "opn (e_world p') = insert (client_fd c) (opn (e_world p))"
  shows "socks_inv opn L p'"
proof -
  note D = socks_invD[OF i]
  let ?f = "client_fd c"
  have f: "roles p ?f = None" "?f \<notin> L" using D(2)[of ?f] D(4) op(1) by (cases "roles p ?f", auto)
  have al: "alive p' b x \<longleftrightarrow> (if b = a then x = c else alive p b x)" for b x
    using new(1,6) f same(2) ro by (auto simp: alive_def)
  have old: "b \<noteq> a \<and> client_fd x \<noteq> ?f \<and> origin_fd x \<noteq> ?f" if "alive p b x" for b x
  proof -
    have "client_fd x \<in> opn (e_world p)" "origin_fd x = - 1 \<or> origin_fd x \<in> opn (e_world p)"
      using socks_invD(9)[OF i that] unfolding attached_def by blast+
    moreover have "b \<noteq> a" using that new(6) by (auto simp: alive_def)
    moreover have "?f \<noteq> - 1" using minus_one[OF same(1)] ro by auto
    ultimately show ?thesis using op(1) by auto
  qed
  show ?thesis
  proof (rule socks_invI)
    show "sound p'" "- 1 \<notin> L" using same(1) D(3) by simp_all
    show "fd \<in> opn (e_world p')" if "roles p' fd \<noteq> None" for fd using that D(2)[of fd] ro op(2) by (auto split: if_splits)
    show "L \<subseteq> opn (e_world p')" using D(4) op(2) by auto
    show "roles p' fd = None" if "fd \<in> L" for fd using D(5)[OF that] f(2) that ro by auto
    show "origin_fd x \<notin> L" if "alive p' b x" for b x using that al D(6) new(2) D(3) by (auto split: if_splits)
    show "\<exists>b x. d = Some b \<and> alive p' b x \<and> fd \<in> {client_fd x, origin_fd x}" if "roles p' fd = Some (Some SOCKS5_HANDLER, d)" for fd d
    proof (cases "fd = ?f")
      case True
      then show ?thesis using that ro al by auto
    next
      case False
      then have "roles p fd = Some (Some SOCKS5_HANDLER, d)" using that ro by simp
      then obtain b x where "d = Some b" "alive p b x" "fd \<in> {client_fd x, origin_fd x}" using D(7) by blast
      then show ?thesis using al old by metis
    qed
    show "table_ok (stm x) \<and> attached opn b (state_of (stm x)) x p'" if "alive p' b x" for b x
    proof (cases "b = a")
      case True
      then have "x = c" using that al by auto
      then show ?thesis using new op(2) ro minus_one[OF same(1)] True f by (auto simp: attached_def)
    next
      case False
      then have b: "alive p b x" using that al by auto
      note at = socks_invD(9)[OF i b]
      have "attached opn b (state_of (stm x)) x p'"
        by (rule attached_elsewhere[OF at]) (use at old[OF b] ro op(2) in \<open>auto simp: attached_def\<close>)
      then show ?thesis using socks_invD(8)[OF i b] by blast
    qed
    show "origin_fd x = - 1 \<or> origin_fd x \<noteq> origin_fd y" if "alive p' b x" "alive p' b' y" "b \<noteq> b'" for b b' x y
    proof (cases "b = a \<or> b' = a")
      case True
      then show ?thesis using that al new(2) by auto
    next
      case False
      then show ?thesis using that al D(10) by auto
    qed
    show "sv_conns p' b = None" if "sv_next p' \<le> b" for b using that same(2,3) D(11) by simp
  qed
qed

lemma socks_accept:
  fixes p :: "'w proxy"
  assumes T: "fd_table os opn" and i: "server_inv opn L p" and ro: "roles p (k_fd key) = Some (Some SOCKSV5_PASSIVE, d)"
    and r: "socksv5_passive_accept os key p = Some (k, p')"
  shows "handled opn L key k p'"
proof -
  have si: "socks_inv opn L p" and pi: "pam_held p" using i by (simp_all add: server_inv_def)
  have fin: "handled opn L key (key\<lparr>k_data := None\<rparr>) q" if "socks_inv opn L q" "roles q (k_fd key) = roles p (k_fd key)"
      "\<forall>fd d. roles q fd = Some (Some PAM_HANDLER, d) \<longrightarrow> roles p fd = Some (Some PAM_HANDLER, d)" "pm_conns q = pm_conns p" "pm_next q = pm_next p" for q
    using that pi ro by (auto simp: handled_def item_key_def server_inv_def pam_held_def)
  obtain x w1 where acc: "os_accept os (k_fd key) (e_world p) = (x, w1)" by fastforce
  show ?thesis
  proof (cases x)
    case (SysErr n)
    then have q: "k = key\<lparr>k_data := None\<rparr>" "p' = p\<lparr>e_world := w1\<rparr>" using r acc by (simp_all add: socksv5_passive_accept_def Let_def)
    have "opn w1 = opn (e_world p)" using table_accept(1)[OF _ T] acc SysErr by simp
    then show ?thesis unfolding q by (intro fin socks_world[OF si]) simp_all
  next
    case (SysOk y)
    obtain fd ad where y: "y = (fd, ad)" by fastforce
    have f: "0 \<le> fd" "fd \<notin> opn (e_world p)" "opn w1 = insert fd (opn (e_world p))"
      using table_accept(2)[OF _ T] acc SysOk y by blast+
    have nr: "roles p fd = None" using socks_invD(2)[OF si, of fd] f(2) by (cases "roles p fd") auto
    have ne: "fd \<noteq> k_fd key" using ro nr by auto
    obtain nio w2 where nio: "selector_fd_set_nio os fd w1 = (nio, w2)" by fastforce
    have w2: "opn w2 = opn w1" by (rule table_nio[OF nio T])
    have closed: "handled opn L key (key\<lparr>k_data := None\<rparr>) (p\<lparr>e_calls := l, e_metrics := mt, e_world := os_close os fd w\<rparr>)" if "opn w = opn w1" for w l mt
    proof (rule fin)
      have "opn (os_close os fd w) = opn (e_world p)" using that f by (auto simp: table_close[OF T])
      then show "socks_inv opn L (p\<lparr>e_calls := l, e_metrics := mt, e_world := os_close os fd w\<rparr>)"
        by (intro socks_aside[OF si, where G = "{}"]) (use socks_invD(1)[OF si] in simp_all)
    qed simp_all
    show ?thesis
    proof (cases "nio = - 1")
      case True
      then have "k = key\<lparr>k_data := None\<rparr>" "p' = p\<lparr>e_calls := e_calls p, e_metrics := e_metrics p, e_world := os_close os fd w2\<rparr>"
        using r acc SysOk y nio by (simp_all add: socksv5_passive_accept_def Let_def)
      then show ?thesis using closed[OF w2, of "e_metrics p" "e_calls p"] by simp
    next
      case False
      obtain conn w3 where n: "socks5_new os fd w2 = Some (conn, w3)"
        using r acc SysOk y nio False by (auto simp: socksv5_passive_accept_def Let_def elim!: bind_SomeE)
      note N = socks_new[OF T n]
      let ?m = "register_new_connection (e_metrics p)" and ?l = "e_calls p @ [Log_accepted (addr_text os ad) (bnd_port ad)]"
      show ?thesis
      proof (cases conn)
        case None
        then have "k = key\<lparr>k_data := None\<rparr>" "p' = p\<lparr>e_calls := ?l, e_metrics := ?m, e_world := os_close os fd w3\<rparr>"
          using r acc SysOk y nio False n by (simp_all add: socksv5_passive_accept_def Let_def)
        then show ?thesis using closed[of w3 ?m ?l] N w2 by simp
      next
        case (Some c)
        define c1 where "c1 = c\<lparr>client_addr := ad\<rparr>"
        define p1 where "p1 = p\<lparr>e_calls := ?l, e_metrics := ?m, sv_conns := (sv_conns p)(sv_next p \<mapsto> c1), sv_next := sv_next p + 1\<rparr>"
        have c1: "client_fd c1 = fd" "origin_fd c1 = - 1" "\<not> closed c1" "table_ok (stm c1)" "state_of (stm c1) = GREETING"
          using N Some by (simp_all add: c1_def)
        have p2: "p\<lparr>e_calls := ?l, e_metrics := ?m, e_world := w3, sv_conns := (sv_conns p)(sv_next p \<mapsto> c1), sv_next := Suc (sv_next p)\<rparr> = p1\<lparr>e_world := w3\<rparr>"
          unfolding p1_def by (cases p) simp
        obtain st s where g: "selector_register (fst (os_malloc os w3)) fd (Some SOCKS5_HANDLER) OP_READ (Some (sv_next p)) (p1\<lparr>e_world := w3\<rparr>) = Some (st, s)"
          "k = key\<lparr>k_data := None\<rparr>" "p' = (if st \<noteq> SELECTOR_SUCCESS then s\<lparr>e_world := os_close os fd (e_world s)\<rparr> else s)"
          using r acc SysOk y nio False n Some by (auto simp: socksv5_passive_accept_def Let_def p2[symmetric] c1_def elim!: bind_SomeE)
        have s1: "socks_inv opn L p1"
        proof -
          have "socks_inv opn L (p\<lparr>e_calls := ?l, e_metrics := ?m\<rparr>)"
            by (rule socks_aside[OF si, where G = "{}"]) (use socks_invD(1)[OF si] in simp_all)
          from socks_stored[OF this, of c1] show ?thesis by (simp add: p1_def)
        qed
        have e: "sound (p1\<lparr>e_world := w3\<rparr>)" "roles (p1\<lparr>e_world := w3\<rparr>) fd = None" using socks_invD(1)[OF s1] nr by (simp_all add: p1_def)
        note G = ledger_register[OF e g(1)]
        have rp: "roles p1 = roles p" "e_world p1 = e_world p" "pm_conns p1 = pm_conns p" "pm_next p1 = pm_next p" by (simp_all add: p1_def)
        have mo: "sv_conns s = sv_conns p1" "sv_next s = sv_next p1" "pm_conns s = pm_conns p1" "pm_next s = pm_next p1"
          using more_fields[of s "p1\<lparr>e_world := w3\<rparr>"] G by simp_all
        have none: "\<forall>x. roles p1 x \<noteq> Some (Some SOCKS5_HANDLER, Some (sv_next p))"
          using socks_invD(7)[OF si, of _ "Some (sv_next p)"] socks_invD(11)[OF si, of "sv_next p"] by (auto simp: rp alive_def)
        show ?thesis
        proof (cases "st = SELECTOR_SUCCESS")
          case True
          then have q: "p' = s" "roles s = (roles p1)(fd \<mapsto> (Some SOCKS5_HANDLER, Some (sv_next p)))" using g(3) G by simp_all
          have "socks_inv opn L s"
            by (rule socks_joined[OF s1 _ mo(1,2), where a = "sv_next p" and c = c1])
              (use G c1 none q(2) f(2,3) w2 N rp in \<open>simp_all add: p1_def\<close>)
          then show ?thesis unfolding g(2) q(1) by (rule fin) (use q(2) rp mo ne in auto)
        next
          case False
          then have q: "p' = s\<lparr>e_world := os_close os fd (e_world s)\<rparr>" "roles s = roles p1" using g(3) G by simp_all
          have "opn (e_world p') = opn (e_world p)" using G f(2,3) w2 N q(1) by (auto simp: table_close[OF T])
          then have "socks_inv opn L p'"
            by (intro socks_aside[OF s1, where G = "{}"]) (use G q mo rp in simp_all)
          then show ?thesis unfolding g(2) by (rule fin) (use q rp mo in auto)
        qed
      qed
    qed
  qed
qed

section \<open>The management server\<close>

lemma pam_heldI:
  assumes "pam_held p" "\<And>fd d. roles q fd = Some (Some PAM_HANDLER, d) \<Longrightarrow> roles p fd = Some (Some PAM_HANDLER, d)"
    "\<And>a c. pm_conns p a = Some c \<Longrightarrow> (\<exists>fd. roles q fd = Some (Some PAM_HANDLER, Some a)) \<Longrightarrow> \<exists>c'. pm_conns q a = Some c' \<and> pm_client_fd c' = pm_client_fd c"
    "\<And>a. pm_conns p a = None \<Longrightarrow> pm_conns q a = None" "pm_next q = pm_next p"
  shows "pam_held q"
  unfolding pam_held_def
proof (intro conjI allI impI)
  fix fd d
  assume r: "roles q fd = Some (Some PAM_HANDLER, d)"
  then obtain a c where c: "d = Some a" "pm_conns p a = Some c" "pm_client_fd c = fd"
    using assms(1,2) unfolding pam_held_def by blast
  then show "\<exists>a c. d = Some a \<and> pm_conns q a = Some c \<and> pm_client_fd c = fd" using assms(3)[OF c(2)] r by blast
next
  fix a
  assume "pm_next q \<le> a"
  then show "pm_conns q a = None" using assms(1,4,5) by (simp add: pam_held_def)
qed

lemma pam_event:
  fixes p :: "'w proxy"
  assumes T: "fd_table os opn" and i: "server_inv opn L p" and ro: "roles p (k_fd key) = Some (Some PAM_HANDLER, k_data key)"
    and c: "PAM_ATTACHMENT key p = Some c" and sel: "sel = on_read_ready \<or> sel = on_write_ready"
    and st: "stm_handler sel (pamStates os) key (pm_stm c) (c, p) = Some (q, m, c', e)"
    and af: "pam_after_event os oth key (q, m, c', e) = Some (k, p')"
  shows "handled opn L key k p'"
proof -
  have si: "socks_inv opn L p" and pi: "pam_held p" using i by (simp_all add: server_inv_def)
  obtain a where a: "k_data key = Some a" "pm_conns p a = Some c" "pm_client_fd c = k_fd key"
    using pi ro c unfolding pam_held_def PAM_ATTACHMENT_def by force
  have "still opn p e" and fc: "pm_client_fd c' = pm_client_fd c" using pam_machine_ledger[OF T st sel] by simp_all
  then have e: "sound e" "roles e = roles p" "opn (e_world e) = opn (e_world p)" "env.more e = env.more p"
    using socks_invD(1)[OF si] by (auto simp: still_def ledger_def split: if_splits)
  have mo: "sv_conns e = sv_conns p" "sv_next e = sv_next p" "pm_conns e = pm_conns p" "pm_next e = pm_next p" using more_fields[OF e(4)] by simp_all
  define p1 where "p1 = put_pam key (Some (c'\<lparr>pm_stm := m\<rparr>)) e"
  have p1: "sound p1" "roles p1 = roles p" "opn (e_world p1) = opn (e_world p)" "sv_conns p1 = sv_conns p" "sv_next p1 = sv_next p"
    "pm_conns p1 = (pm_conns p)(a \<mapsto> c'\<lparr>pm_stm := m\<rparr>)" "pm_next p1 = pm_next p"
    using e mo a(1) by (simp_all add: p1_def put_pam_def)
  have s1: "socks_inv opn L p1" by (rule socks_aside[OF si, where G = "{}"]) (use p1 in simp_all)
  have i1: "pam_held p1" by (rule pam_heldI[OF pi]) (use p1 a fc in auto)
  have af': "(if q = PAM_ERROR \<or> q = PAM_DONE then pam_done os oth key p1 else Some (key, p1)) = Some (k, p')"
    using af unfolding pam_after_event_def p1_def Let_def by (simp split del: if_split)
  show ?thesis
  proof (cases "q = PAM_ERROR \<or> q = PAM_DONE")
    case False
    then show ?thesis using af' s1 i1 p1(2) ro by (auto simp: handled_def server_inv_def item_key_def)
  next
    case True
    let ?fd = "k_fd key"
    obtain it where it: "sel_entry p1 ?fd = Some it" "it_handler it = Some PAM_HANDLER" "it_data it = Some a"
    proof -
      have "roles p1 ?fd = Some (Some PAM_HANDLER, Some a)" using ro a(1) p1(2) by simp
      then show thesis using that by (auto simp: roles_def)
    qed
    have reg: "registry_ok p1" "cleared p1" using p1(1) by (simp_all add: sound_def)
    have v: "0 \<le> ?fd" "\<not> INVALID_FD ?fd" "it_fd it = ?fd" "nat ?fd < fd_size p1" "fds p1 ! nat ?fd = it" "ITEM_USED it"
      using entry_valid[OF _ it(1)] sel_entry_item[OF it(1)] reg(1) by auto
    define p2 where "p2 = p1\<lparr>pm_conns := (pm_conns p1)(a := None)\<rparr>"
    have ent: "sel_entry p2 = sel_entry p1" by (simp add: fun_eq_iff p2_def sel_entry_def)
    have "sound p2" using p1(1) by (simp add: p2_def)
    then have p2: "sound p2" "sel_inv p2" "sel_entry p2 ?fd = Some it" using it(1) ent by (simp_all add: sound_def)
    have "pam_close \<lparr>k_fd = it_fd it, k_data = it_data it\<rparr> p1 = Some (\<lparr>k_fd = it_fd it, k_data = it_data it\<rparr>, p2)"
      using it(3) p1(6) by (simp add: pam_close_def pam_destroy_def put_pam_def p2_def)
    then have "selector_unregister_fd (pam_closing oth) ?fd p1 = Some (SELECTOR_SUCCESS, without_item ?fd p2)"
      using v it(2) drop_item_used[OF p2(2,3)] by (simp add: selector_unregister_fd_def pam_closing_def)
    moreover have "PAM_ATTACHMENT key p1 = Some (c'\<lparr>pm_stm := m\<rparr>)" using a(1) p1(6) by (simp add: PAM_ATTACHMENT_def)
    ultimately have q: "k = key" "p' = (without_item ?fd p2)\<lparr>e_world := os_close os ?fd (e_world p2)\<rparr>"
      using af' True a(3) fc by (auto simp: pam_done_def Let_def)
    have ro': "roles p' = (roles p)(?fd := None)"
      unfolding q(2) roles_ext roles_def entry_without_item[OF p2(3)] ent using p1(2) by (auto simp: roles_def fun_eq_iff)
    have so: "sound p'" using inv_without_item[OF p2(2,3)] cleared_without_item[of p2 ?fd] p2(1) unfolding q(2) by (simp add: sound_def)
    have mo': "sv_conns p' = sv_conns p" "sv_next p' = sv_next p" "pm_conns p' = (pm_conns p)(a := None)" "pm_next p' = pm_next p"
      unfolding q(2) using p1 by (simp_all add: p2_def without_item_def Let_def)
    have op: "opn (e_world p') = opn (e_world p) - {?fd}" unfolding q(2) using p1(3) by (simp add: table_close[OF T] p2_def)
    have "socks_inv opn L p'"
    proof (rule socks_aside[OF si so mo'(1,2), where G = "{?fd}"])
      show "\<And>b x. alive p b x \<Longrightarrow> origin_fd x \<notin> {?fd}"
      proof -
        fix b x
        assume "alive p b x"
        then have "roles p (origin_fd x) \<in> {None, Some (Some SOCKS5_HANDLER, Some b)}" using socks_invD(9)[OF si] unfolding attached_def by blast
        then show "origin_fd x \<notin> {?fd}" using ro by auto
      qed
      show "{?fd} \<inter> L = {}" using socks_invD(5)[OF si, of ?fd] ro by auto
    qed (use ro ro' op in simp_all)
    moreover have "pam_held p'"
    proof (rule pam_heldI[OF pi])
      show "\<exists>x'. pm_conns p' b = Some x' \<and> pm_client_fd x' = pm_client_fd x"
        if b: "pm_conns p b = Some x" "\<exists>fd. roles p' fd = Some (Some PAM_HANDLER, Some b)" for b x
      proof -
        obtain fd where fd: "fd \<noteq> ?fd" "roles p fd = Some (Some PAM_HANDLER, Some b)" using b(2) ro' by (auto split: if_splits)
        then have "pm_client_fd x = fd" using pi b(1) unfolding pam_held_def by force
        then have "b \<noteq> a" using a(2,3) b(1) fd(1) by auto
        then show ?thesis using b(1) mo'(3) by simp
      qed
    qed (use mo' ro' in \<open>auto split: if_splits\<close>)
    ultimately show ?thesis using q(1) ro' by (simp add: handled_def server_inv_def)
  qed
qed

lemma pam_new_fd:
  assumes T: "fd_table os opn" and r: "pam_new os fd w = Some (conn, w')"
  shows "opn w' = opn w \<and> (\<forall>c. conn = Some c \<longrightarrow> pm_client_fd c = fd)"
  using r by (auto simp: pam_new_def Let_def split: prod.splits if_splits elim!: bind_SomeE dest!: table_calls(8)[OF _ T])

lemma pam_accept:
  fixes p :: "'w proxy"
  assumes T: "fd_table os opn" and i: "server_inv opn L p" and ro: "roles p (k_fd key) = Some (Some PAM_PASSIVE, k_data key)"
    and r: "pam_passive_accept os key p = Some (k, p')"
  shows "handled opn L key k p'"
proof -
  have si: "socks_inv opn L p" and pi: "pam_held p" using i by (simp_all add: server_inv_def)
  have fin: "handled opn L key key q" if "socks_inv opn L q" "roles q (k_fd key) = roles p (k_fd key)" "pam_held q" for q
    using that ro by (auto simp: handled_def item_key_def server_inv_def)
  obtain x w1 where acc: "os_accept os (k_fd key) (e_world p) = (x, w1)" by fastforce
  have world: "handled opn L key key (p\<lparr>e_calls := l, e_world := w\<rparr>)" if "opn w = opn (e_world p)" for w l
  proof (rule fin)
    show "socks_inv opn L (p\<lparr>e_calls := l, e_world := w\<rparr>)"
      by (rule socks_aside[OF si, where G = "{}"]) (use socks_invD(1)[OF si] that in simp_all)
  qed (use pi in \<open>simp_all add: pam_held_def\<close>)
  show ?thesis
  proof (cases x)
    case (SysErr n)
    then have q: "k = key" "p' = p\<lparr>e_calls := e_calls p, e_world := w1\<rparr>" using r acc by (simp_all add: pam_passive_accept_def)
    show ?thesis unfolding q by (rule world) (use table_accept(1)[OF _ T] acc SysErr in simp)
  next
    case (SysOk y)
    obtain fd ad where y: "y = (fd, ad)" by fastforce
    have f: "0 \<le> fd" "fd \<notin> opn (e_world p)" "opn w1 = insert fd (opn (e_world p))"
      using table_accept(2)[OF _ T] acc SysOk y by blast+
    have nr: "roles p fd = None" using socks_invD(2)[OF si, of fd] f(2) by (cases "roles p fd") auto
    obtain nio w2 where nio: "selector_fd_set_nio os fd w1 = (nio, w2)" by fastforce
    have w2: "opn w2 = opn w1" by (rule table_nio[OF nio T])
    have shut: "opn (os_close os fd w) = opn (e_world p)" if "opn w = opn w1" for w
      using that f by (auto simp: table_close[OF T])
    show ?thesis
    proof (cases "nio = - 1")
      case True
      then have q: "k = key" "p' = p\<lparr>e_calls := e_calls p, e_world := os_close os fd w2\<rparr>"
        using r acc SysOk y nio by (simp_all add: pam_passive_accept_def)
      show ?thesis unfolding q by (rule world[OF shut[OF w2]])
    next
      case False
      obtain conn w3 where n: "pam_new os fd w2 = Some (conn, w3)"
        using r acc SysOk y nio False by (auto simp: pam_passive_accept_def Let_def elim!: bind_SomeE)
      let ?l = "e_calls p @ [Log_pam_accepted (addr_text os ad) (bnd_port ad)]"
      note N = pam_new_fd[OF T n]
      have w3: "opn w3 = opn w1" using N w2 by simp
      show ?thesis
      proof (cases conn)
        case None
        then have q: "k = key" "p' = p\<lparr>e_calls := ?l, e_world := os_close os fd w3\<rparr>"
          using r acc SysOk y nio False n by (simp_all add: pam_passive_accept_def)
        show ?thesis unfolding q by (rule world[OF shut[OF w3]])
      next
        case (Some c)
        obtain st s where g: "selector_register (fst (os_malloc os w3)) fd (Some PAM_HANDLER) OP_READ (Some (pm_next p)) (p\<lparr>e_calls := ?l, e_world := w3\<rparr>) = Some (st, s)"
          "k = key" "p' = (if st \<noteq> SELECTOR_SUCCESS then s\<lparr>e_world := os_close os fd (e_world s)\<rparr>
            else s\<lparr>pm_conns := (pm_conns s)(pm_next p := Some (c\<lparr>pm_client_addr := ad\<rparr>)), pm_next := pm_next p + 1\<rparr>)"
          using r acc SysOk y nio False n Some by (auto simp: pam_passive_accept_def Let_def elim!: bind_SomeE)
        have e: "sound (p\<lparr>e_calls := ?l, e_world := w3\<rparr>)" "roles (p\<lparr>e_calls := ?l, e_world := w3\<rparr>) fd = None" using socks_invD(1)[OF si] nr by simp_all
        note G = ledger_register[OF e g(1)]
        have mo: "sv_conns s = sv_conns p" "sv_next s = sv_next p" "pm_conns s = pm_conns p" "pm_next s = pm_next p"
          using more_fields[of s "p\<lparr>e_calls := ?l, e_world := w3\<rparr>"] G by simp_all
        show ?thesis
        proof (cases "st = SELECTOR_SUCCESS")
          case False
          then have q: "p' = s\<lparr>e_world := os_close os fd (e_world s)\<rparr>" "roles s = roles p" using g(3) G by simp_all
          have "socks_inv opn L p'"
            by (rule socks_aside[OF si, where G = "{}"]) (use G q mo shut[of "e_world s"] w3 in simp_all)
          then show ?thesis unfolding g(2) by (rule fin) (use q mo pi in \<open>simp_all add: pam_held_def\<close>)
        next
          case True
          then have q: "p' = s\<lparr>pm_conns := (pm_conns s)(pm_next p := Some (c\<lparr>pm_client_addr := ad\<rparr>)), pm_next := pm_next p + 1\<rparr>"
            "roles s = (roles p)(fd \<mapsto> (Some PAM_HANDLER, Some (pm_next p)))" using g(3) G by simp_all
          have op: "opn (e_world p') = insert fd (opn (e_world p))" using G q(1) w3 f(3) by simp
          have new: "sound p'" "sv_conns p' = sv_conns p" "sv_next p' = sv_next p" "roles p' = (roles p)(fd \<mapsto> (Some PAM_HANDLER, Some (pm_next p)))"
            "pm_conns p' = (pm_conns p)(pm_next p := Some (c\<lparr>pm_client_addr := ad\<rparr>))" "pm_next p' = pm_next p + 1"
            using G q mo by simp_all
          have "socks_inv opn L p'"
          proof (rule socks_aside[OF si, where G = "{fd}"])
            show "\<And>a x. alive p a x \<Longrightarrow> origin_fd x \<notin> {fd}"
            proof -
              fix a x
              assume "alive p a x"
              then have "origin_fd x = - 1 \<or> origin_fd x \<in> opn (e_world p)" using socks_invD(9)[OF si] unfolding attached_def by blast
              then show "origin_fd x \<notin> {fd}" using f(1,2) by auto
            qed
            show "{fd} \<inter> L = {}" using socks_invD(4)[OF si] f(2) by blast
          qed (use new op nr in auto)
          moreover have "pam_held p'"
          proof -
            have none: "pm_conns p (pm_next p) = None" using pi by (simp add: pam_held_def)
            have "\<exists>a x. d = Some a \<and> pm_conns p' a = Some x \<and> pm_client_fd x = g" if "roles p' g = Some (Some PAM_HANDLER, d)" for g d
            proof (cases "g = fd")
              case True
              then show ?thesis using that new(4,5) N Some by (intro exI[of _ "pm_next p"] exI[of _ "c\<lparr>pm_client_addr := ad\<rparr>"]) simp
            next
              case False
              then have "roles p g = Some (Some PAM_HANDLER, d)" using that new(4) by simp
              then obtain a x where a: "d = Some a" "pm_conns p a = Some x" "pm_client_fd x = g"
                using pi unfolding pam_held_def by blast
              then show ?thesis using none new(5) by (intro exI[of _ a] exI[of _ x]) auto
            qed
            then show ?thesis using pi new(5,6) by (simp add: pam_held_def)
          qed
          ultimately show ?thesis unfolding g(2) by (intro fin) (use new nr ro in auto)
        qed
      qed
    qed
  qed
qed

section \<open>The log\<close>

text \<open>\<open>write\<close> keeps the table.\<close>

definition writes_quietly :: "('w, 'x) host_scheme \<Rightarrow> ('w \<Rightarrow> int set) \<Rightarrow> bool" where
  "writes_quietly h opn \<longleftrightarrow> (\<forall>fd bs w. opn (snd (h_write h fd bs w)) = opn w)"

lemma write_some_table:
  assumes H: "writes_quietly h opn" and r: "write_some h (lg, s) = Some ((lg', s'), n, k)"
  shows "\<exists>w. s' = s\<lparr>e_world := w\<rparr> \<and> opn w = opn (e_world s)"
proof -
  obtain x w where x: "h_write h (logFile lg) (buffer_window (logBuffer lg)) (e_world s) = (x, w)" by fastforce
  have "opn w = opn (e_world s)" using H x unfolding writes_quietly_def by (metis snd_conv)
  then show ?thesis using r x by (auto simp: write_some_def Let_def split: if_splits elim!: bind_SomeE)
qed

lemma write_loop_table:
  assumes H: "writes_quietly h opn"
  shows "write_loop h (lg, s) n k = Some ((lg', s'), r) \<Longrightarrow> \<exists>w. s' = s\<lparr>e_world := w\<rparr> \<and> opn w = opn (e_world s)"
proof (induction "queue_size (logQueue lg)" arbitrary: lg s n k rule: less_induct)
  case less
  have same: "\<exists>w. s = s\<lparr>e_world := w\<rparr> \<and> opn w = opn (e_world s)" by (intro exI[of _ "e_world s"]) simp
  show ?case
  proof (cases "queue_size (logQueue lg) = 0")
    case True
    then show ?thesis using less.prems same by (simp add: write_loop.simps)
  next
    case False
    then obtain peek where pk: "queue_peek (logQueue lg) = Some peek" using less.prems by (auto simp: write_loop.simps elim!: bind_SomeE)
    show ?thesis
    proof (cases "n = 0 \<and> k = int n \<and> peek \<noteq> None")
      case c: True
      then obtain lg1 where l: "take_log lg = Some lg1" using less.prems False pk by (auto simp: write_loop.simps elim!: bind_SomeE)
      note sh = take_log_shrinks[OF l False]
      show ?thesis
      proof (cases "buffer_can_read (logBuffer lg1)")
        case t: True
        obtain lg2 s2 n2 k2 where w: "write_some h (lg1, s) = Some ((lg2, s2), n2, k2)" "write_loop h (lg2, s2) n2 k2 = Some ((lg', s'), r)"
          using less.prems False pk c l t by (subst (asm) write_loop.simps) (auto elim!: bind_SomeE)
        obtain x where x: "s2 = s\<lparr>e_world := x\<rparr>" "opn x = opn (e_world s)" using write_some_table[OF H w(1)] by blast
        have "queue_size (logQueue lg2) < queue_size (logQueue lg)" using sh write_some_queue[OF w(1)] by simp
        from less.hyps[OF this w(2)] show ?thesis using x by auto
      next
        case t: False
        then have "write_loop h (lg1, s) n k = Some ((lg', s'), r)" using less.prems False pk c l by (subst (asm) write_loop.simps) auto
        then show ?thesis by (rule less.hyps[OF sh])
      qed
    next
      case c: False
      then show ?thesis using less.prems False pk same by (auto simp: write_loop.simps)
    qed
  qed
qed

lemma log_event:
  fixes p :: "'w proxy"
  assumes H: "writes_quietly h opn" and i: "server_inv opn L p" and ro: "roles p (k_fd key) = Some (Some LOGGER_HANDLER, k_data key)"
    and r: "with_log (write_logs_deferred h) p = Some p'"
  shows "handled opn L key key p'"
proof -
  have si: "socks_inv opn L p" and pi: "pam_held p" using i by (simp_all add: server_inv_def)
  obtain lg q where w: "write_logs_deferred h (px_log p, p) = Some (lg, q)" "p' = q\<lparr>px_log := lg\<rparr>"
    using r by (auto simp: with_log_def elim!: bind_SomeE)
  obtain lg1 p1 r1 where l: "write_loop h (px_log p, p) 0 0 = Some ((lg1, p1), r1)" "p1 = q \<or> (\<exists>n. logger_unregister_selector (lg1, p1) = Some (n, lg, q))"
    using w(1) by (auto simp: write_logs_deferred_def split: if_splits elim!: bind_SomeE)
  obtain x where x: "p1 = p\<lparr>e_world := x\<rparr>" "opn x = opn (e_world p)" using write_loop_table[OF H l(1)] by blast
  have "still opn p1 q"
    using l(2) by (auto simp: logger_unregister_selector_def split: if_splits elim!: bind_SomeE dest!: still_interest[where opn = opn])
  moreover have "still opn p p1" using x by (simp add: still_def)
  ultimately have "still opn p q" by (blast intro: still_trans)
  then have q: "sound q" "roles q = roles p" "opn (e_world q) = opn (e_world p)" "env.more q = env.more p"
    using socks_invD(1)[OF si] by (auto simp: still_def ledger_def split: if_splits)
  note mo = more_fields[OF q(4)]
  have "socks_inv opn L p'" by (rule socks_aside[OF si, where G = "{}"]) (use q mo w(2) in simp_all)
  moreover have "pam_held p'" using pi q mo w(2) by (simp add: pam_held_def)
  ultimately show ?thesis using q w(2) ro by (auto simp: handled_def server_inv_def item_key_def)
qed

section \<open>A round of the main loop\<close>

lemma read_handled:
  fixes p :: "'w proxy"
  assumes T: "fd_table os opn" and H: "writes_quietly h opn" and i: "server_inv opn L p" and ik: "item_key p key"
    and ro: "roles p (k_fd key) = Some (Some x, d)"
    and r: "handle_read (server_handlers os h x) = Some f" "f key p = Some (k, p')"
  shows "handled opn L key k p'"
proof -
  have d: "x \<noteq> SOCKSV5_PASSIVE \<Longrightarrow> d = k_data key" using ik ro by (auto simp: item_key_def)
  show ?thesis
  proof (cases x)
    case SOCKSV5_PASSIVE
    then show ?thesis using r ro socks_accept[OF T i] by (simp add: server_handlers_def pam_handlers_def socks5_handlers_def no_handler_def)
  next
    case SOCKS5_HANDLER
    then obtain oth where f: "f = socksv5_read os oth" using r(1) by (auto simp: server_handlers_def pam_handlers_def socks5_handlers_def)
    then obtain c q m c' e where st: "ATTACHMENT key p = Some c" "machine_step os Ev_read key (stm c) (c, p) = Some (q, m, c', e)"
      "after_event os oth key (q, m, c', e) = Some (k, p')"
      using r(2) by (auto simp: socksv5_read_def machine_step_def elim!: bind_SomeE)
    show ?thesis by (rule socks_event[OF T i _ st]) (use ro d SOCKS5_HANDLER in simp)
  next
    case PAM_PASSIVE
    then show ?thesis using r ro d pam_accept[OF T i] by (simp add: server_handlers_def pam_handlers_def no_handler_def)
  next
    case PAM_HANDLER
    then obtain oth where f: "f = pam_read os oth" using r(1) by (auto simp: server_handlers_def pam_handlers_def no_handler_def)
    then obtain c q m c' e where st: "PAM_ATTACHMENT key p = Some c" "stm_handler on_read_ready (pamStates os) key (pm_stm c) (c, p) = Some (q, m, c', e)"
      "pam_after_event os oth key (q, m, c', e) = Some (k, p')"
      using r(2) by (auto simp: pam_read_def stm_handler_read_def elim!: bind_SomeE)
    show ?thesis by (rule pam_event[OF T i _ st(1) _ st(2,3)]) (use ro d PAM_HANDLER in simp_all)
  next
    case LOGGER_HANDLER
    then show ?thesis using r(1) by (simp add: server_handlers_def pam_handlers_def socks5_handlers_def pam_closing_def logger_handlers_def no_handler_def)
  qed
qed

lemma write_handled:
  fixes p :: "'w proxy"
  assumes T: "fd_table os opn" and H: "writes_quietly h opn" and i: "server_inv opn L p" and ik: "item_key p key"
    and ro: "roles p (k_fd key) = Some (Some x, d)"
    and r: "handle_write (server_handlers os h x) = Some f" "f key p = Some (k, p')"
  shows "handled opn L key k p'"
proof -
  have d: "x \<noteq> SOCKSV5_PASSIVE \<Longrightarrow> d = k_data key" using ik ro by (auto simp: item_key_def)
  show ?thesis
  proof (cases x)
    case SOCKS5_HANDLER
    then obtain oth where f: "f = socksv5_write os oth" using r(1) by (auto simp: server_handlers_def pam_handlers_def socks5_handlers_def)
    then obtain c q m c' e where st: "ATTACHMENT key p = Some c" "machine_step os Ev_write key (stm c) (c, p) = Some (q, m, c', e)"
      "after_event os oth key (q, m, c', e) = Some (k, p')"
      using r(2) by (auto simp: socksv5_write_def machine_step_def elim!: bind_SomeE)
    show ?thesis by (rule socks_event[OF T i _ st]) (use ro d SOCKS5_HANDLER in simp)
  next
    case PAM_HANDLER
    then obtain oth where f: "f = pam_write os oth" using r(1) by (auto simp: server_handlers_def pam_handlers_def no_handler_def)
    then obtain c q m c' e where st: "PAM_ATTACHMENT key p = Some c" "stm_handler on_write_ready (pamStates os) key (pm_stm c) (c, p) = Some (q, m, c', e)"
      "pam_after_event os oth key (q, m, c', e) = Some (k, p')"
      using r(2) by (auto simp: pam_write_def stm_handler_write_def elim!: bind_SomeE)
    show ?thesis by (rule pam_event[OF T i _ st(1) _ st(2,3)]) (use ro d PAM_HANDLER in simp_all)
  next
    case LOGGER_HANDLER
    then have "k = key \<and> with_log (write_logs_deferred h) p = Some p'"
      using r by (auto simp: server_handlers_def pam_handlers_def socks5_handlers_def pam_closing_def logger_handlers_def no_handler_def elim!: bind_SomeE)
    then show ?thesis using log_event[OF H i, of key p'] ro d LOGGER_HANDLER by simp
  qed (use r(1) in \<open>simp_all add: server_handlers_def pam_handlers_def socks5_handlers_def no_handler_def\<close>)
qed

lemma block_handled:
  fixes p :: "'w proxy"
  assumes T: "fd_table os opn" and i: "server_inv opn L p" and ik: "item_key p key"
    and ro: "roles p (k_fd key) = Some (Some x, d)"
    and r: "handle_block (server_handlers os h x) = Some f" "f key p = Some (k, p')"
  shows "handled opn L key k p'"
proof -
  have x: "x = SOCKS5_HANDLER"
    using r(1) by (cases x) (simp_all add: server_handlers_def pam_handlers_def socks5_handlers_def pam_closing_def logger_handlers_def no_handler_def)
  then obtain oth where f: "f = socksv5_block os oth" using r(1) by (auto simp: server_handlers_def pam_handlers_def socks5_handlers_def)
  then obtain c q m c' e where st: "ATTACHMENT key p = Some c" "machine_step os Ev_block key (stm c) (c, p) = Some (q, m, c', e)"
    "after_event os oth key (q, m, c', e) = Some (k, p')"
    using r(2) by (auto simp: socksv5_block_def machine_step_def elim!: bind_SomeE)
  show ?thesis by (rule socks_event[OF T i _ st]) (use ro ik x in \<open>auto simp: item_key_def\<close>)
qed

text \<open>The item at an index of the table, when it is used and when it is not.\<close>

lemma item_at:
  assumes s: "sound p" and it: "nth_opt (fds p) n = Some it"
  shows "ITEM_USED it \<Longrightarrow> it_fd it = int n \<and> it_handler it \<noteq> None \<and> roles p (int n) = Some (it_handler it, it_data it)"
    "\<not> ITEM_USED it \<Longrightarrow> roles p (int n) = None \<and> it_interest it = OP_NOOP"
    "roles p (int n) = None \<Longrightarrow> \<not> ITEM_USED it"
proof -
  have n: "n < fd_size p" "fds p ! n = it" using it by (auto simp: nth_opt_def split: if_splits)
  have r: "registry_ok p" "cleared p" using s by (simp_all add: sound_def)
  have e: "sel_entry p (int n) = (if ITEM_USED it then Some it else None)" using n by (simp add: sel_entry_def)
  show "ITEM_USED it \<Longrightarrow> it_fd it = int n \<and> it_handler it \<noteq> None \<and> roles p (int n) = Some (it_handler it, it_data it)"
    using e r entry_valid[of p "int n" it] by (simp add: roles_def)
  show "\<not> ITEM_USED it \<Longrightarrow> roles p (int n) = None \<and> it_interest it = OP_NOOP"
    using e n r(2) by (auto simp: roles_def cleared_def)
  show "roles p (int n) = None \<Longrightarrow> \<not> ITEM_USED it" using e by (auto simp: roles_def)
qed

lemma dispatch_handled:
  fixes p :: "'w proxy"
  assumes i: "server_inv opn L p" and key: "k_fd key = int n" and ik: "roles p (k_fd key) = None \<or> item_key p key"
    and step: "\<And>x d f k q. roles p (k_fd key) = Some (Some x, d) \<Longrightarrow> item_key p key \<Longrightarrow> sel (H x) = Some f \<Longrightarrow> f key p = Some (k, q) \<Longrightarrow> handled opn L key k q"
    and r: "dispatch sel op H n b key p = Some (k, p')"
  shows "handled opn L key k p'"
proof -
  have s: "sound p" using i socks_invD(1) by (auto simp: server_inv_def)
  obtain it where it: "nth_opt (fds p) n = Some it" using r by (auto simp: dispatch_def elim!: bind_SomeE)
  show ?thesis
  proof (cases "b \<and> op AND it_interest it \<noteq> 0")
    case True
    then have u: "ITEM_USED it" using item_at(2)[OF s it] by (cases "ITEM_USED it") auto
    obtain x f where f: "it_handler it = Some x" "sel (H x) = Some f" "f key p = Some (k, p')"
      using r it True by (auto simp: dispatch_def elim!: bind_SomeE)
    have ro: "roles p (k_fd key) = Some (Some x, it_data it)" using item_at(1)[OF s it u] f(1) key by simp
    then show ?thesis using step[OF ro _ f(2,3)] ik by simp
  next
    case False
    then have "k = key" "p' = p" using r it by (auto simp: dispatch_def)
    then show ?thesis using i ik by (simp add: handled_def)
  qed
qed

lemma body_keeps:
  fixes p :: "'w proxy"
  assumes T: "fd_table os opn" and H: "writes_quietly h opn" and i: "server_inv opn L p"
    and r: "iteration_body (server_handlers os h) n p = Some p'"
  shows "server_inv opn L p'"
proof -
  have s: "sound p" using i socks_invD(1) by (auto simp: server_inv_def)
  obtain it where it: "nth_opt (fds p) n = Some it" using r by (auto simp: iteration_body_def elim!: bind_SomeE)
  show ?thesis
  proof (cases "ITEM_USED it")
    case False
    then show ?thesis using r it i by (simp add: iteration_body_def)
  next
    case True
    let ?key = "\<lparr>k_fd = it_fd it, k_data = it_data it\<rparr>" and ?H = "server_handlers os h"
    note u = item_at(1)[OF s it True]
    obtain b k q b' k' where 1: "dispatch handle_read OP_READ ?H n b ?key p = Some (k, q)"
      and 2: "dispatch handle_write OP_WRITE ?H n b' k q = Some (k', p')"
      using r it True by (auto simp: iteration_body_def elim!: bind_SomeE)
    have ik: "item_key p ?key" "k_fd ?key = int n" using u by (auto simp: item_key_def)
    have "handled opn L ?key k q"
      by (rule dispatch_handled[OF i ik(2) _ _ 1]) (use ik(1) read_handled[OF T H i] in blast)+
    then have q: "server_inv opn L q" "k_fd k = int n" "roles q (k_fd k) = None \<or> item_key q k" using u by (auto simp: handled_def)
    have "handled opn L k k' p'"
      by (rule dispatch_handled[OF q _ 2]) (use write_handled[OF T H q(1)] in blast)
    then show ?thesis by (simp add: handled_def)
  qed
qed

lemma iterate_keeps:
  assumes "fd_table os opn" "writes_quietly h opn"
  shows "server_inv opn L p \<Longrightarrow> iterate (server_handlers os h) ns p = Some p' \<Longrightarrow> server_inv opn L p'"
  by (induction ns arbitrary: p) (auto elim!: bind_SomeE dest: body_keeps[OF assms])

lemma jobs_keep:
  fixes p :: "'w proxy"
  assumes T: "fd_table os opn"
  shows "server_inv opn L p \<Longrightarrow> run_jobs (server_handlers os h) js p = Some p' \<Longrightarrow> server_inv opn L p'"
proof (induction js arbitrary: p)
  case (Cons fd js)
  let ?H = "server_handlers os h"
  obtain it where it: "0 \<le> fd" "nth_opt (fds p) (nat fd) = Some it" using Cons.prems(2) by (cases "0 \<le> fd") (auto simp: c_assert_def elim!: bind_SomeE)
  have s: "sound p" using Cons.prems(1) socks_invD(1) by (auto simp: server_inv_def)
  show ?case
  proof (cases "ITEM_USED it")
    case False
    then show ?thesis using Cons it by simp
  next
    case True
    note u = item_at(1)[OF s it(2) True]
    obtain x f k q where b: "it_handler it = Some x" "handle_block (?H x) = Some f" "f \<lparr>k_fd = it_fd it, k_data = it_data it\<rparr> p = Some (k, q)"
      "run_jobs ?H js q = Some p'"
      using Cons.prems(2) it True by (auto elim!: bind_SomeE)
    have "handled opn L \<lparr>k_fd = it_fd it, k_data = it_data it\<rparr> k q"
      by (rule block_handled[OF T Cons.prems(1) _ _ b(2,3)]) (use u b(1) in \<open>auto simp: item_key_def\<close>)
    then show ?thesis using Cons.IH[OF _ b(4)] by (simp add: handled_def)
  qed
qed simp

lemma server_fields:
  "server_inv opn L (p\<lparr>slave_r := r\<rparr>) = server_inv opn L p" "server_inv opn L (p\<lparr>slave_w := r\<rparr>) = server_inv opn L p"
  "server_inv opn L (p\<lparr>resolution_jobs := js\<rparr>) = server_inv opn L p"
  by (simp_all add: server_inv_def socks_inv_def pam_held_def alive_def attached_def)

lemma select_keeps:
  fixes p :: "'w proxy"
  assumes T: "fd_table os opn" and H: "writes_quietly h opn" and i: "server_inv opn L p"
    and r: "selector_select (server_handlers os h) ps p = Some (st, p')"
  shows "server_inv opn L p'"
proof -
  let ?H = "server_handlers os h" and ?p = "p\<lparr>slave_r := master_r p, slave_w := master_w p\<rparr>"
  have jobs: "server_inv opn L q'" if "handle_block_notifications ?H q = Some q'" "server_inv opn L q" for q q'
    using that jobs_keep[OF T that(2)] by (auto simp: handle_block_notifications_def server_fields elim!: bind_SomeE)
  have i0: "server_inv opn L ?p" using i by (simp only: server_fields)
  consider (ready) r w where "ps = PS_READY r w" | (error) "ps = PS_EBADF \<or> ps = PS_OTHER" | (again) "ps = PS_EAGAIN \<or> ps = PS_EINTR"
    by (cases ps) auto
  then show ?thesis
  proof cases
    case ready
    then obtain q where q: "handle_iteration ?H (?p\<lparr>slave_r := r, slave_w := w\<rparr>) = Some q" "handle_block_notifications ?H q = Some p'"
      using assms(4) by (auto simp: selector_select_def Let_def elim!: bind_SomeE)
    have "server_inv opn L (?p\<lparr>slave_r := r, slave_w := w\<rparr>)" using i by (simp only: server_fields)
    then show ?thesis using jobs[OF q(2)] iterate_keeps[OF T H _ q(1)[unfolded handle_iteration_def]] by blast
  next
    case error
    then show ?thesis using assms(4) i0 by (auto simp: selector_select_def Let_def)
  next
    case again
    then have "handle_block_notifications ?H ?p = Some p'" using assms(4) by (auto simp: selector_select_def Let_def elim!: bind_SomeE)
    then show ?thesis using jobs i0 by blast
  qed
qed

section \<open>The server as a system of steps\<close>

text \<open>A round of the main loop, or a thread that has resolved its name.\<close>

inductive proxy_step :: "'w os \<Rightarrow> ('w, 'x) host_scheme \<Rightarrow> 'w proxy \<Rightarrow> 'w proxy \<Rightarrow> bool" for os h where
  round: "selector_select (server_handlers os h) ps p = Some (st, p') \<Longrightarrow> proxy_step os h p p'"
| resolved: "resolver_step os key p = Some p' \<Longrightarrow> proxy_step os h p p'"

lemma resolver_keeps:
  fixes p :: "'w proxy"
  assumes T: "fd_table os opn" and i: "server_inv opn L p" and r: "resolver_step os key p = Some p'"
  shows "server_inv opn L p'"
proof -
  have si: "socks_inv opn L p" and pi: "pam_held p" using i by (simp_all add: server_inv_def)
  obtain a c where a: "k_data key = Some a" "sv_conns p a = Some c" using r by (auto simp: resolver_step_def ATTACHMENT_def elim!: bind_SomeE)
  obtain c' e where e: "resolve_fqdn_blocking os key (c, p) = (c', e)" by fastforce
  have p': "p' = put_conn key (Some c') e" using r a e by (simp add: resolver_step_def ATTACHMENT_def)
  obtain x w m w' where io: "os_getaddrinfo os (cstr (origin_host c)) (cstr (origin_port c)) (e_world p) = (x, w)" "os_malloc os w = (m, w')" by fastforce
  have ow: "opn w' = opn (e_world p)" using table_calls(10)[OF io(1) T] table_calls(8)[OF io(2) T] by simp
  have c': "client_fd c' = client_fd c" "origin_fd c' = origin_fd c" "closed c' = closed c" "stm c' = stm c" "client c' = client c"
    using e io by (auto simp: resolve_fqdn_blocking_def Let_def split: prod.splits)
  define e0 where "e0 = (if m then p\<lparr>e_world := w', resolution_jobs := k_fd key # resolution_jobs p\<rparr> else p\<lparr>e_world := w'\<rparr>)"
  have e1: "e = e0\<lparr>e_threads := remove1 key (e_threads p)\<rparr>"
    using e unfolding resolve_fqdn_blocking_def selector_notify_block_def Let_def e0_def prod.case io by (cases m; cases p) simp_all
  have e2: "sound e0 = sound p" "roles e0 = roles p" "e_world e0 = w'" "sv_conns e0 = sv_conns p" "sv_next e0 = sv_next p"
    "pm_conns e0 = pm_conns p" "pm_next e0 = pm_next p"
    by (simp_all add: e0_def)
  have ee: "sound e" "roles e = roles p" "opn (e_world e) = opn (e_world p)" "sv_conns e = sv_conns p" "sv_next e = sv_next p"
    "pm_conns e = pm_conns p" "pm_next e = pm_next p"
    using e1 e2 ow socks_invD(1)[OF si] by simp_all
  have q: "sound p'" "roles p' = roles p" "opn (e_world p') = opn (e_world p)" "sv_conns p' = (sv_conns p)(a \<mapsto> c')" "sv_next p' = sv_next p"
    "pm_conns p' = pm_conns p" "pm_next p' = pm_next p"
    using ee a(1) unfolding p' by (simp_all add: put_conn_def)
  note D = socks_invD[OF si]
  have al: "alive p' b y \<longleftrightarrow> (if b = a then alive p a c \<and> y = c' else alive p b y)" for b y
    using q a(2) c' by (auto simp: alive_def)
  have at: "attached opn b s y p' = attached opn b s y p" for b s y using q by (simp add: attached_def)
  have ac: "attached opn b s c' p = attached opn b s c p" for b s using c' by (simp add: attached_def)
  have "socks_inv opn L p'"
  proof (rule socks_invI)
    show "table_ok (stm y) \<and> attached opn b (state_of (stm y)) y p'" if "alive p' b y" for b y
      using that al[of b y] at ac c' socks_invD(8,9)[OF si] by (auto split: if_splits)
    show "\<exists>b y. d = Some b \<and> alive p' b y \<and> fd \<in> {client_fd y, origin_fd y}" if rf: "roles p' fd = Some (Some SOCKS5_HANDLER, d)" for fd d
    proof -
      obtain b y where b: "d = Some b" "alive p b y" "fd \<in> {client_fd y, origin_fd y}" using D(7)[of fd d] rf q(2) by auto
      show ?thesis
      proof (cases "b = a")
        case True
        then have "y = c" using b(2) a(2) by (simp add: alive_def)
        then show ?thesis using b al[of a c'] c' True by auto
      next
        case False
        then have "alive p' b y" using b(2) al[of b y] by simp
        then show ?thesis using b(1,3) by blast
      qed
    qed
    show "origin_fd y \<notin> L" if "alive p' b y" for b y using that al[of b y] c' D(6) by (auto split: if_splits)
    show "origin_fd y = - 1 \<or> origin_fd y \<noteq> origin_fd z" if "alive p' b y" "alive p' b' z" "b \<noteq> b'" for b b' y z
      using that al[of b y] al[of b' z] c' D(10) by (auto split: if_splits)
    show "sv_conns p' b = None" if "sv_next p' \<le> b" for b using that q(4,5) D(11)[of b] a(2) by auto
    show "fd \<in> opn (e_world p')" if "roles p' fd \<noteq> None" for fd using that D(2) q(2,3) by simp
    show "roles p' fd = None" if "fd \<in> L" for fd using that D(5) q(2) by simp
    show "L \<subseteq> opn (e_world p')" using D(4) q(3) by simp
  qed (use q(1) D(3) in blast)+
  then show ?thesis using pi q by (simp add: server_inv_def pam_held_def)
qed

lemma steps_keep:
  assumes "fd_table os opn" "writes_quietly h opn"
  shows "(proxy_step os h)\<^sup>*\<^sup>* p p' \<Longrightarrow> server_inv opn L p \<Longrightarrow> server_inv opn L p'"
  by (induction rule: rtranclp_induct) (auto elim!: proxy_step.cases dest: select_keeps[OF assms] resolver_keeps[OF assms(1)])

end
