(* ===== verification/ServerSample.thy ===== *)
theory ServerSample
  imports ServerEnd PamSample ClientServer NetUtils
begin

text \<open>A system on which the server starts: its world is the number of the next descriptor.\<close>

definition boot_os :: "nat os" where
  "boot_os = \<lparr>
     os_recv = (\<lambda>fd n w. (SysErr 11, w)),
     os_send = (\<lambda>fd bs w. (SysOk (length bs), w)),
     os_shutdown = (\<lambda>fd h w. w),
     os_close = (\<lambda>fd w. w),
     os_socket = (\<lambda>a b c w. (SysOk (int w), Suc w)),
     os_connect = (\<lambda>fd a w. (SysErr EINPROGRESS, w)),
     os_so_error = (\<lambda>fd w. (SysOk 0, w)),
     os_getsockname = (\<lambda>fd w. (SysErr 9, w)),
     os_accept = (\<lambda>fd w. (SysErr 11, w)),
     os_getfd = (\<lambda>fd w. (SysOk 0, w)),
     os_setfl = (\<lambda>fd f w. (SysOk (), w)),
     os_malloc = (\<lambda>w. (True, w)),
     os_thread = (\<lambda>w. (True, w)),
     os_uninit = (\<lambda>n w. replicate n 0),
     os_ntop = (\<lambda>f a n. Some [49]),
     os_pton = (\<lambda>f t. PtonOk [0, 0, 0, 0]),
     os_getaddrinfo = (\<lambda>h p w. (None, w)) \<rparr>"

definition boot_platform :: "nat platform" where
  "boot_platform = \<lparr>
     h_write = (\<lambda>fd bs w. (SysOk (length bs), w)),
     h_open = (\<lambda>n w. (SysErr 2, w)),
     h_localtime = (\<lambda>w. \<lparr>tm_year = 125, tm_mon = 10, tm_mday = 5, tm_hour = 12, tm_min = 30, tm_sec = 0\<rparr>),
     h_strerror = (\<lambda>e. []),
     NO_COLOR_LOGS = False,
     pt_sigprocmask = (\<lambda>w. (0, w)),
     pt_sigaction = (\<lambda>w. (0, w)),
     pt_reuseaddr = (\<lambda>fd w. w),
     pt_bind = (\<lambda>fd a n w. (if n = 16 \<or> n = 28 then SysOk () else SysErr 22, w)),
     pt_listen = (\<lambda>fd n w. (SysOk (), w)),
     pt_errno = (\<lambda>w. 0) \<rparr>"

definition below :: "nat \<Rightarrow> int set" where
  "below w = int ` {0..<w}"

lemma below_Suc: "below (Suc w) = insert (int w) (below w)"
  by (auto simp: below_def)

lemma few_below: "few (below w) n \<longleftrightarrow> w + n \<le> 16"
  by (simp add: few_def below_def card_image)

lemma boot_boots: "boots boot_os boot_platform below"
  unfolding boots_def
  by (intro conjI)
    (auto simp: mem_ok_def os_ok_def clock_ok_def selector_fd_set_nio_def boot_os_def boot_platform_def few_below below_Suc, auto simp: below_def)

lemma boot_valid: "addr_valid boot_os a"
  by (simp add: addr_valid_def boot_os_def)

lemma boot_close: "os_close boot_os fd w = w"
  by (simp add: boot_os_def)

lemma boot_ready: "STDOUT_FILENO \<in> below (os_close boot_os 0 3)" "few (below (os_close boot_os 0 3)) 2"
proof -
  have "STDOUT_FILENO = int 1" by simp
  then show "STDOUT_FILENO \<in> below (os_close boot_os 0 3)" unfolding boot_close below_def by (metis atLeastLessThan_iff imageI zero_le one_less_numeral_iff semiring_norm(77))
  show "few (below (os_close boot_os 0 3)) 2" by (simp add: boot_close few_below)
qed

text \<open>A server with an empty table and the user \<open>admin\<close>.\<close>

definition blank_proxy :: "(nat \<Rightarrow> socks5 option) \<Rightarrow> 'w \<Rightarrow> 'w proxy" where
  "blank_proxy cs w = (proxy_static w)\<lparr>fds := replicate 1025 (item_init zero_item), e_users := sample_db, sv_conns := cs\<rparr>"

lemma blank_ok:
  "sel_entry (blank_proxy cs w) = (\<lambda>_. None)" "sel_inv (blank_proxy cs w)" "sel_full (blank_proxy cs w)"
proof -
  show e: "sel_entry (blank_proxy cs w) = (\<lambda>_. None)"
    by (auto simp: fun_eq_iff blank_proxy_def sel_entry_def item_init_def ITEM_USED_def)
  show "sel_inv (blank_proxy cs w)" "sel_full (blank_proxy cs w)"
    unfolding sel_inv_def items_ok_def max_ok_def wants_def sel_full_def e by (simp_all add: blank_proxy_def proxy_static_def)
qed

lemma blank_fields [simp]:
  "e_users (blank_proxy cs w) = sample_db" "e_world (blank_proxy cs w) = w" "resolution_jobs (blank_proxy cs w) = []"
  "sv_conns (blank_proxy cs w) = cs" "sv_next (blank_proxy cs w) = 0" "px_log (blank_proxy cs w) = logger_static"
  by (simp_all add: blank_proxy_def proxy_static_def)

lemma with_item_more [simp]:
  "e_users (with_item fd h i d s) = e_users s" "e_world (with_item fd h i d s) = e_world s"
  "resolution_jobs (with_item fd h i d s) = resolution_jobs s" "sv_conns (with_item fd h i d t) = sv_conns t"
  "sv_next (with_item fd h i d t) = sv_next t" "px_log (with_item fd h i d u) = px_log u"
  by (simp_all add: with_item_def)

text \<open>A server in its loop with one proxied connection, on the descriptors 5 and 7.\<close>

definition busy_proxy :: "nat \<Rightarrow> nat proxy" where
  "busy_proxy w = with_item 7 (Some SOCKS5_HANDLER) OP_READ (Some 0) (with_item 5 (Some SOCKS5_HANDLER) OP_READ (Some 0)
     (blank_proxy [0 \<mapsto> sample_copying [1] []] w))"

definition busy_boot :: "nat boot" where
  "busy_boot = \<lparr>bt_proxy = busy_proxy 9, bt_selector = True, bt_server = 3, bt_pamServer = 4\<rparr>"

lemma busy_proxy_ok:
  "sel_inv (busy_proxy w)" "sel_full (busy_proxy w)" "live_conn 0 (sample_copying [1] []) (busy_proxy w)"
  "sel_entry (busy_proxy w) = [5 \<mapsto> \<lparr>it_fd = 5, it_interest = OP_READ, it_handler = Some SOCKS5_HANDLER, it_data = Some 0\<rparr>,
      7 \<mapsto> \<lparr>it_fd = 7, it_interest = OP_READ, it_handler = Some SOCKS5_HANDLER, it_data = Some 0\<rparr>]"
  "px_log (busy_proxy w) = logger_static"
proof -
  let ?s = "blank_proxy [0 \<mapsto> sample_copying [1] []] w"
  note e0 = blank_ok(1)[of "[0 \<mapsto> sample_copying [1] []]" w] and s0 = blank_ok(2,3)[of "[0 \<mapsto> sample_copying [1] []]" w]
  have a: "sel_entry ?s 5 = None" using e0 by simp
  note A = register_spec[where r = SOCKS5_HANDLER and i = OP_READ and d = "Some 0", OF s0 _ _ a]
  let ?a = "with_item 5 (Some SOCKS5_HANDLER) OP_READ (Some 0) ?s"
  have b: "sel_entry ?a 7 = None" using A(4) e0 by simp
  have a1: "sel_inv ?a" "sel_full ?a" using A(2,3) by simp_all
  note B = register_spec[where r = SOCKS5_HANDLER and i = OP_READ and d = "Some 0", OF a1 _ _ b]
  show "sel_inv (busy_proxy w)" "sel_full (busy_proxy w)" using B(2,3) by (simp_all add: busy_proxy_def)
  show e: "sel_entry (busy_proxy w) = [5 \<mapsto> \<lparr>it_fd = 5, it_interest = OP_READ, it_handler = Some SOCKS5_HANDLER, it_data = Some 0\<rparr>,
      7 \<mapsto> \<lparr>it_fd = 7, it_interest = OP_READ, it_handler = Some SOCKS5_HANDLER, it_data = Some 0\<rparr>]"
    unfolding busy_proxy_def using A(4) B(4) e0 by simp
  show "px_log (busy_proxy w) = logger_static" by (simp add: busy_proxy_def)
  have "sv_conns (busy_proxy w) = [0 \<mapsto> sample_copying [1] []]" by (simp add: busy_proxy_def)
  moreover have "\<not> closed (sample_copying [1] [])" "stm_ok (sample_copying [1] [])" "client_fd (sample_copying [1] []) = 5"
      "origin_fd (sample_copying [1] []) = 7"
    by (simp_all add: sample_copying_def stm_ok_def)
  ultimately show "live_conn 0 (sample_copying [1] []) (busy_proxy w)" using e by (simp add: live_conn_def owned_def)
qed

text \<open>A logger that holds the given messages.\<close>

lemma queue_with:
  assumes "length ms \<le> MAX_LOG_QUEUE_SIZE"
  shows "\<exists>q :: (byte list, nat) queue. queue_inv q \<and> queue_list q = ms \<and> q_freeFn q = Some free_log \<and> q_max_capacity q = MAX_LOG_QUEUE_SIZE"
  using assms
proof (induction ms rule: rev_induct)
  case Nil
  obtain q :: "(byte list, nat) queue" where "create_queue True (Some free_log) MAX_LOG_QUEUE_SIZE = Some q" by (simp add: create_queue_def)
  from create_queue_spec[OF this] show ?case by auto
next
  case (snoc m ms)
  then obtain q :: "(byte list, nat) queue" where q: "queue_inv q" "queue_list q = ms" "q_freeFn q = Some free_log" "q_max_capacity q = MAX_LOG_QUEUE_SIZE"
    by auto
  have "q_size q < q_max_capacity q" using queue_size_list[OF q(1)] q(2,4) snoc.prems by simp
  then show ?case using enqueue_link_spec[OF q(1), of m] q by auto
qed

lemma logger_with:
  assumes "length ms \<le> MAX_LOG_QUEUE_SIZE"
  obtains lg where "log_ok lg" "pending lg = ms" "currentLog lg = None" "logFile lg = STDOUT_FILENO" "\<not> loggerSelector lg" "log_live lg = length ms"
proof -
  obtain q :: "(byte list, nat) queue" where q: "queue_inv q" "queue_list q = ms" "q_freeFn q = Some free_log" "q_max_capacity q = MAX_LOG_QUEUE_SIZE"
    using queue_with[OF assms] by blast
  let ?lg = "logger_static\<lparr>logQueue := Some q, logFile := STDOUT_FILENO, log_live := length ms\<rparr>"
  have "log_ok ?lg" using q by (intro log_okI[of _ q]) (simp_all add: logger_static_def)
  then show thesis using q(2) by (intro that[of ?lg]) (simp_all add: pending_def logger_static_def)
qed

text \<open>A file that takes everything, and one that takes a byte of each write.\<close>

lemma boot_takes_all: "takes_all boot_platform"
  by (simp add: takes_all_def boot_platform_def)

end
