(* ===== verification/Sessions.thy ===== *)
theory Sessions
  imports Rounds ServerSample
begin

text \<open>
  A client from its connection to the relay, through the main loop: eight rounds, in each of which
  one descriptor is ready, take it through every phase of the protocol.
\<close>

section \<open>The connection in the server\<close>

definition conn_item :: "int \<Rightarrow> nat \<Rightarrow> fd_interest \<Rightarrow> (handler_ref, attachment) item" where
  "conn_item fd a i = \<lparr>it_fd = fd, it_interest = i, it_handler = Some SOCKS5_HANDLER, it_data = Some a\<rparr>"

lemma conn_item_simps [simp]:
  "it_fd (conn_item fd a i) = fd" "it_interest (conn_item fd a i) = i" "it_handler (conn_item fd a i) = Some SOCKS5_HANDLER"
  "it_data (conn_item fd a i) = Some a" "(conn_item fd a i)\<lparr>it_interest := j\<rparr> = conn_item fd a j"
  by (simp_all add: conn_item_def)

text \<open>The server \<open>p\<close> differs from \<open>p0\<close> by the connection \<open>a\<close> in the state \<open>q\<close>, and its registry is \<open>en\<close>.\<close>

definition session_at ::
  "'w proxy \<Rightarrow> nat \<Rightarrow> nat option \<Rightarrow> (int \<Rightarrow> (handler_ref, attachment) item option) \<Rightarrow> socks5 \<Rightarrow> 'w proxy \<Rightarrow> bool" where
  "session_at p0 a q en c p \<longleftrightarrow> registry_ok p \<and> resolution_jobs p = [] \<and> sel_entry p = en
     \<and> sv_conns p = (sv_conns p0)(a \<mapsto> c) \<and> pm_conns p = pm_conns p0 \<and> px_log p = px_log p0
     \<and> stm c = \<lparr>initial = GREETING, max_state = ERROR, current = q\<rparr> \<and> \<not> closed c \<and> bufs_ok c \<and> arrays_ok c"

lemma session_step:
  assumes s: "session_at p0 a q en c p" "en fd = Some (conn_item fd a i)" "awaits ev i"
    and step: "machine_step os ev \<lparr>k_fd = fd, k_data = Some a\<rparr> (stm c) (c, seen ev fd p)
      = Some (q', \<lparr>initial = GREETING, max_state = ERROR, current = Some q'\<rparr>, c', e)" "q' \<noteq> ERROR" "q' \<noteq> DONE"
    and k: "registry_ok e" "bufs_ok c'" "arrays_ok c'" "\<not> closed c'"
  shows "\<exists>p'. selector_select (server_handlers os h) (ready ev fd) p = Some (SELECTOR_SUCCESS, p')
    \<and> session_at p0 a (Some q') (sel_entry e) (c'\<lparr>stm := \<lparr>initial = GREETING, max_state = ERROR, current = Some q'\<rparr>\<rparr>) p'
    \<and> e_world p' = e_world e \<and> e_users p' = e_users e \<and> e_metrics p' = e_metrics e
    \<and> client_addr c' = client_addr c \<and> e_calls p' = e_calls e \<and> (q \<noteq> Some CONNECT \<longrightarrow> e_calls p' = e_calls p)"
proof -
  let ?p' = "e\<lparr>sv_conns := (sv_conns p)(a \<mapsto> c'\<lparr>stm := \<lparr>initial = GREETING, max_state = ERROR, current = Some q'\<rparr>\<rparr>)\<rparr>"
  have p: "sel_inv p" "sel_full p" "sel_entry p fd = Some (conn_item fd a i)" "resolution_jobs p = []" "sv_conns p a = Some c"
    using s(1,2) by (simp_all add: session_at_def)
  note R = round_event(1)[OF p(1-3) _ _ _ p(4,5) step, where h = h] round_event(2)[OF p(1-3) _ _ _ p(4,5) step]
  have r: "selector_select (server_handlers os h) (ready ev fd) p = Some (SELECTOR_SUCCESS, ?p')" "calm e = calm (seen ev fd p)"
    using R s(3) k(1) by simp_all
  have "pm_conns e = pm_conns p" "px_log e = px_log p" "resolution_jobs e = []"
    using r(2) p(4) more_fields[of e "seen ev fd p"] by (simp_all add: calm_def)
  then have "session_at p0 a (Some q') (sel_entry e) (c'\<lparr>stm := \<lparr>initial = GREETING, max_state = ERROR, current = Some q'\<rparr>\<rparr>) ?p'"
    using s(1) k by (auto simp: session_at_def bufs_ok_def arrays_ok_def)
  moreover have "phase (stm c) = (case q of None \<Rightarrow> GREETING | Some x \<Rightarrow> x)" using s(1) by (simp add: session_at_def phase_def split: option.splits)
  then have "client_addr c' = client_addr c" "q \<noteq> Some CONNECT \<longrightarrow> e_calls e = e_calls p"
    using modest_machine[OF step(1)] by (auto simp: modest_def split: option.splits)
  ultimately show ?thesis using r(1) by (intro exI[of _ ?p']) simp
qed

section \<open>A client and a destination that keep to the protocol\<close>

text \<open>
  What the server does that others notice. \<open>inbox w\<close> is what the client on the descriptor \<open>fd\<close> has
  still to send, in its segments, and \<open>acts w\<close> what was done: the client takes what it is sent, and
  the connection to the destination, on the descriptor \<open>ofd\<close>, is made after a while.
\<close>

datatype act = Told "byte list" | Dialled sockaddr

definition unheard :: "('w \<Rightarrow> byte list list) \<Rightarrow> ('w \<Rightarrow> act list) \<Rightarrow> 'w \<Rightarrow> 'w \<Rightarrow> bool" where
  "unheard inbox acts w w' \<longleftrightarrow> inbox w' = inbox w \<and> acts w' = acts w"

definition plays ::
  "'w os \<Rightarrow> int \<Rightarrow> int \<Rightarrow> sockaddr \<Rightarrow> ('w \<Rightarrow> byte list list) \<Rightarrow> ('w \<Rightarrow> act list) \<Rightarrow> bool" where
  "plays os fd ofd bnd inbox acts \<longleftrightarrow>
     (\<forall>w n. inbox w = [] \<longrightarrow> (\<exists>x w'. os_recv os fd n w = (SysErr x, w') \<and> unheard inbox acts w w'))
   \<and> (\<forall>w n bs rest. inbox w = bs # rest \<longrightarrow> length bs \<le> n \<longrightarrow>
        (\<exists>w'. os_recv os fd n w = (SysOk bs, w') \<and> inbox w' = rest \<and> acts w' = acts w))
   \<and> (\<forall>w bs. \<exists>w'. os_send os fd bs w = (SysOk (length bs), w') \<and> inbox w' = inbox w \<and> acts w' = acts w @ [Told bs])
   \<and> (\<forall>w. unheard inbox acts w (snd (os_malloc os w)))
   \<and> (\<forall>d t k w. \<exists>w'. os_socket os d t k w = (SysOk ofd, w') \<and> unheard inbox acts w w')
   \<and> (\<forall>w. \<exists>w'. selector_fd_set_nio os ofd w = (0, w') \<and> unheard inbox acts w w')
   \<and> (\<forall>to w. \<exists>w'. os_connect os ofd to w = (SysErr EINPROGRESS, w') \<and> inbox w' = inbox w \<and> acts w' = acts w @ [Dialled to])
   \<and> (\<forall>w. \<exists>w'. os_so_error os ofd w = (SysOk 0, w') \<and> unheard inbox acts w w')
   \<and> (\<forall>w. \<exists>w'. os_getsockname os ofd w = (SysOk bnd, w') \<and> unheard inbox acts w w')"

lemma playsD:
  assumes "plays os fd ofd bnd inbox acts"
  shows "inbox w = [] \<Longrightarrow> \<exists>x w'. os_recv os fd n w = (SysErr x, w') \<and> unheard inbox acts w w'"
    "inbox w = bs # rest \<Longrightarrow> length bs \<le> n \<Longrightarrow> \<exists>w'. os_recv os fd n w = (SysOk bs, w') \<and> inbox w' = rest \<and> acts w' = acts w"
    "\<exists>w'. os_send os fd bs w = (SysOk (length bs), w') \<and> inbox w' = inbox w \<and> acts w' = acts w @ [Told bs]"
    "unheard inbox acts w (snd (os_malloc os w))"
    "\<exists>w'. os_socket os d t k w = (SysOk ofd, w') \<and> unheard inbox acts w w'"
    "\<exists>w'. selector_fd_set_nio os ofd w = (0, w') \<and> unheard inbox acts w w'"
    "\<exists>w'. os_connect os ofd to w = (SysErr EINPROGRESS, w') \<and> inbox w' = inbox w \<and> acts w' = acts w @ [Dialled to]"
    "\<exists>w'. os_so_error os ofd w = (SysOk 0, w') \<and> unheard inbox acts w w'"
    "\<exists>w'. os_getsockname os ofd w = (SysOk bnd, w') \<and> unheard inbox acts w w'"
  using assms unfolding plays_def by blast+

section \<open>Accepting\<close>

lemma round_accept:
  assumes os: "os_ok os" and p: "registry_ok p" "resolution_jobs p = []"
      "sel_entry p lfd = Some \<lparr>it_fd = lfd, it_interest = OP_READ, it_handler = Some SOCKSV5_PASSIVE, it_data = None\<rparr>"
    and acc: "accepted os \<lparr>k_fd = lfd, k_data = None\<rparr> p fd addr w"
    and fd: "0 \<le> fd" "fd < int FD_SETSIZE" "sel_entry p fd = None"
  shows "\<exists>c p'. selector_select (server_handlers os h) (ready Ev_read lfd) p = Some (SELECTOR_SUCCESS, p')
    \<and> session_at p (sv_next p) None ((sel_entry p)(fd \<mapsto> conn_item fd (sv_next p) OP_READ)) c p'
    \<and> client_fd c = fd \<and> buffer_window (client_buffer c) = [] \<and> buffer_window (origin_buffer c) = []
    \<and> e_world p' = w \<and> e_users p' = e_users p \<and> e_metrics p' = register_new_connection (e_metrics p)
    \<and> client_addr c = addr \<and> e_calls p' = accept_log os addr p"
proof -
  let ?a = "sv_next p" and ?s = "seen Ev_read lfd p" and ?key = "\<lparr>k_fd = lfd, k_data = None\<rparr>"
  have acc': "accepted os ?key ?s fd addr w" using acc by (simp add: accepted_def)
  obtain c where c: "socksv5_passive_accept os ?key ?s = do {
      (st, s) \<leftarrow> selector_register (fst (os_malloc os w)) fd (Some SOCKS5_HANDLER) OP_READ (Some (sv_next ?s))
        (?s\<lparr>e_calls := accept_log os addr ?s, e_metrics := register_new_connection (e_metrics ?s), e_world := w,
           sv_conns := (sv_conns ?s)(sv_next ?s := Some c), sv_next := sv_next ?s + 1\<rparr>);
      Some (?key\<lparr>k_data := None\<rparr>, if st \<noteq> SELECTOR_SUCCESS then s\<lparr>e_world := os_close os fd (e_world s)\<rparr> else s) }"
    "client_fd c = fd" "client_addr c = addr" "origin_fd c = - 1" "\<not> closed c" "bufs_ok c" "arrays_ok c" "drained c"
    "stm c = \<lparr>initial = GREETING, max_state = ERROR, current = None\<rparr>"
    "buffer_window (client_buffer c) = []"
    by (rule accept_start[OF os acc'])
  let ?s1 = "?s\<lparr>e_calls := accept_log os addr ?s, e_metrics := register_new_connection (e_metrics ?s), e_world := w, sv_conns := (sv_conns ?s)(sv_next ?s := Some c),
    sv_next := sv_next ?s + 1\<rparr>"
  let ?p' = "with_item fd (Some SOCKS5_HANDLER) OP_READ (Some ?a) ?s1"
  have s1: "registry_ok ?s1" "sel_entry ?s1 fd = None" using p(1) fd(3) by simp_all
  have nf: "\<not> INVALID_FD fd" using fd(1,2) by (simp add: INVALID_FD_def)
  have sz: "nat fd < fd_size ?s1" using valid_in_full[OF _ nf, of ?s1] s1(1) by blast
  have reg: "selector_register m fd (Some SOCKS5_HANDLER) OP_READ (Some (sv_next ?s)) ?s1 = Some (SELECTOR_SUCCESS, ?p')" for m
    by (subst register_free[OF _ nf sz s1(2)]) (use s1(1) in simp_all)
  have run: "socksv5_passive_accept os ?key ?s = Some (?key, ?p')" unfolding c(1) reg by simp
  have inv: "sel_inv ?p'" by (rule inv_with_item[OF _ fd(1) _ sz]) (use s1(1) fd(2) in simp_all)
  have ent: "sel_entry ?p' = (sel_entry p)(fd \<mapsto> conn_item fd ?a OP_READ)"
    unfolding entry_with_item[OF fd(1) sz] by (simp add: fun_eq_iff conn_item_def)
  have full: "sel_full ?p'" using s1(1) by simp
  have flds: "slave_r ?p' = slave_r ?s" "slave_w ?p' = slave_w ?s" "resolution_jobs ?p' = []" "sv_conns ?p' = (sv_conns p)(?a := Some c)"
      "pm_conns ?p' = pm_conns p" "px_log ?p' = px_log p" "e_world ?p' = w" "e_users ?p' = e_users p"
      "e_metrics ?p' = register_new_connection (e_metrics p)" "e_calls ?p' = accept_log os addr p"
    using p(2) by (simp_all add: with_item_def accept_log_def)
  have "selector_select (server_handlers os h) (ready Ev_read lfd) p = Some (SELECTOR_SUCCESS, ?p')"
    by (rule round_handler[OF _ _ p(3), where x = SOCKSV5_PASSIVE and f = "socksv5_passive_accept os" and k = ?key])
      (use p run inv full flds in \<open>simp_all add: server_handlers_def pam_handlers_def socks5_handlers_def\<close>)
  moreover have "session_at p ?a None ((sel_entry p)(fd \<mapsto> conn_item fd ?a OP_READ)) c ?p'"
    unfolding session_at_def using inv full flds ent c by simp
  ultimately show ?thesis using c flds by (auto simp: drained_def)
qed

section \<open>The greeting\<close>

lemma greeting_read_rest: "greeting_read os key (c, e) = Some (q, c', e') \<Longrightarrow> auth_rest c c'"
  by (auto simp: auth_rest_def greeting_read_def greeting_methods_def Let_def
      elim!: bind_SomeE split: prod.splits if_splits client_union.splits)

lemma greeting_write_rest: "greeting_write os key (c, e) = Some (q, c', e') \<Longrightarrow> auth_rest c c'"
  by (auto simp: auth_rest_def greeting_write_def Let_def elim!: bind_SomeE split: prod.splits if_splits)

lemma auth_restD: "auth_rest c c' \<Longrightarrow> client_fd c' = client_fd c \<and> origin_fd c' = origin_fd c \<and> stm c' = stm c
  \<and> closed c' = closed c \<and> arrays_ok c' = arrays_ok c \<and> origin_resolution c' = origin_resolution c"
  by (simp add: auth_rest_def arrays_ok_def)

lemma entry_conn_poke:
  assumes "en fd = Some (conn_item fd a j)" "sel_entry e = en"
  shows "sel_entry (poke fd i e) = en(fd \<mapsto> conn_item fd a i)"
  using assms by (simp add: entry_poke)

lemma room_empty: "bufs_ok c \<Longrightarrow> buffer_window (client_buffer c) = [] \<Longrightarrow> buffer_room (client_buffer c) = BUFFER_SIZE"
  using room_of_empty by (simp add: bufs_ok_def)

lemma drop_until: "x \<notin> set us \<Longrightarrow> dropWhile (\<lambda>m. m \<noteq> x) (us @ [x]) = [x]"
  by (induction us) auto

lemma round_greeting:
  assumes os: "os_ok os" and s: "session_at p0 a None en c p" "en fd = Some (conn_item fd a OP_READ)"
    and c: "buffer_window (client_buffer c) = []" "buffer_window (origin_buffer c) = []"
    and rd: "os_recv os fd BUFFER_SIZE (e_world p) = (SysOk (SOCKS5_VERSION # n # us @ [AUTH_METHOD]), w)"
    and n: "Suc (length us) = unat n" "AUTH_METHOD \<notin> set us"
  shows "\<exists>c' p'. selector_select (server_handlers os h) (ready Ev_read fd) p = Some (SELECTOR_SUCCESS, p')
    \<and> session_at p0 a (Some GREETING) (en(fd \<mapsto> conn_item fd a OP_WRITE)) c' p'
    \<and> client_fd c' = client_fd c \<and> buffer_window (client_buffer c') = [] \<and> buffer_window (origin_buffer c') = [SOCKS5_VERSION, AUTH_METHOD]
    \<and> (\<exists>g. client c' = U_greeting g \<and> g_method g = AUTH_METHOD)
    \<and> e_world p' = w \<and> e_users p' = e_users p \<and> e_metrics p' = e_metrics p
    \<and> client_addr c' = client_addr c \<and> e_calls p' = e_calls p"
proof -
  let ?key = "\<lparr>k_fd = fd, k_data = Some a\<rparr>" and ?e = "seen Ev_read fd p"
  let ?g = "\<lparr>g_state = VER_N_NMETHODS, g_n_methods = hd (os_uninit os 1 (e_world ?e)), g_method = NO_AUTH_METHOD\<rparr>"
  let ?c = "c\<lparr>client := U_greeting ?g\<rparr>"
  have b: "bufs_ok c" "arrays_ok c" "\<not> closed c" "stm c = \<lparr>initial = GREETING, max_state = ERROR, current = None\<rparr>" "registry_ok ?e" "sel_entry ?e = en"
    using s(1) by (simp_all add: session_at_def)
  have g: "greeting_ready ?c ?g" using c b(1) by (simp add: greeting_ready_def bufs_ok_def)
  have room: "buffer_room (client_buffer ?c) = BUFFER_SIZE" using room_empty[OF b(1) c(1)] by simp
  have n0: "n \<noteq> 0" "length (us @ [AUTH_METHOD]) = unat n" "AUTH_METHOD \<in> set (us @ [AUTH_METHOD])" using n(1) by auto
  have ms: "after_methods (unat n) (us @ [AUTH_METHOD]) = []"
    using after_methods_tl[OF n0(2)] drop_until[OF n(2)] by simp
  obtain c1 e1 g1 where r: "greeting_read os ?key (?c, ?e) = Some (GREETING, c1, e1)" "bufs_ok c1"
      "client c1 = U_greeting g1" "g_method g1 = AUTH_METHOD" "buffer_window (client_buffer c1) = []"
      "buffer_window (origin_buffer c1) = [SOCKS5_VERSION, AUTH_METHOD]" "e1 = poke fd OP_WRITE (?e\<lparr>e_world := w\<rparr>)"
    using greeting_read_spec[OF os g b(5), of ?key] rd n0 c(1) room ms
    by (auto simp: greet_from_def greet_methods_def greeted_def)
  have rest: "auth_rest ?c c1" by (rule greeting_read_rest[OF r(1)])
  let ?m = "\<lparr>initial = GREETING, max_state = ERROR, current = None\<rparr>"
  have "machine_step os Ev_read ?key ?m (c, ?e) = Some (GREETING, ?m\<lparr>current := Some GREETING\<rparr>, c1, e1)"
    by (rule step_first[where ?s1.0 = "(?c, ?e)" and h = "greeting_read os"])
      (use r(1) in \<open>simp_all add: states_arrival run_hook_def greeting_arrival_def ready_handler_def states_read\<close>)
  then have step: "machine_step os Ev_read ?key (stm c) (c, ?e) = Some (GREETING, \<lparr>initial = GREETING, max_state = ERROR, current = Some GREETING\<rparr>, c1, e1)"
    using b(4) by simp
  have e1: "registry_ok e1" "sel_entry e1 = en(fd \<mapsto> conn_item fd a OP_WRITE)"
    using r(7) b(5) entry_conn_poke[of en fd a OP_READ "?e\<lparr>e_world := w\<rparr>" OP_WRITE] s(2) b(6) by (simp_all add: fun_eq_iff)
  have k: "arrays_ok c1" "\<not> closed c1" "client_fd c1 = client_fd c" using auth_restD[OF rest] b(2,3) by (simp_all add: arrays_ok_def)
  obtain p' where p': "selector_select (server_handlers os h) (ready Ev_read fd) p = Some (SELECTOR_SUCCESS, p')"
    "session_at p0 a (Some GREETING) (sel_entry e1) (c1\<lparr>stm := \<lparr>initial = GREETING, max_state = ERROR, current = Some GREETING\<rparr>\<rparr>) p'"
    "e_world p' = e_world e1" "e_users p' = e_users e1" "e_metrics p' = e_metrics e1"
    "client_addr c1 = client_addr c" "e_calls p' = e_calls p"
    using session_step[OF s _ step _ _ e1(1) r(2) k(1,2), where h = h] by auto
  then show ?thesis using r k e1(2)
    by (intro exI[of _ "c1\<lparr>stm := \<lparr>initial = GREETING, max_state = ERROR, current = Some GREETING\<rparr>\<rparr>"] exI[of _ p']) simp
qed

lemma round_method:
  assumes os: "os_ok os" and s: "session_at p0 a (Some GREETING) en c p" "en fd = Some (conn_item fd a OP_WRITE)" "client_fd c = fd"
    and c: "client c = U_greeting g" "g_method g = AUTH_METHOD" "buffer_window (client_buffer c) = []"
    and wr: "os_send os fd (buffer_window (origin_buffer c)) (e_world p) = (SysOk (length (buffer_window (origin_buffer c))), w)"
  shows "\<exists>c' p' x. selector_select (server_handlers os h) (ready Ev_write fd) p = Some (SELECTOR_SUCCESS, p')
    \<and> session_at p0 a (Some AUTH) (en(fd \<mapsto> conn_item fd a OP_READ)) c' p'
    \<and> client_fd c' = fd \<and> auth_ready c' x \<and> a_state x = AUTH_VER \<and> buffer_window (client_buffer c') = []
    \<and> e_world p' = w \<and> e_users p' = e_users p \<and> e_metrics p' = e_metrics p
    \<and> client_addr c' = client_addr c \<and> e_calls p' = e_calls p"
proof -
  let ?key = "\<lparr>k_fd = fd, k_data = Some a\<rparr>" and ?e = "seen Ev_write fd p"
  have b: "bufs_ok c" "arrays_ok c" "\<not> closed c" "stm c = \<lparr>initial = GREETING, max_state = ERROR, current = Some GREETING\<rparr>" "registry_ok ?e" "sel_entry ?e = en"
    using s(1) by (simp_all add: session_at_def)
  obtain c1 e1 where r: "greeting_write os ?key (c, ?e) = Some (AUTH, c1, e1)" "bufs_ok c1" "client_buffer c1 = client_buffer c"
      "buffer_window (origin_buffer c1) = []" "e1 = poke fd OP_READ (?e\<lparr>e_world := w\<rparr>)"
    using greeting_write_spec[OF os b(1) c(1) b(5), of ?key] wr s(3) c(2) by auto
  have rest: "auth_rest c c1" by (rule greeting_write_rest[OF r(1)])
  let ?x = "\<lparr>a_state = AUTH_VER, a_ulen = 0, a_plen = 0, a_username = take 256 (os_uninit os 512 (e_world e1)),
    a_password = drop 256 (os_uninit os 512 (e_world e1)), a_authenticated = False\<rparr>"
  let ?c2 = "c1\<lparr>client := U_auth ?x\<rparr>"
  have step: "machine_step os Ev_write ?key (stm c) (c, ?e) = Some (AUTH, \<lparr>initial = GREETING, max_state = ERROR, current = Some AUTH\<rparr>, ?c2, e1)"
    by (subst step_moves[where q = GREETING and h = "greeting_write os" and ?s1.0 = "(c1, e1)" and ?s2.0 = "(?c2, e1)"])
      (use r(1) b(4) in \<open>simp_all add: states_arrival run_hook_def ready_handler_def states_write auth_arrival_def Let_def\<close>)
  have e1: "registry_ok e1" "sel_entry e1 = en(fd \<mapsto> conn_item fd a OP_READ)"
    using r(5) b(5) entry_conn_poke[of en fd a OP_WRITE "?e\<lparr>e_world := w\<rparr>" OP_READ] s(2) b(6) by (simp_all add: fun_eq_iff)
  have k: "bufs_ok ?c2" "arrays_ok ?c2" "\<not> closed ?c2" "client_fd c1 = fd"
    using auth_restD[OF rest] b(2,3) r(2) s(3) by (simp_all add: arrays_ok_def bufs_ok_def)
  let ?c3 = "?c2\<lparr>stm := \<lparr>initial = GREETING, max_state = ERROR, current = Some AUTH\<rparr>\<rparr>"
  have x: "auth_ready ?c3 ?x" using r(2,4) os_uninitD[OF os] by (simp add: auth_ready_def auth_pending_def bufs_ok_def)
  obtain p' where p': "selector_select (server_handlers os h) (ready Ev_write fd) p = Some (SELECTOR_SUCCESS, p')"
    "session_at p0 a (Some AUTH) (sel_entry e1) ?c3 p'" "e_world p' = e_world e1" "e_users p' = e_users e1" "e_metrics p' = e_metrics e1"
    "client_addr ?c2 = client_addr c" "e_calls p' = e_calls p"
    using session_step[OF s(1,2) _ step _ _ e1(1) k(1-3), where h = h] by auto
  then show ?thesis using r k e1(2) x c(3)
    by (intro exI[of _ ?c3] exI[of _ p'] exI[of _ ?x]) simp
qed

section \<open>Authentication\<close>

lemma round_credentials:
  assumes os: "os_ok os" and s: "session_at p0 a (Some AUTH) en c p" "en fd = Some (conn_item fd a OP_READ)"
    and c: "auth_ready c x" "a_state x = AUTH_VER" "buffer_window (client_buffer c) = []" and u: "users_ok (e_users p)"
    and rd: "os_recv os fd BUFFER_SIZE (e_world p) = (SysOk (auth_message un pw), w)"
    and n: "0 < length un" "length un \<le> 255" "0 < length pw" "length pw \<le> 255" "credentials_ok (e_users p) un pw"
  shows "\<exists>c' p' x. selector_select (server_handlers os h) (ready Ev_read fd) p = Some (SELECTOR_SUCCESS, p')
    \<and> session_at p0 a (Some AUTH) (en(fd \<mapsto> conn_item fd a OP_WRITE)) c' p'
    \<and> client_fd c' = client_fd c \<and> client c' = U_auth x \<and> a_authenticated x
    \<and> buffer_window (client_buffer c') = [] \<and> buffer_window (origin_buffer c') = [AUTH_VERSION, AUTH_SUCCESS]
    \<and> e_world p' = w \<and> same_users (e_users p) (e_users p') \<and> e_metrics p' = e_metrics p
    \<and> client_addr c' = client_addr c \<and> e_calls p' = e_calls p"
proof -
  let ?key = "\<lparr>k_fd = fd, k_data = Some a\<rparr>" and ?e = "seen Ev_read fd p"
  have b: "bufs_ok c" "arrays_ok c" "\<not> closed c" "stm c = \<lparr>initial = GREETING, max_state = ERROR, current = Some AUTH\<rparr>" "env_ok ?e" "sel_entry ?e = en"
    using s(1) u by (simp_all add: session_at_def env_ok_def)
  have seen: "auth_seen c x = []" using c(2,3) by (simp add: auth_seen_def auth_consumed_def)
  have msg: "auth_parse (auth_message un pw) = Auth_done un pw []" using auth_parse_message[of un pw "[]"] n by simp
  have ne: "auth_message un pw \<noteq> []" by (simp add: auth_message_def)
  obtain c1 e1 y db where r: "auth_read os ?key (c, ?e) = Some (AUTH, c1, e1)" "auth_rest c c1" "bufs_ok c1"
      "client c1 = U_auth y" "a_authenticated y" "buffer_window (client_buffer c1) = []"
      "buffer_window (origin_buffer c1) = [AUTH_VERSION, AUTH_SUCCESS]" "same_users (e_users p) db"
      "e1 = poke fd OP_WRITE (?e\<lparr>e_world := w, e_users := db\<rparr>)"
    using auth_read_spec[OF os c(1) b(5), of ?key] rd room_empty[OF b(1) c(3)] seen msg ne n(5) c(3)
    by (auto simp: authed_def)
  have step: "machine_step os Ev_read ?key (stm c) (c, ?e) = Some (AUTH, \<lparr>initial = GREETING, max_state = ERROR, current = Some AUTH\<rparr>, c1, e1)"
    by (subst step_stays[where q = AUTH and h = "auth_read os" and ?s'.0 = "(c1, e1)"])
      (use r(1) b(4) in \<open>simp_all add: ready_handler_def states_read\<close>)
  have e1: "registry_ok e1" "sel_entry e1 = en(fd \<mapsto> conn_item fd a OP_WRITE)"
    using r(9) env_ok_registry[OF b(5)] entry_conn_poke[of en fd a OP_READ "?e\<lparr>e_world := w, e_users := db\<rparr>" OP_WRITE] s(2) b(6)
    by (simp_all add: fun_eq_iff)
  have k: "arrays_ok c1" "\<not> closed c1" "client_fd c1 = client_fd c" using auth_restD[OF r(2)] b(2,3) by simp_all
  let ?c3 = "c1\<lparr>stm := \<lparr>initial = GREETING, max_state = ERROR, current = Some AUTH\<rparr>\<rparr>"
  obtain p' where p': "selector_select (server_handlers os h) (ready Ev_read fd) p = Some (SELECTOR_SUCCESS, p')"
    "session_at p0 a (Some AUTH) (sel_entry e1) ?c3 p'" "e_world p' = e_world e1" "e_users p' = e_users e1" "e_metrics p' = e_metrics e1"
    "client_addr c1 = client_addr c" "e_calls p' = e_calls p"
    using session_step[OF s _ step _ _ e1(1) r(3) k(1,2), where h = h] by auto
  then show ?thesis using r k e1(2)
    by (intro exI[of _ ?c3] exI[of _ p'] exI[of _ y]) simp
qed

lemma round_authenticated:
  assumes os: "os_ok os" and s: "session_at p0 a (Some AUTH) en c p" "en fd = Some (conn_item fd a OP_WRITE)" "client_fd c = fd"
    and c: "client c = U_auth x" "a_authenticated x" "buffer_window (client_buffer c) = []"
    and wr: "os_send os fd (buffer_window (origin_buffer c)) (e_world p) = (SysOk (length (buffer_window (origin_buffer c))), w)"
  shows "\<exists>c' p' x. selector_select (server_handlers os h) (ready Ev_write fd) p = Some (SELECTOR_SUCCESS, p')
    \<and> session_at p0 a (Some REQUEST) (en(fd \<mapsto> conn_item fd a OP_READ)) c' p'
    \<and> client_fd c' = fd \<and> client c' = U_request x \<and> r_state x = VER_CMD_ATYP
    \<and> buffer_window (client_buffer c') = [] \<and> buffer_window (origin_buffer c') = []
    \<and> e_world p' = w \<and> e_users p' = e_users p \<and> e_metrics p' = e_metrics p
    \<and> client_addr c' = client_addr c \<and> e_calls p' = e_calls p"
proof -
  let ?key = "\<lparr>k_fd = fd, k_data = Some a\<rparr>" and ?e = "seen Ev_write fd p"
  have b: "bufs_ok c" "arrays_ok c" "\<not> closed c" "stm c = \<lparr>initial = GREETING, max_state = ERROR, current = Some AUTH\<rparr>" "registry_ok ?e" "sel_entry ?e = en"
    using s(1) by (simp_all add: session_at_def)
  obtain c1 e1 where r: "auth_write os ?key (c, ?e) = Some (REQUEST, c1, e1)" "bufs_ok c1" "client_buffer c1 = client_buffer c"
      "buffer_window (origin_buffer c1) = []" "e1 = poke fd OP_READ (?e\<lparr>e_world := w\<rparr>)" "auth_rest c c1"
    using auth_write_spec[OF os b(1) c(1) b(5), of ?key] wr s(3) c(2) by auto
  let ?j = "os_uninit os 2 (e_world e1)"
  let ?x = "\<lparr>r_state = VER_CMD_ATYP, r_cmd = ?j ! 0, r_atyp = ?j ! 1\<rparr>"
  let ?c2 = "c1\<lparr>client := U_request ?x\<rparr>"
  have step: "machine_step os Ev_write ?key (stm c) (c, ?e) = Some (REQUEST, \<lparr>initial = GREETING, max_state = ERROR, current = Some REQUEST\<rparr>, ?c2, e1)"
    by (subst step_moves[where q = AUTH and h = "auth_write os" and ?s1.0 = "(c1, e1)" and ?s2.0 = "(?c2, e1)"])
      (use r(1) b(4) in \<open>simp_all add: states_arrival run_hook_def ready_handler_def states_write request_arrival_def Let_def\<close>)
  have e1: "registry_ok e1" "sel_entry e1 = en(fd \<mapsto> conn_item fd a OP_READ)"
    using r(5) b(5) entry_conn_poke[of en fd a OP_WRITE "?e\<lparr>e_world := w\<rparr>" OP_READ] s(2) b(6) by (simp_all add: fun_eq_iff)
  have k: "bufs_ok ?c2" "arrays_ok ?c2" "\<not> closed ?c2" "client_fd c1 = fd"
    using auth_restD[OF r(6)] b(2,3) r(2) s(3) by (simp_all add: arrays_ok_def bufs_ok_def)
  let ?c3 = "?c2\<lparr>stm := \<lparr>initial = GREETING, max_state = ERROR, current = Some REQUEST\<rparr>\<rparr>"
  obtain p' where p': "selector_select (server_handlers os h) (ready Ev_write fd) p = Some (SELECTOR_SUCCESS, p')"
    "session_at p0 a (Some REQUEST) (sel_entry e1) ?c3 p'" "e_world p' = e_world e1" "e_users p' = e_users e1" "e_metrics p' = e_metrics e1"
    "client_addr ?c2 = client_addr c" "e_calls p' = e_calls p"
    using session_step[OF s(1,2) _ step _ _ e1(1) k(1-3), where h = h] by auto
  then show ?thesis using r k e1(2) c(3)
    by (intro exI[of _ ?c3] exI[of _ p'] exI[of _ ?x]) simp
qed

section \<open>The request\<close>

text \<open>One address, a new descriptor, and a connection that takes its time.\<close>

lemma dial_waits:
  assumes c: "origin_resolution c = [r]" and e: "registry_ok e" "sel_entry e ofd = None" "0 \<le> ofd" "ofd < int FD_SETSIZE"
    and cl: "sel_entry e (client_fd c) = Some (conn_item (client_fd c) a i)" "k_data key = Some a"
    and so: "os_socket os (ai_family r) (ai_socktype r) (ai_protocol r) (e_world e) = (SysOk ofd, w1)"
      "selector_fd_set_nio os ofd w1 = (0, w2)" "os_connect os ofd (ai_addr r) w2 = (SysErr EINPROGRESS, w3)"
  shows "\<exists>e'. connect_to_dest os key (c, e) = Some (CONNECT, c\<lparr>origin_fd := ofd\<rparr>, e') \<and> registry_ok e' \<and> e_world e' = w3
    \<and> sel_entry e' = (sel_entry e)(ofd \<mapsto> conn_item ofd a OP_WRITE, client_fd c \<mapsto> conn_item (client_fd c) a OP_WRITE)
    \<and> e_users e' = e_users e \<and> e_metrics e' = e_metrics e"
proof -
  let ?e1 = "e\<lparr>e_world := w3\<rparr>"
  let ?e2 = "with_item ofd (Some SOCKS5_HANDLER) OP_WRITE (Some a) ?e1"
  have e1: "registry_ok ?e1" "sel_entry ?e1 ofd = None" using e by simp_all
  have nf: "\<not> INVALID_FD ofd" using e(3,4) by (simp add: INVALID_FD_def)
  have sz: "nat ofd < fd_size ?e1" using valid_in_full[OF _ nf, of ?e1] e1(1) by blast
  have reg: "selector_register m ofd (Some SOCKS5_HANDLER) OP_WRITE (Some a) ?e1 = Some (SELECTOR_SUCCESS, ?e2)" for m
    by (rule register_free[OF _ nf sz e1(2)]) (use e1(1) in simp_all)
  have e2: "registry_ok ?e2" using inv_with_item[OF _ e(3) _ sz, of "Some SOCKS5_HANDLER" OP_WRITE "Some a"] e1(1) e(4) by simp
  have n2: "sel_entry ?e2 = (sel_entry e)(ofd \<mapsto> conn_item ofd a OP_WRITE)"
    unfolding entry_with_item[OF e(3) sz] by (simp add: fun_eq_iff conn_item_def)
  have ne: "client_fd c \<noteq> ofd" using e(2) cl(1) by auto
  have f: "e_world ?e2 = w3" "e_users ?e2 = e_users e" "e_metrics ?e2 = e_metrics e" by (simp_all add: with_item_def)
  have t: "try_connection os key (c, e) = Some (CONNECTION_IN_PROGRESS, c\<lparr>origin_fd := ofd\<rparr>, ?e2)"
    using c so cl(2) reg by (simp add: try_connection_def Let_def)
  obtain st where st: "selector_set_interest (client_fd c) OP_WRITE ?e2 = Some (st, poke (client_fd c) OP_WRITE ?e2)"
    using set_interest_poke[OF e2] by blast
  have n3: "sel_entry (poke (client_fd c) OP_WRITE ?e2) = (sel_entry e)(ofd \<mapsto> conn_item ofd a OP_WRITE, client_fd c \<mapsto> conn_item (client_fd c) a OP_WRITE)"
    using entry_conn_poke[OF _ n2, of "client_fd c" a i OP_WRITE] cl(1) ne by simp
  have "connect_to_dest os key (c, e) = Some (CONNECT, c\<lparr>origin_fd := ofd\<rparr>, poke (client_fd c) OP_WRITE ?e2)"
    using c t st by (simp add: connect_to_dest_def dial_switch_def)
  then show ?thesis using e2 n3 f by (intro exI[of _ "poke (client_fd c) OP_WRITE ?e2"]) simp
qed

text \<open>
  The line of the access log for a client and the address that it named: the number of the port is
  the one that \<open>htons\<close> has made, with its bytes swapped.
\<close>

definition access_entry :: "'w os \<Rightarrow> sockaddr \<Rightarrow> bool \<Rightarrow> u16 \<Rightarrow> byte list \<Rightarrow> access_line" where
  "access_entry os cl v6 port ad = \<lparr>al_client_ip = addr_text os cl, al_client_port = bnd_port cl, al_host = None,
     al_version = (if v6 then 6 else 4), al_origin_ip = addr_text os (mk_addr v6 port ad), al_origin_port = port\<rparr>"

lemma ntohs_swap: "ntohs x = htons x"
  by (simp add: ntohs_def htons_def)

lemma access_line_ip:
  assumes "origin_resolution c = [ip_result v6 port ad]" "port = htons (word_of_int (c_atoi (origin_port c)))"
    and "c_atyp c = (if v6 then IPv6_ADDR else IPv4_ADDR)"
  shows "print_connection_access_log os c = Some (access_entry os (client_addr c) v6 port ad)"
  using assms by (simp add: print_connection_access_log_def access_entry_def ip_result_def mk_addr_def ntohs_swap)

lemma plays_allocs: "plays os fd ofd bnd inbox acts \<Longrightarrow> unheard inbox acts w (two_allocs os w)"
  using playsD(4)[of os fd ofd bnd inbox acts w] playsD(4)[of os fd ofd bnd inbox acts "snd (os_malloc os w)"]
  by (simp add: two_allocs_def unheard_def)

lemma round_request:
  assumes os: "os_ok os" "ip_text_ok os" "mem_ok os" "plays os fd ofd bnd inbox acts"
    and s: "session_at p0 a (Some REQUEST) en c p" "en fd = Some (conn_item fd a OP_READ)" "client_fd c = fd"
    and o: "en ofd = None" "0 \<le> ofd" "ofd < int FD_SETSIZE"
    and c: "client c = U_request x" "r_state x = VER_CMD_ATYP" "buffer_window (client_buffer c) = []" "buffer_window (origin_buffer c) = []"
    and rd: "inbox (e_world p) = [ip_request v6 ad [p1, p2]]" "length ad = addr_len v6"
  shows "\<exists>c' p' x port. selector_select (server_handlers os h) (ready Ev_read fd) p = Some (SELECTOR_SUCCESS, p')
    \<and> session_at p0 a (Some CONNECT) (en(ofd \<mapsto> conn_item ofd a OP_WRITE, fd \<mapsto> conn_item fd a OP_WRITE)) c' p'
    \<and> client_fd c' = fd \<and> origin_fd c' = ofd \<and> client c' = U_request x
    \<and> buffer_window (client_buffer c') = [] \<and> buffer_window (origin_buffer c') = []
    \<and> mem16 port = [p1, p2] \<and> acts (e_world p') = acts (e_world p) @ [Dialled (mk_addr v6 port ad)]
    \<and> e_users p' = e_users p \<and> e_metrics p' = e_metrics p
    \<and> client_addr c' = client_addr c \<and> e_calls p' = e_calls p
    \<and> print_connection_access_log os c' = Some (access_entry os (client_addr c) v6 port ad)"
proof -
  let ?key = "\<lparr>k_fd = fd, k_data = Some a\<rparr>" and ?e = "seen Ev_read fd p"
  have b: "bufs_ok c" "arrays_ok c" "\<not> closed c" "stm c = \<lparr>initial = GREETING, max_state = ERROR, current = Some REQUEST\<rparr>" "registry_ok ?e" "sel_entry ?e = en"
    using s(1) by (simp_all add: session_at_def)
  note P = playsD[OF os(4)]
  have "length (ip_request v6 ad [p1, p2]) \<le> buffer_room (client_buffer c)"
    using room_empty[OF b(1) c(3)] rd(2) by (simp add: ip_request_def addr_len_def)
  then obtain w where w: "os_recv os (k_fd ?key) (buffer_room (client_buffer c)) (e_world ?e) = (SysOk (ip_request v6 ad [p1, p2]), w)"
    "inbox w = []" "acts w = acts (e_world p)"
    using P(2)[OF rd(1)] by auto
  have again: "\<exists>x w2. os_recv os (client_fd c) n w = (SysErr x, w2)" for n using P(1)[OF w(2), of n] s(3) by blast
  obtain c1 n port where r: "request_read os ?key (c, ?e) = connect_to_dest os ?key (c1, ?e\<lparr>e_world := two_allocs os (snd (os_recv os (client_fd c) n w))\<rparr>)"
      "origin_resolution c1 = [ip_result v6 port ad]" "mem16 port = [p1, p2]" "bufs_ok c1" "buffer_window (client_buffer c1) = []"
      "arrays_ok c1" "client_fd c1 = client_fd c" "origin_buffer c1 = origin_buffer c" "closed c1 = closed c" "\<exists>r. client c1 = U_request r"
      "port = htons (word_of_int (c_atoi (origin_port c1)))" "c_atyp c1 = (if v6 then IPv6_ADDR else IPv4_ADDR)"
    using request_read_ip[OF os(1-3) b(1,2) c(1,2) w(1) again _ rd(2), of "[p1, p2]"] c(3) by (auto simp: wire_port_full)
  let ?w = "two_allocs os (snd (os_recv os (client_fd c) n w))"
  have q: "acts ?w = acts (e_world p)"
    using P(1)[OF w(2), of n] plays_allocs[OF os(4), of "snd (os_recv os fd n w)"] w(3) s(3) by (auto simp: unheard_def)
  obtain w1 where w1: "os_socket os (family_of v6) SOCK_STREAM IPPROTO_TCP ?w = (SysOk ofd, w1)" "acts w1 = acts ?w"
    using P(5)[of "family_of v6" SOCK_STREAM IPPROTO_TCP ?w] by (auto simp: unheard_def)
  obtain w2 where w2: "selector_fd_set_nio os ofd w1 = (0, w2)" "acts w2 = acts w1" using P(6)[of w1] by (auto simp: unheard_def)
  obtain w3 where w3: "os_connect os ofd (mk_addr v6 port ad) w2 = (SysErr EINPROGRESS, w3)" "acts w3 = acts w2 @ [Dialled (mk_addr v6 port ad)]"
    using P(7)[of "mk_addr v6 port ad" w2] by blast
  have res: "ai_family (ip_result v6 port ad) = family_of v6" "ai_socktype (ip_result v6 port ad) = SOCK_STREAM"
    "ai_protocol (ip_result v6 port ad) = IPPROTO_TCP" "ai_addr (ip_result v6 port ad) = mk_addr v6 port ad" by (simp_all add: ip_result_def)
  let ?e1 = "?e\<lparr>e_world := ?w\<rparr>"
  have e1: "registry_ok ?e1" "sel_entry ?e1 ofd = None" "sel_entry ?e1 (client_fd c1) = Some (conn_item (client_fd c1) a OP_READ)"
    using b(5,6) o(1) s(2,3) r(7) by simp_all
  have sock: "os_socket os (ai_family (ip_result v6 port ad)) (ai_socktype (ip_result v6 port ad)) (ai_protocol (ip_result v6 port ad)) (e_world ?e1) = (SysOk ofd, w1)"
      "os_connect os ofd (ai_addr (ip_result v6 port ad)) w2 = (SysErr EINPROGRESS, w3)"
    using w1(1) w3(1) unfolding res by simp_all
  obtain e2 where e2: "connect_to_dest os ?key (c1, ?e1) = Some (CONNECT, c1\<lparr>origin_fd := ofd\<rparr>, e2)" "registry_ok e2" "e_world e2 = w3"
      "sel_entry e2 = en(ofd \<mapsto> conn_item ofd a OP_WRITE, fd \<mapsto> conn_item fd a OP_WRITE)" "e_users e2 = e_users p" "e_metrics e2 = e_metrics p"
    using dial_waits[OF r(2) e1(1,2) o(2,3) e1(3) _ sock(1) w2(1) sock(2), of ?key] b(6) r(7) s(3) by (auto simp: fun_eq_iff)
  have step: "machine_step os Ev_read ?key (stm c) (c, ?e) = Some (CONNECT, \<lparr>initial = GREETING, max_state = ERROR, current = Some CONNECT\<rparr>, c1\<lparr>origin_fd := ofd\<rparr>, e2)"
    by (subst step_moves[where q = REQUEST and h = "request_read os" and ?s1.0 = "(c1\<lparr>origin_fd := ofd\<rparr>, e2)" and ?s2.0 = "(c1\<lparr>origin_fd := ofd\<rparr>, e2)"])
      (use r(1) e2(1) b(4) in \<open>simp_all add: states_arrival run_hook_def ready_handler_def states_read\<close>)
  have k: "bufs_ok (c1\<lparr>origin_fd := ofd\<rparr>)" "arrays_ok (c1\<lparr>origin_fd := ofd\<rparr>)" "\<not> closed (c1\<lparr>origin_fd := ofd\<rparr>)"
    using r(4,6,9) b(3) by (simp_all add: bufs_ok_def arrays_ok_def)
  let ?c3 = "c1\<lparr>origin_fd := ofd, stm := \<lparr>initial = GREETING, max_state = ERROR, current = Some CONNECT\<rparr>\<rparr>"
  obtain p' where p': "selector_select (server_handlers os h) (ready Ev_read fd) p = Some (SELECTOR_SUCCESS, p')"
    "session_at p0 a (Some CONNECT) (sel_entry e2) ?c3 p'" "e_world p' = e_world e2" "e_users p' = e_users e2" "e_metrics p' = e_metrics e2"
    "client_addr (c1\<lparr>origin_fd := ofd\<rparr>) = client_addr c" "e_calls p' = e_calls p"
    using session_step[OF s(1,2) _ step _ _ e2(2) k, where h = h] by auto
  obtain y where y: "client c1 = U_request y" using r(10) by blast
  have line: "print_connection_access_log os ?c3 = Some (access_entry os (client_addr ?c3) v6 port ad)"
    by (rule access_line_ip) (use r(2,11,12) in simp_all)
  show ?thesis using line p' y r(3,5,7,8) c(4) s(3) e2(3-6) q w1(2) w2(2) w3(2)
    by (intro exI[of _ ?c3] exI[of _ p'] exI[of _ y] exI[of _ port]) simp
qed

section \<open>The connection is made\<close>

lemma round_connected:
  assumes os: "os_ok os" "names_ok os"
    and s: "session_at p0 a (Some CONNECT) en c p" "en ofd = Some (conn_item ofd a OP_WRITE)" "en fd = Some (conn_item fd a i)"
      "client_fd c = fd" "origin_fd c = ofd" "fd \<noteq> ofd"
    and c: "client c = U_request x" "buffer_window (client_buffer c) = []" "buffer_window (origin_buffer c) = []"
    and so: "os_so_error os ofd (e_world p) = (SysOk 0, w1)" "os_getsockname os ofd w1 = (SysOk bnd, w2)"
    and line: "print_connection_access_log os c = Some line"
  shows "\<exists>c' p' x. selector_select (server_handlers os h) (ready Ev_write ofd) p = Some (SELECTOR_SUCCESS, p')
    \<and> session_at p0 a (Some REPLY) (en(ofd \<mapsto> conn_item ofd a OP_NOOP, fd \<mapsto> conn_item fd a OP_WRITE)) c' p'
    \<and> client_fd c' = fd \<and> origin_fd c' = ofd \<and> client c' = U_reply \<lparr>rep = SUCCEDED, found_bnd_info = Some True\<rparr>
    \<and> buffer_window (client_buffer c') = [] \<and> buffer_window (origin_buffer c') = reply_message SUCCEDED bnd
    \<and> e_world p' = w2 \<and> e_users p' = e_users p \<and> e_metrics p' = e_metrics p
    \<and> client_addr c' = client_addr c \<and> e_calls p' = e_calls p @ [Log_access line]"
proof -
  let ?key = "\<lparr>k_fd = ofd, k_data = Some a\<rparr>" and ?e = "seen Ev_write ofd p"
  have b: "bufs_ok c" "arrays_ok c" "\<not> closed c" "stm c = \<lparr>initial = GREETING, max_state = ERROR, current = Some CONNECT\<rparr>" "registry_ok ?e" "sel_entry ?e = en"
    using s(1) by (simp_all add: session_at_def)
  let ?r = "\<lparr>rep = SUCCEDED, found_bnd_info = None\<rparr>"
  let ?ew = "?e\<lparr>e_world := w1, e_calls := e_calls p @ [Log_access line]\<rparr>"
  let ?c1 = "c\<lparr>client := U_reply ?r\<rparr>" and ?e1 = "poke fd OP_WRITE (poke ofd OP_NOOP ?ew)"
  have r: "connect_write os ?key (c, ?e) = Some (REPLY, ?c1, ?e1)"
    using connect_write_done[OF b(5) _ c(1) line, of w1 ?key] so(1) s(4,5) by simp
  have c1: "bufs_ok ?c1" "client ?c1 = U_reply ?r" "buffer_window (origin_buffer ?c1) = []" using b(1) c(3) by (simp_all add: bufs_ok_def)
  obtain c2 where c2: "reply_arrival os REPLY ?key (?c1, ?e1) = Some (c2, ?e1\<lparr>e_world := w2\<rparr>)" "bufs_ok c2" "auth_rest ?c1 c2"
      "client_buffer c2 = client_buffer c" "client c2 = U_reply \<lparr>rep = SUCCEDED, found_bnd_info = Some True\<rparr>"
      "buffer_window (origin_buffer c2) = reply_message SUCCEDED bnd"
    using reply_arrival_spec[OF c1 os(2), of REPLY ?key ?e1] so(2) s(5) by auto
  let ?e2 = "?e1\<lparr>e_world := w2\<rparr>"
  have step: "machine_step os Ev_write ?key (stm c) (c, ?e) = Some (REPLY, \<lparr>initial = GREETING, max_state = ERROR, current = Some REPLY\<rparr>, c2, ?e2)"
    by (subst step_moves[where q = CONNECT and h = "connect_write os" and ?s1.0 = "(?c1, ?e1)" and ?s2.0 = "(c2, ?e2)"])
      (use r c2(1) b(4) in \<open>simp_all add: states_arrival run_hook_def ready_handler_def states_write\<close>)
  have n1: "sel_entry (poke ofd OP_NOOP ?ew) = en(ofd \<mapsto> conn_item ofd a OP_NOOP)"
    using entry_conn_poke[of en ofd a OP_WRITE "?ew" OP_NOOP] s(2) b(6) by (simp add: fun_eq_iff)
  have n2: "sel_entry ?e2 = en(ofd \<mapsto> conn_item ofd a OP_NOOP, fd \<mapsto> conn_item fd a OP_WRITE)"
    using entry_conn_poke[OF _ n1, of fd a i OP_WRITE] s(3,6) by (simp add: fun_eq_iff)
  have e2: "registry_ok ?e2" using b(5) by simp
  have k: "arrays_ok c2" "\<not> closed c2" "client_fd c2 = fd" "origin_fd c2 = ofd"
    using auth_restD[OF c2(3)] b(2,3) s(4,5) by (simp_all add: arrays_ok_def)
  let ?c3 = "c2\<lparr>stm := \<lparr>initial = GREETING, max_state = ERROR, current = Some REPLY\<rparr>\<rparr>"
  obtain p' where p': "selector_select (server_handlers os h) (ready Ev_write ofd) p = Some (SELECTOR_SUCCESS, p')"
    "session_at p0 a (Some REPLY) (sel_entry ?e2) ?c3 p'" "e_world p' = e_world ?e2" "e_users p' = e_users ?e2" "e_metrics p' = e_metrics ?e2"
    "client_addr c2 = client_addr c" "e_calls p' = e_calls ?e2"
    using session_step[OF s(1,2) _ step _ _ e2 c2(2) k(1,2), where h = h] by auto
  show ?thesis using p' k c2(4-6) c(2) unfolding n2
    by (intro exI[of _ ?c3] exI[of _ p']) simp
qed

section \<open>The reply\<close>

lemma round_replied:
  assumes os: "os_ok os"
    and s: "session_at p0 a (Some REPLY) en c p" "en fd = Some (conn_item fd a OP_WRITE)" "en ofd = Some (conn_item ofd a i)"
      "client_fd c = fd" "origin_fd c = ofd" "fd \<noteq> ofd"
    and c: "client c = U_reply \<lparr>rep = SUCCEDED, found_bnd_info = Some True\<rparr>" "buffer_window (client_buffer c) = []"
    and wr: "os_send os fd (buffer_window (origin_buffer c)) (e_world p) = (SysOk (length (buffer_window (origin_buffer c))), w)"
  shows "\<exists>c' p'. selector_select (server_handlers os h) (ready Ev_write fd) p = Some (SELECTOR_SUCCESS, p')
    \<and> session_at p0 a (Some COPY) (en(ofd \<mapsto> conn_item ofd a OP_READ, fd \<mapsto> conn_item fd a OP_READ)) c' p'
    \<and> client_fd c' = fd \<and> origin_fd c' = ofd \<and> copy_ok c'
    \<and> buffer_window (client_buffer c') = [] \<and> buffer_window (origin_buffer c') = []
    \<and> e_world p' = w \<and> e_users p' = e_users p \<and> e_metrics p' = e_metrics p
    \<and> client_addr c' = client_addr c \<and> e_calls p' = e_calls p"
proof -
  let ?key = "\<lparr>k_fd = fd, k_data = Some a\<rparr>" and ?e = "seen Ev_write fd p"
  have b: "bufs_ok c" "arrays_ok c" "\<not> closed c" "stm c = \<lparr>initial = GREETING, max_state = ERROR, current = Some REPLY\<rparr>" "registry_ok ?e" "sel_entry ?e = en"
    using s(1) by (simp_all add: session_at_def)
  let ?e1 = "?e\<lparr>e_world := w\<rparr>"
  obtain c1 where r: "reply_write os ?key (c, ?e) = Some (COPY, c1, ?e1)" "bufs_ok c1" "client_buffer c1 = client_buffer c"
      "auth_rest c c1" "buffer_window (origin_buffer c1) = []"
    using reply_write_spec[OF os b(1) c(1) _ b(5), of True ?key] wr s(4) by auto
  have e1: "registry_ok ?e1" using b(5) by simp
  have f: "client_fd c1 = fd" "origin_fd c1 = ofd" "arrays_ok c1" "\<not> closed c1" using auth_restD[OF r(4)] s(4,5) b(2,3) by simp_all
  obtain c2 where c2: "socksv5_copy_arrival COPY ?key (c1, ?e1) = Some (c2, poke fd OP_READ (poke ofd OP_READ ?e1))" "copy_ok c2" "same_channel c1 c2"
    using copy_arrival_spec[OF r(2) _ e1, of COPY ?key] f(1,2) s(6) r(3) c(2) by auto
  have rest: "auth_rest (c1\<lparr>client := client c2, origin_copy := origin_copy c2\<rparr>) c2"
    using c2(1) by (auto simp: socksv5_copy_arrival_def Let_def auth_rest_def elim!: bind_SomeE)
  let ?e2 = "poke fd OP_READ (poke ofd OP_READ ?e1)"
  have step: "machine_step os Ev_write ?key (stm c) (c, ?e) = Some (COPY, \<lparr>initial = GREETING, max_state = ERROR, current = Some COPY\<rparr>, c2, ?e2)"
    by (subst step_moves[where q = REPLY and h = "reply_write os" and ?s1.0 = "(c1, ?e1)" and ?s2.0 = "(c2, ?e2)"])
      (use r(1) c2(1) b(4) in \<open>simp_all add: states_arrival run_hook_def ready_handler_def states_write\<close>)
  have n1: "sel_entry (poke ofd OP_READ ?e1) = en(ofd \<mapsto> conn_item ofd a OP_READ)"
    using entry_conn_poke[of en ofd a i ?e1 OP_READ] s(3) b(6) by (simp add: fun_eq_iff)
  have n2: "sel_entry ?e2 = en(ofd \<mapsto> conn_item ofd a OP_READ, fd \<mapsto> conn_item fd a OP_READ)"
    using entry_conn_poke[OF _ n1, of fd a OP_WRITE OP_READ] s(2,6) by (simp add: fun_eq_iff)
  have e2: "registry_ok ?e2" using b(5) by simp
  have k: "bufs_ok c2" "arrays_ok c2" "\<not> closed c2" using c2(2) auth_restD[OF rest] f(3,4) by (simp_all add: copy_ok_def arrays_ok_def)
  let ?c3 = "c2\<lparr>stm := \<lparr>initial = GREETING, max_state = ERROR, current = Some COPY\<rparr>\<rparr>"
  obtain p' where p': "selector_select (server_handlers os h) (ready Ev_write fd) p = Some (SELECTOR_SUCCESS, p')"
    "session_at p0 a (Some COPY) (sel_entry ?e2) ?c3 p'" "e_world p' = e_world ?e2" "e_users p' = e_users ?e2" "e_metrics p' = e_metrics ?e2"
    "client_addr c2 = client_addr c" "e_calls p' = e_calls p"
    using session_step[OF s(1,2) _ step _ _ e2 k, where h = h] by auto
  have "copy_ok ?c3" using c2(2) by (simp add: copy_ok_def bufs_ok_def copies_ok_def)
  then show ?thesis using p' f c2(3) r(3,5) c(2) unfolding n2
    by (intro exI[of _ ?c3] exI[of _ p']) (simp add: same_channel_def)
qed

section \<open>The log in\<close>

text \<open>
  The five rounds before the request: the client is accepted on \<open>lfd\<close>, greets, is answered,
  authenticates, is answered.
\<close>

definition login_rounds :: "int \<Rightarrow> int \<Rightarrow> (nat option \<times> pselect_result) list" where
  "login_rounds lfd fd = map (\<lambda>(ev, f). (None, ready ev f))
     [(Ev_read, lfd), (Ev_read, fd), (Ev_write, fd), (Ev_read, fd), (Ev_write, fd)]"

lemma serve_round:
  "selector_select (server_handlers os h) ps (bt_proxy b) = Some (SELECTOR_SUCCESS, p')
    \<Longrightarrow> serve os h ((None, ps) # rounds) b = serve os h rounds (b\<lparr>bt_proxy := p'\<rparr>)"
  by simp

text \<open>A connection that waits for a request, with empty buffers.\<close>

definition asking ::
  "'w proxy \<Rightarrow> nat \<Rightarrow> (int \<Rightarrow> (handler_ref, attachment) item option) \<Rightarrow> int \<Rightarrow> socks5 \<Rightarrow> 'w proxy \<Rightarrow> bool" where
  "asking p0 a en fd c p \<longleftrightarrow> session_at p0 a (Some REQUEST) (en(fd \<mapsto> conn_item fd a OP_READ)) c p \<and> client_fd c = fd
     \<and> (case client c of U_request x \<Rightarrow> r_state x = VER_CMD_ATYP | _ \<Rightarrow> False)
     \<and> buffer_window (client_buffer c) = [] \<and> buffer_window (origin_buffer c) = []"

lemma askingD:
  assumes "asking p0 a en fd c p"
  shows "session_at p0 a (Some REQUEST) (en(fd \<mapsto> conn_item fd a OP_READ)) c p" "client_fd c = fd"
    "\<exists>x. client c = U_request x \<and> r_state x = VER_CMD_ATYP"
    "buffer_window (client_buffer c) = []" "buffer_window (origin_buffer c) = []"
  using assms by (auto simp: asking_def split: client_union.splits)

lemma session_login:
  assumes os: "os_ok os"
    and p: "env_ok (bt_proxy b)" "resolution_jobs (bt_proxy b) = []"
      "sel_entry (bt_proxy b) lfd = Some \<lparr>it_fd = lfd, it_interest = OP_READ, it_handler = Some SOCKSV5_PASSIVE, it_data = None\<rparr>"
    and acc: "accepted os \<lparr>k_fd = lfd, k_data = None\<rparr> (bt_proxy b) fd addr w"
    and fds: "0 \<le> fd" "fd < int FD_SETSIZE" "sel_entry (bt_proxy b) fd = None"
    and io: "os_recv os fd BUFFER_SIZE w = (SysOk (SOCKS5_VERSION # n # us @ [AUTH_METHOD]), w2)"
      "os_send os fd [SOCKS5_VERSION, AUTH_METHOD] w2 = (SysOk 2, w3)"
      "os_recv os fd BUFFER_SIZE w3 = (SysOk (auth_message un pw), w4)"
      "os_send os fd [AUTH_VERSION, AUTH_SUCCESS] w4 = (SysOk 2, w5)"
    and client: "Suc (length us) = unat n" "AUTH_METHOD \<notin> set us"
      "0 < length un" "length un \<le> 255" "0 < length pw" "length pw \<le> 255" "credentials_ok (e_users (bt_proxy b)) un pw"
  shows "\<exists>p' c. (\<forall>rounds. serve os h (login_rounds lfd fd @ rounds) b = serve os h rounds (b\<lparr>bt_proxy := p'\<rparr>))
    \<and> asking (bt_proxy b) (sv_next (bt_proxy b)) (sel_entry (bt_proxy b)) fd c p' \<and> e_world p' = w5
    \<and> same_users (e_users (bt_proxy b)) (e_users p') \<and> e_metrics p' = register_new_connection (e_metrics (bt_proxy b))
    \<and> client_addr c = addr \<and> e_calls p' = accept_log os addr (bt_proxy b)"
proof -
  let ?p = "bt_proxy b" and ?a = "sv_next (bt_proxy b)" and ?E = "sel_entry (bt_proxy b)" and ?H = "server_handlers os h"
  let ?I = "\<lambda>f i. conn_item f (sv_next (bt_proxy b)) i"
  obtain c1 q1 where 1: "selector_select ?H (ready Ev_read lfd) ?p = Some (SELECTOR_SUCCESS, q1)"
    "session_at ?p ?a None (?E(fd \<mapsto> ?I fd OP_READ)) c1 q1" "client_fd c1 = fd" "buffer_window (client_buffer c1) = []"
    "buffer_window (origin_buffer c1) = []" "e_world q1 = w" "e_users q1 = e_users ?p" "e_metrics q1 = register_new_connection (e_metrics ?p)"
    "client_addr c1 = addr" "e_calls q1 = accept_log os addr ?p"
    using round_accept[OF os env_ok_registry[OF p(1)] p(2,3) acc fds(1-3), where h = h] by blast
  obtain c2 q2 g where 2: "selector_select ?H (ready Ev_read fd) q1 = Some (SELECTOR_SUCCESS, q2)"
    "session_at ?p ?a (Some GREETING) (?E(fd \<mapsto> ?I fd OP_WRITE)) c2 q2" "client_fd c2 = fd" "buffer_window (client_buffer c2) = []"
    "buffer_window (origin_buffer c2) = [SOCKS5_VERSION, AUTH_METHOD]" "client c2 = U_greeting g" "g_method g = AUTH_METHOD"
    "e_world q2 = w2" "e_users q2 = e_users ?p" "e_metrics q2 = register_new_connection (e_metrics ?p)"
    "client_addr c2 = addr" "e_calls q2 = accept_log os addr ?p"
    using round_greeting[OF os 1(2) _ 1(4,5) io(1)[folded 1(6)] client(1,2), where h = h] 1(3,7-10) by auto
  have wr1: "os_send os fd (buffer_window (origin_buffer c2)) (e_world q2) = (SysOk (length (buffer_window (origin_buffer c2))), w3)"
    using io(2) 2(5,8) by (simp add: numeral_2_eq_2)
  obtain c3 q3 x3 where 3: "selector_select ?H (ready Ev_write fd) q2 = Some (SELECTOR_SUCCESS, q3)"
    "session_at ?p ?a (Some AUTH) (?E(fd \<mapsto> ?I fd OP_READ)) c3 q3" "client_fd c3 = fd" "auth_ready c3 x3" "a_state x3 = AUTH_VER"
    "buffer_window (client_buffer c3) = []" "e_world q3 = w3" "e_users q3 = e_users ?p" "e_metrics q3 = register_new_connection (e_metrics ?p)"
    "client_addr c3 = addr" "e_calls q3 = accept_log os addr ?p"
    using round_method[OF os 2(2) _ 2(3,6,7,4) wr1, where h = h] 2(9-12) by auto
  have u3: "users_ok (e_users q3)" "credentials_ok (e_users q3) un pw" using p(1) 3(8) client(7) by (simp_all add: env_ok_def)
  obtain c4 q4 x4 where 4: "selector_select ?H (ready Ev_read fd) q3 = Some (SELECTOR_SUCCESS, q4)"
    "session_at ?p ?a (Some AUTH) (?E(fd \<mapsto> ?I fd OP_WRITE)) c4 q4" "client_fd c4 = fd" "client c4 = U_auth x4" "a_authenticated x4"
    "buffer_window (client_buffer c4) = []" "buffer_window (origin_buffer c4) = [AUTH_VERSION, AUTH_SUCCESS]" "e_world q4 = w4"
    "same_users (e_users ?p) (e_users q4)" "e_metrics q4 = register_new_connection (e_metrics ?p)"
    "client_addr c4 = addr" "e_calls q4 = accept_log os addr ?p"
    using round_credentials[OF os 3(2) _ 3(4-6) u3(1) io(3)[folded 3(7)] client(3-6) u3(2), where h = h] 3(3,8-11) by auto
  have wr2: "os_send os fd (buffer_window (origin_buffer c4)) (e_world q4) = (SysOk (length (buffer_window (origin_buffer c4))), w5)"
    using io(4) 4(7,8) by (simp add: numeral_2_eq_2)
  obtain c5 q5 x5 where 5: "selector_select ?H (ready Ev_write fd) q4 = Some (SELECTOR_SUCCESS, q5)"
    "session_at ?p ?a (Some REQUEST) (?E(fd \<mapsto> ?I fd OP_READ)) c5 q5" "client_fd c5 = fd" "client c5 = U_request x5" "r_state x5 = VER_CMD_ATYP"
    "buffer_window (client_buffer c5) = []" "buffer_window (origin_buffer c5) = []" "e_world q5 = w5"
    "same_users (e_users ?p) (e_users q5)" "e_metrics q5 = register_new_connection (e_metrics ?p)"
    "client_addr c5 = addr" "e_calls q5 = accept_log os addr ?p"
    using round_authenticated[OF os 4(2) _ 4(3-6) wr2, where h = h] 4(9-12) by auto
  have "serve os h (login_rounds lfd fd @ rounds) b = serve os h rounds (b\<lparr>bt_proxy := q5\<rparr>)" for rounds
    using 1(1) 2(1) 3(1) 4(1) 5(1) by (simp add: login_rounds_def)
  moreover have "asking ?p ?a ?E fd c5 q5" using 5(2-7) by (simp add: asking_def)
  ultimately show ?thesis using 5(8-12) by (intro exI[of _ q5] exI[of _ c5]) simp
qed

section \<open>From the connection to the relay\<close>

text \<open>After the log in the client sends its request, the connection to the destination is made, the reply is sent.\<close>

definition session_rounds :: "int \<Rightarrow> int \<Rightarrow> int \<Rightarrow> (nat option \<times> pselect_result) list" where
  "session_rounds lfd fd ofd = login_rounds lfd fd @ map (\<lambda>(ev, f). (None, ready ev f)) [(Ev_read, fd), (Ev_write, ofd), (Ev_write, fd)]"

lemma credentials_session: "same_users db db' \<Longrightarrow> credentials_ok db' u p = credentials_ok db u p"
  using credentials_same by simp

lemma session_served:
  assumes os: "os_ok os" "names_ok os" "ip_text_ok os" "mem_ok os" "plays os fd ofd bnd inbox acts"
    and p: "env_ok (bt_proxy b)" "resolution_jobs (bt_proxy b) = []"
      "sel_entry (bt_proxy b) lfd = Some \<lparr>it_fd = lfd, it_interest = OP_READ, it_handler = Some SOCKSV5_PASSIVE, it_data = None\<rparr>"
    and acc: "accepted os \<lparr>k_fd = lfd, k_data = None\<rparr> (bt_proxy b) fd addr w"
    and fds: "0 \<le> fd" "fd < int FD_SETSIZE" "sel_entry (bt_proxy b) fd = None"
      "0 \<le> ofd" "ofd < int FD_SETSIZE" "sel_entry (bt_proxy b) ofd = None" "fd \<noteq> ofd"
    and client: "inbox w = [SOCKS5_VERSION # n # us @ [AUTH_METHOD], auth_message un pw, ip_request v6 ad [p1, p2]]" "acts w = []"
      "Suc (length us) = unat n" "AUTH_METHOD \<notin> set us"
      "0 < length un" "length un \<le> 255" "0 < length pw" "length pw \<le> 255" "credentials_ok (e_users (bt_proxy b)) un pw"
      "length ad = addr_len v6"
  shows "\<exists>p' c port. serve os h (session_rounds lfd fd ofd @ rounds) b = serve os h rounds (b\<lparr>bt_proxy := p'\<rparr>)
    \<and> session_at (bt_proxy b) (sv_next (bt_proxy b)) (Some COPY) ((sel_entry (bt_proxy b))
        (fd \<mapsto> conn_item fd (sv_next (bt_proxy b)) OP_READ, ofd \<mapsto> conn_item ofd (sv_next (bt_proxy b)) OP_READ)) c p'
    \<and> client_fd c = fd \<and> origin_fd c = ofd \<and> copy_ok c
    \<and> buffer_window (client_buffer c) = [] \<and> buffer_window (origin_buffer c) = []
    \<and> mem16 port = [p1, p2]
    \<and> acts (e_world p') = [Told [SOCKS5_VERSION, AUTH_METHOD], Told [AUTH_VERSION, AUTH_SUCCESS],
        Dialled (mk_addr v6 port ad), Told (reply_message SUCCEDED bnd)]
    \<and> same_users (e_users (bt_proxy b)) (e_users p') \<and> e_metrics p' = register_new_connection (e_metrics (bt_proxy b))
    \<and> e_calls p' = e_calls (bt_proxy b) @ [Log_accepted (addr_text os addr) (bnd_port addr), Log_access (access_entry os addr v6 port ad)]"
proof -
  let ?p = "bt_proxy b" and ?a = "sv_next (bt_proxy b)" and ?E = "sel_entry (bt_proxy b)" and ?H = "server_handlers os h"
  let ?I = "\<lambda>f i. conn_item f (sv_next (bt_proxy b)) i"
  note P = playsD[OF os(5)]
  have "length (SOCKS5_VERSION # n # us @ [AUTH_METHOD]) \<le> BUFFER_SIZE" using client(3) unsigned_less[where w = n and 'a = nat] by simp
  then obtain w2 where w2: "os_recv os fd BUFFER_SIZE w = (SysOk (SOCKS5_VERSION # n # us @ [AUTH_METHOD]), w2)"
      "inbox w2 = [auth_message un pw, ip_request v6 ad [p1, p2]]" "acts w2 = []"
    using P(2)[OF client(1), of BUFFER_SIZE] client(2) by metis
  obtain w3 where w3: "os_send os fd [SOCKS5_VERSION, AUTH_METHOD] w2 = (SysOk 2, w3)"
      "inbox w3 = [auth_message un pw, ip_request v6 ad [p1, p2]]" "acts w3 = [Told [SOCKS5_VERSION, AUTH_METHOD]]"
    using P(3)[of "[SOCKS5_VERSION, AUTH_METHOD]" w2] w2(2,3) by (auto simp: numeral_2_eq_2)
  have "length (auth_message un pw) \<le> BUFFER_SIZE" using client(6,8) by (simp add: auth_message_def)
  then obtain w4 where w4: "os_recv os fd BUFFER_SIZE w3 = (SysOk (auth_message un pw), w4)"
      "inbox w4 = [ip_request v6 ad [p1, p2]]" "acts w4 = [Told [SOCKS5_VERSION, AUTH_METHOD]]"
    using P(2)[OF w3(2), of BUFFER_SIZE] w3(3) by metis
  obtain w5 where w5: "os_send os fd [AUTH_VERSION, AUTH_SUCCESS] w4 = (SysOk 2, w5)"
      "inbox w5 = [ip_request v6 ad [p1, p2]]" "acts w5 = [Told [SOCKS5_VERSION, AUTH_METHOD], Told [AUTH_VERSION, AUTH_SUCCESS]]"
    using P(3)[of "[AUTH_VERSION, AUTH_SUCCESS]" w4] w4(2,3) by (auto simp: numeral_2_eq_2)
  note log_in = session_login[OF os(1) p acc fds(1-3) w2(1) w3(1) w4(1) w5(1) client(3-9), of h]
  obtain c5 q5 where 5: "\<And>rounds. serve os h (login_rounds lfd fd @ rounds) b = serve os h rounds (b\<lparr>bt_proxy := q5\<rparr>)"
    "asking ?p ?a ?E fd c5 q5" "e_world q5 = w5" "same_users (e_users ?p) (e_users q5)" "e_metrics q5 = register_new_connection (e_metrics ?p)"
    "client_addr c5 = addr" "e_calls q5 = accept_log os addr ?p"
    using log_in by blast
  note A = askingD[OF 5(2)]
  obtain x5 where x5: "client c5 = U_request x5" "r_state x5 = VER_CMD_ATYP" using A(3) by blast
  have o: "(?E(fd \<mapsto> ?I fd OP_READ)) ofd = None" using fds(6,7) by simp
  have in5: "inbox (e_world q5) = [ip_request v6 ad [p1, p2]]" using w5(2) 5(3) by simp
  have m6: "(?E(fd \<mapsto> ?I fd OP_READ))(ofd \<mapsto> ?I ofd OP_WRITE, fd \<mapsto> ?I fd OP_WRITE) = ?E(ofd \<mapsto> ?I ofd OP_WRITE, fd \<mapsto> ?I fd OP_WRITE)"
    and m7: "(?E(ofd \<mapsto> ?I ofd OP_WRITE, fd \<mapsto> ?I fd OP_WRITE))(ofd \<mapsto> ?I ofd OP_NOOP, fd \<mapsto> ?I fd OP_WRITE) = ?E(ofd \<mapsto> ?I ofd OP_NOOP, fd \<mapsto> ?I fd OP_WRITE)"
    and m8: "(?E(ofd \<mapsto> ?I ofd OP_NOOP, fd \<mapsto> ?I fd OP_WRITE))(ofd \<mapsto> ?I ofd OP_READ, fd \<mapsto> ?I fd OP_READ) = ?E(fd \<mapsto> ?I fd OP_READ, ofd \<mapsto> ?I ofd OP_READ)"
    using fds(7) by (simp_all add: fun_eq_iff)
  have n5: "(?E(fd \<mapsto> ?I fd OP_READ)) fd = Some (?I fd OP_READ)" by simp
  obtain c6 q6 x6 port where 6: "selector_select ?H (ready Ev_read fd) q5 = Some (SELECTOR_SUCCESS, q6)"
    "session_at ?p ?a (Some CONNECT) (?E(ofd \<mapsto> ?I ofd OP_WRITE, fd \<mapsto> ?I fd OP_WRITE)) c6 q6" "client_fd c6 = fd" "origin_fd c6 = ofd"
    "client c6 = U_request x6" "buffer_window (client_buffer c6) = []" "buffer_window (origin_buffer c6) = []"
    "mem16 port = [p1, p2]" "acts (e_world q6) = acts w5 @ [Dialled (mk_addr v6 port ad)]"
    "same_users (e_users ?p) (e_users q6)" "e_metrics q6 = register_new_connection (e_metrics ?p)"
    "print_connection_access_log os c6 = Some (access_entry os addr v6 port ad)" "e_calls q6 = accept_log os addr ?p"
    using round_request[OF os(1,3-5) A(1) n5 A(2) o fds(4,5) x5 A(4,5) in5 client(10), where h = h, unfolded m6] 5(3-7) by auto
  obtain w7 where w7: "os_so_error os ofd (e_world q6) = (SysOk 0, w7)" "acts w7 = acts (e_world q6)"
    using P(8)[of "e_world q6"] by (auto simp: unheard_def)
  obtain w8 where w8: "os_getsockname os ofd w7 = (SysOk bnd, w8)" "acts w8 = acts w7"
    using P(9)[of w7] by (auto simp: unheard_def)
  obtain c7 q7 where 7: "selector_select ?H (ready Ev_write ofd) q6 = Some (SELECTOR_SUCCESS, q7)"
    "session_at ?p ?a (Some REPLY) (?E(ofd \<mapsto> ?I ofd OP_NOOP, fd \<mapsto> ?I fd OP_WRITE)) c7 q7" "client_fd c7 = fd" "origin_fd c7 = ofd"
    "client c7 = U_reply \<lparr>rep = SUCCEDED, found_bnd_info = Some True\<rparr>" "buffer_window (client_buffer c7) = []"
    "buffer_window (origin_buffer c7) = reply_message SUCCEDED bnd" "e_world q7 = w8"
    "same_users (e_users ?p) (e_users q7)" "e_metrics q7 = register_new_connection (e_metrics ?p)"
    "e_calls q7 = accept_log os addr ?p @ [Log_access (access_entry os addr v6 port ad)]"
    using round_connected[OF os(1,2) 6(2) _ _ 6(3,4) fds(7) 6(5-7) w7(1) w8(1) 6(12), where h = h and i = OP_WRITE, unfolded m7] 6(10,11,13) fds(7)
    by auto
  obtain w9 where w9: "os_send os fd (buffer_window (origin_buffer c7)) (e_world q7) = (SysOk (length (buffer_window (origin_buffer c7))), w9)"
      "acts w9 = acts w8 @ [Told (reply_message SUCCEDED bnd)]"
    using P(3)[of "buffer_window (origin_buffer c7)" "e_world q7"] 7(7,8) by auto
  obtain c8 q8 where 8: "selector_select ?H (ready Ev_write fd) q7 = Some (SELECTOR_SUCCESS, q8)"
    "session_at ?p ?a (Some COPY) (?E(fd \<mapsto> ?I fd OP_READ, ofd \<mapsto> ?I ofd OP_READ)) c8 q8" "client_fd c8 = fd" "origin_fd c8 = ofd"
    "copy_ok c8" "buffer_window (client_buffer c8) = []" "buffer_window (origin_buffer c8) = []" "e_world q8 = w9"
    "same_users (e_users ?p) (e_users q8)" "e_metrics q8 = register_new_connection (e_metrics ?p)"
    "e_calls q8 = accept_log os addr ?p @ [Log_access (access_entry os addr v6 port ad)]"
    using round_replied[OF os(1) 7(2) _ _ 7(3,4) fds(7) 7(5,6) w9(1), where h = h and i = OP_NOOP, unfolded m8] 7(9-11) fds(7)
    by auto
  have "serve os h (session_rounds lfd fd ofd @ rounds) b = serve os h rounds (b\<lparr>bt_proxy := q8\<rparr>)"
    using 5(1) 6(1) 7(1) 8(1) by (simp add: session_rounds_def)
  moreover have "acts (e_world q8) = [Told [SOCKS5_VERSION, AUTH_METHOD], Told [AUTH_VERSION, AUTH_SUCCESS],
      Dialled (mk_addr v6 port ad), Told (reply_message SUCCEDED bnd)]"
    using w9(2) w8(2) w7(2) 6(9) w5(3) 8(8) by simp
  ultimately show ?thesis using 8 6(8) fds(7)
    by (intro exI[of _ q8] exI[of _ c8] exI[of _ port]) (simp add: accept_log_def)
qed

end
