(* ===== verification/Redial.thy ===== *)
theory Redial
  imports Descriptors Sessions
begin

text \<open>
  A client that goes on after its destination has refused the connection. The reply with the error
  leads back to \<open>REQUEST\<close> (\<open>src/server/states/reply.c\<close>) with the refused socket still in
  \<open>origin_fd\<close>, and the next \<open>try_connection\<close> (\<open>src/server/states/connection_utils.c\<close>) stores a new
  one there: the old socket stays open. Here are the rounds of such a client, for any number of
  requests, and what becomes of the sockets.
\<close>

section \<open>Descriptors that nothing refers to\<close>

definition lost :: "('w \<Rightarrow> int set) \<Rightarrow> 'w proxy \<Rightarrow> int \<Rightarrow> bool" where
  "lost opn p fd \<longleftrightarrow> fd \<in> opn (e_world p) \<and> fd \<noteq> - 1 \<and> sel_entry p fd = None
     \<and> (\<forall>a c. alive p a c \<longrightarrow> client_fd c \<noteq> fd \<and> origin_fd c \<noteq> fd)"

lemma roles_none: "roles p fd = None \<longleftrightarrow> sel_entry p fd = None"
  by (simp add: roles_def)

lemma lost_inv:
  assumes i: "server_inv opn L p" and l: "lost opn p fd"
  shows "server_inv opn (insert fd L) p"
proof -
  have si: "socks_inv opn L p" and pi: "pam_held p" using i by (simp_all add: server_inv_def)
  note D = socks_invD[OF si]
  have "socks_inv opn (insert fd L) p"
  proof (rule socks_invI)
    show "\<And>f d. roles p f = Some (Some SOCKS5_HANDLER, d) \<Longrightarrow> \<exists>a c. d = Some a \<and> alive p a c \<and> f \<in> {client_fd c, origin_fd c}"
      by (rule D(7))
    show "\<And>a b c c'. alive p a c \<Longrightarrow> alive p b c' \<Longrightarrow> a \<noteq> b \<Longrightarrow> origin_fd c = - 1 \<or> origin_fd c \<noteq> origin_fd c'" by (rule D(10))
    show "\<And>a c. alive p a c \<Longrightarrow> table_ok (stm c) \<and> attached opn a (state_of (stm c)) c p" using D(8,9) by blast
    show "\<And>a c. alive p a c \<Longrightarrow> origin_fd c \<notin> insert fd L" using D(6) l unfolding lost_def by blast
    show "- 1 \<notin> insert fd L" "insert fd L \<subseteq> opn (e_world p)" using D(3,4) l by (auto simp: lost_def)
    show "\<And>f. f \<in> insert fd L \<Longrightarrow> roles p f = None" using D(5) l by (auto simp: lost_def roles_none)
  qed (use D(1,2,11) in blast)+
  with pi show ?thesis by (simp add: server_inv_def)
qed

lemma inv_lost:
  assumes i: "server_inv opn L p" and fd: "fd \<in> L"
  shows "lost opn p fd"
proof -
  have si: "socks_inv opn L p" using i by (simp add: server_inv_def)
  note D = socks_invD[OF si]
  have r: "roles p fd = None" by (rule D(5)[OF fd])
  have "client_fd c \<noteq> fd" if "alive p a c" for a c using that r by (auto simp: alive_def)
  then show ?thesis using D(3,4) D(6) fd r unfolding lost_def roles_none by blast
qed

lemma lost_kept:
  assumes T: "fd_table os opn" and H: "writes_quietly h opn"
    and i: "server_inv opn L p" and l: "lost opn p fd" and r: "(proxy_step os h)\<^sup>*\<^sup>* p p'"
  shows "lost opn p' fd"
  by (rule inv_lost[OF steps_keep[OF T H r lost_inv[OF i l]]]) simp

section \<open>A client in step with the server\<close>

text \<open>
  \<open>view\<close> reads in the world what the client has sent and the server has not read, what it will
  send, a message after each answer, and what has been done for it. Every connection is refused.
\<close>

type_synonym talk = "byte list option \<times> byte list list \<times> act list"

fun next_said :: "byte list list \<Rightarrow> act list \<Rightarrow> talk" where
  "next_said [] t = (None, [], t)"
| "next_said (m # ms) t = (Some m, ms, t)"

definition refuses :: "'w os \<Rightarrow> int \<Rightarrow> sockaddr \<Rightarrow> ('w \<Rightarrow> talk) \<Rightarrow> bool" where
  "refuses os fd bnd view \<longleftrightarrow>
     (\<forall>w n. fst (view w) = None \<longrightarrow> (\<exists>x w'. os_recv os fd n w = (SysErr x, w') \<and> view w' = view w))
   \<and> (\<forall>w n bs ms t. view w = (Some bs, ms, t) \<longrightarrow> length bs \<le> n \<longrightarrow>
        (\<exists>w'. os_recv os fd n w = (SysOk bs, w') \<and> view w' = (None, ms, t)))
   \<and> (\<forall>w bs ms t. view w = (None, ms, t) \<longrightarrow> (\<exists>w'. os_send os fd bs w = (SysOk (length bs), w') \<and> view w' = next_said ms (t @ [Told bs])))
   \<and> (\<forall>w. view (snd (os_malloc os w)) = view w)
   \<and> (\<forall>d t k w. \<exists>f w'. os_socket os d t k w = (SysOk f, w') \<and> view w' = view w)
   \<and> (\<forall>f w. \<exists>w'. selector_fd_set_nio os f w = (0, w') \<and> view w' = view w)
   \<and> (\<forall>f to w ms t. view w = (None, ms, t) \<longrightarrow> (\<exists>w'. os_connect os f to w = (SysErr ECONNREFUSED, w') \<and> view w' = (None, ms, t @ [Dialled to])))
   \<and> (\<forall>f w. \<exists>w'. os_getsockname os f w = (SysOk bnd, w') \<and> view w' = view w)"

lemma refusesD:
  assumes "refuses os fd bnd view"
  shows "fst (view w) = None \<Longrightarrow> \<exists>x w'. os_recv os fd n w = (SysErr x, w') \<and> view w' = view w"
    "view w = (Some bs, ms, t) \<Longrightarrow> length bs \<le> n \<Longrightarrow> \<exists>w'. os_recv os fd n w = (SysOk bs, w') \<and> view w' = (None, ms, t)"
    "view w = (None, ms, t) \<Longrightarrow> \<exists>w'. os_send os fd bs w = (SysOk (length bs), w') \<and> view w' = next_said ms (t @ [Told bs])"
    "view (snd (os_malloc os w)) = view w"
    "\<exists>f w'. os_socket os d ty k w = (SysOk f, w') \<and> view w' = view w"
    "\<exists>w'. selector_fd_set_nio os f w = (0, w') \<and> view w' = view w"
    "view w = (None, ms, t) \<Longrightarrow> \<exists>w'. os_connect os f to w = (SysErr ECONNREFUSED, w') \<and> view w' = (None, ms, t @ [Dialled to])"
    "\<exists>w'. os_getsockname os f w = (SysOk bnd, w') \<and> view w' = view w"
proof -
  have u: "\<forall>w n. fst (view w) = None \<longrightarrow> (\<exists>x w'. os_recv os fd n w = (SysErr x, w') \<and> view w' = view w)"
    "\<forall>w n bs ms t. view w = (Some bs, ms, t) \<longrightarrow> length bs \<le> n \<longrightarrow> (\<exists>w'. os_recv os fd n w = (SysOk bs, w') \<and> view w' = (None, ms, t))"
    "\<forall>w bs ms t. view w = (None, ms, t) \<longrightarrow> (\<exists>w'. os_send os fd bs w = (SysOk (length bs), w') \<and> view w' = next_said ms (t @ [Told bs]))"
    "\<forall>w. view (snd (os_malloc os w)) = view w" "\<forall>d t k w. \<exists>f w'. os_socket os d t k w = (SysOk f, w') \<and> view w' = view w"
    "\<forall>f w. \<exists>w'. selector_fd_set_nio os f w = (0, w') \<and> view w' = view w"
    "\<forall>f to w ms t. view w = (None, ms, t) \<longrightarrow> (\<exists>w'. os_connect os f to w = (SysErr ECONNREFUSED, w') \<and> view w' = (None, ms, t @ [Dialled to]))"
    "\<forall>f w. \<exists>w'. os_getsockname os f w = (SysOk bnd, w') \<and> view w' = view w"
    by (insert assms[unfolded refuses_def]) (elim conjE, assumption)+
  show "fst (view w) = None \<Longrightarrow> \<exists>x w'. os_recv os fd n w = (SysErr x, w') \<and> view w' = view w" using u(1) by simp
  show "view w = (Some bs, ms, t) \<Longrightarrow> length bs \<le> n \<Longrightarrow> \<exists>w'. os_recv os fd n w = (SysOk bs, w') \<and> view w' = (None, ms, t)" using u(2) by simp
  show "view w = (None, ms, t) \<Longrightarrow> \<exists>w'. os_send os fd bs w = (SysOk (length bs), w') \<and> view w' = next_said ms (t @ [Told bs])" using u(3) by simp
  show "view (snd (os_malloc os w)) = view w" "\<exists>f w'. os_socket os d ty k w = (SysOk f, w') \<and> view w' = view w"
    "\<exists>w'. selector_fd_set_nio os f w = (0, w') \<and> view w' = view w" using u(4-6) by simp_all
  show "view w = (None, ms, t) \<Longrightarrow> \<exists>w'. os_connect os f to w = (SysErr ECONNREFUSED, w') \<and> view w' = (None, ms, t @ [Dialled to])" using u(7) by simp
  show "\<exists>w'. os_getsockname os f w = (SysOk bnd, w') \<and> view w' = view w" using u(8) by simp
qed

lemma dial_refused:
  assumes r: "origin_resolution c = [r]" and e: "registry_ok e"
    and so: "os_socket os (ai_family r) (ai_socktype r) (ai_protocol r) (e_world e) = (SysOk ofd, w1)"
    and nio: "selector_fd_set_nio os ofd w1 = (0, w2)" and co: "os_connect os ofd (ai_addr r) w2 = (SysErr ECONNREFUSED, w3)"
  shows "connect_to_dest os key (c, e) = Some (REPLY, set_rep CONNECTION_REFUSED (c\<lparr>origin_fd := ofd\<rparr>),
    poke (client_fd c) OP_WRITE (e\<lparr>e_world := w3\<rparr>))"
proof -
  have t: "try_connection os key (c, e) = Some (unat CONNECTION_REFUSED, c\<lparr>origin_fd := ofd\<rparr>, e\<lparr>e_world := w3\<rparr>)"
    using assms by (simp add: try_connection_def Let_def errno_reply_def)
  obtain st where p: "selector_set_interest (client_fd c) OP_WRITE (e\<lparr>e_world := w3\<rparr>)
      = Some (st, poke (client_fd c) OP_WRITE (e\<lparr>e_world := w3\<rparr>))"
    using set_interest_poke[of "e\<lparr>e_world := w3\<rparr>" "client_fd c" OP_WRITE] e by auto
  show ?thesis
    using r t p by (simp add: connect_to_dest_def dial_switch_def to_reply_state_def set_rep_def)
qed

lemma mem16_inj:
  assumes "mem16 a = mem16 b"
  shows "a = b"
proof -
  have "(ucast a :: byte) = ucast b" "(ucast (drop_bit 8 a) :: byte) = ucast (drop_bit 8 b)"
    using assms unfolding mem16_def list.inject by blast+
  then show ?thesis by (metis from_mem16_mem16)
qed

text \<open>A request of the client: the kind of address, the address, the port in network order.\<close>

type_synonym dest = "bool \<times> byte list \<times> u16"

definition asked_for :: "dest \<Rightarrow> byte list" where
  "asked_for = (\<lambda>(v6, ad, port). ip_request v6 ad (mem16 port))"

definition dest_addr :: "dest \<Rightarrow> sockaddr" where
  "dest_addr = (\<lambda>(v6, ad, port). mk_addr v6 port ad)"

definition dest_ok :: "dest \<Rightarrow> bool" where
  "dest_ok = (\<lambda>(v6, ad, port). length ad = addr_len v6)"

section \<open>The round of a request\<close>

lemma round_refused:
  assumes os: "os_ok os" "names_ok os" "ip_text_ok os" "mem_ok os" "refuses os fd bnd view" "fd_table os opn"
    and s: "asking p0 a en fd c p" and v: "view (e_world p) = (Some (asked_for d), ms, t)" "dest_ok d"
  shows "\<exists>c' p' ofd. selector_select (server_handlers os h) (ready Ev_read fd) p = Some (SELECTOR_SUCCESS, p')
    \<and> session_at p0 a (Some REPLY) (en(fd \<mapsto> conn_item fd a OP_WRITE)) c' p'
    \<and> client_fd c' = fd \<and> origin_fd c' = ofd \<and> ofd \<notin> opn (e_world p) \<and> 0 \<le> ofd \<and> opn (e_world p') = insert ofd (opn (e_world p))
    \<and> client c' = U_reply \<lparr>rep = CONNECTION_REFUSED, found_bnd_info = Some True\<rparr>
    \<and> buffer_window (client_buffer c') = [] \<and> buffer_window (origin_buffer c') = reply_message CONNECTION_REFUSED bnd
    \<and> view (e_world p') = (None, ms, t @ [Dialled (dest_addr d)])
    \<and> e_users p' = e_users p \<and> e_metrics p' = e_metrics p"
proof -
  obtain v6 ad port where d: "d = (v6, ad, port)" by (cases d)
  have len: "length ad = addr_len v6" using v(2) d by (simp add: dest_ok_def)
  let ?key = "\<lparr>k_fd = fd, k_data = Some a\<rparr>" and ?e = "seen Ev_read fd p" and ?en = "en(fd \<mapsto> conn_item fd a OP_READ)"
  note A = askingD[OF s]
  obtain x where x: "client c = U_request x" "r_state x = VER_CMD_ATYP" using A(3) by blast
  have b: "bufs_ok c" "arrays_ok c" "\<not> closed c" "stm c = \<lparr>initial = GREETING, max_state = ERROR, current = Some REQUEST\<rparr>" "registry_ok ?e" "sel_entry ?e = ?en"
    using A(1) by (simp_all add: session_at_def)
  note P = refusesD[OF os(5)]
  have "length (asked_for d) \<le> buffer_room (client_buffer c)"
    using room_empty[OF b(1) A(4)] len by (simp add: asked_for_def d ip_request_def addr_len_def mem16_def)
  then obtain w where w: "os_recv os (k_fd ?key) (buffer_room (client_buffer c)) (e_world ?e) = (SysOk (ip_request v6 ad (mem16 port)), w)"
    "view w = (None, ms, t)"
    using P(2)[OF v(1)] by (auto simp: asked_for_def d)
  have again: "\<exists>x w2. os_recv os (client_fd c) n w = (SysErr x, w2)" for n using P(1)[of w n] w(2) A(2) by auto
  have m16: "mem16 port \<noteq> []" "wire_port (mem16 port) = mem16 port" "drop 2 (mem16 port) = []"
    by (simp_all add: mem16_def wire_port_full)
  obtain c1 n port' where r: "request_read os ?key (c, ?e) = connect_to_dest os ?key (c1, ?e\<lparr>e_world := two_allocs os (snd (os_recv os (client_fd c) n w))\<rparr>)"
      "origin_resolution c1 = [ip_result v6 port' ad]" "mem16 port' = mem16 port" "bufs_ok c1" "buffer_window (client_buffer c1) = []"
      "arrays_ok c1" "client_fd c1 = client_fd c" "origin_buffer c1 = origin_buffer c" "closed c1 = closed c" "\<exists>r. client c1 = U_request r"
    using request_read_ip[OF os(1,3,4) b(1,2) x w(1) again _ len m16(1)] A(4) by (auto simp: m16)
  have port: "port' = port" by (rule mem16_inj[OF r(3)])
  let ?w = "two_allocs os (snd (os_recv os (client_fd c) n w))"
  obtain y wr where wr: "os_recv os fd n w = (SysErr y, wr)" "view wr = view w" using P(1)[of w n] w(2) by auto
  have q: "view ?w = (None, ms, t)" "opn ?w = opn (e_world p)"
  proof -
    have "view ?w = view wr" "opn ?w = opn wr"
      using P(4) wr(1) A(2) os(6) by (simp_all add: two_allocs_def fd_table_def)
    moreover have "opn wr = opn w" by (rule table_calls(1)[OF wr(1) os(6)])
    moreover have "opn w = opn (e_world p)" using table_calls(1)[OF w(1) os(6)] by simp
    ultimately show "view ?w = (None, ms, t)" "opn ?w = opn (e_world p)" using wr(2) w(2) by simp_all
  qed
  let ?r = "ip_result v6 port ad"
  obtain ofd w1 where w1: "os_socket os (ai_family ?r) (ai_socktype ?r) (ai_protocol ?r) ?w = (SysOk ofd, w1)" "view w1 = (None, ms, t)"
    using P(5)[of "ai_family ?r" "ai_socktype ?r" "ai_protocol ?r" ?w] q(1) by auto
  note so = table_socket(2)[OF w1(1) os(6)]
  obtain w2 where w2: "selector_fd_set_nio os ofd w1 = (0, w2)" "view w2 = (None, ms, t)" using P(6)[of ofd w1] w1(2) by auto
  obtain w3 where w3: "os_connect os ofd (ai_addr ?r) w2 = (SysErr ECONNREFUSED, w3)" "view w3 = (None, ms, t @ [Dialled (ai_addr ?r)])"
    using P(7)[OF w2(2)] by blast
  have o3: "opn w3 = insert ofd (opn (e_world p))"
    using table_calls(3)[OF w3(1) os(6)] table_nio[OF w2(1) os(6)] so q(2) by simp
  let ?e1 = "?e\<lparr>e_world := ?w\<rparr>" and ?c1 = "set_rep CONNECTION_REFUSED (c1\<lparr>origin_fd := ofd\<rparr>)"
  let ?e2 = "poke fd OP_WRITE (?e1\<lparr>e_world := w3\<rparr>)"
  have e1: "registry_ok ?e1" using b(5) by simp
  have rr: "request_read os ?key (c, ?e) = Some (REPLY, ?c1, ?e2)"
    using dial_refused[OF r(2)[unfolded port] e1 _ w2(1) w3(1), of ?key] w1(1) r(1,7) A(2) by simp
  obtain z where z: "client c1 = U_request z" using r(10) by blast
  have c1: "bufs_ok ?c1" "client ?c1 = U_reply \<lparr>rep = CONNECTION_REFUSED, found_bnd_info = None\<rparr>" "buffer_window (origin_buffer ?c1) = []"
    "client_buffer ?c1 = client_buffer c1" "client_fd ?c1 = fd" "origin_fd ?c1 = ofd" "arrays_ok ?c1" "\<not> closed ?c1"
    using r(4,6-9) A(2,5) b(3) z by (simp_all add: set_rep_def bufs_ok_def arrays_ok_def)
  obtain w4 where w4: "os_getsockname os ofd w3 = (SysOk bnd, w4)" "view w4 = view w3" using P(8)[of ofd w3] by blast
  let ?e3 = "?e2\<lparr>e_world := w4\<rparr>"
  obtain c2 where c2: "reply_arrival os REPLY ?key (?c1, ?e2) = Some (c2, ?e3)" "bufs_ok c2" "auth_rest ?c1 c2"
      "client_buffer c2 = client_buffer c1" "client c2 = U_reply \<lparr>rep = CONNECTION_REFUSED, found_bnd_info = Some True\<rparr>"
      "buffer_window (origin_buffer c2) = reply_message CONNECTION_REFUSED bnd"
    using reply_arrival_spec[OF c1(1-3) os(2), of REPLY ?key ?e2] w4(1) c1(4,6) by auto
  note cr = auth_restD[OF c2(3)]
  have step: "machine_step os Ev_read ?key (stm c) (c, ?e) = Some (REPLY, \<lparr>initial = GREETING, max_state = ERROR, current = Some REPLY\<rparr>, c2, ?e3)"
    by (subst step_moves[where q = REQUEST and h = "request_read os" and ?s1.0 = "(?c1, ?e2)" and ?s2.0 = "(c2, ?e3)"])
      (use rr c2(1) b(4) in \<open>simp_all add: states_arrival run_hook_def ready_handler_def states_read\<close>)
  have e3: "registry_ok ?e3" "sel_entry ?e3 = en(fd \<mapsto> conn_item fd a OP_WRITE)"
    using entry_conn_poke[of ?en fd a OP_READ "?e1\<lparr>e_world := w3\<rparr>" OP_WRITE] b(5,6) by (simp_all add: fun_eq_iff)
  have en: "?en fd = Some (conn_item fd a OP_READ)" by simp
  have k: "arrays_ok c2" "\<not> closed c2" using cr c1(7,8) by (simp_all add: arrays_ok_def)
  let ?c3 = "c2\<lparr>stm := \<lparr>initial = GREETING, max_state = ERROR, current = Some REPLY\<rparr>\<rparr>"
  obtain p' where p': "selector_select (server_handlers os h) (ready Ev_read fd) p = Some (SELECTOR_SUCCESS, p')"
    "session_at p0 a (Some REPLY) (sel_entry ?e3) ?c3 p'" "e_world p' = e_world ?e3" "e_users p' = e_users ?e3" "e_metrics p' = e_metrics ?e3"
    using session_step[OF A(1) en _ step _ _ e3(1) c2(2) k, where h = h] by auto
  have ow: "opn w4 = opn w3" by (rule table_calls(5)[OF w4(1) os(6)])
  have ad: "ai_addr ?r = dest_addr d" by (simp add: ip_result_def dest_addr_def d)
  show ?thesis
    using p' cr c1(5,6) c2(4-6) r(5) so q(2) o3 ow w4(2) w3(2) ad e3(2)
    by (intro exI[of _ ?c3] exI[of _ p'] exI[of _ ofd]) simp
qed

text \<open>The answer is sent, and the connection waits for the next request.\<close>

lemma round_told:
  assumes os: "os_ok os" "refuses os fd bnd view" "fd_table os opn"
    and s: "session_at p0 a (Some REPLY) (en(fd \<mapsto> conn_item fd a OP_WRITE)) c p" "client_fd c = fd"
    and c: "client c = U_reply \<lparr>rep = CONNECTION_REFUSED, found_bnd_info = Some True\<rparr>" "buffer_window (client_buffer c) = []"
    and v: "view (e_world p) = (None, ms, t)"
  shows "\<exists>c' p'. selector_select (server_handlers os h) (ready Ev_write fd) p = Some (SELECTOR_SUCCESS, p')
    \<and> asking p0 a en fd c' p' \<and> origin_fd c' = origin_fd c \<and> opn (e_world p') = opn (e_world p)
    \<and> view (e_world p') = next_said ms (t @ [Told (buffer_window (origin_buffer c))])
    \<and> e_users p' = e_users p \<and> e_metrics p' = e_metrics p"
proof -
  let ?key = "\<lparr>k_fd = fd, k_data = Some a\<rparr>" and ?e = "seen Ev_write fd p" and ?en = "en(fd \<mapsto> conn_item fd a OP_WRITE)"
  have b: "bufs_ok c" "arrays_ok c" "\<not> closed c" "stm c = \<lparr>initial = GREETING, max_state = ERROR, current = Some REPLY\<rparr>" "registry_ok ?e" "sel_entry ?e = ?en"
    using s(1) by (simp_all add: session_at_def)
  let ?m = "buffer_window (origin_buffer c)"
  obtain w where w: "os_send os fd ?m (e_world ?e) = (SysOk (length ?m), w)" "view w = next_said ms (t @ [Told ?m])"
    using refusesD(3)[OF os(2) v, of ?m] by auto
  obtain c1 e1 where r: "reply_write os ?key (c, ?e) = Some (REQUEST, c1, e1)" "bufs_ok c1" "client_buffer c1 = client_buffer c"
      "auth_rest c c1" "buffer_window (origin_buffer c1) = []" "e1 = poke fd OP_READ (?e\<lparr>e_world := w\<rparr>)"
    using reply_write_spec[OF os(1) b(1) c(1) _ b(5), of True ?key] w(1) s(2) by auto
  let ?j = "os_uninit os 2 (e_world e1)"
  let ?x = "\<lparr>r_state = VER_CMD_ATYP, r_cmd = ?j ! 0, r_atyp = ?j ! 1\<rparr>"
  let ?c2 = "c1\<lparr>client := U_request ?x\<rparr>"
  have step: "machine_step os Ev_write ?key (stm c) (c, ?e) = Some (REQUEST, \<lparr>initial = GREETING, max_state = ERROR, current = Some REQUEST\<rparr>, ?c2, e1)"
    by (subst step_moves[where q = REPLY and h = "reply_write os" and ?s1.0 = "(c1, e1)" and ?s2.0 = "(?c2, e1)"])
      (use r(1) b(4) in \<open>simp_all add: states_arrival run_hook_def ready_handler_def states_write request_arrival_def Let_def\<close>)
  have e1: "registry_ok e1" "sel_entry e1 = en(fd \<mapsto> conn_item fd a OP_READ)"
    using r(6) b(5) entry_conn_poke[of ?en fd a OP_WRITE "?e\<lparr>e_world := w\<rparr>" OP_READ] b(6) by (simp_all add: fun_eq_iff)
  have k: "bufs_ok ?c2" "arrays_ok ?c2" "\<not> closed ?c2" "client_fd c1 = fd" "origin_fd c1 = origin_fd c"
    using auth_restD[OF r(4)] b(2,3) r(2) s(2) by (simp_all add: arrays_ok_def bufs_ok_def)
  have en: "?en fd = Some (conn_item fd a OP_WRITE)" by simp
  let ?c3 = "?c2\<lparr>stm := \<lparr>initial = GREETING, max_state = ERROR, current = Some REQUEST\<rparr>\<rparr>"
  obtain p' where p': "selector_select (server_handlers os h) (ready Ev_write fd) p = Some (SELECTOR_SUCCESS, p')"
    "session_at p0 a (Some REQUEST) (sel_entry e1) ?c3 p'" "e_world p' = e_world e1" "e_users p' = e_users e1" "e_metrics p' = e_metrics e1"
    using session_step[OF s(1) en _ step _ _ e1(1) k(1-3), where h = h] by auto
  have ow: "opn w = opn (e_world p)" using table_calls(2)[OF w(1) os(3)] by simp
  have "asking p0 a en fd ?c3 p'" using p'(2) k(4) c(2) r(3,5) e1(2) by (simp add: asking_def)
  then show ?thesis using p' r(6) k(5) w(2) ow by (intro exI[of _ ?c3] exI[of _ p']) simp
qed

section \<open>Any number of requests\<close>

definition ask_rounds :: "int \<Rightarrow> nat \<Rightarrow> (nat option \<times> pselect_result) list" where
  "ask_rounds fd n = concat (replicate n [(None, ready Ev_read fd), (None, ready Ev_write fd)])"

definition refused_talk :: "sockaddr \<Rightarrow> dest list \<Rightarrow> act list" where
  "refused_talk bnd ds = concat (map (\<lambda>d. [Dialled (dest_addr d), Told (reply_message CONNECTION_REFUSED bnd)]) ds)"

lemma asked_nonempty: "ms = map asked_for (d # ds) \<Longrightarrow> next_said ms t = (Some (asked_for d), map asked_for ds, t)"
  by simp

lemma requests_refused:
  assumes os: "os_ok os" "names_ok os" "ip_text_ok os" "mem_ok os" "refuses os fd bnd view" "fd_table os opn"
  shows "asking p0 a en fd c (bt_proxy b) \<Longrightarrow> view (e_world (bt_proxy b)) = next_said (map asked_for ds) t \<Longrightarrow> list_all dest_ok ds
    \<Longrightarrow> \<exists>p' c' fs. serve os h (ask_rounds fd (length ds) @ rounds) b = serve os h rounds (b\<lparr>bt_proxy := p'\<rparr>)
      \<and> asking p0 a en fd c' p' \<and> view (e_world p') = (None, [], t @ refused_talk bnd ds)
      \<and> length fs = length ds \<and> distinct fs \<and> set fs \<inter> opn (e_world (bt_proxy b)) = {} \<and> (\<forall>f \<in> set fs. 0 \<le> f)
      \<and> opn (e_world p') = set fs \<union> opn (e_world (bt_proxy b)) \<and> origin_fd c' = (if fs = [] then origin_fd c else last fs)
      \<and> e_users p' = e_users (bt_proxy b) \<and> e_metrics p' = e_metrics (bt_proxy b)"
proof (induction ds arbitrary: b c t)
  case Nil
  then show ?case by (intro exI[of _ "bt_proxy b"] exI[of _ c] exI[of _ "[]"]) (simp add: ask_rounds_def refused_talk_def)
next
  case (Cons d ds)
  let ?H = "server_handlers os h"
  have v: "view (e_world (bt_proxy b)) = (Some (asked_for d), map asked_for ds, t)" "dest_ok d" using Cons.prems(2,3) by simp_all
  obtain c1 p1 f where 1: "selector_select ?H (ready Ev_read fd) (bt_proxy b) = Some (SELECTOR_SUCCESS, p1)"
    "session_at p0 a (Some REPLY) (en(fd \<mapsto> conn_item fd a OP_WRITE)) c1 p1" "client_fd c1 = fd" "origin_fd c1 = f"
    "f \<notin> opn (e_world (bt_proxy b))" "0 \<le> f" "opn (e_world p1) = insert f (opn (e_world (bt_proxy b)))"
    "client c1 = U_reply \<lparr>rep = CONNECTION_REFUSED, found_bnd_info = Some True\<rparr>"
    "buffer_window (client_buffer c1) = []" "buffer_window (origin_buffer c1) = reply_message CONNECTION_REFUSED bnd"
    "view (e_world p1) = (None, map asked_for ds, t @ [Dialled (dest_addr d)])"
    "e_users p1 = e_users (bt_proxy b)" "e_metrics p1 = e_metrics (bt_proxy b)"
    using round_refused[OF os Cons.prems(1) v, where h = h] by blast
  obtain c2 p2 where 2: "selector_select ?H (ready Ev_write fd) p1 = Some (SELECTOR_SUCCESS, p2)"
    "asking p0 a en fd c2 p2" "origin_fd c2 = f" "opn (e_world p2) = opn (e_world p1)"
    "view (e_world p2) = next_said (map asked_for ds) (t @ [Dialled (dest_addr d), Told (reply_message CONNECTION_REFUSED bnd)])"
    "e_users p2 = e_users p1" "e_metrics p2 = e_metrics p1"
    using round_told[OF os(1,5,6) 1(2,3,8,9,11), where h = h] 1(4,10) by auto
  have "asking p0 a en fd c2 (bt_proxy (b\<lparr>bt_proxy := p2\<rparr>))" using 2(2) by simp
  from Cons.IH[OF this, of "t @ [Dialled (dest_addr d), Told (reply_message CONNECTION_REFUSED bnd)]"] 2(5) Cons.prems(3)
  obtain p' c' fs where 3: "serve os h (ask_rounds fd (length ds) @ rounds) (b\<lparr>bt_proxy := p2\<rparr>) = serve os h rounds (b\<lparr>bt_proxy := p'\<rparr>)"
    "asking p0 a en fd c' p'" "view (e_world p') = (None, [], (t @ [Dialled (dest_addr d), Told (reply_message CONNECTION_REFUSED bnd)]) @ refused_talk bnd ds)"
    "length fs = length ds" "distinct fs" "set fs \<inter> opn (e_world p2) = {}" "\<forall>f \<in> set fs. 0 \<le> f"
    "opn (e_world p') = set fs \<union> opn (e_world p2)" "origin_fd c' = (if fs = [] then f else last fs)"
    "e_users p' = e_users p2" "e_metrics p' = e_metrics p2" unfolding 2(3) by auto
  show ?case
  proof (intro exI[of _ p'] exI[of _ c'] exI[of _ "f # fs"] conjI)
    show "serve os h (ask_rounds fd (length (d # ds)) @ rounds) b = serve os h rounds (b\<lparr>bt_proxy := p'\<rparr>)"
      using 1(1) 2(1) 3(1) by (simp add: ask_rounds_def)
  qed (use 1 2 3 in \<open>auto simp: refused_talk_def\<close>)
qed

end
