(* ===== verification/Account.thy ===== *)
theory Account
  imports Redial ServerEnd
begin

text \<open>
  The descriptors of the running server, from \<open>main\<close> on: the listening state that
  \<open>src/server/server.c\<close> reaches, the invariant that every later state has, and the client of
  \<open>Redial\<close> seen from the first round to any state after it.
\<close>

section \<open>The server that listens\<close>

definition listening :: "('w \<Rightarrow> int set) \<Rightarrow> 'w proxy \<Rightarrow> bool" where
  "listening opn p \<longleftrightarrow> registry_ok p \<and> cleared p \<and> sv_conns p = (\<lambda>_. None) \<and> pm_conns p = (\<lambda>_. None)
     \<and> (\<forall>fd it. sel_entry p fd = Some it \<longrightarrow>
          fd \<in> opn (e_world p) \<and> it_handler it \<in> {Some SOCKSV5_PASSIVE, Some PAM_PASSIVE, Some LOGGER_HANDLER})"

lemma listening_inv:
  assumes "listening opn p"
  shows "server_inv opn {} p"
proof -
  have l: "sound p" "sv_conns p = (\<lambda>_. None)" "pm_conns p = (\<lambda>_. None)"
    "\<And>fd it. sel_entry p fd = Some it \<Longrightarrow> fd \<in> opn (e_world p) \<and> it_handler it \<in> {Some SOCKSV5_PASSIVE, Some PAM_PASSIVE, Some LOGGER_HANDLER}"
    using assms unfolding listening_def sound_def by blast+
  have no: "\<not> alive p a c" for a c using l(2) by (simp add: alive_def)
  have ro: "roles p fd \<noteq> Some (Some x, d)" if "x = SOCKS5_HANDLER \<or> x = PAM_HANDLER" for fd x d
    using that l(4)[of fd] by (cases "sel_entry p fd") (auto simp: roles_def)
  have op: "fd \<in> opn (e_world p)" if "roles p fd \<noteq> None" for fd
    using that l(4)[of fd] by (cases "sel_entry p fd") (auto simp: roles_def)
  have "socks_inv opn {} p" by (rule socks_invI) (use l(1,2) no ro op in auto)
  moreover have "pam_held p" using ro l(3) by (auto simp: pam_held_def)
  ultimately show ?thesis by (simp add: server_inv_def)
qed

lemma serve_steps:
  "serve os h rounds b = Some (Inr b') \<Longrightarrow> (proxy_step os h)\<^sup>*\<^sup>* (bt_proxy b) (bt_proxy b')"
proof (induction rounds arbitrary: b)
  case Nil
  then show ?case by simp
next
  case (Cons r rounds)
  obtain sig ps where r: "r = (sig, ps)" by fastforce
  obtain p ss p1 where 1: "(case sig of None \<Rightarrow> Some (bt_proxy b) | Some n \<Rightarrow> signal_handler os h n (bt_proxy b)) = Some p"
    "selector_select (server_handlers os h) ps p = Some (ss, p1)"
    "(if ss \<noteq> SELECTOR_SUCCESS then Some (Inl (Some (ascii ''serving''), ss, b\<lparr>bt_proxy := p1\<rparr>))
      else if sig \<noteq> None then Some (Inl (None, SELECTOR_SUCCESS, b\<lparr>bt_proxy := p1\<rparr>))
      else serve os h rounds (b\<lparr>bt_proxy := p1\<rparr>)) = Some (Inr b')"
    using Cons.prems unfolding r serve.simps Let_def by (elim bind_SomeE) auto
  have s: "sig = None" "serve os h rounds (b\<lparr>bt_proxy := p1\<rparr>) = Some (Inr b')" using 1(3) by (auto split: if_splits)
  have "p = bt_proxy b" using 1(1) s(1) by simp
  then have "proxy_step os h (bt_proxy b) p1" using 1(2) by (blast intro: proxy_step.round)
  then show ?case using Cons.IH[OF s(2)] by (simp add: converse_rtranclp_into_rtranclp)
qed

text \<open>\<open>main\<close> reaches a listening state.\<close>

lemma main_listens:
  assumes b: "boots os h opn" "STDOUT_FILENO \<in> opn (os_close os 0 w)" "few (opn (os_close os 0 w)) 2"
    and a: "parse_args opts left_over = Inr args" and us: "new_users (arg_users args) admin_only"
    and ad: "addr_valid os (socks_addr args)" "addr_valid os (mng_addr args)"
    and m: "server_main os h None opts left_over rounds w = Some (Serving b)"
  shows "\<exists>p. listening opn p \<and> (proxy_step os h)\<^sup>*\<^sup>* p (bt_proxy b)"
proof -
  obtain b0 where 0: "booted (serving_entries (bt_server b0) (bt_pamServer b0)) (with_users (arg_users args) admin_only) 5 b0"
    "{STDOUT_FILENO, bt_server b0, bt_pamServer b0} \<subseteq> opn (e_world (bt_proxy b0))"
    "server_main os h None opts left_over rounds w = do {
          r \<leftarrow> serve os h rounds b0;
          (case r of Inl (msg, ss, b) \<Rightarrow> ended os h msg ss b | Inr b \<Rightarrow> Some (Serving b))
        }"
    using server_start_spec[OF b a us ad] by blast
  have "listening opn (bt_proxy b0)"
    using 0(1,2) unfolding listening_def booted_def
    by (auto simp: serving_entries_def logger_item_def passive_item_def split: if_splits)
  moreover have "serve os h rounds b0 = Some (Inr b)"
    using m unfolding 0(3) by (elim bind_SomeE) (auto simp: ended_def split: sum.splits prod.splits elim!: bind_SomeE)
  then have "(proxy_step os h)\<^sup>*\<^sup>* (bt_proxy b0) (bt_proxy b)" by (rule serve_steps)
  ultimately show ?thesis by blast
qed

section \<open>What the invariant says\<close>

text \<open>
  A registered descriptor is open; one of the handler of the proxy belongs to a connection that names
  it, one of the handler of the management server is that of its connection; two connections of the
  proxy have no descriptor in common.
\<close>

lemma server_account:
  assumes "server_inv opn L p"
  shows "\<forall>fd it. sel_entry p fd = Some it \<longrightarrow> fd \<in> opn (e_world p)"
    "\<forall>fd it. sel_entry p fd = Some it \<and> it_handler it = Some SOCKS5_HANDLER
       \<longrightarrow> (\<exists>a c. it_data it = Some a \<and> alive p a c \<and> fd \<in> {client_fd c, origin_fd c})"
    "\<forall>fd it. sel_entry p fd = Some it \<and> it_handler it = Some PAM_HANDLER
       \<longrightarrow> (\<exists>a c. it_data it = Some a \<and> pm_conns p a = Some c \<and> pm_client_fd c = fd)"
    "\<forall>a c. alive p a c \<longrightarrow> \<not> closed c \<and> client_fd c \<in> opn (e_world p) \<and> client_fd c \<noteq> origin_fd c
       \<and> (origin_fd c = - 1 \<or> origin_fd c \<in> opn (e_world p))"
    "\<forall>a b c d. alive p a c \<and> alive p b d \<and> a \<noteq> b \<longrightarrow> {client_fd c, origin_fd c} \<inter> {client_fd d, origin_fd d} \<subseteq> {- 1}"
proof -
  have si: "socks_inv opn L p" and pi: "pam_held p" using assms by (simp_all add: server_inv_def)
  note D = socks_invD[OF si]
  have ro: "roles p fd = Some (it_handler it, it_data it)" if "sel_entry p fd = Some it" for fd it using that by (simp add: roles_def)
  show "\<forall>fd it. sel_entry p fd = Some it \<longrightarrow> fd \<in> opn (e_world p)" using D(2) ro by simp
  show "\<forall>fd it. sel_entry p fd = Some it \<and> it_handler it = Some SOCKS5_HANDLER
       \<longrightarrow> (\<exists>a c. it_data it = Some a \<and> alive p a c \<and> fd \<in> {client_fd c, origin_fd c})"
    using D(7) ro by metis
  show "\<forall>fd it. sel_entry p fd = Some it \<and> it_handler it = Some PAM_HANDLER
       \<longrightarrow> (\<exists>a c. it_data it = Some a \<and> pm_conns p a = Some c \<and> pm_client_fd c = fd)"
    using pi ro unfolding pam_held_def by metis
  show "\<forall>a c. alive p a c \<longrightarrow> \<not> closed c \<and> client_fd c \<in> opn (e_world p) \<and> client_fd c \<noteq> origin_fd c
       \<and> (origin_fd c = - 1 \<or> origin_fd c \<in> opn (e_world p))"
    using D(9) unfolding attached_def by blast
  show "\<forall>a b c d. alive p a c \<and> alive p b d \<and> a \<noteq> b \<longrightarrow> {client_fd c, origin_fd c} \<inter> {client_fd d, origin_fd d} \<subseteq> {- 1}"
  proof (intro allI impI)
    fix a b c d assume "alive p a c \<and> alive p b d \<and> a \<noteq> b"
    then have "alive p a c" "alive p b d" "a \<noteq> b" by simp_all
    from alive_apart[OF si this] show "{client_fd c, origin_fd c} \<inter> {client_fd d, origin_fd d} \<subseteq> {- 1}" by auto
  qed
qed

section \<open>The client whose connections are refused\<close>

lemma asking_lost:
  assumes q: "asking p0 a en fd c p" and no: "sv_conns p0 = (\<lambda>_. None)" and en: "\<forall>f. en f \<noteq> None \<longrightarrow> f \<notin> X"
    and fd: "fd \<notin> X" and f: "f \<in> X" "f \<noteq> origin_fd c" "0 \<le> f" "f \<in> opn (e_world p)"
  shows "lost opn p f"
proof -
  have s: "sel_entry p = en(fd \<mapsto> conn_item fd a OP_READ)" "sv_conns p = (sv_conns p0)(a \<mapsto> c)" "client_fd c = fd"
    using askingD(1,2)[OF q] by (simp_all add: session_at_def)
  have "alive p b d \<Longrightarrow> d = c" for b d using s(2) no by (auto simp: alive_def split: if_splits)
  then show ?thesis using s(1,3) en fd f unfolding lost_def by (auto split: if_splits)
qed

lemma redial_spec:
  assumes os: "os_ok os" "names_ok os" "ip_text_ok os" "mem_ok os" "refuses os fd bnd view" "fd_table os opn" "writes_quietly h opn"
    and p: "listening opn (bt_proxy b)" "users_ok (e_users (bt_proxy b))" "resolution_jobs (bt_proxy b) = []"
      "sel_entry (bt_proxy b) lfd = Some (passive_item lfd SOCKSV5_PASSIVE)"
    and acc: "accepted os \<lparr>k_fd = lfd, k_data = None\<rparr> (bt_proxy b) fd addr w" and fd: "fd < int FD_SETSIZE"
    and client: "view w = (Some (SOCKS5_VERSION # n # us @ [AUTH_METHOD]), auth_message un pw # map asked_for ds, [])"
      "Suc (length us) = unat n" "AUTH_METHOD \<notin> set us"
      "0 < length un" "length un \<le> 255" "0 < length pw" "length pw \<le> 255" "credentials_ok (e_users (bt_proxy b)) un pw"
      "list_all dest_ok ds"
  shows "\<exists>b' fs. serve os h (login_rounds lfd fd @ ask_rounds fd (length ds)) b = Some (Inr b')
    \<and> snd (snd (view (e_world (bt_proxy b')))) = [Told [SOCKS5_VERSION, AUTH_METHOD], Told [AUTH_VERSION, AUTH_SUCCESS]] @ refused_talk bnd ds
    \<and> length fs = length ds \<and> distinct fs
    \<and> (\<forall>p'. (proxy_step os h)\<^sup>*\<^sup>* (bt_proxy b') p' \<longrightarrow> (\<forall>f \<in> set (butlast fs). lost opn p' f))"
proof -
  let ?p = "bt_proxy b" and ?a = "sv_next (bt_proxy b)"
  have l: "registry_ok ?p" "sv_conns ?p = (\<lambda>_. None)" "\<forall>f. sel_entry ?p f \<noteq> None \<longrightarrow> f \<in> opn (e_world ?p)"
    using p(1) unfolding listening_def by auto
  have env: "env_ok ?p" using l(1) p(2) by (simp add: env_ok_def)
  note P = refusesD[OF os(5)]
  obtain w1 w2 where a: "os_accept os lfd (e_world ?p) = (SysOk (fd, addr), w1)" "selector_fd_set_nio os fd w1 = (0, w2)" "os_malloc os w2 = (True, w)"
    using acc by (auto simp: accepted_def)
  note ac = table_accept(2)[OF a(1) os(6)]
  have ow: "opn w = insert fd (opn (e_world ?p))" using table_nio[OF a(2) os(6)] table_calls(8)[OF a(3) os(6)] ac by simp
  have free: "sel_entry ?p fd = None" using l(3) ac by blast
  have lfd: "sel_entry ?p lfd = Some \<lparr>it_fd = lfd, it_interest = OP_READ, it_handler = Some SOCKSV5_PASSIVE, it_data = None\<rparr>"
    using p(4) by (simp add: passive_item_def)
  have "length (SOCKS5_VERSION # n # us @ [AUTH_METHOD]) \<le> BUFFER_SIZE" using client(2) unsigned_less[where w = n and 'a = nat] by simp
  then obtain v1 where v1: "os_recv os fd BUFFER_SIZE w = (SysOk (SOCKS5_VERSION # n # us @ [AUTH_METHOD]), v1)"
    "view v1 = (None, auth_message un pw # map asked_for ds, [])" using P(2)[OF client(1), of BUFFER_SIZE] by blast
  obtain v2 where v2: "os_send os fd [SOCKS5_VERSION, AUTH_METHOD] v1 = (SysOk 2, v2)"
    "view v2 = (Some (auth_message un pw), map asked_for ds, [Told [SOCKS5_VERSION, AUTH_METHOD]])"
    using P(3)[OF v1(2), of "[SOCKS5_VERSION, AUTH_METHOD]"] by (auto simp: numeral_2_eq_2)
  have "length (auth_message un pw) \<le> BUFFER_SIZE" using client(5,7) by (simp add: auth_message_def)
  then obtain v3 where v3: "os_recv os fd BUFFER_SIZE v2 = (SysOk (auth_message un pw), v3)"
    "view v3 = (None, map asked_for ds, [Told [SOCKS5_VERSION, AUTH_METHOD]])" using P(2)[OF v2(2), of BUFFER_SIZE] by blast
  obtain v4 where v4: "os_send os fd [AUTH_VERSION, AUTH_SUCCESS] v3 = (SysOk 2, v4)"
    "view v4 = next_said (map asked_for ds) [Told [SOCKS5_VERSION, AUTH_METHOD], Told [AUTH_VERSION, AUTH_SUCCESS]]"
    using P(3)[OF v3(2), of "[AUTH_VERSION, AUTH_SUCCESS]"] by (auto simp: numeral_2_eq_2)
  have o4: "opn v4 = opn w"
    using table_calls(2)[OF v4(1) os(6)] table_calls(1)[OF v3(1) os(6)] table_calls(2)[OF v2(1) os(6)] table_calls(1)[OF v1(1) os(6)] by simp
  obtain q c where q: "\<forall>rounds. serve os h (login_rounds lfd fd @ rounds) b = serve os h rounds (b\<lparr>bt_proxy := q\<rparr>)"
    "asking ?p ?a (sel_entry ?p) fd c q" "e_world q = v4"
    using session_login[OF os(1) env p(3) lfd acc _ fd free v1(1) v2(1) v3(1) v4(1) client(2-8), where h = h] ac by blast
  have q': "asking ?p ?a (sel_entry ?p) fd c (bt_proxy (b\<lparr>bt_proxy := q\<rparr>))" using q(2) by simp
  have v4': "view (e_world (bt_proxy (b\<lparr>bt_proxy := q\<rparr>))) = next_said (map asked_for ds) [Told [SOCKS5_VERSION, AUTH_METHOD], Told [AUTH_VERSION, AUTH_SUCCESS]]"
    using q(3) v4(2) by simp
  obtain p' c' fs where r: "serve os h (ask_rounds fd (length ds) @ []) (b\<lparr>bt_proxy := q\<rparr>) = serve os h [] ((b\<lparr>bt_proxy := q\<rparr>)\<lparr>bt_proxy := p'\<rparr>)"
    "asking ?p ?a (sel_entry ?p) fd c' p'"
    "view (e_world p') = (None, [], [Told [SOCKS5_VERSION, AUTH_METHOD], Told [AUTH_VERSION, AUTH_SUCCESS]] @ refused_talk bnd ds)"
    "length fs = length ds" "distinct fs" "set fs \<inter> opn v4 = {}" "\<forall>f \<in> set fs. 0 \<le> f" "opn (e_world p') = set fs \<union> opn v4"
    "origin_fd c' = (if fs = [] then origin_fd c else last fs)"
    using requests_refused[OF os(1-6) q' v4' client(9), where h = h and rounds = "[]"] q(3) by auto
  let ?b = "b\<lparr>bt_proxy := p'\<rparr>"
  have s: "serve os h (login_rounds lfd fd @ ask_rounds fd (length ds)) b = Some (Inr ?b)" using q(1) r(1) by simp
  have inv: "server_inv opn {} p'" using steps_keep[OF os(6,7) serve_steps[OF s] listening_inv[OF p(1)]] by simp
  have lost: "lost opn p' f" if f: "f \<in> set (butlast fs)" for f
  proof (rule asking_lost[OF r(2) l(2), where X = "set fs"])
    show "\<forall>f. sel_entry ?p f \<noteq> None \<longrightarrow> f \<notin> set fs" using l(3) r(6) o4 ow by blast
    show "fd \<notin> set fs" using r(6) o4 ow by blast
    show "f \<in> set fs" "0 \<le> f" "f \<in> opn (e_world p')" using in_set_butlastD[OF f] r(7,8) by auto
    have "fs \<noteq> []" using f by auto
    then have "fs = butlast fs @ [last fs]" by simp
    then have "f \<noteq> last fs" using r(5) f by (metis distinct_append disjoint_iff list.set_intros(1))
    then show "f \<noteq> origin_fd c'" using r(9) \<open>fs \<noteq> []\<close> by simp
  qed
  then have "\<forall>p''. (proxy_step os h)\<^sup>*\<^sup>* p' p'' \<longrightarrow> (\<forall>f \<in> set (butlast fs). lost opn p'' f)"
    using lost_kept[OF os(6,7) inv] by blast
  then show ?thesis using s r(3-5) by (intro exI[of _ ?b] exI[of _ fs]) simp
qed

end
