(* ===== verification/SessionSample.thy ===== *)
theory SessionSample
  imports Sessions
begin

text \<open>
  A system with a client that logs in as \<open>admin\<close> and asks for an address: its world is what the
  client has still to send and what the server has done.
\<close>

type_synonym stage = "byte list list \<times> act list"

definition session_os :: "stage os" where
  "session_os = \<lparr>
     os_recv = (\<lambda>fd n (ib, l). case ib of
        [] \<Rightarrow> (SysErr 11, ib, l) | bs # rest \<Rightarrow> if length bs \<le> n then (SysOk bs, rest, l) else (SysErr 11, ib, l)),
     os_send = (\<lambda>fd bs (ib, l). (SysOk (length bs), ib, l @ [Told bs])),
     os_shutdown = (\<lambda>fd h w. w),
     os_close = (\<lambda>fd w. w),
     os_socket = (\<lambda>a b c w. (SysOk 7, w)),
     os_connect = (\<lambda>fd a (ib, l). (SysErr EINPROGRESS, ib, l @ [Dialled a])),
     os_so_error = (\<lambda>fd w. (SysOk 0, w)),
     os_getsockname = (\<lambda>fd w. (SysOk (Sin (htons 80) [127, 0, 0, 1]), w)),
     os_accept = (\<lambda>fd w. (SysOk (5, Sin (htons 50000) [127, 0, 0, 1]), w)),
     os_getfd = (\<lambda>fd w. (SysOk 0, w)),
     os_setfl = (\<lambda>fd f w. (SysOk (), w)),
     os_malloc = (\<lambda>w. (True, w)),
     os_thread = (\<lambda>w. (True, w)),
     os_uninit = (\<lambda>n w. replicate n 0),
     os_ntop = os_ntop sample_os,
     os_pton = os_pton sample_os,
     os_getaddrinfo = (\<lambda>h p w. (None, w)) \<rparr>"

lemma session_os_ok: "os_ok session_os" "names_ok session_os" "ip_text_ok session_os" "mem_ok session_os"
  using sample_ip
  by (auto simp: os_ok_def names_ok_def ip_text_ok_def mem_ok_def session_os_def split: list.splits if_splits)

lemma session_plays: "plays session_os 5 7 (Sin (htons 80) [127, 0, 0, 1]) fst snd"
  by (simp add: plays_def unheard_def selector_fd_set_nio_def session_os_def)

definition quiet_platform :: "'w platform" where
  "quiet_platform = \<lparr>
     h_write = (\<lambda>fd bs w. (SysOk (length bs), w)),
     h_open = (\<lambda>n w. (SysErr 2, w)),
     h_localtime = (\<lambda>w. \<lparr>tm_year = 125, tm_mon = 10, tm_mday = 5, tm_hour = 12, tm_min = 30, tm_sec = 0\<rparr>),
     h_strerror = (\<lambda>e. []),
     NO_COLOR_LOGS = False,
     pt_sigprocmask = (\<lambda>w. (0, w)),
     pt_sigaction = (\<lambda>w. (0, w)),
     pt_reuseaddr = (\<lambda>fd w. w),
     pt_bind = (\<lambda>fd a n w. (SysOk (), w)),
     pt_listen = (\<lambda>fd n w. (SysOk (), w)),
     pt_errno = (\<lambda>w. 0) \<rparr>"

text \<open>A server that listens on the descriptor 3 and knows the user \<open>admin\<close>.\<close>

definition ready_proxy :: "'w \<Rightarrow> 'w proxy" where
  "ready_proxy w = with_item 3 (Some SOCKSV5_PASSIVE) OP_READ None (blank_proxy (\<lambda>_. None) w)"

lemma ready_proxy_ok:
  "env_ok (ready_proxy w)" "resolution_jobs (ready_proxy w) = []" "e_world (ready_proxy w) = w" "e_users (ready_proxy w) = sample_db"
  "sv_next (ready_proxy w) = 0" "sv_conns (ready_proxy w) = (\<lambda>_. None)"
  "sel_entry (ready_proxy w) = [3 \<mapsto> \<lparr>it_fd = 3, it_interest = OP_READ, it_handler = Some SOCKSV5_PASSIVE, it_data = None\<rparr>]"
proof -
  note A = register_spec[where p = "blank_proxy (\<lambda>_. None) w" and r = SOCKSV5_PASSIVE and i = OP_READ and d = None and fd = 3, OF blank_ok(2,3)]
  show "env_ok (ready_proxy w)" using A(2,3) sample_db_ok(1) by (simp add: env_ok_def ready_proxy_def blank_ok(1))
  show "sel_entry (ready_proxy w) = [3 \<mapsto> \<lparr>it_fd = 3, it_interest = OP_READ, it_handler = Some SOCKSV5_PASSIVE, it_data = None\<rparr>]"
    unfolding ready_proxy_def using A(4) by (simp add: blank_ok(1))
qed (simp_all add: ready_proxy_def)

lemma session_accepted: "accepted session_os \<lparr>k_fd = 3, k_data = None\<rparr> (ready_proxy w) 5 (Sin (htons 50000) [127, 0, 0, 1]) w"
  unfolding accepted_def ready_proxy_ok(3) by (simp add: selector_fd_set_nio_def session_os_def)

lemma admin_credentials: "credentials_ok sample_db [97, 100, 109, 105, 110] [97, 100, 109, 105, 110]"
  by (simp add: credentials_ok_def sample_db_ok ascii_admin)

text \<open>A server with one client, on the descriptor 5, that has not sent its greeting.\<close>

definition greeting_conn :: socks5 where
  "greeting_conn = (sample_conn (U_greeting \<lparr>g_state = VER_N_NMETHODS, g_n_methods = 0, g_method = NO_AUTH_METHOD\<rparr>))
     \<lparr>stm := \<lparr>initial = GREETING, max_state = ERROR, current = Some GREETING\<rparr>\<rparr>"

definition greeting_proxy :: "'w \<Rightarrow> 'w proxy" where
  "greeting_proxy w = with_item 5 (Some SOCKS5_HANDLER) OP_READ (Some 0) (blank_proxy [0 \<mapsto> greeting_conn] w)"

lemma greeting_proxy_ok:
  "env_ok (greeting_proxy w)" "resolution_jobs (greeting_proxy w) = []" "e_world (greeting_proxy w) = w"
  "sv_conns (greeting_proxy w) = [0 \<mapsto> greeting_conn]" "sel_entry (greeting_proxy w) = [5 \<mapsto> conn_item 5 0 OP_READ]"
proof -
  note A = register_spec[where p = "blank_proxy [0 \<mapsto> greeting_conn] w" and r = SOCKS5_HANDLER and i = OP_READ and d = "Some 0" and fd = 5, OF blank_ok(2,3)]
  show "env_ok (greeting_proxy w)" using A(2,3) sample_db_ok(1) by (simp add: env_ok_def greeting_proxy_def blank_ok(1))
  show "sel_entry (greeting_proxy w) = [5 \<mapsto> conn_item 5 0 OP_READ]"
    unfolding greeting_proxy_def using A(4) by (simp add: blank_ok(1) conn_item_def)
qed (simp_all add: greeting_proxy_def)

lemma greeting_step:
  "\<exists>c' e. machine_step session_os Ev_read \<lparr>k_fd = 5, k_data = Some 0\<rparr> (stm greeting_conn) (greeting_conn, seen Ev_read 5 (greeting_proxy (([[5, 1, 2]], []) :: stage)))
     = Some (GREETING, stm greeting_conn, c', e) \<and> sel_entry e = [5 \<mapsto> conn_item 5 0 OP_WRITE]"
  "machine.minv session_os (stm greeting_conn) (greeting_conn, greeting_proxy w)"
proof -
  let ?g = "\<lparr>g_state = VER_N_NMETHODS, g_n_methods = 0, g_method = NO_AUTH_METHOD\<rparr>"
  let ?e = "seen Ev_read 5 (greeting_proxy (([[5, 1, 2]], []) :: stage))" and ?key = "\<lparr>k_fd = 5, k_data = Some (0 :: nat)\<rparr>"
  have g: "greeting_ready greeting_conn ?g" by (simp add: greeting_ready_def greeting_conn_def bufs_ok_def)
  have e: "registry_ok ?e" "sel_entry ?e = [5 \<mapsto> conn_item 5 0 OP_READ]"
    using env_ok_registry[OF greeting_proxy_ok(1)] greeting_proxy_ok(5) by simp_all
  have room: "buffer_room (client_buffer greeting_conn) = BUFFER_SIZE" "buffer_window (client_buffer greeting_conn) = []"
    by (simp_all add: greeting_conn_def)
  have rd: "os_recv session_os 5 BUFFER_SIZE (e_world ?e) = (SysOk [5, 1, 2], [], [])"
    by (simp add: greeting_proxy_ok(3)) (simp add: session_os_def)
  obtain c' where r: "greeting_read session_os ?key (greeting_conn, ?e) = Some (GREETING, c', poke 5 OP_WRITE (?e\<lparr>e_world := ([], [])\<rparr>))"
    using greeting_read_spec[OF session_os_ok(1) g e(1), of ?key] rd room by (auto simp: greet_from_def greet_methods_def greeted_def)
  have "sel_entry (poke 5 OP_WRITE (?e\<lparr>e_world := ([], [])\<rparr>)) = [5 \<mapsto> conn_item 5 0 OP_WRITE]"
    using entry_conn_poke[of "[5 \<mapsto> conn_item 5 0 OP_READ]" 5 0 OP_READ "?e\<lparr>e_world := ([], [])\<rparr>" OP_WRITE] e(2) by (simp add: fun_eq_iff)
  moreover have "machine_step session_os Ev_read ?key (stm greeting_conn) (greeting_conn, ?e)
      = Some (GREETING, stm greeting_conn, c', poke 5 OP_WRITE (?e\<lparr>e_world := ([], [])\<rparr>))"
    by (rule step_stays[where h = "greeting_read session_os"]) (use r in \<open>simp_all add: greeting_conn_def ready_handler_def states_read\<close>)
  ultimately show "\<exists>c' e. machine_step session_os Ev_read ?key (stm greeting_conn) (greeting_conn, ?e)
     = Some (GREETING, stm greeting_conn, c', e) \<and> sel_entry e = [5 \<mapsto> conn_item 5 0 OP_WRITE]" by blast
  have "fresh_fds session_os 5" by (simp add: fresh_fds_def session_os_def)
  then show "machine.minv session_os (stm greeting_conn) (greeting_conn, greeting_proxy w)"
    using greeting_proxy_ok(1)[of w] session_os_ok
    by (simp add: machine.minv_def state_inv_def good_def greeting_conn_def conn_ok_def bufs_ok_def arrays_ok_def sample_conn_def)
qed

end
