(* ===== verification/AccountSample.thy ===== *)
theory AccountSample
  imports Account SessionSample
begin

text \<open>
  A system that keeps the table of descriptors: its world is the list of the open ones and a client
  that sends its next message when it is answered. Every connection to a destination is refused.
\<close>

type_synonym table = "int list \<times> talk"

text \<open>A new descriptor is the lowest that is not open.\<close>

definition fresh_fd :: "int list \<Rightarrow> int" where
  "fresh_fd l = hd (filter (\<lambda>x. x \<notin> set l) (map int [0..<Suc (length (remdups l))]))"

lemma fresh_fd: "0 \<le> fresh_fd l" "fresh_fd l \<notin> set l" "fresh_fd l \<le> int (card (set l))"
proof -
  let ?xs = "filter (\<lambda>x. x \<notin> set l) (map int [0..<Suc (length (remdups l))])"
  have "card (int ` {0..<Suc (length (remdups l))}) = Suc (card (set l))"
    by (subst card_image) (simp_all add: length_remdups_card_conv)
  then have "\<not> int ` {0..<Suc (length (remdups l))} \<subseteq> set l"
    using card_mono[of "set l" "int ` {0..<Suc (length (remdups l))}"] by force
  then have "?xs \<noteq> []" by (auto simp: filter_empty_conv image_subset_iff simp del: upt_Suc)
  from hd_in_set[OF this] show "0 \<le> fresh_fd l" "fresh_fd l \<notin> set l" "fresh_fd l \<le> int (card (set l))"
    by (auto simp: fresh_fd_def length_remdups_card_conv simp del: upt_Suc)
qed

definition table_os :: "table os" where
  "table_os = \<lparr>
     os_recv = (\<lambda>fd n (l, s, ms, t). case s of
        None \<Rightarrow> (SysErr 11, l, s, ms, t) | Some bs \<Rightarrow> if length bs \<le> n then (SysOk bs, l, None, ms, t) else (SysErr 11, l, s, ms, t)),
     os_send = (\<lambda>fd bs (l, v). (SysOk (length bs), l, next_said (fst (snd v)) (snd (snd v) @ [Told bs]))),
     os_shutdown = (\<lambda>fd h w. w),
     os_close = (\<lambda>fd (l, v). (filter (\<lambda>x. x \<noteq> fd) l, v)),
     os_socket = (\<lambda>a b c (l, v). (SysOk (fresh_fd l), fresh_fd l # l, v)),
     os_connect = (\<lambda>fd a (l, s, ms, t). (SysErr ECONNREFUSED, l, s, ms, t @ [Dialled a])),
     os_so_error = (\<lambda>fd w. (SysOk 0, w)),
     os_getsockname = (\<lambda>fd w. (SysOk (Sin (htons 80) [127, 0, 0, 1]), w)),
     os_accept = (\<lambda>fd (l, v). (SysOk (fresh_fd l, Sin (htons 50000) [127, 0, 0, 1]), fresh_fd l # l, v)),
     os_getfd = (\<lambda>fd w. (SysOk 0, w)),
     os_setfl = (\<lambda>fd f w. (SysOk (), w)),
     os_malloc = (\<lambda>w. (True, w)),
     os_thread = (\<lambda>w. (True, w)),
     os_uninit = (\<lambda>n w. replicate n 0),
     os_ntop = os_ntop sample_os,
     os_pton = os_pton sample_os,
     os_getaddrinfo = (\<lambda>h p w. (None, w)) \<rparr>"

definition table_open :: "table \<Rightarrow> int set" where
  "table_open w = set (fst w)"

lemma table_os_ok: "os_ok table_os" "names_ok table_os" "ip_text_ok table_os" "mem_ok table_os"
proof -
  show "os_ok table_os" unfolding os_ok_def by (auto simp: table_os_def split: option.splits)
  show "ip_text_ok table_os" using sample_ip by (simp add: ip_text_ok_def table_os_def)
  show "names_ok table_os" "mem_ok table_os" by (simp_all add: names_ok_def mem_ok_def table_os_def)
qed

lemma table_os_table: "fd_table table_os table_open"
  unfolding fd_table_def hands_out_def by (auto simp: table_os_def table_open_def fresh_fd split: option.splits)

lemma table_os_refuses: "refuses table_os fd (Sin (htons 80) [127, 0, 0, 1]) snd"
  unfolding refuses_def by (auto simp: table_os_def selector_fd_set_nio_def split_beta)

lemma quiet_quiet: "writes_quietly quiet_platform opn"
  by (simp add: writes_quietly_def quiet_platform_def)

text \<open>The client: a greeting, the log in, requests for two addresses.\<close>

definition two_dests :: "dest list" where
  "two_dests = [(False, [127, 0, 0, 1], htons 80), (False, [127, 0, 0, 1], htons 81)]"

definition table_start :: table where
  "table_start = ([0, 1, 2, 3, 4], Some [5, 1, 2], auth_message [97, 100, 109, 105, 110] [97, 100, 109, 105, 110] # map asked_for two_dests, [])"

definition table_boot :: "table boot" where
  "table_boot = \<lparr>bt_proxy = ready_proxy table_start, bt_selector = True, bt_server = 3, bt_pamServer = 4\<rparr>"

lemma table_boot_listens: "listening table_open (bt_proxy table_boot)"
proof -
  have "cleared (blank_proxy (\<lambda>_. None) table_start)" by (simp add: cleared_def blank_proxy_def item_init_def zero_item_def proxy_static_def)
  then have "cleared (ready_proxy table_start)" unfolding ready_proxy_def by (rule cleared_with_item) simp
  moreover have "registry_ok (ready_proxy table_start)" using ready_proxy_ok(1) by (rule env_ok_registry)
  moreover have "pm_conns (ready_proxy table_start) = (\<lambda>_. None)"
    by (simp add: ready_proxy_def with_item_def blank_proxy_def proxy_static_def)
  ultimately show ?thesis
    unfolding listening_def by (simp add: table_boot_def ready_proxy_ok table_open_def table_start_def)
qed

lemma table_accepted: "accepted table_os \<lparr>k_fd = 3, k_data = None\<rparr> (bt_proxy table_boot) 5 (Sin (htons 50000) [127, 0, 0, 1])
   ([5, 0, 1, 2, 3, 4], snd table_start)"
proof -
  have "fresh_fd [0, 1, 2, 3, 4] = 5" by (simp add: fresh_fd_def)
  then show ?thesis
    unfolding accepted_def by (simp add: selector_fd_set_nio_def table_boot_def ready_proxy_ok table_os_def table_start_def)
qed

text \<open>\<open>main\<close> starts on it, with the first three descriptors open.\<close>

lemma table_boots: "boots table_os quiet_platform table_open"
proof -
  have so: "\<exists>fd w'. os_socket table_os f SOCK_STREAM IPPROTO_TCP w = (SysOk fd, w') \<and> 0 \<le> fd \<and> fd < 1024 \<and> fd \<notin> table_open w
      \<and> table_open w' = insert fd (table_open w)" if "few (table_open w) 1" for f w
  proof -
    have "card (set (fst w)) < 16" using that by (simp add: few_def table_open_def)
    then have "fresh_fd (fst w) < 1024" using fresh_fd(3)[of "fst w"] by linarith
    then show ?thesis using fresh_fd(1,2)[of "fst w"] by (simp add: table_os_def table_open_def split_beta)
  qed
  have "clock_ok quiet_platform" by (simp add: clock_ok_def quiet_platform_def)
  then show ?thesis using so table_os_ok(1,4) unfolding boots_def
    by (intro conjI) (auto simp: selector_fd_set_nio_def table_os_def quiet_platform_def)
qed

definition three_open :: table where
  "three_open = ([0, 1, 2], None, [], [])"

lemma table_ready: "STDOUT_FILENO \<in> table_open (os_close table_os 0 three_open)" "few (table_open (os_close table_os 0 three_open)) 2"
  "addr_valid table_os a"
proof -
  have "table_open (os_close table_os 0 three_open) = {1, 2}" by (auto simp: table_open_def table_os_def three_open_def)
  then show "STDOUT_FILENO \<in> table_open (os_close table_os 0 three_open)" "few (table_open (os_close table_os 0 three_open)) 2"
    by (simp_all add: few_def)
  show "addr_valid table_os a" by (simp add: addr_valid_def table_os_def sample_os_def)
qed

end
