(* ===== verification/Spec2Isabelle.thy ===== *)
theory Spec2Isabelle
  imports Edges StrCmpParser ClientOptions AccountSample
begin

text \<open>
  A model of the SOCKS5 proxy of this repository and of its management server, with the theorems
  that say what they do. Every definition is a translation of the C code under \<open>src/src\<close>, where
  the paths below start.

  \<^bold>\<open>The program.\<close> One thread runs \<open>selector_select\<close> over nonblocking descriptors
  (\<open>shared/selector.c\<close>). A descriptor is registered with a handler and a pointer; the handlers of
  a proxied connection (\<open>server/socks5nio.c\<close>) run a table-driven state machine
  (\<open>shared/stm.c\<close>) whose states are the phases of the protocol: greeting, user and password,
  request, connection to the destination, reply, relay (\<open>server/states/\<close>). Bytes wait in bounded
  buffers (\<open>shared/buffer.c\<close>), users are kept in a sorted list (\<open>shared/list.c\<close>,
  \<open>server/users.c\<close>), counters in \<open>server/metrics.c\<close>. A second listening socket serves the
  management protocol (\<open>server/pam/\<close>), with a machine of its own over the same users and metrics.
  \<open>main\<close> (\<open>server/server.c\<close>) reads the options (\<open>server/args.c\<close>), opens the log
  (\<open>server/logger.c\<close>) and both listening sockets and runs the loop until a signal ends it. The
  management client (\<open>client/\<close>) is a program of its own that speaks the management protocol.

  \<^bold>\<open>How it is modelled.\<close> A C function that can fault (null pointer, index out of an array,
  failed assertion, \<open>abort\<close>) is a function to an option type, and \<open>None\<close> is the fault; error
  results that the code handles are values. Arrays are byte lists of the declared size, uninitialised memory is what the
  system's \<open>os_uninit\<close> gives, and a field that is read before it is written is an option. A struct
  is a record, an enum a datatype or its number, \<open>uint8_t\<close>, \<open>uint16_t\<close> and \<open>size_t\<close> counters are
  words. Linked lists live in an explicit heap of nodes (\<open>NodeHeap\<close>). System calls are the fields
  of the record \<open>os\<close> (\<open>Net\<close>): functions of a world that the model passes along, and so arbitrary.
  What the code relies on is stated as hypotheses: \<open>os_ok\<close> (\<open>recv\<close> returns no more bytes than
  asked for, \<open>send\<close> sends no more than given, fresh memory has the size asked for), \<open>names_ok\<close>
  (addresses have the length of their family), \<open>fresh_fds\<close> (\<open>socket\<close> does not return a descriptor
  that is open), \<open>ip_text_ok\<close> (\<open>inet_pton\<close> inverts \<open>inet_ntop\<close>), \<open>mem_ok\<close> (memory does not run
  out), \<open>fd_table\<close> and \<open>writes_quietly\<close> (which calls open and close descriptors), \<open>boots\<close> (the
  calls with which the server starts succeed while few descriptors are open;
  \<open>opens\<close> gives the open ones). \<open>Sample\<close> and \<open>ServerSample\<close> have systems that meet them all. The log
  file, the clock and the calls of \<open>main\<close> are the fields of the records \<open>host\<close> and \<open>platform\<close>
  (\<open>Logger\<close>, \<open>Server\<close>). What \<open>getopt_long\<close> finds is a list of options.

  \<^bold>\<open>The theories\<close>, each with the definitions of its component and their lemmas:
  \<^item> \<open>Prelude\<close> and \<open>CStrings\<close>: options, lists, \<open>memcpy\<close>, \<open>strlen\<close>, \<open>strcmp\<close>, \<open>atoi\<close>, decimal text.
  \<^item> \<open>ByteBuffer\<close> (\<open>buffer.c\<close>): the operations on pointers, and the locale \<open>byte_fifo\<close>, the laws of
    a bounded queue of bytes that the handlers rely on.
  \<^item> \<open>NodeHeap\<close>, \<open>SortedList\<close> (\<open>list.c\<close>), \<open>FifoQueue\<close> (\<open>queue.c\<close>, locale \<open>lossy_fifo\<close>).
  \<^item> \<open>Users\<close> (\<open>users.c\<close>): every operation refines a finite map from names to password and role.
    \<open>Metrics\<close> (\<open>metrics.c\<close>).
  \<^item> \<open>CharParser\<close>, \<open>StrCmpParser\<close> (\<open>parser.c\<close>, \<open>parser_utils.c\<close>): the generic parser and the
    comparison of strings built on it.
  \<^item> \<open>StateMachine\<close> (\<open>stm.c\<close>): the engine and the locale \<open>machine_contract\<close>, under which an
    invariant of the states holds after every event. \<open>Protocol\<close> and \<open>PamMachine\<close> interpret it on the
    two tables of the server.
  \<^item> \<open>Selector\<close>, \<open>SelectorLaws\<close> (\<open>selector.c\<close>): registration, interests, the sets for \<open>select\<close>,
    dispatch, blocking jobs; the locale is the registry as a partial map of descriptors.
  \<^item> \<open>Net\<close>, \<open>Connection\<close>: byte order, socket addresses, the system; the record of a connection.
  \<^item> \<open>Greeting\<close>, \<open>Auth\<close>, \<open>Request\<close>, \<open>Dial\<close>, \<open>Reply\<close>, \<open>Copy\<close> (\<open>server/states/\<close>): one theory per
    state; \<open>Dial\<close> holds \<open>connection_utils.c\<close> and \<open>connect.c\<close>. Each has a reference description of
    its message and a lemma that the handler implements it on every branch.
  \<^item> \<open>Protocol\<close>: the table \<open>socks5States\<close> and the invariant of its eight states. \<open>Socks5\<close>
    (\<open>socks5nio.c\<close>): accepting, the four handlers of the selector, the end of a connection.
    \<open>Journeys\<close>: runs through several handlers.
  \<^item> \<open>PamAuth\<close>, \<open>PamRequest\<close>, \<open>PamMethods\<close>, \<open>Pam\<close> (\<open>server/pam/\<close>): the management server.
    \<open>PamLaws\<close>: every handler keeps its invariant. \<open>PamMachine\<close>: runs. \<open>PamExchanges\<close>,
    \<open>PamListing\<close>: the messages, the methods, accepting and closing.
  \<^item> \<open>CText\<close>: \<open>strtol\<close>, \<open>strchr\<close>, \<open>strtok\<close>. \<open>Args\<close> (\<open>server/args.c\<close>): the options of the server.
  \<^item> \<open>Logger\<close> (\<open>logger.c\<close>): formatting, the queue of messages, the handler of the log file; the number
    of strings that are allocated is the field \<open>log_live\<close>. \<open>LoggerLaws\<close>: the pending messages as a list.
  \<^item> \<open>Server\<close> (\<open>server.c\<close>): \<open>main\<close> in stages, each of which goes on or leaves with an error; the
    loop over its rounds, a signal or none in each. \<open>ServerLaws\<close>: the start, \<open>ServerEnd\<close>: the end.
  \<^item> \<open>ClientArgs\<close>, \<open>Client\<close> (\<open>client/\<close>): the command line, the requests and answers and the program.
    \<open>ClientServer\<close>: the bytes of the client are what the handlers of the server understand.
    \<open>ClientOptions\<close> (\<open>client/args.c\<close>): an older copy of the server's options, equal to it but for a default.
  \<^item> \<open>NetUtils\<close> (\<open>netutils.c\<close>): the text of an address, and the blocking transfers with the relation
    \<open>delivered\<close>, which says what the kernel has taken.
  \<^item> \<open>Calm\<close>: what no handler of a proxied connection touches, and which of them gives lines to the log. \<open>Rounds\<close>: a round of the main loop in
    which one descriptor is ready is one step of one machine. \<open>Sessions\<close>: a client from its connection
    to the relay, in eight rounds; \<open>plays\<close> says what such a client and its destination do, and \<open>acts\<close>
    records what they are told.
  \<^item> \<open>FdTable\<close>, \<open>PamTable\<close>: the contract \<open>fd_table\<close> of a system that keeps a table of open descriptors,
    and what each handler does to the registry and to that table. \<open>Ledger\<close>: the invariant of the
    server that ties registered descriptors, open descriptors and connections to each other, and that an
    event of the machine keeps. \<open>Descriptors\<close>: accepting, ending, the log, the rounds of the loop and the
    resolver threads keep it; \<open>proxy_step\<close> is the server as a system of steps. \<open>Redial\<close>: a client that
    asks again after a refusal, round by round. \<open>Account\<close>: both from \<open>main\<close> on.
  \<^item> \<open>Edges\<close>: what the code does at its edges (segments that end at an unlucky place, failed
    registrations, removed users), each with an instance.
  \<^item> \<open>Sample\<close>, \<open>PamSample\<close>, \<open>ServerSample\<close>, \<open>SessionSample\<close>, \<open>AccountSample\<close>: concrete systems, servers and
    connections to apply the properties to.

  \<^bold>\<open>Loops.\<close> Loops over buffers and arrays are structural or have a measure. The walks of the user
  list may follow a cycle, so they are partial functions, proved to return on well formed lists.
  \<open>socksv5_done\<close> and \<open>socksv5_close\<close> call each other through the selector; the model unrolls them to
  the depth \<open>DONE_DEPTH = 2\<close>, where a deeper call would be \<open>None\<close>; the theorems that connections are
  released show that the flag \<open>closed\<close> ends the recursion before that.

  The loop of \<open>main\<close> has no bound: the model runs it over a given list of rounds, and the property
  that a signal ends it holds for every number of rounds before the signal. The loops of the log and
  of the blocking transfers end because the queue or the buffer gets shorter; a blocking copy ends
  only if its source does, so it is a partial function.

  \<^bold>\<open>What the properties below show.\<close> C1 and C2: a whole session through the main loop, and what one
  round of the loop does to one connection. C3 and C4: the descriptors of the whole server, from \<open>main\<close>
  on, and the one way in which they are lost. C5 to C9: the relay is a queue, the machine keeps its
  invariant and its gates, authentication does not depend on segmentation, requests lead to the
  address they name. C10 to C12: how the server starts and stops. C13 to C15: the management client,
  by itself and against the server. C16 to C20: the log, the blocking transfer, the options. C21 to
  C28: what the phases of a proxied connection do, on their error branches too. C29 to C32: users,
  queue, comparison of strings. C33 to C40: the management server. Several properties state
  behaviour that the code hardly intends; they are listed as findings.

  \<^bold>\<open>The log.\<close> What a call of the logger does (it allocates, formats, puts the message into the queue,
  and every 33rd message asks for the file to be written by setting the interest of its descriptor to
  \<open>OP_WRITE\<close>) is \<open>logger_log_message_deferred\<close> in \<open>Logger\<close>; \<open>main\<close>, its signal handler and the logger
  itself call it. The handlers of the connections do not: their calls are recorded in the field
  \<open>e_calls\<close>, where they tell what became of a connection or a login (\<open>socksv5_passive_accept\<close>,
  \<open>connect_write\<close>, \<open>socksv5_done\<close>, \<open>pam_passive_accept\<close>, \<open>pam_auth_pass\<close>), and are left out
  otherwise: the lines on error branches in \<open>greeting.c\<close>, \<open>auth.c\<close>, \<open>request.c\<close>, \<open>connect.c\<close>, \<open>reply.c\<close>,
  \<open>copy.c\<close> and \<open>pam/\<close>, what the methods of the management server report, the lines on progress, and
  those below the level \<open>LOGGER_MIN_LEVEL\<close>. So no effect
  of such a call on the queue, on memory or on the interest of the log's descriptor shows in the
  model of a handler, and the properties say nothing of those where a handler runs.

  \<^bold>\<open>Not modelled\<close>: the texts that the programs print (usage, version, help, answers) and what a
  format string and its arguments stand for (the text is an argument of the log); signal masks; the mutex
  around the list of jobs, which makes an addition one step, and the signal that wakes the main
  thread, which is the answer \<open>PS_EINTR\<close> of \<open>pselect\<close>; scheduling of the resolver thread other than as
  a step that may run at any time; the stub \<open>client/protocol.c\<close>.
\<close>

unbundle bit_operations_syntax

text \<open>C1: A client is served. In eight rounds of the main loop, with any other connections open, a client that
  keeps to the protocol (method 2 is the last one it offers) is accepted, greeted, authenticated and
  connected to the address it names: \<open>acts\<close> is all that the client was told and all that was dialled,
  in this order. Then its connection is in \<open>COPY\<close> with empty buffers, both descriptors wait for bytes,
  one connection more is counted, and the other connections, the users and the management server are
  as before, as are the other registrations, but for the file of the log. Two lines are given to the
  log meanwhile: the client is accepted, and the access log gets the client with the address that it
  named and the number \<open>port\<close>, which is the port with its bytes swapped (\<open>access_entry\<close>).\<close>

theorem client_served:
  assumes "os_ok os" "names_ok os" "ip_text_ok os" "mem_ok os" "plays os fd ofd bnd inbox acts"
    and "env_ok (bt_proxy b)" "resolution_jobs (bt_proxy b) = []"
      "sel_entry (bt_proxy b) lfd = Some \<lparr>it_fd = lfd, it_interest = OP_READ, it_handler = Some SOCKSV5_PASSIVE, it_data = None\<rparr>"
    and "accepted os \<lparr>k_fd = lfd, k_data = None\<rparr> (bt_proxy b) fd addr w"
    and "0 \<le> fd" "fd < int FD_SETSIZE" "sel_entry (bt_proxy b) fd = None"
      "0 \<le> ofd" "ofd < int FD_SETSIZE" "sel_entry (bt_proxy b) ofd = None" "fd \<noteq> ofd"
    and "inbox w = [SOCKS5_VERSION # n # us @ [AUTH_METHOD], auth_message un pw, ip_request v6 ad [p1, p2]]" "acts w = []"
      "Suc (length us) = unat n" "AUTH_METHOD \<notin> set us"
      "0 < length un" "length un \<le> 255" "0 < length pw" "length pw \<le> 255" "credentials_ok (e_users (bt_proxy b)) un pw"
      "length ad = addr_len v6"
  shows "\<exists>p' c port. serve os h (session_rounds lfd fd ofd @ rounds) b = serve os h rounds (b\<lparr>bt_proxy := p'\<rparr>)
    \<and> acts (e_world p') = [Told [SOCKS5_VERSION, AUTH_METHOD], Told [AUTH_VERSION, AUTH_SUCCESS],
        Dialled (mk_addr v6 port ad), Told (reply_message SUCCEDED bnd)] \<and> mem16 port = [p1, p2]
    \<and> sv_conns p' = (sv_conns (bt_proxy b))(sv_next (bt_proxy b) \<mapsto> c) \<and> current (stm c) = Some COPY \<and> copy_ok c
    \<and> client_fd c = fd \<and> origin_fd c = ofd \<and> buffer_window (client_buffer c) = [] \<and> buffer_window (origin_buffer c) = []
    \<and> sel_entry p' fd = Some (conn_item fd (sv_next (bt_proxy b)) OP_READ) \<and> sel_entry p' ofd = Some (conn_item ofd (sv_next (bt_proxy b)) OP_READ)
    \<and> (\<forall>f. f \<notin> {fd, ofd, logFile (px_log (bt_proxy b))} \<longrightarrow> sel_entry p' f = sel_entry (bt_proxy b) f)
    \<and> e_metrics p' = register_new_connection (e_metrics (bt_proxy b)) \<and> same_users (e_users (bt_proxy b)) (e_users p')
    \<and> pm_conns p' = pm_conns (bt_proxy b)
    \<and> e_calls p' = e_calls (bt_proxy b) @ [Log_accepted (addr_text os addr) (bnd_port addr), Log_access (access_entry os addr v6 port ad)]"
proof -
  from session_served[OF assms, of h rounds] obtain p' c port where
    s: "serve os h (session_rounds lfd fd ofd @ rounds) b = serve os h rounds (b\<lparr>bt_proxy := p'\<rparr>)"
    "session_at (bt_proxy b) (sv_next (bt_proxy b)) (Some COPY) ((sel_entry (bt_proxy b))
        (fd \<mapsto> conn_item fd (sv_next (bt_proxy b)) OP_READ, ofd \<mapsto> conn_item ofd (sv_next (bt_proxy b)) OP_READ)) c p'"
    "client_fd c = fd" "origin_fd c = ofd" "copy_ok c" "buffer_window (client_buffer c) = []" "buffer_window (origin_buffer c) = []"
    "mem16 port = [p1, p2]" "acts (e_world p') = [Told [SOCKS5_VERSION, AUTH_METHOD], Told [AUTH_VERSION, AUTH_SUCCESS],
        Dialled (mk_addr v6 port ad), Told (reply_message SUCCEDED bnd)]"
    "same_users (e_users (bt_proxy b)) (e_users p')" "e_metrics p' = register_new_connection (e_metrics (bt_proxy b))"
    "e_calls p' = e_calls (bt_proxy b) @ [Log_accepted (addr_text os addr) (bnd_port addr), Log_access (access_entry os addr v6 port ad)]"
    by blast
  show ?thesis by (rule exI[of _ p'], rule exI[of _ c], rule exI[of _ port]) (use s assms(16) in \<open>simp add: session_at_def\<close>)
qed

theorem client_served_witness:
  "\<exists>p' c port. serve session_os quiet_platform (session_rounds 3 5 7)
      \<lparr>bt_proxy = ready_proxy ([[5, 2, 0, 2], auth_message [97, 100, 109, 105, 110] [97, 100, 109, 105, 110],
          ip_request False [10, 0, 0, 1] [0, 80]], []), bt_selector = True, bt_server = 3, bt_pamServer = 4\<rparr>
      = Some (Inr \<lparr>bt_proxy = p', bt_selector = True, bt_server = 3, bt_pamServer = 4\<rparr>)
    \<and> sv_conns p' 0 = Some c \<and> current (stm c) = Some COPY
    \<and> snd (e_world p') = [Told [5, 2], Told [1, 0], Dialled (Sin port [10, 0, 0, 1]), Told (reply_message SUCCEDED (Sin (htons 80) [127, 0, 0, 1]))]"
proof -
  let ?w = "([[5, 2, 0, 2], auth_message [97, 100, 109, 105, 110] [97, 100, 109, 105, 110], ip_request False [10, 0, 0, 1] [0, 80]], []) :: stage"
  let ?b = "\<lparr>bt_proxy = ready_proxy ?w, bt_selector = True, bt_server = 3, bt_pamServer = 4\<rparr>"
  have b: "bt_proxy ?b = ready_proxy ?w" by simp
  have l: "sel_entry (bt_proxy ?b) 3 = Some \<lparr>it_fd = 3, it_interest = OP_READ, it_handler = Some SOCKSV5_PASSIVE, it_data = None\<rparr>"
    "sel_entry (bt_proxy ?b) 5 = None" "sel_entry (bt_proxy ?b) 7 = None" unfolding b ready_proxy_ok by simp_all
  have p: "env_ok (bt_proxy ?b)" "resolution_jobs (bt_proxy ?b) = []" unfolding b by (rule ready_proxy_ok)+
  have acc: "accepted session_os \<lparr>k_fd = 3, k_data = None\<rparr> (bt_proxy ?b) 5 (Sin (htons 50000) [127, 0, 0, 1]) ?w"
    unfolding b by (rule session_accepted)
  have inbox: "fst ?w = [SOCKS5_VERSION # 2 # [0] @ [AUTH_METHOD], auth_message [97, 100, 109, 105, 110] [97, 100, 109, 105, 110], ip_request False [10, 0, 0, 1] [0, 80]]"
    by simp
  have cr: "credentials_ok (e_users (bt_proxy ?b)) [97, 100, 109, 105, 110] [97, 100, 109, 105, 110]"
    unfolding b ready_proxy_ok by (rule admin_credentials)
  have len: "length [10, 0, 0, 1 :: byte] = addr_len False" by (simp add: addr_len_def)
  obtain p' c port where s: "serve session_os quiet_platform (session_rounds 3 5 7 @ []) ?b = serve session_os quiet_platform [] (?b\<lparr>bt_proxy := p'\<rparr>)"
    "sv_conns p' = (sv_conns (bt_proxy ?b))(sv_next (bt_proxy ?b) \<mapsto> c)" "current (stm c) = Some COPY"
    "snd (e_world p') = [Told [SOCKS5_VERSION, AUTH_METHOD], Told [AUTH_VERSION, AUTH_SUCCESS],
        Dialled (mk_addr False port [10, 0, 0, 1]), Told (reply_message SUCCEDED (Sin (htons 80) [127, 0, 0, 1]))]"
    using client_served[OF session_os_ok session_plays p l(1) acc _ _ l(2) _ _ l(3) _ inbox _ _ _ _ _ _ _ cr len, of quiet_platform "[]"] by auto
  show ?thesis
    by (rule exI[of _ p'], rule exI[of _ c], rule exI[of _ port]) (use s in \<open>simp add: mk_addr_def ready_proxy_ok(5) b\<close>)
qed



text \<open>C3: The descriptors of the running server. \<open>opn\<close> gives the open descriptors of a world; the system is only
  known to hand out new ones and to close what it is told to. Whatever rounds \<open>main\<close> has run and
  whatever rounds and resolver threads follow: nothing registered is closed behind the selector's back,
  a descriptor of the proxy's handler belongs to the live connection in its key, one of the management
  handler is that of its connection, and no two live connections share a descriptor.\<close>

theorem descriptors_accounted:
  assumes "boots os h opn" "fd_table os opn" "writes_quietly h opn"
    and "STDOUT_FILENO \<in> opn (os_close os 0 w)" "few (opn (os_close os 0 w)) 2" "addr_valid os (ascii ''0.0.0.0'')"
    and "length us \<le> MAX_USERS" "\<forall>(u, p) \<in> set us. 58 \<notin> set u" "new_users us admin_only"
    and "server_main os h None (user_options us) 0 rounds w = Some (Serving b)"
    and "(proxy_step os h)\<^sup>*\<^sup>* (bt_proxy b) p"
  shows "(\<forall>fd it. sel_entry p fd = Some it \<longrightarrow> fd \<in> opn (e_world p))
    \<and> (\<forall>fd it. sel_entry p fd = Some it \<and> it_handler it = Some SOCKS5_HANDLER
         \<longrightarrow> (\<exists>a c. it_data it = Some a \<and> alive p a c \<and> fd \<in> {client_fd c, origin_fd c}))
    \<and> (\<forall>fd it. sel_entry p fd = Some it \<and> it_handler it = Some PAM_HANDLER
         \<longrightarrow> (\<exists>a c. it_data it = Some a \<and> pm_conns p a = Some c \<and> pm_client_fd c = fd))
    \<and> (\<forall>a c. alive p a c \<longrightarrow> \<not> closed c \<and> client_fd c \<in> opn (e_world p) \<and> client_fd c \<noteq> origin_fd c
         \<and> (origin_fd c = - 1 \<or> origin_fd c \<in> opn (e_world p)))
    \<and> (\<forall>a b c d. alive p a c \<and> alive p b d \<and> a \<noteq> b \<longrightarrow> {client_fd c, origin_fd c} \<inter> {client_fd d, origin_fd d} \<subseteq> {- 1})"
proof -
  obtain args where a: "parse_args (user_options us) 0 = Inr args" "arg_users args = us"
    "socks_addr args = ascii ''0.0.0.0''" "mng_addr args = ascii ''0.0.0.0''" using parse_users_only[OF assms(7,8)] by metis
  have us: "new_users (arg_users args) admin_only" and ad: "addr_valid os (socks_addr args)" "addr_valid os (mng_addr args)"
    using assms(6,9) a(2-4) by simp_all
  obtain q where q: "listening opn q" "(proxy_step os h)\<^sup>*\<^sup>* q (bt_proxy b)"
    using main_listens[OF assms(1,4,5) a(1) us ad assms(10)] by blast
  have "server_inv opn {} p" using steps_keep[OF assms(2,3) rtranclp_trans[OF q(2) assms(11)] listening_inv[OF q(1)]] .
  from server_account[OF this] show ?thesis by (intro conjI)
qed

theorem descriptors_accounted_witness:
  "\<exists>b p. server_main table_os quiet_platform None (user_options [([97], [98])]) 0 [] three_open = Some (Serving b)
    \<and> proxy_step table_os quiet_platform (bt_proxy b) p
    \<and> (\<forall>fd it. sel_entry p fd = Some it \<longrightarrow> fd \<in> table_open (e_world p))"
proof -
  let ?us = "[([97], [98])] :: (byte list \<times> byte list) list"
  have n: "new_users ?us admin_only" by (simp add: new_users_def admin_only_def ascii_admin)
  have u: "length ?us \<le> MAX_USERS" "\<forall>(u, p) \<in> set ?us. 58 \<notin> set u" by simp_all
  obtain args where a: "parse_args (user_options ?us) 0 = Inr args" "arg_users args = ?us"
    "socks_addr args = ascii ''0.0.0.0''" "mng_addr args = ascii ''0.0.0.0''" using parse_users_only[OF u] by metis
  have us: "new_users (arg_users args) admin_only" using n a(2) by simp
  from server_start_spec[OF table_boots table_ready(1,2) a(1) us table_ready(3,3)] obtain b where
    b: "booted (serving_entries (bt_server b) (bt_pamServer b)) (with_users (arg_users args) admin_only) 5 b"
      "server_main table_os quiet_platform None (user_options ?us) 0 [] three_open = Some (Serving b)" by auto
  have "idle PS_EINTR" "resolution_jobs (bt_proxy b) = []" using b(1) by (simp_all add: idle_def booted_def)
  then have st: "proxy_step table_os quiet_platform (bt_proxy b) (waited (bt_proxy b))"
    using select_idle by (blast intro: proxy_step.round)
  have st': "(proxy_step table_os quiet_platform)\<^sup>*\<^sup>* (bt_proxy b) (waited (bt_proxy b))" using st by (rule r_into_rtranclp)
  have "\<forall>fd it. sel_entry (waited (bt_proxy b)) fd = Some it \<longrightarrow> fd \<in> table_open (e_world (waited (bt_proxy b)))"
    by (rule conjunct1[OF descriptors_accounted[OF table_boots table_os_table quiet_quiet table_ready(1,2,3) u n b(2) st']])
  then show ?thesis using st b(2) by (intro exI[of _ b] exI[of _ "waited (bt_proxy b)"] conjI)
qed

text \<open>C4: A leak that a client can repeat. An authenticated client sends any number of requests, each to a
  destination that refuses the connection. It is told so every time and is back in \<open>REQUEST\<close>, where
  the next attempt stores its socket over the last one. All sockets but the last are then \<open>lost\<close>: open,
  not registered, in no connection; and they are so in every later state, whatever happens.\<close>

theorem refused_requests_pile_up:
  assumes "os_ok os" "names_ok os" "ip_text_ok os" "mem_ok os" "refuses os fd bnd view" "fd_table os opn" "writes_quietly h opn"
    and "listening opn (bt_proxy b)" "users_ok (e_users (bt_proxy b))" "resolution_jobs (bt_proxy b) = []"
      "sel_entry (bt_proxy b) lfd = Some (passive_item lfd SOCKSV5_PASSIVE)"
    and "accepted os \<lparr>k_fd = lfd, k_data = None\<rparr> (bt_proxy b) fd addr w" "fd < int FD_SETSIZE"
    and "view w = (Some (SOCKS5_VERSION # n # us @ [AUTH_METHOD]), auth_message un pw # map asked_for ds, [])"
      "Suc (length us) = unat n" "AUTH_METHOD \<notin> set us"
      "0 < length un" "length un \<le> 255" "0 < length pw" "length pw \<le> 255" "credentials_ok (e_users (bt_proxy b)) un pw"
      "list_all dest_ok ds"
  shows "\<exists>b' fs. serve os h (login_rounds lfd fd @ ask_rounds fd (length ds)) b = Some (Inr b')
    \<and> snd (snd (view (e_world (bt_proxy b')))) = [Told [SOCKS5_VERSION, AUTH_METHOD], Told [AUTH_VERSION, AUTH_SUCCESS]]
        @ concat (map (\<lambda>d. [Dialled (dest_addr d), Told (reply_message CONNECTION_REFUSED bnd)]) ds)
    \<and> length fs = length ds \<and> distinct fs
    \<and> (\<forall>p'. (proxy_step os h)\<^sup>*\<^sup>* (bt_proxy b') p' \<longrightarrow> (\<forall>f \<in> set (butlast fs). lost opn p' f))"
  using redial_spec[OF assms] by (simp only: refused_talk_def)

theorem refused_requests_pile_up_witness:
  "\<exists>b' f. serve table_os quiet_platform (login_rounds 3 5 @ ask_rounds 5 2) table_boot = Some (Inr b') \<and> lost table_open (bt_proxy b') f"
proof -
  let ?b = table_boot
  have p: "users_ok (e_users (bt_proxy ?b))" "resolution_jobs (bt_proxy ?b) = []"
    "sel_entry (bt_proxy ?b) 3 = Some (passive_item 3 SOCKSV5_PASSIVE)"
    "credentials_ok (e_users (bt_proxy ?b)) [97, 100, 109, 105, 110] [97, 100, 109, 105, 110]"
    using sample_db_ok(1) admin_credentials by (simp_all add: table_boot_def ready_proxy_ok passive_item_def)
  have v: "snd ([5, 0, 1, 2, 3, 4], snd table_start) = (Some (SOCKS5_VERSION # 1 # [] @ [AUTH_METHOD]),
      auth_message [97, 100, 109, 105, 110] [97, 100, 109, 105, 110] # map asked_for two_dests, [])"
    by (simp add: table_start_def)
  have d: "list_all dest_ok two_dests" "length two_dests = 2" by (simp_all add: two_dests_def dest_ok_def addr_len_def)
  obtain b' fs where r: "serve table_os quiet_platform (login_rounds 3 5 @ ask_rounds 5 2) table_boot = Some (Inr b')" "length fs = 2"
    "\<forall>f \<in> set (butlast fs). lost table_open (bt_proxy b') f"
    using refused_requests_pile_up[OF table_os_ok table_os_refuses table_os_table quiet_quiet table_boot_listens p(1-3) table_accepted _ v _ _ _ _ _ _ p(4) d(1)]
      d(2) by auto
  have "butlast fs \<noteq> []" using r(2) by (cases fs) auto
  then show ?thesis using r(1,3) by (cases "butlast fs") auto
qed

text \<open>C5: The relay is a pair of FIFO channels. Over any system that meets its contract and any
  sequence of events, the handlers of \<open>COPY\<close> never fault, and what was sent to the origin,
  followed by what is still in \<open>client_buffer\<close>, is what was in \<open>client_buffer\<close> at the start,
  followed by what was received from the client; the other direction likewise.\<close>

theorem relay_fifo:
  assumes "os_ok os" "copy_ok c" "env_ok e" "e_world e = (w, [])"
  shows "\<exists>q c' e' w' l. copy_run (traced os) evs d (c, e) = Some (q, c', e') \<and> e_world e' = (w', l)
    \<and> sent_on (origin_fd c) l @ buffer_window (client_buffer c')
        = buffer_window (client_buffer c) @ recvd_on (client_fd c) l
    \<and> sent_on (client_fd c) l @ buffer_window (origin_buffer c')
        = buffer_window (origin_buffer c) @ recvd_on (origin_fd c) l"
  using relay_run[OF assms(1,2) env_ok_registry[OF assms(3)] assms(4), of evs d] by (auto simp: relayed_def)

theorem relay_fifo_witness:
  "\<exists>q c' e' w' l. copy_run (traced sample_os) [Readable 5, Writable 7] (Some 0)
      (sample_copying [1, 2] [3], sample_pair ([[9, 8]], [])) = Some (q, c', e') \<and> e_world e' = (w', l)
    \<and> sent_on 7 l @ buffer_window (client_buffer c') = [1, 2] @ recvd_on 5 l"
  using relay_fifo[OF sample_os_ok sample_copying_ok[of "[1, 2]" "[3]"], of "sample_pair ([[9, 8]], [])" "[[9, 8]]"
      "[Readable 5, Writable 7]" "Some 0"]
  by (fastforce simp: sample_copying_def holding_ok)

text \<open>C6: From a fresh connection, over every sequence of read, write and block events with any keys,
  the current state is one of the table's and its invariant holds: the member of the union
  \<open>client\<close> that its handlers read is the active one, the two buffers are within bounds, the
  answer of the previous state is drained before a request starts, and registry and users stay
  consistent.\<close>

theorem machine_run_safe:
  assumes "good os c e" "drained c"
    and "machine_run os evs \<lparr>initial = GREETING, max_state = ERROR, current = None\<rparr> (c, e) = Some (m', c', e')"
  shows "case current m' of None \<Rightarrow> state_pre os (initial m') (c', e') | Some q \<Rightarrow> q < 8 \<and> state_inv os q (c', e')"
proof -
  have "machine.minv os \<lparr>initial = GREETING, max_state = ERROR, current = None\<rparr> (c, e)"
    using assms(1,2) by (simp add: machine.minv_def state_pre_def)
  from machine_run_inv[OF assms(3) this] show ?thesis by (simp add: machine.minv_def split: option.splits)
qed

theorem machine_run_safe_witness:
  "\<exists>m' c' e'. machine_run sample_os [(Ev_read, \<lparr>k_fd = 5, k_data = Some 0\<rparr>)]
      \<lparr>initial = GREETING, max_state = ERROR, current = None\<rparr> (sample_conn U_uninit, sample_server [[5, 1, 2]]) = Some (m', c', e')
    \<and> current m' = Some GREETING \<and> state_inv sample_os GREETING (c', e')"
proof -
  obtain c' e' where r: "machine_run sample_os [(Ev_read, \<lparr>k_fd = 5, k_data = Some 0\<rparr>)]
      \<lparr>initial = GREETING, max_state = ERROR, current = None\<rparr> (sample_conn U_uninit, sample_server [[5, 1, 2]])
      = Some (\<lparr>initial = GREETING, max_state = ERROR, current = Some GREETING\<rparr>, c', e')"
    using sample_greeting_step by blast
  from machine_run_safe[OF sample_good _ r] r show ?thesis by auto
qed

text \<open>C7: One event takes the machine along an edge of the protocol only. \<open>AUTH\<close> leads to \<open>REQUEST\<close>
  only when \<open>a_authenticated\<close> is set, and \<open>COPY\<close> is entered only from \<open>REPLY\<close> with the reply code of
  success.\<close>

theorem machine_gates:
  assumes "machine_step os ev key m (c, e) = Some (q', m', s')" "current m = Some q" "q < 8" "state_inv os q (c, e)"
  shows "q' \<in> edges q \<and> (q = AUTH \<and> q' = REQUEST \<longrightarrow> (\<exists>a. client c = U_auth a \<and> a_authenticated a))
    \<and> (q' = COPY \<longrightarrow> q = COPY \<or> (\<exists>r. client c = U_reply r \<and> rep r = SUCCEDED))"
proof -
  have i: "machine.minv os m (c, e)" using assms(2-4) by (simp add: machine.minv_def)
  have "in_state m = q" using assms(2) by (simp add: in_state_def)
  then show ?thesis
    using machine_step_edge[OF assms(1) i] machine_step_gates[OF assms(1) i assms(2)] by auto
qed

theorem machine_gates_witness:
  "\<exists>q' m' s'. machine_step sample_os Ev_read \<lparr>k_fd = 5, k_data = Some 0\<rparr>
      \<lparr>initial = GREETING, max_state = ERROR, current = Some GREETING\<rparr>
      (sample_conn (U_greeting \<lparr>g_state = VER_N_NMETHODS, g_n_methods = 0, g_method = 0\<rparr>), sample_server [[5, 1, 2]])
      = Some (q', m', s') \<and> q' \<in> edges GREETING"
proof -
  obtain q' m' s' where r: "machine_step sample_os Ev_read \<lparr>k_fd = 5, k_data = Some 0\<rparr>
      \<lparr>initial = GREETING, max_state = ERROR, current = Some GREETING\<rparr>
      (sample_conn (U_greeting \<lparr>g_state = VER_N_NMETHODS, g_n_methods = 0, g_method = 0\<rparr>), sample_server [[5, 1, 2]])
      = Some (q', m', s')"
    using sample_greeting_step by (auto elim!: bind_SomeE)
  have "state_inv sample_os GREETING
      (sample_conn (U_greeting \<lparr>g_state = VER_N_NMETHODS, g_n_methods = 0, g_method = 0\<rparr>), sample_server [[5, 1, 2]])"
    using sample_good by (simp add: state_inv_def)
  from machine_gates[OF r _ _ this] r show ?thesis by auto
qed

text \<open>C8: However the client's username/password message is cut into segments, the state stays in
  \<open>AUTH\<close> until the last one, consumes the message exactly, and answers success if and only if
  the user database holds that user with that password.\<close>

theorem auth_fragmented:
  assumes "os_ok os" "0 < length u" "length u \<le> 255" "0 < length p" "length p \<le> 255"
    and "auth_ready c a" "env_ok e" "a_state a = AUTH_VER" "buffer_window (client_buffer c) = []"
    and "serves os (k_fd key) pieces (e_world e)" "[] \<notin> set pieces" "concat pieces = auth_message u p"
  shows "\<exists>c' e' a'. auth_reads os key (length pieces) (c, e) = Some (AUTH, c', e')
      \<and> client c' = U_auth a' \<and> a_authenticated a' = credentials_ok (e_users e) u p
      \<and> buffer_window (client_buffer c') = []
      \<and> buffer_window (origin_buffer c') =
          [AUTH_VERSION, if credentials_ok (e_users e) u p then AUTH_SUCCESS else AUTH_FAILURE]"
proof -
  have b: "buffer_inv (client_buffer c)" "b_limit (client_buffer c) = BUFFER_SIZE"
    using assms(6) by (auto simp: auth_ready_def bufs_ok_def)
  have seen: "auth_seen c a = []" using assms(8,9) by (simp add: auth_seen_def auth_consumed_def)
  have "pieces \<noteq> []" using assms(12) by (auto simp: auth_message_def)
  then show ?thesis
    using auth_reads_pieces[OF assms(1-5,6,7,10,11)] assms(12) seen room_of_empty[OF b(1) assms(9)] b(2) by simp
qed

theorem auth_fragmented_witness:
  "\<exists>c' e' a'. auth_reads sample_os \<lparr>k_fd = 5, k_data = Some 0\<rparr> 3
      (sample_conn (U_auth sample_auth), sample_server [[1, 5, 97], [100, 109, 105, 110, 5], [97, 100, 109, 105, 110]])
        = Some (AUTH, c', e')
      \<and> client c' = U_auth a' \<and> a_authenticated a' \<and> buffer_window (origin_buffer c') = [AUTH_VERSION, AUTH_SUCCESS]"
proof -
  have ready: "auth_ready (sample_conn (U_auth sample_auth)) sample_auth" "a_state sample_auth = AUTH_VER"
    by (simp_all add: auth_ready_def auth_pending_def sample_auth_def)
  have ok: "credentials_ok sample_db [97, 100, 109, 105, 110] [97, 100, 109, 105, 110]"
    by (simp add: credentials_ok_def sample_db_ok ascii_admin)
  have sv: "serves sample_os 5 [[1, 5, 97], [100, 109, 105, 110, 5], [97, 100, 109, 105, 110]]
      [[1, 5, 97], [100, 109, 105, 110, 5], [97, 100, 109, 105, 110]]"
    by (rule sample_serves)
  have msg: "concat [[1, 5, 97], [100, 109, 105, 110, 5], [97, 100, 109, 105, 110]]
      = auth_message [97, 100, 109, 105, 110] [97, 100, 109, 105, 110]"
    by (simp add: auth_message_def)
  from auth_fragmented[OF sample_os_ok _ _ _ _ ready(1) sample_env_ok(1) ready(2) _ _ _ msg,
      where key = "\<lparr>k_fd = 5, k_data = Some 0\<rparr>"]
  have "\<exists>c' e' a'. auth_reads sample_os \<lparr>k_fd = 5, k_data = Some 0\<rparr>
      (length [[1, 5, 97], [100, 109, 105, 110, 5], [97, 100, 109, 105, 110 :: byte]])
      (sample_conn (U_auth sample_auth), sample_server [[1, 5, 97], [100, 109, 105, 110, 5], [97, 100, 109, 105, 110]])
        = Some (AUTH, c', e')
      \<and> client c' = U_auth a' \<and> a_authenticated a' = credentials_ok sample_db [97, 100, 109, 105, 110] [97, 100, 109, 105, 110]
      \<and> buffer_window (origin_buffer c') = [AUTH_VERSION, AUTH_SUCCESS]"
    using sv ok by (fastforce simp del: serves.simps auth_reads.simps)
  then show ?thesis using ok by (simp add: eval_nat_numeral del: auth_reads.simps)
qed

text \<open>C9: A \<open>CONNECT\<close> request for an IPv4 or IPv6 address in one segment is dialled as it is on the
  wire: the address passes through its text form and the port through decimal digits, and both
  come back byte for byte. \<open>inet_ntop\<close> and \<open>inet_pton\<close> are assumed to be inverse to each other.\<close>

theorem request_dials:
  assumes "os_ok os" "ip_text_ok os" "mem_ok os" "bufs_ok c" "arrays_ok c" "client c = U_request r" "r_state r = VER_CMD_ATYP"
    and "os_recv os (k_fd key) (buffer_room (client_buffer c)) (e_world e) = (SysOk bs, w)"
    and "\<And>n. \<exists>x w2. os_recv os (client_fd c) n w = (SysErr x, w2)"
    and "buffer_window (client_buffer c) @ bs = ip_request v6 a [p1, p2]" "length a = addr_len v6"
  shows "\<exists>c' e'. request_read os key (c, e) = connect_to_dest os key (c', e')
    \<and> (\<exists>port. origin_resolution c' = [ip_result v6 port a] \<and> mem16 port = [p1, p2])
    \<and> buffer_window (client_buffer c') = [] \<and> client_fd c' = client_fd c"
  using request_read_ip[OF assms] by (auto simp: wire_port_full)

theorem request_dials_witness:
  "\<exists>c' e'. request_read sample_os \<lparr>k_fd = 5, k_data = Some 0\<rparr> (sample_conn (U_request sample_request),
        sample_server [[5, 1, 0, 1, 127, 0, 0, 1, 31, 144]]) = connect_to_dest sample_os \<lparr>k_fd = 5, k_data = Some 0\<rparr> (c', e')
    \<and> (\<exists>port. origin_resolution c' = [ip_result False port [127, 0, 0, 1]] \<and> mem16 port = [31, 144])"
proof -
  have "buffer_window (client_buffer (sample_conn (U_request sample_request))) @ [5, 1, 0, 1, 127, 0, 0, 1, 31, 144]
      = ip_request False [127, 0, 0, 1] [31, 144]" "length [127, 0, 0, 1 :: byte] = addr_len False"
    by (simp_all add: ip_request_def addr_len_def)
  from request_dials[OF sample_os_ok sample_ip sample_mem _ _ _ _ _ _ this, of sample_request
      "\<lparr>k_fd = 5, k_data = Some 0\<rparr>" "sample_server [[5, 1, 0, 1, 127, 0, 0, 1, 31, 144]]" "[]"]
  show ?thesis by (auto simp: sample_request_def sample_os_def)
qed

text \<open>C10: Started with any (at most ten) new users on its command line, \<open>main\<close> reaches the loop. Then the log
  file and two different listening sockets are registered, each with its handler, nothing else is,
  and the database has \<open>admin\<close> and these users with their passwords.\<close>

theorem server_starts:
  assumes "boots os h opens" "STDOUT_FILENO \<in> opens (os_close os 0 w)" "few (opens (os_close os 0 w)) 2"
    and "addr_valid os (ascii ''0.0.0.0'')"
    and "length us \<le> MAX_USERS" "\<forall>(u, p) \<in> set us. 58 \<notin> set u" "new_users us admin_only"
  shows "\<exists>b. server_main os h None (user_options us) 0 [] w = Some (Serving b)
    \<and> env_ok (bt_proxy b) \<and> bt_server b \<noteq> bt_pamServer b
    \<and> sel_entry (bt_proxy b) = serving_entries (bt_server b) (bt_pamServer b)
    \<and> users_map (e_users (bt_proxy b)) = with_users us admin_only
    \<and> sv_conns (bt_proxy b) = (\<lambda>_. None) \<and> pm_conns (bt_proxy b) = (\<lambda>_. None)"
proof -
  obtain args where a: "parse_args (user_options us) 0 = Inr args" "arg_users args = us"
    "socks_addr args = ascii ''0.0.0.0''" "mng_addr args = ascii ''0.0.0.0''" using parse_users_only[OF assms(5,6)] by metis
  have us: "new_users (arg_users args) admin_only" and ad: "addr_valid os (socks_addr args)" "addr_valid os (mng_addr args)"
    using assms(4,7) a(2-4) by simp_all
  from server_start_spec[OF assms(1-3) a(1) us ad] obtain b where
    "booted (serving_entries (bt_server b) (bt_pamServer b)) (with_users us admin_only) 5 b" "bt_server b \<noteq> bt_pamServer b"
    "server_main os h None (user_options us) 0 [] w = Some (Serving b)" using a(2) by auto
  then show ?thesis by (auto simp: booted_def env_ok_def)
qed

theorem server_starts_witness:
  "\<exists>b. server_main boot_os boot_platform None (user_options [([97], [98])]) 0 [] 3 = Some (Serving b)
    \<and> users_map (e_users (bt_proxy b)) [97] = Some ([98], USER_PRIVILEGE_DEFAULT)"
proof -
  have n: "new_users [([97], [98])] admin_only" by (simp add: new_users_def admin_only_def ascii_admin)
  from server_starts[OF boot_boots boot_ready boot_valid _ _ n] show ?thesis by (auto simp: with_users_def)
qed

text \<open>C11: The server stops. \<open>b\<close> is the server after any number of idle rounds, still serving. A signal ends the
  loop, whatever rounds would follow: the message of the signal, with the counters, is added to the
  log (\<open>p\<close> is the server then; the queue keeps its newest messages), every pending message is written
  to the standard output in this order, both sockets are closed, and \<open>main\<close> returns 0.\<close>

theorem server_stops:
  assumes "boots os h opens" "STDOUT_FILENO \<in> opens (os_close os 0 w)" "few (opens (os_close os 0 w)) 2"
    and "addr_valid os (ascii ''0.0.0.0'')"
    and "length us \<le> MAX_USERS" "\<forall>(u, p) \<in> set us. 58 \<notin> set u" "new_users us admin_only"
    and "list_all idle pss" "idle ps"
  shows "\<exists>b p m. server_main os h None (user_options us) 0 (map (Pair None) pss) w = Some (Serving b)
    \<and> log_line os h LOGGER_FATAL 232 (signal_message sig (get_metrics_snapshot (e_metrics (bt_proxy b)))) (bt_proxy b) = Some p
    \<and> pending (px_log p) = keep_last MAX_LOG_QUEUE_SIZE (pending (px_log (bt_proxy b)) @ [m])
    \<and> a_log_line (signal_message sig (get_metrics_snapshot (e_metrics (bt_proxy b)))) m
    \<and> server_main os h None (user_options us) 0 (map (Pair None) pss @ (Some sig, ps) # rounds) w
      = Some (Exited 0 (closed_sockets os b (writes h STDOUT_FILENO (pending (px_log p)) (e_world p))))
    \<and> sel_entry (bt_proxy b) = serving_entries (bt_server b) (bt_pamServer b)"
proof -
  obtain args where a: "parse_args (user_options us) 0 = Inr args" "arg_users args = us"
    "socks_addr args = ascii ''0.0.0.0''" "mng_addr args = ascii ''0.0.0.0''" using parse_users_only[OF assms(5,6)] by metis
  have us: "new_users (arg_users args) admin_only" and ad: "addr_valid os (socks_addr args)" "addr_valid os (mng_addr args)"
    using assms(4,7) a(2-4) by simp_all
  from server_stop_spec[OF assms(1-3) a(1) us ad assms(8,9), of sig rounds] show ?thesis unfolding booted_def by blast
qed

theorem server_stops_witness:
  "\<exists>w'. server_main boot_os boot_platform None (user_options [([97], [98])]) 0 [(None, PS_EINTR), (Some 15, PS_EINTR), (None, PS_EBADF)] 3
    = Some (Exited 0 w')"
proof -
  have n: "new_users [([97], [98])] admin_only" by (simp add: new_users_def admin_only_def ascii_admin)
  have i: "list_all idle [PS_EINTR]" "idle PS_EINTR" by (simp_all add: idle_def)
  from server_stops[OF boot_boots boot_ready boot_valid _ _ n i, of 15 "[(None, PS_EBADF)]"] show ?thesis by auto
qed

text \<open>C12: Ending the server while a proxied connection is open is undefined, under these conditions: the signal
  has been handled (the logger is freed, no error is reported), \<open>fd\<close> is a registered descriptor of the
  connection, its client's or its origin's, and every registered descriptor with a smaller number has
  no close handler (as the log and the listening sockets). Then \<open>selector_destroy\<close> unregisters \<open>fd\<close>,
  the close handler unregisters it inside, and the outer call clears the bit of the descriptor \<open>-1\<close>
  that it finds.\<close>

theorem shutdown_faults:
  assumes "sel_inv (bt_proxy b)" "sel_full (bt_proxy b)" "live_conn a c (bt_proxy b)"
    and "fd = client_fd c \<or> fd = origin_fd c" "sel_entry (bt_proxy b) fd \<noteq> None"
    and "\<forall>fd'. 0 \<le> fd' \<and> fd' < fd \<longrightarrow> quiet (server_handlers os h) (sel_entry (bt_proxy b) fd')"
    and "logQueue (px_log (bt_proxy b)) = None" "bt_selector b"
  shows "main_finally os h None SELECTOR_SUCCESS b = None"
  by (rule shutdown_spec[OF assms])

theorem shutdown_faults_witness: "main_finally boot_os boot_platform None SELECTOR_SUCCESS busy_boot = None"
proof -
  have p: "bt_proxy busy_boot = busy_proxy 9" "bt_selector busy_boot" by (simp_all add: busy_boot_def)
  have c: "client_fd (sample_copying [1] []) = 5" by (simp add: sample_copying_def)
  have q: "\<forall>fd. 0 \<le> fd \<and> fd < 5 \<longrightarrow> quiet (server_handlers boot_os boot_platform) (sel_entry (bt_proxy busy_boot) fd)"
    unfolding p(1) busy_proxy_ok(4) by (simp add: quiet_def)
  show ?thesis
    by (rule shutdown_faults[where a = 0 and c = "sample_copying [1] []" and fd = 5, OF _ _ _ _ _ q]) (simp_all only: p busy_proxy_ok, simp_all add: c logger_static_def)
qed

text \<open>C13: The two programs agree on the protocol. What \<open>add_user\<close> of the client sends, whatever the name, the
  password (up to 254 bytes) and the role, makes the server, with an administrator's name on the
  connection, create that user with that password and role.\<close>

theorem client_request_understood:
  assumes cl: "ca_arg1 args = Some u" "ca_arg2 args = Some p" "ca_arg3 args = Some r" "length u < 255" "length p < 255"
    and cm: "os_malloc osc w = (True, w1)" "os_malloc osc w1 = (True, w2)"
    and sv: "pam_good os (c, e)" "buffer_window (pm_buffer c) = []" "pr_state (pm_request c) = Some VER_N_RESERVED"
      "pr_reserved (pm_request c) = RESERVED_BYTE" "terminated (pa_username (pm_auth c))" "is_admin (e_users e) (pa_username (pm_auth c))"
    and fresh: "users_map (e_users e) (cstr u) = None"
    and net: "os_recv os (k_fd key) PAM_BUFFER_SIZE (e_world e) = (SysOk (request_bytes METHOD_ADD_USER (add_user_body u p r)), w3)"
    and sm: "os_malloc os w3 = (True, w4)" "os_malloc os w4 = (True, w5)"
  shows "add_user osc args sock w = Some (receive_response osc sock
      (snd (os_send osc sock (request_bytes METHOD_ADD_USER (add_user_body u p r)) w2)))
    \<and> (\<exists>c' e'. pam_run os [(Ev_read, key)] (pam_machine_at (Some PAM_REQUEST)) (c, e) = Some (pam_machine_at (Some PAM_REQUEST), c', e')
        \<and> users_map (e_users e') = (users_map (e_users e))(cstr u \<mapsto> (cstr p, unat (role_of r))))"
proof -
  have n: "length u \<le> 255" "length p \<le> 255" using cl(4,5) by simp_all
  show ?thesis
    using add_user_sends[OF cl(1-3) cm n, of sock] server_adds[OF sv(1-4) net cl(4,5) sm sv(5,6) fresh] by blast
qed

theorem client_request_understood_witness:
  "\<exists>c' e' msg. msg = request_bytes METHOD_ADD_USER (add_user_body [98] [99] [49])
    \<and> pam_run sample_os [(Ev_read, \<lparr>k_fd = 5, k_data = Some 0\<rparr>)] (pam_machine_at (Some PAM_REQUEST))
        (sample_pam None (ascii ''admin'') (Some VER_N_RESERVED) 0, sample_server [msg])
      = Some (pam_machine_at (Some PAM_REQUEST), c', e')
    \<and> users_map (e_users e') [98] = Some ([99], unat (role_of [49]))"
proof -
  let ?args = "\<lparr>ca_host = [], ca_port = 8080, ca_option = [], ca_user = None, ca_password = None, ca_usr_count = 0,
      ca_arg1 = Some [98], ca_arg2 = Some [99], ca_arg3 = Some [49]\<rparr>"
  let ?msg = "request_bytes METHOD_ADD_USER (add_user_body [98] [99] [49])"
  let ?c = "sample_pam None (ascii ''admin'') (Some VER_N_RESERVED) 0" and ?e = "sample_server [?msg]"
  have l: "length [98 :: byte] < 255" "length [99 :: byte] < 255" by simp_all
  have g: "pam_good sample_os (?c, ?e)" by (rule sample_pam_good) (simp add: ascii_admin)
  have c: "buffer_window (pm_buffer ?c) = []" "pr_state (pm_request ?c) = Some VER_N_RESERVED" "pr_reserved (pm_request ?c) = RESERVED_BYTE"
    by (simp_all add: sample_pam_def)
  have a: "0 \<notin> set (ascii ''admin'')" "length (ascii ''admin'') < 255" by (simp_all add: ascii_admin)
  have ad: "is_admin (e_users ?e) (pa_username (pm_auth ?c))"
    using sample_admin(1) sample_pam_name(2)[OF a] by (simp add: is_admin_def ascii_admin)
  have f: "users_map (e_users ?e) (cstr [98]) = None" using sample_admin(2) by simp
  have r: "os_recv sample_os (k_fd \<lparr>k_fd = 5, k_data = Some (0 :: nat)\<rparr>) PAM_BUFFER_SIZE (e_world ?e) = (SysOk ?msg, [])"
    by (simp add: sample_recv request_bytes_def add_user_body_def field_def mem16_def)
  show ?thesis
    using client_request_understood[of ?args "[98]" "[99]" "[49]", OF _ _ _ l sample_malloc sample_malloc g c sample_pam_name(1)[OF a(2)] ad f r
        sample_malloc sample_malloc, of 3 "[]"] by auto
qed

text \<open>C14: The client reads \<open>-u name:password command arguments\<close> as it is meant, with the default host and
  port, under these conditions: name and password are not empty, have no colon (\<open>strtok\<close> drops what
  follows a second one) and together less than 255 bytes, no later word looks like an option, and the
  command has the number of arguments that it needs.\<close>

theorem client_command_line:
  assumes "58 \<notin> set u" "58 \<notin> set p" "u \<noteq> []" "p \<noteq> []" "length u + length p < 255"
    and "list_all plain (cmd # ws)" "int (length ws) = need_args cmd"
  shows "\<exists>out'. parse_client_args (ascii ''-u'' # (u @ 58 # p) # cmd # ws) out = Inr out'
    \<and> ca_user out' = Some u \<and> ca_password out' = Some p \<and> ca_option out' = cmd
    \<and> ca_host out' = ascii ''127.0.0.1'' \<and> ca_port out' = 8080
    \<and> ca_arg1 out' = (case ws of a # _ \<Rightarrow> Some a | _ \<Rightarrow> None) \<and> ca_arg2 out' = (case ws of _ # b # _ \<Rightarrow> Some b | _ \<Rightarrow> None)
    \<and> ca_arg3 out' = (case ws of _ # _ # c # _ \<Rightarrow> Some c | _ \<Rightarrow> None)"
  by (rule parse_command[OF assms])

theorem client_command_line_witness:
  "\<exists>out'. parse_client_args [ascii ''-u'', [97, 58, 98], ascii ''remove-user'', [99]]
      \<lparr>ca_host = [], ca_port = 0, ca_option = [], ca_user = None, ca_password = None, ca_usr_count = 7, ca_arg1 = None, ca_arg2 = None, ca_arg3 = None\<rparr>
    = Inr out' \<and> ca_user out' = Some [97] \<and> ca_arg1 out' = Some [99]"
proof -
  have n: "int (length [[99 :: byte]]) = need_args (ascii ''remove-user'')" by code_simp
  have pl: "list_all plain [ascii ''remove-user'', [99]]" by (simp add: plain_def ascii_def)
  from client_command_line[of "[97]" "[98]", OF _ _ _ _ _ pl n] show ?thesis by auto
qed

text \<open>C15: A client without credentials does not stop. Its command line has no option at all and is otherwise
  well formed; the structure of \<open>main\<close> is not initialised, and here its field \<open>user\<close> happens to be
  \<open>NULL\<close>. Once the connection to the server succeeds, \<open>strlen\<close> reads through it.\<close>

theorem missing_credentials_fault:
  assumes "list_all plain argv" "parse_client_args argv args0 = Inr args" "ca_user args0 = None"
    and "client_connect os sock0 args w = (Inr sock, w1)"
  shows "client_main os sock0 args0 argv w = None"
  using no_credentials_faults[OF assms(2,4)] plain_keeps_user[OF assms(1,2)] assms(3) by simp

theorem missing_credentials_fault_witness:
  "client_main (boot_os\<lparr>os_connect := (\<lambda>fd a w. (SysOk (), w))\<rparr>) 0
      \<lparr>ca_host = [], ca_port = 0, ca_option = [], ca_user = None, ca_password = None, ca_usr_count = 7, ca_arg1 = None, ca_arg2 = None, ca_arg3 = None\<rparr>
      [ascii ''users''] 3 = None"
proof -
  let ?a0 = "\<lparr>ca_host = [], ca_port = 0, ca_option = [], ca_user = None, ca_password = None, ca_usr_count = 7, ca_arg1 = None, ca_arg2 = None, ca_arg3 = None\<rparr>"
  let ?os = "boot_os\<lparr>os_connect := (\<lambda>fd a w. (SysOk (), w))\<rparr>"
  have pl: "list_all plain [ascii ''users'']" by (simp add: plain_def ascii_def)
  have p: "parse_client_args [ascii ''users''] ?a0 = Inr (?a0\<lparr>ca_usr_count := 0, ca_port := 8080, ca_host := ascii ''127.0.0.1'', ca_option := ascii ''users''\<rparr>)"
    using read_plain[OF pl] by (simp add: parse_client_args_def need_args_def)
  show ?thesis
    by (rule missing_credentials_fault[OF pl p, where sock = 3 and ?w1.0 = 4])
      (simp_all add: client_connect_def detect_ip_version_def open_connection_def boot_os_def)
qed

text \<open>C16: The log keeps its order. When the file takes whole messages, \<open>n\<close> events of the file write the first
  \<open>n\<close> pending messages, one each and in their order; as many strings are freed, and the rest is still
  pending.\<close>

theorem log_in_order:
  assumes "log_ok lg" "[] \<notin> set (pending lg)" "sel_inv s" "sel_full s" "takes_all h" "currentLog lg = None"
  shows "\<exists>lg' s'. log_events h n (lg, s) = Some (lg', s') \<and> log_ok lg' \<and> pending lg' = drop n (pending lg)
    \<and> e_world s' = writes h (logFile lg) (take n (pending lg)) (e_world s) \<and> log_live lg' = log_live lg - min n (length (pending lg))
    \<and> currentLog lg' = None"
  by (rule log_events_spec[OF assms])

theorem log_in_order_witness:
  "\<exists>lg lg' s'. pending lg = [[65, 10], [66, 10]] \<and> log_events boot_platform 1 (lg, sample_server 3) = Some (lg', s') \<and> pending lg' = [[66, 10]]"
proof -
  obtain lg where lg: "log_ok lg" "pending lg = [[65, 10], [66, 10]]" "currentLog lg = None" by (rule logger_with[of "[[65, 10], [66, 10]]"]) simp_all
  have n: "[] \<notin> set (pending lg)" using lg(2) by simp
  have s: "sel_inv (sample_server (3 :: nat))" "sel_full (sample_server (3 :: nat))" by simp_all
  from log_in_order[OF lg(1) n s boot_takes_all lg(3), of 1] lg(2) show ?thesis by auto
qed

text \<open>C17: A message that the file takes in part is lost: the next event forgets it and writes the next
  message. The rest is not written and the string is not freed.\<close>

theorem partial_log_lost:
  assumes "log_ok lg" "pending lg = m1 # m2 # ms" "m1 \<noteq> []" "m2 \<noteq> []" "sel_inv s" "sel_full s"
    and "h_write h (logFile lg) m1 (e_world s) = (SysOk k, w1)" "k < length m1"
    and "h_write h (logFile lg) m2 w1 = (SysOk (length m2), w2)"
  shows "\<exists>lg' s'. log_events h 2 (lg, s) = Some (lg', s') \<and> e_world s' = w2 \<and> pending lg' = ms
    \<and> log_live lg' + 1 = log_live lg \<and> currentLog lg' = None"
  by (rule partial_write_spec[OF assms])

theorem partial_log_lost_witness:
  "\<exists>lg lg' s'. pending lg = [[65, 10], [66]]
    \<and> log_events (boot_platform\<lparr>h_write := (\<lambda>fd bs w. (SysOk 1, w))\<rparr>) 2 (lg, sample_server 3) = Some (lg', s') \<and> pending lg' = []
    \<and> log_live lg = 2 \<and> log_live lg' = 1"
proof -
  let ?h = "boot_platform\<lparr>h_write := (\<lambda>fd bs w. (SysOk 1, w))\<rparr>"
  obtain lg where lg: "log_ok lg" "pending lg = [[65, 10], [66]]" "log_live lg = 2" by (rule logger_with[of "[[65, 10], [66]]"]) simp_all
  have s: "sel_inv (sample_server (3 :: nat))" "sel_full (sample_server (3 :: nat))" by simp_all
  have "h_write ?h (logFile lg) [65, 10] (e_world (sample_server 3)) = (SysOk 1, 3)" "h_write ?h (logFile lg) [66] 3 = (SysOk (length [66 :: byte]), 3)"
    by simp_all
  from partial_log_lost[OF lg(1,2) _ _ s this(1) _ this(2)] lg(2,3) show ?thesis by auto
qed

text \<open>C18: Formatting never leaves its 1024 bytes. With a prefix of any length up to that, the message has at
  most 1023 bytes and ends with a newline: prefix and text when they have less than 1022 bytes, and
  otherwise their first 1019 bytes and an ellipsis. With exactly 1022 bytes they would still fit with
  the newline and the terminator, and are cut all the same.\<close>

theorem log_line_bounded:
  assumes "length prefix \<le> MAX_LOG_SIZE"
  shows "\<exists>out. log_text prefix body = Some out \<and> length out < MAX_LOG_SIZE \<and> last out = 10
    \<and> out = (if length prefix + length body < MAX_LOG_SIZE - 2 then prefix @ body @ [10]
        else take (MAX_LOG_SIZE - 5) (prefix @ body) @ [46, 46, 46, 10])"
proof -
  have e: "ascii ''...'' @ [10] = [46, 46, 46, 10]" by (simp add: ascii_def)
  show ?thesis
    using log_text_fits[of prefix body] log_text_cut[OF assms, of body] log_text_bound[of prefix body] unfolding e
    by (cases "length prefix + length body < MAX_LOG_SIZE - 2") auto
qed

theorem log_line_bounded_witness: "\<exists>out. log_text [91, 93] [104, 105] = Some out \<and> out = [91, 93, 104, 105, 10]"
  using log_line_bounded[of "[91, 93]" "[104, 105]"] by simp

text \<open>C19: \<open>sock_blocking_write\<close> always returns. The kernel has then taken the content of the buffer in order, up
  to what the buffer still holds. When all of a buffer that was not empty is taken, the result is 0.
  Otherwise (and for an empty buffer, which is sent once too) the last \<open>send\<close> took nothing: the result
  is its error, or what \<open>errno\<close> was before when it returned 0.\<close>

theorem blocking_write_ends:
  assumes "os_ok os" "buffer_inv b"
  shows "\<exists>e b' w' w1. sock_blocking_write os errno0 fd b w = Some (e, b', w') \<and> buffer_inv b'
    \<and> delivered os fd (buffer_window b) (buffer_window b') w w1 \<and> (\<exists>k. buffer_window b' = drop k (buffer_window b))
    \<and> (if buffer_window b \<noteq> [] \<and> buffer_window b' = [] then e = 0 \<and> w' = w1
       else w' = snd (os_send os fd (buffer_window b') w1)
        \<and> (case fst (os_send os fd (buffer_window b') w1) of SysErr n \<Rightarrow> e = n | SysOk n \<Rightarrow> n = 0 \<and> e = errno0))"
proof -
  from blocking_write_spec[OF assms, of errno0 fd w] obtain e b' w' w1 where r:
    "sock_blocking_write os errno0 fd b w = Some (e, b', w')" "buffer_inv b'" "delivered os fd (buffer_window b) (buffer_window b') w w1"
    "if buffer_window b \<noteq> [] \<and> buffer_window b' = [] then e = 0 \<and> w' = w1
     else sent errno0 (fst (os_send os fd (buffer_window b') w1)) = Inl e \<and> w' = snd (os_send os fd (buffer_window b') w1)" by blast
  have "\<exists>k. buffer_window b' = drop k (buffer_window b)" using delivered_rest[OF r(3)] .
  then show ?thesis using r
    by (intro exI[of _ e] exI[of _ b'] exI[of _ w'] exI[of _ w1]) (simp add: sent_def split: sys.splits if_splits)
qed

theorem blocking_write_ends_witness:
  "\<exists>e b' w' w1. sock_blocking_write sample_os 0 4 (holding [1, 2, 3]) [] = Some (e, b', w') \<and> buffer_inv b'
    \<and> delivered sample_os 4 [1, 2, 3] (buffer_window b') [] w1"
proof -
  have h: "buffer_inv (holding [1, 2, 3])" "buffer_window (holding [1, 2, 3]) = [1, 2, 3]" by (simp_all add: holding_ok)
  from blocking_write_ends[OF sample_os_ok h(1), of 0 4 "[]"] show ?thesis unfolding h(2) by meson
qed

text \<open>C20: Whatever the options are, the server exits with 0 or 1 or has well formed arguments: nothing is left
  over, the first at most ten places of the array hold the users and the others none, and each is
  the text of its \<open>-u\<close> option cut at the first colon, in the order of the options.\<close>

theorem options_well_formed:
  "case parse_args opts left_over of Inl e \<Rightarrow> e = 0 \<or> e = 1
   | Inr a \<Rightarrow> left_over = 0 \<and> args_ok a \<and> list_all (\<lambda>(u, p). 58 \<notin> set u) (arg_users a)
      \<and> map (\<lambda>(u, p). u @ 58 # p) (arg_users a) = map snd (filter (\<lambda>x. fst x = 117) opts)"
proof -
  have "arg_users default_args = []" by (simp add: arg_users_def default_args_def)
  with parse_args_type[where opts = opts and n = left_over] show ?thesis by (auto simp: named_users_def split: sum.splits)
qed

text \<open>C21: A greeting whose last segment has arrived is answered: \<open>AUTH_METHOD\<close> when the client offers
  it, \<open>0xFF\<close> otherwise, \<open>NO_AUTH_METHOD\<close> included. The scan stops at the method chosen, and what
  follows it in the list stays in \<open>client_buffer\<close>.\<close>

theorem greeting_decides:
  assumes "os_ok os" "greeting_ready c g" "g_state g = VER_N_NMETHODS" "registry_ok e"
    and "os_recv os (k_fd key) (buffer_room (client_buffer c)) (e_world e) = (SysOk bs, w)"
    and "buffer_window (client_buffer c) @ bs = SOCKS5_VERSION # n # ms" "n \<noteq> 0" "length ms = unat n"
  shows "\<exists>c' e'. greeting_read os key (c, e) = Some (GREETING, c', e')
    \<and> buffer_window (origin_buffer c') = [SOCKS5_VERSION, if AUTH_METHOD \<in> set ms then AUTH_METHOD else AUTH_METHOD_INVALID]
    \<and> buffer_window (client_buffer c') = (if AUTH_METHOD \<in> set ms then tl (dropWhile (\<lambda>m. m \<noteq> AUTH_METHOD) ms) else [])
    \<and> e' = poke (k_fd key) OP_WRITE (e\<lparr>e_world := w\<rparr>)"
  using greeting_read_spec[OF assms(1,2,4), of key] assms(3,5-8)
  by (auto simp: greet_from_def greet_methods_def greeted_def after_methods_tl)

theorem greeting_decides_witness:
  "\<exists>c' e'. greeting_read sample_os \<lparr>k_fd = 5, k_data = Some 0\<rparr>
      (sample_conn (U_greeting \<lparr>g_state = VER_N_NMETHODS, g_n_methods = 0, g_method = 0\<rparr>), sample_server [[5, 2, 2, 0]])
      = Some (GREETING, c', e')
    \<and> buffer_window (origin_buffer c') = [5, 2] \<and> buffer_window (client_buffer c') = [0]"
proof -
  have ready: "greeting_ready (sample_conn (U_greeting \<lparr>g_state = VER_N_NMETHODS, g_n_methods = 0, g_method = 0\<rparr>))
      \<lparr>g_state = VER_N_NMETHODS, g_n_methods = 0, g_method = 0\<rparr>"
    by (simp add: greeting_ready_def)
  have "buffer_window (client_buffer (sample_conn (U_greeting \<lparr>g_state = VER_N_NMETHODS, g_n_methods = 0, g_method = 0\<rparr>)))
      @ [5, 2, 2, 0] = SOCKS5_VERSION # 2 # [2, 0]" by simp
  from greeting_decides[OF sample_os_ok ready _ _ _ this, of "sample_server [[5, 2, 2, 0]]" "\<lparr>k_fd = 5, k_data = Some 0\<rparr>" "[]"]
  show ?thesis by (auto simp: sample_os_def)
qed

text \<open>C22: The refusal is not the end of the connection. A client that offers any methods but
  \<open>AUTH_METHOD\<close> gets \<open>0xFF\<close>, and as soon as the two bytes are sent the machine stands in \<open>REQUEST\<close>,
  with no user authenticated.\<close>

theorem refused_method_reaches_request:
  assumes "os_ok os" "bufs_ok c" "buffer_window (client_buffer c) = []" "buffer_window (origin_buffer c) = []" "env_ok e"
    and "os_recv os (k_fd key) BUFFER_SIZE (e_world e) = (SysOk (SOCKS5_VERSION # n # ms), w)"
    and "n \<noteq> 0" "length ms = unat n" "AUTH_METHOD \<notin> set ms"
    and "os_send os (client_fd c) [SOCKS5_VERSION, AUTH_METHOD_INVALID] w = (SysOk 2, w')"
  shows "\<exists>c' e'. machine_run os [(Ev_read, key), (Ev_write, key)]
      \<lparr>initial = GREETING, max_state = ERROR, current = None\<rparr> (c, e)
      = Some (\<lparr>initial = GREETING, max_state = ERROR, current = Some REQUEST\<rparr>, c', e') \<and> e_world e' = w'"
  using refused_run[OF assms(1-4) env_ok_registry[OF assms(5)] assms(6-10)] .

theorem refused_method_reaches_request_witness:
  "\<exists>c' e'. machine_run sample_os [(Ev_read, \<lparr>k_fd = 5, k_data = Some 0\<rparr>), (Ev_write, \<lparr>k_fd = 5, k_data = Some 0\<rparr>)]
      \<lparr>initial = GREETING, max_state = ERROR, current = None\<rparr> (sample_conn U_uninit, sample_server [[5, 1, 0]])
      = Some (\<lparr>initial = GREETING, max_state = ERROR, current = Some REQUEST\<rparr>, c', e') \<and> e_world e' = []"
  using refused_method_reaches_request[OF sample_os_ok, of "sample_conn U_uninit" "sample_server [[5, 1, 0]]"
      "\<lparr>k_fd = 5, k_data = Some 0\<rparr>" 1 "[0]" "[]" "[]"]
  by (simp add: sample_os_def)

text \<open>C23: The reply on the wire: version, code, reserved byte, and the local address and port in network
  order. A \<open>send\<close> that takes it all leads to \<open>COPY\<close> for the code of success and back to \<open>REQUEST\<close>
  for any other.\<close>

theorem reply_on_the_wire:
  assumes "os_ok os" "names_ok os" "bufs_ok c" "client c = U_reply r" "buffer_window (origin_buffer c) = []" "registry_ok e"
    and "os_getsockname os (origin_fd c) (e_world e) = (SysOk a, w)"
    and "os_send os (client_fd c) (reply_message (rep r) a) w = (SysOk (length (reply_message (rep r) a)), w')"
  shows "\<exists>c1 e1 c2 e2. reply_arrival os REPLY key (c, e) = Some (c1, e1)
    \<and> reply_write os key (c1, e1) = Some (if rep r = SUCCEDED then COPY else REQUEST, c2, e2)
    \<and> e_world e2 = w' \<and> buffer_window (origin_buffer c2) = []"
  by (rule reply_round) (use assms in simp_all)

theorem reply_on_the_wire_witness:
  "\<exists>c1 e1 c2 e2. reply_arrival sample_os REPLY \<lparr>k_fd = 5, k_data = Some 0\<rparr>
      ((sample_conn (U_reply \<lparr>rep = SUCCEDED, found_bnd_info = None\<rparr>))\<lparr>origin_fd := 7\<rparr>, sample_server [])
      = Some (c1, e1) \<and> reply_write sample_os \<lparr>k_fd = 5, k_data = Some 0\<rparr> (c1, e1) = Some (COPY, c2, e2)"
proof -
  let ?c = "(sample_conn (U_reply \<lparr>rep = SUCCEDED, found_bnd_info = None\<rparr>))\<lparr>origin_fd := 7\<rparr>"
  have c: "bufs_ok ?c" "client ?c = U_reply \<lparr>rep = SUCCEDED, found_bnd_info = None\<rparr>"
    "buffer_window (origin_buffer ?c) = []" by (simp_all add: bufs_ok_def)
  from reply_on_the_wire[OF sample_os_ok sample_names_ok c, of "sample_server []" "Sin (htons 1080) [127, 0, 0, 1]" "[]" "[]"
      "\<lparr>k_fd = 5, k_data = Some 0\<rparr>"]
  show ?thesis by (fastforce simp: sample_os_def)
qed



text \<open>C25: End of file on either side in \<open>COPY\<close>; \<open>f\<close> is the side whose descriptor was ready, the client's or the
  origin's. The other side's writing half is shut down in the same step and its interest in writing
  is dropped; both buffers are as before, with the bytes already received for it still in them.\<close>

theorem eof_strands_pending:
  assumes "os_ok os" "copy_ok c" "registry_ok e" "k_fd key = fd_of f c" "0 < buffer_room (get_buf (fills f) c)"
    and "os_recv os (fd_of f c) (buffer_room (get_buf (fills f) c)) (e_world e) = (SysOk [], w)"
  shows "\<exists>q c' e'. socksv5_copy_read os key (c, e) = Some (q, c', e') \<and> q \<in> {COPY, DONE}
    \<and> client_buffer c' = client_buffer c \<and> origin_buffer c' = origin_buffer c
    \<and> e_world e' = os_shutdown os (fd_of (other_copy f) c) SHUT_WR (os_shutdown os (fd_of f c) SHUT_RD w)
    \<and> (\<forall>i. interest_of e' (fd_of (other_copy f) c) = Some i \<longrightarrow> i AND OP_WRITE = 0)
    \<and> (\<forall>i. interest_of e' (fd_of f c) = Some i \<longrightarrow> i AND OP_READ = 0)"
proof -
  have f: "f = from_copy key c" by (rule from_copy_fd[OF assms(2,4)])
  from copy_read_spec[OF assms(1-3) f] assms(5,6) show ?thesis
    by (fastforce simp: direction_shut_def get_buf_def dest: spec[of _ CLIENT_BUFFER] spec[of _ ORIGIN_BUFFER])
qed

theorem eof_strands_pending_witness:
  "(\<exists>q c' e'. socksv5_copy_read sample_os \<lparr>k_fd = 5, k_data = Some 0\<rparr> (sample_copying [1, 2] [], sample_pair [[]]) = Some (q, c', e')
     \<and> buffer_window (client_buffer c') = [1, 2] \<and> (\<forall>i. interest_of e' 7 = Some i \<longrightarrow> i AND OP_WRITE = 0))
   \<and> (\<exists>q c' e'. socksv5_copy_read sample_os \<lparr>k_fd = 7, k_data = Some 0\<rparr> (sample_copying [] [3], sample_pair [[]]) = Some (q, c', e')
     \<and> buffer_window (origin_buffer c') = [3] \<and> (\<forall>i. interest_of e' 5 = Some i \<longrightarrow> i AND OP_WRITE = 0))"
proof (intro conjI)
  let ?c = "sample_copying [1, 2] []"
  have c: "copy_ok ?c" "client_fd ?c = 5" "origin_fd ?c = 7" "client_buffer ?c = holding [1, 2]"
    by (simp_all add: sample_copying_ok) (simp_all add: sample_copying_def)
  have room: "0 < buffer_room (holding [1, 2])" by (simp add: holding_ok)
  from eof_strands_pending[OF sample_os_ok c(1), of "sample_pair [[]]" "\<lparr>k_fd = 5, k_data = Some 0\<rparr>" CLIENT_COPY "[]"] room c
  show "\<exists>q c' e'. socksv5_copy_read sample_os \<lparr>k_fd = 5, k_data = Some 0\<rparr> (?c, sample_pair [[]]) = Some (q, c', e')
     \<and> buffer_window (client_buffer c') = [1, 2] \<and> (\<forall>i. interest_of e' 7 = Some i \<longrightarrow> i AND OP_WRITE = 0)"
    by (fastforce simp: sample_os_def holding_ok fd_of_def fills_def get_buf_def other_copy_def)
next
  let ?c = "sample_copying [] [3]"
  have c: "copy_ok ?c" "client_fd ?c = 5" "origin_fd ?c = 7" "origin_buffer ?c = holding [3]"
    by (simp_all add: sample_copying_ok) (simp_all add: sample_copying_def)
  have room: "0 < buffer_room (holding [3])" by (simp add: holding_ok)
  from eof_strands_pending[OF sample_os_ok c(1), of "sample_pair [[]]" "\<lparr>k_fd = 7, k_data = Some 0\<rparr>" ORIGIN_COPY "[]"] room c
  show "\<exists>q c' e'. socksv5_copy_read sample_os \<lparr>k_fd = 7, k_data = Some 0\<rparr> (?c, sample_pair [[]]) = Some (q, c', e')
     \<and> buffer_window (origin_buffer c') = [3] \<and> (\<forall>i. interest_of e' 5 = Some i \<longrightarrow> i AND OP_WRITE = 0)"
    by (fastforce simp: sample_os_def holding_ok fd_of_def fills_def get_buf_def other_copy_def)
qed

text \<open>C26: After a read that delivers bytes from either side (\<open>f\<close> is the side whose descriptor was ready), both
  descriptors are registered for exactly what they can do: reading when there is room for what they
  deliver, writing when something is buffered for them. The bytes stand behind those that were in the
  buffer of that direction and the other buffer is as before. \<open>register_bytes_transferred 0 n\<close> adds
  them to the bytes sent; the bytes received are not counted.\<close>

theorem copy_interests:
  assumes "os_ok os" "copy_ok c" "registry_ok e" "both_registered c e" "k_fd key = fd_of f c"
    and "0 < buffer_room (get_buf (fills f) c)"
    and "os_recv os (fd_of f c) (buffer_room (get_buf (fills f) c)) (e_world e) = (SysOk bs, w)" "bs \<noteq> []"
  shows "\<exists>c' e'. socksv5_copy_read os key (c, e) = Some (COPY, c', e')
    \<and> interest_of e' (client_fd c) = Some (flow (client_buffer c') (origin_buffer c'))
    \<and> interest_of e' (origin_fd c) = Some (flow (origin_buffer c') (client_buffer c'))
    \<and> buffer_window (get_buf (fills f) c') = buffer_window (get_buf (fills f) c) @ bs
    \<and> get_buf (drains f) c' = get_buf (drains f) c
    \<and> totalBytesSent (e_metrics e') = totalBytesSent (e_metrics e) + of_nat (length bs)
    \<and> e_metrics e' = register_bytes_transferred 0 (int (length bs)) (e_metrics e)"
proof -
  have f: "f = from_copy key c" by (rule from_copy_fd[OF assms(2,5)])
  from copy_read_spec[OF assms(1-3) f] assms(4,6-8) obtain c' e' where r:
    "socksv5_copy_read os key (c, e) = Some (COPY, c', e')" "get_buf (drains f) c' = get_buf (drains f) c"
    "buffer_window (get_buf (fills f) c') = buffer_window (get_buf (fills f) c) @ bs"
    "e_metrics e' = register_bytes_transferred 0 (int (length bs)) (e_metrics e)"
    "interest_of e' (fd_of f c) = Some (flow_of f c')" "interest_of e' (fd_of (other_copy f) c) = Some (flow_of (other_copy f) c')"
    by (cases f) (auto simp: progressed_def both_registered_def fd_of_def other_copy_def)
  have "totalBytesSent (e_metrics e') = totalBytesSent (e_metrics e) + of_nat (length bs)"
    using r(4) by (simp add: register_bytes_transferred_def)
  then show ?thesis using r
    by (cases f) (auto simp: flow_of_def fd_of_def other_copy_def fills_def drains_def get_buf_def)
qed

theorem copy_interests_witness:
  "(\<exists>c' e'. socksv5_copy_read sample_os \<lparr>k_fd = 5, k_data = Some 0\<rparr> (sample_copying [] [], sample_pair [[9]]) = Some (COPY, c', e')
     \<and> interest_of e' 7 = Some (OP_READ OR OP_WRITE))
   \<and> (\<exists>c' e'. socksv5_copy_read sample_os \<lparr>k_fd = 7, k_data = Some 0\<rparr> (sample_copying [] [], sample_pair [[9]]) = Some (COPY, c', e')
     \<and> interest_of e' 5 = Some (OP_READ OR OP_WRITE))"
proof (intro conjI)
  let ?c = "sample_copying [] []"
  have c: "copy_ok ?c" "client_fd ?c = 5" "origin_fd ?c = 7" "client_buffer ?c = empty_buffer" "origin_buffer ?c = empty_buffer"
    by (simp_all add: sample_copying_ok) (simp_all add: sample_copying_def holding_def)
  from copy_interests[OF sample_os_ok c(1), of "sample_pair [[9]]" "\<lparr>k_fd = 5, k_data = Some 0\<rparr>" CLIENT_COPY "[9]" "[]"] c
  show "\<exists>c' e'. socksv5_copy_read sample_os \<lparr>k_fd = 5, k_data = Some 0\<rparr> (?c, sample_pair [[9]]) = Some (COPY, c', e')
     \<and> interest_of e' 7 = Some (OP_READ OR OP_WRITE)"
    by (fastforce simp: sample_os_def both_registered_def flow_def fd_of_def fills_def drains_def get_buf_def)
  from copy_interests[OF sample_os_ok c(1), of "sample_pair [[9]]" "\<lparr>k_fd = 7, k_data = Some 0\<rparr>" ORIGIN_COPY "[9]" "[]"] c
  show "\<exists>c' e'. socksv5_copy_read sample_os \<lparr>k_fd = 7, k_data = Some 0\<rparr> (?c, sample_pair [[9]]) = Some (COPY, c', e')
     \<and> interest_of e' 5 = Some (OP_READ OR OP_WRITE)"
    by (fastforce simp: sample_os_def both_registered_def flow_def fd_of_def fills_def drains_def get_buf_def)
qed

text \<open>C27: A \<open>connect\<close> that succeeds at once. \<open>CONNECTION_DONE\<close> has the value 3 of the reply code
  \<open>NETWORK_UNREACHABLE\<close>, so the success branch of the \<open>switch\<close> is never taken: the client is told that
  the network is unreachable while the origin's descriptor is connected.\<close>

theorem connected_at_once:
  assumes "origin_resolution c = r # rest" "registry_ok e"
    and "os_socket os (ai_family r) (ai_socktype r) (ai_protocol r) (e_world e) = (SysOk fd, w1)"
    and "selector_fd_set_nio os fd w1 = (0, w2)" "os_connect os fd (ai_addr r) w2 = (SysOk (), w3)"
  shows "\<exists>c'. connect_to_dest os key (c, e) = Some (REPLY, c', poke (client_fd c) OP_WRITE (e\<lparr>e_world := w3\<rparr>))
    \<and> origin_fd c' = fd \<and> (\<exists>x. client c' = U_reply x \<and> rep x = NETWORK_UNREACHABLE)"
  using dial_at_once[OF assms, of key] by (auto simp: set_rep_def split: client_union.splits)

theorem connected_at_once_witness:
  "\<exists>c'. connect_to_dest (sample_os\<lparr>os_connect := \<lambda>fd a w. (SysOk (), w)\<rparr>) \<lparr>k_fd = 5, k_data = Some 0\<rparr>
      ((sample_conn (U_request sample_request))\<lparr>origin_resolution := [ip_result False 80 [127, 0, 0, 1]]\<rparr>, sample_server [])
      = Some (REPLY, c', poke 5 OP_WRITE (sample_server [])) \<and> origin_fd c' = 7"
proof -
  let ?os = "sample_os\<lparr>os_connect := \<lambda>fd a w. (SysOk (), w)\<rparr>"
  let ?c = "(sample_conn (U_request sample_request))\<lparr>origin_resolution := [ip_result False 80 [127, 0, 0, 1]]\<rparr>"
  have nio: "selector_fd_set_nio ?os 7 ([] :: byte list list) = (0, [])"
    by (simp add: selector_fd_set_nio_def) (simp add: sample_os_def)
  have s: "os_socket ?os a b p ([] :: byte list list) = (SysOk 7, [])" for a b p by (simp add: sample_os_def)
  have w: "(sample_server ([] :: byte list list))\<lparr>e_world := []\<rparr> = sample_server []" by (simp add: sample_server_def)
  from connected_at_once[of ?c "ip_result False 80 [127, 0, 0, 1]" "[]" "sample_server []" ?os 7 "[]" "[]" "[]" "\<lparr>k_fd = 5, k_data = Some 0\<rparr>"]
    s nio w
  show ?thesis by auto
qed

text \<open>C28: The last address of the destination failed. The \<open>switch\<close> compares the \<open>errno\<close> with SOCKS reply
  codes: a refused or unreachable destination gives \<open>SERVER_FAILURE\<close>, and the four values it does
  recognise set the reply to \<open>ret\<close>, which is 0, the code of success.\<close>

theorem connect_failure_reply:
  assumes "registry_ok e" "origin_resolution c = [r]"
    and "os_so_error os (origin_fd c) (e_world e) = (SysOk v, w)" "v \<noteq> 0" "client c = U_request x"
  shows "\<exists>c' e'. connect_write os key (c, e) = Some (REPLY, c', e')
    \<and> client c' = U_reply \<lparr>rep = (if v \<in> {3, 4, 5, 6} then SUCCEDED else SERVER_FAILURE), found_bnd_info = None\<rparr>
    \<and> origin_fd c' = - 1 \<and> e_world e' = os_close os (origin_fd c) w"
  using connect_write_failed[OF assms, of key] by (auto simp: so_error_reply_def)

theorem connect_failure_reply_witness:
  "\<exists>c' e'. connect_write (sample_os\<lparr>os_so_error := \<lambda>fd w. (SysOk ECONNREFUSED, w)\<rparr>) \<lparr>k_fd = 7, k_data = Some 0\<rparr>
      ((sample_conn (U_request sample_request))\<lparr>origin_resolution := [ip_result False 80 [127, 0, 0, 1]]\<rparr>, sample_server [])
      = Some (REPLY, c', e') \<and> client c' = U_reply \<lparr>rep = SERVER_FAILURE, found_bnd_info = None\<rparr>"
  using connect_failure_reply[of "sample_server []"
      "(sample_conn (U_request sample_request))\<lparr>origin_resolution := [ip_result False 80 [127, 0, 0, 1]]\<rparr>"
      "ip_result False 80 [127, 0, 0, 1]" "sample_os\<lparr>os_so_error := \<lambda>fd w. (SysOk ECONNREFUSED, w)\<rparr>" ECONNREFUSED "[]"
      sample_request "\<lparr>k_fd = 7, k_data = Some 0\<rparr>"]
  by fastforce

text \<open>C29: A user that was created can log in, with its password and no other; the other users are not
  affected.\<close>

theorem created_user_logs_in:
  assumes "users_ok db" "terminated name" "terminated pw" "junk_ok junk" "create_status db name pw = USER_OK"
  shows "\<exists>db'. user_create True True junk db name pw pl = Some (USER_OK, db') \<and> users_ok db'
    \<and> (\<forall>n p. terminated n \<and> terminated p \<longrightarrow> (\<exists>db''. user_authenticate db' n p = Some
        (if cstr n = cstr name then (if cstr p = cstr pw then USER_OK else USER_WRONGPASSWORD)
         else (case users_map db (cstr n) of None \<Rightarrow> USER_BADUSERNAME
               | Some (q, _) \<Rightarrow> if q = cstr p then USER_OK else USER_WRONGPASSWORD), db'')))"
proof -
  obtain db' where d: "user_create True True junk db name pw pl = Some (USER_OK, db')" "users_ok db'"
      "users_map db' = (users_map db)(cstr name \<mapsto> (cstr pw, pl))"
    using user_create_spec[OF assms(1-4), of pl] assms(5) by auto
  have "\<exists>db''. user_authenticate db' n p = Some
      (if cstr n = cstr name then (if cstr p = cstr pw then USER_OK else USER_WRONGPASSWORD)
       else (case users_map db (cstr n) of None \<Rightarrow> USER_BADUSERNAME
             | Some (q, _) \<Rightarrow> if q = cstr p then USER_OK else USER_WRONGPASSWORD), db'')"
    if "terminated n \<and> terminated p" for n p
    using user_authenticate_spec[OF d(2), of n p] that d(3) by (auto split: if_splits)
  with d(1,2) show ?thesis by blast
qed

theorem created_user_logs_in_witness:
  "\<exists>db'. user_create True True admin_user sample_db [97, 0] [98, 0] USER_PRIVILEGE_DEFAULT = Some (USER_OK, db')
    \<and> (\<exists>db''. user_authenticate db' [97, 0] [98, 0] = Some (USER_OK, db''))"
proof -
  have "create_status sample_db [97, 0] [98, 0] = USER_OK"
    by (simp add: create_status_def sample_db_ok cstr_def ascii_admin)
  from created_user_logs_in[OF sample_db_ok(1) _ _ _ this, of admin_user USER_PRIVILEGE_DEFAULT]
  obtain db' where d: "user_create True True admin_user sample_db [97, 0] [98, 0] USER_PRIVILEGE_DEFAULT = Some (USER_OK, db')"
    and a: "\<And>n p. terminated n \<and> terminated p \<Longrightarrow> \<exists>db''. user_authenticate db' n p = Some
        (if cstr n = cstr [97, 0] then (if cstr p = cstr [98, 0] then USER_OK else USER_WRONGPASSWORD)
         else (case users_map sample_db (cstr n) of None \<Rightarrow> USER_BADUSERNAME
               | Some (q, _) \<Rightarrow> if q = cstr p then USER_OK else USER_WRONGPASSWORD), db'')"
    using admin_user_ok by (auto simp: terminated_def junk_ok_def user_ok_def)
  from d a[of "[97, 0]" "[98, 0]"] show ?thesis by (auto simp: terminated_def)
qed

text \<open>C30: \<open>user_change_password\<close> copies \<open>strlen\<close> bytes, without the terminator. The password is then the new
  one followed by what the old one has beyond that length, and no other entry has changed. So the new
  password logs in exactly when it is not shorter than the old one.\<close>

theorem changed_password_keeps_tail:
  assumes "users_ok db" "terminated name" "terminated new" "length (cstr new) \<le> 254" "users_map db (cstr name) = Some (old, pl)"
  shows "\<exists>db' db''. user_change_password db name new = Some (USER_OK, db') \<and> users_ok db'
    \<and> users_map db' = (users_map db)(cstr name \<mapsto> (cstr new @ drop (length (cstr new)) old, pl))
    \<and> user_authenticate db' name new = Some (if length (cstr new) < length old then USER_WRONGPASSWORD else USER_OK, db'')"
proof -
  obtain db' where d: "user_change_password db name new = Some (USER_OK, db')" "users_ok db'"
      "users_map db' = (users_map db)(cstr name \<mapsto> (cstr new @ drop (length (cstr new)) old, pl))"
    using user_change_password_spec[OF assms(1-4)] assms(5) by auto
  then show ?thesis using user_authenticate_spec[OF d(2) assms(2,3)] by auto
qed

theorem changed_password_keeps_tail_witness:
  "\<exists>db' db''. user_change_password sample_db [97, 100, 109, 105, 110, 0] [120, 0] = Some (USER_OK, db')
    \<and> users_map db' [97, 100, 109, 105, 110] = Some ([120, 100, 109, 105, 110], 0)
    \<and> user_authenticate db' [97, 100, 109, 105, 110, 0] [120, 0] = Some (USER_WRONGPASSWORD, db'')"
  using changed_password_keeps_tail[OF sample_db_ok(1), of "[97, 100, 109, 105, 110, 0]" "[120, 0]"]
  by (fastforce simp: terminated_def cstr_def sample_db_ok ascii_admin)

text \<open>C31: The bounded queue is a window on the newest elements: what a burst leaves in it, dequeued in
  order, is the last \<open>max_capacity\<close> elements of the burst.\<close>

theorem bounded_queue_keeps_newest:
  assumes "create_queue True f limit = Some q" "\<And>x s. case f of None \<Rightarrow> True | Some g \<Rightarrow> g x s \<noteq> None"
  shows "\<exists>q1 q2. push_all fq_push xs (q, s) = Some q1
    \<and> pop_n fq_pop (length xs) q1 = Some (if limit = 0 then xs else drop (length xs - limit) xs, q2)
    \<and> queue_list (fst q2) = []"
proof -
  have q: "queue_inv q" "queue_list q = []" "q_max_capacity q = limit" "q_freeFn q = f"
    using create_queue_spec[OF assms(1)] by simp_all
  have "freeFn_total q" using assms(2) by (auto simp: freeFn_total_def freeFn_result_def q(4) split: option.splits)
  then have i: "fq_inv (q, s)" by (simp add: fq_inv_def q(1))
  from fq.burst_spec[OF i, of xs] q(2,3) show ?thesis by (simp add: keep_last_def)
qed

theorem bounded_queue_keeps_newest_witness:
  "\<exists>q q1 q2. create_queue True None 2 = Some q \<and> push_all fq_push [1, 2, 3 :: nat] (q, ()) = Some q1
    \<and> pop_n fq_pop 3 q1 = Some ([2, 3], q2)"
proof -
  obtain q :: "(nat, unit) queue" where q: "create_queue True None 2 = Some q" by (simp add: create_queue_def)
  from bounded_queue_keeps_newest[OF q, of "[1, 2, 3]" "()"]
  have "\<exists>q1 q2. push_all fq_push [1, 2, 3] (q, ()) = Some q1 \<and> pop_n fq_pop 3 q1 = Some ([2, 3], q2)"
    by (auto simp: eval_nat_numeral simp del: push_all.simps pop_n.simps)
  with q show ?thesis by blast
qed

text \<open>C32: The parser that \<open>parser_utils_strcmpi\<close> builds is a case-insensitive string comparison. After every
  byte of the input its event is \<open>STRING_CMP_EQ\<close> when the input so far equals the string without
  case, \<open>STRING_CMP_MAYEQ\<close> when it is a proper prefix of it, and \<open>STRING_CMP_NEQ\<close> otherwise.\<close>

theorem strcmpi_verdicts:
  assumes "parser_utils_strcmpi True str = Some d" "parser_init True parser_no_classes d = Some p" "255 \<notin> set cs"
  shows "\<exists>es p'. feed_all p cs = Some (es, p')
    \<and> map e_type es = map (\<lambda>i. verdict (cstr str) (take (Suc i) cs)) [0..<length cs]"
  using strcmpi_run[OF strcmpi_start[OF assms(1,2)] assms(3)] by auto

theorem strcmpi_verdicts_witness:
  "\<exists>d p es p'. parser_utils_strcmpi True [102, 111, 0] = Some d \<and> parser_init True parser_no_classes d = Some p
    \<and> feed_all p [70, 111, 120] = Some (es, p') \<and> map e_type es = [STRING_CMP_MAYEQ, STRING_CMP_EQ, STRING_CMP_NEQ]"
proof -
  obtain d where d: "parser_utils_strcmpi True [102, 111, 0] = Some d"
    by (simp add: parser_utils_strcmpi_def terminated_def cstr_def)
  obtain p where p: "parser_init True parser_no_classes d = Some p" by (simp add: parser_init_def)
  from strcmpi_verdicts[OF d p, of "[70, 111, 120]"] d p show ?thesis
    by (force simp: verdict_def cstr_def c_tolower_def Let_def)
qed

text \<open>C33: From a fresh management connection, over every sequence of events with any keys, the current
  state is one of the table's, the bounds of the buffer and of the arrays hold, users and registry
  stay consistent, and the field \<open>state\<close> of the substate, uninitialised in new memory, is set
  before anything reads it.\<close>

theorem pam_machine_safe:
  assumes "pam_good os (c, e)" "pam_run os evs (pam_machine_at None) (c, e) = Some (m', c', e')"
  shows "case current m' of None \<Rightarrow> pam_good os (c', e') | Some q \<Rightarrow> q < 4 \<and> pam_inv os q (c', e')"
proof -
  have "pam_machine.minv os (pam_machine_at None) (c, e)" using assms(1) by (simp add: pam_machine.minv_def)
  from pam_run_inv[OF assms(2) this] show ?thesis by (simp add: pam_machine.minv_def split: option.splits)
qed

theorem pam_machine_safe_witness:
  "\<exists>m' c' e'. pam_run sample_os [(Ev_read, \<lparr>k_fd = 5, k_data = Some 0\<rparr>), (Ev_write, \<lparr>k_fd = 5, k_data = Some 0\<rparr>)]
      (pam_machine_at None) (sample_pam None [] None 0, sample_server [[1, 1, 1, 97, 98]]) = Some (m', c', e')
    \<and> current m' = Some PAM_REQUEST \<and> pam_inv sample_os PAM_REQUEST (c', e')"
proof -
  have g: "pam_good sample_os (sample_pam None [] None 0, sample_server [[1, 1, 1, 97, 98]])" by (rule sample_pam_good) simp
  obtain c' e' where r: "pam_run sample_os [(Ev_read, \<lparr>k_fd = 5, k_data = Some 0\<rparr>), (Ev_write, \<lparr>k_fd = 5, k_data = Some 0\<rparr>)]
      (pam_machine_at None) (sample_pam None [] None 0, sample_server [[1, 1, 1, 97, 98]])
      = Some (pam_machine_at (Some PAM_REQUEST), c', e')" using sample_login by blast
  from pam_machine_safe[OF g r] have "pam_inv sample_os PAM_REQUEST (c', e')" by simp
  with r show ?thesis by (intro exI[of _ "pam_machine_at (Some PAM_REQUEST)"] exI[of _ c'] exI[of _ e']) simp
qed

text \<open>C34: A login message that arrives in one segment, with a name and a password of at most 254 bytes, is
  answered with version and status, and the status says whether the pair is right. After the
  answer the machine is in \<open>PAM_REQUEST\<close>, under the name that was sent, for either status.\<close>

theorem pam_login_answered:
  assumes "pam_good os (c, e)" "buffer_window (pm_buffer c) = []"
    and "os_recv os (k_fd key) PAM_BUFFER_SIZE (e_world e) = (SysOk (PAM_VERSION_1 # nu # np # u @ p), w1)"
    and "nu \<noteq> 0" "np \<noteq> 0" "length u = unat nu" "length p = unat np" "length u < 255" "length p < 255"
    and "os_send os (pm_client_fd c) [PAM_VERSION_1, if credentials_ok (e_users e) u p then PAM_AUTH_SUCCESS else PAM_AUTH_FAILURE] w1
      = (SysOk 2, w2)"
  shows "\<exists>c' e'. pam_run os [(Ev_read, key), (Ev_write, key)] (pam_machine_at None) (c, e) = Some (pam_machine_at (Some PAM_REQUEST), c', e')
    \<and> pr_state (pm_request c') = Some VER_N_RESERVED \<and> cstr (pa_username (pm_auth c')) = cstr u
    \<and> same_users (e_users e) (e_users e') \<and> e_world e' = w2"
proof -
  have "login_status (e_users e) (u @ [0]) p = (if credentials_ok (e_users e) u p then PAM_AUTH_SUCCESS else PAM_AUTH_FAILURE)"
    by (simp add: login_status_def credentials_ok_def cstr_field)
  then show ?thesis using login_run[OF assms(1-9)] assms(10) by auto
qed

theorem pam_login_answered_witness:
  "\<not> credentials_ok sample_db [97] [98]
    \<and> (\<exists>c' e'. pam_run sample_os [(Ev_read, \<lparr>k_fd = 5, k_data = Some 0\<rparr>), (Ev_write, \<lparr>k_fd = 5, k_data = Some 0\<rparr>)]
      (pam_machine_at None) (sample_pam None [] None 0, sample_server [[1, 1, 1, 97, 98]])
      = Some (pam_machine_at (Some PAM_REQUEST), c', e') \<and> cstr (pa_username (pm_auth c')) = [97])"
proof -
  have g: "pam_good sample_os (sample_pam None [] None 0, sample_server [[1, 1, 1, 97, 98]])" by (rule sample_pam_good) simp
  have no: "\<not> credentials_ok sample_db [97] [98]" by (simp add: credentials_ok_def sample_db_ok ascii_admin)
  have "\<exists>c' e'. pam_run sample_os [(Ev_read, \<lparr>k_fd = 5, k_data = Some 0\<rparr>), (Ev_write, \<lparr>k_fd = 5, k_data = Some 0\<rparr>)]
      (pam_machine_at None) (sample_pam None [] None 0, sample_server [[1, 1, 1, 97, 98]])
      = Some (pam_machine_at (Some PAM_REQUEST), c', e') \<and> pr_state (pm_request c') = Some VER_N_RESERVED
    \<and> cstr (pa_username (pm_auth c')) = cstr [97]
    \<and> same_users (e_users (sample_server [[1, 1, 1, 97, 98 :: byte]])) (e_users e') \<and> e_world e' = []"
    by (rule pam_login_answered[OF g, where nu = 1 and np = 1 and p = "[98]" and ?w1.0 = "[]"])
      (simp_all add: sample_recv sample_send)
  then show ?thesis using no by auto
qed

text \<open>C35: The privileged methods ask whether the name that was sent belongs to an administrator, and a
  failed login still reaches them: with that name and any password at all, the next request adds
  a user with the role it asks for.\<close>

theorem pam_impostor_adds_user:
  assumes "pam_good os (c, e)" "buffer_window (pm_buffer c) = []"
    and "os_recv os (k_fd key) PAM_BUFFER_SIZE (e_world e) = (SysOk (PAM_VERSION_1 # nu # np # u @ p), w1)"
    and "nu \<noteq> 0" "np \<noteq> 0" "length u = unat nu" "length p = unat np" "length u < 255" "length p < 255"
    and "os_send os (pm_client_fd c) [PAM_VERSION_1, login_status (e_users e) (u @ [0]) p] w1 = (SysOk 2, w2)"
    and "os_recv os (k_fd key) PAM_BUFFER_SIZE w2
        = (SysOk (PAM_VERSION_1 # RESERVED_BYTE # 0 # 2 # n1 # n2 # nv # v @ nx # x @ [role]), w3)"
    and "length v = unat nv" "length x = unat nx" "length v < 255" "length x < 255" "unat (be16 n1 n2) = 3 + length v + length x"
    and "os_malloc os w3 = (True, w4)" "os_malloc os w4 = (True, w5)"
    and "is_admin (e_users e) u" "users_map (e_users e) (cstr v) = None"
  shows "\<exists>c' e'. pam_run os [(Ev_read, key), (Ev_write, key), (Ev_read, key)] (pam_machine_at None) (c, e)
      = Some (pam_machine_at (Some PAM_REQUEST), c', e')
    \<and> users_map (e_users e') = (users_map (e_users e))(cstr v \<mapsto> (cstr x, unat role))"
proof -
  obtain c1 e1 where 1: "pam_run os [(Ev_read, key), (Ev_write, key)] (pam_machine_at None) (c, e)
      = Some (pam_machine_at (Some PAM_REQUEST), c1, e1)" "pam_good os (c1, e1)" "buffer_window (pm_buffer c1) = []"
      "pr_state (pm_request c1) = Some VER_N_RESERVED" "pr_reserved (pm_request c1) = RESERVED_BYTE"
      "cstr (pa_username (pm_auth c1)) = cstr u" "terminated (pa_username (pm_auth c1))"
      "same_users (e_users e) (e_users e1)" "e_world e1 = w2"
    using login_run[OF assms(1-10)] by blast
  have us: "users_map (e_users e1) = users_map (e_users e)" using same_usersD[OF 1(8)] by simp
  have "is_admin (e_users e1) (pa_username (pm_auth c1))" using assms(19) us 1(6) by (simp add: is_admin_def)
  note ad = this
  have r2: "os_recv os (k_fd key) PAM_BUFFER_SIZE (e_world e1)
      = (SysOk (PAM_VERSION_1 # RESERVED_BYTE # 0 # 2 # n1 # n2 # nv # v @ nx # x @ [role]), w3)" using assms(11) 1(9) by simp
  have fresh: "users_map (e_users e1) (cstr v) = None" using assms(20) us by simp
  obtain c2 e2 where 2: "pam_run os [(Ev_read, key)] (pam_machine_at (Some PAM_REQUEST)) (c1, e1)
      = Some (pam_machine_at (Some PAM_REQUEST), c2, e2)"
      "users_map (e_users e2) = (users_map (e_users e))(cstr v \<mapsto> (cstr x, unat role))"
    using add_request_run[OF 1(2-5) r2 assms(12-18) 1(7) ad fresh] unfolding us by blast
  have "pam_run os ([(Ev_read, key), (Ev_write, key)] @ [(Ev_read, key)]) (pam_machine_at None) (c, e)
      = Some (pam_machine_at (Some PAM_REQUEST), c2, e2)"
    unfolding pam_run_append 1(1) using 2(1) by simp
  then show ?thesis using 2(2) by simp
qed

theorem pam_impostor_adds_user_witness:
  "\<exists>c' e'. pam_run sample_os [(Ev_read, \<lparr>k_fd = 5, k_data = Some 0\<rparr>), (Ev_write, \<lparr>k_fd = 5, k_data = Some 0\<rparr>), (Ev_read, \<lparr>k_fd = 5, k_data = Some 0\<rparr>)]
      (pam_machine_at None) (sample_pam None [] None 0,
        sample_server [[1, 5, 1, 97, 100, 109, 105, 110, 120], [1, 0, 0, 2, 0, 5, 1, 98, 1, 99, 0]])
      = Some (pam_machine_at (Some PAM_REQUEST), c', e') \<and> users_map (e_users e') [98] = Some ([99], USER_PRIVILEGE_ADMIN)"
proof -
  let ?req = "[1, 0, 0, 2, 0, 5, 1, 98, 1, 99, 0] :: byte list"
  let ?e = "sample_server [[1, 5, 1, 97, 100, 109, 105, 110, 120], ?req]"
  have g: "pam_good sample_os (sample_pam None [] None 0, ?e)" by (rule sample_pam_good) simp
  have b: "unat (be16 0 5) = 5" by (simp add: be16_def ntohs_from_mem16)
  have "\<exists>c' e'. pam_run sample_os [(Ev_read, \<lparr>k_fd = 5, k_data = Some 0\<rparr>), (Ev_write, \<lparr>k_fd = 5, k_data = Some 0\<rparr>), (Ev_read, \<lparr>k_fd = 5, k_data = Some 0\<rparr>)]
      (pam_machine_at None) (sample_pam None [] None 0, ?e) = Some (pam_machine_at (Some PAM_REQUEST), c', e')
    \<and> users_map (e_users e') = (users_map (e_users ?e))(cstr [98] \<mapsto> (cstr [99], unat (0 :: byte)))"
    by (rule pam_impostor_adds_user[OF g, where nu = 5 and np = 1 and u = "[97, 100, 109, 105, 110]" and p = "[120]"
        and ?n1.0 = 0 and ?n2.0 = 5 and nv = 1 and nx = 1 and ?w1.0 = "[?req]" and ?w2.0 = "[?req]" and ?w3.0 = "[]" and ?w4.0 = "[]" and ?w5.0 = "[]"])
      (use b sample_admin in \<open>simp_all add: sample_recv sample_send sample_malloc ascii_admin\<close>)
  then show ?thesis by (elim exE conjE) (intro exI conjI, assumption, simp)
qed

text \<open>C36: Under a name that is not an administrator's, adding and removing users, changing passwords and
  changing roles are answered with \<open>PAM_REQUEST_UNAUTHORIZED\<close>, and no user changes.\<close>

theorem pam_unprivileged_refused:
  assumes "pam_good os (c, e)" "pr_method (pm_request c) \<in> {2, 3, 4, 5}" "terminated (pa_username (pm_auth c))"
    and "\<not> is_admin (e_users e) (pa_username (pm_auth c))" "handle_pam_request_method os b (c, e) = Some (c', e')"
  shows "pr_status (pm_request c') = PAM_REQUEST_UNAUTHORIZED \<and> same_users (e_users e) (e_users e')"
  using handle_refused[OF assms] by (simp add: set_status_rest)

theorem pam_unprivileged_refused_witness:
  "\<exists>c' e'. handle_pam_request_method sample_os (holding [5, 97, 100, 109, 105, 110, 1]) (sample_pam None [98] None 5, sample_server [])
      = Some (c', e') \<and> pr_status (pm_request c') = PAM_REQUEST_UNAUTHORIZED \<and> users_map (e_users e') = users_map sample_db"
proof -
  let ?c = "sample_pam None [98] None 5" and ?b = "holding [5, 97, 100, 109, 105, 110, 1]"
  have g: "pam_good sample_os (?c, sample_server ([] :: byte list list))" by (rule sample_pam_good) simp
  have t: "terminated (pa_username (pm_auth ?c))" by simp
  have m: "pr_method (pm_request ?c) \<in> {2, 3, 4, 5}" by simp
  have na: "\<not> is_admin (e_users (sample_server ([] :: byte list list))) (pa_username (pm_auth ?c))"
    using sample_refused_run(2) by simp
  obtain c' e' where run: "handle_pam_request_method sample_os ?b (?c, sample_server []) = Some (c', e')"
    using sample_refused_run(1) by blast
  from pam_unprivileged_refused[OF g m t na run] have "pr_status (pm_request c') = PAM_REQUEST_UNAUTHORIZED"
      "users_map (e_users e') = users_map sample_db" by (simp_all add: same_usersD)
  with run show ?thesis by blast
qed

text \<open>C37: The request for the metrics is answered with version, success, the length and the text of the
  four counters; a counter below \<open>2 ^ 31\<close> reads back from its decimal text.\<close>

theorem pam_metrics_answered:
  assumes "pam_good os (c, e)" "pr_state (pm_request c) = Some VER_N_RESERVED" "pr_reserved (pm_request c) = RESERVED_BYTE"
    and "buffer_window (pm_buffer c) = []"
    and "os_recv os (k_fd key) PAM_BUFFER_SIZE (e_world e) = (SysOk [PAM_VERSION_1, RESERVED_BYTE, 0, 6, 0, 0], w)"
  shows "\<exists>c' n. pam_request_read os key (c, e) = Some (PAM_REQUEST, c', poke (k_fd key) OP_WRITE (e\<lparr>e_world := w\<rparr>))
    \<and> unat n = length (metrics_message @ metrics_text (e_metrics e))
    \<and> buffer_window (pm_buffer c') = [PAM_VERSION_1, PAM_REQUEST_SUCCESS] @ mem16 (htons n)
        @ metrics_message @ metrics_text (e_metrics e)
    \<and> (\<forall>x junk. unat x < 2 ^ 31 \<longrightarrow> c_atoi (int_text x @ 0 # junk) = int (unat x))"
proof -
  have z: "unat (be16 0 0) = 0" by (simp add: be16_def ntohs_from_mem16)
  obtain lb c1 where 1: "method_ready os [] c lb c1" "pr_method (pm_request c1) = be16 0 6"
      "pam_request_read os key (c, e) = do { s \<leftarrow> handle_pam_request_method os lb (c1, e\<lparr>e_world := w\<rparr>); pam_answer key s }"
    using pam_request_spec[OF assms(1-4), of key 0 6 0 0 "[]" "[]" w] assms(5) z by auto
  have g1: "pam_good os (c1, e\<lparr>e_world := w\<rparr>)" using assms(1) 1(1) by (simp add: pam_good_def method_ready_def)
  obtain c2 where 2: "handle_get_metrics (c1, e\<lparr>e_world := w\<rparr>) = Some (c2, e\<lparr>e_world := w\<rparr>)"
      "pr_status (pm_request c2) = PAM_REQUEST_SUCCESS"
      "take (unat (pr_write_nbody (pm_request c2))) (pr_write_body (pm_request c2)) = metrics_message @ metrics_text (e_metrics e)"
    using metrics_spec[OF g1] by auto
  have g2: "pam_good os (c2, e\<lparr>e_world := w\<rparr>)" using handle_metrics_keeps[OF 2(1) g1] by (simp add: kept_def)
  have "unat (pr_write_nbody (pm_request c2)) < 2 ^ 16" using unsigned_less[of "pr_write_nbody (pm_request c2)"] by simp
  then have len: "unat (pr_write_nbody (pm_request c2)) = length (metrics_message @ metrics_text (e_metrics e))"
    using arg_cong[OF 2(3), of length] goodP(1)[OF g2] by (simp add: pam_ok_def)
  have "unat (pr_write_nbody (pm_request c2)) \<le> 65532"
    unfolding len using metrics_text_length[of "e_metrics e"] by (simp add: metrics_message_def ascii_def)
  from pam_answer_spec[OF g2 this, of key] obtain b where
    "pam_answer key (c2, e\<lparr>e_world := w\<rparr>) = Some (PAM_REQUEST, c2\<lparr>pm_buffer := b\<rparr>, poke (k_fd key) OP_WRITE (e\<lparr>e_world := w\<rparr>))"
    "buffer_window b = answer_bytes (pm_request c2)" by blast
  moreover have "pr_method (pm_request c1) = 6" using 1(2) by (simp add: be16_def ntohs_from_mem16)
  ultimately show ?thesis using 1(3) 2 len int_text_reads_back
    by (intro exI[of _ "c2\<lparr>pm_buffer := b\<rparr>"] exI[of _ "pr_write_nbody (pm_request c2)"])
      (simp add: handle_pam_request_method_def answer_bytes_def)
qed

theorem pam_metrics_answered_witness:
  "\<exists>c' e' n. pam_request_read sample_os \<lparr>k_fd = 5, k_data = Some 0\<rparr>
      (sample_pam None [] (Some VER_N_RESERVED) 0, sample_server [[1, 0, 0, 6, 0, 0]]) = Some (PAM_REQUEST, c', e')
    \<and> take 2 (buffer_window (pm_buffer c')) = [1, 0]"
proof -
  have g: "pam_good sample_os (sample_pam None [] (Some VER_N_RESERVED) 0, sample_server [[1, 0, 0, 6, 0, 0]])"
    by (rule sample_pam_good) simp
  from pam_metrics_answered[OF g, where key = "\<lparr>k_fd = 5, k_data = Some 0\<rparr>" and w = "[]"]
  obtain c' n where "pam_request_read sample_os \<lparr>k_fd = 5, k_data = Some 0\<rparr>
      (sample_pam None [] (Some VER_N_RESERVED) 0, sample_server [[1, 0, 0, 6, 0, 0]])
      = Some (PAM_REQUEST, c', poke 5 OP_WRITE ((sample_server [[1, 0, 0, 6, 0, 0]])\<lparr>e_world := []\<rparr>))"
    "buffer_window (pm_buffer c') = [PAM_VERSION_1, PAM_REQUEST_SUCCESS] @ mem16 (htons n)
        @ metrics_message @ metrics_text (e_metrics (sample_server [[1, 0, 0, 6, 0, 0 :: byte]]))"
    by (auto simp: sample_recv)
  then show ?thesis by auto
qed

text \<open>C38: The user list has one line per user, with \<open>@\<close> for administrators and \<open>#\<close> for the others. The
  length counts the initial message twice, so as many zero bytes follow the text, and the status
  is not set: the answer carries the byte that memory holds.\<close>

theorem pam_listing_overlong:
  assumes "pam_good os (c, e)" "pr_method (pm_request c) = 1"
    and "length (listing (e_users e)) + length listing_message \<le> 65532"
  shows "\<exists>c' e' b n. handle_pam_request_method os lb (c, e) = Some (c', e') \<and> same_users (e_users e) (e_users e')
    \<and> pam_answer key (c', e') = Some (PAM_REQUEST, c'\<lparr>pm_buffer := b\<rparr>, poke (k_fd key) OP_WRITE e')
    \<and> unat n = length (listing (e_users e)) + length listing_message
    \<and> buffer_window b = [PAM_VERSION_1, pr_status (pm_request c)] @ mem16 (htons n)
        @ listing (e_users e) @ replicate (length listing_message) 0"
proof -
  have fit: "length (listing (e_users e)) + length listing_message < PAM_BUFFER_SIZE" using assms(3) by simp
  obtain c1 e1 where 1: "handle_get_connected_users_list (c, e) = Some (c1, e1)" "same_users (e_users e) (e_users e1)"
      "pr_status (pm_request c1) = pr_status (pm_request c)"
      "take (unat (pr_write_nbody (pm_request c1))) (pr_write_body (pm_request c1))
        = listing (e_users e) @ replicate (length listing_message) 0"
    using listing_spec[OF assms(1) fit] by blast
  have g1: "pam_good os (c1, e1)" using handle_list_keeps[OF 1(1) assms(1)] by (simp add: kept_def)
  have "unat (pr_write_nbody (pm_request c1)) < 2 ^ 16" using unsigned_less[of "pr_write_nbody (pm_request c1)"] by simp
  then have len: "unat (pr_write_nbody (pm_request c1)) = length (listing (e_users e)) + length listing_message"
    using arg_cong[OF 1(4), of length] goodP(1)[OF g1] by (simp add: pam_ok_def)
  from pam_answer_spec[OF g1, of key] len assms(3) obtain b where
    "pam_answer key (c1, e1) = Some (PAM_REQUEST, c1\<lparr>pm_buffer := b\<rparr>, poke (k_fd key) OP_WRITE e1)"
    "buffer_window b = answer_bytes (pm_request c1)" by auto
  then show ?thesis using 1 len assms(2)
    by (intro exI[of _ c1] exI[of _ e1] exI[of _ b] exI[of _ "pr_write_nbody (pm_request c1)"])
      (simp add: handle_pam_request_method_def answer_bytes_def)
qed

theorem pam_listing_overlong_witness:
  "\<exists>c' e'. handle_pam_request_method sample_os (holding []) (sample_pam None [] None 1, sample_server []) = Some (c', e')
    \<and> (\<exists>b. pam_answer \<lparr>k_fd = 5, k_data = Some 0\<rparr> (c', e') = Some (PAM_REQUEST, c'\<lparr>pm_buffer := b\<rparr>, poke 5 OP_WRITE e')
      \<and> take 2 (buffer_window b) = [1, 7])"
proof -
  let ?c = "sample_pam None [] None 1" and ?e = "sample_server ([] :: byte list list)"
  have len: "length (listing sample_db) + length listing_message = 43"
    by (simp add: sample_listing listing_message_def ascii_def)
  have g: "pam_good sample_os (?c, ?e)" by (rule sample_pam_good) simp
  have "\<exists>c' e' b (n :: u16). handle_pam_request_method sample_os (holding []) (?c, ?e) = Some (c', e')
      \<and> same_users (e_users ?e) (e_users e')
      \<and> pam_answer \<lparr>k_fd = 5, k_data = Some 0\<rparr> (c', e') = Some (PAM_REQUEST, c'\<lparr>pm_buffer := b\<rparr>, poke (k_fd \<lparr>k_fd = 5, k_data = Some (0 :: nat)\<rparr>) OP_WRITE e')
      \<and> unat n = length (listing (e_users ?e)) + length listing_message
      \<and> buffer_window b = [PAM_VERSION_1, pr_status (pm_request ?c)] @ mem16 (htons n)
          @ listing (e_users ?e) @ replicate (length listing_message) 0"
    by (rule pam_listing_overlong[OF g]) (use len in simp_all)
  then obtain c' e' b and n :: u16 where "handle_pam_request_method sample_os (holding []) (?c, ?e) = Some (c', e')"
    "pam_answer \<lparr>k_fd = 5, k_data = Some 0\<rparr> (c', e') = Some (PAM_REQUEST, c'\<lparr>pm_buffer := b\<rparr>, poke (k_fd \<lparr>k_fd = 5, k_data = Some (0 :: nat)\<rparr>) OP_WRITE e')"
    "buffer_window b = [PAM_VERSION_1, pr_status (pm_request ?c)] @ mem16 (htons n)
          @ listing (e_users ?e) @ replicate (length listing_message) 0" by blast
  then show ?thesis by (intro exI[of _ c'] exI[of _ e'] conjI exI[of _ b]) simp_all
qed

text \<open>C39: The four methods with arguments never set the length and the body of the answer. What follows the
  status on the wire is then as many bytes as the old length says, from the old body: memory of
  the connection that nothing has initialised.\<close>

theorem pam_stale_answer:
  assumes "pam_good os (c, e)" "pr_method (pm_request c) \<in> {2, 3, 4, 5}" "buffer_inv lb"
    and "handle_pam_request_method os lb (c, e) = Some (c', e')" "unat (pr_write_nbody (pm_request c)) \<le> 65532"
  shows "\<exists>b. pam_answer key (c', e') = Some (PAM_REQUEST, c'\<lparr>pm_buffer := b\<rparr>, poke (k_fd key) OP_WRITE e')
    \<and> buffer_window b = [PAM_VERSION_1, pr_status (pm_request c')] @ mem16 (htons (pr_write_nbody (pm_request c)))
        @ take (unat (pr_write_nbody (pm_request c))) (pr_write_body (pm_request c))"
proof -
  have g: "pam_good os (c', e')" using handle_method_keeps[OF assms(4,1,3)] by (simp add: kept_def)
  note st = stale_answer[OF assms(4,2)]
  then have "unat (pr_write_nbody (pm_request c')) \<le> 65532" using assms(5) by simp
  from pam_answer_spec[OF g this, of key] st show ?thesis by (auto simp: answer_bytes_def)
qed

theorem pam_stale_answer_witness:
  "\<exists>c' e' b. handle_pam_request_method sample_os (holding [5, 97, 100, 109, 105, 110, 1]) (sample_pam None [98] None 5, sample_server [])
      = Some (c', e')
    \<and> pam_answer \<lparr>k_fd = 5, k_data = Some 0\<rparr> (c', e') = Some (PAM_REQUEST, c'\<lparr>pm_buffer := b\<rparr>, poke 5 OP_WRITE e')
    \<and> drop 2 (buffer_window b) = [0, 3, 9, 9, 9]"
proof -
  let ?c = "sample_pam None [98] None 5" and ?b = "holding [5, 97, 100, 109, 105, 110, 1]"
  have g: "pam_good sample_os (?c, sample_server ([] :: byte list list))" by (rule sample_pam_good) simp
  have t: "terminated (pa_username (pm_auth ?c))" by simp
  have m: "pr_method (pm_request ?c) \<in> {2, 3, 4, 5}" by simp
  have na: "\<not> is_admin (e_users (sample_server ([] :: byte list list))) (pa_username (pm_auth ?c))"
    using sample_refused_run(2) by simp
  obtain c' e' where run: "handle_pam_request_method sample_os ?b (?c, sample_server []) = Some (c', e')"
    using sample_refused_run(1) by blast
  have lb: "buffer_inv ?b" by (simp add: holding_ok)
  have n: "unat (pr_write_nbody (pm_request ?c)) \<le> 65532" by simp
  have n3: "mem16 (htons 3) = [0, 3]" by (simp add: mem16_htons)
  from pam_stale_answer[OF g m lb run n, of "\<lparr>k_fd = 5, k_data = Some 0\<rparr>"] obtain b where
    "pam_answer \<lparr>k_fd = 5, k_data = Some 0\<rparr> (c', e') = Some (PAM_REQUEST, c'\<lparr>pm_buffer := b\<rparr>, poke (k_fd \<lparr>k_fd = 5, k_data = Some (0 :: nat)\<rparr>) OP_WRITE e')"
    "buffer_window b = [PAM_VERSION_1, pr_status (pm_request c')] @ mem16 (htons (pr_write_nbody (pm_request ?c)))
      @ take (unat (pr_write_nbody (pm_request ?c))) (pr_write_body (pm_request ?c))" by blast
  then show ?thesis using run n3 by (intro exI[of _ c'] exI[of _ e'] exI[of _ b]) simp
qed

text \<open>C40: The checks for bytes still to come ask \<open>buffer_write_ptr\<close>, which gives the room left. A segment
  with the first two bytes of a request passes them, and advancing over the two bytes of the method
  that have not arrived fails the assertion of \<open>buffer_read_adv\<close>.\<close>

theorem pam_fragment_aborts:
  assumes "pam_good os (c, e)" "pr_state (pm_request c) = Some VER_N_RESERVED" "pr_reserved (pm_request c) = RESERVED_BYTE"
    and "buffer_window (pm_buffer c) = []"
    and "os_recv os (k_fd key) PAM_BUFFER_SIZE (e_world e) = (SysOk [PAM_VERSION_1, RESERVED_BYTE], w)"
  shows "pam_request_read os key (c, e) = None"
  by (rule fragment_aborts[OF assms])

theorem pam_fragment_aborts_witness:
  "pam_request_read sample_os \<lparr>k_fd = 5, k_data = Some 0\<rparr>
    (sample_pam None [] (Some VER_N_RESERVED) 0, sample_server [[1, 0]]) = None"
  by (rule pam_fragment_aborts[OF sample_pam_good]) (simp_all add: sample_recv)

end
